(* ===== verification/Prelude.thy ===== *)
theory Prelude
  imports Main "HOL-Library.Word"
begin

unbundle bit_operations_syntax

text \<open>
  Shared vocabulary of the development: the machine types of the C++ sources, the failures a
  C++ operation can run into, raw little-endian memory access on byte strings, and the generic
  facts on lists, options and words that the component theories use.

  A buffer (\<open>std::basic_string<uint8_t>\<close>, \<open>QByteArray\<close>) is a list of bytes. Both classes keep a
  terminating zero after the last byte, so \<open>data()[size()]\<close> is a legal read of 0 and every
  read further out is undefined behaviour; \<open>byte_at\<close> is exactly that, with \<open>None\<close> for the
  undefined read.
\<close>

type_synonym byte = "8 word"
type_synonym u16 = "16 word"
type_synonym u32 = "32 word"
type_synonym i64 = int
type_synonym bytestring = "byte list"

text \<open>
  The collections the component proofs draw on: \<open>codec_simps\<close> for byte-level encodings,
  \<open>io_defs\<close> for the unfolding of state-passing operations.
\<close>

named_theorems codec_simps
named_theorems io_defs

text \<open>The failures the sources raise.\<close>

datatype cpp_error =
    OutOfRange          \<comment> \<open>\<open>std::out_of_range\<close>, from \<open>at()\<close> and \<open>substr()\<close>\<close>
  | RuntimeError string \<comment> \<open>\<open>std::runtime_error\<close>\<close>
  | DataNotReady        \<comment> \<open>the \<open>DataNotReady\<close> exceptions of the incremental readers\<close>
  | Undefined           \<comment> \<open>a read outside every buffer: undefined behaviour\<close>

section \<open>Raw memory access\<close>

definition byte_at :: "bytestring \<Rightarrow> nat \<Rightarrow> byte option" where
  "byte_at s i = (if i < length s then Some (s ! i) else if i = length s then Some 0 else None)"

definition mk16 :: "byte \<Rightarrow> byte \<Rightarrow> u16" where
  "mk16 b0 b1 = ucast b0 OR push_bit 8 (ucast b1)"

definition mk32 :: "byte \<Rightarrow> byte \<Rightarrow> byte \<Rightarrow> byte \<Rightarrow> u32" where
  "mk32 b0 b1 b2 b3 =
     ucast b0 OR push_bit 8 (ucast b1) OR push_bit 16 (ucast b2) OR push_bit 24 (ucast b3)"

definition le16 :: "u16 \<Rightarrow> bytestring" where
  "le16 x = [ucast x, ucast (drop_bit 8 x)]"

definition le32 :: "u32 \<Rightarrow> bytestring" where
  "le32 x = [ucast x, ucast (drop_bit 8 x), ucast (drop_bit 16 x), ucast (drop_bit 24 x)]"

text \<open>\<open>*(std::uint16_t*)(&s[i])\<close> and \<open>*(std::uint32_t*)(&s[i])\<close> on a little-endian machine.\<close>

definition load16 :: "bytestring \<Rightarrow> nat \<Rightarrow> u16 option" where
  "load16 s i = (case (byte_at s i, byte_at s (i + 1)) of
     (Some b0, Some b1) \<Rightarrow> Some (mk16 b0 b1) | _ \<Rightarrow> None)"

definition load32 :: "bytestring \<Rightarrow> nat \<Rightarrow> u32 option" where
  "load32 s i = (case (byte_at s i, byte_at s (i + 1), byte_at s (i + 2), byte_at s (i + 3)) of
     (Some b0, Some b1, Some b2, Some b3) \<Rightarrow> Some (mk32 b0 b1 b2 b3) | _ \<Rightarrow> None)"

text \<open>\<open>append(p, n)\<close> and \<open>memcpy(dst, p, n)\<close> with \<open>p\<close> pointing \<open>i\<close> bytes into \<open>s\<close>.\<close>

definition load_bytes :: "bytestring \<Rightarrow> nat \<Rightarrow> nat \<Rightarrow> bytestring option" where
  "load_bytes s i n =
     (if i + n \<le> length s then Some (take n (drop i s))
      else if i + n = Suc (length s) \<and> 0 < n then Some (drop i s @ [0])
      else if n = 0 then Some [] else None)"

text \<open>\<open>std::basic_string::substr(pos)\<close> and \<open>substr(pos, n)\<close>: the first throws beyond the end.\<close>

definition substr_from :: "bytestring \<Rightarrow> nat \<Rightarrow> cpp_error + bytestring" where
  "substr_from s pos = (if pos \<le> length s then Inr (drop pos s) else Inl OutOfRange)"

definition substr :: "bytestring \<Rightarrow> nat \<Rightarrow> nat \<Rightarrow> cpp_error + bytestring" where
  "substr s pos n = (if pos \<le> length s then Inr (take n (drop pos s)) else Inl OutOfRange)"

text \<open>The bytes of a string literal of the source.\<close>

definition ascii :: "string \<Rightarrow> bytestring" where
  "ascii s = map (\<lambda>c. word_of_nat (of_char c)) s"

section \<open>Little-endian encodings\<close>

lemma length_le16 [simp]: "length (le16 x) = 2"
  by (simp add: le16_def)

lemma length_le32 [simp]: "length (le32 x) = 4"
  by (simp add: le32_def)

lemma mk16_le16 [simp]: "mk16 (ucast x) (ucast (drop_bit 8 x)) = x"
  unfolding mk16_def by (rule bit_word_eqI) (auto simp: bit_simps)

lemma bit_byte_beyond [simp]: "8 \<le> n \<Longrightarrow> \<not> bit (b :: byte) n"
  by (auto dest: bit_imp_le_length)

lemma and_255_eq: "x AND 255 = take_bit 8 (x :: 'a :: len word)"
  by (simp add: take_bit_eq_mask mask_eq_exp_minus_1)

lemma and_15_eq: "x AND 15 = take_bit 4 (x :: 'a :: len word)"
  by (simp add: take_bit_eq_mask mask_eq_exp_minus_1)

lemma mk32_le32 [simp]:
  "mk32 (ucast x) (ucast (drop_bit 8 x)) (ucast (drop_bit 16 x)) (ucast (drop_bit 24 x)) = x"
  unfolding mk32_def
proof (rule bit_word_eqI)
  fix n assume "n < LENGTH(32)"
  then consider "n < 8" | "8 \<le> n" "n < 16" | "16 \<le> n" "n < 24" | "24 \<le> n" "n < 32"
    by fastforce
  then show "bit ((ucast (ucast x :: byte) :: u32) OR push_bit 8 (ucast (ucast (drop_bit 8 x) :: byte)) OR
      push_bit 16 (ucast (ucast (drop_bit 16 x) :: byte)) OR
      push_bit 24 (ucast (ucast (drop_bit 24 x) :: byte))) n = bit x n"
    by cases (auto simp: bit_simps)
qed

lemma unat_ucast_le [simp]:
  assumes "LENGTH('a) \<le> LENGTH('b)"
  shows "unat (ucast (x :: 'a :: len word) :: 'b :: len word) = unat x"
proof -
  have "unat x < 2 ^ LENGTH('a)" by (rule unsigned_less)
  also have "(2::nat) ^ LENGTH('a) \<le> 2 ^ LENGTH('b)" using assms by (rule power_increasing) simp
  finally show ?thesis
    by (simp add: unsigned_ucast_eq take_bit_nat_eq_self)
qed

lemma le16_mk16 [simp]: "le16 (mk16 a b) = [a, b]"
  unfolding le16_def mk16_def
  by (auto intro!: bit_word_eqI simp: bit_simps)

lemma le32_mk32 [simp]: "le32 (mk32 a b c d) = [a, b, c, d]"
  unfolding le32_def mk32_def
  by (auto intro!: bit_word_eqI simp: bit_simps)

section \<open>Memory access at known positions\<close>

lemma byte_at_less [simp]: "i < length s \<Longrightarrow> byte_at s i = Some (s ! i)"
  by (simp add: byte_at_def)

lemma byte_at_length [simp]: "byte_at s (length s) = Some 0"
  by (simp add: byte_at_def)

lemma byte_at_None_iff: "byte_at s i = None \<longleftrightarrow> length s < i"
  by (auto simp: byte_at_def)

lemma byte_at_append_right [simp]: "byte_at (xs @ ys) (length xs + i) = byte_at ys i"
  by (simp add: byte_at_def)

lemma load16_le16 [simp]: "load16 (le16 x @ ys) 0 = Some x"
  by (simp add: load16_def le16_def)

lemma load32_le32 [simp]: "load32 (le32 x @ ys) 0 = Some x"
  by (simp add: load32_def le32_def)

lemma le16_inject: "le16 x = le16 y \<Longrightarrow> x = y"
  using load16_le16 [of x "[]"] load16_le16 [of y "[]"] by simp

lemma le32_inject: "le32 x = le32 y \<Longrightarrow> x = y"
  using load32_le32 [of x "[]"] load32_le32 [of y "[]"] by simp

lemma load16_less: "i + 1 < length s \<Longrightarrow> load16 s i = Some (mk16 (s ! i) (s ! (i + 1)))"
  by (simp add: load16_def)

lemma load32_less:
  "i + 3 < length s \<Longrightarrow> load32 s i = Some (mk32 (s ! i) (s ! (i + 1)) (s ! (i + 2)) (s ! (i + 3)))"
  by (simp add: load32_def)

lemma load16_at [codec_simps]:
  assumes "length xs = i"
  shows "load16 (xs @ le16 x @ ys) i = Some x"
  using assms by (auto simp: load16_less nth_append le16_def)

lemma load32_at [codec_simps]:
  assumes "length xs = i"
  shows "load32 (xs @ le32 x @ ys) i = Some x"
  using assms by (auto simp: load32_less nth_append le32_def)

lemma load_bytes_at [codec_simps]:
  assumes "length xs = i" and "length bs = n"
  shows "load_bytes (xs @ bs @ ys) i n = Some bs"
  using assms by (simp add: load_bytes_def)

lemma load_bytes_length: "load_bytes s i n = Some bs \<Longrightarrow> length bs = n"
  by (auto simp: load_bytes_def split: if_splits)

section \<open>Results\<close>

lemma map_sum_id_eq_Inr [simp]: "map_sum id f x = Inr y \<longleftrightarrow> (\<exists>z. x = Inr z \<and> y = f z)"
  by (cases x) auto

lemma map_sum_id_eq_Inl [simp]: "map_sum id f x = Inl e \<longleftrightarrow> x = Inl e"
  by (cases x) auto

section \<open>Generic lists\<close>

lemma take_Suc_nth: "i < length xs \<Longrightarrow> take (Suc i) xs = take i xs @ [xs ! i]"
  by (rule take_Suc_conv_app_nth)

lemma drop_append_exact [simp]: "length xs = n \<Longrightarrow> drop n (xs @ ys) = ys"
  by simp

lemma take_append_exact [simp]: "length xs = n \<Longrightarrow> take n (xs @ ys) = xs"
  by simp

lemma list_update_append_exact [simp]:
  "length xs = n \<Longrightarrow> (xs @ y # ys)[n := z] = xs @ z # ys"
  by (simp add: list_update_append)

end
