(* ===== verification/Packet_Crypt.thy ===== *)
theory Packet_Crypt
  imports Prelude
begin

text \<open>
  The cipher of the TA network format, \<open>TPacket::decrypt\<close> and \<open>TPacket::encrypt\<close>
  (\<open>libs/tapacket/TPacket.cpp\<close>): bytes 3 to \<open>size - 4\<close> are xored with a running key and their
  16-bit sum travels in bytes 1 and 2. The loops are kept as loops over the byte index; the closed
  form \<open>mask_bytes\<close> and the checksum \<open>check_sum\<close> are what they compute. Proved: decrypting what was
  encrypted restores every byte but the two checksum bytes and the two checksums agree, and
  changing one byte of the enciphered region is always noticed.
\<close>

section \<open>The operations\<close>

text \<open>The \<open>for\<close> loop of \<open>decrypt\<close>: state is the index, the 8-bit key and the running checksum.\<close>

function decrypt_loop :: "nat \<Rightarrow> byte \<Rightarrow> u16 \<Rightarrow> bytestring \<Rightarrow> bytestring \<times> u16" where
  "decrypt_loop i xorKey checkCalculated data =
     (if i + 4 \<le> length data
      then decrypt_loop (i + 1) (xorKey + 1) (checkCalculated + ucast (data ! i))
             (data[i := data ! i XOR xorKey])
      else (data, checkCalculated))"
  by pat_completeness auto
termination
  by (relation "measure (\<lambda>(i, k, c, d). length d - i)") auto

declare decrypt_loop.simps [simp del]

text \<open>
  \<open>decrypt\<close> returns the new buffer and the pair \<open>(checkExtracted, checkCalculated)\<close>; on a buffer
  shorter than \<open>4 + ofs\<close> the two references are left unassigned (\<open>None\<close>) and the pad byte 6 is
  appended.
\<close>

definition decrypt :: "bytestring \<Rightarrow> nat \<Rightarrow> bytestring \<times> (u16 \<times> u16) option" where
  "decrypt data ofs =
     (if length data < 4 + ofs then (data @ [0x06], None)
      else let checkExtracted = mk16 (data ! (ofs + 1)) (data ! (ofs + 2));
               (data', checkCalculated) = decrypt_loop (ofs + 3) 3 0 data
           in (data', Some (checkExtracted, checkCalculated)))"

function encrypt_loop :: "nat \<Rightarrow> u16 \<Rightarrow> bytestring \<Rightarrow> bytestring \<times> u16" where
  "encrypt_loop i check data =
     (if i + 4 \<le> length data
      then let b = data ! i XOR word_of_nat i
           in encrypt_loop (i + 1) (check + ucast b) (data[i := b])
      else (data, check))"
  by pat_completeness auto
termination
  by (relation "measure (\<lambda>(i, c, d). length d - i)") auto

declare encrypt_loop.simps [simp del]

definition encrypt :: "bytestring \<Rightarrow> bytestring" where
  "encrypt data =
     (if length data < 4 then data @ [0x06]
      else let (data', check) = encrypt_loop 3 0 data
           in data'[1 := ucast (check AND 0x00ff), 2 := ucast (drop_bit 8 check)])"

section \<open>What the loops compute\<close>

definition in_body :: "bytestring \<Rightarrow> nat \<Rightarrow> nat \<Rightarrow> bool" where
  "in_body data lo i \<longleftrightarrow> lo \<le> i \<and> i + 4 \<le> length data"

definition mask_bytes :: "nat \<Rightarrow> nat \<Rightarrow> bytestring \<Rightarrow> bytestring" where
  "mask_bytes ofs lo data =
     map (\<lambda>i. if in_body data lo i then data ! i XOR word_of_nat (i - ofs) else data ! i)
         [0..<length data]"

definition check_sum :: "nat \<Rightarrow> bytestring \<Rightarrow> u16" where
  "check_sum lo data = (\<Sum>i = lo..<length data - 3. ucast (data ! i))"

lemma length_mask_bytes [simp]: "length (mask_bytes ofs lo data) = length data"
  by (simp add: mask_bytes_def)

lemma nth_mask_bytes:
  "i < length data \<Longrightarrow> mask_bytes ofs lo data ! i =
     (if in_body data lo i then data ! i XOR word_of_nat (i - ofs) else data ! i)"
  by (simp add: mask_bytes_def)

lemma mask_bytes_step:
  assumes "in_body data lo lo"
  shows "mask_bytes ofs (lo + 1) (data[lo := data ! lo XOR word_of_nat (lo - ofs)])
           = mask_bytes ofs lo data"
  using assms
  by (intro nth_equalityI) (auto simp: nth_mask_bytes in_body_def nth_list_update)

lemma mask_bytes_stop: "\<not> in_body data lo lo \<Longrightarrow> mask_bytes ofs lo data = data"
  by (intro nth_equalityI) (auto simp: nth_mask_bytes in_body_def)

lemma check_sum_step:
  "in_body data lo lo \<Longrightarrow> check_sum lo data = ucast (data ! lo) + check_sum (lo + 1) data"
  by (simp add: check_sum_def in_body_def sum.atLeast_Suc_lessThan)

lemma check_sum_stop: "\<not> in_body data lo lo \<Longrightarrow> check_sum lo data = 0"
  by (auto simp: check_sum_def in_body_def)

lemma check_sum_cong:
  assumes "length d = length e" and "\<And>i. in_body d lo i \<Longrightarrow> d ! i = e ! i"
  shows "check_sum lo d = check_sum lo e"
  using assms by (auto simp: check_sum_def in_body_def intro!: sum.cong)

lemma check_sum_update_below:
  "j < lo \<Longrightarrow> check_sum lo (d[j := b]) = check_sum lo d"
  by (rule check_sum_cong) (auto simp: in_body_def)

lemma decrypt_loop_eq:
  assumes "ofs \<le> i" and "k = word_of_nat (i - ofs)"
  shows "decrypt_loop i k c data = (mask_bytes ofs i data, c + check_sum i data)"
  using assms
proof (induction i k c data rule: decrypt_loop.induct)
  case (1 i k c data)
  show ?case
  proof (cases "i + 4 \<le> length data")
    case True
    then have body: "in_body data i i" by (simp add: in_body_def)
    let ?d = "data[i := data ! i XOR k]"
    have "k + 1 = word_of_nat (i + 1 - ofs)"
      using "1.prems" by (simp add: Suc_diff_le)
    moreover have "check_sum (i + 1) ?d = check_sum (i + 1) data"
      by (simp add: check_sum_update_below)
    ultimately have "decrypt_loop i k c data =
        (mask_bytes ofs (i + 1) ?d, c + ucast (data ! i) + check_sum (i + 1) data)"
      using "1.IH" [OF True] "1.prems" True by (simp add: decrypt_loop.simps [of i])
    then show ?thesis
      using mask_bytes_step [OF body, of ofs] check_sum_step [OF body] "1.prems"
      by (simp add: add.assoc)
  next
    case False
    then show ?thesis
      by (simp add: decrypt_loop.simps [of i] mask_bytes_stop check_sum_stop in_body_def)
  qed
qed

lemma encrypt_loop_eq:
  "encrypt_loop i c data = (mask_bytes 0 i data, c + check_sum i (mask_bytes 0 i data))"
proof (induction i c data rule: encrypt_loop.induct)
  case (1 i c data)
  show ?case
  proof (cases "i + 4 \<le> length data")
    case True
    then have body: "in_body data i i" by (simp add: in_body_def)
    let ?b = "data ! i XOR word_of_nat i"
    let ?e = "mask_bytes 0 i data"
    have e: "mask_bytes 0 (i + 1) (data[i := ?b]) = ?e"
      using mask_bytes_step [OF body, of 0] by simp
    have "encrypt_loop i c data = (?e, c + ucast ?b + check_sum (i + 1) ?e)"
      using "1.IH" [OF True refl] True e by (simp add: encrypt_loop.simps [of i])
    moreover have "check_sum i ?e = ucast ?b + check_sum (i + 1) ?e"
      using True body by (subst check_sum_step) (auto simp: in_body_def nth_mask_bytes)
    ultimately show ?thesis by (simp add: add.assoc)
  next
    case False
    then show ?thesis
      by (simp add: encrypt_loop.simps [of i] mask_bytes_stop check_sum_stop in_body_def)
  qed
qed

lemma decrypt_eq:
  "4 + ofs \<le> length data \<Longrightarrow> decrypt data ofs =
     (mask_bytes ofs (ofs + 3) data,
      Some (mk16 (data ! (ofs + 1)) (data ! (ofs + 2)), check_sum (ofs + 3) data))"
  by (simp add: decrypt_def decrypt_loop_eq [of ofs])

text \<open>The checksum bytes \<open>encrypt\<close> stores are the little-endian halves of the checksum.\<close>

lemma check_bytes [simp]: "ucast ((c :: u16) AND 0x00ff) = (ucast c :: byte)"
  by (rule bit_word_eqI) (auto simp: and_255_eq bit_simps)

lemma encrypt_eq:
  assumes "4 \<le> length data"
  shows "encrypt data = (let e = mask_bytes 0 3 data; c = check_sum 3 e
           in e[1 := ucast c, 2 := ucast (drop_bit 8 c)])"
  using assms by (simp add: encrypt_def encrypt_loop_eq Let_def)

lemma length_encrypt [simp]: "4 \<le> length data \<Longrightarrow> length (encrypt data) = length data"
  by (simp add: encrypt_eq Let_def)

lemma check_sum_encrypt:
  "4 \<le> length data \<Longrightarrow> check_sum 3 (encrypt data) = check_sum 3 (mask_bytes 0 3 data)"
  by (simp add: encrypt_eq Let_def check_sum_update_below)

lemma encrypt_check_bytes:
  "4 \<le> length data \<Longrightarrow> mk16 (encrypt data ! 1) (encrypt data ! 2) = check_sum 3 (encrypt data)"
  by (simp add: check_sum_encrypt) (simp add: encrypt_eq Let_def)

lemma mask_bytes_involution:
  "mask_bytes ofs lo (mask_bytes ofs lo data) = data"
  by (intro nth_equalityI) (auto simp: nth_mask_bytes in_body_def xor.assoc)

lemma mask_bytes_update_below:
  "j < lo \<Longrightarrow> mask_bytes ofs lo (data[j := b]) = (mask_bytes ofs lo data)[j := b]"
  by (intro nth_equalityI; case_tac "i = j") (auto simp: nth_mask_bytes in_body_def)

lemma check_sum_update:
  assumes "in_body data lo i"
  shows "check_sum lo (data[i := b]) + ucast (data ! i) = check_sum lo data + ucast b"
proof -
  have i: "i \<in> {lo..<length data - 3}" and fin: "finite {lo..<length data - 3}"
    using assms by (auto simp: in_body_def)
  have "(\<Sum>j\<in>{lo..<length data - 3} - {i}. ucast (data[i := b] ! j) :: u16)
      = (\<Sum>j\<in>{lo..<length data - 3} - {i}. ucast (data ! j))"
    by (rule sum.cong) auto
  then show ?thesis
    using i assms by (simp add: check_sum_def sum.remove [OF fin i] in_body_def)
qed

lemma ucast_byte_u16_eq_iff [simp]: "(ucast (a :: byte) :: u16) = ucast b \<longleftrightarrow> a = b"
  by (metis le16_mk16 list.inject mk16_def push_bit_of_0 or.right_neutral ucast_0)

section \<open>Properties\<close>

lemma decrypt_encrypt_eq:
  assumes "4 \<le> length data"
  shows "decrypt (encrypt data) 0 =
     (data[1 := encrypt data ! 1, 2 := encrypt data ! 2],
      Some (check_sum 3 (encrypt data), check_sum 3 (encrypt data)))"
proof -
  have "mask_bytes 0 3 (encrypt data) = data[1 := encrypt data ! 1, 2 := encrypt data ! 2]"
    using assms by (simp add: encrypt_eq Let_def mask_bytes_update_below mask_bytes_involution)
  then show ?thesis
    using assms encrypt_check_bytes [OF assms] by (simp add: decrypt_eq numeral_2_eq_2)
qed

text \<open>
  Encrypting a packet of at least 4 bytes and decrypting the result gives the packet back,
  except for bytes 1 and 2, which hold the checksum, and the checksum extracted from the packet
  equals the one calculated over it, so the receiver accepts the packet.
\<close>

theorem decrypt_encrypt:
  assumes "4 \<le> length data"
  shows "decrypt (encrypt data) 0 =
     (data[1 := encrypt data ! 1, 2 := encrypt data ! 2],
      Some (check_sum 3 (encrypt data), check_sum 3 (encrypt data)))"
  using assms by (rule decrypt_encrypt_eq)

theorem decrypt_encrypt_witness:
  "4 \<le> length [3, 0, 0, 10, 20, 30, 40, 50 :: byte] \<and>
   decrypt (encrypt [3, 0, 0, 10, 20, 30, 40, 50]) 0 =
     ([3, 25, 0, 10, 20, 30, 40, 50], Some (25, 25))"
proof -
  have "4 \<le> length [3, 0, 0, 10, 20, 30, 40, 50 :: byte]" by simp
  from this decrypt_encrypt [OF this] show ?thesis by code_simp
qed

lemma decrypt_changed:
  assumes "in_body data 3 i" and "b \<noteq> encrypt data ! i"
  shows "\<exists>x y. snd (decrypt ((encrypt data)[i := b]) 0) = Some (x, y) \<and> x \<noteq> y"
proof -
  have len: "4 \<le> length data" using assms(1) by (auto simp: in_body_def)
  have body: "in_body (encrypt data) 3 i" using assms(1) len by (simp add: in_body_def)
  have "check_sum 3 ((encrypt data)[i := b]) \<noteq> check_sum 3 (encrypt data)"
    using check_sum_update [OF body, of b] assms(2) by auto
  moreover have "3 \<le> i" using assms(1) by (simp add: in_body_def)
  ultimately show ?thesis
    using len encrypt_check_bytes [OF len] by (simp add: decrypt_eq numeral_2_eq_2)
qed

end
