(* ===== verification/Packet_Compress.thy ===== *)
theory Packet_Compress
  imports Prelude
begin

text \<open>
  The LZ-style compression of the TA network format, \<open>TPacket::compress\<close> and
  \<open>TPacket::decompress\<close> (\<open>libs/tapacket/TPacket.cpp\<close>). A compressed packet is a header followed
  by groups of one flag byte and eight items; an item is a literal byte or a 16-bit command naming
  an earlier position and a length, and the command 0 ends the packet.

  The definitions follow the loops of the source with its index arithmetic (positions are 1-based
  there: \<open>data[index - 1]\<close>). The proof goes through the sequence of items (\<open>token\<close>): the
  compressor writes the packed form of a token list, the decompressor expands the packed form of any
  well-formed token list, and the compressor's token list expands to its input.
\<close>

section \<open>TPacket::compress\<close>

text \<open>The \<open>while\<close> of the dictionary search: how far the data at \<open>a\<close> agrees with the data at \<open>index\<close>.\<close>

function match_run :: "bytestring \<Rightarrow> nat \<Rightarrow> nat \<Rightarrow> nat \<Rightarrow> nat" where
  "match_run data a index cmatchl =
     (if a + cmatchl < index \<and> index + cmatchl < length data
         \<and> data ! (a + cmatchl - 1) = data ! (index + cmatchl - 1)
      then match_run data a index (cmatchl + 1) else cmatchl)"
  by pat_completeness auto
termination
  by (relation "measure (\<lambda>(d, a, index, c). index - (a + c))") auto

text \<open>
  The \<open>for\<close> over earlier positions, with its early \<open>break\<close>; the result is \<open>(matchl, match)\<close>.
  (\<open>match\<close> has no initial value in the source; it is read only when \<open>matchl > 2\<close>, after an
  assignment.)
\<close>

function match_scan :: "bytestring \<Rightarrow> nat \<Rightarrow> nat \<Rightarrow> nat \<Rightarrow> nat \<Rightarrow> nat \<times> nat" where
  "match_scan data index a matchl match =
     (if a < index - 1
      then let cmatchl = match_run data a index 0 in
           if cmatchl > matchl
           then if cmatchl > 17 then (cmatchl, a)
                else match_scan data index (a + 1) cmatchl a
           else match_scan data index (a + 1) matchl match
      else (matchl, match))"
  by pat_completeness auto
termination
  by (relation "measure (\<lambda>(d, index, a, ml, m). index - a)") auto

text \<open>The second \<open>while\<close>: how long the byte before \<open>index\<close> is repeated.\<close>

function repeat_run :: "bytestring \<Rightarrow> nat \<Rightarrow> nat \<Rightarrow> nat" where
  "repeat_run data index cmatchl =
     (if index + cmatchl < length data \<and> data ! (index + cmatchl - 1) = data ! (index - 2)
      then repeat_run data index (cmatchl + 1) else cmatchl)"
  by pat_completeness auto
termination
  by (relation "measure (\<lambda>(d, index, c). length d - (index + c))") auto

declare match_run.simps [simp del] match_scan.simps [simp del] repeat_run.simps [simp del]

definition find_match :: "bytestring \<Rightarrow> nat \<Rightarrow> nat \<times> nat" where
  "find_match data index =
     (let (matchl, match) = match_scan data index 4 2 0;
          cmatchl = repeat_run data index 0
      in if cmatchl > matchl then (cmatchl, index - 1) else (matchl, match))"

text \<open>
  One round of the main loop decides what to emit at \<open>index\<close>: \<open>None\<close> for the literal
  \<open>data[index - 1]\<close>, or \<open>Some (match, matchl)\<close> with \<open>matchl\<close> already reduced to the four bits of
  the command.
\<close>

definition choose_item :: "bytestring \<Rightarrow> nat \<Rightarrow> (nat \<times> nat) option" where
  "choose_item data index =
     (if index < 6 \<or> index > 2000 then None
      else let (matchl, match) = find_match data index
           in if matchl > 2 then Some (match, (matchl - 2) mod 16) else None)"

definition kommando :: "nat \<Rightarrow> nat \<Rightarrow> u16" where
  "kommando match matchl = push_bit 4 (word_of_nat (match - 3)) OR word_of_nat matchl"

function compress_loop ::
  "bytestring \<Rightarrow> nat \<Rightarrow> nat \<Rightarrow> nat \<Rightarrow> bytestring \<Rightarrow> nat \<times> nat \<times> bytestring" where
  "compress_loop data index count cbf result =
     (if index < length data + 1
      then let (count, cbf, result) =
                 (if count = 7 then (0, length result + 1, result @ [0]) else (count + 1, cbf, result))
           in case choose_item data index of
                None \<Rightarrow> compress_loop data (index + 1) count cbf (result @ [data ! (index - 1)])
              | Some (match, matchl) \<Rightarrow>
                  compress_loop data (index + (matchl + 2)) count cbf
                    (result[cbf - 1 := result ! (cbf - 1) OR push_bit count 1]
                       @ le16 (kommando match matchl))
      else (count, cbf, result))"
  by pat_completeness auto
termination
  by (relation "measure (\<lambda>(d, index, c, cbf, r). length d + 1 - index)") auto

declare compress_loop.simps [simp del]

text \<open>The end marker: the remaining flag bits are set and the command 0 follows.\<close>

definition finish_stream :: "nat \<Rightarrow> nat \<Rightarrow> bytestring \<Rightarrow> bytestring" where
  "finish_stream count cbf result =
     (if count = 7 then result @ [0xff]
      else result[cbf - 1 := result ! (cbf - 1) OR push_bit (count + 1) 0xff]) @ [0, 0]"

definition compress :: "bytestring \<Rightarrow> bytestring" where
  "compress data =
     (let (count, cbf, result) = compress_loop data 4 7 0 [];
          result = finish_stream count cbf result
      in if length result + 3 < length data
         then [0x04, data ! 1, data ! 2] @ result
         else data[0 := 0x03])"

section \<open>TPacket::decompress\<close>

text \<open>\<open>for (b = a; b < uop + a + 2; ++b)\<close>: copy \<open>n\<close> bytes from the 1-based position \<open>b\<close> of the output.\<close>

fun copy_back :: "nat \<Rightarrow> nat \<Rightarrow> bytestring \<Rightarrow> bytestring" where
  "copy_back 0 b result = result"
| "copy_back (Suc n) b result =
     copy_back n (b + 1) (result @ [if b \<le> length result then result ! (b - 1) else 0])"

text \<open>
  The nested loops of \<open>decompress\<close>. \<open>nump = 8\<close> is the test of the outer \<open>while\<close>, which fetches the
  next flag byte; smaller values are the rounds of the inner \<open>for\<close>. The 16-bit read at the last
  byte takes the terminating zero of the buffer as its high byte.
\<close>

function decompress_loop ::
  "bytestring \<Rightarrow> nat \<Rightarrow> nat \<Rightarrow> byte \<Rightarrow> nat \<Rightarrow> bytestring \<Rightarrow> bytestring" where
  "decompress_loop data headerSize nump cbf index result =
     (if nump < 8
      then if length data \<le> index then result[0 := 0x04]
           else if \<not> bit cbf nump
           then decompress_loop data headerSize (nump + 1) cbf (index + 1) (result @ [data ! index])
           else let uop = mk16 (data ! index) (if index + 1 < length data then data ! (index + 1) else 0);
                    a = unat (drop_bit 4 uop)
                in if a = 0 then result
                   else decompress_loop data headerSize (nump + 1) cbf (index + 2)
                          (copy_back (unat (uop AND 0x0f) + 2) (a + headerSize) result)
      else if index < length data
      then decompress_loop data headerSize 0 (data ! index) (index + 1) result
      else result)"
  by pat_completeness auto
termination
  by (relation "measure (\<lambda>(d, h, n, c, index, r). length d - index)") auto

declare decompress_loop.simps [simp del]

text \<open>
  A buffer whose first byte is not 4 is returned as it is (the first byte of an empty buffer is the
  terminating 0). Copying a header longer than the buffer is undefined: \<open>None\<close>.
\<close>

definition decompress :: "bytestring \<Rightarrow> nat \<Rightarrow> bytestring option" where
  "decompress data headerSize =
     (if byte_at data 0 \<noteq> Some 0x04 then Some data
      else case load_bytes data 0 headerSize of
             None \<Rightarrow> None
           | Some hdr \<Rightarrow> Some (decompress_loop data headerSize 8 0 headerSize (hdr[0 := 0x03])))"

section \<open>Token streams\<close>

datatype token = Lit byte | Copy nat nat  \<comment> \<open>1-based position, number of bytes\<close>

fun token_bytes :: "token \<Rightarrow> bytestring" where
  "token_bytes (Lit b) = [b]"
| "token_bytes (Copy m n) = le16 (kommando m (n - 2))"

fun is_copy :: "token \<Rightarrow> bool" where
  "is_copy (Lit b) = False"
| "is_copy (Copy m n) = True"

fun token_ok :: "token \<Rightarrow> bool" where
  "token_ok (Lit b) = True"
| "token_ok (Copy m n) = (4 \<le> m \<and> m \<le> 2000 \<and> 2 \<le> n \<and> n \<le> 17)"

fun expand :: "bytestring \<Rightarrow> token list \<Rightarrow> bytestring" where
  "expand out [] = out"
| "expand out (Lit b # ts) = expand (out @ [b]) ts"
| "expand out (Copy m n # ts) = expand (copy_back n m out) ts"

definition flag_of :: "nat \<Rightarrow> token \<Rightarrow> byte" where
  "flag_of i t = (if is_copy t then push_bit i 1 else 0)"

text \<open>The packed form of a token list, given the group being written (its last item has number \<open>count\<close>).\<close>

fun pack :: "nat \<Rightarrow> byte \<Rightarrow> bytestring \<Rightarrow> token list \<Rightarrow> bytestring" where
  "pack count flag pay [] =
     (if count = 7 then flag # pay @ [0xff, 0, 0]
      else (flag OR push_bit (count + 1) 0xff) # pay @ [0, 0])"
| "pack count flag pay (t # ts) =
     (if count = 7 then flag # pay @ pack 0 (flag_of 0 t) (token_bytes t) ts
      else pack (count + 1) (flag OR flag_of (count + 1) t) (pay @ token_bytes t) ts)"

text \<open>The token list the compressor emits from \<open>index\<close> on.\<close>

function tokens :: "bytestring \<Rightarrow> nat \<Rightarrow> token list" where
  "tokens data index =
     (if index < length data + 1
      then case choose_item data index of
             None \<Rightarrow> Lit (data ! (index - 1)) # tokens data (index + 1)
           | Some (m, l) \<Rightarrow> Copy m (l + 2) # tokens data (index + (l + 2))
      else [])"
  by pat_completeness auto
termination
  by (relation "measure (\<lambda>(d, index). length d + 1 - index)") auto

declare tokens.simps [simp del]

lemma tokens_end: "length data < index \<Longrightarrow> tokens data index = []"
  by (simp add: tokens.simps)

lemma tokens_first: "3 < length data \<Longrightarrow> tokens data 4 = Lit (data ! 3) # tokens data 5"
  by (subst tokens.simps) (simp add: choose_item_def)

section \<open>The compressor writes the packed tokens\<close>

lemma compress_loop_pack:
  assumes "result = pre @ flag # pay" and "cbf = length pre + 1" and "count \<le> 7"
  shows "(case compress_loop data index count cbf result of
           (count, cbf, result) \<Rightarrow> finish_stream count cbf result)
         = pre @ pack count flag pay (tokens data index)"
  using assms
proof (induction "length data + 1 - index" arbitrary: index count cbf result pre flag pay
    rule: less_induct)
  case less
  show ?case
  proof (cases "index < length data + 1")
    case False
    then show ?thesis
      using less.prems
      by (simp add: compress_loop.simps [of data index] tokens.simps [of data index] finish_stream_def)
  next
    case True
    have IH: "(case compress_loop data j c (length q + 1) (q @ f # p) of
           (count, cbf, result) \<Rightarrow> finish_stream count cbf result) = q @ pack c f p (tokens data j)"
      if "index < j" "c \<le> 7" for j c f p and q :: bytestring
      by (rule less.hyps) (use that True in auto)
    show ?thesis
    proof (cases "choose_item data index")
      case None
      have "(case compress_loop data index count cbf result of
             (count, cbf, result) \<Rightarrow> finish_stream count cbf result)
          = pre @ pack count flag pay (Lit (data ! (index - 1)) # tokens data (index + 1))"
        using less.prems True None
          IH [of "index + 1" 0 "pre @ flag # pay" 0 "[data ! (index - 1)]"]
          IH [of "index + 1" "count + 1" pre flag "pay @ [data ! (index - 1)]"]
        by (auto simp: compress_loop.simps [of data index] flag_of_def)
      then show ?thesis
        using True None by (simp add: tokens.simps [of data index])
    next
      case (Some ml)
      obtain m l where ml: "ml = (m, l)" by (cases ml)
      have "(case compress_loop data index count cbf result of
             (count, cbf, result) \<Rightarrow> finish_stream count cbf result)
          = pre @ pack count flag pay (Copy m (l + 2) # tokens data (index + (l + 2)))"
        using less.prems True Some ml
          IH [of "index + (l + 2)" 0 "pre @ flag # pay" 1 "le16 (kommando m l)"]
          IH [of "index + (l + 2)" "count + 1" pre "flag OR push_bit (count + 1) 1"
                "pay @ le16 (kommando m l)"]
        by (auto simp: compress_loop.simps [of data index] flag_of_def nth_append list_update_append)
      then show ?thesis
        using True Some ml by (simp add: tokens.simps [of data index])
    qed
  qed
qed

text \<open>The whole stream, from the empty output.\<close>

fun pack_all :: "token list \<Rightarrow> bytestring" where
  "pack_all [] = [0xff, 0, 0]"
| "pack_all (t # ts) = pack 0 (flag_of 0 t) (token_bytes t) ts"

lemma compress_stream:
  "(case compress_loop data 4 7 0 [] of (count, cbf, result) \<Rightarrow> finish_stream count cbf result)
   = pack_all (tokens data 4)"
proof (cases "choose_item data 4")
  case None
  then show ?thesis
    using compress_loop_pack [of _ "[]" 0 "[data ! 3]" 1 0 data 5]
    by (auto simp: compress_loop.simps [of data 4] tokens.simps [of data 4] flag_of_def
        finish_stream_def)
next
  case (Some ml)
  then show ?thesis by (simp add: choose_item_def)
qed

lemma compress_eq:
  "compress data = (let result = pack_all (tokens data 4) in
     if length result + 3 < length data then [0x04, data ! 1, data ! 2] @ result
     else data[0 := 0x03])"
  using compress_stream [of data] by (auto simp: compress_def Let_def split: prod.splits)

section \<open>The decompressor expands packed tokens\<close>

lemma word_of_nat_take_bit: "n < 2 ^ k \<Longrightarrow> (word_of_nat n :: u16) = take_bit k (word_of_nat n)"
  by (simp add: take_bit_of_nat take_bit_nat_eq_self)

lemma kommando_fields:
  assumes "m - 3 < 4096" and "l < 16"
  shows "unat (drop_bit 4 (kommando m l)) = m - 3" and "unat (kommando m l AND 0x0f) = l"
proof -
  let ?x = "word_of_nat (m - 3) :: u16" and ?y = "word_of_nat l :: u16"
  have x: "?x = take_bit 12 ?x" and y: "?y = take_bit 4 ?y"
    using assms by (auto intro: word_of_nat_take_bit)
  have "drop_bit 4 (push_bit 4 (take_bit 12 ?x) OR take_bit 4 ?y) = take_bit 12 ?x"
    by (rule bit_word_eqI) (auto simp: bit_simps)
  moreover have "take_bit 4 (push_bit 4 (take_bit 12 ?x) OR take_bit 4 ?y) = take_bit 4 ?y"
    by (rule bit_word_eqI) (auto simp: bit_simps)
  ultimately have "drop_bit 4 (kommando m l) = ?x" and "kommando m l AND 0x0f = ?y"
    unfolding kommando_def and_15_eq using x y by simp_all
  then show "unat (drop_bit 4 (kommando m l)) = m - 3" and "unat (kommando m l AND 0x0f) = l"
    using assms by (simp_all add: unat_of_nat)
qed

text \<open>A command in the byte stream at \<open>index\<close> is read back as the 16-bit value written.\<close>

lemma read_command:
  assumes "drop index data = le16 k @ rest"
  shows "index + 1 < length data" and "mk16 (data ! index) (data ! Suc index) = k"
proof -
  have "length (drop index data) = 2 + length rest"
    using assms by simp
  then show i: "index + 1 < length data" by simp
  have "data ! index = drop index data ! 0" "data ! Suc index = drop index data ! 1"
    using i by auto
  then show "mk16 (data ! index) (data ! Suc index) = k"
    unfolding assms by (simp add: le16_def)
qed

lemma decompress_loop_tokens:
  assumes "drop index data = concat (map token_bytes us) @ rest" and "rest \<noteq> []"
    and "nump + length us \<le> 8"
    and "\<And>i. i < length us \<Longrightarrow> bit cbf (nump + i) = is_copy (us ! i)"
    and "list_all token_ok us"
  shows "decompress_loop data 3 nump cbf index out =
     decompress_loop data 3 (nump + length us) cbf
       (index + length (concat (map token_bytes us))) (expand out us)"
  using assms
proof (induction us arbitrary: nump index out)
  case Nil
  then show ?case by simp
next
  case (Cons t us)
  have flag: "bit cbf nump = is_copy t"
    using Cons.prems(4) [of 0] by simp
  have "drop index data \<noteq> []"
    using Cons.prems(1,2) by simp
  then have lt: "nump < 8" "index < length data"
    using Cons.prems(3) by auto
  have IH: "decompress_loop data 3 (Suc nump) cbf (index + length (token_bytes t)) out' =
      decompress_loop data 3 (Suc nump + length us) cbf
       (index + length (token_bytes t) + length (concat (map token_bytes us))) (expand out' us)" for out'
  proof (rule Cons.IH)
    show "drop (index + length (token_bytes t)) data = concat (map token_bytes us) @ rest"
      using Cons.prems(1) by (simp add: add.commute [of index] flip: drop_drop)
    show "bit cbf (Suc nump + i) = is_copy (us ! i)" if "i < length us" for i
      using Cons.prems(4) [of "Suc i"] that by simp
  qed (use Cons.prems in auto)
  show ?case
  proof (cases t)
    case (Lit b)
    then have "drop index data = b # concat (map token_bytes us) @ rest"
      using Cons.prems(1) by simp
    then have "data ! index = b"
      by (rule nth_via_drop)
    then show ?thesis
      using IH Lit flag lt by (simp add: decompress_loop.simps [of data 3 nump])
  next
    case (Copy m n)
    then have rd: "drop index data = le16 (kommando m (n - 2)) @ concat (map token_bytes us) @ rest"
      using Cons.prems(1) by simp
    have ok: "4 \<le> m" "m \<le> 2000" "2 \<le> n" "n \<le> 17"
      using Cons.prems(5) Copy by auto
    then have "m - 3 < 4096" "n - 2 < 16" by auto
    note k = kommando_fields [OF this]
    have n: "Suc (Suc (n - 2)) = n" using ok by simp
    show ?thesis
      using IH Copy flag lt read_command [OF rd] k ok n
      by (simp add: decompress_loop.simps [of data 3 nump] Let_def del: copy_back.simps)
  qed
qed

text \<open>The flag byte of a group announces exactly its items.\<close>

definition flag_ok :: "byte \<Rightarrow> token list \<Rightarrow> bool" where
  "flag_ok flag us \<longleftrightarrow> (\<forall>i < 8. bit flag i \<longleftrightarrow> i < length us \<and> is_copy (us ! i))"

lemma flag_ok_first: "flag_ok (flag_of 0 t) [t]"
  by (auto simp: flag_ok_def flag_of_def bit_simps)

lemma flag_ok_snoc:
  "flag_ok flag us \<Longrightarrow> length us < 8 \<Longrightarrow> flag_ok (flag OR flag_of (length us) t) (us @ [t])"
  by (auto simp: flag_ok_def flag_of_def bit_simps nth_append less_Suc_eq)

lemma drop_Suc_tl: "drop (Suc n) xs = tl (drop n xs)"
  by (simp add: drop_Suc tl_drop)

lemma drop_Cons_index: "drop j xs = y # ys \<Longrightarrow> j < length xs"
  by (rule ccontr) simp

lemma drop_append_shift: "drop i xs = ys @ zs \<Longrightarrow> drop (i + length ys) xs = zs"
  by (simp add: add.commute [of i] flip: drop_drop)

lemma pack_nonempty: "pack count flag pay ts \<noteq> []"
  by (induction count flag pay ts rule: pack.induct) auto

lemma expand_append: "expand out (us @ ts) = expand (expand out us) ts"
  by (induction out us rule: expand.induct) auto

lemma decompress_stop:
  assumes "drop j data = 0 # 0 # rest" and "nump < 8" and "bit f nump"
  shows "decompress_loop data 3 nump f j out = out"
proof -
  have "drop j data = le16 0 @ rest" using assms(1) by (simp add: le16_def)
  from read_command [OF this] show ?thesis
    using assms(2,3) by (simp add: decompress_loop.simps [of data 3 nump] Let_def)
qed

lemma decompress_end_group:
  assumes "drop j data = 0xff # 0 # 0 # rest"
  shows "decompress_loop data 3 8 f j out = out"
proof -
  have "drop (Suc j) data = 0 # 0 # rest" "j < length data" "data ! j = 0xff"
    using assms by (auto simp: drop_Suc_tl intro: nth_via_drop drop_Cons_index)
  then show ?thesis
    by (simp add: decompress_loop.simps [of data 3 8] decompress_stop bit_numeral_word_iff)
qed

lemma decompress_pack:
  assumes "drop index data = pack count flag (concat (map token_bytes us)) ts"
    and "length us = Suc count" and "count \<le> 7" and "flag_ok flag us"
    and "list_all token_ok us" and "list_all token_ok ts"
  shows "decompress_loop data 3 8 c index out = expand out (us @ ts)"
  using assms
proof (induction ts arbitrary: index count flag us c out)
  case Nil
  have "drop index data \<noteq> []"
    using Nil.prems(1) by simp
  then have idx: "index < length data" and hd: "data ! index = hd (drop index data)"
    by (auto simp: hd_drop_conv_nth)
  let ?f = "data ! index" and ?pay = "concat (map token_bytes us)"
  let ?rest = "if count = 7 then [0xff, 0, 0] else [0, 0 :: byte]"
  have tl: "drop (Suc index) data = ?pay @ ?rest"
    using Nil.prems(1) by (simp add: drop_Suc_tl)
  have f: "?f = (if count = 7 then flag else flag OR push_bit (count + 1) 0xff)"
    using Nil.prems(1) hd by simp
  have bits: "bit ?f i = is_copy (us ! i)" if "i < length us" for i
    using that Nil.prems(2-4) by (auto simp: f flag_ok_def bit_simps)
  have stop: "bit ?f (length us)" if "count \<noteq> 7"
    using that Nil.prems(2,3) by (auto simp: f bit_simps bit_numeral_word_iff)
  define j where "j = Suc index + length ?pay"
  have j: "drop j data = ?rest"
    using tl unfolding j_def by (rule drop_append_shift)
  have "decompress_loop data 3 8 c index out = decompress_loop data 3 0 ?f (Suc index) out"
    using idx by (simp add: decompress_loop.simps [of data 3 8])
  also have "\<dots> = decompress_loop data 3 (length us) ?f j (expand out us)"
    using decompress_loop_tokens [of "Suc index" data us ?rest 0 ?f out] tl bits Nil.prems
    by (simp add: j_def)
  also have "\<dots> = expand out us"
  proof (cases "count = 7")
    case True
    then show ?thesis
      using j Nil.prems(2) by (simp add: decompress_end_group)
  next
    case False
    then show ?thesis
      using j stop Nil.prems(2,3) by (simp add: decompress_stop)
  qed
  finally show ?case by simp
next
  case (Cons t ts)
  show ?case
  proof (cases "count = 7")
    case True
    let ?pay = "concat (map token_bytes us)"
    let ?rest = "pack 0 (flag_of 0 t) (token_bytes t) ts"
    have eq: "drop index data = flag # ?pay @ ?rest"
      using Cons.prems(1) True by simp
    then have tl: "drop (Suc index) data = ?pay @ ?rest" and idx: "index < length data"
      and f: "data ! index = flag"
      by (auto simp: drop_Suc_tl intro: nth_via_drop drop_Cons_index)
    define j where "j = Suc index + length ?pay"
    have j: "drop j data = ?rest"
      using tl unfolding j_def by (rule drop_append_shift)
    have "decompress_loop data 3 8 c index out = decompress_loop data 3 8 flag j (expand out us)"
      using decompress_loop_tokens [of "Suc index" data us ?rest 0 flag out] tl idx f Cons.prems True
      by (simp add: j_def decompress_loop.simps [of data 3 8] flag_ok_def pack_nonempty)
    also have "\<dots> = expand (expand out us) ([t] @ ts)"
      using j Cons.prems(6) by (intro Cons.IH [of _ 0]) (auto simp: flag_ok_first)
    finally show ?thesis by (simp add: expand_append)
  next
    case False
    have "flag_ok (flag OR flag_of (Suc count) t) (us @ [t])"
      using flag_ok_snoc [of flag us t] Cons.prems False by simp
    then have "decompress_loop data 3 8 c index out = expand out ((us @ [t]) @ ts)"
      using Cons.prems False
      by (intro Cons.IH [of _ "Suc count" "flag OR flag_of (Suc count) t"]) auto
    then show ?thesis by simp
  qed
qed

section \<open>The matches the compressor finds are real\<close>

text \<open>\<open>n\<close> bytes from the 1-based position \<open>m\<close> repeat at \<open>index\<close>, all of them inside the data.\<close>

definition repeats :: "bytestring \<Rightarrow> nat \<Rightarrow> nat \<Rightarrow> nat \<Rightarrow> bool" where
  "repeats data m index n \<longleftrightarrow>
     (\<forall>k < n. index + k < length data \<and> data ! (m + k - 1) = data ! (index + k - 1))"

lemma repeats_mono: "repeats data m index n \<Longrightarrow> n' \<le> n \<Longrightarrow> repeats data m index n'"
  by (auto simp: repeats_def)

lemma match_run_repeats:
  "repeats data a index c \<Longrightarrow> repeats data a index (match_run data a index c)"
proof (induction data a index c rule: match_run.induct)
  case (1 data a index c)
  let ?more = "a + c < index \<and> index + c < length data \<and> data ! (a + c - 1) = data ! (index + c - 1)"
  show ?case
  proof (cases ?more)
    case True
    then have "repeats data a index (c + 1)"
      using "1.prems" by (simp add: repeats_def less_Suc_eq all_conj_distrib)
    from "1.IH" [OF True this] True show ?thesis
      by (simp add: match_run.simps [of data a index c])
  next
    case False
    then show ?thesis
      using "1.prems" by (subst match_run.simps) (simp only: if_False)
  qed
qed

lemma match_scan_repeats:
  assumes "2 < ml \<longrightarrow> 4 \<le> m \<and> m < index \<and> repeats data m index ml" and "4 \<le> a"
    and "match_scan data index a ml m = (ml', m')"
  shows "2 < ml' \<longrightarrow> 4 \<le> m' \<and> m' < index \<and> repeats data m' index ml'"
  using assms
proof (induction data index a ml m rule: match_scan.induct)
  case (1 data index a ml m)
  let ?c = "match_run data a index 0"
  have "repeats data a index ?c"
    by (rule match_run_repeats) (simp add: repeats_def)
  moreover have "a < index" if "a < index - 1"
    using that by simp
  ultimately show ?case
    using "1.IH" "1.prems"
    by (subst (asm) (3) match_scan.simps) (auto simp: Let_def split: if_splits)
qed

lemma repeat_run_byte:
  assumes "\<forall>k < c. index + k < length data \<and> data ! (index + k - 1) = data ! (index - 2)"
  shows "\<forall>k < repeat_run data index c.
           index + k < length data \<and> data ! (index + k - 1) = data ! (index - 2)"
  using assms
proof (induction data index c rule: repeat_run.induct)
  case (1 data index c)
  let ?more = "index + c < length data \<and> data ! (index + c - 1) = data ! (index - 2)"
  show ?case
  proof (cases ?more)
    case True
    then have "\<forall>k < c + 1. index + k < length data \<and> data ! (index + k - 1) = data ! (index - 2)"
      using "1.prems" by (simp add: less_Suc_eq all_conj_distrib)
    from "1.IH" [OF True this] True show ?thesis
      by (simp add: repeat_run.simps [of data index c])
  next
    case False
    then show ?thesis
      using "1.prems" by (subst repeat_run.simps) (simp only: if_False)
  qed
qed

lemma repeat_run_repeats:
  assumes "2 \<le> index"
  shows "repeats data (index - 1) index (repeat_run data index 0)"
proof -
  have run: "\<forall>k < repeat_run data index 0.
      index + k < length data \<and> data ! (index + k - 1) = data ! (index - 2)"
    by (rule repeat_run_byte) simp
  have "data ! (index - 1 + k - 1) = data ! (index + k - 1)" if "k < repeat_run data index 0" for k
    using run that assms by (cases k) (auto simp: numeral_2_eq_2)
  then show ?thesis
    using run by (auto simp: repeats_def)
qed

lemma choose_item_sound:
  assumes "choose_item data index = Some (m, l)"
  shows "4 \<le> m" and "m < index" and "index \<le> 2000" and "l < 16" and "repeats data m index (l + 2)"
proof -
  obtain ml m' where scan: "match_scan data index 4 2 0 = (ml, m')" by fastforce
  have "2 < ml \<longrightarrow> 4 \<le> m' \<and> m' < index \<and> repeats data m' index ml"
    by (rule match_scan_repeats [OF _ _ scan]) auto
  moreover have idx: "6 \<le> index" "index \<le> 2000"
    using assms by (auto simp: choose_item_def split: if_splits)
  moreover have "repeats data (index - 1) index (repeat_run data index 0)"
    using idx by (intro repeat_run_repeats) simp
  moreover obtain q where "2 < q" "l = (q - 2) mod 16" "find_match data index = (q, m)"
    using assms by (auto simp: choose_item_def Let_def split: if_splits prod.splits)
  ultimately have *: "4 \<le> m \<and> m < index \<and> repeats data m index q"
    by (auto simp: find_match_def scan Let_def split: if_splits)
  have "l + 2 \<le> q"
    using \<open>2 < q\<close> \<open>l = (q - 2) mod 16\<close> mod_less_eq_dividend [of "q - 2" 16] by linarith
  then show "4 \<le> m" "m < index" "index \<le> 2000" "l < 16" "repeats data m index (l + 2)"
    using * idx \<open>l = (q - 2) mod 16\<close> by (auto intro: repeats_mono)
qed

lemma choose_item_token_ok:
  "choose_item data index = Some (m, l) \<Longrightarrow> token_ok (Copy m (l + 2))"
  using choose_item_sound [of data index m l] by simp

lemma tokens_ok: "list_all token_ok (tokens data index)"
proof (induction data index rule: tokens.induct)
  case (1 data index)
  then show ?case
    by (subst tokens.simps)
       (auto split: option.splits dest: choose_item_token_ok simp del: token_ok.simps(2))
qed

section \<open>The token list expands to the data\<close>

lemma copy_back_repeats:
  assumes "repeats data m index n" and "4 \<le> m" and "m < index"
    and "length data' = length data" and "\<forall>i \<ge> 3. data' ! i = data ! i"
  shows "copy_back n m (take (index - 1) data') = take (index - 1 + n) data'"
  using assms(1-3)
proof (induction n arbitrary: m index)
  case 0
  then show ?case by simp
next
  case (Suc n)
  have eq: "data' ! (m - 1) = data' ! (index - 1)" and lt: "index < length data"
    using Suc.prems assms(5) by (auto simp: repeats_def)
  have "repeats data (m + 1) (index + 1) n"
    using Suc.prems(1) by (auto simp: repeats_def dest: spec [of _ "Suc _"])
  then have "copy_back n (m + 1) (take (index + 1 - 1) data') = take (index + 1 - 1 + n) data'"
    using Suc.prems by (intro Suc.IH) auto
  moreover have "take (index - 1) data' @ [data' ! (m - 1)] = take index data'"
    using eq lt Suc.prems assms(4) take_Suc_nth [of "index - 1" data'] by simp
  moreover have "m \<le> index - Suc 0"
    using Suc.prems(3) by simp
  ultimately show ?case
    using Suc.prems lt assms(4) by (simp add: nth_take)
qed

lemma expand_tokens:
  assumes "4 \<le> index" and "index \<le> length data + 1" and "length data' = length data"
    and "\<forall>i \<ge> 3. data' ! i = data ! i"
  shows "expand (take (index - 1) data') (tokens data index) = data'"
  using assms(1,2)
proof (induction "length data + 1 - index" arbitrary: index rule: less_induct)
  case less
  show ?case
  proof (cases "index < length data + 1")
    case False
    then show ?thesis
      using less.prems assms(3) by (simp add: tokens_end)
  next
    case True
    have IH: "expand (take (j - 1) data') (tokens data j) = data'"
      if "index < j" "j \<le> length data + 1" for j
      by (rule less.hyps) (use that True less.prems in auto)
    show ?thesis
    proof (cases "choose_item data index")
      case None
      have "take (index - 1) data' @ [data ! (index - 1)] = take index data'"
        using True less.prems assms(3,4) take_Suc_nth [of "index - 1" data'] by simp
      then show ?thesis
        using IH [of "index + 1"] True None by (simp add: tokens.simps [of data index])
    next
      case (Some ml)
      obtain m l where ml: "ml = (m, l)" by (cases ml)
      note sound = choose_item_sound [OF Some [unfolded ml]]
      have "index + (l + 1) < length data"
        using sound(5) by (auto simp: repeats_def dest: spec [of _ "l + 1"])
      then show ?thesis
        using IH [of "index + (l + 2)"] True Some ml less.prems
          copy_back_repeats [OF sound(5,1,2) assms(3,4)]
        by (simp add: tokens.simps [of data index] del: copy_back.simps)
    qed
  qed
qed

text \<open>
  The checksum bytes 1 and 2 are written after compression and do not take part in it: the round
  trip holds whatever they are when the packet arrives.
\<close>

lemma decompress_compress_header:
  assumes "3 \<le> length data"
  shows "decompress ((compress data)[1 := x, 2 := y]) 3 = Some (data[0 := 0x03, 1 := x, 2 := y])"
proof (cases "length (pack_all (tokens data 4)) + 3 < length data")
  case False
  then show ?thesis
    using assms by (simp add: compress_eq decompress_def byte_at_def)
next
  case True
  let ?d = "data[0 := 0x03, 1 := x, 2 := y]"
  let ?z = "[0x04, x, y] @ pack_all (tokens data 4)"
  have "3 < length data" using True by simp
  then obtain t ts where ts: "tokens data 4 = t # ts"
    by (simp add: tokens_first)
  have hdr: "[0x03, x, y] = take 3 ?d"
    using assms by (cases data; cases "tl data"; cases "tl (tl data)") auto
  have "decompress_loop ?z 3 8 0 3 (take 3 ?d) = expand (take 3 ?d) ([t] @ ts)"
    using tokens_ok [of data 4] ts
    by (intro decompress_pack [of _ _ 0 "flag_of 0 t"]) (auto simp: flag_ok_first)
  also have "\<dots> = ?d"
    using expand_tokens [of 4 data ?d] True ts by simp
  finally show ?thesis
    using True hdr by (simp add: compress_eq decompress_def byte_at_def load_bytes_def)
qed

section \<open>Properties\<close>

text \<open>
  C28. Decompression inverts compression: for every packet with at least its 3-byte header,
  decompressing the compressed packet gives the packet back with its code byte set to 3
  (uncompressed), whatever its length and contents, and whether or not compression paid off.
\<close>

theorem decompress_compress:
  assumes "3 \<le> length data"
  shows "decompress (compress data) 3 = Some (data[0 := 0x03])"
proof -
  have d: "data[0 := 0x03] = data[0 := 0x03, 1 := data ! 1, 2 := data ! 2]"
    using assms by (intro nth_equalityI) (auto simp: nth_list_update)
  then have "compress data = (compress data)[1 := data ! 1, 2 := data ! 2]"
    by (simp add: compress_eq Let_def)
  with d show ?thesis
    using decompress_compress_header [OF assms, of "data ! 1" "data ! 2"] by simp
qed

theorem decompress_compress_witness:
  "3 \<le> length ([4, 1, 2, 7, 7, 7, 7, 7, 7, 7, 7, 7, 7, 7, 7, 7] :: bytestring) \<and>
   compress [4, 1, 2, 7, 7, 7, 7, 7, 7, 7, 7, 7, 7, 7, 7, 7] = [4, 1, 2, 244, 7, 7, 40, 0, 7, 0, 0] \<and>
   decompress (compress [4, 1, 2, 7, 7, 7, 7, 7, 7, 7, 7, 7, 7, 7, 7, 7]) 3
     = Some [3, 1, 2, 7, 7, 7, 7, 7, 7, 7, 7, 7, 7, 7, 7, 7]"
proof -
  have "3 \<le> length ([4, 1, 2, 7, 7, 7, 7, 7, 7, 7, 7, 7, 7, 7, 7, 7] :: bytestring)" by simp
  moreover have "compress [4, 1, 2, 7, 7, 7, 7, 7, 7, 7, 7, 7, 7, 7, 7, 7] =
      [4, 1, 2, 244, 7, 7, 40, 0, 7, 0, 0]"
    by code_simp
  ultimately show ?thesis
    using decompress_compress [of "[4, 1, 2, 7, 7, 7, 7, 7, 7, 7, 7, 7, 7, 7, 7, 7]"] by simp
qed

text \<open>
  Compression never makes a packet longer.
\<close>

theorem compress_length: "length (compress data) \<le> length data"
  by (simp add: compress_eq Let_def)

end
