(* ===== verification/Sub_Packet_Codes.thy ===== *)
theory Sub_Packet_Codes
  imports Prelude
begin

text \<open>
  The sub-packet codes of the TA network format: \<open>enum class SubPacketCode\<close>
  (\<open>libs/tapacket/TPacket.h\<close>), the casts between a code and its byte, and \<open>TPacket::toString\<close>.
\<close>

section \<open>Sub-packet codes\<close>

text \<open>\<open>enum class SubPacketCode\<close>; a byte without an enumerator is \<open>UNNAMED\<close>.\<close>

datatype SubPacketCode =
    ZERO_00
  | PING_02
  | UNK_03
  | CHAT_05
  | PAD_ENCRYPT_06
  | UNK_07
  | LOADING_STARTED_08
  | UNIT_BUILD_STARTED_09
  | UNK_0A
  | UNIT_TAKE_DAMAGE_0B
  | UNIT_KILLED_0C
  | WEAPON_FIRED_0D
  | AREA_OF_EFFECT_0E
  | FEATURE_ACTION_0F
  | UNIT_START_SCRIPT_10
  | UNIT_STATE_11
  | UNIT_BUILD_FINISHED_12
  | PLAY_SOUND_13
  | GIVE_UNIT_14
  | START_15
  | SHARE_RESOURCES_16
  | UNK_17
  | HOST_MIGRATION_18
  | SPEED_19
  | UNIT_DATA_1A
  | REJECT_1B
  | START_1E
  | UNK_1F
  | PLAYER_INFO_20
  | UNK_21
  | IDENT3_22
  | ALLY_23
  | TEAM_24
  | IDENT2_26
  | PLAYER_RESOURCE_INFO_28
  | UNK_29
  | LOADING_PROGRESS_2A
  | UNIT_STAT_AND_MOVE_2C
  | UNK_2E
  | THALDREN_EXTENDED_42
  | UNK_F6
  | ALLY_CHAT_F9
  | REPLAYER_SERVER_FA
  | RECORDER_DATA_CONNECT_FB
  | MAP_POSITION_FC
  | SMARTPAK_TICK_OTHER_FD
  | SMARTPAK_TICK_START_FE
  | SMARTPAK_TICK_FF
  | UNNAMED byte

text \<open>The cast \<open>SubPacketCode(b)\<close>.\<close>

definition subPacketCode :: "byte \<Rightarrow> SubPacketCode" where
  "subPacketCode b =
     (if b = 0x00 then ZERO_00
      else if b = 0x02 then PING_02
      else if b = 0x03 then UNK_03
      else if b = 0x05 then CHAT_05
      else if b = 0x06 then PAD_ENCRYPT_06
      else if b = 0x07 then UNK_07
      else if b = 0x08 then LOADING_STARTED_08
      else if b = 0x09 then UNIT_BUILD_STARTED_09
      else if b = 0x0a then UNK_0A
      else if b = 0x0b then UNIT_TAKE_DAMAGE_0B
      else if b = 0x0c then UNIT_KILLED_0C
      else if b = 0x0d then WEAPON_FIRED_0D
      else if b = 0x0e then AREA_OF_EFFECT_0E
      else if b = 0x0f then FEATURE_ACTION_0F
      else if b = 0x10 then UNIT_START_SCRIPT_10
      else if b = 0x11 then UNIT_STATE_11
      else if b = 0x12 then UNIT_BUILD_FINISHED_12
      else if b = 0x13 then PLAY_SOUND_13
      else if b = 0x14 then GIVE_UNIT_14
      else if b = 0x15 then START_15
      else if b = 0x16 then SHARE_RESOURCES_16
      else if b = 0x17 then UNK_17
      else if b = 0x18 then HOST_MIGRATION_18
      else if b = 0x19 then SPEED_19
      else if b = 0x1a then UNIT_DATA_1A
      else if b = 0x1b then REJECT_1B
      else if b = 0x1e then START_1E
      else if b = 0x1f then UNK_1F
      else if b = 0x20 then PLAYER_INFO_20
      else if b = 0x21 then UNK_21
      else if b = 0x22 then IDENT3_22
      else if b = 0x23 then ALLY_23
      else if b = 0x24 then TEAM_24
      else if b = 0x26 then IDENT2_26
      else if b = 0x28 then PLAYER_RESOURCE_INFO_28
      else if b = 0x29 then UNK_29
      else if b = 0x2a then LOADING_PROGRESS_2A
      else if b = 0x2c then UNIT_STAT_AND_MOVE_2C
      else if b = 0x2e then UNK_2E
      else if b = 0x42 then THALDREN_EXTENDED_42
      else if b = 0xf6 then UNK_F6
      else if b = 0xf9 then ALLY_CHAT_F9
      else if b = 0xfa then REPLAYER_SERVER_FA
      else if b = 0xfb then RECORDER_DATA_CONNECT_FB
      else if b = 0xfc then MAP_POSITION_FC
      else if b = 0xfd then SMARTPAK_TICK_OTHER_FD
      else if b = 0xfe then SMARTPAK_TICK_START_FE
      else if b = 0xff then SMARTPAK_TICK_FF
      else UNNAMED b)"

text \<open>The cast back, \<open>std::uint8_t(code)\<close>.\<close>

fun code_byte :: "SubPacketCode \<Rightarrow> byte" where
  "code_byte ZERO_00 = 0x00"
| "code_byte PING_02 = 0x02"
| "code_byte UNK_03 = 0x03"
| "code_byte CHAT_05 = 0x05"
| "code_byte PAD_ENCRYPT_06 = 0x06"
| "code_byte UNK_07 = 0x07"
| "code_byte LOADING_STARTED_08 = 0x08"
| "code_byte UNIT_BUILD_STARTED_09 = 0x09"
| "code_byte UNK_0A = 0x0a"
| "code_byte UNIT_TAKE_DAMAGE_0B = 0x0b"
| "code_byte UNIT_KILLED_0C = 0x0c"
| "code_byte WEAPON_FIRED_0D = 0x0d"
| "code_byte AREA_OF_EFFECT_0E = 0x0e"
| "code_byte FEATURE_ACTION_0F = 0x0f"
| "code_byte UNIT_START_SCRIPT_10 = 0x10"
| "code_byte UNIT_STATE_11 = 0x11"
| "code_byte UNIT_BUILD_FINISHED_12 = 0x12"
| "code_byte PLAY_SOUND_13 = 0x13"
| "code_byte GIVE_UNIT_14 = 0x14"
| "code_byte START_15 = 0x15"
| "code_byte SHARE_RESOURCES_16 = 0x16"
| "code_byte UNK_17 = 0x17"
| "code_byte HOST_MIGRATION_18 = 0x18"
| "code_byte SPEED_19 = 0x19"
| "code_byte UNIT_DATA_1A = 0x1a"
| "code_byte REJECT_1B = 0x1b"
| "code_byte START_1E = 0x1e"
| "code_byte UNK_1F = 0x1f"
| "code_byte PLAYER_INFO_20 = 0x20"
| "code_byte UNK_21 = 0x21"
| "code_byte IDENT3_22 = 0x22"
| "code_byte ALLY_23 = 0x23"
| "code_byte TEAM_24 = 0x24"
| "code_byte IDENT2_26 = 0x26"
| "code_byte PLAYER_RESOURCE_INFO_28 = 0x28"
| "code_byte UNK_29 = 0x29"
| "code_byte LOADING_PROGRESS_2A = 0x2a"
| "code_byte UNIT_STAT_AND_MOVE_2C = 0x2c"
| "code_byte UNK_2E = 0x2e"
| "code_byte THALDREN_EXTENDED_42 = 0x42"
| "code_byte UNK_F6 = 0xf6"
| "code_byte ALLY_CHAT_F9 = 0xf9"
| "code_byte REPLAYER_SERVER_FA = 0xfa"
| "code_byte RECORDER_DATA_CONNECT_FB = 0xfb"
| "code_byte MAP_POSITION_FC = 0xfc"
| "code_byte SMARTPAK_TICK_OTHER_FD = 0xfd"
| "code_byte SMARTPAK_TICK_START_FE = 0xfe"
| "code_byte SMARTPAK_TICK_FF = 0xff"
| "code_byte (UNNAMED b) = b"

text \<open>Two hexadecimal digits, as \<open>std::hex << std::setw(2) << std::setfill('0')\<close> prints them.\<close>

definition hex_digit :: "nat \<Rightarrow> char" where
  "hex_digit n = ''0123456789abcdef'' ! n"

definition hex2 :: "byte \<Rightarrow> string" where
  "hex2 b = [hex_digit (unat b div 16), hex_digit (unat b mod 16)]"

fun toString :: "SubPacketCode \<Rightarrow> string" where
  "toString ZERO_00 = ''ZERO_00''"
| "toString PING_02 = ''PING_02''"
| "toString UNK_03 = ''UNK_03''"
| "toString CHAT_05 = ''CHAT_05''"
| "toString PAD_ENCRYPT_06 = ''PAD_ENCRYPT''"
| "toString UNK_07 = ''UNK_07''"
| "toString LOADING_STARTED_08 = ''LOADING_STARTED''"
| "toString UNIT_BUILD_STARTED_09 = ''UNIT_BUILD_STARTED_09''"
| "toString UNK_0A = ''UNK_0A''"
| "toString UNIT_TAKE_DAMAGE_0B = ''UNIT_TAKE_DAMAGE_0B''"
| "toString UNIT_KILLED_0C = ''UNIT_KILLED_0C''"
| "toString WEAPON_FIRED_0D = ''WEAPON_FIRED_0D''"
| "toString AREA_OF_EFFECT_0E = ''AREA_OF_EFFECT_0E''"
| "toString FEATURE_ACTION_0F = ''FEATURE_ACTION_0F''"
| "toString UNIT_START_SCRIPT_10 = ''UNIT_START_SCRIPT_10''"
| "toString UNIT_STATE_11 = ''UNIT_STATE_11''"
| "toString UNIT_BUILD_FINISHED_12 = ''UNIT_BUILD_FINISHED_12''"
| "toString GIVE_UNIT_14 = ''GIVE_UNIT_14''"
| "toString START_15 = ''START_15''"
| "toString SHARE_RESOURCES_16 = ''SHARE_RESOURCES_16''"
| "toString UNK_17 = ''UNK_17''"
| "toString HOST_MIGRATION_18 = ''HOST_MIGRATION_18''"
| "toString SPEED_19 = ''SPEED_19''"
| "toString UNIT_DATA_1A = ''UNIT_DATA_1A''"
| "toString REJECT_1B = ''REJECT_1B''"
| "toString START_1E = ''START_1E''"
| "toString UNK_1F = ''UNK_1F''"
| "toString PLAYER_INFO_20 = ''PLAYER_INFO_20''"
| "toString UNK_21 = ''UNK_21''"
| "toString IDENT3_22 = ''IDENT3_22''"
| "toString ALLY_23 = ''ALLY_23''"
| "toString TEAM_24 = ''TEAM_24''"
| "toString IDENT2_26 = ''IDENT2_26''"
| "toString PLAYER_RESOURCE_INFO_28 = ''PLAYER_RESOURCE_INFO_28''"
| "toString UNK_29 = ''UNK_29''"
| "toString LOADING_PROGRESS_2A = ''LOADING_PROGRESS_2A''"
| "toString UNIT_STAT_AND_MOVE_2C = ''UNIT_STAT_AND_MOVE_2C''"
| "toString UNK_2E = ''UNK_2E''"
| "toString THALDREN_EXTENDED_42 = ''THALDREN_EXTENDED_42''"
| "toString UNK_F6 = ''UNK_F6''"
| "toString ALLY_CHAT_F9 = ''ALLY_CHAT_F9''"
| "toString REPLAYER_SERVER_FA = ''REPLAYER_SERVER_FA''"
| "toString RECORDER_DATA_CONNECT_FB = ''RECORDER_DATA_CONNECT_FB''"
| "toString MAP_POSITION_FC = ''MAP_POSITION_FC''"
| "toString SMARTPAK_TICK_OTHER_FD = ''SMARTPAK_TICK_OTHER_FD''"
| "toString SMARTPAK_TICK_START_FE = ''SMARTPAK_TICK_START_FE''"
| "toString SMARTPAK_TICK_FF = ''SMARTPAK_TICK_FF''"
| "toString code = ''UNK_'' @ hex2 (code_byte code)"

lemma code_byte_subPacketCode [simp]: "code_byte (subPacketCode b) = b"
  by (simp add: subPacketCode_def)

text \<open>The codes the smartpak format treats specially, recognised by their byte.\<close>

lemma subPacketCode_eq_iff [codec_simps]:
  "subPacketCode b = SMARTPAK_TICK_START_FE \<longleftrightarrow> b = 0xfe"
  "subPacketCode b = SMARTPAK_TICK_FF \<longleftrightarrow> b = 0xff"
  "subPacketCode b = SMARTPAK_TICK_OTHER_FD \<longleftrightarrow> b = 0xfd"
  "subPacketCode b = UNIT_STAT_AND_MOVE_2C \<longleftrightarrow> b = 0x2c"
  "subPacketCode b = CHAT_05 \<longleftrightarrow> b = 0x05"
  "subPacketCode b = ZERO_00 \<longleftrightarrow> b = 0x00"
  "subPacketCode b = MAP_POSITION_FC \<longleftrightarrow> b = 0xfc"
  by (auto simp: subPacketCode_def)

end
