(* ===== verification/Sub_Packets.thy ===== *)
theory Sub_Packets
  imports Packet_Compress Sub_Packet_Codes
begin

text \<open>
  Sub-packets of the TA network format (\<open>libs/tapacket/TPacket.cpp\<close>): the size table
  \<open>getExpectedSubPacketSize\<close>, splitting (\<open>split2\<close>), bit fields (\<open>bin2int\<close>), the expansion of
  smartpak streams (\<open>slowUnsmartpak\<close> and the pointer version \<open>unsmartpak\<close>), the packing side
  (\<open>SmartPaker\<close>, \<open>trivialSmartpak\<close>) and the small constructors. A pointer \<open>ptr\<close> with
  \<open>end - ptr\<close> bytes left is the suffix of the buffer from \<open>ptr\<close>; a read outside the buffer is the
  error \<open>Undefined\<close>.

  Proved here: on which buffers the size table reads out of bounds, that the pointer version of the
  unpacker agrees with the slow reference version, that unpacking inverts \<open>SmartPaker\<close>, and what
  \<open>bin2int\<close> computes.
\<close>

section \<open>Sizes and splitting\<close>

text \<open>
  The size of the sub-packet at the start of \<open>s\<close>; \<open>None\<close> is a read outside the buffer, which only
  the chat code can cause (it looks at \<open>s[64]\<close> whatever the size). The arithmetic of the FD case is
  on \<open>unsigned\<close> and wraps around.
\<close>

definition getExpectedSubPacketSize :: "bytestring \<Rightarrow> nat option" where
  "getExpectedSubPacketSize s =
     (let sz = length s in
      if sz = 0 then Some 0
      else case subPacketCode (s ! 0) of
        ZERO_00 \<Rightarrow> Some (length (takeWhile (\<lambda>b. b = 0) s))
      | PING_02 \<Rightarrow> Some 13
      | UNK_03 \<Rightarrow> Some 7
      | CHAT_05 \<Rightarrow>
          (case byte_at s 64 of
             None \<Rightarrow> None
           | Some b \<Rightarrow>
               if b \<noteq> 0
               then if sz < 5 then None
                    else if subPacketCode (s ! (sz - 5)) = MAP_POSITION_FC then Some (sz - 5) else Some sz
               else Some 65)
      | PAD_ENCRYPT_06 \<Rightarrow> Some 1
      | UNK_07 \<Rightarrow> Some 1
      | LOADING_STARTED_08 \<Rightarrow> Some 1
      | UNIT_BUILD_STARTED_09 \<Rightarrow> Some 23
      | UNK_0A \<Rightarrow> Some 7
      | UNIT_TAKE_DAMAGE_0B \<Rightarrow> Some 9
      | UNIT_KILLED_0C \<Rightarrow> Some 11
      | WEAPON_FIRED_0D \<Rightarrow> Some 36
      | AREA_OF_EFFECT_0E \<Rightarrow> Some 14
      | FEATURE_ACTION_0F \<Rightarrow> Some 6
      | UNIT_START_SCRIPT_10 \<Rightarrow> Some 22
      | UNIT_STATE_11 \<Rightarrow> Some 4
      | UNIT_BUILD_FINISHED_12 \<Rightarrow> Some 5
      | GIVE_UNIT_14 \<Rightarrow> Some 24
      | START_15 \<Rightarrow> Some 1
      | SHARE_RESOURCES_16 \<Rightarrow> Some 17
      | UNK_17 \<Rightarrow> Some 2
      | HOST_MIGRATION_18 \<Rightarrow> Some 2
      | SPEED_19 \<Rightarrow> Some 3
      | UNIT_DATA_1A \<Rightarrow> Some 14
      | REJECT_1B \<Rightarrow> Some 6
      | START_1E \<Rightarrow> Some 2
      | UNK_1F \<Rightarrow> Some 5
      | PLAYER_INFO_20 \<Rightarrow> Some 192
      | UNK_21 \<Rightarrow> Some 10
      | IDENT3_22 \<Rightarrow> Some 6
      | ALLY_23 \<Rightarrow> Some 14
      | TEAM_24 \<Rightarrow> Some 6
      | IDENT2_26 \<Rightarrow> Some 41
      | PLAYER_RESOURCE_INFO_28 \<Rightarrow> Some 58
      | UNK_29 \<Rightarrow> Some 3
      | LOADING_PROGRESS_2A \<Rightarrow> Some 2
      | UNIT_STAT_AND_MOVE_2C \<Rightarrow> Some (if sz \<ge> 3 then unat (mk16 (s ! 1) (s ! 2)) else 0)
      | UNK_2E \<Rightarrow> Some 9
      | THALDREN_EXTENDED_42 \<Rightarrow> Some (if sz \<ge> 3 then unat (mk16 (s ! 1) (s ! 2)) + 3 else 0)
      | UNK_F6 \<Rightarrow> Some 1
      | ALLY_CHAT_F9 \<Rightarrow> Some 73
      | REPLAYER_SERVER_FA \<Rightarrow> Some 1
      | RECORDER_DATA_CONNECT_FB \<Rightarrow> Some (if sz \<ge> 2 then unat (s ! 1) + 3 else 0)
      | MAP_POSITION_FC \<Rightarrow> Some 5
      | SMARTPAK_TICK_OTHER_FD \<Rightarrow> Some (if sz \<ge> 3 then unat (ucast (mk16 (s ! 1) (s ! 2)) - 4 :: u32) else 0)
      | SMARTPAK_TICK_START_FE \<Rightarrow> Some 5
      | SMARTPAK_TICK_FF \<Rightarrow> Some 1
      | _ \<Rightarrow> Some 0)"

text \<open>\<open>split2\<close> returns the split-off sub-packet, the remaining buffer and the error flag.\<close>

definition split2 :: "bytestring \<Rightarrow> bool \<Rightarrow> (bytestring \<times> bytestring \<times> bool) option" where
  "split2 s smartpak =
     (if s = [] then Some (s, s, False)
      else case getExpectedSubPacketSize s of
             None \<Rightarrow> None
           | Some len \<Rightarrow>
               let error = ((s ! 0 = 0xff \<or> s ! 0 = 0xfe \<or> s ! 0 = 0xfd) \<and> \<not> smartpak);
                   (len, error) = (if length s < len then (0, True) else (len, error))
               in if len = 0 then Some (s, [], True)
                  else Some (take len s, drop len s, error))"

section \<open>Bit fields\<close>

text \<open>The \<open>for\<close> of \<open>bin2int\<close>; \<open>mask\<close> is \<open>1 << start\<close> throughout. The byte after the last one read is fetched.\<close>

fun bin2int_loop :: "bytestring \<Rightarrow> nat \<Rightarrow> nat \<Rightarrow> byte \<Rightarrow> nat \<Rightarrow> nat \<Rightarrow> u32 \<Rightarrow> u32 option" where
  "bin2int_loop s i start b j 0 result = Some result"
| "bin2int_loop s i start b j (Suc n) result =
     (let result' = (if bit b start then result OR push_bit j 1 else result) in
      if start + 1 > 7
      then case byte_at s (i + 1) of
             None \<Rightarrow> None
           | Some b' \<Rightarrow> bin2int_loop s (i + 1) 0 b' (j + 1) n result'
      else bin2int_loop s i (start + 1) b (j + 1) n result')"

definition bin2int :: "bytestring \<Rightarrow> nat \<Rightarrow> nat \<Rightarrow> u32 option" where
  "bin2int s start num =
     (case byte_at s (start div 8) of
        None \<Rightarrow> None
      | Some b \<Rightarrow> bin2int_loop s (start div 8) (start mod 8) b 0 num 0)"

section \<open>Unpacking\<close>

text \<open>The sub-packet an FF byte stands for, with the current serial number filled in.\<close>

definition tick_packet :: "u32 \<Rightarrow> bytestring" where
  "tick_packet packnum = [0x2c, 0x0b, 0] @ le32 packnum @ [0xff, 0xff, 1, 0]"

lemma split2_consumes:
  "split2 c sp = Some (s, c', e) \<Longrightarrow> c \<noteq> [] \<Longrightarrow> length c' < length c"
  by (auto simp: split2_def Let_def split: option.splits if_splits)

text \<open>The \<open>while\<close> of \<open>slowUnsmartpak\<close>.\<close>

function slow_loop :: "u32 \<Rightarrow> bytestring \<Rightarrow> cpp_error + bytestring list" where
  "slow_loop packnum c =
     (if c = [] then Inr []
      else case split2 c True of
             None \<Rightarrow> Inl Undefined
           | Some (s, c', error) \<Rightarrow>
               let code = subPacketCode (s ! 0) in
               if code = SMARTPAK_TICK_START_FE
               then case load32 s 1 of None \<Rightarrow> Inl Undefined | Some n \<Rightarrow> slow_loop n c'
               else if code = SMARTPAK_TICK_FF
               then map_sum id (\<lambda>ut. tick_packet packnum # ut) (slow_loop (packnum + 1) c')
               else if code = SMARTPAK_TICK_OTHER_FD
               then if length s < 3 then Inl OutOfRange
                    else map_sum id (\<lambda>ut. ((take 3 s @ le32 packnum @ drop 3 s)[0 := 0x2c]) # ut)
                           (slow_loop (packnum + 1) c')
               else map_sum id (\<lambda>ut. s # ut) (slow_loop packnum c'))"
  by pat_completeness auto
termination
  by (relation "measure (\<lambda>(n, c). length c)") (auto dest: split2_consumes)

definition slowUnsmartpak :: "bytestring \<Rightarrow> bool \<Rightarrow> bool \<Rightarrow> cpp_error + bytestring list" where
  "slowUnsmartpak c0 hasTimestamp hasChecksum =
     (if \<not> hasChecksum \<and> c0 = [] then Inl OutOfRange
      else let c = (if hasChecksum then c0 else take 1 c0 @ [0x78, 0x78] @ drop 1 c0) in
      case (if byte_at c 0 = Some 0x04 then decompress c 3 else Some c) of
        None \<Rightarrow> Inl Undefined
      | Some c \<Rightarrow> (case substr_from c (if hasTimestamp then 7 else 3) of
                     Inl e \<Rightarrow> Inl e
                   | Inr c \<Rightarrow> slow_loop 0 c))"

text \<open>The \<open>while\<close> of \<open>unsmartpak\<close>; \<open>p\<close> is the buffer from \<open>ptr\<close> to \<open>end\<close>.\<close>

definition subpakLen :: "bytestring \<Rightarrow> nat \<Rightarrow> nat" where
  "subpakLen p len = (if len = 0 \<or> length p < len then length p else len)"

function fast_loop :: "u32 \<Rightarrow> bytestring \<Rightarrow> cpp_error + bytestring list" where
  "fast_loop packnum p =
     (if p = [] then Inr []
      else case getExpectedSubPacketSize p of
             None \<Rightarrow> Inl Undefined
           | Some len \<Rightarrow>
               let n = subpakLen p len; code = subPacketCode (p ! 0) in
               if code = SMARTPAK_TICK_START_FE
               then case load32 p 1 of None \<Rightarrow> Inl Undefined | Some k \<Rightarrow> fast_loop k (drop n p)
               else if code = SMARTPAK_TICK_FF
               then map_sum id (\<lambda>ut. tick_packet packnum # ut) (fast_loop (packnum + 1) (drop n p))
               else if code = SMARTPAK_TICK_OTHER_FD
               then if n < 3 then Inl Undefined
                    else map_sum id (\<lambda>ut. ((take 3 p @ le32 packnum @ take (n - 3) (drop 3 p))[0 := 0x2c]) # ut)
                           (fast_loop (packnum + 1) (drop n p))
               else map_sum id (\<lambda>ut. take n p # ut) (fast_loop packnum (drop n p)))"
  by pat_completeness auto
termination
  by (relation "measure (\<lambda>(n, c). length c)") (auto simp: subpakLen_def split: if_splits)

declare slow_loop.simps [simp del] fast_loop.simps [simp del]

definition unsmartpak :: "bytestring \<Rightarrow> bool \<Rightarrow> bool \<Rightarrow> cpp_error + bytestring list" where
  "unsmartpak c hasTimestamp hasChecksum =
     (case (if byte_at c 0 = Some 0x04 then decompress c (if hasChecksum then 3 else 1) else Some c) of
        None \<Rightarrow> Inl Undefined
      | Some buffer \<Rightarrow>
          fast_loop 0 (drop (1 + (if hasChecksum then 2 else 0) + (if hasTimestamp then 4 else 0)) buffer))"

section \<open>Packing and construction\<close>

definition trivialSmartpak :: "bytestring \<Rightarrow> u32 \<Rightarrow> bytestring" where
  "trivialSmartpak subpacket tcpseq = [0x03, 0, 0] @ le32 tcpseq @ subpacket"

text \<open>\<open>SmartPaker::operator()\<close>: the argument and the result carry the member \<open>m_first\<close>.\<close>

definition smartPaker :: "bool \<Rightarrow> bytestring \<Rightarrow> bool \<times> bytestring" where
  "smartPaker first subpak =
     (if length subpak < 7 \<or> subPacketCode (subpak ! 0) \<noteq> UNIT_STAT_AND_MOVE_2C then (first, subpak)
      else let result = (if first then [code_byte SMARTPAK_TICK_START_FE] @ take 4 (drop 3 subpak) else [])
           in (False,
               if subpak ! 1 = 0x0b \<and> subpak ! 2 = 0x00
               then result @ [code_byte SMARTPAK_TICK_FF]
               else result @ [code_byte SMARTPAK_TICK_OTHER_FD] @ take 2 (drop 1 subpak) @ drop 7 subpak))"

text \<open>One \<open>SmartPaker\<close> applied to a sequence of sub-packets, the results concatenated.\<close>

fun smartpak_all :: "bool \<Rightarrow> bytestring list \<Rightarrow> bytestring" where
  "smartpak_all first [] = []"
| "smartpak_all first (s # ss) =
     (let (first', r) = smartPaker first s in r @ smartpak_all first' ss)"

text \<open>\<open>strncpy\<close> of a C string into 64 bytes after the code byte, the last byte forced to 0.\<close>

definition createChatSubpacket :: "bytestring \<Rightarrow> bytestring" where
  "createChatSubpacket message =
     (let m = take 64 (takeWhile (\<lambda>b. b \<noteq> 0) message)
      in (code_byte CHAT_05 # m @ replicate (64 - length m) 0)[64 := 0])"

definition createHostMigrationSubpacket :: "int \<Rightarrow> bytestring" where
  "createHostMigrationSubpacket playerNumber = [code_byte HOST_MIGRATION_18, word_of_int playerNumber]"

section \<open>The two unpackers agree\<close>

lemma split2_subpakLen:
  assumes "p \<noteq> []" and "getExpectedSubPacketSize p = Some len"
  shows "\<exists>e. split2 p True = Some (take (subpakLen p len) p, drop (subpakLen p len) p, e)"
  using assms by (auto simp: split2_def subpakLen_def Let_def)

lemma take_subpakLen_nth0: "p \<noteq> [] \<Longrightarrow> take (subpakLen p len) p ! 0 = p ! 0"
  by (auto simp: subpakLen_def)

lemma subpakLen_le: "subpakLen p len \<le> length p"
  by (auto simp: subpakLen_def)

lemma load32_take: "4 < n \<Longrightarrow> n \<le> length p \<Longrightarrow> load32 (take n p) 1 = load32 p 1"
  by (simp add: load32_def)

lemma load32_take_FE:
  assumes "p ! 0 = 0xfe" and "p \<noteq> []" and "getExpectedSubPacketSize p = Some len"
  shows "load32 (take (subpakLen p len) p) 1 = load32 p 1"
proof -
  have "len = 5"
    using assms by (simp add: getExpectedSubPacketSize_def subPacketCode_def)
  then show ?thesis
    using load32_take [of 5 p] by (simp add: subpakLen_def)
qed

lemma loops_agree: "slow_loop n p = Inr ut \<Longrightarrow> fast_loop n p = Inr ut"
proof (induction n p arbitrary: ut rule: fast_loop.induct)
  case (1 n p)
  show ?case
  proof (cases "p = []")
    case True
    then show ?thesis using "1.prems" by (simp add: slow_loop.simps fast_loop.simps)
  next
    case False
    then obtain len where len: "getExpectedSubPacketSize p = Some len"
      using "1.prems" by (subst (asm) slow_loop.simps) (auto simp: split2_def split: option.splits)
    obtain e where sp: "split2 p True = Some (take (subpakLen p len) p, drop (subpakLen p len) p, e)"
      using split2_subpakLen [OF False len] by blast
    note IH = "1.IH" [OF False len refl refl]
    note [simp] = take_subpakLen_nth0 [OF False] subPacketCode_eq_iff
    consider (FE) "p ! 0 = 0xfe" | (FF) "p ! 0 = 0xff" | (FD) "p ! 0 = 0xfd"
      | (other) "p ! 0 \<noteq> 0xfe" "p ! 0 \<noteq> 0xff" "p ! 0 \<noteq> 0xfd"
      by blast
    then show ?thesis
    proof cases
      case FE
      then show ?thesis
        using "1.prems" False len sp load32_take_FE [OF FE False len] IH(1)
        by (auto simp: slow_loop.simps [of n p] fast_loop.simps [of n p] split: option.splits)
    next
      case FF
      then show ?thesis
        using "1.prems" False len sp IH(2)
        by (auto simp: slow_loop.simps [of n p] fast_loop.simps [of n p])
    next
      case FD
      have "3 \<le> subpakLen p len"
        using FD "1.prems" False len sp subpakLen_le [of p len]
        by (auto simp: slow_loop.simps [of n p] split: if_splits)
      then show ?thesis
        using FD "1.prems" False len sp IH(3)
        by (auto simp: slow_loop.simps [of n p] fast_loop.simps [of n p] drop_take min_def
            split: if_splits)
    next
      case other
      then show ?thesis
        using "1.prems" False len sp IH(4)
        by (auto simp: slow_loop.simps [of n p] fast_loop.simps [of n p])
    qed
  qed
qed

text \<open>
  Without a checksum the slow version inserts two bytes after the first one and decompresses with a
  3-byte header; the fast one decompresses with a 1-byte header. The outputs differ by exactly the
  inserted bytes.
\<close>

definition insert2 :: "bytestring \<Rightarrow> bytestring" where
  "insert2 l = take 1 l @ [0x78, 0x78] @ drop 1 l"

lemma length_insert2 [simp]: "length (insert2 l) = length l + 2"
  by (cases l) (auto simp: insert2_def)

lemma insert2_append: "l \<noteq> [] \<Longrightarrow> insert2 (l @ m) = insert2 l @ m"
  by (cases l) (auto simp: insert2_def)

lemma nth_insert2: "l \<noteq> [] \<Longrightarrow> 0 < i \<Longrightarrow> insert2 l ! (i + 2) = l ! i"
  by (cases l; cases i) (auto simp: insert2_def)

lemma insert2_update0: "l \<noteq> [] \<Longrightarrow> (insert2 l)[0 := b] = insert2 (l[0 := b])"
  by (cases l) (auto simp: insert2_def)

lemma copy_back_nonempty: "l \<noteq> [] \<Longrightarrow> copy_back n b l \<noteq> []"
  by (induction n b l rule: copy_back.induct) auto

lemma copy_back_insert2:
  "l \<noteq> [] \<Longrightarrow> 2 \<le> b \<Longrightarrow> copy_back n (b + 2) (insert2 l) = insert2 (copy_back n b l)"
proof (induction n b l rule: copy_back.induct)
  case (2 n b result)
  have "insert2 result ! (b + 1) = result ! (b - 1)"
    using nth_insert2 [of result "b - 1"] "2.prems" by simp
  then show ?case
    using 2 by (cases "b \<le> length result") (simp_all add: insert2_append)
qed auto

lemma decompress_loop_copy:
  assumes "n < 8" and "i < length d" and "bit f n"
    and "(if i + 1 < length d then d ! (i + 1) else 0) = hi"
  shows "decompress_loop d h n f i r =
    (if drop_bit 4 (mk16 (d ! i) hi) = 0 then r
     else decompress_loop d h (n + 1) f (i + 2)
            (copy_back (unat (mk16 (d ! i) hi AND 0x0f) + 2) (unat (drop_bit 4 (mk16 (d ! i) hi)) + h) r))"
  using assms(1-3) unfolding decompress_loop.simps [of d h n] assms(4)
  by (simp add: Let_def unat_eq_0 del: copy_back.simps)

lemma decompress_loop_insert2:
  assumes "d \<noteq> []" and "r \<noteq> []" and "1 \<le> i"
  shows "decompress_loop (insert2 d) 3 n f (i + 2) (insert2 r) = insert2 (decompress_loop d 1 n f i r)"
  using assms
proof (induction d "1 :: nat" n f i r rule: decompress_loop.induct)
  case (1 d n f i r)
  have nth: "insert2 d ! (i + 2) = d ! i" "insert2 d ! (i + 2 + 1) = d ! (i + 1)"
    using nth_insert2 [of d i] nth_insert2 [of d "i + 1"] "1.prems" by simp_all
  consider (stop) "n < 8" "length d \<le> i" | (lit) "n < 8" "i < length d" "\<not> bit f n"
    | (cmd) "n < 8" "i < length d" "bit f n" | (group) "\<not> n < 8"
    by fastforce
  then show ?case
  proof cases
    case stop
    then show ?thesis
      using "1.prems" by (simp add: decompress_loop.simps [of _ _ n] insert2_update0)
  next
    case lit
    then show ?thesis
      using "1.hyps"(1) "1.prems" nth
      by (simp add: decompress_loop.simps [of _ _ n] insert2_append)
  next
    case cmd
    define hi where "hi = (if i + 1 < length d then d ! (i + 1) else 0)"
    have hi: "(if i + 2 + 1 < length (insert2 d) then insert2 d ! (i + 2 + 1) else 0) = hi"
      using nth by (simp add: hi_def)
    let ?a = "unat (drop_bit 4 (mk16 (d ! i) hi))"
    let ?n = "unat (mk16 (d ! i) hi AND 0x0f) + 2"
    have step: "decompress_loop d 1 n f i r = (if ?a = 0 then r else
        decompress_loop d 1 (n + 1) f (i + 2) (copy_back ?n (?a + 1) r))"
      using decompress_loop_copy [OF cmd hi_def [symmetric]] by (simp add: unat_eq_0)
    have step2: "decompress_loop (insert2 d) 3 n f (i + 2) (insert2 r) = (if ?a = 0 then insert2 r else
        decompress_loop (insert2 d) 3 (n + 1) f (i + 2 + 2) (copy_back ?n (?a + 3) (insert2 r)))"
      using decompress_loop_copy [OF cmd(1) _ cmd(3) hi] cmd(2) unfolding nth by (simp add: unat_eq_0)
    show ?thesis
    proof (cases "?a = 0")
      case False
      have "copy_back ?n (?a + 3) (insert2 r) = insert2 (copy_back ?n (?a + 1) r)"
        using copy_back_insert2 [of r "?a + 1" ?n] False "1.prems" by (simp add: numeral_3_eq_3 del: copy_back.simps)
      moreover have "decompress_loop (insert2 d) 3 (n + 1) f (i + 2 + 2) (insert2 (copy_back ?n (?a + 1) r)) =
          insert2 (decompress_loop d 1 (n + 1) f (i + 2) (copy_back ?n (?a + 1) r))"
        using "1.hyps"(2) [OF cmd(1) _ _ refl refl] cmd False "1.prems"
        by (simp add: hi_def copy_back_nonempty del: copy_back.simps)
      ultimately show ?thesis
        using False step step2 by (simp add: add.assoc del: copy_back.simps)
    qed (use step step2 in simp)
  next
    case group
    then show ?thesis
      using "1.hyps"(3) "1.prems" nth by (simp add: decompress_loop.simps [of _ _ n])
  qed
qed

lemma decompress_loop_nonempty: "r \<noteq> [] \<Longrightarrow> decompress_loop d h n f i r \<noteq> []"
  by (induction d h n f i r rule: decompress_loop.induct)
     (subst decompress_loop.simps, simp add: Let_def copy_back_nonempty del: copy_back.simps)

lemma decompress_insert2:
  assumes "c \<noteq> []"
  shows "\<exists>r. r \<noteq> [] \<and> decompress c 1 = Some r \<and> decompress (insert2 c) 3 = Some (insert2 r)"
proof (cases "c ! 0 = 4")
  case False
  then show ?thesis
    using assms by (cases c) (auto simp: decompress_def insert2_def)
next
  case True
  obtain a d where c: "c = a # d" using assms by (cases c) auto
  have "decompress_loop (insert2 c) 3 8 0 3 (insert2 [3]) = insert2 (decompress_loop c 1 8 0 1 [3])"
    using decompress_loop_insert2 [of c "[3]" 1 8 0] c by (simp add: numeral_3_eq_3)
  moreover have "(take 3 (insert2 c))[0 := 3] = insert2 [3]"
    by (simp add: c insert2_def)
  moreover have "insert2 c \<noteq> []" "insert2 c ! 0 = 4"
    using True by (simp_all add: c insert2_def)
  ultimately show ?thesis
    using True c decompress_loop_nonempty [of "[3]" c 1 8 0 1] by (auto simp: decompress_def load_bytes_def)
qed

lemma decompress_guard: "(if byte_at c 0 = Some 4 then decompress c h else Some c) = decompress c h"
  by (simp add: decompress_def)

lemma drop_insert2: "r \<noteq> [] \<Longrightarrow> drop (Suc (Suc (Suc k))) (insert2 r) = drop (Suc k) r"
  by (cases r) (auto simp: insert2_def)


text \<open>
  The size table reads outside its buffer exactly when the buffer starts with the chat code and
  holds fewer than 64 bytes; on every other buffer it returns a size.
\<close>

theorem getExpectedSubPacketSize_undefined_iff:
  "getExpectedSubPacketSize s = None \<longleftrightarrow> s \<noteq> [] \<and> s ! 0 = 0x05 \<and> length s < 64"
proof (cases "s \<noteq> [] \<and> s ! 0 = 0x05")
  case True
  then have "subPacketCode (s ! 0) = CHAT_05" by (simp add: subPacketCode_eq_iff)
  then show ?thesis
    using True byte_at_None_iff [of s 64]
    by (cases "byte_at s 64") (auto simp: getExpectedSubPacketSize_def Let_def)
next
  case False
  then have "s \<noteq> [] \<Longrightarrow> subPacketCode (s ! 0) \<noteq> CHAT_05" by (simp add: subPacketCode_eq_iff)
  then have "getExpectedSubPacketSize s \<noteq> None"
    unfolding getExpectedSubPacketSize_def Let_def
    by (cases "s = []"; cases "subPacketCode (s ! 0)"; simp)
  then show ?thesis using False by blast
qed

section \<open>Unpacking inverts packing\<close>

text \<open>
  A sub-packet whose size the table can read off its first bytes, whatever follows it in a stream. A
  chat is the fixed-size form with its terminator in place.
\<close>

definition well_sized :: "bytestring \<Rightarrow> bool" where
  "well_sized s = (s \<noteq> [] \<and> s ! 0 \<notin> {0, 0xfd, 0xfe, 0xff} \<and>
     (s ! 0 = 0x05 \<longrightarrow> length s = 65 \<and> s ! 64 = 0) \<and>
     getExpectedSubPacketSize s = Some (length s))"

text \<open>
  The shape of the unit-state (2C) packets in one stream: consecutive serial numbers, and a packet of
  11 bytes is the idle packet. \<open>st\<close> is the serial expected next, if one has been seen.
\<close>

fun ticks_ok :: "u32 option \<Rightarrow> bytestring list \<Rightarrow> bool" where
  "ticks_ok st [] = True"
| "ticks_ok st (s # ss) = (well_sized s \<and>
     (if 7 \<le> length s \<and> s ! 0 = 0x2c
      then (case load32 s 3 of
              None \<Rightarrow> False
            | Some n \<Rightarrow> st \<in> {None, Some n} \<and>
                (s ! 1 = 0x0b \<and> s ! 2 = 0 \<longrightarrow> s = tick_packet n) \<and> ticks_ok (Some (n + 1)) ss)
      else ticks_ok st ss))"

lemma size_append:
  assumes "well_sized s"
  shows "getExpectedSubPacketSize (s @ t) = Some (length s)"
proof (cases "s ! 0 = 0x05")
  case True
  then show ?thesis
    using assms
    by (auto simp: well_sized_def getExpectedSubPacketSize_def subPacketCode_eq_iff nth_append subPacketCode_def)
next
  case False
  then have "subPacketCode (s ! 0) \<noteq> CHAT_05" "subPacketCode (s ! 0) \<noteq> ZERO_00"
    using assms by (auto simp: well_sized_def subPacketCode_eq_iff)
  then show ?thesis
    using assms
    by (cases "subPacketCode (s ! 0)")
       (auto simp: well_sized_def getExpectedSubPacketSize_def nth_append split: if_splits)
qed

lemma size_FE: "getExpectedSubPacketSize (0xfe # xs) = Some 5"
  by (simp add: getExpectedSubPacketSize_def subPacketCode_def Let_def)

lemma size_FF: "getExpectedSubPacketSize (0xff # xs) = Some 1"
  by (simp add: getExpectedSubPacketSize_def subPacketCode_def Let_def)

lemma size_FD:
  "getExpectedSubPacketSize (0xfd # a # b # xs) = Some (unat (ucast (mk16 a b) - 4 :: u32))"
  by (simp add: getExpectedSubPacketSize_def subPacketCode_def Let_def)

lemma size_2C:
  "s \<noteq> [] \<Longrightarrow> s ! 0 = 0x2c \<Longrightarrow>
   getExpectedSubPacketSize s = Some (if 3 \<le> length s then unat (mk16 (s ! 1) (s ! 2)) else 0)"
  by (simp add: getExpectedSubPacketSize_def subPacketCode_def Let_def)

lemma fast_loop_FE: "fast_loop k ([0xfe] @ le32 n @ xs) = fast_loop n xs"
  by (subst fast_loop.simps)
     (simp add: size_FE subpakLen_def subPacketCode_eq_iff load32_at [of "[0xfe]" 1 n xs, simplified])

lemma fast_loop_FF: "fast_loop k (0xff # xs) = map_sum id (\<lambda>ut. tick_packet k # ut) (fast_loop (k + 1) xs)"
  by (subst fast_loop.simps) (simp add: size_FF subpakLen_def subPacketCode_eq_iff)

lemma fast_loop_other:
  assumes "well_sized s"
  shows "fast_loop k (s @ xs) = map_sum id (\<lambda>ut. s # ut) (fast_loop k xs)"
proof -
  have "s \<noteq> []" "(s @ xs) ! 0 = s ! 0" "s ! 0 \<notin> {0xfd, 0xfe, 0xff}"
    using assms by (auto simp: well_sized_def nth_append)
  then show ?thesis
    using size_append [OF assms, of xs]
    by (subst fast_loop.simps) (simp add: subpakLen_def subPacketCode_eq_iff)
qed

lemma fast_loop_FD:
  assumes "unat (mk16 a b) = 7 + length body"
  shows "fast_loop k ([0xfd, a, b] @ body @ xs) =
    map_sum id (\<lambda>ut. ([0x2c, a, b] @ le32 k @ body) # ut) (fast_loop (k + 1) xs)"
proof -
  have "(4 :: u32) \<le> ucast (mk16 a b)"
    using assms by (simp add: word_le_nat_alt)
  then have "unat (ucast (mk16 a b) - 4 :: u32) = 3 + length body"
    using assms by (simp add: unat_sub)
  then have "getExpectedSubPacketSize ([0xfd, a, b] @ body @ xs) = Some (3 + length body)"
    by (simp add: size_FD)
  moreover have "drop (3 + length body) (0xfd # a # b # body @ xs) = xs"
    by (simp add: numeral_3_eq_3)
  ultimately show ?thesis
    by (subst fast_loop.simps) (simp add: subpakLen_def subPacketCode_eq_iff)
qed

lemma split_2C:
  assumes "7 \<le> length s" and "s ! 0 = 0x2c" and "load32 s 3 = Some n"
  shows "s = [0x2c, s ! 1, s ! 2] @ le32 n @ drop 7 s"
proof -
  have "n = mk32 (s ! 3) (s ! 4) (s ! 5) (s ! 6)"
    using assms load32_less [of 3 s] by simp
  moreover have "s = [s ! 0, s ! 1, s ! 2] @ [s ! 3, s ! 4, s ! 5, s ! 6] @ drop 7 s"
    using assms(1) by (auto intro!: nth_equalityI simp: nth_Cons nth_append numeral_eq_Suc split: nat.splits)
  ultimately show ?thesis
    using assms(2) by simp
qed

lemma smartPaker_2C:
  assumes "7 \<le> length s" and "s ! 0 = 0x2c" and "load32 s 3 = Some n"
  shows "smartPaker first s = (False, (if first then [0xfe] @ le32 n else []) @
    (if s ! 1 = 0x0b \<and> s ! 2 = 0 then [0xff] else [0xfd, s ! 1, s ! 2] @ drop 7 s))"
proof -
  have "take 4 (drop 3 s) = le32 n" "take 2 (drop 1 s) = [s ! 1, s ! 2]"
    by (subst split_2C [OF assms], simp add: numeral_eq_Suc le32_def)+
  then show ?thesis
    using assms(1,2) by (simp add: smartPaker_def subPacketCode_def Let_def)
qed

lemma fast_loop_smartpak_all:
  "ticks_ok st ss \<Longrightarrow>
   fast_loop (case st of None \<Rightarrow> k | Some m \<Rightarrow> m) (smartpak_all (st = None) ss) = Inr ss"
proof (induction ss arbitrary: st k)
  case Nil
  then show ?case by (simp add: fast_loop.simps)
next
  case (Cons s ss)
  show ?case
  proof (cases "7 \<le> length s \<and> s ! 0 = 0x2c")
    case False
    then have "smartPaker (st = None) s = (st = None, s)"
      using Cons.prems by (auto simp: smartPaker_def subPacketCode_eq_iff well_sized_def)
    then show ?thesis
      using Cons False by (auto simp: fast_loop_other)
  next
    case True
    then obtain n where n: "load32 s 3 = Some n" and st: "st \<in> {None, Some n}"
      and idle: "s ! 1 = 0x0b \<and> s ! 2 = 0 \<longrightarrow> s = tick_packet n"
      and ok: "ticks_ok (Some (n + 1)) ss" and ws: "well_sized s"
      using Cons.prems by (auto split: option.splits)
    note s = split_2C [OF conjunct1 [OF True] conjunct2 [OF True] n]
    have len: "unat (mk16 (s ! 1) (s ! 2)) = 7 + length (drop 7 s)"
      using ws True size_2C [of s] by (auto simp: well_sized_def)
    let ?item = "if s ! 1 = 0x0b \<and> s ! 2 = 0 then [0xff] else [0xfd, s ! 1, s ! 2] @ drop 7 s"
    have item: "fast_loop n (?item @ xs) = map_sum id (\<lambda>ut. s # ut) (fast_loop (n + 1) xs)" for xs
      using idle s fast_loop_FF [of n xs] fast_loop_FD [OF len, of n xs] by auto
    have "smartpak_all (st = None) (s # ss) =
        (if st = None then [0xfe] @ le32 n else []) @ ?item @ smartpak_all False ss"
      using smartPaker_2C [OF conjunct1 [OF True] conjunct2 [OF True] n, of "st = None"] by simp
    then have "fast_loop (case st of None \<Rightarrow> k | Some m \<Rightarrow> m) (smartpak_all (st = None) (s # ss)) =
        fast_loop n (?item @ smartpak_all False ss)"
      using st fast_loop_FE [of k n "?item @ smartpak_all False ss"] by auto
    then show ?thesis
      using item Cons.IH [OF ok] by simp
  qed
qed

text \<open>
  C29. Unpacking a smartpak stream restores exactly the sub-packets that were packed, in their order:
  for every sequence of properly sized sub-packets whose unit-state packets carry consecutive serial
  numbers, packed by one \<open>SmartPaker\<close> and framed by \<open>trivialSmartpak\<close>.
\<close>

theorem unsmartpak_smartpak:
  assumes "ticks_ok None ss"
  shows "unsmartpak (trivialSmartpak (smartpak_all True ss) tcpseq) True True = Inr ss"
  using fast_loop_smartpak_all [OF assms, of 0]
  by (simp add: unsmartpak_def trivialSmartpak_def)

section \<open>Bit fields\<close>

definition stream_bit :: "bytestring \<Rightarrow> nat \<Rightarrow> bool" where
  "stream_bit s k = bit (s ! (k div 8)) (k mod 8)"

lemma bin2int_loop_bits:
  assumes "st < 8" and "8 * i + st + n \<le> 8 * length s" and "byte_at s i = Some b" and "j + n \<le> 32"
  shows "\<exists>r. bin2int_loop s i st b j n result = Some r \<and>
    (\<forall>k < 32. bit r k \<longleftrightarrow> bit result k \<or> j \<le> k \<and> k < j + n \<and> stream_bit s (8 * i + st + (k - j)))"
  using assms
proof (induction n arbitrary: i st b j result)
  case 0
  then show ?case by auto
next
  case (Suc n)
  let ?result = "if bit b st then result OR push_bit j 1 else result"
  have b: "b = s ! i" and i: "i < length s"
    using Suc.prems by (auto simp: byte_at_def split: if_splits)
  have here: "stream_bit s (8 * i + st) = bit b st"
    using Suc.prems(1) b by (simp add: stream_bit_def)
  have step: "bit ?result k \<longleftrightarrow> bit result k \<or> k = j \<and> bit b st" if "k < 32" for k
    using that by (auto simp: bit_simps)
  obtain i' st' b' where nxt: "8 * i' + st' = 8 * i + st + 1" "st' < 8" "byte_at s i' = Some b'"
    and eq: "bin2int_loop s i st b j (Suc n) result = bin2int_loop s i' st' b' (j + 1) n ?result"
  proof (cases "st = 7")
    case True
    then obtain b' where "byte_at s (i + 1) = Some b'"
      using i by (cases "byte_at s (i + 1)") (auto simp: byte_at_None_iff)
    then show ?thesis using True by (intro that [of "i + 1" 0 b']) simp_all
  next
    case False
    then show ?thesis using Suc.prems by (intro that [of i "st + 1" b]) auto
  qed
  obtain r where r: "bin2int_loop s i' st' b' (j + 1) n ?result = Some r"
    and bits: "\<And>k. k < 32 \<Longrightarrow> bit r k \<longleftrightarrow> bit ?result k \<or>
      j + 1 \<le> k \<and> k < j + 1 + n \<and> stream_bit s (8 * i' + st' + (k - (j + 1)))"
    using Suc.IH [of st' i' b' "j + 1" ?result] nxt Suc.prems by auto
  have "bit r k \<longleftrightarrow> bit result k \<or> j \<le> k \<and> k < j + Suc n \<and> stream_bit s (8 * i + st + (k - j))"
    if "k < 32" for k
  proof (cases "j + 1 \<le> k")
    case True
    then have "8 * i' + st' + (k - (j + 1)) = 8 * i + st + (k - j)"
      using nxt(1) by simp
    then show ?thesis using bits [OF that] step [OF that] True by auto
  next
    case False
    then show ?thesis using bits [OF that] step [OF that] here by (cases "k = j") auto
  qed
  then show ?case using eq r by auto
qed

text \<open>
  \<open>bin2int\<close> reads the bit field it is asked for: bit \<open>j\<close> of the result is bit \<open>start + j\<close> of the
  buffer (least significant bit of each byte first) and the bits from \<open>num\<close> on are 0, for every field
  of at most 32 bits inside the buffer. In particular it returns.
\<close>

theorem bin2int_bits:
  assumes "start + num \<le> 8 * length s" and "num \<le> 32"
  shows "\<exists>r. bin2int s start num = Some r \<and>
    (\<forall>j < 32. bit r j \<longleftrightarrow> j < num \<and> bit (s ! ((start + j) div 8)) ((start + j) mod 8))"
proof -
  have "start div 8 \<le> length s"
    using assms(1) by presburger
  then obtain b where b: "byte_at s (start div 8) = Some b"
    by (cases "byte_at s (start div 8)") (auto simp: byte_at_None_iff)
  show ?thesis
    using bin2int_loop_bits [of "start mod 8" "start div 8" num s b 0 0] assms b
    by (auto simp: bin2int_def stream_bit_def)
qed

theorem bin2int_bits_witness:
  "\<exists>r. bin2int [0xa5, 0x3c] 4 8 = Some r \<and>
    (\<forall>j < 32. bit r j \<longleftrightarrow> j < 8 \<and> bit ([0xa5, 0x3c :: byte] ! ((4 + j) div 8)) ((4 + j) mod 8))"
  by (rule bin2int_bits) simp_all


theorem unsmartpak_smartpak_witness:
  "unsmartpak (trivialSmartpak (smartpak_all True
     [tick_packet 7, [0x19, 0, 5], [0x2c, 12, 0, 8, 0, 0, 0, 1, 2, 3, 4, 5]]) 9) True True =
   Inr [tick_packet 7, [0x19, 0, 5], [0x2c, 12, 0, 8, 0, 0, 0, 1, 2, 3, 4, 5]]"
  by (rule unsmartpak_smartpak) code_simp

end
