(* ===== verification/Packet_Records.thy ===== *)
theory Packet_Records
  imports Sub_Packets "HOL-Library.Monad_Syntax"
begin

text \<open>
  The decoded forms of single sub-packets (\<open>libs/tapacket/TPacket.h\<close> and \<open>.cpp\<close>): \<open>TPing\<close>,
  \<open>TPlayerInfo\<close>, \<open>TAlliance\<close>, \<open>TTeam\<close>, \<open>TIdent2\<close>, \<open>TIdent3\<close>, \<open>TUnitData\<close> and \<open>TProgress\<close>. Each class is
  a record; its constructor from a sub-packet is \<open><class>_parse\<close> (\<open>None\<close> for a read outside the
  buffer), its \<open>asSubPacket\<close> is \<open><class>_asSubPacket\<close>.

  The locale \<open>sub_packet_codec\<close> is the contract between such a class and the packet stream: printing is
  inverted by parsing, and the size table knows the size of what is printed. It is interpreted on every class that
  satisfies it; \<open>TTeam\<close> (printed with the code of \<open>TAlliance\<close>) and \<open>TProgress\<close> (one byte longer than the
  size table says) do not, and what happens to them in a stream is proved separately.
\<close>

section \<open>Integers\<close>

text \<open>\<open>toUint32\<close> and \<open>toUint16\<close> on the bytes from a pointer \<open>i\<close> bytes into \<open>s\<close>; \<open>serialise\<close> is \<open>le32\<close>/\<open>le16\<close> appended.\<close>

definition toUint32 :: "bytestring \<Rightarrow> nat \<Rightarrow> u32 option" where
  "toUint32 s i = do {
     b3 \<leftarrow> byte_at s (i + 3);
     b2 \<leftarrow> byte_at s (i + 2);
     b1 \<leftarrow> byte_at s (i + 1);
     b0 \<leftarrow> byte_at s i;
     Some (push_bit 8 (push_bit 8 (push_bit 8 (ucast b3) OR ucast b2) OR ucast b1) OR ucast b0) }"

definition toUint16 :: "bytestring \<Rightarrow> nat \<Rightarrow> u16 option" where
  "toUint16 s i = do {
     b1 \<leftarrow> byte_at s (i + 1);
     b0 \<leftarrow> byte_at s i;
     Some (push_bit 8 (ucast b1) OR ucast b0) }"

definition serialise32 :: "bytestring \<Rightarrow> u32 \<Rightarrow> bytestring" where
  "serialise32 dest x = dest @ [ucast x] @ [ucast (drop_bit 8 x)] @ [ucast (drop_bit 16 x)] @ [ucast (drop_bit 24 x)]"

definition serialise16 :: "bytestring \<Rightarrow> u16 \<Rightarrow> bytestring" where
  "serialise16 dest x = dest @ [ucast x] @ [ucast (drop_bit 8 x)]"

section \<open>TPing\<close>

record TPing =
  ping_from :: u32
  ping_id :: u32
  ping_value :: u32

definition TPing_parse :: "bytestring \<Rightarrow> TPing option" where
  "TPing_parse subPacket = do {
     id \<leftarrow> toUint32 subPacket 1;
     value \<leftarrow> toUint32 subPacket 5;
     from \<leftarrow> toUint32 subPacket 9;
     Some \<lparr>ping_from = from, ping_id = id, ping_value = value\<rparr> }"

definition TPing_asSubPacket :: "TPing \<Rightarrow> bytestring" where
  "TPing_asSubPacket p =
     serialise32 (serialise32 (serialise32 [code_byte PING_02] (ping_id p)) (ping_value p)) (ping_from p)"

section \<open>TPlayerInfo\<close>

record TPlayerInfo =
  serialisedSize :: nat
  fill1 :: bytestring
  width :: u16
  height :: u16
  fill3 :: byte
  player1Id :: u32
  data2 :: bytestring
  clicked :: byte
  fill2 :: bytestring
  maxUnits :: u16
  versionMajor :: byte
  versionMinor :: byte
  data3 :: bytestring
  player2Id :: u32
  data4 :: byte

text \<open>
  A packet of another size than 192 leaves the last byte of \<open>data3\<close> as it was in memory:
  \<open>garbage\<close>.
\<close>

definition TPlayerInfo_parse :: "byte \<Rightarrow> bytestring \<Rightarrow> TPlayerInfo option" where
  "TPlayerInfo_parse garbage subPacket = do {
     fill1 \<leftarrow> load_bytes subPacket 1 139;
     width \<leftarrow> toUint16 subPacket (1 + 139);
     height \<leftarrow> toUint16 subPacket (1 + 141);
     fill3 \<leftarrow> byte_at subPacket (1 + 143);
     player1Id \<leftarrow> toUint32 subPacket (1 + 144);
     data2 \<leftarrow> load_bytes subPacket (1 + 148) 7;
     clicked \<leftarrow> byte_at subPacket (1 + 155);
     fill2 \<leftarrow> load_bytes subPacket (1 + 156) 9;
     maxUnits \<leftarrow> toUint16 subPacket (1 + 165);
     versionMajor \<leftarrow> byte_at subPacket (1 + 167);
     versionMinor \<leftarrow> byte_at subPacket (1 + 168);
     (data3, player2Id, data4) \<leftarrow>
       (if length subPacket = 192
        then do {
          data3 \<leftarrow> load_bytes subPacket (1 + 169) 17;
          player2Id \<leftarrow> toUint32 subPacket (1 + 186);
          data4 \<leftarrow> byte_at subPacket (1 + 190);
          Some (data3, player2Id, data4) }
        else do {
          data3 \<leftarrow> load_bytes subPacket (1 + 169) 16;
          Some (data3 @ [garbage], player1Id, 0) });
     Some \<lparr>serialisedSize = length subPacket, fill1 = fill1, width = width, height = height, fill3 = fill3,
       player1Id = player1Id, data2 = data2, clicked = clicked, fill2 = fill2, maxUnits = maxUnits,
       versionMajor = versionMajor, versionMinor = versionMinor, data3 = data3, player2Id = player2Id,
       data4 = data4\<rparr> }"

definition TPlayerInfo_asSubPacket :: "TPlayerInfo \<Rightarrow> bytestring" where
  "TPlayerInfo_asSubPacket p =
     (let result = [code_byte PLAYER_INFO_20] @ fill1 p;
          result = serialise16 result (width p);
          result = serialise16 result (height p);
          result = result @ [fill3 p];
          result = serialise32 result (player1Id p);
          result = result @ data2 p @ [clicked p] @ fill2 p;
          result = serialise16 result (maxUnits p);
          result = result @ [versionMajor p] @ [versionMinor p] @ data3 p;
          result = serialise32 result (player2Id p);
          result = result @ [data4 p]
      in take (serialisedSize p) result)"

definition setDpId :: "u32 \<Rightarrow> TPlayerInfo \<Rightarrow> TPlayerInfo" where
  "setDpId dpid p = p\<lparr>player1Id := dpid, player2Id := dpid\<rparr>"

definition setInternalVersion :: "byte \<Rightarrow> TPlayerInfo \<Rightarrow> TPlayerInfo" where
  "setInternalVersion v p = p\<lparr>data3 := (data3 p)[188 - 177 := v]\<rparr>"

definition setAllowWatch :: "bool \<Rightarrow> TPlayerInfo \<Rightarrow> TPlayerInfo" where
  "setAllowWatch allowWatch p =
     (if allowWatch then p\<lparr>clicked := clicked p OR 0x80\<rparr> else p\<lparr>clicked := clicked p AND NOT 0x80\<rparr>)"

definition setCheat :: "bool \<Rightarrow> TPlayerInfo \<Rightarrow> TPlayerInfo" where
  "setCheat isCheat p =
     (if isCheat then p\<lparr>fill2 := (fill2 p)[0 := fill2 p ! 0 OR 0x20]\<rparr>
      else p\<lparr>fill2 := (fill2 p)[0 := fill2 p ! 0 AND NOT 0x20]\<rparr>)"

definition setPermLos :: "bool \<Rightarrow> TPlayerInfo \<Rightarrow> TPlayerInfo" where
  "setPermLos permLos p = p\<lparr>fill2 := (fill2 p)[0 := 0x08]\<rparr>"

definition getPermLosByte :: "TPlayerInfo \<Rightarrow> byte" where
  "getPermLosByte p = fill2 p ! 0"

definition isClickedIn :: "TPlayerInfo \<Rightarrow> bool" where
  "isClickedIn p = (clicked p AND 0x20 \<noteq> 0)"

definition isWatcher :: "TPlayerInfo \<Rightarrow> bool" where
  "isWatcher p = (clicked p AND 0x40 \<noteq> 0)"

definition isCheatsEnabled :: "TPlayerInfo \<Rightarrow> bool" where
  "isCheatsEnabled p = (fill2 p ! 0 AND 0x20 \<noteq> 0)"

definition isAI :: "TPlayerInfo \<Rightarrow> bool" where
  "isAI p = (data2 p ! 0 = 2)"

text \<open>\<open>getSide\<close> returns the byte as a signed \<open>int8_t\<close>.\<close>

definition getSide :: "TPlayerInfo \<Rightarrow> int" where
  "getSide p = sint (data2 p ! 1)"

definition getSlotNumber :: "TPlayerInfo \<Rightarrow> byte" where
  "getSlotNumber p = data2 p ! 2"

text \<open>The C string in \<open>fill1\<close>; without a terminator the read runs out of the array: \<open>None\<close>.\<close>

definition getMapName :: "TPlayerInfo \<Rightarrow> bytestring option" where
  "getMapName p = (if 0 \<in> set (fill1 p) then Some (takeWhile (\<lambda>b. b \<noteq> 0) (fill1 p)) else None)"

definition getMapHash :: "TPlayerInfo \<Rightarrow> u32" where
  "getMapHash p = mk32 (data3 p ! 0) (data3 p ! 1) (data3 p ! 2) (data3 p ! 3)"

section \<open>TAlliance and TTeam\<close>

record TAlliance =
  ally_dpidFrom :: u32
  ally_dpidTo :: u32
  alliedFromWithTo :: byte
  alliedToWithFrom :: u32

definition TAlliance_default :: TAlliance where
  "TAlliance_default = \<lparr>ally_dpidFrom = 0, ally_dpidTo = 0, alliedFromWithTo = 0, alliedToWithFrom = 0\<rparr>"

definition TAlliance_parse :: "bytestring \<Rightarrow> TAlliance option" where
  "TAlliance_parse subPacket = do {
     dpidFrom \<leftarrow> toUint32 subPacket 1;
     dpidTo \<leftarrow> toUint32 subPacket (1 + 4);
     fromWithTo \<leftarrow> byte_at subPacket (1 + 8);
     toWithFrom \<leftarrow> toUint32 subPacket (1 + 9);
     Some \<lparr>ally_dpidFrom = dpidFrom, ally_dpidTo = dpidTo, alliedFromWithTo = fromWithTo,
       alliedToWithFrom = toWithFrom\<rparr> }"

definition TAlliance_asSubPacket :: "TAlliance \<Rightarrow> bytestring" where
  "TAlliance_asSubPacket a =
     serialise32 (serialise32 (serialise32 [code_byte ALLY_23] (ally_dpidFrom a)) (ally_dpidTo a)
       @ [alliedFromWithTo a]) (alliedToWithFrom a)"

record TTeam =
  team_dpidFrom :: u32
  teamNumber :: byte

definition TTeam_default :: TTeam where
  "TTeam_default = \<lparr>team_dpidFrom = 0, teamNumber = 5\<rparr>"

definition TTeam_parse :: "bytestring \<Rightarrow> TTeam option" where
  "TTeam_parse subPacket = do {
     dpidFrom \<leftarrow> toUint32 subPacket 1;
     n \<leftarrow> byte_at subPacket (1 + 4);
     Some \<lparr>team_dpidFrom = dpidFrom, teamNumber = n\<rparr> }"

definition TTeam_asSubPacket :: "TTeam \<Rightarrow> bytestring" where
  "TTeam_asSubPacket t = serialise32 [code_byte ALLY_23] (team_dpidFrom t) @ [teamNumber t]"

section \<open>TIdent2 and TIdent3\<close>

record TIdent2 =
  dpids :: "u32 list"

definition TIdent2_default :: TIdent2 where
  "TIdent2_default = \<lparr>dpids = replicate 10 0\<rparr>"

fun dpids_loop :: "bytestring \<Rightarrow> nat \<Rightarrow> nat \<Rightarrow> u32 list option" where
  "dpids_loop s ptr 0 = Some []"
| "dpids_loop s ptr (Suc n) = do {
     d \<leftarrow> toUint32 s ptr;
     ds \<leftarrow> dpids_loop s (ptr + 4) n;
     Some (d # ds) }"

definition TIdent2_parse :: "bytestring \<Rightarrow> TIdent2 option" where
  "TIdent2_parse subPacket = do { ds \<leftarrow> dpids_loop subPacket 1 10; Some \<lparr>dpids = ds\<rparr> }"

definition TIdent2_asSubPacket :: "TIdent2 \<Rightarrow> bytestring" where
  "TIdent2_asSubPacket t = foldl serialise32 [code_byte IDENT2_26] (dpids t)"

record TIdent3 =
  ident_dpid :: u32
  number :: byte

definition TIdent3_parse :: "bytestring \<Rightarrow> TIdent3 option" where
  "TIdent3_parse subPacket = do {
     dpid \<leftarrow> toUint32 subPacket 1;
     n \<leftarrow> byte_at subPacket 5;
     Some \<lparr>ident_dpid = dpid, number = n\<rparr> }"

definition TIdent3_asSubPacket :: "TIdent3 \<Rightarrow> bytestring" where
  "TIdent3_asSubPacket t = serialise32 [code_byte IDENT3_22] (ident_dpid t) @ [number t]"

section \<open>TUnitData\<close>

text \<open>The union \<open>u\<close> is one 32-bit cell; \<open>statusAndLimit\<close> views its lower and upper half.\<close>

record TUnitData =
  pktid :: SubPacketCode
  sub :: byte
  unit_fill :: u32
  unit_id :: u32
  crc :: u32

definition statusAndLimit0 :: "TUnitData \<Rightarrow> u16" where
  "statusAndLimit0 ud = ucast (crc ud)"

definition statusAndLimit1 :: "TUnitData \<Rightarrow> u16" where
  "statusAndLimit1 ud = ucast (drop_bit 16 (crc ud))"

definition union_of_halves :: "u16 \<Rightarrow> u16 \<Rightarrow> u32" where
  "union_of_halves a b = ucast a OR push_bit 16 (ucast b)"

definition TUnitData_make :: "u32 \<Rightarrow> u16 \<Rightarrow> bool \<Rightarrow> TUnitData" where
  "TUnitData_make uid limit inUse =
     \<lparr>pktid = UNIT_DATA_1A, sub = 0x03, unit_fill = 0, unit_id = uid,
      crc = (if inUse then union_of_halves 0x0101 limit else union_of_halves 0x0001 0xffff)\<rparr>"

definition TUnitData_parse :: "bytestring \<Rightarrow> TUnitData option" where
  "TUnitData_parse subPacket = do {
     b \<leftarrow> byte_at subPacket 0;
     sub \<leftarrow> byte_at subPacket 1;
     fill \<leftarrow> toUint32 subPacket 2;
     id \<leftarrow> toUint32 subPacket 6;
     u \<leftarrow> (if sub = 0x03
          then do {
            s0 \<leftarrow> toUint16 subPacket 10;
            s1 \<leftarrow> toUint16 subPacket 12;
            Some (union_of_halves s0 s1) }
          else toUint32 subPacket 10);
     Some \<lparr>pktid = subPacketCode b, sub = sub, unit_fill = fill, unit_id = id, crc = u\<rparr> }"

definition TUnitData_asSubPacket :: "TUnitData \<Rightarrow> bytestring" where
  "TUnitData_asSubPacket ud =
     (let bs = serialise32 (serialise32 [code_byte (pktid ud), sub ud] (unit_fill ud)) (unit_id ud)
      in if sub ud = 0x03
         then serialise16 (serialise16 bs (statusAndLimit0 ud)) (statusAndLimit1 ud)
         else serialise32 bs (crc ud))"

section \<open>TProgress\<close>

record TProgress =
  percent :: byte
  progress_data :: byte

definition TProgress_make :: "byte \<Rightarrow> TProgress" where
  "TProgress_make p = \<lparr>percent = p, progress_data = 0x06\<rparr>"

definition TProgress_parse :: "bytestring \<Rightarrow> TProgress option" where
  "TProgress_parse subPacket = do {
     p \<leftarrow> byte_at subPacket 1;
     d \<leftarrow> byte_at subPacket 2;
     Some \<lparr>percent = p, progress_data = d\<rparr> }"

definition TProgress_asSubPacket :: "TProgress \<Rightarrow> bytestring" where
  "TProgress_asSubPacket t = [code_byte LOADING_PROGRESS_2A, percent t, progress_data t]"

section \<open>Integers and bytes\<close>

lemma toUint32_load32 [codec_simps]: "toUint32 s i = load32 s i"
proof -
  have "push_bit 8 (push_bit 8 (push_bit 8 (ucast b3) OR ucast b2) OR ucast b1) OR ucast b0 = mk32 b0 b1 b2 b3"
    for b0 b1 b2 b3 :: byte
    unfolding mk32_def by (simp add: push_bit_or ac_simps)
  then show ?thesis
    by (auto simp: toUint32_def load32_def split: option.splits)
qed

lemma toUint16_load16 [codec_simps]: "toUint16 s i = load16 s i"
  by (auto simp: toUint16_def load16_def mk16_def ac_simps split: option.splits)

lemma serialise32_append [codec_simps]: "serialise32 dest x = dest @ le32 x"
  by (simp add: serialise32_def le32_def)

lemma serialise16_append [codec_simps]: "serialise16 dest x = dest @ le16 x"
  by (simp add: serialise16_def le16_def)

lemma union_of_halves_id [codec_simps]: "union_of_halves (statusAndLimit0 ud) (statusAndLimit1 ud) = crc ud"
  unfolding union_of_halves_def statusAndLimit0_def statusAndLimit1_def
  by (rule bit_word_eqI) (auto simp: bit_simps)

lemma statusAndLimit_le32 [codec_simps]: "le16 (statusAndLimit0 ud) @ le16 (statusAndLimit1 ud) = le32 (crc ud)"
  by (auto simp: le16_def le32_def statusAndLimit0_def statusAndLimit1_def intro!: bit_word_eqI simp: bit_simps)

lemmas codec_defs = TPing_parse_def TPing_asSubPacket_def TAlliance_parse_def TAlliance_asSubPacket_def
  TTeam_parse_def TTeam_asSubPacket_def TIdent3_parse_def TIdent3_asSubPacket_def
  TProgress_parse_def TProgress_asSubPacket_def TUnitData_parse_def TUnitData_asSubPacket_def

text \<open>Reading back what \<open>s\<close> holds: each field, re-encoded, extends a prefix of \<open>s\<close> by itself.\<close>

lemma glue_bytes: "load_bytes s i n = Some bs \<Longrightarrow> i + n \<le> length s \<Longrightarrow> take i s @ bs = take (i + n) s"
  by (auto simp: load_bytes_def take_add)

lemma glue8: "byte_at s i = Some b \<Longrightarrow> i < length s \<Longrightarrow> take i s @ [b] = take (i + 1) s"
  by (auto simp: take_Suc_nth)

lemma glue16:
  assumes "load16 s i = Some x" and "i + 2 \<le> length s"
  shows "take i s @ le16 x = take (i + 2) s"
proof -
  have "x = mk16 (s ! i) (s ! (i + 1))" using assms load16_less [of i s] by simp
  then show ?thesis using assms(2) by (simp add: take_Suc_nth)
qed

lemma glue32:
  assumes "load32 s i = Some x" and "i + 4 \<le> length s"
  shows "take i s @ le32 x = take (i + 4) s"
proof -
  have "x = mk32 (s ! i) (s ! (i + 1)) (s ! (i + 2)) (s ! (i + 3))"
    using assms load32_less [of i s] by simp
  moreover have "take (i + 4) s = take i s @ take 4 (drop i s)"
    by (rule take_add)
  moreover have "take 4 (drop i s) = [s ! i, s ! (i + 1), s ! (i + 2), s ! (i + 3)]"
    using assms(2) by (auto intro!: nth_equalityI simp: less_Suc_eq numeral_eq_Suc)
  ultimately show ?thesis by simp
qed

section \<open>The contract of a packet class\<close>

locale sub_packet_codec =
  fixes parse :: "bytestring \<Rightarrow> 'a option"
    and asSubPacket :: "'a \<Rightarrow> bytestring"
    and valid :: "'a \<Rightarrow> bool"
  assumes parse_print: "valid x \<Longrightarrow> parse (asSubPacket x) = Some x"
    and print_sized: "valid x \<Longrightarrow> well_sized (asSubPacket x)"
    and print_not_tick: "valid x \<Longrightarrow> asSubPacket x ! 0 \<noteq> 0x2c"
begin

lemma print_inject: "valid x \<Longrightarrow> valid y \<Longrightarrow> asSubPacket x = asSubPacket y \<Longrightarrow> x = y"
  by (metis option.inject parse_print)

lemma print_ticks_ok: "list_all valid xs \<Longrightarrow> ticks_ok st (map asSubPacket xs)"
proof (induction xs)
  case (Cons x xs)
  then have "well_sized (asSubPacket x)" "asSubPacket x ! 0 \<noteq> 0x2c"
    using print_sized [of x] print_not_tick [of x] by simp_all
  then show ?case using Cons by simp
qed simp

lemma stream_round_trip:
  assumes "list_all valid xs"
  shows "map_sum id (map parse) (unsmartpak (trivialSmartpak (smartpak_all True (map asSubPacket xs)) tcpseq) True True) =
    Inr (map Some xs)"
proof -
  have "fast_loop 0 (smartpak_all True (map asSubPacket xs)) = Inr (map asSubPacket xs)"
    using fast_loop_smartpak_all [OF print_ticks_ok [OF assms, of None], of 0] by simp
  then have "unsmartpak (trivialSmartpak (smartpak_all True (map asSubPacket xs)) tcpseq) True True =
      Inr (map asSubPacket xs)"
    by (simp add: unsmartpak_def trivialSmartpak_def)
  moreover have "map (parse \<circ> asSubPacket) xs = map Some xs"
    using assms by (induction xs) (auto simp: parse_print)
  ultimately show ?thesis by simp
qed

end

text \<open>What the contract asks of a class whose packets have a fixed code and a fixed size in the table.\<close>

lemma well_sized_fixed:
  assumes "length s = n" and "0 < n" and "s ! 0 = c" and "c \<notin> {0, 0xfd, 0xfe, 0xff, 0x05}"
    and "getExpectedSubPacketSize s = Some n"
  shows "well_sized s"
  using assms by (auto simp: well_sized_def)

lemmas size_table = getExpectedSubPacketSize_def subPacketCode_def Let_def
lemmas field_simps_le = serialise32_append serialise16_append toUint32_load32 toUint16_load16
  load32_less load16_less le32_def le16_def

lemma TPing_parse_print: "TPing_parse (TPing_asSubPacket p) = Some p"
  by (simp add: TPing_parse_def TPing_asSubPacket_def field_simps_le)

interpretation ping: sub_packet_codec TPing_parse TPing_asSubPacket "\<lambda>_. True"
  by unfold_locales
     (simp_all add: TPing_parse_print, simp_all add: TPing_asSubPacket_def serialise32_append well_sized_def size_table)

lemma TAlliance_parse_print: "TAlliance_parse (TAlliance_asSubPacket p) = Some p"
  by (simp add: TAlliance_parse_def TAlliance_asSubPacket_def field_simps_le)

interpretation alliance: sub_packet_codec TAlliance_parse TAlliance_asSubPacket "\<lambda>_. True"
  by unfold_locales
     (simp_all add: TAlliance_parse_print,
      simp_all add: TAlliance_asSubPacket_def serialise32_append well_sized_def size_table)

lemma TIdent3_parse_print: "TIdent3_parse (TIdent3_asSubPacket p) = Some p"
  by (simp add: TIdent3_parse_def TIdent3_asSubPacket_def field_simps_le)

interpretation ident3: sub_packet_codec TIdent3_parse TIdent3_asSubPacket "\<lambda>_. True"
  by unfold_locales
     (simp_all add: TIdent3_parse_print,
      simp_all add: TIdent3_asSubPacket_def serialise32_append well_sized_def size_table)

definition TUnitData_valid :: "TUnitData \<Rightarrow> bool" where
  "TUnitData_valid ud = (pktid ud = UNIT_DATA_1A)"

lemma TUnitData_asSubPacket_bytes:
  "TUnitData_asSubPacket ud = [code_byte (pktid ud), sub ud] @ le32 (unit_fill ud) @ le32 (unit_id ud) @ le32 (crc ud)"
  by (simp add: TUnitData_asSubPacket_def serialise32_append serialise16_append Let_def statusAndLimit_le32 [symmetric])

lemma union_mk16: "union_of_halves (mk16 a b) (mk16 c d) = mk32 a b c d"
  unfolding union_of_halves_def mk16_def mk32_def
  by (rule bit_word_eqI) (auto simp: bit_simps)

lemma TUnitData_parse_print:
  "pktid ud = UNIT_DATA_1A \<Longrightarrow> TUnitData_parse (TUnitData_asSubPacket ud) = Some ud"
  by (simp add: TUnitData_parse_def TUnitData_asSubPacket_bytes subPacketCode_def toUint32_load32 toUint16_load16
      load32_less load16_less le32_def union_mk16)

interpretation unit_data: sub_packet_codec TUnitData_parse TUnitData_asSubPacket TUnitData_valid
  by unfold_locales
     (simp_all add: TUnitData_parse_print TUnitData_valid_def,
      simp_all add: TUnitData_asSubPacket_bytes well_sized_def size_table)

definition TIdent2_valid :: "TIdent2 \<Rightarrow> bool" where
  "TIdent2_valid t = (length (dpids t) = 10)"

lemma foldl_serialise32: "foldl serialise32 acc xs = acc @ concat (map le32 xs)"
  by (induction xs arbitrary: acc) (simp_all add: serialise32_append)

lemma dpids_loop_concat:
  "length pre = i \<Longrightarrow> dpids_loop (pre @ concat (map le32 ds)) i (length ds) = Some ds"
proof (induction ds arbitrary: pre i)
  case (Cons d ds)
  have "toUint32 (pre @ concat (map le32 (d # ds))) i = Some d"
    using load32_at [OF Cons.prems] by (simp add: toUint32_load32)
  moreover have "dpids_loop (pre @ concat (map le32 (d # ds))) (i + 4) (length ds) = Some ds"
    using Cons.IH [of "pre @ le32 d" "i + 4"] Cons.prems by simp
  ultimately show ?case by simp
qed simp

lemma TIdent2_parse_print: "TIdent2_valid t \<Longrightarrow> TIdent2_parse (TIdent2_asSubPacket t) = Some t"
  using dpids_loop_concat [of "[0x26]" 1 "dpids t"]
  by (simp add: TIdent2_valid_def TIdent2_parse_def TIdent2_asSubPacket_def foldl_serialise32 del: dpids_loop.simps)

lemma length_concat_le32: "length (concat (map le32 ds)) = 4 * length ds"
  by (induction ds) auto

interpretation ident2: sub_packet_codec TIdent2_parse TIdent2_asSubPacket TIdent2_valid
  by unfold_locales
     (simp_all add: TIdent2_parse_print,
      simp_all add: TIdent2_asSubPacket_def TIdent2_valid_def foldl_serialise32 length_concat_le32 well_sized_def size_table)

section \<open>TPlayerInfo\<close>

text \<open>The sizes of the arrays in a \<open>TPlayerInfo\<close>, and the size of a full packet.\<close>

definition TPlayerInfo_valid :: "TPlayerInfo \<Rightarrow> bool" where
  "TPlayerInfo_valid p = (serialisedSize p = 192 \<and> length (fill1 p) = 139 \<and> length (data2 p) = 7 \<and>
     length (fill2 p) = 9 \<and> length (data3 p) = 17)"

definition TPlayerInfo_bytes :: "TPlayerInfo \<Rightarrow> bytestring" where
  "TPlayerInfo_bytes p = [0x20] @ fill1 p @ le16 (width p) @ le16 (height p) @ [fill3 p] @ le32 (player1Id p) @
      data2 p @ [clicked p] @ fill2 p @ le16 (maxUnits p) @ [versionMajor p, versionMinor p] @ data3 p @
      le32 (player2Id p) @ [data4 p]"

lemma TPlayerInfo_asSubPacket_bytes: "TPlayerInfo_asSubPacket p = take (serialisedSize p) (TPlayerInfo_bytes p)"
  by (simp add: TPlayerInfo_asSubPacket_def TPlayerInfo_bytes_def Let_def serialise32_append serialise16_append del: take_append)

lemma TPlayerInfo_asSubPacket_valid:
  assumes "TPlayerInfo_valid p"
  shows "TPlayerInfo_asSubPacket p = TPlayerInfo_bytes p" and "length (TPlayerInfo_bytes p) = 192"
proof -
  show len: "length (TPlayerInfo_bytes p) = 192"
    using assms by (simp add: TPlayerInfo_bytes_def TPlayerInfo_valid_def)
  show "TPlayerInfo_asSubPacket p = TPlayerInfo_bytes p"
    using assms len by (simp add: TPlayerInfo_asSubPacket_bytes TPlayerInfo_valid_def)
qed

lemma TPlayerInfo_parse_print:
  assumes "TPlayerInfo_valid p"
  shows "TPlayerInfo_parse garbage (TPlayerInfo_asSubPacket p) = Some p"
proof -
  let ?s = "TPlayerInfo_bytes p"
  note len = TPlayerInfo_asSubPacket_valid [OF assms]
  note sizes = assms [unfolded TPlayerInfo_valid_def]
  note bytes = TPlayerInfo_bytes_def [of p]
  have "load_bytes ?s 1 139 = Some (fill1 p)" "load16 ?s 140 = Some (width p)"
    "load16 ?s 142 = Some (height p)" "?s ! 144 = fill3 p" "load32 ?s 145 = Some (player1Id p)"
    "load_bytes ?s 149 7 = Some (data2 p)" "?s ! 156 = clicked p" "load_bytes ?s 157 9 = Some (fill2 p)"
    "load16 ?s 166 = Some (maxUnits p)" "?s ! 168 = versionMajor p" "?s ! 169 = versionMinor p"
    "load_bytes ?s 170 17 = Some (data3 p)" "load32 ?s 187 = Some (player2Id p)" "?s ! 191 = data4 p"
    using sizes
    by (simp_all add: load32_less load16_less load_bytes_def len bytes nth_append nth_Cons' le32_def le16_def)
  then show ?thesis
    using sizes len by (simp add: TPlayerInfo_parse_def toUint32_load32 toUint16_load16)
qed

interpretation player_info: sub_packet_codec "TPlayerInfo_parse garbage" TPlayerInfo_asSubPacket TPlayerInfo_valid
  for garbage
proof unfold_locales
  fix p assume "TPlayerInfo_valid p"
  note len = TPlayerInfo_asSubPacket_valid [OF this]
  show "TPlayerInfo_parse garbage (TPlayerInfo_asSubPacket p) = Some p"
    by (rule TPlayerInfo_parse_print) fact
  have 0: "TPlayerInfo_bytes p \<noteq> []" "TPlayerInfo_bytes p ! 0 = 0x20"
    by (simp_all add: TPlayerInfo_bytes_def)
  then show "well_sized (TPlayerInfo_asSubPacket p)" "TPlayerInfo_asSubPacket p ! 0 \<noteq> 0x2c"
    by (simp_all add: len well_sized_def size_table)
qed

text \<open>The fields of a parsed packet, and that a long enough packet is parsed.\<close>

lemma TPlayerInfo_parse_fields:
  assumes "TPlayerInfo_parse garbage s = Some p"
  shows "serialisedSize p = length s" "load_bytes s 1 139 = Some (fill1 p)" "load16 s 140 = Some (width p)"
    "load16 s 142 = Some (height p)" "byte_at s 144 = Some (fill3 p)" "load32 s 145 = Some (player1Id p)"
    "load_bytes s 149 7 = Some (data2 p)" "byte_at s 156 = Some (clicked p)" "load_bytes s 157 9 = Some (fill2 p)"
    "load16 s 166 = Some (maxUnits p)" "byte_at s 168 = Some (versionMajor p)" "byte_at s 169 = Some (versionMinor p)"
    "length s = 192 \<Longrightarrow> load_bytes s 170 17 = Some (data3 p) \<and> load32 s 187 = Some (player2Id p) \<and>
      byte_at s 191 = Some (data4 p)"
    "length s \<noteq> 192 \<Longrightarrow> \<exists>d. load_bytes s 170 16 = Some d \<and> data3 p = d @ [garbage]"
  using assms
  by (auto simp: TPlayerInfo_parse_def toUint32_load32 toUint16_load16 bind_eq_Some_conv split: if_splits)

lemma TPlayerInfo_parse_defined: "186 \<le> length s \<Longrightarrow> \<exists>p. TPlayerInfo_parse garbage s = Some p"
  by (auto simp: TPlayerInfo_parse_def toUint32_load32 toUint16_load16 load_bytes_def load16_less load32_less)

lemma TPlayerInfo_print_take186:
  assumes p: "TPlayerInfo_parse garbage s = Some p" and "186 \<le> length s" and "s ! 0 = 0x20"
  shows "[0x20] @ fill1 p @ le16 (width p) @ le16 (height p) @ [fill3 p] @ le32 (player1Id p) @
      data2 p @ [clicked p] @ fill2 p @ le16 (maxUnits p) @ [versionMajor p, versionMinor p] = take 170 s"
proof -
  note f = TPlayerInfo_parse_fields [OF p]
  have "[0x20] = take 1 s"
    using assms by (cases s) auto
  then have "(([0x20] @ fill1 p) @ le16 (width p)) @ le16 (height p) = take 144 s"
    using assms(2) f glue_bytes [OF f(2)] glue16 [OF f(3)] glue16 [OF f(4)] by simp
  then have "((([0x20] @ fill1 p @ le16 (width p) @ le16 (height p)) @ [fill3 p]) @ le32 (player1Id p)) @ data2 p = take 156 s"
    using assms(2) f glue8 [OF f(5)] glue32 [OF f(6)] glue_bytes [OF f(7)] by simp
  then have "((([0x20] @ fill1 p @ le16 (width p) @ le16 (height p) @ [fill3 p] @ le32 (player1Id p) @ data2 p)
      @ [clicked p]) @ fill2 p) @ le16 (maxUnits p) = take 168 s"
    using assms(2) f glue8 [OF f(8)] glue_bytes [OF f(9)] glue16 [OF f(10)] by simp
  then have "(([0x20] @ fill1 p @ le16 (width p) @ le16 (height p) @ [fill3 p] @ le32 (player1Id p) @ data2 p
      @ [clicked p] @ fill2 p @ le16 (maxUnits p)) @ [versionMajor p]) @ [versionMinor p] = take 170 s"
    using assms(2) f glue8 [OF f(11)] glue8 [OF f(12)] by simp
  then show ?thesis by simp
qed

text \<open>
  Re-serialising a received player-info sub-packet reproduces it byte for byte, both for
  the full size of 192 bytes and for the short packets of 186 bytes, whatever the uninitialised byte of a
  short packet holds.
\<close>

theorem TPlayerInfo_print_parse:
  assumes "length s = 192 \<or> length s = 186" and "s ! 0 = 0x20"
  shows "\<exists>p. TPlayerInfo_parse garbage s = Some p \<and> TPlayerInfo_asSubPacket p = s"
proof -
  have len: "186 \<le> length s" using assms(1) by auto
  then obtain p where p: "TPlayerInfo_parse garbage s = Some p"
    using TPlayerInfo_parse_defined by blast
  note f = TPlayerInfo_parse_fields [OF p]
  have bytes: "TPlayerInfo_bytes p = take 170 s @ data3 p @ le32 (player2Id p) @ [data4 p]"
    using TPlayerInfo_print_take186 [OF p len assms(2)] by (simp add: TPlayerInfo_bytes_def)
  have "take (length s) (TPlayerInfo_bytes p) = s"
  proof (cases "length s = 192")
    case True
    have "((take 170 s @ data3 p) @ le32 (player2Id p)) @ [data4 p] = s"
      using f(13) [OF True] True glue_bytes [of s 170 17] glue32 [of s 187] glue8 [of s 191] by simp
    then show ?thesis by (simp add: bytes del: take_append)
  next
    case False
    then have 186: "length s = 186" using assms(1) by blast
    obtain d where d: "load_bytes s 170 16 = Some d" "data3 p = d @ [garbage]"
      using f(14) [OF False] by blast
    have "take 170 s @ d = s"
      using glue_bytes [OF d(1)] 186 by simp
    then have "TPlayerInfo_bytes p = s @ [garbage] @ le32 (player2Id p) @ [data4 p]"
      by (simp add: bytes d(2))
    then show ?thesis by simp
  qed
  then show ?thesis
    using p f(1) by (auto simp: TPlayerInfo_asSubPacket_bytes)
qed

theorem TPlayerInfo_print_parse_witness:
  "\<exists>p. TPlayerInfo_parse 0x5a (0x20 # replicate 185 7) = Some p \<and>
     TPlayerInfo_asSubPacket p = 0x20 # replicate 185 7"
  by (rule TPlayerInfo_print_parse) simp_all

text \<open>
  Every packet class is decoded to exactly what was encoded, also after travelling in a stream: player
  infos (with the arrays at their declared sizes) that are printed, packed and framed are unpacked
  and parsed to the same player infos, in the same order, and so are pings, alliances, identities and
  unit data.
\<close>

theorem packet_classes_round_trip:
  "(list_all TPlayerInfo_valid infos \<longrightarrow> map_sum id (map (TPlayerInfo_parse garbage)) 
      (unsmartpak (trivialSmartpak (smartpak_all True (map TPlayerInfo_asSubPacket infos)) tcpseq) True True) = Inr (map Some infos)) \<and>
   (map_sum id (map TPing_parse) 
      (unsmartpak (trivialSmartpak (smartpak_all True (map TPing_asSubPacket pings)) tcpseq) True True) = Inr (map Some pings)) \<and>
   (map_sum id (map TAlliance_parse) 
      (unsmartpak (trivialSmartpak (smartpak_all True (map TAlliance_asSubPacket alliances)) tcpseq) True True) = Inr (map Some alliances)) \<and>
   (map_sum id (map TIdent3_parse) 
      (unsmartpak (trivialSmartpak (smartpak_all True (map TIdent3_asSubPacket idents)) tcpseq) True True) = Inr (map Some idents)) \<and>
   (list_all TIdent2_valid rosters \<longrightarrow> map_sum id (map TIdent2_parse) 
      (unsmartpak (trivialSmartpak (smartpak_all True (map TIdent2_asSubPacket rosters)) tcpseq) True True) = Inr (map Some rosters)) \<and>
   (list_all TUnitData_valid units \<longrightarrow> map_sum id (map TUnitData_parse) 
      (unsmartpak (trivialSmartpak (smartpak_all True (map TUnitData_asSubPacket units)) tcpseq) True True) = Inr (map Some units))"
  by (intro conjI impI player_info.stream_round_trip ping.stream_round_trip alliance.stream_round_trip
      ident3.stream_round_trip ident2.stream_round_trip unit_data.stream_round_trip) (simp_all add: list_all_iff)

theorem packet_classes_round_trip_witness:
  "map_sum id (map TIdent2_parse) (unsmartpak (trivialSmartpak (smartpak_all True
     (map TIdent2_asSubPacket [TIdent2_default])) 5) True True) = Inr [Some TIdent2_default]"
  using packet_classes_round_trip [of "[]" 0 5 "[]" "[]" "[]" "[TIdent2_default]" "[]"]
  by (simp add: TIdent2_valid_def TIdent2_default_def)

lemma flag_iff_bit:
  "(b AND 0x20 \<noteq> 0) = bit (b :: byte) 5" "(b AND 0x40 \<noteq> 0) = bit (b :: byte) 6"
  using and_exp_eq_0_iff_not_bit [of b 5] and_exp_eq_0_iff_not_bit [of b 6] by simp_all

lemma bit_flags [simp]:
  "bit (0x20 :: byte) n \<longleftrightarrow> n = 5" "bit (0x80 :: byte) n \<longleftrightarrow> n = 7"
  using bit_exp_iff [where ?'a = byte, of 5 n] bit_exp_iff [where ?'a = byte, of 7 n] by auto

text \<open>
  The setters a relay applies to a player info change only what they name: the array sizes survive, so the
  result is still printed and parsed faithfully; the watcher, clicked-in and permanent-LOS flags
  are not disturbed by \<open>setAllowWatch\<close>; \<open>setCheat\<close> sets exactly the flag that \<open>isCheatsEnabled\<close> reads.
\<close>

theorem TPlayerInfo_setters:
  assumes "TPlayerInfo_valid p"
  shows "TPlayerInfo_valid (setDpId d p) \<and> TPlayerInfo_valid (setInternalVersion v p) \<and>
    TPlayerInfo_valid (setAllowWatch w p) \<and> TPlayerInfo_valid (setCheat c p) \<and> TPlayerInfo_valid (setPermLos l p) \<and>
    isWatcher (setAllowWatch w p) = isWatcher p \<and> isClickedIn (setAllowWatch w p) = isClickedIn p \<and>
    bit (clicked (setAllowWatch w p)) 7 = w \<and> isCheatsEnabled (setCheat c p) = c \<and>
    getPermLosByte (setPermLos l p) = 0x08 \<and> getMapHash (setInternalVersion v p) = getMapHash p"
proof (intro conjI)
  note sizes = assms [unfolded TPlayerInfo_valid_def]
  show "TPlayerInfo_valid (setDpId d p)" "TPlayerInfo_valid (setInternalVersion v p)"
    "TPlayerInfo_valid (setAllowWatch w p)" "TPlayerInfo_valid (setCheat c p)" "TPlayerInfo_valid (setPermLos l p)"
    using sizes by (simp_all add: TPlayerInfo_valid_def setDpId_def setInternalVersion_def setAllowWatch_def
        setCheat_def setPermLos_def)
  show "isWatcher (setAllowWatch w p) = isWatcher p" "isClickedIn (setAllowWatch w p) = isClickedIn p"
    "bit (clicked (setAllowWatch w p)) 7 = w"
    by (simp_all add: isWatcher_def isClickedIn_def setAllowWatch_def flag_iff_bit bit_or_iff bit_and_iff bit_not_iff)
  show "isCheatsEnabled (setCheat c p) = c" "getPermLosByte (setPermLos l p) = 0x08"
    "getMapHash (setInternalVersion v p) = getMapHash p"
    using sizes by (simp_all add: isCheatsEnabled_def setCheat_def setPermLos_def getPermLosByte_def getMapHash_def
        setInternalVersion_def flag_iff_bit bit_or_iff bit_and_iff bit_not_iff)
qed

definition example_info :: TPlayerInfo where
  "example_info = \<lparr>serialisedSize = 192, fill1 = replicate 139 0, width = 0, height = 0, fill3 = 0,
    player1Id = 1, data2 = replicate 7 0, clicked = 0, fill2 = replicate 9 0, maxUnits = 500, versionMajor = 3,
    versionMinor = 1, data3 = replicate 17 0, player2Id = 1, data4 = 0\<rparr>"

lemma example_info_valid: "TPlayerInfo_valid example_info"
  by (simp add: TPlayerInfo_valid_def example_info_def)

theorem TPlayerInfo_setters_witness:
  "TPlayerInfo_valid (setAllowWatch True example_info) \<and> isCheatsEnabled (setCheat True example_info)"
  using TPlayerInfo_setters [OF example_info_valid, of 0 0 True True True] by simp

section \<open>The two classes outside the contract\<close>

text \<open>
  \<open>TTeam::asSubPacket\<close> prints the code of an alliance (23) instead of the code of a team (24). Its six
  bytes can be read back as a team, but a stream splitter takes them for a truncated 14-byte alliance: it reports
  an error, and eats the following bytes.
\<close>

theorem TTeam_printed_as_alliance:
  "TTeam_parse (TTeam_asSubPacket t) = Some t \<and>
   getExpectedSubPacketSize (TTeam_asSubPacket t) = Some 14 \<and>
   split2 (TTeam_asSubPacket t) True = Some (TTeam_asSubPacket t, [], True) \<and>
   (\<forall>rest. length rest = 8 \<longrightarrow>
      split2 (TTeam_asSubPacket t @ rest) True = Some (TTeam_asSubPacket t @ rest, [], False))"
proof (intro conjI allI impI)
  show "TTeam_parse (TTeam_asSubPacket t) = Some t"
    by (simp add: TTeam_parse_def TTeam_asSubPacket_def field_simps_le)
  show "getExpectedSubPacketSize (TTeam_asSubPacket t) = Some 14"
    "split2 (TTeam_asSubPacket t) True = Some (TTeam_asSubPacket t, [], True)"
    by (simp_all add: TTeam_asSubPacket_def serialise32_append split2_def size_table)
  fix rest :: bytestring assume "length rest = 8"
  then show "split2 (TTeam_asSubPacket t @ rest) True = Some (TTeam_asSubPacket t @ rest, [], False)"
    by (simp add: TTeam_asSubPacket_def serialise32_append split2_def size_table)
qed

theorem TTeam_printed_as_alliance_witness:
  "split2 (TTeam_asSubPacket TTeam_default @ [1, 2, 3, 4, 5, 6, 7, 8]) True =
     Some (TTeam_asSubPacket TTeam_default @ [1, 2, 3, 4, 5, 6, 7, 8], [], False)"
  using TTeam_printed_as_alliance [of TTeam_default] by simp

text \<open>
  A printed progress report is one byte longer than the size table says. In a stream it is unpacked as
  the two-byte report and, because its last byte is always 6, a one-byte padding packet;
  what follows is unpacked undisturbed, and the percentage is the one that was sent.
\<close>

theorem TProgress_in_stream:
  "unsmartpak (trivialSmartpak (TProgress_asSubPacket (TProgress_make p)) tcpseq) True True =
     Inr [[0x2a, p], [0x06]] \<and>
   (\<exists>t. TProgress_parse [0x2a, p] = Some t \<and> percent t = p) \<and>
   fast_loop k (TProgress_asSubPacket (TProgress_make p) @ rest) =
     map_sum id (\<lambda>ss. [0x2a, p] # [0x06] # ss) (fast_loop k rest)"
proof -
  have "well_sized [0x2a, p]" "well_sized [0x06 :: byte]"
    by (simp_all add: well_sized_def size_table)
  note loop = fast_loop_other [OF this(1)] fast_loop_other [OF this(2)]
  have "TProgress_asSubPacket (TProgress_make p) = [0x2a, p] @ [0x06]"
    by (simp add: TProgress_asSubPacket_def TProgress_make_def)
  then have stream: "fast_loop j (TProgress_asSubPacket (TProgress_make p) @ xs) =
      map_sum id (\<lambda>ss. [0x2a, p] # [0x06] # ss) (fast_loop j xs)" for j xs
    using loop(1) [of j "[0x06] @ xs"] loop(2) [of j xs] by (simp add: sum.map_comp o_def id_def)
  have "\<exists>t. TProgress_parse [0x2a, p] = Some t \<and> percent t = p"
    by (simp add: TProgress_parse_def byte_at_def)
  moreover have "unsmartpak (trivialSmartpak (TProgress_asSubPacket (TProgress_make p)) tcpseq) True True =
     Inr [[0x2a, p], [0x06]]"
    using stream [of 0 "[]"] by (simp add: unsmartpak_def trivialSmartpak_def fast_loop.simps [of 0 "[]"])
  ultimately show ?thesis using stream by simp
qed

end
