(* ===== verification/Std_Map.thy ===== *)
theory Std_Map
  imports Prelude
begin

text \<open>
  \<open>std::map\<close> and \<open>std::set\<close> as the sources use them: an association list in increasing order of the keys,
  so that a loop over the container visits the entries in the order the code visits them. Look-up is
  \<open>map_of\<close>; \<open>std_put\<close> is \<open>m[k] = v\<close>, \<open>std_erase\<close> is \<open>m.erase(k)\<close>. The contract that the components
  rely on is the locale \<open>map_interface\<close>, interpreted on these operations.
\<close>

type_synonym ('k, 'v) std_map = "('k \<times> 'v) list"

fun std_put :: "'k :: linorder \<Rightarrow> 'v \<Rightarrow> ('k, 'v) std_map \<Rightarrow> ('k, 'v) std_map" where
  "std_put k v [] = [(k, v)]"
| "std_put k v ((k', v') # m) =
     (if k < k' then (k, v) # (k', v') # m
      else if k = k' then (k, v) # m
      else (k', v') # std_put k v m)"

definition std_erase :: "'k \<Rightarrow> ('k, 'v) std_map \<Rightarrow> ('k, 'v) std_map" where
  "std_erase k m = filter (\<lambda>p. fst p \<noteq> k) m"

definition std_ok :: "('k :: linorder, 'v) std_map \<Rightarrow> bool" where
  "std_ok m = sorted_wrt (<) (map fst m)"

text \<open>\<open>operator[]\<close> on the right-hand side creates a missing entry with the default value.\<close>

definition std_index :: "'v \<Rightarrow> 'k :: linorder \<Rightarrow> ('k, 'v) std_map \<Rightarrow> 'v \<times> ('k, 'v) std_map" where
  "std_index d k m = (case map_of m k of Some v \<Rightarrow> (v, m) | None \<Rightarrow> (d, std_put k d m))"

section \<open>The contract\<close>

locale map_interface =
  fixes lookup :: "'m \<Rightarrow> 'k \<Rightarrow> 'v option"
    and put :: "'k \<Rightarrow> 'v \<Rightarrow> 'm \<Rightarrow> 'm"
    and erase :: "'k \<Rightarrow> 'm \<Rightarrow> 'm"
    and ok :: "'m \<Rightarrow> bool"
  assumes lookup_put: "lookup (put k v m) = (lookup m)(k \<mapsto> v)"
    and lookup_erase: "ok m \<Longrightarrow> lookup (erase k m) = (lookup m)(k := None)"
    and ok_put: "ok m \<Longrightarrow> ok (put k v m)"
    and ok_erase: "ok m \<Longrightarrow> ok (erase k m)"
begin

text \<open>A property of all entries survives every update that respects it.\<close>

definition all_entries :: "('k \<Rightarrow> 'v \<Rightarrow> bool) \<Rightarrow> 'm \<Rightarrow> bool" where
  "all_entries P m = (\<forall>k v. lookup m k = Some v \<longrightarrow> P k v)"

lemma all_entries_put: "all_entries P m \<Longrightarrow> P k v \<Longrightarrow> all_entries P (put k v m)"
  by (auto simp: all_entries_def lookup_put)

lemma all_entries_erase: "ok m \<Longrightarrow> all_entries P m \<Longrightarrow> all_entries P (erase k m)"
  by (auto simp: all_entries_def lookup_erase)

lemma all_entries_lookup: "all_entries P m \<Longrightarrow> lookup m k = Some v \<Longrightarrow> P k v"
  by (auto simp: all_entries_def)

lemma put_put: "lookup (put k v (put k w m)) = lookup (put k v m)"
  by (auto simp: lookup_put)

lemma put_commute: "k \<noteq> l \<Longrightarrow> lookup (put k v (put l w m)) = lookup (put l w (put k v m))"
  by (simp add: lookup_put fun_upd_twist)

end

section \<open>The ordered association list meets it\<close>

lemma map_of_put [simp]: "map_of (std_put k v m) = (map_of m)(k \<mapsto> v)"
  by (induction k v m rule: std_put.induct) auto

lemma set_keys_put [simp]: "fst ` set (std_put k v m) = insert k (fst ` set m)"
  by (induction k v m rule: std_put.induct) auto

lemma std_ok_Nil [simp]: "std_ok []"
  by (simp add: std_ok_def)

lemma std_ok_Cons [simp]: "std_ok ((k, v) # m) \<longleftrightarrow> (\<forall>k' \<in> fst ` set m. k < k') \<and> std_ok m"
  by (auto simp: std_ok_def)

lemma std_ok_put [simp]: "std_ok m \<Longrightarrow> std_ok (std_put k v m)"
  by (induction k v m rule: std_put.induct) force+

lemma std_ok_erase [simp]: "std_ok m \<Longrightarrow> std_ok (std_erase k m)"
  unfolding std_erase_def by (induction m) auto

lemma std_ok_distinct: "std_ok m \<Longrightarrow> distinct (map fst m)"
  by (simp add: std_ok_def strict_sorted_iff)

lemma map_of_erase [simp]: "map_of (std_erase k m) = (map_of m)(k := None)"
  unfolding std_erase_def by (induction m) (auto simp: fun_upd_twist)

lemma in_set_map_of: "std_ok m \<Longrightarrow> (k, v) \<in> set m \<longleftrightarrow> map_of m k = Some v"
  by (simp add: std_ok_distinct)

interpretation std: map_interface map_of std_put std_erase std_ok
  by unfold_locales auto

end
