(* ===== verification/Unit_Data_Repo.thy ===== *)
theory Unit_Data_Repo
  imports Packet_Records Std_Map "HOL-Library.Product_Lexorder"
begin

text \<open>
  The repository of unit definitions (\<open>libs/tapacket/UnitDataRepo.cpp\<close>): the latest unit-data
  sub-packets, keyed by their \<open>sub\<close> byte and unit id. \<open>None\<close> is a read outside a packet.

  Proved here: the repository only ever holds complete, correctly keyed packets, so no operation reads
  outside one; a unit that was announced as in use stays so until the repository is cleared; and what \<open>hash\<close>
  feeds to its callback.
\<close>

type_synonym SubAndId = "byte \<times> u32"
type_synonym UnitDataRepo = "(SubAndId, bytestring) std_map"

definition repo_clear :: "UnitDataRepo \<Rightarrow> UnitDataRepo" where
  "repo_clear m = []"

text \<open>The private \<open>add\<close>, for a packet \<open>pd\<close> already decoded as \<open>ud\<close>.\<close>

definition repo_add_unit :: "bytestring \<Rightarrow> TUnitData \<Rightarrow> UnitDataRepo \<Rightarrow> UnitDataRepo option" where
  "repo_add_unit pd ud m =
     (if sub ud = 2 \<or> sub ud = 3 \<or> sub ud = 9
      then case (if sub ud = 3 then map_of m (sub ud, unit_id ud) else None) of
             Some bs \<Rightarrow> do {
               oldUd \<leftarrow> TUnitData_parse bs;
               Some (if statusAndLimit0 oldUd \<noteq> 0x0101 then std_put (sub ud, unit_id ud) pd m else m) }
           | None \<Rightarrow> Some (std_put (sub ud, unit_id ud) pd m)
      else if sub ud = 0 then Some (repo_clear m)
      else Some m)"

definition repo_add :: "bytestring \<Rightarrow> UnitDataRepo \<Rightarrow> UnitDataRepo option" where
  "repo_add packetData m =
     (if packetData = [] \<or> packetData ! 0 \<noteq> code_byte UNIT_DATA_1A then Some m
      else do {
        n \<leftarrow> getExpectedSubPacketSize packetData;
        if length packetData \<noteq> n then Some m
        else do {
          ud \<leftarrow> TUnitData_parse packetData;
          repo_add_unit packetData ud m } })"

text \<open>The values \<open>hash\<close> passes to its callback, in order.\<close>

definition SY_UNIT_ID :: u32 where
  "SY_UNIT_ID = 0x92549357"

definition hash_entry :: "UnitDataRepo \<Rightarrow> bytestring \<Rightarrow> u32 list option" where
  "hash_entry m bs = do {
     ud \<leftarrow> TUnitData_parse bs;
     case map_of m (0x02, unit_id ud) of
       None \<Rightarrow> Some []
     | Some bs02 \<Rightarrow>
         if sub ud = 0x03 \<and> statusAndLimit0 ud = 0x0101 \<and> unit_id ud \<noteq> SY_UNIT_ID
         then do { ud02 \<leftarrow> TUnitData_parse bs02; Some [unit_id ud02 + crc ud02] }
         else Some [] }"

fun hash_loop :: "UnitDataRepo \<Rightarrow> UnitDataRepo \<Rightarrow> u32 list option" where
  "hash_loop m [] = Some []"
| "hash_loop m ((k, bs) # rest) = do {
     xs \<leftarrow> hash_entry m bs;
     ys \<leftarrow> hash_loop m rest;
     Some (xs @ ys) }"

definition repo_hash :: "UnitDataRepo \<Rightarrow> u32 list option" where
  "repo_hash m = hash_loop m m"

text \<open>A sequence of packets added to a fresh repository.\<close>

fun repo_run :: "UnitDataRepo \<Rightarrow> bytestring list \<Rightarrow> UnitDataRepo option" where
  "repo_run m [] = Some m"
| "repo_run m (pd # pds) = do { m' \<leftarrow> repo_add pd m; repo_run m' pds }"

section \<open>The invariant\<close>

definition entry_ok :: "SubAndId \<Rightarrow> bytestring \<Rightarrow> bool" where
  "entry_ok k bs = (length bs = 14 \<and> fst k \<in> {2, 3, 9} \<and>
     (case TUnitData_parse bs of None \<Rightarrow> False | Some ud \<Rightarrow> pktid ud = UNIT_DATA_1A \<and> (sub ud, unit_id ud) = k))"

definition repo_ok :: "UnitDataRepo \<Rightarrow> bool" where
  "repo_ok m = (std_ok m \<and> std.all_entries entry_ok m)"

lemma TUnitData_parse_defined: "14 \<le> length s \<Longrightarrow> \<exists>ud. TUnitData_parse s = Some ud \<and> pktid ud = subPacketCode (s ! 0)"
proof -
  assume len: "14 \<le> length s"
  then have "byte_at s 0 = Some (s ! 0)" by (intro byte_at_less) linarith
  then show ?thesis
    using len by (simp add: TUnitData_parse_def toUint32_load32 toUint16_load16 load32_less load16_less)
qed

lemma entry_parse: "repo_ok m \<Longrightarrow> map_of m k = Some bs \<Longrightarrow> \<exists>ud. TUnitData_parse bs = Some ud \<and> (sub ud, unit_id ud) = k"
  by (auto simp: repo_ok_def entry_ok_def dest!: std.all_entries_lookup split: option.splits)

lemma repo_ok_Nil [simp]: "repo_ok []"
  by (simp add: repo_ok_def std.all_entries_def)

lemma repo_ok_put: "repo_ok m \<Longrightarrow> entry_ok k bs \<Longrightarrow> repo_ok (std_put k bs m)"
  by (simp add: repo_ok_def std.all_entries_put)

lemma size_1A: "s \<noteq> [] \<Longrightarrow> s ! 0 = 0x1a \<Longrightarrow> getExpectedSubPacketSize s = Some 14"
  by (simp add: getExpectedSubPacketSize_def subPacketCode_def Let_def)

lemma repo_add_step:
  assumes "repo_ok m"
  shows "\<exists>m'. repo_add pd m = Some m' \<and> repo_ok m'"
proof (cases "pd = [] \<or> pd ! 0 \<noteq> 0x1a \<or> length pd \<noteq> 14")
  case True
  then show ?thesis using assms by (auto simp: repo_add_def size_1A)
next
  case False
  then obtain ud where ud: "TUnitData_parse pd = Some ud" "pktid ud = UNIT_DATA_1A"
    using TUnitData_parse_defined [of pd] by (auto simp: subPacketCode_def)
  then have add: "repo_add pd m = repo_add_unit pd ud m"
    using False by (simp add: repo_add_def size_1A)
  have entry: "entry_ok (sub ud, unit_id ud) pd" if "sub ud = 2 \<or> sub ud = 3 \<or> sub ud = 9"
    using that ud False by (auto simp: entry_ok_def)
  show ?thesis
    unfolding add repo_add_unit_def
    using assms entry repo_ok_put entry_parse [OF assms, of "(3, unit_id ud)"]
    by (auto simp: repo_clear_def split: option.splits)
qed

text \<open>
  C40. Whatever packets are added, in whatever order, no operation of the repository reads outside a packet, and
  the repository holds only complete 14-byte unit-data packets, filed under their own sub code and
  unit id, in key order; hashing it is then defined too.
\<close>

theorem repo_run_safe:
  "\<exists>m. repo_run [] pds = Some m \<and> repo_ok m \<and> repo_hash m \<noteq> None"
proof -
  have run: "\<exists>m'. repo_run m pds = Some m' \<and> repo_ok m'" if "repo_ok m" for m
    using that
  proof (induction pds arbitrary: m)
    case (Cons pd pds)
    then show ?case using repo_add_step [OF Cons.prems, of pd] by auto
  qed simp
  have entry: "hash_entry m bs \<noteq> None" if "repo_ok m" "map_of m k = Some bs" for m k bs
    using entry_parse [OF that] entry_parse [OF that(1)] by (fastforce simp: hash_entry_def split: option.splits)
  have loop: "hash_loop m rest \<noteq> None" if "repo_ok m" "set rest \<subseteq> set m" for m rest
    using that
  proof (induction m rest rule: hash_loop.induct)
    case (2 m k bs rest)
    then have "map_of m k = Some bs" by (simp add: repo_ok_def in_set_map_of)
    then show ?case using 2 entry [of m k bs] by auto
  qed simp
  show ?thesis
    using run [of "[]"] loop by (auto simp: repo_hash_def)
qed

section \<open>What adding and hashing do\<close>

definition in_use :: "UnitDataRepo \<Rightarrow> u32 \<Rightarrow> bool" where
  "in_use m uid = (case map_of m (3, uid) of None \<Rightarrow> False
     | Some bs \<Rightarrow> (case TUnitData_parse bs of None \<Rightarrow> False | Some ud \<Rightarrow> statusAndLimit0 ud = 0x0101))"

text \<open>
  What adding a unit-data packet does to the repository: sub code 0 empties it; codes 2 and 9 and the first
  or a not-in-use code 3 file the packet under its key and touch nothing else; a unit already announced
  as in use keeps its entry, whatever is announced later; every other sub code is ignored.
\<close>

theorem repo_add_effect:
  assumes "repo_ok m" and "TUnitData_valid ud"
  shows "\<exists>m'. repo_add (TUnitData_asSubPacket ud) m = Some m' \<and>
    map_of m' = (if sub ud = 0 then Map.empty
                 else if sub ud = 2 \<or> sub ud = 9 \<or> sub ud = 3 \<and> \<not> in_use m (unit_id ud)
                 then (map_of m)((sub ud, unit_id ud) \<mapsto> TUnitData_asSubPacket ud)
                 else map_of m)"
proof -
  let ?pd = "TUnitData_asSubPacket ud"
  have "?pd \<noteq> []" "?pd ! 0 = 0x1a" "length ?pd = 14"
    using assms(2) by (simp_all add: TUnitData_asSubPacket_bytes TUnitData_valid_def)
  then have add: "repo_add ?pd m = repo_add_unit ?pd ud m"
    using assms(2) by (simp add: repo_add_def size_1A TUnitData_parse_print TUnitData_valid_def)
  show ?thesis
    unfolding add repo_add_unit_def
    using entry_parse [OF assms(1), of "(3, unit_id ud)"]
    by (cases "map_of m (3, unit_id ud)") (auto simp: repo_clear_def in_use_def)
qed

theorem repo_add_effect_witness:
  "\<exists>m'. repo_add (TUnitData_asSubPacket (TUnitData_make 7 20 True)) [] = Some m' \<and>
     map_of m' = [(3, 7) \<mapsto> TUnitData_asSubPacket (TUnitData_make 7 20 True)]"
  using repo_add_effect [OF repo_ok_Nil, of "TUnitData_make 7 20 True"]
  by (simp add: TUnitData_valid_def TUnitData_make_def in_use_def)

definition hashed_units :: "UnitDataRepo \<Rightarrow> u32 list" where
  "hashed_units m = filter (\<lambda>uid. in_use m uid \<and> uid \<noteq> SY_UNIT_ID \<and> map_of m (2, uid) \<noteq> None)
     (map (snd \<circ> fst) (filter (\<lambda>e. fst (fst e) = 3) m))"

definition unit_crc :: "UnitDataRepo \<Rightarrow> u32 \<Rightarrow> u32" where
  "unit_crc m uid = (case map_of m (2, uid) of None \<Rightarrow> 0
     | Some bs \<Rightarrow> (case TUnitData_parse bs of None \<Rightarrow> 0 | Some ud \<Rightarrow> crc ud))"

lemma hash_entry_eq:
  assumes "repo_ok m" and "map_of m k = Some bs"
  shows "hash_entry m bs = Some (if fst k = 3 \<and> in_use m (snd k) \<and> snd k \<noteq> SY_UNIT_ID \<and> map_of m (2, snd k) \<noteq> None
    then [snd k + unit_crc m (snd k)] else [])"
proof -
  obtain ud where ud: "TUnitData_parse bs = Some ud" "k = (sub ud, unit_id ud)"
    using entry_parse [OF assms] by blast
  show ?thesis
  proof (cases "map_of m (2, unit_id ud)")
    case None
    then show ?thesis using ud by (simp add: hash_entry_def)
  next
    case (Some bs02)
    then obtain ud02 where "TUnitData_parse bs02 = Some ud02" "unit_id ud02 = unit_id ud"
      using entry_parse [OF assms(1) Some] by auto
    then show ?thesis
      using ud Some assms(2) by (auto simp: hash_entry_def in_use_def unit_crc_def)
  qed
qed

text \<open>
  Hashing passes to the callback, in increasing order of the unit id and exactly once for each, the sum of id
  and checksum of every unit that is in use, has a checksum packet, and is not the SY unit.
\<close>

theorem repo_hash_eq:
  assumes "repo_ok m"
  shows "repo_hash m = Some (map (\<lambda>uid. uid + unit_crc m uid) (hashed_units m)) \<and>
    sorted_wrt (<) (hashed_units m)"
proof
  let ?P = "\<lambda>uid. in_use m uid \<and> uid \<noteq> SY_UNIT_ID \<and> map_of m (2, uid) \<noteq> None"
  have "hash_loop m rest = Some (map (\<lambda>uid. uid + unit_crc m uid)
      (filter ?P (map (snd \<circ> fst) (filter (\<lambda>e. fst (fst e) = 3) rest))))" if "set rest \<subseteq> set m" for rest
    using that
  proof (induction rest)
    case (Cons e rest)
    obtain k bs where e: "e = (k, bs)" by fastforce
    then have "map_of m k = Some bs"
      using Cons.prems assms by (simp add: repo_ok_def in_set_map_of)
    then show ?case using Cons hash_entry_eq [OF assms, of k bs] by (auto simp: e)
  qed simp
  then show "repo_hash m = Some (map (\<lambda>uid. uid + unit_crc m uid) (hashed_units m))"
    by (simp add: repo_hash_def hashed_units_def)
  have "sorted_wrt (<) (map (snd \<circ> fst) (filter (\<lambda>e. fst (fst e) = (3 :: byte)) xs))"
    if "std_ok xs" for xs :: UnitDataRepo
    using that by (induction xs) (auto simp: less_prod_def, fastforce)
  then show "sorted_wrt (<) (hashed_units m)"
    using assms by (simp add: hashed_units_def repo_ok_def sorted_wrt_filter)
qed

definition example_repo :: UnitDataRepo where
  "example_repo =
     [((2, 7), TUnitData_asSubPacket \<lparr>pktid = UNIT_DATA_1A, sub = 2, unit_fill = 0, unit_id = 7, crc = 0x1234\<rparr>),
      ((3, 7), TUnitData_asSubPacket (TUnitData_make 7 20 True))]"

lemma example_repo_ok: "repo_ok example_repo"
  by (auto simp: repo_ok_def std.all_entries_def example_repo_def TUnitData_parse_print entry_ok_def
      TUnitData_make_def less_prod_def split: if_splits) (simp_all add: TUnitData_asSubPacket_bytes)

theorem repo_hash_eq_witness: "repo_hash example_repo = Some [0x123b]"
proof -
  have "statusAndLimit0 (TUnitData_make 7 20 True) = 0x0101"
    by code_simp
  then have "hashed_units example_repo = [7]" "unit_crc example_repo 7 = 0x1234"
    by (simp_all add: hashed_units_def unit_crc_def in_use_def example_repo_def TUnitData_parse_print SY_UNIT_ID_def
        TUnitData_make_def)
  then show ?thesis using repo_hash_eq [OF example_repo_ok] by simp
qed

end
