(* ===== verification/Crc.thy ===== *)
theory Crc
  imports Prelude
begin

text \<open>
  CRC-32 (\<open>libs/taflib/nswfl_crc32.cpp\<close>): the reflected look-up table built by \<open>Initialize\<close>, the
  table-driven \<open>PartialCRC\<close> and \<open>FullCRC\<close>. Proved here: the table-driven computation equals the
  bit-serial definition of CRC-32 (reversed polynomial \<open>EDB88320\<close>), and a checksum detects every change of a
  single byte.
\<close>

section \<open>The code\<close>

text \<open>The loop of \<open>Reflect\<close>: \<open>iPos\<close> runs from 1 to \<open>cChar\<close>; \<open>n\<close> iterations are left.\<close>

fun reflect_loop :: "nat \<Rightarrow> nat \<Rightarrow> nat \<Rightarrow> u32 \<Rightarrow> u32 \<Rightarrow> u32" where
  "reflect_loop cChar iPos 0 iReflect iValue = iValue"
| "reflect_loop cChar iPos (Suc n) iReflect iValue =
     reflect_loop cChar (iPos + 1) n (drop_bit 1 iReflect)
       (if iReflect AND 1 \<noteq> 0 then iValue OR push_bit (cChar - iPos) 1 else iValue)"

definition Reflect :: "u32 \<Rightarrow> nat \<Rightarrow> u32" where
  "Reflect iReflect cChar = reflect_loop cChar 1 cChar iReflect 0"

definition iPolynomial :: u32 where
  "iPolynomial = 0x04C11DB7"

definition poly_step :: "u32 \<Rightarrow> u32" where
  "poly_step x = push_bit 1 x XOR (if x AND push_bit 31 1 \<noteq> 0 then iPolynomial else 0)"

definition table_entry :: "nat \<Rightarrow> u32" where
  "table_entry iCodes = Reflect ((poly_step ^^ 8) (push_bit 24 (Reflect (of_nat iCodes) 8))) 32"

definition Initialize :: "u32 list" where
  "Initialize = map table_entry [0..<256]"

fun PartialCRC :: "u32 list \<Rightarrow> u32 \<Rightarrow> bytestring \<Rightarrow> u32" where
  "PartialCRC iTable iCRC [] = iCRC"
| "PartialCRC iTable iCRC (b # sData) =
     PartialCRC iTable (drop_bit 8 iCRC XOR iTable ! unat ((iCRC AND 0xff) XOR ucast b)) sData"

definition FullCRC :: "u32 list \<Rightarrow> bytestring \<Rightarrow> u32" where
  "FullCRC iTable sData = PartialCRC iTable 0xffffffff sData XOR 0xffffffff"

section \<open>The definition of CRC-32\<close>

text \<open>One bit of the message register, least significant bit first.\<close>

definition crc_bit :: "u32 \<Rightarrow> u32" where
  "crc_bit x = (if bit x 0 then drop_bit 1 x XOR 0xEDB88320 else drop_bit 1 x)"

definition crc_byte :: "u32 \<Rightarrow> byte \<Rightarrow> u32" where
  "crc_byte x b = (crc_bit ^^ 8) (x XOR ucast b)"

section \<open>Reflection is bit reversal\<close>

lemma and_1_bit: "(x AND 1 \<noteq> (0 :: u32)) = bit x 0"
  using and_exp_eq_0_iff_not_bit [of x 0] by simp

lemma and_31_bit: "(x AND push_bit 31 1 \<noteq> (0 :: u32)) = bit x 31"
  using and_exp_eq_0_iff_not_bit [of x 31] by (simp add: push_bit_eq_mult)

lemma bit_reflect_loop:
  assumes "iPos + n = cChar + 1" and "0 < iPos" and "cChar \<le> 32"
  shows "bit (reflect_loop cChar iPos n x v) k \<longleftrightarrow> bit v k \<or> k < n \<and> bit x (n - 1 - k)"
  using assms
proof (induction cChar iPos n x v rule: reflect_loop.induct)
  case (2 cChar iPos n x v)
  have "cChar - iPos = n" "n < 32" using "2.prems" by auto
  then show ?case
    using 2 by (auto simp: and_1_bit bit_simps less_Suc_eq Suc_diff_Suc)
qed simp

lemma bit_Reflect: "c \<le> 32 \<Longrightarrow> bit (Reflect x c) k \<longleftrightarrow> k < c \<and> bit x (c - 1 - k)"
  by (simp add: Reflect_def bit_reflect_loop)

lemma Reflect_poly: "Reflect iPolynomial 32 = 0xEDB88320"
  by code_simp

lemma Reflect_xor: "Reflect (x XOR y) 32 = Reflect x 32 XOR Reflect y 32"
  by (rule bit_word_eqI) (auto simp: bit_Reflect bit_xor_iff)

lemma Reflect_push: "Reflect (push_bit 1 x) 32 = drop_bit 1 (Reflect x 32)"
proof (rule bit_word_eqI)
  fix n assume "n < LENGTH(32)"
  then show "bit (Reflect (push_bit 1 x) 32) n = bit (drop_bit 1 (Reflect x 32)) n"
    by (simp only: bit_Reflect bit_push_bit_iff bit_drop_bit_eq) (auto simp: bit_Reflect)
qed

lemma Reflect_poly_step: "Reflect (poly_step x) 32 = crc_bit (Reflect x 32)"
proof -
  have "bit (Reflect x 32) 0 = bit x 31" "Reflect 0 32 = 0"
    by (simp_all add: bit_Reflect) code_simp
  then show ?thesis
    unfolding poly_step_def crc_bit_def and_31_bit Reflect_xor Reflect_push
    by (simp add: Reflect_poly)
qed

lemma Reflect_poly_steps: "Reflect ((poly_step ^^ n) x) 32 = (crc_bit ^^ n) (Reflect x 32)"
  by (induction n) (simp_all add: Reflect_poly_step)

lemma table_entry_eq: "i < 256 \<Longrightarrow> table_entry i = (crc_bit ^^ 8) (of_nat i)"
proof -
  assume "i < 256"
  then have i: "i < 2 ^ 8" by simp
  have small: "bit i n \<longrightarrow> n < 8" for n
    using bit_take_bit_iff [of 8 i n] i by (auto simp: take_bit_nat_eq_self)
  have "bit (Reflect (push_bit 24 (Reflect (of_nat i) 8)) 32) n = bit (of_nat i :: u32) n" if "n < 32" for n
    using that small [of n] by (cases "n < 8") (auto simp: bit_Reflect bit_simps)
  then have "Reflect (push_bit 24 (Reflect (of_nat i) 8)) 32 = (of_nat i :: u32)"
    by (intro bit_word_eqI) simp
  then show ?thesis by (simp add: table_entry_def Reflect_poly_steps)
qed

lemma Initialize_nth: "i < 256 \<Longrightarrow> Initialize ! i = (crc_bit ^^ 8) (of_nat i)"
  by (simp add: Initialize_def table_entry_eq)

section \<open>The table-driven computation\<close>

lemma crc_bit_xor: "crc_bit (x XOR y) = crc_bit x XOR crc_bit y"
  by (auto simp: crc_bit_def bit_xor_iff intro!: bit_word_eqI simp: bit_simps)

lemma crc_bits_xor: "(crc_bit ^^ n) (x XOR y) = (crc_bit ^^ n) x XOR (crc_bit ^^ n) y"
  by (induction n) (simp_all add: crc_bit_xor)

lemma crc_bits_high: "take_bit n x = 0 \<Longrightarrow> (crc_bit ^^ n) x = drop_bit n x"
proof (induction n arbitrary: x)
  case (Suc n)
  then have "\<not> bit x 0" "take_bit n (drop_bit 1 x) = 0"
    by (metis bit_take_bit_iff bit_0_eq bot_apply bot_bool_def zero_less_Suc,
        metis One_nat_def Suc.prems take_bit_drop_bit drop_bit_of_0 plus_1_eq_Suc add.commute)
  then have "(crc_bit ^^ n) (crc_bit x) = drop_bit n (drop_bit 1 x)"
    using Suc.IH [of "drop_bit 1 x"] by (simp add: crc_bit_def [of x])
  then show ?case by (simp add: funpow_swap1)
qed simp

lemma crc_byte_table: "crc_byte x b = drop_bit 8 x XOR Initialize ! unat ((x AND 0xff) XOR ucast b)"
proof -
  let ?lo = "take_bit 8 x" and ?hi = "push_bit 8 (drop_bit 8 x)"
  have split: "x XOR ucast b = (?lo XOR ucast b) XOR ?hi"
    by (rule bit_word_eqI) (auto simp: bit_simps)
  have lo: "?lo XOR ucast b = take_bit 8 (?lo XOR ucast b)"
    by (rule bit_word_eqI) (auto simp: bit_simps)
  have "unat (take_bit 8 w) < 256" for w :: u32
    using take_bit_nat_less_exp [of 8 "unat w"] by (simp add: unsigned_take_bit_eq)
  then have "unat (?lo XOR ucast b) < 256"
    using lo by metis
  moreover have "(crc_bit ^^ 8) ?hi = drop_bit 8 x"
    by (subst crc_bits_high) (auto intro!: bit_word_eqI simp: bit_simps, drule bit_imp_le_length, simp)
  ultimately show ?thesis
    by (simp add: crc_byte_def split crc_bits_xor Initialize_nth and_255_eq ac_simps)
qed

lemma PartialCRC_bitwise: "PartialCRC Initialize x s = foldl crc_byte x s"
  by (induction Initialize x s rule: PartialCRC.induct) (simp_all add: crc_byte_table)

text \<open>
  The table-driven checksum is CRC-32: it equals, for every message, the bit-serial computation with the
  reversed polynomial \<open>EDB88320\<close>, started from the all-ones register and complemented at the end.
\<close>

theorem FullCRC_is_crc32:
  "FullCRC Initialize s = NOT (foldl crc_byte (NOT 0) s)"
proof -
  have ones: "(0xffffffff :: u32) = - 1" by simp
  have "x XOR 0xffffffff = NOT x" for x :: u32
    unfolding ones by simp
  then show ?thesis by (simp add: FullCRC_def PartialCRC_bitwise ones del: numeral_eq_one_iff)
qed

section \<open>Detection of errors\<close>

lemma xor_cancel_right [simp]: "(x XOR z = y XOR z) \<longleftrightarrow> x = (y :: u32)"
proof
  assume "x XOR z = y XOR z"
  then have "(x XOR z) XOR z = (y XOR z) XOR z" by simp
  then show "x = y" by (simp add: xor.assoc)
qed simp

lemma xor_cancel_left [simp]: "(z XOR x = z XOR y) \<longleftrightarrow> x = (y :: u32)"
  using xor_cancel_right [of x z y] by (simp add: xor.commute)

lemma bit31_crc_bit: "bit (crc_bit x) 31 = bit x 0"
proof -
  have "bit (0xEDB88320 :: u32) 31" by code_simp
  moreover have "\<not> bit (drop_bit 1 x) 31"
    by (auto simp: bit_drop_bit_eq dest: bit_imp_le_length)
  ultimately show ?thesis by (simp add: crc_bit_def bit_xor_iff)
qed

lemma crc_bit_inject: "crc_bit x = crc_bit y \<Longrightarrow> x = y"
proof -
  assume eq: "crc_bit x = crc_bit y"
  then have 0: "bit x 0 = bit y 0"
    using bit31_crc_bit by metis
  then have d: "drop_bit 1 x = drop_bit 1 y"
    using eq by (auto simp: crc_bit_def split: if_splits)
  have "bit x n = bit y n" for n
    using 0 arg_cong [OF d, of "\<lambda>w. bit w (n - 1)"] by (cases n) (auto simp: bit_drop_bit_eq)
  then show "x = y" by (intro bit_word_eqI) simp
qed

lemma crc_bits_inject: "(crc_bit ^^ n) x = (crc_bit ^^ n) y \<Longrightarrow> x = y"
  by (induction n arbitrary: x y) (auto dest: crc_bit_inject)

lemma crc_byte_inject_register: "crc_byte x b = crc_byte y b \<Longrightarrow> x = y"
  by (auto simp: crc_byte_def dest!: crc_bits_inject)

lemma crc_byte_inject_data: "crc_byte x b = crc_byte x c \<Longrightarrow> b = c"
proof -
  assume "crc_byte x b = crc_byte x c"
  then have "(ucast b :: u32) = ucast c"
    by (auto simp: crc_byte_def dest!: crc_bits_inject)
  then have "unat (ucast b :: u32) = unat (ucast c :: u32)" by simp
  then show "b = c" by (auto intro: unsigned_word_eqI)
qed

lemma foldl_crc_inject: "foldl crc_byte x s = foldl crc_byte y s \<Longrightarrow> x = y"
  by (induction s arbitrary: x y) (auto dest: crc_byte_inject_register)

text \<open>
  A single changed byte always changes the checksum: a packet-size test whose data arrives with one corrupted
  byte is never acknowledged as good.
\<close>

theorem FullCRC_detects_byte_change:
  assumes "b \<noteq> c"
  shows "FullCRC Initialize (s @ [b] @ t) \<noteq> FullCRC Initialize (s @ [c] @ t)"
  using assms
  by (auto simp: FullCRC_def PartialCRC_bitwise dest!: foldl_crc_inject crc_byte_inject_data)

theorem FullCRC_detects_byte_change_witness:
  "FullCRC Initialize ([1, 2] @ [3] @ [4]) \<noteq> FullCRC Initialize ([1, 2] @ [5] @ [4])"
  by (rule FullCRC_detects_byte_change) simp

end
