(* ===== verification/Duplicate_Detection.thy ===== *)
theory Duplicate_Detection
  imports Crc
begin

text \<open>
  Recognition of repeated packets (\<open>libs/taflib/DuplicateDetection.cpp\<close>): the checksums of the last
  packets, kept in 256 buckets by their low byte, and a queue of length 128 from which the oldest expires.

  The locale \<open>seen_set\<close> is what the window needs of the bucket table (membership, insertion that
  reports a known element, removal); it is interpreted on the buckets. Proved from it: the detector
  computes exactly a window over the last 128 distinct checksums.
\<close>

section \<open>The code\<close>

record DuplicateDetection =
  m_seenPacketCRCs :: "u32 set list"
  m_seenPacketCRCExpiryQueue :: "u32 list"

definition EXPIRY_QUEUE_LENGTH :: nat where
  "EXPIRY_QUEUE_LENGTH = 128"

definition dd_init :: DuplicateDetection where
  "dd_init = \<lparr>m_seenPacketCRCs = replicate 0x100 {}, m_seenPacketCRCExpiryQueue = []\<rparr>"

definition crc_hash :: "u32 \<Rightarrow> nat" where
  "crc_hash crc = unat (ucast (crc AND 0xff) :: byte)"

definition dd_insert :: "u32 \<Rightarrow> u32 set list \<Rightarrow> bool \<times> u32 set list" where
  "dd_insert crc seen =
     (let found = (crc \<in> seen ! crc_hash crc)
      in (found, if found then seen else seen[crc_hash crc := insert crc (seen ! crc_hash crc)]))"

definition dd_erase :: "u32 \<Rightarrow> u32 set list \<Rightarrow> u32 set list" where
  "dd_erase crc seen = seen[crc_hash crc := seen ! crc_hash crc - {crc}]"

text \<open>The \<open>while\<close> that shortens the queue.\<close>

function dd_expire :: "DuplicateDetection \<Rightarrow> DuplicateDetection" where
  "dd_expire dd =
     (if length (m_seenPacketCRCExpiryQueue dd) > EXPIRY_QUEUE_LENGTH
      then dd_expire \<lparr>m_seenPacketCRCs = dd_erase (hd (m_seenPacketCRCExpiryQueue dd)) (m_seenPacketCRCs dd),
                      m_seenPacketCRCExpiryQueue = tl (m_seenPacketCRCExpiryQueue dd)\<rparr>
      else dd)"
  by pat_completeness auto
termination
  by (relation "measure (\<lambda>dd. length (m_seenPacketCRCExpiryQueue dd))") auto

declare dd_expire.simps [simp del]

definition packet_crc :: "u32 \<Rightarrow> u32 \<Rightarrow> bytestring \<Rightarrow> u32" where
  "packet_crc sourceId destId s =
     PartialCRC Initialize (PartialCRC Initialize (PartialCRC Initialize (- 1) (le32 sourceId)) (le32 destId)) s"

definition isLikelyDuplicate :: "u32 \<Rightarrow> u32 \<Rightarrow> bytestring \<Rightarrow> DuplicateDetection \<Rightarrow> bool \<times> DuplicateDetection" where
  "isLikelyDuplicate sourceId destId s dd =
     (let crc = packet_crc sourceId destId s;
          (found, seen) = dd_insert crc (m_seenPacketCRCs dd)
      in if found then (True, dd\<lparr>m_seenPacketCRCs := seen\<rparr>)
         else (False, dd_expire \<lparr>m_seenPacketCRCs = seen,
                                 m_seenPacketCRCExpiryQueue = m_seenPacketCRCExpiryQueue dd @ [crc]\<rparr>))"

section \<open>The contract of the bucket table\<close>

locale seen_set =
  fixes member :: "'a \<Rightarrow> 's \<Rightarrow> bool"
    and ins :: "'a \<Rightarrow> 's \<Rightarrow> bool \<times> 's"
    and del :: "'a \<Rightarrow> 's \<Rightarrow> 's"
    and ok :: "'s \<Rightarrow> bool"
  assumes ins_reports: "fst (ins x s) = member x s"
    and ins_member: "ok s \<Longrightarrow> member y (snd (ins x s)) \<longleftrightarrow> y = x \<or> member y s"
    and ins_ok: "ok s \<Longrightarrow> ok (snd (ins x s))"
    and del_member: "ok s \<Longrightarrow> member y (del x s) \<longleftrightarrow> y \<noteq> x \<and> member y s"
    and del_ok: "ok s \<Longrightarrow> ok (del x s)"
begin

text \<open>The table holds exactly the elements of the queue, which has no repetitions.\<close>

definition tracks :: "'s \<Rightarrow> 'a list \<Rightarrow> bool" where
  "tracks s q = (ok s \<and> distinct q \<and> (\<forall>x. member x s \<longleftrightarrow> x \<in> set q))"

lemma tracks_reports: "tracks s q \<Longrightarrow> fst (ins x s) \<longleftrightarrow> x \<in> set q"
  by (simp add: tracks_def ins_reports)

lemma tracks_ins: "tracks s q \<Longrightarrow> x \<notin> set q \<Longrightarrow> tracks (snd (ins x s)) (q @ [x])"
  by (auto simp: tracks_def ins_member ins_ok)

lemma tracks_del_hd: "tracks s (x # q) \<Longrightarrow> tracks (del x s) q"
  by (auto simp: tracks_def del_member del_ok)

end

lemma crc_hash_less: "crc_hash x < 256"
  unfolding crc_hash_def using unsigned_less [of "ucast (x AND 0xff) :: byte"] by simp

interpretation buckets: seen_set "\<lambda>crc seen. crc \<in> seen ! crc_hash crc" dd_insert dd_erase "\<lambda>seen. length seen = 256"
  using crc_hash_less
  by unfold_locales (auto simp: dd_insert_def dd_erase_def nth_list_update Let_def)

section \<open>The detector is a window\<close>

definition dd_ok :: "DuplicateDetection \<Rightarrow> bool" where
  "dd_ok dd = (buckets.tracks (m_seenPacketCRCs dd) (m_seenPacketCRCExpiryQueue dd) \<and>
     length (m_seenPacketCRCExpiryQueue dd) \<le> 128)"

text \<open>The abstract detector: a queue of checksums.\<close>

definition window_step :: "u32 \<Rightarrow> u32 list \<Rightarrow> bool \<times> u32 list" where
  "window_step crc q =
     (if crc \<in> set q then (True, q) else (False, drop (length q + 1 - 128) (q @ [crc])))"

lemma dd_expire_tracks:
  "buckets.tracks (m_seenPacketCRCs dd) (m_seenPacketCRCExpiryQueue dd) \<Longrightarrow>
   dd_ok (dd_expire dd) \<and> m_seenPacketCRCExpiryQueue (dd_expire dd) =
     drop (length (m_seenPacketCRCExpiryQueue dd) - 128) (m_seenPacketCRCExpiryQueue dd)"
proof (induction dd rule: dd_expire.induct)
  case (1 dd)
  show ?case
  proof (cases "length (m_seenPacketCRCExpiryQueue dd) > 128")
    case True
    then obtain x q where q: "m_seenPacketCRCExpiryQueue dd = x # q"
      by (cases "m_seenPacketCRCExpiryQueue dd") auto
    then have "buckets.tracks (dd_erase x (m_seenPacketCRCs dd)) q"
      using "1.prems" buckets.tracks_del_hd by simp
    moreover have "length q - 127 = Suc (length q - 128)" using True q by simp
    ultimately show ?thesis
      using 1 True q by (subst (1 2) dd_expire.simps) (simp add: EXPIRY_QUEUE_LENGTH_def Suc_diff_le)
  next
    case False
    then show ?thesis
      using "1.prems" by (subst (1 2) dd_expire.simps) (simp add: EXPIRY_QUEUE_LENGTH_def dd_ok_def)
  qed
qed

lemma isLikelyDuplicate_step:
  assumes ok: "dd_ok dd"
  shows "let (dup, dd') = isLikelyDuplicate src dst s dd
    in dd_ok dd' \<and> (dup, m_seenPacketCRCExpiryQueue dd') =
         window_step (packet_crc src dst s) (m_seenPacketCRCExpiryQueue dd)"
proof -
  let ?crc = "packet_crc src dst s" and ?q = "m_seenPacketCRCExpiryQueue dd"
  have tr: "buckets.tracks (m_seenPacketCRCs dd) ?q" and len: "length ?q \<le> 128"
    using ok by (simp_all add: dd_ok_def)
  show ?thesis
  proof (cases "?crc \<in> set ?q")
    case True
    then have "dd_insert ?crc (m_seenPacketCRCs dd) = (True, m_seenPacketCRCs dd)"
      using buckets.tracks_reports [OF tr, of ?crc] by (auto simp: dd_insert_def Let_def)
    then show ?thesis using ok True by (simp add: isLikelyDuplicate_def window_step_def)
  next
    case False
    obtain seen where seen: "dd_insert ?crc (m_seenPacketCRCs dd) = (False, seen)"
      using False buckets.tracks_reports [OF tr, of ?crc] by (cases "dd_insert ?crc (m_seenPacketCRCs dd)") auto
    then have "buckets.tracks seen (?q @ [?crc])"
      using buckets.tracks_ins [OF tr False] by simp
    then show ?thesis
      using dd_expire_tracks [of "\<lparr>m_seenPacketCRCs = seen, m_seenPacketCRCExpiryQueue = ?q @ [?crc]\<rparr>"] seen False
      by (simp add: isLikelyDuplicate_def window_step_def)
  qed
qed

lemma dd_init_ok: "dd_ok dd_init" "m_seenPacketCRCExpiryQueue dd_init = []"
  using crc_hash_less by (auto simp: dd_ok_def dd_init_def buckets.tracks_def)

text \<open>A packet is recognised when it is offered again, and recognising it changes nothing.\<close>

lemma isLikelyDuplicate_again:
  assumes "dd_ok dd" and "isLikelyDuplicate src dst s dd = (dup, dd')"
  shows "dd_ok dd' \<and> isLikelyDuplicate src dst s dd' = (True, dd')"
proof -
  let ?crc = "packet_crc src dst s" and ?q = "m_seenPacketCRCExpiryQueue dd"
  have ok: "dd_ok dd'" and q: "(dup, m_seenPacketCRCExpiryQueue dd') = window_step ?crc ?q"
    using isLikelyDuplicate_step [OF assms(1), of src dst s] assms(2) by simp_all
  have "length ?q \<le> 128" using assms(1) by (simp add: dd_ok_def)
  then have "?crc \<in> set (m_seenPacketCRCExpiryQueue dd')"
    using q by (auto simp: window_step_def split: if_splits)
  moreover have "buckets.tracks (m_seenPacketCRCs dd') (m_seenPacketCRCExpiryQueue dd')"
    using ok by (simp add: dd_ok_def)
  ultimately have "dd_insert ?crc (m_seenPacketCRCs dd') = (True, m_seenPacketCRCs dd')"
    using buckets.tracks_reports by (auto simp: dd_insert_def Let_def)
  then show ?thesis using ok by (simp add: isLikelyDuplicate_def)
qed

text \<open>
  The bucketed detector is a window over checksums: starting from the empty detector, after any
  sequence of packets it holds the last (at most 128) distinct checksums, each once, and it calls a
  packet a duplicate exactly when its checksum is in that window; a duplicate does not renew its place.
\<close>

theorem isLikelyDuplicate_window:
  "dd_ok dd_init \<and> m_seenPacketCRCExpiryQueue dd_init = [] \<and>
   (\<forall>dd. dd_ok dd \<longrightarrow> (\<forall>src dst s.
      let (dup, dd') = isLikelyDuplicate src dst s dd
      in dd_ok dd' \<and> (dup, m_seenPacketCRCExpiryQueue dd') =
           window_step (packet_crc src dst s) (m_seenPacketCRCExpiryQueue dd)))"
  using dd_init_ok isLikelyDuplicate_step by simp

theorem isLikelyDuplicate_window_witness:
  "fst (isLikelyDuplicate 1 0 [5, 6] (snd (isLikelyDuplicate 1 0 [5, 6] dd_init)))"
proof -
  have step: "let (dup, dd') = isLikelyDuplicate src dst s dd
      in dd_ok dd' \<and> (dup, m_seenPacketCRCExpiryQueue dd') =
           window_step (packet_crc src dst s) (m_seenPacketCRCExpiryQueue dd)"
    if "dd_ok dd" for src dst s dd
    using isLikelyDuplicate_window that by blast
  have init: "dd_ok dd_init" "m_seenPacketCRCExpiryQueue dd_init = []"
    using isLikelyDuplicate_window by simp_all
  obtain dup dd where 1: "isLikelyDuplicate 1 0 [5, 6] dd_init = (dup, dd)" by fastforce
  have dd: "dd_ok dd" "m_seenPacketCRCExpiryQueue dd = [packet_crc 1 0 [5, 6]]"
    using step [OF init(1), of 1 0 "[5, 6]"] init(2) 1 by (simp_all add: window_step_def)
  obtain dup' dd' where 2: "isLikelyDuplicate 1 0 [5, 6] dd = (dup', dd')" by fastforce
  have "dup'"
    using step [OF dd(1), of 1 0 "[5, 6]"] dd(2) 2 by (simp add: window_step_def)
  then show ?thesis using 1 2 by simp
qed

end
