(* ===== verification/Data_Buffer.thy ===== *)
theory Data_Buffer
  imports Std_Map
begin

text \<open>
  Payloads and sequence-numbered buffers of the peer-to-peer transport
  (\<open>Payload\<close> and \<open>DataBuffer\<close> in \<open>libs/tafnet/TafnetNode.cpp\<close>): one \<open>DataBuffer\<close> holds what was
  sent and not yet acknowledged, another what was received and cannot be delivered yet. The clock is
  a parameter \<open>tNow\<close> (milliseconds). A null \<open>QSharedPointer\<close> is \<open>None\<close>.

  The locale \<open>fragment_store\<close> states what a receiver relies on: a buffer that only holds fragments of one
  numbered stream, and hands out the next one when it is ready. It is interpreted on \<open>DataBuffer\<close>.
  Sequence numbers are 32-bit words; the facts hold for streams that do not exhaust them (\<open>no_wrap\<close>).
\<close>

section \<open>The code\<close>

definition ACTION_INVALID :: u32 where "ACTION_INVALID = 0"
definition ACTION_UDP_DATA :: u32 where "ACTION_UDP_DATA = 2"
definition ACTION_TCP_OPEN :: u32 where "ACTION_TCP_OPEN = 3"
definition ACTION_TCP_CLOSE :: u32 where "ACTION_TCP_CLOSE = 4"
definition ACTION_TCP_DATA :: u32 where "ACTION_TCP_DATA = 5"
definition ACTION_TCP_ACK :: u32 where "ACTION_TCP_ACK = 6"
definition ACTION_TCP_RESEND :: u32 where "ACTION_TCP_RESEND = 7"
definition ACTION_MORE :: u32 where "ACTION_MORE = 8"
definition ACTION_ENUM :: u32 where "ACTION_ENUM = 9"
definition ACTION_UDP_PROTECTED :: u32 where "ACTION_UDP_PROTECTED = 10"
definition ACTION_PACKSIZE_TEST :: u32 where "ACTION_PACKSIZE_TEST = 11"
definition ACTION_PACKSIZE_ACK :: u32 where "ACTION_PACKSIZE_ACK = 12"
definition ACTION_HELLO :: u32 where "ACTION_HELLO = 13"

lemmas action_defs = ACTION_INVALID_def ACTION_UDP_DATA_def ACTION_TCP_OPEN_def ACTION_TCP_CLOSE_def
  ACTION_TCP_DATA_def ACTION_TCP_ACK_def ACTION_TCP_RESEND_def ACTION_MORE_def ACTION_ENUM_def
  ACTION_UDP_PROTECTED_def ACTION_PACKSIZE_TEST_def ACTION_PACKSIZE_ACK_def ACTION_HELLO_def

record Payload =
  pl_action :: byte
  buf :: "bytestring option"
  timestamp :: i64

definition Payload_new :: Payload where
  "Payload_new = \<lparr>pl_action = ucast ACTION_INVALID, buf = None, timestamp = 0\<rparr>"

definition Payload_set :: "i64 \<Rightarrow> byte \<Rightarrow> bytestring \<Rightarrow> Payload" where
  "Payload_set tNow action s = \<lparr>pl_action = action, buf = Some s, timestamp = tNow\<rparr>"

record DataBuffer =
  m_data :: "(u32, Payload) std_map"
  m_nextPopSeq :: u32
  m_nextPushSeq :: u32

definition DataBuffer_new :: DataBuffer where
  "DataBuffer_new = \<lparr>m_data = [], m_nextPopSeq = 1, m_nextPushSeq = 1\<rparr>"

definition db_reset :: "DataBuffer \<Rightarrow> DataBuffer" where
  "db_reset db = db\<lparr>m_data := [], m_nextPopSeq := 1, m_nextPushSeq := 1\<rparr>"

definition db_insert :: "i64 \<Rightarrow> u32 \<Rightarrow> byte \<Rightarrow> bytestring \<Rightarrow> DataBuffer \<Rightarrow> DataBuffer" where
  "db_insert tNow seq action s db =
     (if seq \<ge> m_nextPopSeq db then db\<lparr>m_data := std_put seq (Payload_set tNow action s) (m_data db)\<rparr> else db)"

definition db_push_back :: "i64 \<Rightarrow> byte \<Rightarrow> bytestring \<Rightarrow> DataBuffer \<Rightarrow> u32 \<times> DataBuffer" where
  "db_push_back tNow action s db =
     (m_nextPushSeq db,
      db\<lparr>m_data := std_put (m_nextPushSeq db) (Payload_set tNow action s) (m_data db),
         m_nextPushSeq := m_nextPushSeq db + 1\<rparr>)"

definition db_readyRead :: "DataBuffer \<Rightarrow> bool" where
  "db_readyRead db = (m_data db \<noteq> [] \<and> m_nextPopSeq db = fst (hd (m_data db)))"

definition db_pop :: "DataBuffer \<Rightarrow> Payload \<times> DataBuffer" where
  "db_pop db =
     (if db_readyRead db
      then (snd (hd (m_data db)), db\<lparr>m_data := tl (m_data db), m_nextPopSeq := m_nextPopSeq db + 1\<rparr>)
      else (Payload_new, db))"

definition db_size :: "DataBuffer \<Rightarrow> nat" where
  "db_size db = length (m_data db)"

definition db_ackData :: "u32 \<Rightarrow> DataBuffer \<Rightarrow> bool \<times> DataBuffer" where
  "db_ackData seq db = (map_of (m_data db) seq \<noteq> None, db\<lparr>m_data := std_erase seq (m_data db)\<rparr>)"

definition db_empty :: "DataBuffer \<Rightarrow> bool" where
  "db_empty db = (m_data db = [])"

definition db_nextExpectedPopSeq :: "DataBuffer \<Rightarrow> u32" where
  "db_nextExpectedPopSeq db = m_nextPopSeq db"

text \<open>\<open>m_data.begin()->first\<close> is undefined on an empty buffer.\<close>

definition db_earliestAvailable :: "DataBuffer \<Rightarrow> u32 option" where
  "db_earliestAvailable db = (case m_data db of [] \<Rightarrow> None | (seq, _) # _ \<Rightarrow> Some seq)"

definition db_get :: "u32 \<Rightarrow> DataBuffer \<Rightarrow> Payload" where
  "db_get seq db = (case map_of (m_data db) seq of Some p \<Rightarrow> p | None \<Rightarrow> Payload_new)"

section \<open>Streams of fragments\<close>

text \<open>
  The fragments of a stream, numbered from 1. A buffer entry is faithful when it is the
  fragment of its number.
\<close>

type_synonym fragment = "byte \<times> bytestring"

definition frag_at :: "fragment list \<Rightarrow> u32 \<Rightarrow> fragment option" where
  "frag_at fs seq = (if 0 < unat seq \<and> unat seq \<le> length fs then Some (fs ! (unat seq - 1)) else None)"

definition no_wrap :: "fragment list \<Rightarrow> bool" where
  "no_wrap fs = (length fs < 2 ^ 32 - 1)"

definition payload_is :: "Payload \<Rightarrow> fragment \<Rightarrow> bool" where
  "payload_is p f = (pl_action p = fst f \<and> buf p = Some (snd f))"

text \<open>Putting the fragments together: a fragment that is not \<open>ACTION_MORE\<close> completes a message.\<close>

fun assemble :: "bytestring \<Rightarrow> fragment list \<Rightarrow> (byte \<times> bytestring) list \<times> bytestring" where
  "assemble acc [] = ([], acc)"
| "assemble acc ((a, s) # fs) =
     (if a = ucast ACTION_MORE then assemble (acc @ s) fs
      else (let (ms, rest) = assemble [] fs in ((a, acc @ s) # ms, rest)))"

lemma assemble_append:
  "assemble acc (fs @ gs) =
     (let (ms, r) = assemble acc fs; (ms', r') = assemble r gs in (ms @ ms', r'))"
  by (induction acc fs rule: assemble.induct) (auto simp: Let_def split: prod.splits)

lemma frag_at_append: "frag_at fs seq = Some f \<Longrightarrow> frag_at (fs @ gs) seq = Some f"
  by (auto simp: frag_at_def nth_append split: if_splits)

text \<open>The send buffer: every entry is faithful and the next number is the first unused one.\<close>

definition send_inv :: "fragment list \<Rightarrow> DataBuffer \<Rightarrow> bool" where
  "send_inv fs db = (std_ok (m_data db) \<and> m_nextPushSeq db = of_nat (Suc (length fs)) \<and>
     std.all_entries (\<lambda>seq p. \<exists>f. frag_at fs seq = Some f \<and> payload_is p f) (m_data db))"

text \<open>The receive buffer after \<open>n\<close> fragments were taken out.\<close>

definition recv_inv :: "fragment list \<Rightarrow> nat \<Rightarrow> DataBuffer \<Rightarrow> bool" where
  "recv_inv fs n db = (std_ok (m_data db) \<and> n \<le> length fs \<and> m_nextPopSeq db = of_nat (Suc n) \<and>
     std.all_entries (\<lambda>seq p. n < unat seq \<and> (\<exists>f. frag_at fs seq = Some f \<and> payload_is p f)) (m_data db))"

lemma unat_seq: "no_wrap fs \<Longrightarrow> n \<le> length fs \<Longrightarrow> unat (of_nat (Suc n) :: u32) = Suc n"
  by (simp add: no_wrap_def unsigned_of_nat take_bit_nat_eq_self del: of_nat_Suc)

lemma send_inv_new [simp]: "send_inv [] DataBuffer_new"
  by (simp add: send_inv_def DataBuffer_new_def std.all_entries_def)

lemma recv_inv_new [simp]: "recv_inv fs 0 DataBuffer_new"
  by (simp add: recv_inv_def DataBuffer_new_def std.all_entries_def)

lemma send_inv_push:
  assumes "send_inv fs db" and "no_wrap fs" and "db_push_back tNow a s db = (seq, db')"
  shows "send_inv (fs @ [(a, s)]) db'" and "frag_at (fs @ [(a, s)]) seq = Some (a, s)"
    and "map_of (m_data db') = (map_of (m_data db))(seq \<mapsto> Payload_set tNow a s)"
proof -
  have seq: "seq = of_nat (Suc (length fs))" and db': "m_data db' = std_put seq (Payload_set tNow a s) (m_data db)"
    "m_nextPushSeq db' = seq + 1"
    using assms by (auto simp: db_push_back_def send_inv_def)
  show f: "frag_at (fs @ [(a, s)]) seq = Some (a, s)"
    using assms(2) by (simp add: seq frag_at_def unat_seq del: of_nat_Suc)
  show "map_of (m_data db') = (map_of (m_data db))(seq \<mapsto> Payload_set tNow a s)"
    by (simp add: db')
  have "std.all_entries (\<lambda>seq p. \<exists>f. frag_at (fs @ [(a, s)]) seq = Some f \<and> payload_is p f) (m_data db)"
    using assms(1) by (fastforce simp: send_inv_def std.all_entries_def dest: frag_at_append [where gs = "[(a, s)]"])
  then show "send_inv (fs @ [(a, s)]) db'"
    using assms(1) f by (simp add: send_inv_def db' seq std.all_entries_put payload_is_def Payload_set_def)
qed

lemma send_inv_ack: "send_inv fs db \<Longrightarrow> send_inv fs (snd (db_ackData seq db))"
  by (simp add: send_inv_def db_ackData_def std.all_entries_erase)

lemma send_inv_get:
  assumes "send_inv fs db" and "buf (db_get seq db) = Some s"
  shows "frag_at fs seq = Some (pl_action (db_get seq db), s)"
  using assms
  by (auto simp: send_inv_def db_get_def Payload_new_def payload_is_def split: option.splits dest!: std.all_entries_lookup)

lemma recv_inv_extend: "recv_inv fs n db \<Longrightarrow> recv_inv (fs @ gs) n db"
  by (fastforce simp: recv_inv_def std.all_entries_def dest: frag_at_append [where gs = gs])

lemma recv_inv_insert:
  assumes "recv_inv fs n db" and "no_wrap fs" and "frag_at fs seq = Some (a, s)"
  shows "recv_inv fs n (db_insert tNow seq a s db)"
proof (cases "seq \<ge> m_nextPopSeq db")
  case True
  then have "n < unat seq"
    using assms by (simp add: recv_inv_def word_le_nat_alt unat_seq del: of_nat_Suc)
  then show ?thesis
    using assms True by (simp add: recv_inv_def db_insert_def std.all_entries_put payload_is_def Payload_set_def)
qed (use assms in \<open>simp add: db_insert_def\<close>)

text \<open>Taking out the head of a ready buffer yields the next fragment of the stream.\<close>

lemma recv_inv_pop:
  assumes "recv_inv fs n db" and "no_wrap fs" and "db_readyRead db" and "db_pop db = (p, db')"
  shows "n < length fs" and "payload_is p (fs ! n)" and "recv_inv fs (Suc n) db'"
proof -
  obtain seq m where m: "m_data db = (seq, p) # m" and seq: "seq = of_nat (Suc n)"
    and db': "m_data db' = m" "m_nextPopSeq db' = seq + 1"
    using assms by (cases "m_data db") (auto simp: db_readyRead_def db_pop_def recv_inv_def)
  have ent: "std.all_entries (\<lambda>seq p. n < unat seq \<and> (\<exists>f. frag_at fs seq = Some f \<and> payload_is p f)) ((seq, p) # m)"
    and ok: "std_ok ((seq, p) # m)" and le: "n \<le> length fs"
    using assms(1) m by (simp_all add: recv_inv_def)
  have us: "unat seq = Suc n" using unat_seq [OF assms(2) le] by (simp add: seq)
  have "frag_at fs seq \<noteq> None"
    using std.all_entries_lookup [OF ent, of seq p] by auto
  then show n: "n < length fs" by (auto simp: frag_at_def us split: if_splits)
  show "payload_is p (fs ! n)"
    using std.all_entries_lookup [OF ent, of seq p] by (auto simp: frag_at_def us split: if_splits)
  have "Suc n < unat k \<and> (\<exists>f. frag_at fs k = Some f \<and> payload_is q f)" if kq: "map_of m k = Some q" for k q
  proof -
    have "seq < k" using ok kq by (auto dest!: map_of_SomeD)
    moreover then have "map_of ((seq, p) # m) k = Some q" using kq by auto
    ultimately show ?thesis
      using std.all_entries_lookup [OF ent, of k q] us by (auto simp: word_less_nat_alt)
  qed
  then show "recv_inv fs (Suc n) db'"
    using ok n by (simp add: recv_inv_def db' std.all_entries_def seq)
qed

text \<open>A fragment number the receiver has dealt with: already taken out, or stored.\<close>

definition has_got :: "nat \<Rightarrow> DataBuffer \<Rightarrow> u32 \<Rightarrow> bool" where
  "has_got n db seq = (unat seq \<le> n \<or> map_of (m_data db) seq \<noteq> None)"

lemma has_got_insert:
  assumes "recv_inv fs n db" and "no_wrap fs"
  shows "has_got n (db_insert tNow seq a s db) k \<longleftrightarrow> k = seq \<or> has_got n db k"
proof (cases "seq \<ge> m_nextPopSeq db")
  case False
  then have "unat seq \<le> n"
    using assms by (simp add: recv_inv_def word_less_nat_alt not_le unat_seq del: of_nat_Suc)
  then show ?thesis using False by (auto simp: has_got_def db_insert_def)
qed (auto simp: has_got_def db_insert_def)

lemma has_got_pop:
  assumes "recv_inv fs n db" and "no_wrap fs" and "db_readyRead db"
  shows "has_got (Suc n) (snd (db_pop db)) k \<longleftrightarrow> has_got n db k"
proof -
  obtain seq p m where m: "m_data db = (seq, p) # m" and seq: "seq = of_nat (Suc n)"
    using assms by (cases "m_data db") (auto simp: db_readyRead_def recv_inv_def)
  have us: "unat seq = Suc n"
    using unat_seq [OF assms(2)] assms(1) by (simp add: seq recv_inv_def)
  have "k = seq \<longleftrightarrow> unat k = Suc n"
    using us by (metis unsigned_word_eqI)
  then show ?thesis
    using assms(3) m us by (auto simp: has_got_def db_pop_def le_Suc_eq)
qed

section \<open>The contract of a reordering buffer\<close>

text \<open>
  What a receiver relies on: storing fragments of the stream in any order and any number of times keeps
  the buffer consistent with the stream, and whatever a ready buffer hands out is the next fragment. It
  follows that the fragments come out in the order of the stream, each once.
\<close>

locale fragment_store =
  fixes consistent :: "fragment list \<Rightarrow> nat \<Rightarrow> 'b \<Rightarrow> bool"
    and store :: "u32 \<Rightarrow> byte \<Rightarrow> bytestring \<Rightarrow> 'b \<Rightarrow> 'b"
    and ready :: "'b \<Rightarrow> bool"
    and take_out :: "'b \<Rightarrow> Payload \<times> 'b"
  assumes store_ok: "consistent fs n b \<Longrightarrow> no_wrap fs \<Longrightarrow> frag_at fs seq = Some (a, s) \<Longrightarrow> consistent fs n (store seq a s b)"
    and take_next: "consistent fs n b \<Longrightarrow> no_wrap fs \<Longrightarrow> ready b \<Longrightarrow>
      n < length fs \<and> payload_is (fst (take_out b)) (fs ! n) \<and> consistent fs (Suc n) (snd (take_out b))"
begin

primrec outputs :: "nat \<Rightarrow> 'b \<Rightarrow> Payload list \<times> 'b" where
  "outputs 0 b = ([], b)"
| "outputs (Suc k) b =
     (if ready b then (let (ps, b') = outputs k (snd (take_out b)) in (fst (take_out b) # ps, b')) else ([], b))"

primrec stores :: "(u32 \<times> fragment) list \<Rightarrow> 'b \<Rightarrow> 'b" where
  "stores [] b = b"
| "stores (x # xs) b = stores xs (store (fst x) (fst (snd x)) (snd (snd x)) b)"

lemma stores_ok:
  "consistent fs n b \<Longrightarrow> no_wrap fs \<Longrightarrow> list_all (\<lambda>(seq, f). frag_at fs seq = Some f) xs \<Longrightarrow>
   consistent fs n (stores xs b)"
  by (induction xs arbitrary: b) (auto simp: store_ok)

lemma outputs_in_order:
  "consistent fs n b \<Longrightarrow> no_wrap fs \<Longrightarrow> outputs k b = (ps, b') \<Longrightarrow>
   list_all2 payload_is ps (take (length ps) (drop n fs)) \<and> consistent fs (n + length ps) b'"
proof (induction k arbitrary: n b ps b')
  case (Suc k)
  show ?case
  proof (cases "ready b")
    case True
    then obtain qs where qs: "outputs k (snd (take_out b)) = (qs, b')" "ps = fst (take_out b) # qs"
      using Suc.prems(3) by (auto split: prod.splits)
    have n: "n < length fs" "payload_is (fst (take_out b)) (fs ! n)" "consistent fs (Suc n) (snd (take_out b))"
      using take_next [OF Suc.prems(1,2) True] by simp_all
    then show ?thesis
      using Suc.IH [OF n(3) Suc.prems(2) qs(1)] qs(2) by (simp add: Cons_nth_drop_Suc [symmetric])
  qed (use Suc.prems in simp)
qed simp

end

interpretation receive: fragment_store recv_inv "db_insert tNow" db_readyRead db_pop
  for tNow
  by unfold_locales (auto simp: recv_inv_insert dest: recv_inv_pop [OF _ _ _ prod.collapse [symmetric]])

text \<open>Storing a sequence of arrivals, and popping at most \<open>k\<close> times while the buffer is ready.\<close>

fun db_insert_all :: "i64 \<Rightarrow> (u32 \<times> fragment) list \<Rightarrow> DataBuffer \<Rightarrow> DataBuffer" where
  "db_insert_all tNow [] db = db"
| "db_insert_all tNow ((seq, a, s) # xs) db = db_insert_all tNow xs (db_insert tNow seq a s db)"

fun db_pops :: "nat \<Rightarrow> DataBuffer \<Rightarrow> Payload list \<times> DataBuffer" where
  "db_pops 0 db = ([], db)"
| "db_pops (Suc k) db =
     (if db_readyRead db then (let (ps, db') = db_pops k (snd (db_pop db)) in (fst (db_pop db) # ps, db')) else ([], db))"

lemma db_insert_all_stores: "db_insert_all tNow xs db = receive.stores tNow xs db"
  by (induction tNow xs db rule: db_insert_all.induct) auto

lemma db_pops_outputs: "db_pops k db = receive.outputs k db"
  by (induction k db rule: db_pops.induct) auto

lemma has_got_insert_all:
  "recv_inv fs n db \<Longrightarrow> no_wrap fs \<Longrightarrow> list_all (\<lambda>(seq, f). frag_at fs seq = Some f) xs \<Longrightarrow>
   has_got n (db_insert_all tNow xs db) k \<longleftrightarrow> k \<in> fst ` set xs \<or> has_got n db k"
  by (induction tNow xs db rule: db_insert_all.induct)
     (auto simp: recv_inv_insert has_got_insert)

lemma has_got_pops:
  "recv_inv fs n db \<Longrightarrow> no_wrap fs \<Longrightarrow> db_pops k db = (ps, db') \<Longrightarrow>
   has_got (n + length ps) db' seq \<longleftrightarrow> has_got n db seq"
proof (induction k db arbitrary: n ps rule: db_pops.induct)
  case (2 k db)
  show ?case
  proof (cases "db_readyRead db")
    case True
    then obtain qs where qs: "db_pops k (snd (db_pop db)) = (qs, db')" "ps = fst (db_pop db) # qs"
      using "2.prems"(3) by (auto split: prod.splits)
    have "recv_inv fs (Suc n) (snd (db_pop db))"
      using receive.take_next [OF "2.prems"(1,2) True] by simp
    then show ?thesis
      using "2.IH" [OF True _ "2.prems"(2) qs(1), of "Suc n"] qs(2) has_got_pop [OF "2.prems"(1,2) True] by simp
  qed (use "2.prems" in simp)
qed simp

text \<open>
  A receive buffer restores the order of the stream: whatever fragments of a stream arrive, in
  whatever order and however often, popping the buffer yields the fragments from the first one on, in order,
  without gaps and each once, and no fragment that arrived is lost: it is popped or still in the
  buffer.
\<close>

theorem DataBuffer_restores_order:
  assumes "no_wrap fs" and "list_all (\<lambda>(seq, f). frag_at fs seq = Some f) arrivals"
    and "db_pops k (db_insert_all tNow arrivals DataBuffer_new) = (ps, db)"
  shows "list_all2 payload_is ps (take (length ps) fs) \<and> m_nextPopSeq db = of_nat (Suc (length ps)) \<and>
    (\<forall>seq \<in> fst ` set arrivals. unat seq \<le> length ps \<or> map_of (m_data db) seq \<noteq> None)"
proof -
  have inv: "recv_inv fs 0 (db_insert_all tNow arrivals DataBuffer_new)"
    using receive.stores_ok [OF recv_inv_new assms(1,2)] by (simp add: db_insert_all_stores)
  have "list_all2 payload_is ps (take (length ps) (drop 0 fs)) \<and> recv_inv fs (0 + length ps) db"
    using receive.outputs_in_order [OF inv assms(1)] assms(3) by (simp add: db_pops_outputs)
  moreover have "has_got (length ps) db seq" if "seq \<in> fst ` set arrivals" for seq
    using has_got_pops [OF inv assms(1,3), of seq] has_got_insert_all [OF recv_inv_new assms(1,2)] that by simp
  ultimately show ?thesis by (simp add: recv_inv_def has_got_def)
qed

theorem DataBuffer_restores_order_witness:
  "let (ps, db) = db_pops 5 (db_insert_all 0 [(2, 8, [7]), (3, 5, [9]), (2, 8, [7]), (1, 8, [6])] DataBuffer_new)
   in list_all2 payload_is ps (take (length ps) [(8, [6]), (8, [7]), (5, [9])]) \<and> length ps = 3"
proof -
  obtain ps db where pops: "db_pops 5 (db_insert_all 0 [(2, 8, [7]), (3, 5, [9]), (2, 8, [7]), (1, 8, [6])]
      DataBuffer_new) = (ps, db)" by fastforce
  have "list_all2 payload_is ps (take (length ps) [(8, [6]), (8, [7]), (5, [9])])"
    using DataBuffer_restores_order [OF _ _ pops, of "[(8, [6]), (8, [7]), (5, [9])]"]
    by (simp add: no_wrap_def frag_at_def)
  moreover have "length (fst (db_pops 5 (db_insert_all 0 [(2, 8, [7]), (3, 5, [9]), (2, 8, [7]), (1, 8, [6])]
      DataBuffer_new))) = 3"
    by code_simp
  ultimately show ?thesis using pops by simp
qed

end
