(* ===== verification/Resend_Rate.thy ===== *)
theory Resend_Rate
  imports Prelude
begin

text \<open>
  Per-peer statistics of the transport (\<open>TafnetNode::ResendRate\<close> in \<open>libs/tafnet/TafnetNode.cpp\<close>): how
  often a packet is sent, the negotiated packet size and the recent ping times. Counters are 32-bit words.
  Proved here: the number of copies sent at once stays between 1 and 3, the counters stay in range,
  and the ping estimate is the maximum of at most five recent measurements.
\<close>

definition MAX_PACKET_SIZE_LOWER_LIMIT :: u32 where "MAX_PACKET_SIZE_LOWER_LIMIT = 250"
definition INITIAL_RESEND_TIMEOUT :: int where "INITIAL_RESEND_TIMEOUT = 500"
definition MAX_RESEND_TIMEOUT :: int where "MAX_RESEND_TIMEOUT = 700"
definition RESEND_TIMEOUT_MARGIN :: int where "RESEND_TIMEOUT_MARGIN = 50"
definition MAX_RESEND_AT_ONCE :: int where "MAX_RESEND_AT_ONCE = 5"
definition PING_PACKET_SIZE :: u32 where "PING_PACKET_SIZE = 16"
definition DEAD_PEER_TIMEOUT :: i64 where "DEAD_PEER_TIMEOUT = 3 * 60 * 1000"
definition RECENT_PING_BUFFER_SIZE :: nat where "RECENT_PING_BUFFER_SIZE = 5"

record ResendRate =
  sendCount :: u32
  ackCount :: u32
  maxPacketSize :: u32
  timestampLastPing :: i64
  timestampLastPingAck :: i64
  timestampFirstPing :: i64
  recentPings :: "i64 list"
  lastTimeoutSeq :: u32
  lastResendReqSeq :: u32

definition ResendRate_new :: ResendRate where
  "ResendRate_new = \<lparr>sendCount = 0, ackCount = 0, maxPacketSize = MAX_PACKET_SIZE_LOWER_LIMIT,
     timestampLastPing = 0, timestampLastPingAck = 0, timestampFirstPing = 0, recentPings = [],
     lastTimeoutSeq = 0, lastResendReqSeq = 0\<rparr>"

definition MAXRATE :: int where "MAXRATE = 3"

text \<open>The counters are unsigned; assigning one to the \<open>int rate\<close> reinterprets it as signed.\<close>

definition getResendRate :: "bool \<Rightarrow> ResendRate \<Rightarrow> int \<times> ResendRate" where
  "getResendRate incSendCount r0 =
     (let r = (if ackCount r0 > 32 then r0\<lparr>sendCount := sendCount r0 div 2, ackCount := ackCount r0 div 2\<rparr> else r0);
          rate = (if sendCount r \<le> ackCount r then 1
                  else if ackCount r = 0 then sint (sendCount r)
                  else sint (sendCount r div ackCount r));
          (rate, r) = (if rate > MAXRATE
                       then (MAXRATE, if ackCount r > 0
                                      then r\<lparr>sendCount := ackCount r * word_of_int (MAXRATE + 1) - 1\<rparr> else r)
                       else (rate, r));
          r = (if incSendCount then r\<lparr>sendCount := sendCount r + word_of_int (max 1 (rate - 1))\<rparr> else r)
      in (rate, r))"

definition registerAck :: "i64 \<Rightarrow> ResendRate \<Rightarrow> ResendRate" where
  "registerAck tNow r0 =
     (let r = r0\<lparr>timestampLastPingAck := tNow\<rparr>
      in if timestampLastPing r > 0 \<and> timestampLastPingAck r - timestampLastPing r > 0
         then let pings = recentPings r @ [timestampLastPingAck r - timestampLastPing r]
              in r\<lparr>recentPings := drop (length pings - RECENT_PING_BUFFER_SIZE) pings\<rparr>
         else r)"

text \<open>\<open>nth_element\<close> puts at the last position what a sort would put there.\<close>

definition getSuccessfulPingTime :: "ResendRate \<Rightarrow> i64" where
  "getSuccessfulPingTime r =
     (if length (recentPings r) > 0 then sort (recentPings r) ! (length (recentPings r) - 1) else - 1)"

text \<open>The timeout \<open>onResendTimer\<close> derives from the ping estimate.\<close>

definition resend_timeout :: "ResendRate \<Rightarrow> int" where
  "resend_timeout stats =
     (let expectedPing = sint (word_of_int (getSuccessfulPingTime stats) :: u32)
      in min MAX_RESEND_TIMEOUT
           (if expectedPing > 0 then 11 * expectedPing div 10 + RESEND_TIMEOUT_MARGIN else INITIAL_RESEND_TIMEOUT))"

section \<open>Bounds\<close>

lemma sint_small: "unat (x :: u32) < 2 ^ 31 \<Longrightarrow> sint x = int (unat x)"
proof -
  assume "unat x < 2 ^ 31"
  then have "uint x < 2 ^ 31"
    unfolding uint_nat by (metis of_nat_less_iff of_nat_numeral of_nat_power)
  moreover have "- (2 ^ 31) \<le> uint x" by (rule order_trans [of _ 0]) simp_all
  ultimately show ?thesis by (simp add: sint_uint signed_take_bit_int_eq_self)
qed

definition halved :: "ResendRate \<Rightarrow> ResendRate" where
  "halved r = (if ackCount r > 32 then r\<lparr>sendCount := sendCount r div 2, ackCount := ackCount r div 2\<rparr> else r)"

lemma halved_bounds:
  "unat (sendCount (halved r)) \<le> unat (sendCount r)" "unat (ackCount (halved r)) \<le> unat (ackCount r)"
  by (simp_all add: halved_def unat_div)

definition raw_rate :: "ResendRate \<Rightarrow> int" where
  "raw_rate r = (if sendCount r \<le> ackCount r then 1 else if ackCount r = 0 then sint (sendCount r)
     else sint (sendCount r div ackCount r))"

lemma sint_quotient:
  assumes "unat x < 2 ^ 31"
  shows "sint (x div y :: u32) = int (unat x div unat y)"
proof -
  have "unat (x div y) < 2 ^ 31"
    using assms div_le_dividend [of "unat x" "unat y"] unfolding unat_div by linarith
  then show ?thesis by (simp only: sint_small unat_div)
qed

lemma raw_rate_pos:
  assumes "unat (sendCount r) < 2 ^ 31"
  shows "1 \<le> raw_rate r"
proof -
  have "0 < unat (sendCount r) div unat (ackCount r)" if "ackCount r < sendCount r" "ackCount r \<noteq> 0"
    using that by (simp add: div_greater_zero_iff word_less_nat_alt unat_gt_0)
  moreover have "1 \<le> uint (sendCount r)" if "0 < unat (sendCount r)"
    using that unfolding uint_nat by linarith
  ultimately show ?thesis
    using assms by (auto simp: raw_rate_def sint_small sint_quotient not_le word_less_nat_alt)
qed

definition capped :: "ResendRate \<Rightarrow> ResendRate" where
  "capped r = (if raw_rate r > 3 \<and> ackCount r > 0 then r\<lparr>sendCount := ackCount r * 4 - 1\<rparr> else r)"

lemma capped_bounds:
  assumes "unat (sendCount r) < 2 ^ 31"
  shows "unat (sendCount (capped r)) \<le> unat (sendCount r)"
proof (cases "raw_rate r > 3 \<and> ackCount r > 0")
  case True
  then have ack: "ackCount r \<noteq> 0" by auto
  then have "raw_rate r = (if sendCount r \<le> ackCount r then 1 else int (unat (sendCount r) div unat (ackCount r)))"
    using assms by (simp add: raw_rate_def sint_quotient)
  then have "4 \<le> unat (sendCount r) div unat (ackCount r)"
    using True by (auto split: if_splits)
  then have le: "unat (ackCount r) * 4 \<le> unat (sendCount r)"
    using ack by (metis less_eq_div_iff_mult_less_eq mult.commute unat_gt_0)
  then have "unat (ackCount r * 4) = unat (ackCount r) * 4"
    using assms by (simp add: unat_word_ariths)
  then have "unat (ackCount r * 4 - 1) \<le> unat (ackCount r) * 4"
    using ack unat_sub_if' [of "ackCount r * 4" 1] unat_gt_0 [of "ackCount r"] by auto
  then show ?thesis using True le by (simp add: capped_def)
qed (auto simp: capped_def)

lemma getResendRate_eq:
  "getResendRate inc r =
     (let h = halved r; rate = min 3 (raw_rate h); c = capped h
      in (rate, if inc then c\<lparr>sendCount := sendCount c + word_of_int (max 1 (rate - 1))\<rparr> else c))"
  by (simp add: getResendRate_def halved_def [symmetric] raw_rate_def [symmetric] capped_def MAXRATE_def Let_def min_def)

text \<open>
  The number of copies a packet is sent in is always 1, 2 or 3; updating the statistics grows the send counter by
  at most two (and only when a packet is counted), never grows the acknowledgement counter, and leaves
  the negotiated packet size alone. The send counter is assumed below the sign bit.
\<close>

theorem getResendRate_bounds:
  assumes "unat (sendCount r) < 2 ^ 31" and "getResendRate inc r = (rate, r')"
  shows "1 \<le> rate \<and> rate \<le> 3 \<and> unat (sendCount r') \<le> unat (sendCount r) + (if inc then 2 else 0) \<and>
    unat (ackCount r') \<le> unat (ackCount r) \<and> maxPacketSize r' = maxPacketSize r"
proof -
  let ?h = "halved r"
  have h: "unat (sendCount ?h) < 2 ^ 31" using halved_bounds(1) [of r] assms(1) by linarith
  have rate: "rate = min 3 (raw_rate ?h)"
    and r': "r' = (if inc then (capped ?h)\<lparr>sendCount := sendCount (capped ?h) + word_of_int (max 1 (rate - 1))\<rparr> else capped ?h)"
    using assms(2) by (auto simp: getResendRate_eq Let_def)
  have 1: "1 \<le> rate" "rate \<le> 3" using raw_rate_pos [OF h] rate by auto
  have c: "unat (sendCount (capped ?h)) \<le> unat (sendCount r)"
    using capped_bounds [OF h] halved_bounds(1) [of r] by linarith
  have inc: "unat (word_of_int (max 1 (rate - 1)) :: u32) \<le> 2"
  proof -
    have "rate = 1 \<or> rate = 2 \<or> rate = 3" using 1 by arith
    then show ?thesis by auto
  qed
  have "unat (sendCount r') \<le> unat (sendCount r) + (if inc then 2 else 0)"
    using c inc assms(1) by (auto simp: r' unat_plus_if')
  moreover have "ackCount r' = ackCount ?h" "maxPacketSize r' = maxPacketSize r"
    by (auto simp: r' capped_def halved_def)
  ultimately show ?thesis using 1 halved_bounds(2) [of r] by simp
qed

theorem getResendRate_bounds_witness:
  "getResendRate True (ResendRate_new\<lparr>sendCount := 20, ackCount := 4\<rparr>) =
     (3, ResendRate_new\<lparr>sendCount := 17, ackCount := 4\<rparr>) \<and> (1 :: int) \<le> 3"
proof -
  have "getResendRate True (ResendRate_new\<lparr>sendCount := 20, ackCount := 4\<rparr>) =
     (3, ResendRate_new\<lparr>sendCount := 17, ackCount := 4\<rparr>)"
    by code_simp
  then show ?thesis
    using getResendRate_bounds [of "ResendRate_new\<lparr>sendCount := 20, ackCount := 4\<rparr>" True] by simp
qed

text \<open>
  The ping estimate is the largest of the recent measurements, of which at most five, all positive, are kept;
  the timeout for a resend is derived from it and never exceeds 700 ms.
\<close>

theorem ping_estimate:
  assumes "length (recentPings r) \<le> 5" and "\<forall>p \<in> set (recentPings r). 0 < p"
  shows "length (recentPings (registerAck tNow r)) \<le> 5 \<and>
    (\<forall>p \<in> set (recentPings (registerAck tNow r)). 0 < p) \<and>
    getSuccessfulPingTime r = (if recentPings r = [] then - 1 else Max (set (recentPings r))) \<and>
    resend_timeout r \<le> 700"
proof (intro conjI)
  show "length (recentPings (registerAck tNow r)) \<le> 5"
    using assms(1) by (simp add: registerAck_def Let_def RECENT_PING_BUFFER_SIZE_def) linarith
  show "\<forall>p \<in> set (recentPings (registerAck tNow r)). 0 < p"
    using assms(2) by (auto simp: registerAck_def Let_def dest!: in_set_dropD)
  show "resend_timeout r \<le> 700"
    by (simp add: resend_timeout_def Let_def MAX_RESEND_TIMEOUT_def)
  show "getSuccessfulPingTime r = (if recentPings r = [] then - 1 else Max (set (recentPings r)))"
  proof (cases "recentPings r = []")
    case False
    let ?xs = "sort (recentPings r)"
    have "Max (set (recentPings r)) = ?xs ! (length ?xs - 1)"
    proof (rule Max_eqI)
      fix y assume "y \<in> set (recentPings r)"
      then have "y \<in> set ?xs" by simp
      then obtain i where "i < length ?xs" "y = ?xs ! i" by (metis in_set_conv_nth)
      then show "y \<le> ?xs ! (length ?xs - 1)" by (simp add: sorted_nth_mono)
    next
      have "?xs ! (length ?xs - 1) \<in> set ?xs" using False by (intro nth_mem) simp
      then show "?xs ! (length ?xs - 1) \<in> set (recentPings r)" by simp
    qed simp
    then show ?thesis using False by (simp add: getSuccessfulPingTime_def)
  qed (simp add: getSuccessfulPingTime_def)
qed

theorem ping_estimate_witness:
  "getSuccessfulPingTime (ResendRate_new\<lparr>recentPings := [40, 70, 30]\<rparr>) = 70"
  using ping_estimate [of "ResendRate_new\<lparr>recentPings := [40, 70, 30]\<rparr>"] by simp

end
