(* ===== verification/Tafnet_Node.thy ===== *)
theory Tafnet_Node
  imports Data_Buffer Resend_Rate Duplicate_Detection "HOL-Library.Monad_Syntax"
begin

text \<open>
  The peer-to-peer transport (\<open>TafnetNode\<close>, \<open>libs/tafnet/TafnetNode.cpp\<close>): fragmentation, sequence
  numbers, acknowledgement, resend and reassembly over UDP. The state is the record \<open>TafnetNode\<close>; a handler
  returns the new state and the list of effects in the order they happen: a \<open>Datagram\<close> written to
  the socket, or a message passed to the installed handler (\<open>Handle\<close>). The clock is the parameter \<open>tNow\<close>.
  A read outside a datagram is the error \<open>Undefined\<close>, a division by zero the error \<open>RuntimeError\<close>.
  The handler of a message runs after the step that delivers it; logging and watchdogs have no effect here.
\<close>

section \<open>Addresses\<close>

datatype HostAndPort = HostAndPort (ipv4addr: u32) (port: u16)

instantiation HostAndPort :: linorder
begin

definition less_HostAndPort :: "HostAndPort \<Rightarrow> HostAndPort \<Rightarrow> bool" where
  "less_HostAndPort a b = (port a < port b \<or> port a = port b \<and> ipv4addr a < ipv4addr b)"

definition less_eq_HostAndPort :: "HostAndPort \<Rightarrow> HostAndPort \<Rightarrow> bool" where
  "less_eq_HostAndPort a b = (a < b \<or> a = b)"

instance
  by standard (auto simp: less_HostAndPort_def less_eq_HostAndPort_def intro: HostAndPort.expand)

end

section \<open>State and effects\<close>

record TafnetNode =
  m_playerId :: u32
  m_hostPlayerId :: u32
  m_peerAddresses :: "(u32, HostAndPort) std_map"
  m_peerPlayerIds :: "(HostAndPort, u32) std_map"
  m_receiveBuffer :: "(u32, DataBuffer) std_map"
  m_sendBuffer :: "(u32, DataBuffer) std_map"
  m_reassemblyBuffer :: "(u32, bytestring) std_map"
  m_resendRates :: "(u32, ResendRate) std_map"
  m_maxPacketSize :: u32
  m_proactiveResendEnabled :: bool
  m_udpDuplicateDetection :: DuplicateDetection
  m_resendRequestEnabled :: "(u32, bool) std_map"

datatype net_event = Datagram HostAndPort bytestring | Handle byte u32 bytestring

type_synonym node_result = "cpp_error + (TafnetNode \<times> net_event list)"

definition TafnetNode_new :: "u32 \<Rightarrow> bool \<Rightarrow> bool \<Rightarrow> u32 \<Rightarrow> TafnetNode" where
  "TafnetNode_new playerId isHost proactiveResend maxSize =
     \<lparr>m_playerId = playerId, m_hostPlayerId = (if isHost then playerId else 0), m_peerAddresses = [],
      m_peerPlayerIds = [], m_receiveBuffer = [], m_sendBuffer = [], m_reassemblyBuffer = [],
      m_resendRates = [], m_maxPacketSize = maxSize, m_proactiveResendEnabled = proactiveResend,
      m_udpDuplicateDetection = dd_init, m_resendRequestEnabled = []\<rparr>"

text \<open>
  \<open>operator[]\<close> of a \<open>std::map\<close>: the entry, or the default that is then created. The setters
  \<open>put_*\<close> write the entry back.
\<close>

definition recv_of :: "TafnetNode \<Rightarrow> u32 \<Rightarrow> DataBuffer" where
  "recv_of n p = (case map_of (m_receiveBuffer n) p of Some b \<Rightarrow> b | None \<Rightarrow> DataBuffer_new)"

definition send_of :: "TafnetNode \<Rightarrow> u32 \<Rightarrow> DataBuffer" where
  "send_of n p = (case map_of (m_sendBuffer n) p of Some b \<Rightarrow> b | None \<Rightarrow> DataBuffer_new)"

definition reasm_of :: "TafnetNode \<Rightarrow> u32 \<Rightarrow> bytestring" where
  "reasm_of n p = (case map_of (m_reassemblyBuffer n) p of Some b \<Rightarrow> b | None \<Rightarrow> [])"

definition rates_of :: "TafnetNode \<Rightarrow> u32 \<Rightarrow> ResendRate" where
  "rates_of n p = (case map_of (m_resendRates n) p of Some r \<Rightarrow> r | None \<Rightarrow> ResendRate_new)"

definition enabled_of :: "TafnetNode \<Rightarrow> u32 \<Rightarrow> bool" where
  "enabled_of n p = (case map_of (m_resendRequestEnabled n) p of Some b \<Rightarrow> b | None \<Rightarrow> True)"

definition put_recv :: "u32 \<Rightarrow> DataBuffer \<Rightarrow> TafnetNode \<Rightarrow> TafnetNode" where
  "put_recv p b n = n\<lparr>m_receiveBuffer := std_put p b (m_receiveBuffer n)\<rparr>"

definition put_send :: "u32 \<Rightarrow> DataBuffer \<Rightarrow> TafnetNode \<Rightarrow> TafnetNode" where
  "put_send p b n = n\<lparr>m_sendBuffer := std_put p b (m_sendBuffer n)\<rparr>"

definition put_reasm :: "u32 \<Rightarrow> bytestring \<Rightarrow> TafnetNode \<Rightarrow> TafnetNode" where
  "put_reasm p s n = n\<lparr>m_reassemblyBuffer := std_put p s (m_reassemblyBuffer n)\<rparr>"

definition put_rates :: "u32 \<Rightarrow> ResendRate \<Rightarrow> TafnetNode \<Rightarrow> TafnetNode" where
  "put_rates p r n = n\<lparr>m_resendRates := std_put p r (m_resendRates n)\<rparr>"

definition put_enabled :: "u32 \<Rightarrow> bool \<Rightarrow> TafnetNode \<Rightarrow> TafnetNode" where
  "put_enabled p b n = n\<lparr>m_resendRequestEnabled := std_put p b (m_resendRequestEnabled n)\<rparr>"

text \<open>\<open>m_resendRates[p].getResendRate(inc)\<close>.\<close>

definition resendRate_for :: "bool \<Rightarrow> u32 \<Rightarrow> TafnetNode \<Rightarrow> int \<times> TafnetNode" where
  "resendRate_for incSendCount p n =
     (let (rate, r) = getResendRate incSendCount (rates_of n p) in (rate, put_rates p r n))"

section \<open>Sending\<close>

definition packet :: "u32 \<Rightarrow> u32 \<Rightarrow> bytestring \<Rightarrow> bytestring" where
  "packet action seq s =
     (if action \<ge> ACTION_TCP_DATA then [ucast action] @ le32 seq @ s else [ucast action] @ s)"

definition sendMessage :: "TafnetNode \<Rightarrow> u32 \<Rightarrow> u32 \<Rightarrow> u32 \<Rightarrow> bytestring \<Rightarrow> int \<Rightarrow> net_event list" where
  "sendMessage n destPlayerId action seq s nRepeats =
     (case map_of (m_peerAddresses n) destPlayerId of
        None \<Rightarrow> []
      | Some hostAndPort \<Rightarrow>
          replicate (nat (if m_proactiveResendEnabled n then nRepeats else 1))
            (Datagram hostAndPort (packet action seq s)))"

text \<open>The size of the fragments for a message of \<open>len\<close> bytes; \<open>unsigned\<close> arithmetic, \<open>None\<close> for a division by zero.\<close>

definition fragment_size :: "u32 \<Rightarrow> u32 \<Rightarrow> u32 \<Rightarrow> u32 option" where
  "fragment_size negotiated limit len =
     (if negotiated + 1 = 0 then None
      else let numFragments = len div (negotiated + 1) + 1;
               sz = (len + numFragments - 1) div numFragments
           in Some (max (min sz limit) MAX_PACKET_SIZE_LOWER_LIMIT))"

text \<open>
  The fragment loop of \<open>forwardGameData\<close>; \<open>s\<close> is the data from \<open>fragOffset\<close> on. The recursion
  drops at least one byte (the fragment size is at least 250).
\<close>

function send_fragments :: "i64 \<Rightarrow> u32 \<Rightarrow> u32 \<Rightarrow> nat \<Rightarrow> bytestring \<Rightarrow> TafnetNode \<Rightarrow> TafnetNode \<times> net_event list" where
  "send_fragments tNow dest action sz s n =
     (if s = [] \<or> sz = 0 then (n, [])
      else let p = take sz s;
               (nRepeats, n) = resendRate_for True dest n;
               act = (if length s \<le> sz then action else ACTION_MORE);
               (seq, sb) = db_push_back tNow (ucast act) p (send_of n dest);
               n = put_send dest sb n;
               (n', evs) = send_fragments tNow dest action sz (drop sz s) n
           in (n', sendMessage n dest act seq p nRepeats @ evs))"
  by pat_completeness auto
termination
  by (relation "measure (\<lambda>(t, d, a, sz, s, n). length s)") auto

declare send_fragments.simps [simp del]

definition forwardGameData :: "i64 \<Rightarrow> u32 \<Rightarrow> u32 \<Rightarrow> bytestring \<Rightarrow> TafnetNode \<Rightarrow> node_result" where
  "forwardGameData tNow destPlayerId action s n =
     (if map_of (m_peerAddresses n) destPlayerId = None then Inr (n, [])
      else if action \<ge> ACTION_TCP_DATA
      then let n = put_send destPlayerId (send_of n destPlayerId) n;
               n = put_rates destPlayerId (rates_of n destPlayerId) n
           in case fragment_size (maxPacketSize (rates_of n destPlayerId)) (m_maxPacketSize n) (of_nat (length s)) of
                None \<Rightarrow> Inl (RuntimeError ''division by zero'')
              | Some sz \<Rightarrow> Inr (send_fragments tNow destPlayerId action (unat sz) s n)
      else let (nRepeats, n) = resendRate_for False destPlayerId n
           in Inr (n, sendMessage n destPlayerId action 0 s nRepeats))"

section \<open>Connections\<close>

definition forget_peer :: "u32 \<Rightarrow> TafnetNode \<Rightarrow> TafnetNode" where
  "forget_peer p n = n\<lparr>m_receiveBuffer := std_erase p (m_receiveBuffer n),
     m_sendBuffer := std_erase p (m_sendBuffer n),
     m_reassemblyBuffer := std_erase p (m_reassemblyBuffer n),
     m_resendRates := std_erase p (m_resendRates n),
     m_resendRequestEnabled := std_erase p (m_resendRequestEnabled n)\<rparr>"

definition hello :: bytestring where
  "hello = [0x48, 0x45, 0x4c, 0x4c, 0x4f]"

definition connectToPeer :: "i64 \<Rightarrow> HostAndPort \<Rightarrow> u32 \<Rightarrow> TafnetNode \<Rightarrow> node_result" where
  "connectToPeer tNow hostAndPort peerPlayerId n =
     forwardGameData tNow peerPlayerId ACTION_HELLO hello
       (forget_peer peerPlayerId
          (n\<lparr>m_peerAddresses := std_put peerPlayerId hostAndPort (m_peerAddresses n),
             m_peerPlayerIds := std_put hostAndPort peerPlayerId (m_peerPlayerIds n)\<rparr>))"

definition joinGame :: "i64 \<Rightarrow> HostAndPort \<Rightarrow> u32 \<Rightarrow> TafnetNode \<Rightarrow> node_result" where
  "joinGame tNow hostAndPort peerPlayerId n =
     map_sum id (\<lambda>(n, evs). (n\<lparr>m_hostPlayerId := peerPlayerId\<rparr>, evs)) (connectToPeer tNow hostAndPort peerPlayerId n)"

definition disconnectFromPeer :: "u32 \<Rightarrow> TafnetNode \<Rightarrow> TafnetNode" where
  "disconnectFromPeer peerPlayerId n =
     forget_peer peerPlayerId
       (n\<lparr>m_peerPlayerIds := (case map_of (m_peerAddresses n) peerPlayerId of
            Some hp \<Rightarrow> std_erase hp (m_peerPlayerIds n) | None \<Rightarrow> m_peerPlayerIds n),
          m_peerAddresses := std_erase peerPlayerId (m_peerAddresses n)\<rparr>)"

definition resetTcpBuffers :: "TafnetNode \<Rightarrow> TafnetNode" where
  "resetTcpBuffers n = n\<lparr>m_receiveBuffer := map (\<lambda>(p, b). (p, db_reset b)) (m_receiveBuffer n),
     m_sendBuffer := map (\<lambda>(p, b). (p, db_reset b)) (m_sendBuffer n)\<rparr>"

definition maxPacketSizeForPlayerId :: "TafnetNode \<Rightarrow> u32 \<Rightarrow> u32" where
  "maxPacketSizeForPlayerId n p =
     (case map_of (m_resendRates n) p of None \<Rightarrow> MAX_PACKET_SIZE_LOWER_LIMIT | Some r \<Rightarrow> maxPacketSize r)"

section \<open>Receiving\<close>

text \<open>The branches of \<open>onReadyRead\<close>, one definition each; \<open>seq\<close> is \<open>tafBufferedHeader->seq\<close>.\<close>

definition onTcpAck :: "u32 \<Rightarrow> u32 \<Rightarrow> TafnetNode \<Rightarrow> TafnetNode \<times> net_event list" where
  "onTcpAck peer seq n =
     (let (erased, sb) = db_ackData seq (send_of n peer);
          n = put_send peer sb n
      in (if erased then put_rates peer ((rates_of n peer)\<lparr>ackCount := ackCount (rates_of n peer) + 1\<rparr>) n else n, []))"

definition onTcpResend :: "u32 \<Rightarrow> u32 \<Rightarrow> TafnetNode \<Rightarrow> TafnetNode \<times> net_event list" where
  "onTcpResend peer seq n =
     (let p = db_get seq (send_of n peer)
      in case buf p of
           None \<Rightarrow> (n, [])
         | Some s \<Rightarrow>
             let (nRepeats, n) = resendRate_for True peer n;
                 stats = rates_of n peer;
                 n = (if seq > lastResendReqSeq stats then put_rates peer (stats\<lparr>lastResendReqSeq := seq\<rparr>) n else n)
             in (n, sendMessage n peer (ucast (pl_action p)) seq s nRepeats))"

definition onPacksizeTest :: "u32 \<Rightarrow> u32 \<Rightarrow> bytestring \<Rightarrow> TafnetNode \<Rightarrow> node_result" where
  "onPacksizeTest peer testPacketSize datas n =
     (if length datas = unat testPacketSize + 5
      then if testPacketSize < 4 then Inl Undefined
           else case load32 datas 5 of
                  None \<Rightarrow> Inl Undefined
                | Some testPacketCrc \<Rightarrow>
                    Inr (n, if FullCRC Initialize (drop 9 datas) = testPacketCrc \<and> testPacketSize \<le> m_maxPacketSize n
                            then sendMessage n peer ACTION_PACKSIZE_ACK testPacketSize [] 1 else [])
      else Inr (n, []))"

definition onPacksizeAck :: "i64 \<Rightarrow> u32 \<Rightarrow> u32 \<Rightarrow> TafnetNode \<Rightarrow> TafnetNode \<times> net_event list" where
  "onPacksizeAck tNow peer ackedPacketSize n =
     (let stats = registerAck tNow (rates_of n peer);
          stats = (if ackedPacketSize > maxPacketSize stats then stats\<lparr>maxPacketSize := ackedPacketSize\<rparr> else stats)
      in (put_rates peer stats n, []))"

text \<open>
  The \<open>while\<close> that empties a ready receive buffer: the buffer, the reassembly buffer and the resend
  flag are threaded through. Dereferencing a null payload would be undefined.
\<close>

function drain :: "u32 \<Rightarrow> DataBuffer \<Rightarrow> bytestring \<Rightarrow> bool \<Rightarrow>
    cpp_error + (DataBuffer \<times> bytestring \<times> bool \<times> net_event list)" where
  "drain peer rb reassembly enabled =
     (if \<not> db_readyRead rb then Inr (rb, reassembly, enabled, [])
      else let (p, rb') = db_pop rb
           in case buf p of
                None \<Rightarrow> Inl Undefined
              | Some s \<Rightarrow>
                  if pl_action p \<noteq> ucast ACTION_MORE
                  then map_sum id (\<lambda>(b, r, e, evs). (b, r, e, Handle (pl_action p) peer (reassembly @ s) # evs))
                         (drain peer rb' [] True)
                  else drain peer rb' (reassembly @ s) True)"
  by pat_completeness auto
termination
  by (relation "measure (\<lambda>(p, rb, r, e). length (m_data rb))") (auto simp: db_pop_def db_readyRead_def)

declare drain.simps [simp del]

text \<open>The resend requests for the numbers missing before the earliest stored one, at most ten.\<close>

fun missing_seqs :: "nat \<Rightarrow> u32 \<Rightarrow> u32 \<Rightarrow> u32 list" where
  "missing_seqs 0 seq earliest = []"
| "missing_seqs (Suc k) seq earliest =
     (if seq < earliest then seq # missing_seqs k (seq + 1) earliest else [])"

definition onTcpData :: "i64 \<Rightarrow> u32 \<Rightarrow> u32 \<Rightarrow> bytestring \<Rightarrow> TafnetNode \<Rightarrow> node_result" where
  "onTcpData tNow peer seq datas n =
     (if length datas < 5 then Inl Undefined
      else let rb = db_insert tNow seq (datas ! 0) (drop 5 datas) (recv_of n peer);
               (nRepeats, n) = resendRate_for False peer n;
               acks = sendMessage n peer ACTION_TCP_ACK seq [] nRepeats
           in case drain peer rb (reasm_of n peer) (enabled_of n peer) of
                Inl e \<Rightarrow> Inl e
              | Inr (rb, reassembly, enabled, evs) \<Rightarrow>
                  let n = put_reasm peer reassembly (put_recv peer rb n) in
                  (case db_earliestAvailable rb of
                     Some earliest \<Rightarrow>
                       if enabled
                       then Inr (put_enabled peer False n,
                              acks @ evs @ concat (map (\<lambda>seq. sendMessage n peer ACTION_TCP_RESEND seq [] nRepeats)
                                (missing_seqs 10 (db_nextExpectedPopSeq rb) earliest)))
                       else Inr (put_enabled peer enabled n, acks @ evs)
                   | None \<Rightarrow> Inr (put_enabled peer enabled n, acks @ evs)))"

definition onOtherData :: "u32 \<Rightarrow> bytestring \<Rightarrow> TafnetNode \<Rightarrow> TafnetNode \<times> net_event list" where
  "onOtherData peer datas n =
     (let (dup, dd) = isLikelyDuplicate peer 0 datas (m_udpDuplicateDetection n);
          n = n\<lparr>m_udpDuplicateDetection := dd\<rparr>
      in (n, if dup then [] else [Handle (datas ! 0) peer (drop 1 datas)]))"

text \<open>One iteration of the loop of \<open>onReadyRead\<close>, for a datagram \<open>datas\<close> from \<open>sender\<close>.\<close>

definition onDatagram :: "i64 \<Rightarrow> HostAndPort \<Rightarrow> bytestring \<Rightarrow> TafnetNode \<Rightarrow> node_result" where
  "onDatagram tNow sender datas n =
     (if length datas < 1 then Inr (n, [])
      else case map_of (m_peerPlayerIds n) sender of
             None \<Rightarrow> Inr (n, [])
           | Some peer \<Rightarrow>
               let n = put_recv peer (recv_of n peer) n;
                   n = put_send peer (send_of n peer) n;
                   n = put_enabled peer (enabled_of n peer) n;
                   action = ucast (datas ! 0) :: u32
               in if action < ACTION_TCP_DATA then Inr (onOtherData peer datas n)
                  else case load32 datas 1 of
                         None \<Rightarrow> Inl Undefined
                       | Some seq \<Rightarrow>
                           if action = ACTION_TCP_ACK then Inr (onTcpAck peer seq n)
                           else if action = ACTION_TCP_RESEND then Inr (onTcpResend peer seq n)
                           else if action = ACTION_PACKSIZE_TEST then onPacksizeTest peer seq datas n
                           else if action = ACTION_PACKSIZE_ACK then Inr (onPacksizeAck tNow peer seq n)
                           else onTcpData tNow peer seq datas n)"

fun onReadyRead :: "i64 \<Rightarrow> (HostAndPort \<times> bytestring) list \<Rightarrow> TafnetNode \<Rightarrow> node_result" where
  "onReadyRead tNow [] n = Inr (n, [])"
| "onReadyRead tNow ((sender, datas) # pending) n =
     (case onDatagram tNow sender datas n of
        Inl e \<Rightarrow> Inl e
      | Inr (n, evs) \<Rightarrow> map_sum id (\<lambda>(n, evs'). (n, evs @ evs')) (onReadyRead tNow pending n))"

section \<open>Timers\<close>

text \<open>The inner loop of \<open>onResendTimer\<close>, over the unacknowledged payloads of one peer.\<close>

fun resend_loop :: "i64 \<Rightarrow> int \<Rightarrow> u32 \<Rightarrow> int \<Rightarrow> (u32 \<times> Payload) list \<Rightarrow> TafnetNode \<Rightarrow> TafnetNode \<times> net_event list" where
  "resend_loop tNow timeout peer maxResendAtOnce [] n = (n, [])"
| "resend_loop tNow timeout peer maxResendAtOnce ((seq, p) # rest) n =
     (if tNow < timestamp p + timeout then (n, [])
      else let (n, evs) = (case buf p of
                 None \<Rightarrow> (n, [])
               | Some s \<Rightarrow> (let (nRepeats, n) = resendRate_for True peer n
                           in (n, sendMessage n peer (ucast (pl_action p)) seq s nRepeats)));
               stats = rates_of n peer;
               n = (if seq > lastTimeoutSeq stats then put_rates peer (stats\<lparr>lastTimeoutSeq := seq\<rparr>) n else n)
           in if maxResendAtOnce - 1 \<le> 0 then (n, evs)
              else let (n, evs') = resend_loop tNow timeout peer (maxResendAtOnce - 1) rest n in (n, evs @ evs'))"

fun resend_peers :: "i64 \<Rightarrow> (u32 \<times> DataBuffer) list \<Rightarrow> TafnetNode \<Rightarrow> TafnetNode \<times> net_event list" where
  "resend_peers tNow [] n = (n, [])"
| "resend_peers tNow ((peer, sb) # rest) n =
     (let n = put_rates peer (rates_of n peer) n;
          (n, evs) = resend_loop tNow (resend_timeout (rates_of n peer)) peer MAX_RESEND_AT_ONCE (m_data sb) n;
          (n, evs') = resend_peers tNow rest n
      in (n, evs @ evs'))"

definition onResendTimer :: "i64 \<Rightarrow> TafnetNode \<Rightarrow> TafnetNode \<times> net_event list" where
  "onResendTimer tNow n = resend_peers tNow (m_sendBuffer n) n"

definition onResendReqReenableTimer :: "TafnetNode \<Rightarrow> TafnetNode" where
  "onResendReqReenableTimer n =
     n\<lparr>m_resendRequestEnabled := map (\<lambda>(p, b). (p, True)) (m_resendRequestEnabled n)\<rparr>"

section \<open>Packet size tests and pings\<close>

definition test_pattern :: "nat \<Rightarrow> bytestring" where
  "test_pattern k = map of_nat [0..<k]"

text \<open>
  The data of a test of \<open>sz\<close> bytes: the pattern with the checksum of its tail in the first four bytes.
  The buffer holds \<open>m_maxPacketSize\<close> bytes; a larger test would read outside it.
\<close>

definition test_data :: "u32 \<Rightarrow> u32 \<Rightarrow> bytestring option" where
  "test_data bufsize sz =
     (if sz < 4 \<or> bufsize < sz then None
      else let tail = drop 4 (take (unat sz) (test_pattern (unat bufsize)))
           in Some (le32 (FullCRC Initialize tail) @ tail))"

text \<open>The \<open>for (;;)\<close> of \<open>sendPacksizeTests\<close> with 32-bit arithmetic; \<open>None\<close> when it does not end.\<close>

partial_function (option) packsize_sizes :: "u32 \<Rightarrow> u32 \<Rightarrow> u32 list option" where
  "packsize_sizes limit sz =
     (if sz \<ge> limit then Some [sz]
      else do { rest \<leftarrow> packsize_sizes limit (min (1412 * sz div 1000) limit); Some (sz # rest) })"

definition sendPacksizeTests :: "i64 \<Rightarrow> u32 \<Rightarrow> TafnetNode \<Rightarrow> node_result option" where
  "sendPacksizeTests tNow peer n0 =
     (let n = put_rates peer ((rates_of n0 peer)\<lparr>maxPacketSize := MAX_PACKET_SIZE_LOWER_LIMIT\<rparr>) n0
      in do {
        sizes \<leftarrow> packsize_sizes (m_maxPacketSize n) MAX_PACKET_SIZE_LOWER_LIMIT;
        Some (case those (map (test_data (m_maxPacketSize n)) sizes) of
                None \<Rightarrow> Inl Undefined
              | Some ds \<Rightarrow>
                  Inr (put_rates peer ((rates_of n peer)\<lparr>timestampLastPing := tNow\<rparr>) n,
                       concat (map (\<lambda>(sz, d). sendMessage n peer ACTION_PACKSIZE_TEST sz d 3) (zip sizes ds)))) })"

text \<open>The loop of \<open>sendPingToPeers\<close>: the peers considered lost are collected and disconnected at the end.\<close>

fun ping_loop :: "i64 \<Rightarrow> bytestring \<Rightarrow> (HostAndPort \<times> u32) list \<Rightarrow> TafnetNode \<Rightarrow> TafnetNode \<times> net_event list \<times> u32 list" where
  "ping_loop tNow d [] n = (n, [], [])"
| "ping_loop tNow d ((_, peerId) # rest) n =
     (let stats = rates_of n peerId;
          n = put_rates peerId stats n
      in if timestampLastPingAck stats > 0 \<and> tNow - timestampLastPingAck stats > DEAD_PEER_TIMEOUT \<or>
            timestampLastPingAck stats = 0 \<and> timestampFirstPing stats > 0 \<and>
            tNow - timestampFirstPing stats > DEAD_PEER_TIMEOUT
         then let (n, evs, lost) = ping_loop tNow d rest n in (n, evs, peerId # lost)
         else let stats = (if timestampFirstPing stats = 0 then stats\<lparr>timestampFirstPing := tNow\<rparr> else stats);
                  n = put_rates peerId (stats\<lparr>timestampLastPing := tNow\<rparr>) n;
                  (n', evs, lost) = ping_loop tNow d rest n
              in (n', sendMessage n peerId ACTION_PACKSIZE_TEST PING_PACKET_SIZE d 1 @ evs, lost))"

definition sendPingToPeers :: "i64 \<Rightarrow> TafnetNode \<Rightarrow> TafnetNode \<times> net_event list" where
  "sendPingToPeers tNow n =
     (let d = (case test_data PING_PACKET_SIZE PING_PACKET_SIZE of Some d \<Rightarrow> d | None \<Rightarrow> []);
          (n, evs, lost) = ping_loop tNow d (m_peerPlayerIds n) n
      in (fold disconnectFromPeer (sorted_list_of_set (set lost)) n, evs))"

definition getPingToPeers :: "i64 \<Rightarrow> TafnetNode \<Rightarrow> (u32, i64) std_map" where
  "getPingToPeers tNow n =
     map (\<lambda>(p, r). (p, if timestampLastPingAck r < timestampLastPing r then tNow - timestampLastPing r
                       else timestampLastPingAck r - timestampLastPing r))
       (filter (\<lambda>(p, r). timestampLastPing r > 0) (m_resendRates n))"

section \<open>Reading back what was written\<close>

text \<open>The entry of a peer after an update; an update of one table leaves the other tables alone.\<close>

lemma entry_simps [simp]:
  "recv_of (put_recv p b n) q = (if q = p then b else recv_of n q)"
  "recv_of (put_send p b n) q = recv_of n q"
  "recv_of (put_reasm p s n) q = recv_of n q"
  "recv_of (put_rates p r n) q = recv_of n q"
  "recv_of (put_enabled p e n) q = recv_of n q"
  "send_of (put_recv p b n) q = send_of n q"
  "send_of (put_send p b n) q = (if q = p then b else send_of n q)"
  "send_of (put_reasm p s n) q = send_of n q"
  "send_of (put_rates p r n) q = send_of n q"
  "send_of (put_enabled p e n) q = send_of n q"
  "reasm_of (put_recv p b n) q = reasm_of n q"
  "reasm_of (put_send p b n) q = reasm_of n q"
  "reasm_of (put_reasm p s n) q = (if q = p then s else reasm_of n q)"
  "reasm_of (put_rates p r n) q = reasm_of n q"
  "reasm_of (put_enabled p e n) q = reasm_of n q"
  "rates_of (put_recv p b n) q = rates_of n q"
  "rates_of (put_send p b n) q = rates_of n q"
  "rates_of (put_reasm p s n) q = rates_of n q"
  "rates_of (put_rates p r n) q = (if q = p then r else rates_of n q)"
  "rates_of (put_enabled p e n) q = rates_of n q"
  "enabled_of (put_recv p b n) q = enabled_of n q"
  "enabled_of (put_send p b n) q = enabled_of n q"
  "enabled_of (put_reasm p s n) q = enabled_of n q"
  "enabled_of (put_rates p r n) q = enabled_of n q"
  "enabled_of (put_enabled p e n) q = (if q = p then e else enabled_of n q)"
  by (simp_all add: recv_of_def send_of_def reasm_of_def rates_of_def enabled_of_def
      put_recv_def put_send_def put_reasm_def put_rates_def put_enabled_def)

lemma address_simps [simp]:
  "m_peerAddresses (put_recv p b n) = m_peerAddresses n"
  "m_peerAddresses (put_send p b n) = m_peerAddresses n"
  "m_peerAddresses (put_reasm p s n) = m_peerAddresses n"
  "m_peerAddresses (put_rates p r n) = m_peerAddresses n"
  "m_peerAddresses (put_enabled p e n) = m_peerAddresses n"
  "m_peerPlayerIds (put_recv p b n) = m_peerPlayerIds n"
  "m_peerPlayerIds (put_send p b n) = m_peerPlayerIds n"
  "m_peerPlayerIds (put_reasm p s n) = m_peerPlayerIds n"
  "m_peerPlayerIds (put_rates p r n) = m_peerPlayerIds n"
  "m_peerPlayerIds (put_enabled p e n) = m_peerPlayerIds n"
  "m_maxPacketSize (put_recv p b n) = m_maxPacketSize n"
  "m_maxPacketSize (put_send p b n) = m_maxPacketSize n"
  "m_maxPacketSize (put_reasm p s n) = m_maxPacketSize n"
  "m_maxPacketSize (put_rates p r n) = m_maxPacketSize n"
  "m_maxPacketSize (put_enabled p e n) = m_maxPacketSize n"
  "m_proactiveResendEnabled (put_recv p b n) = m_proactiveResendEnabled n"
  "m_proactiveResendEnabled (put_send p b n) = m_proactiveResendEnabled n"
  "m_proactiveResendEnabled (put_reasm p s n) = m_proactiveResendEnabled n"
  "m_proactiveResendEnabled (put_rates p r n) = m_proactiveResendEnabled n"
  "m_proactiveResendEnabled (put_enabled p e n) = m_proactiveResendEnabled n"
  "m_udpDuplicateDetection (put_recv p b n) = m_udpDuplicateDetection n"
  "m_udpDuplicateDetection (put_send p b n) = m_udpDuplicateDetection n"
  "m_udpDuplicateDetection (put_reasm p s n) = m_udpDuplicateDetection n"
  "m_udpDuplicateDetection (put_rates p r n) = m_udpDuplicateDetection n"
  "m_udpDuplicateDetection (put_enabled p e n) = m_udpDuplicateDetection n"
  by (simp_all add: put_recv_def put_send_def put_reasm_def put_rates_def put_enabled_def)

lemma sendBuffer_simps [simp]:
  "m_sendBuffer (put_recv p rb n) = m_sendBuffer n" "m_sendBuffer (put_reasm p s n) = m_sendBuffer n"
  "m_sendBuffer (put_rates p r n) = m_sendBuffer n" "m_sendBuffer (put_enabled p e n) = m_sendBuffer n"
  "m_sendBuffer (put_send p sb n) = std_put p sb (m_sendBuffer n)"
  by (simp_all add: put_recv_def put_send_def put_reasm_def put_rates_def put_enabled_def)

text \<open>What an operation that only updates the statistics of a peer leaves alone.\<close>

definition same_but_rates :: "TafnetNode \<Rightarrow> TafnetNode \<Rightarrow> bool" where
  "same_but_rates n n' = (\<exists>rs. n' = n\<lparr>m_resendRates := rs\<rparr>)"

lemma same_but_rates_refl [simp]: "same_but_rates n n"
  unfolding same_but_rates_def by (rule exI [of _ "m_resendRates n"]) simp

lemma same_but_rates_trans: "same_but_rates n n' \<Longrightarrow> same_but_rates n' n'' \<Longrightarrow> same_but_rates n n''"
  by (auto simp: same_but_rates_def)

lemma same_but_rates_put [simp]: "same_but_rates n (put_rates p r n)"
  by (auto simp: same_but_rates_def put_rates_def)

lemma same_but_ratesD:
  assumes "same_but_rates n n'"
  shows "recv_of n' = recv_of n" "send_of n' = send_of n" "reasm_of n' = reasm_of n" "enabled_of n' = enabled_of n"
    "m_peerAddresses n' = m_peerAddresses n" "m_peerPlayerIds n' = m_peerPlayerIds n" "m_sendBuffer n' = m_sendBuffer n"
    "m_maxPacketSize n' = m_maxPacketSize n" "m_proactiveResendEnabled n' = m_proactiveResendEnabled n"
  using assms by (auto simp: same_but_rates_def recv_of_def send_of_def reasm_of_def enabled_of_def fun_eq_iff)

lemma resendRate_for_same: "resendRate_for inc p n = (rate, n') \<Longrightarrow> same_but_rates n n'"
  by (auto simp: resendRate_for_def split: prod.splits)

lemma sendMessage_same: "same_but_rates n n' \<Longrightarrow> sendMessage n' = sendMessage n"
  by (auto simp: sendMessage_def fun_eq_iff same_but_ratesD)

lemma sendMessage_cases:
  assumes "e \<in> set (sendMessage n p action seq s k)"
  shows "\<exists>hp. map_of (m_peerAddresses n) p = Some hp \<and> e = Datagram hp (packet action seq s)"
  using assms by (auto simp: sendMessage_def split: option.splits)

section \<open>Fragmentation\<close>

text \<open>The fragments \<open>forwardGameData\<close> makes of a message.\<close>

function frags_of :: "u32 \<Rightarrow> nat \<Rightarrow> bytestring \<Rightarrow> fragment list" where
  "frags_of action sz s =
     (if s = [] \<or> sz = 0 then []
      else (ucast (if length s \<le> sz then action else ACTION_MORE), take sz s) # frags_of action sz (drop sz s))"
  by pat_completeness auto
termination
  by (relation "measure (\<lambda>(a, sz, s). length s)") auto

declare frags_of.simps [simp del]

lemma length_frags_of: "length (frags_of action sz s) \<le> length s"
proof (induction action sz s rule: frags_of.induct)
  case (1 action sz s)
  show ?case
  proof (cases "s = [] \<or> sz = 0")
    case False
    then have "length s - sz < length s" by simp
    then have "Suc (length (frags_of action sz (drop sz s))) \<le> length s"
      using "1.IH" [OF False] unfolding length_drop by linarith
    then show ?thesis using False by (simp add: frags_of.simps [of action sz s])
  qed (simp add: frags_of.simps [of action sz s])
qed

lemma frags_of_sizes: "f \<in> set (frags_of action sz s) \<Longrightarrow> snd f \<noteq> [] \<and> length (snd f) \<le> sz"
proof (induction action sz s rule: frags_of.induct)
  case (1 action sz s)
  then show ?case
    by (cases "s = [] \<or> sz = 0") (auto simp: frags_of.simps [of action sz s])
qed

lemma assemble_frags_of:
  assumes "ucast action \<noteq> (ucast ACTION_MORE :: byte)" and "s \<noteq> []" and "0 < sz"
  shows "assemble acc (frags_of action sz s) = ([(ucast action, acc @ s)], [])"
  using assms(2)
proof (induction s arbitrary: acc rule: measure_induct_rule [of length])
  case (less s)
  show ?case
  proof (cases "length s \<le> sz")
    case True
    then show ?thesis using less.prems assms by (simp add: frags_of.simps [of action sz])
  next
    case False
    then have "drop sz s \<noteq> []" "length (drop sz s) < length s" using assms(3) less.prems by auto
    then show ?thesis
      using less False assms(3) by (simp add: frags_of.simps [of action sz s])
  qed
qed

text \<open>
  Fragmentation is undone by reassembly: a non-empty message is cut into pieces that are put together to exactly
  that message with its action, whatever the fragment size; every piece is non-empty and no longer than the
  fragment size, and there are no more pieces than bytes.
\<close>

theorem fragments_reassemble:
  assumes "ucast action \<noteq> (ucast ACTION_MORE :: byte)" and "s \<noteq> []" and "0 < sz"
  shows "assemble [] (frags_of action sz s) = ([(ucast action, s)], []) \<and>
    (\<forall>f \<in> set (frags_of action sz s). snd f \<noteq> [] \<and> length (snd f) \<le> sz) \<and>
    length (frags_of action sz s) \<le> length s"
  using assemble_frags_of [OF assms, of "[]"] frags_of_sizes length_frags_of by simp

theorem fragments_reassemble_witness:
  "assemble [] (frags_of ACTION_TCP_DATA 2 [1, 2, 3, 4, 5]) = ([(5, [1, 2, 3, 4, 5])], [])"
  using fragments_reassemble [of ACTION_TCP_DATA "[1, 2, 3, 4, 5]" 2] by (simp add: action_defs)

lemma fragment_size_bounds:
  assumes "fragment_size negotiated limit len = Some sz" and "unat len < 2 ^ 31"
  shows "250 \<le> unat sz" and "unat sz \<le> max 250 (min (unat negotiated + 1) (unat limit))"
proof -
  let ?m = "unat negotiated + 1" and ?len = "unat len"
  define q where "q = len div (negotiated + 1)"
  have nz: "negotiated + 1 \<noteq> 0" and sz: "sz = max (min ((len + (q + 1) - 1) div (q + 1)) limit) MAX_PACKET_SIZE_LOWER_LIMIT"
    using assms(1) by (auto simp: fragment_size_def Let_def q_def split: if_splits)
  have "unat (negotiated + 1) = ?m"
    using nz by (simp add: unatSuc add.commute)
  then have q: "unat q = ?len div ?m" by (simp only: q_def unat_div)
  then have le: "unat q \<le> ?len" by simp
  then have k: "unat (q + 1) = unat q + 1" and sum: "unat (len + (q + 1) - 1) = ?len + unat q"
    using assms(2) by (simp_all add: unat_word_ariths)
  have "?len < (unat q + 1) * ?m"
    using dividend_less_div_times [of ?m ?len] by (simp add: q)
  then have "(?len + unat q) div (unat q + 1) < ?m + 1"
    by (intro div_less_iff_less_mult [THEN iffD2]) (simp_all add: algebra_simps)
  then show "250 \<le> unat sz" "unat sz \<le> max 250 (min ?m (unat limit))"
    using sum k by (auto simp: sz max_def min_def word_le_nat_alt unat_div MAX_PACKET_SIZE_LOWER_LIMIT_def)
qed

text \<open>
  C39. The fragment size is at least 250 bytes, and at most the configured limit and one more than the
  negotiated packet size (or 250). The one byte too many is real: a message of 501 bytes to a peer with
  a negotiated size of 250 is sent as fragments of 251 bytes.
\<close>

theorem fragment_size_limits:
  assumes "fragment_size negotiated limit len = Some sz" and "unat len < 2 ^ 31"
  shows "250 \<le> unat sz \<and> unat sz \<le> max 250 (min (unat negotiated + 1) (unat limit)) \<and>
    fragment_size 250 1500 501 = Some 251"
proof -
  have "fragment_size 250 1500 501 = Some 251" by code_simp
  then show ?thesis using fragment_size_bounds [OF assms] by simp
qed

theorem fragment_size_limits_witness: "fragment_size 800 1000 2000 = Some 667 \<and> (250 :: nat) \<le> unat (667 :: u32)"
proof -
  have "fragment_size 800 1000 2000 = Some 667" by code_simp
  then show ?thesis using fragment_size_limits [of 800 1000 2000 667] by simp
qed

section \<open>The effect of sending on the send buffer\<close>

definition data_packet :: "u32 \<Rightarrow> fragment \<Rightarrow> bytestring" where
  "data_packet seq f = fst f # le32 seq @ snd f"

lemma packet_data: "action \<ge> ACTION_TCP_DATA \<Longrightarrow> packet action seq s = data_packet seq (ucast action, s)"
  by (simp add: packet_def data_packet_def)

text \<open>What sending to \<open>dest\<close> may change: the send buffer and the counters of \<open>dest\<close>.\<close>

definition send_frame :: "u32 \<Rightarrow> TafnetNode \<Rightarrow> TafnetNode \<Rightarrow> bool" where
  "send_frame dest n n' = (m_peerAddresses n' = m_peerAddresses n \<and> m_peerPlayerIds n' = m_peerPlayerIds n \<and>
     m_receiveBuffer n' = m_receiveBuffer n \<and> m_reassemblyBuffer n' = m_reassemblyBuffer n \<and>
     m_resendRequestEnabled n' = m_resendRequestEnabled n \<and> m_maxPacketSize n' = m_maxPacketSize n \<and>
     (std_ok (m_sendBuffer n) \<longrightarrow> std_ok (m_sendBuffer n')) \<and>
     (\<forall>q. q \<noteq> dest \<longrightarrow> send_of n' q = send_of n q) \<and>
     (\<forall>q. maxPacketSize (rates_of n' q) = maxPacketSize (rates_of n q)))"

lemma send_frame_refl [simp]: "send_frame dest n n"
  by (simp add: send_frame_def)

lemma send_frame_trans: "send_frame dest n n' \<Longrightarrow> send_frame dest n' n'' \<Longrightarrow> send_frame dest n n''"
  by (simp add: send_frame_def)

lemma send_frameD:
  assumes "send_frame dest n n'"
  shows "recv_of n' = recv_of n" "reasm_of n' = reasm_of n" "enabled_of n' = enabled_of n"
    "m_peerAddresses n' = m_peerAddresses n" "m_peerPlayerIds n' = m_peerPlayerIds n"
    "m_maxPacketSize n' = m_maxPacketSize n" "maxPacketSize (rates_of n' q) = maxPacketSize (rates_of n q)"
    "std_ok (m_sendBuffer n) \<Longrightarrow> std_ok (m_sendBuffer n')"
  using assms by (simp_all add: send_frame_def recv_of_def reasm_of_def enabled_of_def fun_eq_iff)

lemma send_frame_put_send [simp]: "send_frame dest n (put_send dest b n)"
  by (simp add: send_frame_def) (simp add: put_send_def)

lemma getResendRate_maxPacketSize: "maxPacketSize (snd (getResendRate inc r)) = maxPacketSize r"
  by (auto simp: getResendRate_def Let_def)

lemma send_frame_put_rates:
  "maxPacketSize r = maxPacketSize (rates_of n dest) \<Longrightarrow> send_frame dest n (put_rates dest r n)"
  by (simp add: send_frame_def) (simp add: put_rates_def)

lemma send_frame_resendRate: "resendRate_for inc dest n = (k, n') \<Longrightarrow> send_frame dest n n'"
  using getResendRate_maxPacketSize [of inc "rates_of n dest"]
  by (auto simp: resendRate_for_def split: prod.splits intro: send_frame_put_rates)

text \<open>Appending the fragments \<open>gs\<close> to the stream \<open>fs\<close> sent to \<open>dest\<close>.\<close>

definition sent_effect :: "u32 \<Rightarrow> fragment list \<Rightarrow> fragment list \<Rightarrow> TafnetNode \<Rightarrow> TafnetNode \<Rightarrow> net_event list \<Rightarrow> bool" where
  "sent_effect dest fs gs n n' evs = (send_frame dest n n' \<and> send_inv (fs @ gs) (send_of n' dest) \<and>
     (\<forall>seq. map_of (m_data (send_of n dest)) seq \<noteq> None \<longrightarrow> map_of (m_data (send_of n' dest)) seq \<noteq> None) \<and>
     (\<forall>seq. length fs < unat seq \<and> unat seq \<le> length (fs @ gs) \<longrightarrow> map_of (m_data (send_of n' dest)) seq \<noteq> None) \<and>
     (\<forall>e \<in> set evs. \<exists>hp seq f. map_of (m_peerAddresses n) dest = Some hp \<and> e = Datagram hp (data_packet seq f) \<and>
        frag_at (fs @ gs) seq = Some f))"

lemma sent_effect_trans:
  assumes "sent_effect dest fs gs n n' evs" and "sent_effect dest (fs @ gs) hs n' n'' evs'"
  shows "sent_effect dest fs (gs @ hs) n n'' (evs @ evs')"
proof -
  have "map_of (m_data (send_of n'' dest)) seq \<noteq> None"
    if "length fs < unat seq" "unat seq \<le> length (fs @ gs @ hs)" for seq
    using assms that by (cases "unat seq \<le> length (fs @ gs)") (auto simp: sent_effect_def)
  moreover have "\<forall>e \<in> set evs. \<exists>hp seq f. map_of (m_peerAddresses n) dest = Some hp \<and>
      e = Datagram hp (data_packet seq f) \<and> frag_at (fs @ gs @ hs) seq = Some f"
    using assms(1) unfolding sent_effect_def by (metis append.assoc frag_at_append)
  moreover have "m_peerAddresses n' = m_peerAddresses n"
    using assms(1) unfolding sent_effect_def by (blast dest: send_frameD)
  ultimately show ?thesis
    using assms unfolding sent_effect_def by (auto intro: send_frame_trans)
qed

lemma sent_effect_push:
  assumes "send_inv fs (send_of n dest)" and "no_wrap fs" and "act \<ge> ACTION_TCP_DATA"
    and "db_push_back tNow (ucast act) p (send_of n dest) = (seq, sb)"
  shows "sent_effect dest fs [(ucast act, p)] n (put_send dest sb n) (sendMessage (put_send dest sb n) dest act seq p k)"
proof -
  note push = send_inv_push [OF assms(1,2,4)]
  have "seq = of_nat (Suc (length fs))"
    using assms(1,4) by (auto simp: send_inv_def db_push_back_def)
  then have "unat seq = Suc (length fs)" using unat_seq [OF assms(2)] by simp
  then have "q = seq" if "length fs < unat q" "unat q \<le> Suc (length fs)" for q
    using that by (metis le_SucE not_less unsigned_word_eqI)
  then show ?thesis
    using push assms(3) by (fastforce simp: sent_effect_def packet_data dest!: sendMessage_cases)
qed

lemma sent_effect_fragments:
  assumes "send_fragments tNow dest action sz s n = (n', evs)" and "send_inv fs (send_of n dest)"
    and "no_wrap (fs @ frags_of action sz s)" and "action \<ge> ACTION_TCP_DATA"
  shows "sent_effect dest fs (frags_of action sz s) n n' evs"
  using assms
proof (induction tNow dest action sz s n arbitrary: fs n' evs rule: send_fragments.induct)
  case (1 tNow dest action sz s n)
  show ?case
  proof (cases "s = [] \<or> sz = 0")
    case True
    then show ?thesis
      using "1.prems" by (auto simp: send_fragments.simps [of _ _ _ sz s] frags_of.simps [of _ sz s] sent_effect_def)
  next
    case False
    define act where "act = (if length s \<le> sz then action else ACTION_MORE)"
    obtain k n1 where 1: "resendRate_for True dest n = (k, n1)" by fastforce
    obtain seq sb where 2: "db_push_back tNow (ucast act) (take sz s) (send_of n1 dest) = (seq, sb)" by fastforce
    obtain n2 evs2 where 3: "send_fragments tNow dest action sz (drop sz s) (put_send dest sb n1) = (n2, evs2)" by fastforce
    let ?f = "(ucast act, take sz s) :: fragment" and ?gs = "frags_of action sz (drop sz s)"
    have frags: "frags_of action sz s = ?f # ?gs"
      using False by (simp add: frags_of.simps [of action sz s] act_def)
    have res: "n' = n2" "evs = sendMessage (put_send dest sb n1) dest act seq (take sz s) k @ evs2"
      using "1.prems"(1) False 1 2 3 by (simp_all add: send_fragments.simps [of _ _ _ sz s] act_def [symmetric] Let_def)
    have wrap: "no_wrap fs" "no_wrap ((fs @ [?f]) @ ?gs)" using "1.prems"(3) by (simp_all add: frags no_wrap_def)
    have same: "same_but_rates n n1" using resendRate_for_same [OF 1] .
    have act: "act \<ge> ACTION_TCP_DATA" using "1.prems"(4) by (simp add: act_def action_defs)
    have "sent_effect dest fs [?f] n1 (put_send dest sb n1) (sendMessage (put_send dest sb n1) dest act seq (take sz s) k)"
      using "1.prems"(2) same by (intro sent_effect_push [OF _ wrap(1) act 2]) (simp add: same_but_ratesD)
    then have here: "sent_effect dest fs [?f] n (put_send dest sb n1)
        (sendMessage (put_send dest sb n1) dest act seq (take sz s) k)"
      using same send_frame_trans [OF send_frame_resendRate [OF 1]]
      by (auto simp: sent_effect_def same_but_ratesD)
    then have "send_inv (fs @ [?f]) (send_of (put_send dest sb n1) dest)" by (simp add: sent_effect_def)
    then have "sent_effect dest (fs @ [?f]) ?gs (put_send dest sb n1) n2 evs2"
      using "1.IH" [OF False refl 1 [symmetric] refl act_def 2 [symmetric] refl refl 3] wrap(2) "1.prems"(4) by simp
    then show ?thesis
      using sent_effect_trans [OF here] by (simp add: frags res)
  qed
qed

end
