(* ===== verification/Tafnet_Link.thy ===== *)
theory Tafnet_Link
  imports Tafnet_Node "HOL-Library.Sublist"
begin

text \<open>
  Two transport nodes over an unreliable network. The network keeps every datagram ever written and may deliver any of
  them at any time, any number of times, in any order, or never: it loses, duplicates and
  reorders, but does not alter datagrams. The relation \<open>link_step\<close> runs the node operations of
  \<open>Tafnet_Node\<close> on the two ends.

  Proved here, for every reachable state and in both directions: the reliable messages handed to the receiver's
  handler are a prefix of the reliable messages the sender accepted (in order, once, unaltered), no
  unacknowledged fragment is forgotten before the receiver has it, and no handler runs into undefined behaviour.
\<close>

section \<open>Datagrams\<close>

definition data_action :: "byte \<Rightarrow> bool" where
  "data_action a = (5 \<le> a \<and> a \<notin> {6, 7, 11, 12})"

text \<open>
  The datagrams one end may have written, given the stream \<open>fs\<close> of its fragments and the numbers \<open>acked\<close> of
  the other stream that it has received.
\<close>

definition good_datagram :: "fragment list \<Rightarrow> (u32 \<Rightarrow> bool) \<Rightarrow> bytestring \<Rightarrow> bool" where
  "good_datagram fs acked d =
     ((\<exists>seq f. d = data_packet seq f \<and> frag_at fs seq = Some f) \<or>
      (\<exists>seq. d = data_packet seq (6, []) \<and> acked seq) \<or>
      (\<exists>seq. d = data_packet seq (7, [])) \<or>
      (\<exists>sz s. d = data_packet sz (11, s) \<and> unat sz = length s \<and> 4 \<le> length s) \<or>
      (\<exists>sz. d = data_packet sz (12, []) \<and> sz \<noteq> - 1) \<or>
      (\<exists>a s. d = a # s \<and> a < 5))"

lemma good_datagram_mono:
  assumes "good_datagram fs acked d" and "\<And>seq. acked seq \<Longrightarrow> acked' seq"
  shows "good_datagram (fs @ gs) acked' d"
  using assms frag_at_append unfolding good_datagram_def by blast

definition wire :: "HostAndPort \<Rightarrow> net_event list \<Rightarrow> bytestring set" where
  "wire hp evs = {d. Datagram hp d \<in> set evs}"

text \<open>The reliable messages passed to the handler as coming from \<open>p\<close>.\<close>

fun delivered :: "u32 \<Rightarrow> net_event list \<Rightarrow> (byte \<times> bytestring) list" where
  "delivered p [] = []"
| "delivered p (Handle a q s # evs) = (if q = p \<and> 5 \<le> a then (a, s) # delivered p evs else delivered p evs)"
| "delivered p (Datagram hp d # evs) = delivered p evs"

lemma wire_simps [simp]:
  "wire hp [] = {}" "wire hp (Handle a q s # evs) = wire hp evs"
  "wire hp (evs @ evs') = wire hp evs \<union> wire hp evs'"
  by (auto simp: wire_def)

lemma delivered_append [simp]: "delivered p (evs @ evs') = delivered p evs @ delivered p evs'"
  by (induction p evs rule: delivered.induct) auto

lemma delivered_datagrams: "\<forall>e \<in> set evs. \<exists>hp d. e = Datagram hp d \<Longrightarrow> delivered p evs = []"
  by (induction p evs rule: delivered.induct) auto

lemma delivered_sendMessage [simp]: "delivered p (sendMessage n q action seq s k) = []"
  by (rule delivered_datagrams) (auto dest: sendMessage_cases)

section \<open>The two ends know each other\<close>

definition linked :: "TafnetNode \<Rightarrow> u32 \<Rightarrow> HostAndPort \<Rightarrow> bool" where
  "linked n p hp = (map_of (m_peerAddresses n) p = Some hp \<and> map_of (m_peerPlayerIds n) hp = Some p \<and>
     (\<forall>q. map_of (m_peerAddresses n) q = Some hp \<longrightarrow> q = p) \<and> std_ok (m_sendBuffer n) \<and>
     m_maxPacketSize n \<noteq> - 1 \<and> maxPacketSize (rates_of n p) \<noteq> - 1)"

lemma wire_sendMessage:
  assumes "linked n p hp"
  shows "wire hp (sendMessage n q action seq s k) \<subseteq> (if q = p then {packet action seq s} else {})"
  using assms by (auto simp: wire_def linked_def dest!: sendMessage_cases)

text \<open>
  An operation that leaves the reliable channel with \<open>p\<close> as it is: it may write good datagrams and change counters,
  timestamps and other peers' entries.
\<close>

definition idle_effect :: "u32 \<Rightarrow> HostAndPort \<Rightarrow> fragment list \<Rightarrow> TafnetNode \<Rightarrow> TafnetNode \<Rightarrow> net_event list \<Rightarrow> bool" where
  "idle_effect p hp fs n n' evs = (linked n' p hp \<and> send_of n' p = send_of n p \<and> recv_of n' p = recv_of n p \<and>
     reasm_of n' p = reasm_of n p \<and> (\<forall>d \<in> wire hp evs. good_datagram fs (\<lambda>_. False) d) \<and> delivered p evs = [])"

lemma idle_effect_trans:
  "idle_effect p hp fs n n' evs \<Longrightarrow> idle_effect p hp fs n' n'' evs' \<Longrightarrow> idle_effect p hp fs n n'' (evs @ evs')"
  by (auto simp: idle_effect_def)

lemma idle_effect_put_rates:
  assumes "linked n p hp" and "q = p \<Longrightarrow> maxPacketSize r \<noteq> - 1"
  shows "idle_effect p hp fs n (put_rates q r n) []"
  using assms by (auto simp: idle_effect_def linked_def)

lemma idle_effect_resendRate:
  assumes "linked n p hp" and "resendRate_for inc q n = (k, n')"
  shows "idle_effect p hp fs n n' []"
proof -
  have "maxPacketSize (rates_of n' p) = maxPacketSize (rates_of n p)"
    using send_frameD(7) [OF send_frame_resendRate [OF assms(2)]] .
  then show ?thesis
    using assms(1) resendRate_for_same [OF assms(2)] by (simp add: idle_effect_def linked_def same_but_ratesD)
qed

lemma idle_effect_message:
  assumes "linked n p hp" and "q = p \<Longrightarrow> good_datagram fs (\<lambda>_. False) (packet action seq s)"
  shows "idle_effect p hp fs n n (sendMessage n q action seq s k)"
  using assms wire_sendMessage [OF assms(1), of q action seq s k]
  by (auto simp: idle_effect_def split: if_splits)

section \<open>The operations of a node\<close>

text \<open>The entries \<open>onReadyRead\<close> creates before it looks at a datagram.\<close>

definition touched :: "u32 \<Rightarrow> TafnetNode \<Rightarrow> TafnetNode" where
  "touched p n = put_enabled p (enabled_of n p) (put_send p (send_of n p) (put_recv p (recv_of n p) n))"

lemma touched_simps [simp]:
  "send_of (touched p n) = send_of n" "recv_of (touched p n) = recv_of n" "reasm_of (touched p n) = reasm_of n"
  "rates_of (touched p n) = rates_of n" "linked n q hp \<Longrightarrow> linked (touched p n) q hp"
  by (auto simp: touched_def linked_def)

lemma onDatagram_from:
  assumes "linked n p hp" and "d \<noteq> []"
  shows "onDatagram tNow hp d n =
    (if ucast (d ! 0) < ACTION_TCP_DATA then Inr (onOtherData p d (touched p n))
     else case load32 d 1 of None \<Rightarrow> Inl Undefined
       | Some seq \<Rightarrow>
           if ucast (d ! 0) = ACTION_TCP_ACK then Inr (onTcpAck p seq (touched p n))
           else if ucast (d ! 0) = ACTION_TCP_RESEND then Inr (onTcpResend p seq (touched p n))
           else if ucast (d ! 0) = ACTION_PACKSIZE_TEST then onPacksizeTest p seq d (touched p n)
           else if ucast (d ! 0) = ACTION_PACKSIZE_ACK then Inr (onPacksizeAck tNow p seq (touched p n))
           else onTcpData tNow p seq d (touched p n))"
proof -
  have "\<not> length d < 1" "map_of (m_peerPlayerIds n) hp = Some p"
    using assms by (auto simp: linked_def Suc_le_eq)
  then show ?thesis
    unfolding onDatagram_def Let_def by (cases "load32 d 1") (simp_all add: touched_def)
qed

lemma load32_data_packet [simp]: "load32 (data_packet seq f) (Suc 0) = Some seq"
  using load32_at [of "[fst f]" 1 seq "snd f"] by (simp add: data_packet_def)

lemma data_packet_nth0 [simp]: "data_packet seq f ! 0 = fst f"
  by (simp add: data_packet_def)

lemma ucast_byte_simps:
  "(ucast (b :: byte) < (5 :: u32)) \<longleftrightarrow> b < 5" "(ucast b = (6 :: u32)) \<longleftrightarrow> b = 6" "(ucast b = (7 :: u32)) \<longleftrightarrow> b = 7"
  "(ucast b = (11 :: u32)) \<longleftrightarrow> b = 11" "(ucast b = (12 :: u32)) \<longleftrightarrow> b = 12" "((5 :: u32) \<le> ucast b) \<longleftrightarrow> 5 \<le> b"
  by (auto simp: word_less_nat_alt word_le_nat_alt word_eq_iff_unsigned [where ?'a = nat])

lemma ucast_ucast_byte [simp]: "(ucast (ucast (b :: byte) :: u32) :: byte) = b"
  by (rule bit_word_eqI) (simp add: bit_simps)

lemma packet_ucast: "5 \<le> b \<Longrightarrow> packet (ucast b) seq s = data_packet seq (b, s)"
  by (simp add: packet_def data_packet_def action_defs ucast_byte_simps)

lemma onDatagram_data_packet:
  assumes "linked n p hp" and "5 \<le> fst f"
  shows "onDatagram tNow hp (data_packet seq f) n =
    (if fst f = 6 then Inr (onTcpAck p seq (touched p n))
     else if fst f = 7 then Inr (onTcpResend p seq (touched p n))
     else if fst f = 11 then onPacksizeTest p seq (data_packet seq f) (touched p n)
     else if fst f = 12 then Inr (onPacksizeAck tNow p seq (touched p n))
     else onTcpData tNow p seq (data_packet seq f) (touched p n))"
proof -
  have "\<not> fst f < 5" using assms(2) by simp
  moreover have "data_packet seq f \<noteq> []" by (simp add: data_packet_def)
  ultimately show ?thesis
    by (simp add: onDatagram_from [OF assms(1)] action_defs ucast_byte_simps)
qed

text \<open>Unreliable messages in both directions.\<close>

lemma idle_forward:
  assumes "linked n p hp" and "action < ACTION_TCP_DATA" and "forwardGameData tNow q action s n = Inr (n', evs)"
  shows "idle_effect p hp fs n n' evs"
proof (cases "map_of (m_peerAddresses n) q = None")
  case True
  then show ?thesis using assms by (auto simp: forwardGameData_def idle_effect_def)
next
  case False
  obtain k n1 where k: "resendRate_for False q n = (k, n1)" by fastforce
  moreover have "\<not> ACTION_TCP_DATA \<le> action" using assms(2) by simp
  ultimately have res: "n' = n1" "evs = sendMessage n1 q action 0 s k"
    using assms(3) False by (auto simp: forwardGameData_def)
  note i = idle_effect_resendRate [OF assms(1) k, of fs]
  have "ucast action < (5 :: byte)"
    using assms(2) by (simp add: action_defs word_less_nat_alt unsigned_ucast_eq take_bit_nat_eq_self)
  then have "good_datagram fs (\<lambda>_. False) (packet action 0 s)"
    using assms(2) by (auto simp: good_datagram_def packet_def)
  then have "idle_effect p hp fs n1 n1 (sendMessage n1 q action 0 s k)"
    using i by (intro idle_effect_message) (auto simp: idle_effect_def)
  then show ?thesis using idle_effect_trans [OF i] res by simp
qed

lemma idle_other:
  assumes "linked n p hp" and "a < 5" and "onDatagram tNow hp (a # s) n = Inr (n', evs)"
  shows "idle_effect p hp fs n n' evs"
proof -
  have res: "(n', evs) = onOtherData p (a # s) (touched p n)"
    using assms by (simp add: onDatagram_from action_defs ucast_byte_simps)
  have "send_of (m\<lparr>m_udpDuplicateDetection := dd\<rparr>) = send_of m" "recv_of (m\<lparr>m_udpDuplicateDetection := dd\<rparr>) = recv_of m"
    "reasm_of (m\<lparr>m_udpDuplicateDetection := dd\<rparr>) = reasm_of m" "rates_of (m\<lparr>m_udpDuplicateDetection := dd\<rparr>) = rates_of m"
    for m dd
    by (simp_all add: send_of_def recv_of_def reasm_of_def rates_of_def fun_eq_iff)
  then show ?thesis
    using res assms(2) touched_simps(5) [OF assms(1), of p]
    by (auto simp: onOtherData_def idle_effect_def linked_def split: prod.splits if_splits)
qed

text \<open>Control datagrams.\<close>

lemma ack_effect:
  assumes "linked n p hp" and "onDatagram tNow hp (data_packet seq (6, [])) n = Inr (n', evs)"
  shows "linked n' p hp" "send_of n' p = snd (db_ackData seq (send_of n p))" "recv_of n' p = recv_of n p"
    "reasm_of n' p = reasm_of n p" "evs = []"
proof -
  have res: "(n', evs) = onTcpAck p seq (touched p n)"
    using assms by (simp add: onDatagram_data_packet)
  show "linked n' p hp" "send_of n' p = snd (db_ackData seq (send_of n p))" "recv_of n' p = recv_of n p"
    "reasm_of n' p = reasm_of n p" "evs = []"
    using res touched_simps(5) [OF assms(1), of p]
    by (auto simp: onTcpAck_def linked_def Let_def split: prod.splits)
qed

lemma idle_resend_request:
  assumes "linked n p hp" and "send_inv fs (send_of n p)" and "\<forall>f \<in> set fs. 5 \<le> fst f"
    and "onDatagram tNow hp (data_packet seq (7, [])) n = Inr (n', evs)"
  shows "idle_effect p hp fs n n' evs"
proof -
  let ?n = "touched p n" and ?pl = "db_get seq (send_of n p)"
  have res: "(n', evs) = onTcpResend p seq ?n"
    using assms by (simp add: onDatagram_data_packet)
  have t: "idle_effect p hp fs n ?n []" "linked ?n p hp"
    using assms(1) by (simp_all add: idle_effect_def)
  show ?thesis
  proof (cases "buf ?pl")
    case None
    then show ?thesis using res t by (simp add: onTcpResend_def)
  next
    case (Some s)
    obtain k n1 where k: "resendRate_for True p ?n = (k, n1)" by fastforce
    define n2 where "n2 = (if seq > lastResendReqSeq (rates_of n1 p)
      then put_rates p ((rates_of n1 p)\<lparr>lastResendReqSeq := seq\<rparr>) n1 else n1)"
    have res: "n' = n2" "evs = sendMessage n2 p (ucast (pl_action ?pl)) seq s k"
      using res Some k by (simp_all add: onTcpResend_def n2_def Let_def)
    note i1 = idle_effect_trans [OF t(1) idle_effect_resendRate [OF t(2) k, of fs]]
    then have i2: "idle_effect p hp fs n1 n2 []"
      using idle_effect_put_rates [of n1 p hp p] by (auto simp: n2_def idle_effect_def linked_def)
    have f: "frag_at fs seq = Some (pl_action ?pl, s)"
      using send_inv_get [OF assms(2) Some] .
    then have "5 \<le> pl_action ?pl"
      using assms(3) by (auto simp: frag_at_def split: if_splits) (metis Suc_pred fst_conv less_eq_Suc_le nth_mem)
    then have "good_datagram fs (\<lambda>_. False) (packet (ucast (pl_action ?pl)) seq s)"
      using f by (auto simp: good_datagram_def packet_ucast)
    then have "idle_effect p hp fs n2 n2 evs"
      unfolding res using i2 by (intro idle_effect_message) (auto simp: idle_effect_def)
    then show ?thesis
      using idle_effect_trans [OF idle_effect_trans [OF i1 i2]] res(1) by fastforce
  qed
qed

lemma idle_packsize_test:
  assumes "linked n p hp" and "unat sz = length s" and "4 \<le> length s"
  shows "\<exists>n' evs. onDatagram tNow hp (data_packet sz (11, s)) n = Inr (n', evs) \<and> idle_effect p hp fs n n' evs"
proof -
  let ?n = "touched p n" and ?d = "data_packet sz (11, s)"
  have l: "linked ?n p hp" using assms(1) by simp
  have "length ?d = unat sz + 5" "\<not> sz < 4"
    using assms by (simp_all add: data_packet_def word_less_nat_alt)
  moreover obtain c where "load32 ?d 5 = Some c"
    using assms(3) by (simp add: data_packet_def load32_less)
  ultimately have res: "onDatagram tNow hp ?d n = Inr (?n, if FullCRC Initialize (drop 9 ?d) = c \<and> sz \<le> m_maxPacketSize ?n
      then sendMessage ?n p ACTION_PACKSIZE_ACK sz [] 1 else [])"
    using assms(1) by (simp add: onDatagram_data_packet onPacksizeTest_def)
  have "sz \<noteq> - 1" if "sz \<le> m_maxPacketSize ?n"
    using that l by (auto simp: linked_def word_order.extremum_unique)
  then have "idle_effect p hp fs ?n ?n (sendMessage ?n p ACTION_PACKSIZE_ACK sz [] 1)" if "sz \<le> m_maxPacketSize ?n"
    using that l by (intro idle_effect_message) (auto simp: good_datagram_def action_defs packet_def data_packet_def)
  then show ?thesis
    using res l by (auto simp: idle_effect_def)
qed

lemma idle_packsize_ack:
  assumes "linked n p hp" and "sz \<noteq> - 1" and "onDatagram tNow hp (data_packet sz (12, [])) n = Inr (n', evs)"
  shows "idle_effect p hp fs n n' evs"
proof -
  have "(n', evs) = onPacksizeAck tNow p sz (touched p n)"
    using assms by (simp add: onDatagram_data_packet)
  moreover have "maxPacketSize (registerAck tNow r) = maxPacketSize r" for r
    by (simp add: registerAck_def Let_def)
  ultimately show ?thesis
    using assms(1,2) by (auto simp: onPacksizeAck_def idle_effect_def linked_def touched_def Let_def)
qed

text \<open>Reliable data.\<close>

lemma take_Suc_assemble:
  assumes "n < length fr" and "assemble [] (take n fr) = (ms, r)"
  shows "assemble [] (take (Suc n) fr) =
    (if fst (fr ! n) = ucast ACTION_MORE then (ms, r @ snd (fr ! n))
     else (ms @ [(fst (fr ! n), r @ snd (fr ! n))], []))"
  using assms by (cases "fr ! n") (simp add: take_Suc_nth assemble_append)

lemma drain_effect:
  assumes "recv_inv fr np rb" and "no_wrap fr" and "\<forall>f \<in> set fr. 5 \<le> fst f"
    and "assemble [] (take np fr) = (ms, r)"
  shows "\<exists>np' rb' r' e' evs. drain p rb r e = Inr (rb', r', e', evs) \<and> recv_inv fr np' rb' \<and>
    \<not> db_readyRead rb' \<and> (\<forall>k. has_got np' rb' k = has_got np rb k) \<and>
    assemble [] (take np' fr) = (ms @ delivered p evs, r') \<and> (\<forall>hp. wire hp evs = {})"
  using assms
proof (induction p rb r e arbitrary: np ms rule: drain.induct)
  case (1 p rb r e)
  show ?case
  proof (cases "db_readyRead rb")
    case False
    then show ?thesis using "1.prems" by (auto simp: drain.simps [of p rb])
  next
    case True
    obtain pl rb' where pop: "db_pop rb = (pl, rb')" by fastforce
    note pi = recv_inv_pop [OF "1.prems"(1,2) True pop]
    have got: "has_got (Suc np) rb' k = has_got np rb k" for k
      using has_got_pop [OF "1.prems"(1,2) True, of k] pop by simp
    have pl: "buf pl = Some (snd (fr ! np))" "pl_action pl = fst (fr ! np)"
      using pi(2) by (simp_all add: payload_is_def)
    note asm = take_Suc_assemble [OF pi(1) "1.prems"(4)]
    have five: "5 \<le> fst (fr ! np)" using "1.prems"(3) pi(1) by simp
    show ?thesis
    proof (cases "pl_action pl = ucast ACTION_MORE")
      case more: True
      then show ?thesis
        using "1.IH"(2) [of "(pl, rb')" pl rb' "snd (fr ! np)" "Suc np" ms] True pop pl pi(3) "1.prems"(2,3) asm got
        by (simp add: drain.simps [of p rb] del: not_ex)
    next
      case last: False
      then obtain np' rb'' r' e' evs where "drain p rb' [] True = Inr (rb'', r', e', evs)" "recv_inv fr np' rb''"
        "\<not> db_readyRead rb''" "\<forall>k. has_got np' rb'' k = has_got (Suc np) rb' k"
        "assemble [] (take np' fr) = ((ms @ [(fst (fr ! np), r @ snd (fr ! np))]) @ delivered p evs, r')"
        "\<forall>hp. wire hp evs = {}"
        using "1.IH"(1) [of "(pl, rb')" pl rb' "snd (fr ! np)" "Suc np" "ms @ [(fst (fr ! np), r @ snd (fr ! np))]"]
          True pop pl pi(3) "1.prems"(2,3) asm by auto
      then show ?thesis
        using True pop pl last got five by (auto simp: drain.simps [of p rb])
    qed
  qed
qed

lemma data_effect:
  assumes "linked n p hp" and "recv_inv fr np (recv_of n p)" and "no_wrap fr" and "\<forall>g \<in> set fr. data_action (fst g)"
    and "assemble [] (take np fr) = (ms, reasm_of n p)" and "frag_at fr seq = Some f"
  shows "\<exists>n' evs np'. onDatagram tNow hp (data_packet seq f) n = Inr (n', evs) \<and> linked n' p hp \<and>
    send_of n' p = send_of n p \<and> recv_inv fr np' (recv_of n' p) \<and> \<not> db_readyRead (recv_of n' p) \<and>
    assemble [] (take np' fr) = (ms @ delivered p evs, reasm_of n' p) \<and>
    (\<forall>k. has_got np' (recv_of n' p) k \<longleftrightarrow> k = seq \<or> has_got np (recv_of n p) k) \<and>
    (\<forall>d \<in> wire hp evs. good_datagram fs (\<lambda>k. k = seq) d)"
proof -
  let ?n = "touched p n" and ?rb = "db_insert tNow seq (fst f) (snd f) (recv_of n p)"
  have f: "data_action (fst f)" "5 \<le> fst f" and five: "\<forall>g \<in> set fr. 5 \<le> fst g"
    using assms(4,6) by (auto simp: frag_at_def data_action_def split: if_splits)
  obtain k n1 where k: "resendRate_for False p ?n = (k, n1)" by fastforce
  note same = same_but_ratesD [OF resendRate_for_same [OF k]]
  have l1: "linked n1 p hp"
    using idle_effect_resendRate [OF touched_simps(5) [OF assms(1)] k] by (simp add: idle_effect_def)
  have ins: "recv_inv fr np ?rb" "\<And>j. has_got np ?rb j \<longleftrightarrow> j = seq \<or> has_got np (recv_of n p) j"
    using recv_inv_insert [OF assms(2,3), of seq "fst f" "snd f"] has_got_insert [OF assms(2,3)] assms(6) by simp_all
  obtain np' rb r e evs where dr: "drain p ?rb (reasm_of n p) (enabled_of n1 p) = Inr (rb, r, e, evs)"
    and d: "recv_inv fr np' rb" "\<not> db_readyRead rb" "\<forall>j. has_got np' rb j = has_got np ?rb j"
      "assemble [] (take np' fr) = (ms @ delivered p evs, r)" "\<forall>hp. wire hp evs = {}"
    using drain_effect [OF ins(1) assms(3) five assms(5)] by metis
  define n2 where "n2 = put_reasm p r (put_recv p rb n1)"
  define acks where "acks = sendMessage n1 p ACTION_TCP_ACK seq [] k"
  define reqs where "reqs = (case db_earliestAvailable rb of None \<Rightarrow> []
    | Some earliest \<Rightarrow> if e then concat (map (\<lambda>seq. sendMessage n2 p ACTION_TCP_RESEND seq [] k)
        (missing_seqs 10 (db_nextExpectedPopSeq rb) earliest)) else [])"
  have len: "\<not> length (data_packet seq f) < 5" and body: "drop 5 (data_packet seq f) = snd f"
    by (simp_all add: data_packet_def)
  have "onDatagram tNow hp (data_packet seq f) n = onTcpData tNow p seq (data_packet seq f) ?n"
    using f by (simp add: onDatagram_data_packet [OF assms(1)] data_action_def)
  then obtain e' where res: "onDatagram tNow hp (data_packet seq f) n = Inr (put_enabled p e' n2, acks @ evs @ reqs)"
    using len body dr by (auto simp: onTcpData_def k same n2_def acks_def reqs_def Let_def split: option.splits)
  have "wire hp acks \<subseteq> {data_packet seq (6, [])}"
    using wire_sendMessage [OF l1, of p ACTION_TCP_ACK seq "[]" k]
    by (auto simp: acks_def packet_def action_defs data_packet_def split: if_splits)
  moreover have l2: "linked n2 p hp" using l1 by (simp add: n2_def linked_def)
  have "\<exists>j. x = data_packet j (7, [])" if x: "x \<in> wire hp reqs" for x
  proof -
    obtain j where "Datagram hp x \<in> set (sendMessage n2 p ACTION_TCP_RESEND j [] k)"
      using x by (auto simp: reqs_def wire_def split: option.splits if_splits)
    then show ?thesis
      by (auto simp: packet_def action_defs data_packet_def dest!: sendMessage_cases)
  qed
  ultimately have wire: "\<forall>x \<in> wire hp (acks @ evs @ reqs). good_datagram fs (\<lambda>j. j = seq) x"
    using d(5) by (fastforce simp: good_datagram_def)
  have "delivered p reqs = []"
    by (rule delivered_datagrams)
       (auto simp: reqs_def split: option.splits if_splits dest!: sendMessage_cases)
  then have "delivered p (acks @ evs @ reqs) = delivered p evs" by (simp add: acks_def)
  then show ?thesis
    using res wire d ins(2) l2 same by (intro exI [of _ "put_enabled p e' n2"] exI [of _ "acks @ evs @ reqs"] exI [of _ np'])
      (simp add: n2_def linked_def)
qed

text \<open>Timers and pings.\<close>

lemma idle_resend_loop:
  assumes "resend_loop tNow timeout q m pls n = (n', evs)" and "linked n p hp"
    and "q = p \<Longrightarrow> \<forall>(seq, pl) \<in> set pls. \<exists>f. frag_at fs seq = Some f \<and> payload_is pl f \<and> 5 \<le> fst f"
  shows "idle_effect p hp fs n n' evs \<and> same_but_rates n n'"
  using assms
proof (induction tNow timeout q m pls n arbitrary: n' evs rule: resend_loop.induct)
  case (2 tNow timeout q m seq pl rest n)
  show ?case
  proof (cases "tNow < timestamp pl + timeout")
    case True
    then show ?thesis using "2.prems" by (simp add: idle_effect_def)
  next
    case False
    obtain n1 evs1 where 1: "(case buf pl of None \<Rightarrow> (n, [])
        | Some s \<Rightarrow> (let (k, n) = resendRate_for True q n in (n, sendMessage n q (ucast (pl_action pl)) seq s k))) = (n1, evs1)"
      by fastforce
    have i1: "idle_effect p hp fs n n1 evs1 \<and> same_but_rates n n1"
    proof (cases "buf pl")
      case None
      then show ?thesis using 1 "2.prems"(2) by (auto simp: idle_effect_def)
    next
      case (Some s)
      obtain k where k: "resendRate_for True q n = (k, n1)"
        and ev: "evs1 = sendMessage n1 q (ucast (pl_action pl)) seq s k"
        using 1 Some by (auto split: prod.splits)
      note i = idle_effect_resendRate [OF "2.prems"(2) k, of fs]
      have "good_datagram fs (\<lambda>_. False) (packet (ucast (pl_action pl)) seq s)" if "q = p"
        using "2.prems"(3) [OF that] Some by (auto simp: good_datagram_def payload_is_def packet_ucast)
      then have "idle_effect p hp fs n1 n1 evs1"
        unfolding ev using i by (intro idle_effect_message) (auto simp: idle_effect_def)
      then show ?thesis using idle_effect_trans [OF i] resendRate_for_same [OF k] by simp
    qed
    define n2 where "n2 = (if seq > lastTimeoutSeq (rates_of n1 q)
      then put_rates q ((rates_of n1 q)\<lparr>lastTimeoutSeq := seq\<rparr>) n1 else n1)"
    have i2: "idle_effect p hp fs n1 n2 [] \<and> same_but_rates n1 n2"
      using i1 idle_effect_put_rates [of n1 p hp q] by (auto simp: n2_def idle_effect_def linked_def)
    note here = idle_effect_trans [OF conjunct1 [OF i1] conjunct1 [OF i2]]
      same_but_rates_trans [OF conjunct2 [OF i1] conjunct2 [OF i2]]
    show ?thesis
    proof (cases "m - 1 \<le> 0")
      case True
      then show ?thesis using "2.prems"(1) False 1 here by (simp add: n2_def [symmetric] Let_def)
    next
      case more: False
      obtain n3 evs3 where 3: "resend_loop tNow timeout q (m - 1) rest n2 = (n3, evs3)" by fastforce
      have res: "n' = n3" "evs = evs1 @ evs3"
        using "2.prems"(1) False 1 more 3 by (simp_all add: n2_def [symmetric] Let_def)
      have "idle_effect p hp fs n2 n3 evs3 \<and> same_but_rates n2 n3"
        using "2.IH" [OF False 1 [symmetric] refl refl n2_def more 3] here(1) "2.prems"(3)
        by (auto simp: idle_effect_def)
      then show ?thesis
        using idle_effect_trans [OF here(1)] same_but_rates_trans [OF here(2)] res by auto
    qed
  qed
qed (simp add: idle_effect_def)

lemma idle_resend_peers:
  assumes "resend_peers tNow bufs n = (n', evs)" and "linked n p hp"
    and "\<And>sb. (p, sb) \<in> set bufs \<Longrightarrow> send_inv fs sb" and "\<forall>f \<in> set fs. 5 \<le> fst f"
  shows "idle_effect p hp fs n n' evs"
  using assms
proof (induction tNow bufs n arbitrary: n' evs rule: resend_peers.induct)
  case (2 tNow q sb rest n)
  let ?n = "put_rates q (rates_of n q) n"
  obtain n1 evs1 where 1: "resend_loop tNow (resend_timeout (rates_of ?n q)) q MAX_RESEND_AT_ONCE (m_data sb) ?n = (n1, evs1)"
    by fastforce
  obtain n2 evs2 where 2: "resend_peers tNow rest n1 = (n2, evs2)" by fastforce
  have res: "n' = n2" "evs = evs1 @ evs2"
    using "2.prems"(1) 1 2 by (simp_all add: Let_def)
  have i0: "idle_effect p hp fs n ?n []"
    using "2.prems"(2) by (intro idle_effect_put_rates) (auto simp: linked_def)
  have "\<exists>f. frag_at fs seq = Some f \<and> payload_is pl f \<and> 5 \<le> fst f" if qp: "q = p" and pl: "(seq, pl) \<in> set (m_data sb)" for seq pl
  proof -
    have inv: "send_inv fs sb" using "2.prems"(3) qp by simp
    then obtain f where "frag_at fs seq = Some f" "payload_is pl f"
      using pl std.all_entries_lookup [of "\<lambda>seq p. \<exists>f. frag_at fs seq = Some f \<and> payload_is p f" "m_data sb" seq pl]
        in_set_map_of [of "m_data sb" seq pl]
      by (auto simp: send_inv_def)
    moreover then have "f \<in> set fs" by (auto simp: frag_at_def split: if_splits)
    ultimately show ?thesis using "2.prems"(4) by auto
  qed
  then have i1: "idle_effect p hp fs ?n n1 evs1"
    using idle_resend_loop [OF 1] i0 by (fastforce simp: idle_effect_def)
  then have "idle_effect p hp fs n1 n2 evs2"
    using "2.IH" [OF refl 1 [symmetric] refl 2] "2.prems"(3,4) by (auto simp: idle_effect_def)
  then show ?case
    using idle_effect_trans [OF idle_effect_trans [OF i0 i1]] res by simp
qed (simp add: idle_effect_def)

lemma idle_resendTimer:
  assumes "onResendTimer tNow n = (n', evs)" and "linked n p hp" and "send_inv fs (send_of n p)"
    and "\<forall>f \<in> set fs. 5 \<le> fst f"
  shows "idle_effect p hp fs n n' evs"
proof -
  have "send_inv fs sb" if "(p, sb) \<in> set (m_sendBuffer n)" for sb
    using that assms(2,3) by (simp add: linked_def in_set_map_of send_of_def)
  then show ?thesis
    using idle_resend_peers [OF _ assms(2) _ assms(4)] assms(1) by (simp add: onResendTimer_def)
qed

lemma test_data_length: "test_data b sz = Some d \<Longrightarrow> length d = unat sz \<and> 4 \<le> unat sz"
  by (auto simp: test_data_def Let_def test_pattern_def word_less_nat_alt word_le_nat_alt not_less split: if_splits)

lemma good_test:
  "length d = unat sz \<Longrightarrow> 4 \<le> unat sz \<Longrightarrow> good_datagram fs acked (packet ACTION_PACKSIZE_TEST sz d)"
  by (auto simp: good_datagram_def packet_def action_defs data_packet_def)

lemma idle_ping_loop:
  assumes "ping_loop tNow d peers n = (n', evs, lost)" and "linked n p hp" and "length d = 16"
  shows "idle_effect p hp fs n n' evs"
  using assms
proof (induction tNow d peers n arbitrary: n' evs lost rule: ping_loop.induct)
  case (2 tNow d hp' q rest n)
  let ?stats = "rates_of n q" and ?n = "put_rates q (rates_of n q) n"
  let ?dead = "timestampLastPingAck ?stats > 0 \<and> tNow - timestampLastPingAck ?stats > DEAD_PEER_TIMEOUT \<or>
            timestampLastPingAck ?stats = 0 \<and> timestampFirstPing ?stats > 0 \<and>
            tNow - timestampFirstPing ?stats > DEAD_PEER_TIMEOUT"
  have i0: "idle_effect p hp fs n ?n []"
    using "2.prems"(2) by (intro idle_effect_put_rates) (auto simp: linked_def)
  show ?case
  proof (cases ?dead)
    case True
    obtain n1 evs1 lost1 where 1: "ping_loop tNow d rest ?n = (n1, evs1, lost1)"
      by (cases "ping_loop tNow d rest ?n") auto
    have "idle_effect p hp fs ?n n1 evs1"
      using "2.IH"(1) [OF refl refl True 1] i0 "2.prems"(3) by (simp add: idle_effect_def)
    then show ?thesis
      using idle_effect_trans [OF i0] True 1 "2.prems"(1) by (simp add: Let_def)
  next
    case False
    define stats where "stats = (if timestampFirstPing ?stats = 0 then ?stats\<lparr>timestampFirstPing := tNow\<rparr> else ?stats)"
    define n1 where "n1 = put_rates q (stats\<lparr>timestampLastPing := tNow\<rparr>) ?n"
    obtain n2 evs2 lost2 where 2: "ping_loop tNow d rest n1 = (n2, evs2, lost2)"
      by (cases "ping_loop tNow d rest n1") auto
    have i1: "idle_effect p hp fs ?n n1 []"
      unfolding n1_def using i0 by (intro idle_effect_put_rates) (auto simp: stats_def idle_effect_def linked_def)
    have m: "idle_effect p hp fs n1 n1 (sendMessage n1 q ACTION_PACKSIZE_TEST PING_PACKET_SIZE d 1)"
      using i1 "2.prems"(3) by (intro idle_effect_message good_test) (auto simp: idle_effect_def PING_PACKET_SIZE_def)
    have "idle_effect p hp fs n1 n2 evs2"
      using "2.IH"(2) [OF refl refl False stats_def n1_def 2] i1 "2.prems"(3) by (simp add: idle_effect_def)
    moreover have "n' = n2" "evs = sendMessage n1 q ACTION_PACKSIZE_TEST PING_PACKET_SIZE d 1 @ evs2"
      using "2.prems"(1) 2
      unfolding ping_loop.simps Let_def if_not_P [OF False] stats_def [symmetric] n1_def [symmetric] by simp_all
    ultimately show ?thesis
      using idle_effect_trans [OF idle_effect_trans [OF idle_effect_trans [OF i0 i1] m]] by simp
  qed
qed (simp add: idle_effect_def)

section \<open>The system\<close>

text \<open>
  The two ends are \<open>False\<close> and \<open>True\<close>. \<open>net s\<close> are the datagrams end \<open>s\<close> has written to the other end, \<open>sent s\<close> the
  reliable messages it accepted for it, \<open>got s\<close> the reliable messages its handler was given.
\<close>

record link =
  nodes :: "bool \<Rightarrow> TafnetNode"
  net :: "bool \<Rightarrow> bytestring set"
  sent :: "bool \<Rightarrow> (byte \<times> bytestring) list"
  got :: "bool \<Rightarrow> (byte \<times> bytestring) list"

definition link_update ::
  "(bool \<Rightarrow> u32) \<Rightarrow> (bool \<Rightarrow> HostAndPort) \<Rightarrow> bool \<Rightarrow> (byte \<times> bytestring) list \<Rightarrow> TafnetNode \<times> net_event list \<Rightarrow> link \<Rightarrow> link" where
  "link_update pid addr s msgs r S = (case r of (n', evs) \<Rightarrow>
     S\<lparr>nodes := (nodes S)(s := n'), net := (net S)(s := net S s \<union> wire (addr (\<not> s)) evs),
       sent := (sent S)(s := sent S s @ msgs), got := (got S)(s := got S s @ delivered (pid (\<not> s)) evs)\<rparr>)"

text \<open>
  One step of one end \<open>s\<close>: a reliable or unreliable message is sent to the other end, a datagram of the other end
  arrives, a timer fires. A reliable message is not empty (\<open>forwardGameData\<close> sends nothing for an
  empty one) and leaves room in the 32-bit sequence numbers. Pinging is included as long as no peer is given up.
\<close>

inductive link_step :: "(bool \<Rightarrow> u32) \<Rightarrow> (bool \<Rightarrow> HostAndPort) \<Rightarrow> link \<Rightarrow> link \<Rightarrow> bool" for pid addr where
  send: "forwardGameData tNow (pid (\<not> s)) (ucast action) m (nodes S s) = Inr r \<Longrightarrow>
     data_action action \<Longrightarrow> action \<noteq> 8 \<Longrightarrow> m \<noteq> [] \<Longrightarrow> length m < 2 ^ 31 \<Longrightarrow>
     unat (m_nextPushSeq (send_of (nodes S s) (pid (\<not> s)))) + length m < 2 ^ 32 - 1 \<Longrightarrow>
     link_step pid addr S (link_update pid addr s [(action, m)] r S)"
| send_unreliable: "forwardGameData tNow (pid (\<not> s)) action m (nodes S s) = Inr r \<Longrightarrow> action < ACTION_TCP_DATA \<Longrightarrow>
     link_step pid addr S (link_update pid addr s [] r S)"
| receive: "d \<in> net S (\<not> s) \<Longrightarrow> onDatagram tNow (addr (\<not> s)) d (nodes S s) = Inr r \<Longrightarrow>
     link_step pid addr S (link_update pid addr s [] r S)"
| resend_timer: "link_step pid addr S (link_update pid addr s [] (onResendTimer tNow (nodes S s)) S)"
| reenable_timer: "link_step pid addr S (link_update pid addr s [] (onResendReqReenableTimer (nodes S s), []) S)"
| ping: "ping_loop tNow d (m_peerPlayerIds (nodes S s)) (nodes S s) = (n', evs, []) \<Longrightarrow>
     test_data PING_PACKET_SIZE PING_PACKET_SIZE = Some d \<Longrightarrow>
     link_step pid addr S (link_update pid addr s [] (n', evs) S)"
| packsize_tests: "sendPacksizeTests tNow (pid (\<not> s)) (nodes S s) = Some (Inr r) \<Longrightarrow>
     link_step pid addr S (link_update pid addr s [] r S)"

inductive link_reach :: "(bool \<Rightarrow> u32) \<Rightarrow> (bool \<Rightarrow> HostAndPort) \<Rightarrow> link \<Rightarrow> link \<Rightarrow> bool" for pid addr S0 where
  start: "link_reach pid addr S0 S0"
| step: "link_reach pid addr S0 S \<Longrightarrow> link_step pid addr S S' \<Longrightarrow> link_reach pid addr S0 S'"

text \<open>Two fresh ends that know each other's address.\<close>

definition link_init :: "(bool \<Rightarrow> u32) \<Rightarrow> (bool \<Rightarrow> HostAndPort) \<Rightarrow> link \<Rightarrow> bool" where
  "link_init pid addr S = (\<forall>s. linked (nodes S s) (pid (\<not> s)) (addr (\<not> s)) \<and>
     send_of (nodes S s) (pid (\<not> s)) = DataBuffer_new \<and> recv_of (nodes S s) (pid (\<not> s)) = DataBuffer_new \<and>
     reasm_of (nodes S s) (pid (\<not> s)) = [] \<and> net S s = {} \<and> sent S s = [] \<and> got S s = [])"

section \<open>The invariant\<close>

text \<open>
  The direction from \<open>s\<close> to the other end: \<open>fs\<close> is the stream of fragments sent so far, \<open>np\<close> how many of them
  the receiver has taken out of its buffer.
\<close>

definition covered :: "fragment list \<Rightarrow> nat \<Rightarrow> DataBuffer \<Rightarrow> DataBuffer \<Rightarrow> bool" where
  "covered fs np sb rb = (\<forall>seq. frag_at fs seq \<noteq> None \<longrightarrow> map_of (m_data sb) seq \<noteq> None \<or> has_got np rb seq)"

lemma covered_mono:
  assumes "covered fs np sb rb"
    and "\<And>k. map_of (m_data sb) k \<noteq> None \<Longrightarrow> map_of (m_data sb') k \<noteq> None \<or> has_got np' rb' k"
    and "\<And>k. has_got np rb k \<Longrightarrow> has_got np' rb' k"
  shows "covered fs np' sb' rb'"
  using assms unfolding covered_def by blast

definition dir_inv :: "(bool \<Rightarrow> u32) \<Rightarrow> link \<Rightarrow> bool \<Rightarrow> fragment list \<Rightarrow> nat \<Rightarrow> bool" where
  "dir_inv pid S s fs np =
     (let sb = send_of (nodes S s) (pid (\<not> s)); rb = recv_of (nodes S (\<not> s)) (pid s) in
      no_wrap fs \<and> (\<forall>f \<in> set fs. data_action (fst f)) \<and> send_inv fs sb \<and> recv_inv fs np rb \<and> \<not> db_readyRead rb \<and>
      assemble [] fs = (sent S s, []) \<and>
      assemble [] (take np fs) = (got S (\<not> s), reasm_of (nodes S (\<not> s)) (pid s)) \<and>
      covered fs np sb rb)"

definition link_inv :: "(bool \<Rightarrow> u32) \<Rightarrow> (bool \<Rightarrow> HostAndPort) \<Rightarrow> link \<Rightarrow> (bool \<Rightarrow> fragment list) \<Rightarrow> (bool \<Rightarrow> nat) \<Rightarrow> bool" where
  "link_inv pid addr S fs np = (\<forall>s. linked (nodes S s) (pid (\<not> s)) (addr (\<not> s)) \<and> dir_inv pid S s (fs s) (np s) \<and>
     (\<forall>d \<in> net S s. good_datagram (fs s) (has_got (np (\<not> s)) (recv_of (nodes S s) (pid (\<not> s)))) d))"

lemma link_update_simps [simp]:
  "nodes (link_update pid addr s msgs (n', evs) S) = (nodes S)(s := n')"
  "net (link_update pid addr s msgs (n', evs) S) = (net S)(s := net S s \<union> wire (addr (\<not> s)) evs)"
  "sent (link_update pid addr s msgs (n', evs) S) = (sent S)(s := sent S s @ msgs)"
  "got (link_update pid addr s msgs (n', evs) S) = (got S)(s := got S s @ delivered (pid (\<not> s)) evs)"
  by (simp_all add: link_update_def)

lemma not_self [simp]: "(\<not> s) \<noteq> s" "s \<noteq> (\<not> s)" for s :: bool
  by auto

lemma link_invD:
  assumes "link_inv pid addr S fs np"
  shows "linked (nodes S s) (pid (\<not> s)) (addr (\<not> s))" "dir_inv pid S s (fs s) (np s)"
    "d \<in> net S s \<Longrightarrow> good_datagram (fs s) (has_got (np (\<not> s)) (recv_of (nodes S s) (pid (\<not> s)))) d"
  using assms by (auto simp: link_inv_def)

lemma link_invI:
  assumes "linked (nodes S s) (pid (\<not> s)) (addr (\<not> s))" "linked (nodes S (\<not> s)) (pid s) (addr s)"
    "dir_inv pid S s (fs s) (np s)" "dir_inv pid S (\<not> s) (fs (\<not> s)) (np (\<not> s))"
    "\<And>d. d \<in> net S s \<Longrightarrow> good_datagram (fs s) (has_got (np (\<not> s)) (recv_of (nodes S s) (pid (\<not> s)))) d"
    "\<And>d. d \<in> net S (\<not> s) \<Longrightarrow> good_datagram (fs (\<not> s)) (has_got (np s) (recv_of (nodes S (\<not> s)) (pid s))) d"
  shows "link_inv pid addr S fs np"
  unfolding link_inv_def
proof (intro allI)
  fix t :: bool
  consider "t = s" | "t = (\<not> s)" by blast
  then show "linked (nodes S t) (pid (\<not> t)) (addr (\<not> t)) \<and> dir_inv pid S t (fs t) (np t) \<and>
      (\<forall>d\<in>net S t. good_datagram (fs t) (has_got (np (\<not> t)) (recv_of (nodes S t) (pid (\<not> t)))) d)"
    using assms by cases auto
qed

lemma link_inv_idle:
  assumes "link_inv pid addr S fs np"
    and "idle_effect (pid (\<not> s)) (addr (\<not> s)) (fs s) (nodes S s) n' evs"
  shows "link_inv pid addr (link_update pid addr s [] (n', evs) S) fs np"
proof (rule link_invI [of _ s])
  note inv = link_invD [OF assms(1)]
  show "linked (nodes (link_update pid addr s [] (n', evs) S) s) (pid (\<not> s)) (addr (\<not> s))"
    "linked (nodes (link_update pid addr s [] (n', evs) S) (\<not> s)) (pid s) (addr s)"
    using assms(2) inv(1) [of "\<not> s"] by (simp_all add: idle_effect_def)
  show "dir_inv pid (link_update pid addr s [] (n', evs) S) s (fs s) (np s)"
    "dir_inv pid (link_update pid addr s [] (n', evs) S) (\<not> s) (fs (\<not> s)) (np (\<not> s))"
    using assms(2) inv(2) [of s] inv(2) [of "\<not> s"] by (simp_all add: dir_inv_def idle_effect_def)
  show "good_datagram (fs s) (has_got (np (\<not> s)) (recv_of (nodes (link_update pid addr s [] (n', evs) S) s) (pid (\<not> s)))) d"
    if "d \<in> net (link_update pid addr s [] (n', evs) S) s" for d
    using that assms(2) inv(3) [of d s] good_datagram_mono [of "fs s" "\<lambda>_. False" d _ "[]"]
    by (auto simp: idle_effect_def)
  show "good_datagram (fs (\<not> s)) (has_got (np s) (recv_of (nodes (link_update pid addr s [] (n', evs) S) (\<not> s)) (pid s))) d"
    if "d \<in> net (link_update pid addr s [] (n', evs) S) (\<not> s)" for d
    using that inv(3) [of d "\<not> s"] by simp
qed

lemma link_inv_ack:
  assumes "link_inv pid addr S fs np" and "has_got (np s) (recv_of (nodes S (\<not> s)) (pid s)) seq"
    and "onDatagram tNow (addr (\<not> s)) (data_packet seq (6, [])) (nodes S s) = Inr (n', evs)"
  shows "link_inv pid addr (link_update pid addr s [] (n', evs) S) fs np"
proof (rule link_invI [of _ s])
  note inv = link_invD [OF assms(1)]
  note e = ack_effect [OF inv(1) assms(3)]
  let ?S = "link_update pid addr s [] (n', evs) S"
  show "linked (nodes ?S s) (pid (\<not> s)) (addr (\<not> s))" "linked (nodes ?S (\<not> s)) (pid s) (addr s)"
    using e inv(1) [of "\<not> s"] by simp_all
  show "dir_inv pid ?S (\<not> s) (fs (\<not> s)) (np (\<not> s))"
    using e inv(2) [of "\<not> s"] by (simp add: dir_inv_def)
  have d: "dir_inv pid S s (fs s) (np s)" by (rule inv(2))
  have "covered (fs s) (np s) (send_of n' (pid (\<not> s))) (recv_of (nodes S (\<not> s)) (pid s))"
  proof (rule covered_mono)
    show "covered (fs s) (np s) (send_of (nodes S s) (pid (\<not> s))) (recv_of (nodes S (\<not> s)) (pid s))"
      using d by (simp add: dir_inv_def Let_def)
    show "map_of (m_data (send_of n' (pid (\<not> s)))) k \<noteq> None \<or> has_got (np s) (recv_of (nodes S (\<not> s)) (pid s)) k"
      if "map_of (m_data (send_of (nodes S s) (pid (\<not> s)))) k \<noteq> None" for k
      using that assms(2) unfolding e(2) by (cases "k = seq") (simp_all add: db_ackData_def)
  qed
  moreover have "send_inv (fs s) (send_of n' (pid (\<not> s)))"
    using d unfolding e(2) by (intro send_inv_ack) (simp add: dir_inv_def Let_def)
  ultimately show "dir_inv pid ?S s (fs s) (np s)"
    using d by (simp add: dir_inv_def Let_def)
  show "good_datagram (fs s) (has_got (np (\<not> s)) (recv_of (nodes ?S s) (pid (\<not> s)))) d" if "d \<in> net ?S s" for d
    using that e inv(3) [of d s] by simp
  show "good_datagram (fs (\<not> s)) (has_got (np s) (recv_of (nodes ?S (\<not> s)) (pid s))) d" if "d \<in> net ?S (\<not> s)" for d
    using that inv(3) [of d "\<not> s"] by simp
qed

lemma link_inv_send:
  assumes "link_inv pid addr S fs np" and "sent_effect (pid (\<not> s)) (fs s) gs (nodes S s) n' evs"
    and "no_wrap (fs s @ gs)" and "\<forall>f \<in> set gs. data_action (fst f)" and "assemble [] gs = (msgs, [])"
  shows "link_inv pid addr (link_update pid addr s msgs (n', evs) S) (fs(s := fs s @ gs)) np"
proof (rule link_invI [of _ s])
  note inv = link_invD [OF assms(1)]
  let ?S = "link_update pid addr s msgs (n', evs) S" and ?p = "pid (\<not> s)"
  have fr: "send_frame ?p (nodes S s) n'" using assms(2) by (simp add: sent_effect_def)
  have d: "dir_inv pid S s (fs s) (np s)" "dir_inv pid S (\<not> s) (fs (\<not> s)) (np (\<not> s))" using inv(2) by auto
  show "linked (nodes ?S s) ?p (addr (\<not> s))"
    using inv(1) [of s] send_frameD [OF fr] by (simp add: linked_def)
  show "linked (nodes ?S (\<not> s)) (pid s) (addr s)" using inv(1) [of "\<not> s"] by simp
  have dg: "\<exists>hp seq f. e = Datagram hp (data_packet seq f)" if "e \<in> set evs" for e
    using that assms(2) unfolding sent_effect_def by blast
  then have none: "delivered ?p evs = []" by (intro delivered_datagrams) blast
  show "dir_inv pid ?S (\<not> s) ((fs(s := fs s @ gs)) (\<not> s)) (np (\<not> s))"
    using d(2) send_frameD [OF fr] none by (simp add: dir_inv_def)
  have "map_of (m_data (send_of n' ?p)) k \<noteq> None \<or> has_got (np s) (recv_of (nodes S (\<not> s)) (pid s)) k"
    if k: "frag_at (fs s @ gs) k \<noteq> None" for k
  proof (cases "unat k \<le> length (fs s)")
    case True
    then have "frag_at (fs s) k \<noteq> None" using k by (auto simp: frag_at_def split: if_splits)
    then show ?thesis using d(1) assms(2) unfolding dir_inv_def sent_effect_def covered_def Let_def by blast
  next
    case False
    then show ?thesis using k assms(2) by (auto simp: sent_effect_def frag_at_def split: if_splits)
  qed
  moreover have "take (np s) (fs s @ gs) = take (np s) (fs s)"
    using d(1) by (simp add: dir_inv_def recv_inv_def Let_def)
  moreover have "recv_inv (fs s @ gs) (np s) (recv_of (nodes S (\<not> s)) (pid s))"
    using d(1) recv_inv_extend by (simp add: dir_inv_def Let_def)
  moreover have "assemble [] (fs s @ gs) = (sent S s @ msgs, [])"
    using d(1) assms(5) by (simp add: assemble_append dir_inv_def Let_def)
  ultimately show "dir_inv pid ?S s ((fs(s := fs s @ gs)) s) (np s)"
    using d(1) assms(2-4) by (auto simp: dir_inv_def sent_effect_def covered_def Let_def)
  show "good_datagram ((fs(s := fs s @ gs)) s) (has_got (np (\<not> s)) (recv_of (nodes ?S s) ?p)) x"
    if x: "x \<in> net ?S s" for x
  proof (cases "x \<in> net S s")
    case True
    then show ?thesis
      using good_datagram_mono [OF inv(3) [OF True], of _ gs] send_frameD(1) [OF fr] by simp
  next
    case False
    then have "Datagram (addr (\<not> s)) x \<in> set evs" using x by (simp add: wire_def)
    then show ?thesis using assms(2) by (fastforce simp: sent_effect_def good_datagram_def)
  qed
  show "good_datagram ((fs(s := fs s @ gs)) (\<not> s)) (has_got (np s) (recv_of (nodes ?S (\<not> s)) (pid s))) x"
    if "x \<in> net ?S (\<not> s)" for x
    using that inv(3) [of x "\<not> s"] by simp
qed

lemma link_inv_data:
  assumes "link_inv pid addr S fs np" and "frag_at (fs (\<not> s)) seq = Some f"
    and "onDatagram tNow (addr (\<not> s)) (data_packet seq f) (nodes S s) = Inr (n', evs)"
  shows "\<exists>m. link_inv pid addr (link_update pid addr s [] (n', evs) S) fs (np(\<not> s := m))"
proof -
  note inv = link_invD [OF assms(1)]
  let ?S = "link_update pid addr s [] (n', evs) S" and ?p = "pid (\<not> s)"
  let ?rb = "recv_of (nodes S s) ?p"
  have d: "dir_inv pid S s (fs s) (np s)" "dir_inv pid S (\<not> s) (fs (\<not> s)) (np (\<not> s))" using inv(2) by auto
  have r: "recv_inv (fs (\<not> s)) (np (\<not> s)) ?rb" "no_wrap (fs (\<not> s))" "\<forall>g \<in> set (fs (\<not> s)). data_action (fst g)"
    "assemble [] (take (np (\<not> s)) (fs (\<not> s))) = (got S s, reasm_of (nodes S s) ?p)"
    using d(2) by (simp_all add: dir_inv_def Let_def)
  obtain m where l: "linked n' ?p (addr (\<not> s))" and snd: "send_of n' ?p = send_of (nodes S s) ?p"
    and rv: "recv_inv (fs (\<not> s)) m (recv_of n' ?p)" "\<not> db_readyRead (recv_of n' ?p)"
      "assemble [] (take m (fs (\<not> s))) = (got S s @ delivered ?p evs, reasm_of n' ?p)"
    and hg: "\<forall>k. has_got m (recv_of n' ?p) k \<longleftrightarrow> k = seq \<or> has_got (np (\<not> s)) ?rb k"
    and w: "\<forall>x \<in> wire (addr (\<not> s)) evs. good_datagram (fs s) (\<lambda>k. k = seq) x"
    using data_effect [OF inv(1) [of s] r assms(2), of tNow "fs s"] assms(3) by auto
  have "link_inv pid addr ?S fs (np(\<not> s := m))"
  proof (rule link_invI [of _ s])
    show "linked (nodes ?S s) ?p (addr (\<not> s))" "linked (nodes ?S (\<not> s)) (pid s) (addr s)"
      using l inv(1) [of "\<not> s"] by simp_all
    show "dir_inv pid ?S s (fs s) ((np(\<not> s := m)) s)"
      using d(1) snd by (simp add: dir_inv_def)
    show "dir_inv pid ?S (\<not> s) (fs (\<not> s)) ((np(\<not> s := m)) (\<not> s))"
      using d(2) rv hg
      by (auto simp: dir_inv_def Let_def
          intro!: covered_mono [of "fs (\<not> s)" "np (\<not> s)" "send_of (nodes S (\<not> s)) (pid s)" "recv_of (nodes S s) (pid (\<not> s))"])
    show "good_datagram (fs s) (has_got ((np(\<not> s := m)) (\<not> s)) (recv_of (nodes ?S s) ?p)) x" if x: "x \<in> net ?S s" for x
    proof (cases "x \<in> net S s")
      case True
      then show ?thesis using good_datagram_mono [OF inv(3) [OF True], of _ "[]"] hg by simp
    next
      case False
      then show ?thesis using x w good_datagram_mono [of "fs s" "\<lambda>k. k = seq" x _ "[]"] hg by auto
    qed
    show "good_datagram (fs (\<not> s)) (has_got ((np(\<not> s := m)) s) (recv_of (nodes ?S (\<not> s)) (pid s))) x"
      if "x \<in> net ?S (\<not> s)" for x
      using that inv(3) [of x "\<not> s"] by simp
  qed
  then show ?thesis by blast
qed

section \<open>Every step keeps the invariant\<close>

lemma frags_of_actions:
  "f \<in> set (frags_of action sz m) \<Longrightarrow> fst f = ucast action \<or> fst f = 8"
proof (induction action sz m rule: frags_of.induct)
  case (1 action sz m)
  then show ?case
    by (cases "m = [] \<or> sz = 0") (auto simp: frags_of.simps [of action sz m] action_defs split: if_splits)
qed

lemma forward_reliable:
  assumes "linked n p hp" and "send_inv fs (send_of n p)" and "no_wrap fs" and "data_action action" and "action \<noteq> 8"
    and "m \<noteq> []" and "length m < 2 ^ 31" and "unat (m_nextPushSeq (send_of n p)) + length m < 2 ^ 32 - 1"
  shows "\<exists>n' evs gs. forwardGameData tNow p (ucast action) m n = Inr (n', evs) \<and> sent_effect p fs gs n n' evs \<and>
    no_wrap (fs @ gs) \<and> (\<forall>f \<in> set gs. data_action (fst f)) \<and> assemble [] gs = ([(action, m)], [])"
proof -
  let ?n = "put_rates p (rates_of n p) (put_send p (send_of n p) n)"
  have known: "map_of (m_peerAddresses n) p = Some hp" and nego: "maxPacketSize (rates_of n p) + 1 \<noteq> 0"
    using assms(1) by (auto simp: linked_def eq_neg_iff_add_eq_0)
  have act: "ACTION_TCP_DATA \<le> ucast action"
    using assms(4) by (simp add: action_defs ucast_byte_simps data_action_def)
  obtain sz where sz: "fragment_size (maxPacketSize (rates_of n p)) (m_maxPacketSize n) (of_nat (length m)) = Some sz"
    using nego by (simp add: fragment_size_def Let_def)
  have "unat (of_nat (length m) :: u32) < 2 ^ 31"
    using assms(7) by (simp add: unsigned_of_nat take_bit_nat_eq_self)
  then have pos: "0 < unat sz" using fragment_size_bounds(1) [OF sz] by simp
  let ?gs = "frags_of (ucast action) (unat sz) m"
  obtain n' evs where sf: "send_fragments tNow p (ucast action) (unat sz) m ?n = (n', evs)" by fastforce
  have "unat (m_nextPushSeq (send_of n p)) = Suc (length fs)"
    using assms(2) unat_seq [OF assms(3), of "length fs"] by (simp add: send_inv_def)
  then have wrap: "no_wrap (fs @ ?gs)"
    using assms(8) length_frags_of [of "ucast action" "unat sz" m] by (simp add: no_wrap_def)
  have "sent_effect p fs ?gs ?n n' evs"
    using sent_effect_fragments [OF sf _ wrap act] assms(2) by simp
  moreover have "send_frame p n ?n"
    by (rule send_frame_trans [OF send_frame_put_send send_frame_put_rates]) simp
  ultimately have "sent_effect p fs ?gs n n' evs"
    by (auto simp: sent_effect_def intro: send_frame_trans)
  moreover have "forwardGameData tNow p (ucast action) m n = Inr (n', evs)"
    using known act sz sf by (simp add: forwardGameData_def Let_def)
  moreover have "data_action (fst f)" if "f \<in> set ?gs" for f
    using frags_of_actions [OF that] assms(4) by (auto simp: data_action_def)
  moreover have "assemble [] ?gs = ([(action, m)], [])"
    using assemble_frags_of [of "ucast action" m "unat sz" "[]"] assms(5,6) pos by (simp add: action_defs)
  ultimately show ?thesis using wrap by blast
qed

text \<open>A datagram of the other end never runs into an error, and keeps the invariant.\<close>

lemma link_receive:
  assumes "link_inv pid addr S fs np" and "d \<in> net S (\<not> s)"
  shows "\<exists>r np'. onDatagram tNow (addr (\<not> s)) d (nodes S s) = Inr r \<and>
    link_inv pid addr (link_update pid addr s [] r S) fs np'"
proof -
  note inv = link_invD [OF assms(1)]
  have l: "linked (nodes S s) (pid (\<not> s)) (addr (\<not> s))" by (rule inv(1))
  have d: "dir_inv pid S s (fs s) (np s)" "dir_inv pid S (\<not> s) (fs (\<not> s)) (np (\<not> s))" by (rule inv(2))+
  have five: "\<forall>f \<in> set (fs s). 5 \<le> fst f"
    using d(1) by (auto simp: dir_inv_def data_action_def Let_def)
  have idle: "\<exists>r np'. onDatagram tNow (addr (\<not> s)) d (nodes S s) = Inr r \<and>
      link_inv pid addr (link_update pid addr s [] r S) fs np'"
    if "onDatagram tNow (addr (\<not> s)) d (nodes S s) = Inr (n', evs)"
      "idle_effect (pid (\<not> s)) (addr (\<not> s)) (fs s) (nodes S s) n' evs" for n' evs
    using link_inv_idle [OF assms(1) that(2)] that(1) by blast
  have "good_datagram (fs (\<not> s)) (has_got (np s) (recv_of (nodes S (\<not> s)) (pid s))) d"
    using inv(3) [OF assms(2)] by simp
  then consider (data) seq f where "d = data_packet seq f" "frag_at (fs (\<not> s)) seq = Some f"
    | (ack) seq where "d = data_packet seq (6, [])" "has_got (np s) (recv_of (nodes S (\<not> s)) (pid s)) seq"
    | (req) seq where "d = data_packet seq (7, [])"
    | (test) sz m where "d = data_packet sz (11, m)" "unat sz = length m" "4 \<le> length m"
    | (test_ack) sz where "d = data_packet sz (12, [])" "sz \<noteq> - 1"
    | (other) a m where "d = a # m" "a < 5"
    unfolding good_datagram_def by blast
  then show ?thesis
  proof cases
    case data
    obtain r where "onDatagram tNow (addr (\<not> s)) d (nodes S s) = Inr r"
      using data_effect [OF l _ _ _ _ data(2), of "np (\<not> s)"] d(2) by (fastforce simp: dir_inv_def Let_def data(1))
    then show ?thesis using link_inv_data [OF assms(1) data(2)] data(1) by (metis surj_pair)
  next
    case ack
    then show ?thesis
      using link_inv_ack [OF assms(1) ack(2)] onDatagram_data_packet [OF l, of "(6, [])"]
      by (cases "onTcpAck (pid (\<not> s)) seq (touched (pid (\<not> s)) (nodes S s))") (simp, blast)
  next
    case req
    then show ?thesis
      using idle_resend_request [OF l _ five] d(1) onDatagram_data_packet [OF l, of "(7, [])"] idle
      by (cases "onTcpResend (pid (\<not> s)) seq (touched (pid (\<not> s)) (nodes S s))") (simp add: dir_inv_def Let_def)
  next
    case test
    then show ?thesis using idle_packsize_test [OF l test(2,3)] idle by blast
  next
    case test_ack
    then show ?thesis
      using idle_packsize_ack [OF l test_ack(2)] onDatagram_data_packet [OF l, of "(12, [])"] idle
      by (cases "onPacksizeAck tNow (pid (\<not> s)) sz (touched (pid (\<not> s)) (nodes S s))") simp
  next
    case other
    obtain n' evs where res: "onDatagram tNow (addr (\<not> s)) d (nodes S s) = Inr (n', evs)"
      using onDatagram_from [OF l, of d tNow] other
      by (cases "onOtherData (pid (\<not> s)) d (touched (pid (\<not> s)) (nodes S s))")
         (simp add: action_defs ucast_byte_simps)
    then show ?thesis using idle [OF res] idle_other [OF l other(2)] other(1) by blast
  qed
qed

lemma idle_packsize_tests:
  assumes "sendPacksizeTests tNow q n = Some (Inr (n', evs))" and "linked n p hp"
  shows "idle_effect p hp fs n n' evs"
proof -
  define n1 where "n1 = put_rates q ((rates_of n q)\<lparr>maxPacketSize := MAX_PACKET_SIZE_LOWER_LIMIT\<rparr>) n"
  obtain sizes ds where sizes: "those (map (test_data (m_maxPacketSize n1)) sizes) = Some ds"
    and n': "n' = put_rates q ((rates_of n1 q)\<lparr>timestampLastPing := tNow\<rparr>) n1"
    and evs: "evs = concat (map (\<lambda>(sz, d). sendMessage n1 q ACTION_PACKSIZE_TEST sz d 3) (zip sizes ds))"
    using assms(1) by (auto simp: sendPacksizeTests_def n1_def Let_def bind_eq_Some_conv split: option.splits)
  have "map Some ds = map (test_data (m_maxPacketSize n1)) sizes"
    using sizes by (induction sizes arbitrary: ds) (auto split: option.splits simp: map_eq_Cons_conv)
  then have zip: "test_data (m_maxPacketSize n1) sz = Some d" if "(sz, d) \<in> set (zip sizes ds)" for sz d
    using that by (auto simp: in_set_zip) (metis length_map nth_map)
  have i1: "idle_effect p hp fs n n1 []"
    unfolding n1_def using assms(2) by (intro idle_effect_put_rates) (auto simp: MAX_PACKET_SIZE_LOWER_LIMIT_def)
  then have l1: "linked n1 p hp" by (simp add: idle_effect_def)
  have "idle_effect p hp fs n1 n1 (concat (map (\<lambda>(sz, d). sendMessage n1 q ACTION_PACKSIZE_TEST sz d 3) xs))"
    if "\<forall>(sz, d) \<in> set xs. test_data (m_maxPacketSize n1) sz = Some d" for xs
    using that
  proof (induction xs)
    case (Cons x xs)
    obtain sz d where x: "x = (sz, d)" by fastforce
    then have "idle_effect p hp fs n1 n1 (sendMessage n1 q ACTION_PACKSIZE_TEST sz d 3)"
      using Cons.prems test_data_length by (intro idle_effect_message [OF l1] good_test) auto
    then show ?case using Cons idle_effect_trans x by fastforce
  qed (use l1 in \<open>simp add: idle_effect_def\<close>)
  then have i2: "idle_effect p hp fs n1 n1 evs" using zip by (auto simp: evs)
  have "idle_effect p hp fs n1 n' []"
    unfolding n' using l1 by (intro idle_effect_put_rates) (auto simp: linked_def)
  then show ?thesis
    using idle_effect_trans [OF idle_effect_trans [OF i1 i2]] by fastforce
qed

lemma idle_reenable:
  "linked n p hp \<Longrightarrow> idle_effect p hp fs n (onResendReqReenableTimer n) []"
  by (simp add: idle_effect_def linked_def onResendReqReenableTimer_def send_of_def recv_of_def reasm_of_def rates_of_def)

lemma link_step_inv:
  assumes "link_step pid addr S S'" and "link_inv pid addr S fs np"
  shows "\<exists>fs' np'. link_inv pid addr S' fs' np'"
  using assms(1)
proof cases
  note inv = link_invD [OF assms(2)]
  have dir: "send_inv (fs s) (send_of (nodes S s) (pid (\<not> s)))" "no_wrap (fs s)" "\<forall>f \<in> set (fs s). 5 \<le> fst f" for s
    using inv(2) [of s] by (auto simp: dir_inv_def data_action_def Let_def)
  {
    case (send tNow s action m r)
    obtain n' evs gs where "r = (n', evs)" "sent_effect (pid (\<not> s)) (fs s) gs (nodes S s) n' evs" "no_wrap (fs s @ gs)"
      "\<forall>f \<in> set gs. data_action (fst f)" "assemble [] gs = ([(action, m)], [])"
      using forward_reliable [OF inv(1) dir(1,2) send(3-7), of tNow] send(2) by auto
    then show ?thesis using link_inv_send [OF assms(2)] send(1) by blast
  next
    case (send_unreliable tNow s action m r)
    then show ?thesis
      using idle_forward [OF inv(1), of action] link_inv_idle [OF assms(2)] by (metis surj_pair)
  next
    case (receive d s tNow r)
    then show ?thesis using link_receive [OF assms(2) receive(2), of tNow] by auto
  next
    case (resend_timer s tNow)
    then show ?thesis
      using idle_resendTimer [OF _ inv(1) dir(1,3)] link_inv_idle [OF assms(2)] by (metis surj_pair)
  next
    case (reenable_timer s)
    then show ?thesis using idle_reenable [OF inv(1)] link_inv_idle [OF assms(2)] by blast
  next
    case (ping tNow d s n' evs)
    have "length d = 16" using test_data_length [OF ping(3)] by (simp add: PING_PACKET_SIZE_def)
    then show ?thesis using idle_ping_loop [OF ping(2) inv(1)] link_inv_idle [OF assms(2)] ping(1) by blast
  next
    case (packsize_tests tNow s r)
    then show ?thesis
      using idle_packsize_tests [OF _ inv(1)] link_inv_idle [OF assms(2)] by (metis surj_pair)
  }
qed

lemma link_init_inv:
  assumes "link_init pid addr S"
  shows "link_inv pid addr S (\<lambda>_. []) (\<lambda>_. 0)"
proof -
  have here: "linked (nodes S s) (pid (\<not> s)) (addr (\<not> s))" "send_of (nodes S s) (pid (\<not> s)) = DataBuffer_new"
    "net S s = {}" "sent S s = []" "got S s = []" for s
    using assms by (auto simp: link_init_def)
  have there: "recv_of (nodes S (\<not> s)) (pid s) = DataBuffer_new" "reasm_of (nodes S (\<not> s)) (pid s) = []" for s
    using assms [unfolded link_init_def, rule_format, of "\<not> s"] by simp_all
  have "\<not> db_readyRead DataBuffer_new"
    by (simp add: db_readyRead_def DataBuffer_new_def)
  then show ?thesis
    by (auto simp: link_inv_def dir_inv_def no_wrap_def covered_def frag_at_def Let_def here there)
qed

lemma link_reach_inv:
  assumes "link_reach pid addr S0 S" and "link_init pid addr S0"
  shows "\<exists>fs np. link_inv pid addr S fs np"
  using assms by induction (blast intro: link_init_inv, blast dest: link_step_inv)

section \<open>What the link guarantees\<close>

lemma assemble_take_prefix: "prefix (fst (assemble [] (take n fs))) (fst (assemble [] fs))"
  using assemble_append [of "[]" "take n fs" "drop n fs"]
  by (cases "assemble [] (take n fs)") (auto simp: prefix_def split: prod.splits)

text \<open>
  C1. Reliable delivery: over a network that may lose, duplicate and reorder datagrams, the reliable messages
  the handler of one end receives are at every moment a prefix of the reliable messages the other end has
  sent: in order, each once, unaltered, however they were fragmented, and in both directions at the same time.
\<close>

theorem link_delivers_prefix:
  assumes "link_init pid addr S0" and "link_reach pid addr S0 S"
  shows "prefix (got S (\<not> s)) (sent S s)"
proof -
  obtain fs np where "link_inv pid addr S fs np"
    using link_reach_inv [OF assms(2,1)] by blast
  then have "assemble [] (fs s) = (sent S s, [])"
    "fst (assemble [] (take (np s) (fs s))) = got S (\<not> s)"
    using link_invD(2) [of pid addr S fs np s] by (auto simp: dir_inv_def Let_def)
  then show ?thesis using assemble_take_prefix [of "np s" "fs s"] by simp
qed

definition demo_addr :: "bool \<Rightarrow> HostAndPort" where
  "demo_addr s = (if s then HostAndPort 0x7f000001 6000 else HostAndPort 0x7f000001 5000)"

definition demo_pid :: "bool \<Rightarrow> u32" where
  "demo_pid s = (if s then 2 else 1)"

definition demo_node :: "bool \<Rightarrow> TafnetNode" where
  "demo_node s = (TafnetNode_new (demo_pid s) s False 1400)
     \<lparr>m_peerAddresses := [(demo_pid (\<not> s), demo_addr (\<not> s))], m_peerPlayerIds := [(demo_addr (\<not> s), demo_pid (\<not> s))]\<rparr>"

definition demo_link :: link where
  "demo_link = \<lparr>nodes = demo_node, net = (\<lambda>_. {}), sent = (\<lambda>_. []), got = (\<lambda>_. [])\<rparr>"

lemma demo_link_init: "link_init demo_pid demo_addr demo_link"
  by (auto simp: link_init_def demo_link_def linked_def demo_node_def TafnetNode_new_def send_of_def recv_of_def
      reasm_of_def rates_of_def ResendRate_new_def MAX_PACKET_SIZE_LOWER_LIMIT_def split: if_splits)

text \<open>One message of three bytes sent by end \<open>False\<close>.\<close>

lemma demo_send:
  "\<exists>r. forwardGameData 0 (demo_pid True) (ucast (5 :: byte)) [1, 2, 3] (demo_node False) = Inr r \<and>
    link_reach demo_pid demo_addr demo_link (link_update demo_pid demo_addr False [(5, [1, 2, 3])] r demo_link)"
proof -
  have inv: "link_inv demo_pid demo_addr demo_link (\<lambda>_. []) (\<lambda>_. 0)"
    by (rule link_init_inv [OF demo_link_init])
  have sb: "send_of (nodes demo_link False) (demo_pid True) = DataBuffer_new"
    by (simp add: demo_link_def demo_node_def TafnetNode_new_def send_of_def)
  obtain r where r: "forwardGameData 0 (demo_pid True) (ucast (5 :: byte)) [1, 2, 3] (nodes demo_link False) = Inr r"
    using forward_reliable [OF link_invD(1) [OF inv, of False], of "[]" 5 "[1, 2, 3]" 0] sb send_inv_new
    by (auto simp: data_action_def no_wrap_def) (auto simp: DataBuffer_new_def)
  then have "link_step demo_pid demo_addr demo_link (link_update demo_pid demo_addr False [(5, [1, 2, 3])] r demo_link)"
    using sb by (intro link_step.send [where s = False]) (auto simp: data_action_def DataBuffer_new_def)
  then show ?thesis using r link_reach.start link_reach.step by (fastforce simp: demo_link_def)
qed

theorem link_delivers_prefix_witness:
  "\<exists>S. link_reach demo_pid demo_addr demo_link S \<and> sent S False = [(5, [1, 2, 3])] \<and> prefix (got S True) (sent S False)"
proof -
  obtain n evs where "link_reach demo_pid demo_addr demo_link (link_update demo_pid demo_addr False [(5, [1, 2, 3])] (n, evs) demo_link)"
    using demo_send by auto
  then show ?thesis
    using link_delivers_prefix [OF demo_link_init, of _ False] by (fastforce simp: demo_link_def)
qed

lemma next_not_stored:
  assumes "recv_inv fs np rb" and "no_wrap fs" and "\<not> db_readyRead rb"
  shows "map_of (m_data rb) (m_nextPopSeq rb) = None"
proof (cases "m_data rb")
  case (Cons e m)
  obtain k p where e: "e = (k, p)" by fastforce
  have nxt: "m_nextPopSeq rb = of_nat (Suc np)" "unat (m_nextPopSeq rb) = Suc np"
    using assms(1) unat_seq [OF assms(2), of np] by (simp_all add: recv_inv_def)
  have "np < unat k" "k \<noteq> m_nextPopSeq rb"
    using assms(1,3) Cons e by (auto simp: recv_inv_def std.all_entries_def db_readyRead_def)
  then have "m_nextPopSeq rb < k"
    using nxt(2) by (metis Suc_lessI unsigned_word_eqI word_less_nat_alt)
  moreover have "\<forall>j \<in> fst ` set m. k < j" using assms(1) Cons e by (simp add: recv_inv_def)
  ultimately have "m_nextPopSeq rb \<notin> fst ` set (m_data rb)" using Cons e by fastforce
  then show ?thesis by (simp add: map_of_eq_None_iff)
qed simp

text \<open>
  C33. No message is lost: as long as the other end has not been given every message sent, the fragment it waits for
  next is still in the sender's buffer of unacknowledged fragments with its data, so that a resend request
  or the resend timer can send it again.
\<close>

theorem link_keeps_missing_fragment:
  assumes "link_init pid addr S0" and "link_reach pid addr S0 S" and "got S (\<not> s) \<noteq> sent S s"
  shows "\<exists>p. map_of (m_data (send_of (nodes S s) (pid (\<not> s)))) (m_nextPopSeq (recv_of (nodes S (\<not> s)) (pid s))) = Some p \<and>
    buf p \<noteq> None"
proof -
  obtain fs np where "link_inv pid addr S fs np"
    using link_reach_inv [OF assms(2,1)] by blast
  then have d: "dir_inv pid S s (fs s) (np s)" by (rule link_invD(2))
  let ?rb = "recv_of (nodes S (\<not> s)) (pid s)" and ?sb = "send_of (nodes S s) (pid (\<not> s))"
  have inv: "recv_inv (fs s) (np s) ?rb" "no_wrap (fs s)" "\<not> db_readyRead ?rb" "send_inv (fs s) ?sb"
    "covered (fs s) (np s) ?sb ?rb" "assemble [] (fs s) = (sent S s, [])"
    "fst (assemble [] (take (np s) (fs s))) = got S (\<not> s)"
    using d by (auto simp: dir_inv_def Let_def)
  have "np s \<noteq> length (fs s)" using inv(6,7) assms(3) by auto
  then have lt: "np s < length (fs s)" using inv(1) by (simp add: recv_inv_def)
  have nxt: "unat (m_nextPopSeq ?rb) = Suc (np s)"
    using inv(1) unat_seq [OF inv(2), of "np s"] by (simp add: recv_inv_def)
  then have "frag_at (fs s) (m_nextPopSeq ?rb) \<noteq> None" using lt by (simp add: frag_at_def)
  moreover have "\<not> has_got (np s) ?rb (m_nextPopSeq ?rb)"
    using nxt next_not_stored [OF inv(1-3)] by (simp add: has_got_def)
  ultimately obtain p where p: "map_of (m_data ?sb) (m_nextPopSeq ?rb) = Some p"
    using inv(5) unfolding covered_def by blast
  then show ?thesis
    using inv(4) by (auto simp: send_inv_def payload_is_def dest!: std.all_entries_lookup [of _ "m_data ?sb"])
qed

theorem link_keeps_missing_fragment_witness:
  "\<exists>(S :: link) p. sent S False = [(5, [1, 2, 3])] \<and>
     map_of (m_data (send_of (nodes S False) 2)) (m_nextPopSeq (recv_of (nodes S True) 1)) = Some p \<and> buf p \<noteq> None"
proof -
  obtain n evs where r: "link_reach demo_pid demo_addr demo_link (link_update demo_pid demo_addr False [(5, [1, 2, 3])] (n, evs) demo_link)"
    using demo_send by auto
  show ?thesis
    by (rule exI [of _ "link_update demo_pid demo_addr False [(5, [1, 2, 3])] (n, evs) demo_link"])
       (use link_keeps_missing_fragment [OF demo_link_init r, of False] in
         \<open>auto simp: demo_link_def demo_pid_def\<close>)
qed

text \<open>
  Two nodes never crash each other: in every reachable state every datagram on the way from one end is handled by the
  other without undefined behaviour, and every reliable message within the sequence-number space is accepted.
\<close>

theorem link_no_undefined:
  assumes "link_init pid addr S0" and "link_reach pid addr S0 S"
  shows "(\<forall>d \<in> net S (\<not> s). \<exists>r. onDatagram tNow (addr (\<not> s)) d (nodes S s) = Inr r) \<and>
    (\<forall>action m. data_action action \<and> action \<noteq> 8 \<and> m \<noteq> [] \<and> length m < 2 ^ 31 \<and>
       unat (m_nextPushSeq (send_of (nodes S s) (pid (\<not> s)))) + length m < 2 ^ 32 - 1 \<longrightarrow>
       (\<exists>r. forwardGameData tNow (pid (\<not> s)) (ucast action) m (nodes S s) = Inr r))"
proof -
  obtain fs np where inv: "link_inv pid addr S fs np"
    using link_reach_inv [OF assms(2,1)] by blast
  have "send_inv (fs s) (send_of (nodes S s) (pid (\<not> s)))" "no_wrap (fs s)"
    using link_invD(2) [OF inv, of s] by (auto simp: dir_inv_def Let_def)
  then show ?thesis
    using link_receive [OF inv] forward_reliable [OF link_invD(1) [OF inv]] by blast
qed

theorem link_no_undefined_witness:
  "\<exists>r. forwardGameData 7 2 5 [1, 2, 3] (demo_node False) = Inr r"
  using link_no_undefined [OF demo_link_init link_reach.start, of False 7]
  by (auto simp: demo_link_def demo_pid_def demo_node_def TafnetNode_new_def send_of_def DataBuffer_new_def
      data_action_def dest!: spec [of _ "5 :: byte"] spec [of _ "[1, 2, 3] :: bytestring"])

end
