(* ===== verification/Tafnet_Probes.thy ===== *)
theory Tafnet_Probes
  imports Tafnet_Link
begin

text \<open>
  The edges of the transport: the packet-size probes of \<open>sendPacksizeTests\<close> and their answers, and what a
  datagram that no well-behaved node would send does to \<open>onReadyRead\<close> and \<open>forwardGameData\<close>
  (\<open>libs/tafnet/TafnetNode.cpp\<close>).
\<close>

section \<open>Malformed datagrams\<close>

lemma drain_defined:
  assumes "std.all_entries (\<lambda>seq p. buf p \<noteq> None) (m_data rb)" and "std_ok (m_data rb)"
  shows "\<exists>x. drain p rb r e = Inr x"
  using assms
proof (induction p rb r e rule: drain.induct)
  case (1 p rb r e)
  show ?case
  proof (cases "db_readyRead rb")
    case False
    then show ?thesis by (simp add: drain.simps [of p rb])
  next
    case True
    then obtain k pl m where m: "m_data rb = (k, pl) # m" by (cases "m_data rb") (auto simp: db_readyRead_def)
    obtain rb' where pop: "db_pop rb = (pl, rb')" and m': "m_data rb' = m"
      using True m by (auto simp: db_pop_def)
    obtain s where s: "buf pl = Some s"
      using std.all_entries_lookup [OF "1.prems"(1), of k pl] m by auto
    have ok: "std_ok m" using "1.prems"(2) m by simp
    have "buf q \<noteq> None" if "map_of m j = Some q" for j q
    proof -
      have "j \<noteq> k" using "1.prems"(2) m that by (auto dest!: map_of_SomeD)
      then show ?thesis using std.all_entries_lookup [OF "1.prems"(1), of j q] m that by simp
    qed
    then have "std.all_entries (\<lambda>seq p. buf p \<noteq> None) (m_data rb')" by (simp add: std.all_entries_def m')
    then have "\<exists>x. drain p rb' [] True = Inr x" if "pl_action pl \<noteq> ucast ACTION_MORE"
      using "1.IH"(1) [of "(pl, rb')" pl rb' s] True pop s that ok m' by simp
    moreover have "\<exists>x. drain p rb' (r @ s) True = Inr x" if "pl_action pl = ucast ACTION_MORE"
      using "1.IH"(2) [of "(pl, rb')" pl rb' s] True pop s that ok m' \<open>std.all_entries _ (m_data rb')\<close> by simp
    ultimately show ?thesis
      using True pop s by (subst drain.simps) auto
  qed
qed

lemma onTcpData_undefined_iff:
  assumes "std.all_entries (\<lambda>seq p. buf p \<noteq> None) (m_data (recv_of n p))" and "std_ok (m_data (recv_of n p))"
  shows "onTcpData tNow p seq d n = Inl Undefined \<longleftrightarrow> length d < 5"
proof (cases "length d < 5")
  case False
  let ?rb = "db_insert tNow seq (d ! 0) (drop 5 d) (recv_of n p)"
  obtain k n1 where k: "resendRate_for False p n = (k, n1)" by fastforce
  have "std.all_entries (\<lambda>seq p. buf p \<noteq> None) (m_data ?rb)" "std_ok (m_data ?rb)"
    using assms by (simp_all add: db_insert_def std.all_entries_put Payload_set_def)
  then obtain rb r e evs where "drain p ?rb (reasm_of n1 p) (enabled_of n1 p) = Inr (rb, r, e, evs)"
    using drain_defined [of ?rb p] by (metis prod_cases4)
  then show ?thesis using False k by (simp add: onTcpData_def Let_def split: option.splits)
qed (simp add: onTcpData_def)

text \<open>
  Which datagrams from a known peer make \<open>onReadyRead\<close> read outside the datagram: exactly those with a buffered action
  that are shorter than the buffered header (4 bytes still read the terminator as part of the sequence
  number, unless the rest of the datagram is then taken as payload), and packet-size tests that announce
  fewer than the four bytes of their checksum.
\<close>

theorem onDatagram_undefined_iff:
  assumes "linked n p hp" and "std.all_entries (\<lambda>seq p. buf p \<noteq> None) (m_data (recv_of n p))"
    and "std_ok (m_data (recv_of n p))"
  shows "onDatagram tNow hp d n = Inl Undefined \<longleftrightarrow>
    d \<noteq> [] \<and> 5 \<le> d ! 0 \<and> (length d < 4 \<or> length d = 4 \<and> data_action (d ! 0) \<or>
      d ! 0 = 11 \<and> (\<exists>sz. load32 d 1 = Some sz \<and> sz < 4 \<and> length d = unat sz + 5))"
proof (cases "d \<noteq> [] \<and> 5 \<le> d ! 0")
  case False
  then show ?thesis
    using onDatagram_from [OF assms(1), of d tNow]
    by (cases "d = []") (auto simp: onDatagram_def action_defs ucast_byte_simps)
next
  case True
  then have from_peer: "onDatagram tNow hp d n = (case load32 d 1 of None \<Rightarrow> Inl Undefined | Some seq \<Rightarrow>
      if d ! 0 = 6 then Inr (onTcpAck p seq (touched p n)) else if d ! 0 = 7 then Inr (onTcpResend p seq (touched p n))
      else if d ! 0 = 11 then onPacksizeTest p seq d (touched p n)
      else if d ! 0 = 12 then Inr (onPacksizeAck tNow p seq (touched p n)) else onTcpData tNow p seq d (touched p n))"
    using onDatagram_from [OF assms(1), of d tNow]
    unfolding action_defs ucast_byte_simps by (auto simp: not_less)
  have none: "load32 d 1 = None \<longleftrightarrow> length d < 4"
    by (auto simp: load32_def byte_at_def split: option.splits if_splits)
  have data: "onTcpData tNow p seq d (touched p n) = Inl Undefined \<longleftrightarrow> length d < 5" for seq
    using onTcpData_undefined_iff [of "touched p n" p] assms(2,3) by simp
  have test: "onPacksizeTest p seq d (touched p n) = Inl Undefined \<longleftrightarrow> length d = unat seq + 5 \<and> seq < 4" for seq
    by (auto simp: onPacksizeTest_def load32_def byte_at_def word_less_nat_alt split: option.splits if_splits)
  show ?thesis
    using True none data test unfolding from_peer data_action_def
    by (cases "load32 d 1") auto
qed

theorem onDatagram_undefined_iff_witness:
  "onDatagram 0 (demo_addr True) [11, 0, 0, 0, 0] (demo_node False) = Inl Undefined \<and>
   onDatagram 0 (demo_addr True) [5] (demo_node False) = Inl Undefined"
proof -
  have l: "linked (demo_node False) (demo_pid True) (demo_addr True)"
    using link_invD(1) [OF link_init_inv [OF demo_link_init], of False] by (simp add: demo_link_def)
  have r: "recv_of (demo_node False) (demo_pid True) = DataBuffer_new"
    by (simp add: demo_node_def TafnetNode_new_def recv_of_def)
  note iff = onDatagram_undefined_iff [OF l, of 0]
  have "load32 [11, 0, 0, 0, 0] 1 = Some 0" by code_simp
  then show ?thesis
    using iff [of "[11, 0, 0, 0, 0]"] iff [of "[5]"] r
    by (simp add: std.all_entries_def DataBuffer_new_def)
qed

text \<open>
  An acknowledgement of a packet size is believed without a check: one that names the size
  \<open>2^32 - 1\<close> makes the next reliable message to that peer divide by zero; every other size leaves sending defined.
\<close>

theorem packsize_ack_division_by_zero:
  assumes "linked n p hp" and "onDatagram tNow hp (data_packet sz (12, [])) n = Inr (n', evs)"
    and "5 \<le> action"
  shows "forwardGameData t p action m n' = Inl (RuntimeError ''division by zero'') \<longleftrightarrow> sz = - 1"
proof -
  have "(n', evs) = onPacksizeAck tNow p sz (touched p n)"
    using assms by (simp add: onDatagram_data_packet)
  then have n': "map_of (m_peerAddresses n') p = Some hp"
    "maxPacketSize (rates_of n' p) = max (maxPacketSize (rates_of n p)) sz"
    using assms(1) by (auto simp: onPacksizeAck_def linked_def touched_def Let_def registerAck_def max_def)
  have "maxPacketSize (rates_of n p) < - 1"
    using assms(1) by (simp add: linked_def word_order.not_eq_extremum)
  then have "maxPacketSize (rates_of n' p) + 1 = 0 \<longleftrightarrow> sz = - 1"
    unfolding n'(2) by (auto simp: max_def eq_neg_iff_add_eq_0 [symmetric])
  then show ?thesis
    using assms(3) n'(1) by (auto simp: forwardGameData_def Let_def action_defs fragment_size_def)
qed

theorem packsize_ack_division_by_zero_witness:
  "\<exists>n'. onDatagram 0 (demo_addr True) (data_packet (- 1) (12, [])) (demo_node False) = Inr (n', []) \<and>
     forwardGameData 0 2 5 [1] n' = Inl (RuntimeError ''division by zero'')"
proof -
  have l: "linked (demo_node False) (demo_pid True) (demo_addr True)"
    using link_invD(1) [OF link_init_inv [OF demo_link_init], of False] by (simp add: demo_link_def)
  then obtain n' where n': "onDatagram 0 (demo_addr True) (data_packet (- 1) (12, [])) (demo_node False) = Inr (n', [])"
    by (simp add: onDatagram_data_packet onPacksizeAck_def Let_def)
  then show ?thesis
    using packsize_ack_division_by_zero [OF l n', of 5 0 "[1]"] by (simp add: demo_pid_def)
qed

section \<open>Packet size probes\<close>

lemma packsize_step:
  fixes sz limit :: u32
  assumes "250 \<le> unat sz" and "unat sz < unat limit" and "unat limit \<le> 3000000"
  shows "unat sz < unat (min (1412 * sz div 1000) limit)" "unat (min (1412 * sz div 1000) limit) \<le> unat limit"
proof -
  have "unat (1412 * sz div 1000) = 1412 * unat sz div 1000"
    using assms by (simp add: unat_div unat_word_ariths)
  then show "unat sz < unat (min (1412 * sz div 1000) limit)" "unat (min (1412 * sz div 1000) limit) \<le> unat limit"
    using assms by (auto simp: min_def word_le_nat_alt)
qed

lemma packsize_sizes_terminates:
  assumes "250 \<le> unat sz" and "unat sz \<le> unat limit" and "unat limit \<le> 3000000"
  shows "\<exists>szs. packsize_sizes limit sz = Some szs \<and> szs \<noteq> [] \<and> hd szs = sz \<and> last szs = limit \<and> sorted_wrt (<) szs \<and>
    (\<forall>x \<in> set szs. 250 \<le> unat x \<and> x \<le> limit)"
  using assms
proof (induction "unat limit - unat sz" arbitrary: sz rule: less_induct)
  case less
  show ?case
  proof (cases "sz \<ge> limit")
    case True
    then have "sz = limit" using less.prems(2) by (metis word_le_nat_alt order_antisym)
    then show ?thesis using less.prems by (subst packsize_sizes.simps) simp
  next
    case False
    let ?next = "min (1412 * sz div 1000) limit"
    have lt: "unat sz < unat limit" using False by (simp add: word_le_nat_alt)
    note step = packsize_step [OF less.prems(1) lt less.prems(3)]
    obtain szs where szs: "packsize_sizes limit ?next = Some szs" "szs \<noteq> []" "hd szs = ?next" "last szs = limit"
      "sorted_wrt (<) szs" "\<forall>x \<in> set szs. 250 \<le> unat x \<and> x \<le> limit"
      using less.hyps [of ?next] step less.prems(1,3) lt by fastforce
    have "sz < x" if "x \<in> set szs" for x
      using that szs(2,3,5) step(1) by (cases szs) (auto simp: word_less_nat_alt)
    then show ?thesis
      using False szs less.prems by (subst packsize_sizes.simps) (simp add: word_le_nat_alt)
  qed
qed

text \<open>
  The packet-size probing ends: with a limit between 250 and three million bytes the tests are sent with
  strictly growing sizes from 250 up to exactly the limit, nothing is read outside the test buffer, and every test, if it
  arrives intact at a peer whose own limit allows it, is answered with an acknowledgement of its size.
\<close>

theorem packsize_tests_answered:
  assumes "250 \<le> unat (m_maxPacketSize n)" and "unat (m_maxPacketSize n) \<le> 3000000"
  shows "\<exists>sizes. packsize_sizes (m_maxPacketSize n) 250 = Some sizes \<and> sorted_wrt (<) sizes \<and>
    hd sizes = 250 \<and> last sizes = m_maxPacketSize n \<and>
    (\<exists>r. sendPacksizeTests tNow p n = Some (Inr r)) \<and>
    (\<forall>sz \<in> set sizes. \<exists>d. test_data (m_maxPacketSize n) sz = Some d \<and>
       (\<forall>n2 q hp. linked n2 q hp \<and> sz \<le> m_maxPacketSize n2 \<longrightarrow>
          (\<exists>n3. onDatagram t hp (packet ACTION_PACKSIZE_TEST sz d) n2 = Inr (n3, sendMessage n3 q ACTION_PACKSIZE_ACK sz [] 1))))"
proof -
  let ?lim = "m_maxPacketSize n"
  obtain sizes where sizes: "packsize_sizes ?lim 250 = Some sizes" "hd sizes = 250" "last sizes = ?lim" "sorted_wrt (<) sizes"
    "\<forall>x \<in> set sizes. 250 \<le> unat x \<and> x \<le> ?lim"
    using packsize_sizes_terminates [of 250 ?lim] assms by auto
  have data: "\<exists>d. test_data ?lim sz = Some d" if "sz \<in> set sizes" for sz
    using that sizes(5) by (auto simp: test_data_def word_less_nat_alt word_le_nat_alt Let_def)
  have "\<exists>ds. those (map (test_data ?lim) xs) = Some ds" if "set xs \<subseteq> set sizes" for xs
    using that
  proof (induction xs)
    case (Cons x xs)
    then show ?case using data [of x] by auto
  qed simp
  then obtain ds where "those (map (test_data ?lim) sizes) = Some ds" by blast
  then have send: "\<exists>r. sendPacksizeTests tNow p n = Some (Inr r)"
    using sizes(1) by (simp add: sendPacksizeTests_def Let_def MAX_PACKET_SIZE_LOWER_LIMIT_def)
  have answer: "\<exists>n3. onDatagram t hp (packet ACTION_PACKSIZE_TEST sz d) n2 = Inr (n3, sendMessage n3 q ACTION_PACKSIZE_ACK sz [] 1)"
    if d: "test_data ?lim sz = Some d" and l: "linked n2 q hp" and le: "sz \<le> m_maxPacketSize n2" for sz d n2 q hp
  proof -
    obtain tail where tail: "d = le32 (FullCRC Initialize tail) @ tail"
      using d by (auto simp: test_data_def Let_def split: if_splits)
    have len: "length d = unat sz" "4 \<le> unat sz" using test_data_length [OF d] by simp_all
    have pk: "packet ACTION_PACKSIZE_TEST sz d = data_packet sz (11, d)"
      by (simp add: packet_def action_defs data_packet_def)
    have "load32 (data_packet sz (11, d)) 5 = Some (FullCRC Initialize tail)"
      using load32_at [of "11 # le32 sz" 5 "FullCRC Initialize tail" tail] by (simp add: data_packet_def tail)
    moreover have "drop 9 (data_packet sz (11, d)) = tail" "length (data_packet sz (11, d)) = unat sz + 5" "\<not> sz < 4"
      using len by (simp_all add: data_packet_def tail word_less_nat_alt)
    moreover have "m_maxPacketSize (touched q n2) = m_maxPacketSize n2" by (simp add: touched_def)
    ultimately show ?thesis
      using le by (simp add: pk onDatagram_data_packet [OF l] onPacksizeTest_def)
  qed
  show ?thesis
  proof (intro exI [of _ sizes] conjI ballI)
    fix sz assume "sz \<in> set sizes"
    then obtain d where d: "test_data ?lim sz = Some d" using data by blast
    show "\<exists>d. test_data ?lim sz = Some d \<and> (\<forall>n2 q hp. linked n2 q hp \<and> sz \<le> m_maxPacketSize n2 \<longrightarrow>
        (\<exists>n3. onDatagram t hp (packet ACTION_PACKSIZE_TEST sz d) n2 = Inr (n3, sendMessage n3 q ACTION_PACKSIZE_ACK sz [] 1)))"
      by (rule exI [of _ d]) (use d answer [OF d] in blast)
  qed (use sizes send in simp_all)
qed

theorem packsize_tests_answered_witness:
  "\<exists>r. sendPacksizeTests 0 2 (demo_node False) = Some (Inr r)"
  using packsize_tests_answered [of "demo_node False" 0 2] by (auto simp: demo_node_def TafnetNode_new_def)

end
