(* ===== verification/Dplay.thy ===== *)
theory Dplay
  imports Prelude
begin

text \<open>
  The DirectPlay message layout (\<open>libs/tapacket/DPlayPacket.h\<close> and \<open>.cpp\<close>): addresses in network byte
  order, the 28-byte message header, wide strings, and the packed structures as their bytes in memory.
  The parser reads a structure through a cast pointer, field by field, so each accessor also exists on a
  buffer and a position, with \<open>None\<close> for a read outside the buffer.
\<close>

section \<open>Wide strings\<close>

text \<open>
  \<open>skipCWStr\<close> and \<open>getCWStr\<close> on the 16-bit units from position \<open>i\<close>: the position after the
  terminator, and the low byte of every unit before it.
\<close>

lemma load16_Some_less: "load16 s i = Some w \<Longrightarrow> i < length s"
  by (auto simp: load16_def byte_at_def split: option.splits if_splits)

function skipCWStr :: "bytestring \<Rightarrow> nat \<Rightarrow> nat option" where
  "skipCWStr s i =
     (case load16 s i of
        None \<Rightarrow> None
      | Some w \<Rightarrow> if w \<noteq> 0 then skipCWStr s (i + 2) else Some (i + 2))"
  by pat_completeness auto
termination
  by (relation "measure (\<lambda>(s, i). length s - i)") (auto dest: load16_Some_less)

function getCWStr :: "bytestring \<Rightarrow> nat \<Rightarrow> bytestring option" where
  "getCWStr s i =
     (case load16 s i of
        None \<Rightarrow> None
      | Some w \<Rightarrow> if w \<noteq> 0 then map_option (\<lambda>str. ucast (w AND 0xff) # str) (getCWStr s (i + 2))
                  else Some [])"
  by pat_completeness auto
termination
  by (relation "measure (\<lambda>(s, i). length s - i)") (auto dest: load16_Some_less)

declare skipCWStr.simps [simp del] getCWStr.simps [simp del]

section \<open>Addresses\<close>

definition NetworkByteOrder16 :: "u16 \<Rightarrow> u16" where
  "NetworkByteOrder16 x = drop_bit 8 x OR push_bit 8 x"

definition NetworkByteOrder32 :: "u32 \<Rightarrow> u32" where
  "NetworkByteOrder32 x =
     push_bit 24 x OR push_bit 8 (x AND 0xff00) OR drop_bit 8 (x AND 0xff0000) OR
     drop_bit 24 (x AND 0xff000000)"

record DPAddress =
  family :: u16
  dp_port :: u16    \<comment> \<open>network byte order\<close>
  dp_ipv4 :: u32    \<comment> \<open>network byte order\<close>
  pad :: bytestring

definition port :: "DPAddress \<Rightarrow> u16" where
  "port a = NetworkByteOrder16 (dp_port a)"

definition set_port :: "u16 \<Rightarrow> DPAddress \<Rightarrow> DPAddress" where
  "set_port p a = a\<lparr>dp_port := NetworkByteOrder16 p\<rparr>"

definition address :: "DPAddress \<Rightarrow> u32" where
  "address a = NetworkByteOrder32 (dp_ipv4 a)"

definition set_address :: "u32 \<Rightarrow> DPAddress \<Rightarrow> DPAddress" where
  "set_address addr a = a\<lparr>dp_ipv4 := NetworkByteOrder32 addr\<rparr>"

definition mkDPAddress :: "u32 \<Rightarrow> u16 \<Rightarrow> DPAddress" where
  "mkDPAddress addr prt =
     (set_port prt (set_address addr \<lparr>family = 2, dp_port = 0, dp_ipv4 = 0, pad = []\<rparr>))
       \<lparr>pad := replicate 8 0\<rparr>"

text \<open>\<open>ostream << unsigned\<close>: the decimal digits.\<close>

fun decimal :: "nat \<Rightarrow> string" where
  "decimal n = (if n < 10 then [] else decimal (n div 10)) @ [char_of (48 + n mod 10)]"

declare decimal.simps [simp del]

definition debugString :: "DPAddress \<Rightarrow> string" where
  "debugString a = (case le32 (dp_ipv4 a) of
     [b0, b1, b2, b3] \<Rightarrow>
       decimal (unat b0) @ ''.'' @ decimal (unat b1) @ ''.'' @ decimal (unat b2) @ ''.'' @
       decimal (unat b3) @ '':'' @ decimal (unat (port a))
   | _ \<Rightarrow> [])"

definition DPAddress_bytes :: "DPAddress \<Rightarrow> bytestring" where
  "DPAddress_bytes a = le16 (family a) @ le16 (dp_port a) @ le32 (dp_ipv4 a) @ pad a"

definition DPAddress_at :: "bytestring \<Rightarrow> nat \<Rightarrow> DPAddress option" where
  "DPAddress_at s i =
     (case (load16 s i, load16 s (i + 2), load32 s (i + 4), load_bytes s (i + 8) 8) of
        (Some f, Some p, Some a, Some z) \<Rightarrow> Some \<lparr>family = f, dp_port = p, dp_ipv4 = a, pad = z\<rparr>
      | _ \<Rightarrow> None)"

section \<open>The message header\<close>

record DPHeader =
  size_and_token :: u32
  hdr_address :: DPAddress
  actionstring :: bytestring
  command :: u16
  dialect :: u16

definition sizeof_DPHeader :: nat where
  "sizeof_DPHeader = 28"

definition mkDPHeader :: "u32 \<Rightarrow> u16 \<Rightarrow> bytestring \<Rightarrow> u16 \<Rightarrow> u16 \<Rightarrow> nat \<Rightarrow> DPHeader" where
  "mkDPHeader replyAddress replyPort action cmd dial payloadSize =
     \<lparr>size_and_token = 0xfab00000 OR (word_of_nat (payloadSize + sizeof_DPHeader) AND 0x000fffff),
      hdr_address = mkDPAddress replyAddress replyPort, actionstring = action, command = cmd, dialect = dial\<rparr>"

definition header_size :: "u32 \<Rightarrow> nat" where
  "header_size sat = unat (sat AND 0x000fffff)"

definition header_token :: "u32 \<Rightarrow> u32" where
  "header_token sat = drop_bit 20 sat"

definition looksOk :: "DPHeader \<Rightarrow> bool" where
  "looksOk h = (family (hdr_address h) = 2 \<and> header_token (size_and_token h) \<in> {0xfab, 0xcab, 0xbab} \<and>
     sizeof_DPHeader \<le> header_size (size_and_token h))"

text \<open>The same test through a pointer: the family is read first, then the size and token.\<close>

definition looksOk_at :: "bytestring \<Rightarrow> nat \<Rightarrow> bool option" where
  "looksOk_at s i =
     (case load16 s (i + 4) of
        None \<Rightarrow> None
      | Some f \<Rightarrow> if f \<noteq> 2 then Some False
                  else map_option (\<lambda>sat. header_token sat \<in> {0xfab, 0xcab, 0xbab} \<and>
                         sizeof_DPHeader \<le> header_size sat) (load32 s i))"

definition DPHeader_bytes :: "DPHeader \<Rightarrow> bytestring" where
  "DPHeader_bytes h = le32 (size_and_token h) @ DPAddress_bytes (hdr_address h) @ actionstring h @
     le16 (command h) @ le16 (dialect h)"

record DPEnumReq =
  guid :: bytestring
  passwordOffset :: u32
  enum_flags :: u32
  password :: u16

definition mkDPEnumReq :: "bytestring \<Rightarrow> DPEnumReq" where
  "mkDPEnumReq g = \<lparr>guid = take 16 g, passwordOffset = 32, enum_flags = 0x10, password = 0\<rparr>"

section \<open>Byte order\<close>

lemma NetworkByteOrder16_le16: "le16 (NetworkByteOrder16 x) = rev (le16 x)"
  unfolding NetworkByteOrder16_def le16_def
  by (auto intro!: bit_word_eqI simp: bit_simps)

lemma NetworkByteOrder16_invol [simp]: "NetworkByteOrder16 (NetworkByteOrder16 x) = x"
  by (rule le16_inject) (simp add: NetworkByteOrder16_le16)

lemma NetworkByteOrder32_alt:
  "NetworkByteOrder32 x = push_bit 24 x OR push_bit 8 (x AND push_bit 8 (mask 8)) OR
     drop_bit 8 (x AND push_bit 16 (mask 8)) OR drop_bit 24 (x AND push_bit 24 (mask 8))"
  by (simp add: NetworkByteOrder32_def mask_eq_exp_minus_1 push_bit_eq_mult)

lemma NetworkByteOrder32_le32: "le32 (NetworkByteOrder32 x) = rev (le32 x)"
  unfolding NetworkByteOrder32_alt le32_def
  by (auto intro!: bit_word_eqI simp: bit_simps)

lemma NetworkByteOrder32_invol [simp]: "NetworkByteOrder32 (NetworkByteOrder32 x) = x"
  by (rule le32_inject) (simp add: NetworkByteOrder32_le32)

lemma port_set_port [simp]: "port (set_port p a) = p"
  by (simp add: port_def set_port_def)

lemma address_set_address [simp]: "address (set_address p a) = p"
  by (simp add: address_def set_address_def)

lemma mkDPAddress_sel [simp]:
  "port (mkDPAddress a p) = p" "address (mkDPAddress a p) = a" "family (mkDPAddress a p) = 2"
  "length (pad (mkDPAddress a p)) = 8"
  by (simp_all add: mkDPAddress_def port_def set_port_def address_def set_address_def)

section \<open>Structures in memory\<close>

definition address_ok :: "DPAddress \<Rightarrow> bool" where
  "address_ok a = (length (pad a) = 8)"

definition header_ok :: "DPHeader \<Rightarrow> bool" where
  "header_ok h = (address_ok (hdr_address h) \<and> length (actionstring h) = 4)"

lemma length_DPAddress_bytes [simp]: "address_ok a \<Longrightarrow> length (DPAddress_bytes a) = 16"
  by (simp add: DPAddress_bytes_def address_ok_def)

lemma length_DPHeader_bytes [simp]: "header_ok h \<Longrightarrow> length (DPHeader_bytes h) = 28"
  by (simp add: DPHeader_bytes_def header_ok_def)

lemma DPAddress_at_bytes [codec_simps]:
  assumes "address_ok a" and "length xs = i"
  shows "DPAddress_at (xs @ DPAddress_bytes a @ ys) i = Some a"
proof -
  have "load16 (xs @ DPAddress_bytes a @ ys) i = Some (family a)"
    using assms load16_at [of xs i "family a" "le16 (dp_port a) @ le32 (dp_ipv4 a) @ pad a @ ys"]
    by (simp add: DPAddress_bytes_def)
  moreover have "load16 (xs @ DPAddress_bytes a @ ys) (i + 2) = Some (dp_port a)"
    using assms load16_at [of "xs @ le16 (family a)" "i + 2" "dp_port a" "le32 (dp_ipv4 a) @ pad a @ ys"]
    by (simp add: DPAddress_bytes_def)
  moreover have "load32 (xs @ DPAddress_bytes a @ ys) (i + 4) = Some (dp_ipv4 a)"
    using assms load32_at [of "xs @ le16 (family a) @ le16 (dp_port a)" "i + 4" "dp_ipv4 a" "pad a @ ys"]
    by (simp add: DPAddress_bytes_def)
  moreover have "load_bytes (xs @ DPAddress_bytes a @ ys) (i + 8) 8 = Some (pad a)"
    using assms
      load_bytes_at [of "xs @ le16 (family a) @ le16 (dp_port a) @ le32 (dp_ipv4 a)" "i + 8" "pad a" 8 ys]
    by (simp add: DPAddress_bytes_def address_ok_def)
  ultimately show ?thesis by (simp add: DPAddress_at_def)
qed

lemma header_fields_at [codec_simps]:
  assumes "header_ok h" and "length xs = i"
  shows "load32 (xs @ DPHeader_bytes h @ ys) i = Some (size_and_token h)"
    and "load16 (xs @ DPHeader_bytes h @ ys) (i + 4) = Some (family (hdr_address h))"
    and "load16 (xs @ DPHeader_bytes h @ ys) (i + 24) = Some (command h)"
proof -
  show "load32 (xs @ DPHeader_bytes h @ ys) i = Some (size_and_token h)"
    using assms load32_at [of xs i "size_and_token h"] by (simp add: DPHeader_bytes_def)
  show "load16 (xs @ DPHeader_bytes h @ ys) (i + 4) = Some (family (hdr_address h))"
    using assms load16_at [of "xs @ le32 (size_and_token h)" "i + 4" "family (hdr_address h)"]
    by (simp add: DPHeader_bytes_def DPAddress_bytes_def)
  show "load16 (xs @ DPHeader_bytes h @ ys) (i + 24) = Some (command h)"
    using assms
      load16_at [of "xs @ le32 (size_and_token h) @ DPAddress_bytes (hdr_address h) @ actionstring h" "i + 24"
        "command h" "le16 (dialect h) @ ys"]
    by (simp add: DPHeader_bytes_def header_ok_def)
qed

lemma nth_actionstring:
  assumes "header_ok h" and "length xs = i" and "k < 4"
  shows "byte_at (xs @ DPHeader_bytes h @ ys) (i + 20 + k) = Some (actionstring h ! k)"
  using assms by (auto simp: byte_at_def DPHeader_bytes_def header_ok_def nth_append)

lemma looksOk_at_bytes [codec_simps]:
  assumes "header_ok h" and "length xs = i"
  shows "looksOk_at (xs @ DPHeader_bytes h @ ys) i = Some (looksOk h)"
  using header_fields_at [OF assms] by (auto simp: looksOk_at_def looksOk_def)

section \<open>Constructed headers\<close>

lemma low_bits_of_or:
  fixes n k :: u32
  shows "(push_bit 20 k OR (n AND mask 20)) AND mask 20 = n AND mask 20"
    and "drop_bit 20 (push_bit 20 k OR (n AND mask 20)) = drop_bit 20 (push_bit 20 k)"
  by (rule bit_word_eqI; auto simp: bit_simps)+

lemma size_and_token_fields:
  fixes n :: u32
  shows "(0xfab00000 OR (n AND 0x000fffff)) AND 0x000fffff = n AND 0x000fffff"
    and "drop_bit 20 (0xfab00000 OR (n AND 0x000fffff)) = 0xfab"
  using low_bits_of_or [of "0xfab" n] by (simp_all add: mask_eq_exp_minus_1 push_bit_eq_mult drop_bit_eq_div)

lemma mkDPHeader_size:
  assumes "payloadSize + 28 < 2 ^ 20"
  shows "header_size (size_and_token (mkDPHeader a p act cmd dial payloadSize)) = payloadSize + 28"
proof -
  have "header_size (size_and_token (mkDPHeader a p act cmd dial payloadSize)) =
      unat ((word_of_nat (payloadSize + 28) :: u32) AND 0x000fffff)"
    by (simp only: header_size_def mkDPHeader_def size_and_token_fields sizeof_DPHeader_def DPHeader.select_convs)
  also have "\<dots> = unat (take_bit 20 (word_of_nat (payloadSize + 28) :: u32))"
    by (simp add: take_bit_eq_mask mask_eq_exp_minus_1)
  also have "\<dots> = payloadSize + 28"
    using assms by (simp only: unsigned_take_bit_eq unsigned_of_nat take_bit_take_bit) (simp add: take_bit_nat_eq_self)
  finally show ?thesis .
qed

lemma mkDPHeader_looksOk:
  assumes "payloadSize + 28 < 2 ^ 20"
  shows "looksOk (mkDPHeader a p act cmd dial payloadSize)"
  using mkDPHeader_size [OF assms, of a p act cmd dial]
  by (simp add: looksOk_def sizeof_DPHeader_def header_token_def)
     (simp add: mkDPHeader_def size_and_token_fields)

lemma mkDPHeader_sel [simp]:
  "actionstring (mkDPHeader a p act cmd dial n) = act" "command (mkDPHeader a p act cmd dial n) = cmd"
  "length act = 4 \<Longrightarrow> header_ok (mkDPHeader a p act cmd dial n)"
  by (simp_all add: mkDPHeader_def header_ok_def address_ok_def)

section \<open>Wide strings are read back\<close>

definition wide :: "bytestring \<Rightarrow> bytestring" where
  "wide str = concat (map (\<lambda>c. [c, 0]) str) @ [0, 0]"

lemma mk16_low [simp]: "mk16 c 0 = ucast c" "ucast (ucast (c :: byte) AND (0xff :: u16)) = c"
  by (simp_all add: mk16_def) (rule bit_word_eqI, auto simp: and_255_eq bit_simps)

lemma ucast_byte_eq_0 [simp]: "(ucast (c :: byte) :: u16) = 0 \<longleftrightarrow> c = 0"
  by (metis unsigned_0 unat_ucast_le len_of_finite_2_def unat_0 unsigned_word_eqI mk16_low(2) and_zero_eq)

lemma load16_pair: "length xs = i \<Longrightarrow> load16 (xs @ a # b # ys) i = Some (mk16 a b)"
  by (auto simp: load16_def byte_at_def nth_append)

lemma CWStr_wide:
  assumes "0 \<notin> set str" and "length xs = i"
  shows "getCWStr (xs @ wide str @ ys) i = Some str \<and>
         skipCWStr (xs @ wide str @ ys) i = Some (i + length (wide str))"
  using assms
proof (induction str arbitrary: xs i)
  case Nil
  then show ?case
    by (simp add: getCWStr.simps [of _ i] skipCWStr.simps [of _ i] wide_def load16_pair)
next
  case (Cons c str)
  have eq: "xs @ wide (c # str) @ ys = (xs @ [c, 0]) @ wide str @ ys"
    by (simp add: wide_def)
  have ld: "load16 (xs @ wide (c # str) @ ys) i = Some (ucast c)"
    using Cons.prems by (simp add: wide_def load16_pair)
  have "getCWStr (xs @ wide (c # str) @ ys) (i + 2) = Some str \<and>
        skipCWStr (xs @ wide (c # str) @ ys) (i + 2) = Some (i + 2 + length (wide str))"
    unfolding eq using Cons.prems by (intro Cons.IH) auto
  then show ?case
    using ld Cons.prems
    by (simp add: getCWStr.simps [of _ i] skipCWStr.simps [of _ i]) (simp add: wide_def)
qed

end
