(* ===== verification/Ta_Packet_Parser.thy ===== *)
theory Ta_Packet_Parser
  imports Packet_Crypt Sub_Packets Duplicate_Detection Dplay
begin

text \<open>
  The packet parser (\<open>libs/tapacket/TAPacketParser.cpp\<close>): it walks over the DirectPlay messages of a
  buffer, reports joining and leaving players from the DirectPlay messages proper, and takes the game's
  own packets apart - duplicate detection, cipher, compression, smartpak. The calls on the subscribed
  handlers are an output list in their order. Pointers into the buffer are positions; a read outside
  the buffer and the comparison of checksums that were never assigned are the error \<open>Undefined\<close>.
\<close>

section \<open>The code\<close>

text \<open>A pointer handed to a handler: null, to memory outside the buffer, or to a value.\<close>

datatype 'a ptr = Null | Outside | At 'a

definition address_ptr :: "bytestring \<Rightarrow> nat \<Rightarrow> DPAddress ptr" where
  "address_ptr s i = (case DPAddress_at s i of None \<Rightarrow> Outside | Some a \<Rightarrow> At a)"

text \<open>The interface \<open>TaPacketHandler\<close>.\<close>

datatype handler_call =
    OnDplaySuperEnumPlayerReply u32 bytestring "DPAddress ptr" "DPAddress ptr"
  | OnDplayCreateOrForwardPlayer u16 u32 bytestring "DPAddress ptr" "DPAddress ptr"
  | OnDplayDeletePlayer u32
  | OnTaPacket u32 u32 bool bytestring "bytestring list"

type_synonym handler = nat

record TAPacketParser =
  m_packetHandlers :: "handler list"
  m_taDuplicateDetection :: DuplicateDetection
  m_parsedSubPacketCodes :: "SubPacketCode set"
  m_progressTicks :: u32

type_synonym parse_result = "cpp_error + TAPacketParser \<times> (handler \<times> handler_call) list"

definition mkTAPacketParser :: TAPacketParser where
  "mkTAPacketParser = \<lparr>m_packetHandlers = [], m_taDuplicateDetection = dd_init,
     m_parsedSubPacketCodes = {}, m_progressTicks = 0\<rparr>"

definition subscribe :: "handler option \<Rightarrow> TAPacketParser \<Rightarrow> TAPacketParser" where
  "subscribe packetHandler st = (case packetHandler of
     None \<Rightarrow> st | Some h \<Rightarrow> st\<lparr>m_packetHandlers := m_packetHandlers st @ [h]\<rparr>)"

text \<open>\<open>for (auto handler : m_packetHandlers) handler->...\<close>\<close>

definition notify :: "TAPacketParser \<Rightarrow> handler_call \<Rightarrow> (handler \<times> handler_call) list" where
  "notify st call = map (\<lambda>h. (h, call)) (m_packetHandlers st)"

subsection \<open>DirectPlay messages\<close>

text \<open>
  One player of a super-enum reply: the position after the optional names, player data length and
  service provider data length, and the name. \<open>info\<close> is the bit field word.
\<close>

definition read_name :: "bytestring \<Rightarrow> bool \<Rightarrow> bytestring \<times> nat \<Rightarrow> (bytestring \<times> nat) option" where
  "read_name s have st = (if \<not> have then Some st
     else case (getCWStr s (snd st), skipCWStr s (snd st)) of
            (Some name, Some i) \<Rightarrow> Some (name, i) | _ \<Rightarrow> None)"

definition skip_player_data :: "bytestring \<Rightarrow> u32 \<Rightarrow> nat \<Rightarrow> nat option" where
  "skip_player_data s lenBytes i =
     (if lenBytes = 1 then map_option (\<lambda>len. i + 1 + unat len) (byte_at s i)
      else if lenBytes = 2 then map_option (\<lambda>len. i + 2 + unat len) (load16 s i)
      else Some i)"

definition skip_service_length :: "bytestring \<Rightarrow> u32 \<Rightarrow> nat \<Rightarrow> nat option" where
  "skip_service_length s lenBytes i =
     (if lenBytes = 1 then map_option (\<lambda>len. i + 1) (byte_at s i)
      else if lenBytes = 2 then map_option (\<lambda>len. i + 2) (load16 s i)
      else Some i)"

definition superPackedPlayer :: "bytestring \<Rightarrow> nat \<Rightarrow> (u32 \<times> bytestring \<times> nat) option" where
  "superPackedPlayer s player =
     (case (load32 s player, load32 s (player + 8), load32 s (player + 12)) of
        (Some sz, Some pid, Some info) \<Rightarrow>
          Option.bind (read_name s (bit info 0) ([], player + unat sz + 4)) (\<lambda>nm.
          Option.bind (read_name s (bit info 1) nm) (\<lambda>(playerName, ptr).
          Option.bind (skip_player_data s (drop_bit 4 info AND 3) ptr) (\<lambda>ptr.
          map_option (\<lambda>ptr. (pid, playerName, ptr)) (skip_service_length s (drop_bit 2 info AND 3) ptr))))
      | _ \<Rightarrow> None)"

fun enum_players :: "bytestring \<Rightarrow> nat \<Rightarrow> nat \<Rightarrow> TAPacketParser \<Rightarrow> cpp_error + (handler \<times> handler_call) list" where
  "enum_players s player 0 st = Inr []"
| "enum_players s player (Suc n) st =
     (case superPackedPlayer s player of
        None \<Rightarrow> Inl Undefined
      | Some (pid, playerName, addr) \<Rightarrow>
          map_sum id (\<lambda>out. notify st (OnDplaySuperEnumPlayerReply pid playerName
                               (address_ptr s addr) (address_ptr s (addr + 16))) @ out)
            (enum_players s (addr + 32) n st))"

text \<open>\<open>header\<close> is the position of the message in the buffer (\<open>data\<close> points there too).\<close>

definition parseDplaySuperEnumReply :: "bytestring \<Rightarrow> nat \<Rightarrow> TAPacketParser \<Rightarrow> parse_result" where
  "parseDplaySuperEnumReply s header st =
     (case load32 s (header + 28 + 8) of
        None \<Rightarrow> Inl Undefined
      | Some packed_offset \<Rightarrow>
          if packed_offset = 0 then Inr (st, [])
          else case load32 s (header + 28) of
                 None \<Rightarrow> Inl Undefined
               | Some player_count \<Rightarrow>
                   map_sum id (Pair st)
                     (enum_players s (header + 0x4a - 0x36 + unat packed_offset) (unat player_count) st))"

text \<open>The request starts after the header; its \<open>player\<close> at 20, its \<open>sentinel\<close> at 68.\<close>

definition parseDplayCreateOrForwardPlayer :: "bytestring \<Rightarrow> nat \<Rightarrow> u16 \<Rightarrow> TAPacketParser \<Rightarrow> parse_result" where
  "parseDplayCreateOrForwardPlayer s header cmd st =
     (let req = header + 28; player = req + 20; sentinel = req + 68 in
      case (load32 s (req + 4), load32 s (player + 12), load32 s (player + 16), load32 s (player + 20)) of
        (Some player_id, Some short_len, Some long_len, Some sp_size) \<Rightarrow>
          if sp_size = 0 then Inr (st, [])
          else
            (case (if 0 < short_len then getCWStr s sentinel else Some []) of
               None \<Rightarrow> Inl Undefined
             | Some shortName \<Rightarrow>
            (case (if 0 < long_len then getCWStr s (sentinel + unat short_len) else Some shortName) of
               None \<Rightarrow> Inl Undefined
             | Some playerName \<Rightarrow>
                 let addr = sentinel + unat short_len + unat long_len;
                     addrTcp = (if sp_size = 16 then address_ptr s addr else Null);
                     addrUdp = (if sp_size = 32 then address_ptr s (addr + 16) else Null)
                 in Inr (st, notify st (OnDplayCreateOrForwardPlayer cmd player_id playerName addrTcp addrUdp))))
      | _ \<Rightarrow> Inl Undefined)"

definition parseDplayDeletePlayer :: "bytestring \<Rightarrow> nat \<Rightarrow> TAPacketParser \<Rightarrow> parse_result" where
  "parseDplayDeletePlayer s header st =
     (if m_packetHandlers st = [] then Inr (st, [])
      else case load32 s (header + 28 + 4) of
             None \<Rightarrow> Inl Undefined
           | Some player_id \<Rightarrow> Inr (st, notify st (OnDplayDeletePlayer player_id)))"

definition parseDplayPacket :: "bytestring \<Rightarrow> nat \<Rightarrow> TAPacketParser \<Rightarrow> parse_result" where
  "parseDplayPacket s header st =
     (case load16 s (header + 24) of
        None \<Rightarrow> Inl Undefined
      | Some cmd \<Rightarrow>
          if cmd = 0x0029 then parseDplaySuperEnumReply s header st
          else if cmd = 0x0008 \<or> cmd = 0x0013 \<or> cmd = 0x002e \<or> cmd = 0x0038
          then parseDplayCreateOrForwardPlayer s header cmd st
          else if cmd = 0x000b then parseDplayDeletePlayer s header st
          else Inr (st, []))"

subsection \<open>Packets of the game\<close>

text \<open>The duplicate test of \<open>parseTaPacket\<close>: its verdict and the state it leaves.\<close>

definition check_duplicate :: "u32 \<Rightarrow> u32 \<Rightarrow> bytestring \<Rightarrow> TAPacketParser \<Rightarrow> bool \<times> TAPacketParser" where
  "check_duplicate src other payload st =
     (if 0 < m_progressTicks st \<and> other = 0
      then let (d, dd) = isLikelyDuplicate src other payload (m_taDuplicateDetection st)
           in (d, st\<lparr>m_taDuplicateDetection := dd\<rparr>)
      else (False, st))"

text \<open>The loop over the sub-packets: their codes are collected and the progress advances.\<close>

fun scan_subpackets :: "bytestring list \<Rightarrow> TAPacketParser \<Rightarrow> cpp_error + TAPacketParser" where
  "scan_subpackets [] st = Inr st"
| "scan_subpackets (s # ss) st =
     (case getExpectedSubPacketSize s of
        None \<Rightarrow> Inl Undefined
      | Some expectedSize \<Rightarrow>
          if expectedSize = 0 \<or> length s \<noteq> expectedSize then scan_subpackets ss st
          else let code = subPacketCode (s ! 0);
                   st = st\<lparr>m_parsedSubPacketCodes := insert code (m_parsedSubPacketCodes st)\<rparr>
               in if code = UNIT_STAT_AND_MOVE_2C
                  then case load32 s 3 of
                         None \<Rightarrow> Inl Undefined
                       | Some tick \<Rightarrow> scan_subpackets ss (st\<lparr>m_progressTicks := max tick (m_progressTicks st)\<rparr>)
                  else scan_subpackets ss st)"

definition parseTaPacket :: "u32 \<Rightarrow> u32 \<Rightarrow> bool \<Rightarrow> bytestring \<Rightarrow> TAPacketParser \<Rightarrow> parse_result" where
  "parseTaPacket sourceDplayId otherDplayId isLocalSource payload0 st =
     (let (dup, st) = check_duplicate sourceDplayId otherDplayId payload0 st
      in if dup then Inr (st, [])
      else case decrypt payload0 0 of
        (payload, None) \<Rightarrow> Inl Undefined
      | (payload, Some (extracted, calculated)) \<Rightarrow>
          if extracted \<noteq> calculated then Inr (st, [])
          else case (if byte_at payload 0 = Some 0x04 then decompress payload 3 else Some payload) of
                 None \<Rightarrow> Inl Undefined
               | Some payload \<Rightarrow>
                   (case unsmartpak payload True True of
                      Inl e \<Rightarrow> Inl e
                    | Inr subpaks \<Rightarrow>
                        map_sum id (\<lambda>st'. (st', notify st'
                            (OnTaPacket sourceDplayId otherDplayId isLocalSource payload0 subpaks)))
                          (scan_subpackets subpaks st)))"

subsection \<open>The buffer\<close>

text \<open>\<open>std::strncmp(p, str, n) == 0\<close> for an \<open>str\<close> of \<open>n\<close> characters without a zero.\<close>

fun strncmp_eq :: "bytestring \<Rightarrow> nat \<Rightarrow> bytestring \<Rightarrow> bool option" where
  "strncmp_eq s i [] = Some True"
| "strncmp_eq s i (c # cs) =
     (case byte_at s i of
        None \<Rightarrow> None
      | Some b \<Rightarrow> if b \<noteq> c then Some False else strncmp_eq s (i + 1) cs)"

definition play :: bytestring where
  "play = [0x70, 0x6c, 0x61, 0x79]"

lemma looksOk_at_size: "looksOk_at s i = Some True \<Longrightarrow> load32 s i = Some sat \<Longrightarrow> 28 \<le> header_size sat"
  by (auto simp: looksOk_at_def sizeof_DPHeader_def split: option.splits if_splits)

lemma strncmp_play_in_buffer: "strncmp_eq s i play = Some b \<Longrightarrow> i \<le> length s"
  by (auto simp: play_def byte_at_def split: if_splits)

lemma message_progress:
  assumes "strncmp_eq s (i + 20) play = Some b" and "looksOk_at s i = Some ok" and "\<not> (\<not> ok \<and> 8 < length s)"
    and "load32 s i = Some sat"
  shows "0 < header_size sat"
  using strncmp_play_in_buffer [OF assms(1)] looksOk_at_size [of s i sat] assms(2-4) by (cases ok) auto

text \<open>One message at position \<open>i\<close>, of which \<open>msgSize\<close> bytes are announced.\<close>

definition parse_message :: "bool \<Rightarrow> bytestring \<Rightarrow> nat \<Rightarrow> bool \<Rightarrow> nat \<Rightarrow> TAPacketParser \<Rightarrow> parse_result" where
  "parse_message isLocalSource s i is_play msgSize st =
     (if is_play then parseDplayPacket s i st
      else case (load32 s (i + 20), load_bytes s (i + sizeof_DPHeader) (msgSize - sizeof_DPHeader)) of
             (Some src, Some payload) \<Rightarrow> parseTaPacket src 0 isLocalSource payload st
           | _ \<Rightarrow> Inl Undefined)"

function parse_loop :: "bool \<Rightarrow> bytestring \<Rightarrow> nat \<Rightarrow> TAPacketParser \<Rightarrow> parse_result" where
  "parse_loop isLocalSource s i st =
     (if \<not> i < length s then Inr (st, [])
      else case looksOk_at s i of
        None \<Rightarrow> Inl Undefined
      | Some ok \<Rightarrow>
          if \<not> ok \<and> length s > 8
          then case (load32 s 0, load32 s 4) of
                 (Some id1, Some id2) \<Rightarrow> parseTaPacket id1 id2 isLocalSource (drop 8 s) st
               | _ \<Rightarrow> Inl Undefined
          else case strncmp_eq s (i + 20) play of
                 None \<Rightarrow> Inl Undefined
               | Some is_play \<Rightarrow>
                   (case load32 s i of
                      None \<Rightarrow> Inl Undefined
                    | Some sat \<Rightarrow>
                        (case parse_message isLocalSource s i is_play (header_size sat) st of
                           Inl e \<Rightarrow> Inl e
                         | Inr (st', out) \<Rightarrow>
                             map_sum id (\<lambda>(st'', out'). (st'', out @ out'))
                               (parse_loop isLocalSource s (i + header_size sat) st'))))"
  by pat_completeness auto
termination
  by (relation "measure (\<lambda>(l, s, i, st). length s - i)") (auto dest!: message_progress)

declare parse_loop.simps [simp del]

definition parseGameData :: "bool \<Rightarrow> bytestring \<Rightarrow> TAPacketParser \<Rightarrow> parse_result" where
  "parseGameData isLocalSource data st = parse_loop isLocalSource data 0 (st\<lparr>m_parsedSubPacketCodes := {}\<rparr>)"

definition getProgressTicks :: "TAPacketParser \<Rightarrow> u32" where
  "getProgressTicks st = m_progressTicks st"

section \<open>A packet from the sender to the handlers\<close>

text \<open>What the sending side puts on the wire: framed, compressed and enciphered sub-packets.\<close>

definition wire_packet :: "bytestring list \<Rightarrow> u32 \<Rightarrow> bytestring" where
  "wire_packet ss tcpseq = encrypt (compress (trivialSmartpak (smartpak_all True ss) tcpseq))"

text \<open>A sendable sequence: properly sized, consecutive serials, unit-state packets with a serial.\<close>

definition sendable :: "bytestring list \<Rightarrow> bool" where
  "sendable ss = (ticks_ok None ss \<and> (\<forall>s \<in> set ss. s ! 0 = 0x2c \<longrightarrow> 7 \<le> length s))"

definition tick_of :: "bytestring \<Rightarrow> u32" where
  "tick_of s = (case load32 s 3 of None \<Rightarrow> 0 | Some t \<Rightarrow> t)"

definition ticks_in :: "bytestring list \<Rightarrow> u32 set" where
  "ticks_in ss = tick_of ` {s \<in> set ss. s ! 0 = 0x2c}"

definition codes_in :: "bytestring list \<Rightarrow> SubPacketCode set" where
  "codes_in ss = (\<lambda>s. subPacketCode (s ! 0)) ` set ss"

lemma compress_length_ge_4:
  assumes "4 \<le> length data"
  shows "4 \<le> length (compress data)"
proof -
  obtain t ts where "tokens data 4 = t # ts" using assms by (simp add: tokens_first)
  then have "1 \<le> length (pack_all (tokens data 4))"
    using pack_nonempty by (simp add: Suc_leI)
  then show ?thesis using assms by (simp add: compress_eq Let_def)
qed

lemma decrypt_wire:
  assumes "4 \<le> length data"
  shows "\<exists>x y c. decrypt (encrypt (compress data)) 0 = ((compress data)[1 := x, 2 := y], Some (c, c)) \<and>
    decompress ((compress data)[1 := x, 2 := y]) 3 = Some (data[0 := 0x03, 1 := x, 2 := y])"
  using decrypt_encrypt_eq [OF compress_length_ge_4 [OF assms]] decompress_compress_header [of data] assms
  by auto

lemma unsmartpak_wire:
  assumes "ticks_ok None ss"
  shows "unsmartpak ((trivialSmartpak (smartpak_all True ss) tcpseq)[0 := 0x03, 1 := x, 2 := y]) True True = Inr ss"
  using fast_loop_smartpak_all [OF assms, of 0]
  by (simp add: unsmartpak_def trivialSmartpak_def numeral_2_eq_2)

lemma ticks_ok_well_sized: "ticks_ok st ss \<Longrightarrow> s \<in> set ss \<Longrightarrow> well_sized s"
  by (induction st ss rule: ticks_ok.induct) (auto split: if_splits option.splits)

lemma scan_subpackets_well_sized:
  assumes "\<forall>s \<in> set ss. well_sized s" and "\<forall>s \<in> set ss. s ! 0 = 0x2c \<longrightarrow> 7 \<le> length s"
  shows "scan_subpackets ss st = Inr (st\<lparr>m_parsedSubPacketCodes := m_parsedSubPacketCodes st \<union> codes_in ss,
           m_progressTicks := Max (insert (m_progressTicks st) (ticks_in ss))\<rparr>)"
  using assms
proof (induction ss arbitrary: st)
  case Nil
  then show ?case by (simp add: codes_in_def ticks_in_def)
next
  case (Cons s ss)
  have sz: "getExpectedSubPacketSize s = Some (length s)" and ne: "s \<noteq> []"
    using Cons.prems by (auto simp: well_sized_def)
  have codes: "codes_in (s # ss) = insert (subPacketCode (s ! 0)) (codes_in ss)"
    by (simp add: codes_in_def)
  show ?case
  proof (cases "s ! 0 = 0x2c")
    case True
    then have "load32 s 3 = Some (tick_of s)"
      using Cons.prems by (simp add: tick_of_def load32_less)
    moreover have "ticks_in (s # ss) = insert (tick_of s) (ticks_in ss)"
      using True by (auto simp: ticks_in_def)
    moreover have "finite (ticks_in ss)" by (simp add: ticks_in_def)
    ultimately show ?thesis
      using Cons True sz ne codes
      by (cases "ticks_in ss = {}") (auto simp: subPacketCode_eq_iff max.assoc max.left_commute max.commute)
  next
    case False
    then have "ticks_in (s # ss) = ticks_in ss"
      by (auto simp: ticks_in_def)
    then show ?thesis
      using Cons False sz ne codes by (simp add: subPacketCode_eq_iff)
  qed
qed

lemma check_duplicate_keeps:
  "check_duplicate src other p st = (d, st') \<Longrightarrow>
   m_parsedSubPacketCodes st' = m_parsedSubPacketCodes st \<and> m_progressTicks st' = m_progressTicks st \<and>
   m_packetHandlers st' = m_packetHandlers st"
  by (auto simp: check_duplicate_def split: prod.splits if_splits)

lemma parseTaPacket_wire_eq:
  assumes "sendable ss" and "check_duplicate src other (wire_packet ss tcpseq) st = (False, st1)"
  shows "parseTaPacket src other isLocal (wire_packet ss tcpseq) st =
    (let st' = st1\<lparr>m_parsedSubPacketCodes := m_parsedSubPacketCodes st \<union> codes_in ss,
                   m_progressTicks := Max (insert (m_progressTicks st) (ticks_in ss))\<rparr>
     in Inr (st', map (\<lambda>h. (h, OnTaPacket src other isLocal (wire_packet ss tcpseq) ss)) (m_packetHandlers st)))"
proof -
  let ?data = "trivialSmartpak (smartpak_all True ss) tcpseq"
  have ok: "ticks_ok None ss" "\<forall>s \<in> set ss. s ! 0 = 0x2c \<longrightarrow> 7 \<le> length s"
    using assms(1) by (auto simp: sendable_def)
  have "4 \<le> length ?data" by (simp add: trivialSmartpak_def)
  from decrypt_wire [OF this] obtain x y c where
    dec: "decrypt (wire_packet ss tcpseq) 0 = ((compress ?data)[1 := x, 2 := y], Some (c, c))"
      "decompress ((compress ?data)[1 := x, 2 := y]) 3 = Some (?data[0 := 0x03, 1 := x, 2 := y])"
    unfolding wire_packet_def by blast
  have scan: "scan_subpackets ss st1 = Inr (st1\<lparr>m_parsedSubPacketCodes := m_parsedSubPacketCodes st \<union> codes_in ss,
           m_progressTicks := Max (insert (m_progressTicks st) (ticks_in ss))\<rparr>)"
    using scan_subpackets_well_sized [of ss st1] ok ticks_ok_well_sized check_duplicate_keeps [OF assms(2)]
    by auto
  show ?thesis
    unfolding parseTaPacket_def assms(2) decompress_guard Let_def
    using dec unsmartpak_wire [OF ok(1)] scan check_duplicate_keeps [OF assms(2)]
    by (simp add: decompress_guard notify_def)
qed

text \<open>
  C5. What the game sends is what the handlers receive: for every sequence of properly sized
  sub-packets with consecutive serials, packed, framed, compressed and enciphered, a parser that does
  not hold the packet for a duplicate reports exactly that sequence to every subscribed handler, adds
  exactly their codes to the codes of the buffer and advances the game's progress to the largest
  serial seen.
\<close>

theorem parseTaPacket_wire:
  assumes "sendable ss" and "check_duplicate src other (wire_packet ss tcpseq) st = (False, st1)"
  shows "parseTaPacket src other isLocal (wire_packet ss tcpseq) st =
    (let st' = st1\<lparr>m_parsedSubPacketCodes := m_parsedSubPacketCodes st \<union> codes_in ss,
                   m_progressTicks := Max (insert (m_progressTicks st) (ticks_in ss))\<rparr>
     in Inr (st', map (\<lambda>h. (h, OnTaPacket src other isLocal (wire_packet ss tcpseq) ss)) (m_packetHandlers st)))"
  using assms by (rule parseTaPacket_wire_eq)

theorem parseTaPacket_wire_witness:
  "sendable [tick_packet 7, [0x19, 0, 5]] \<and>
   check_duplicate 100 0 (wire_packet [tick_packet 7, [0x19, 0, 5]] 9) (subscribe (Some 1) mkTAPacketParser) =
     (False, subscribe (Some 1) mkTAPacketParser) \<and>
   map_sum id snd (parseTaPacket 100 0 True (wire_packet [tick_packet 7, [0x19, 0, 5]] 9)
     (subscribe (Some 1) mkTAPacketParser)) =
     Inr [(1, OnTaPacket 100 0 True (wire_packet [tick_packet 7, [0x19, 0, 5]] 9) [tick_packet 7, [0x19, 0, 5]])]"
proof -
  have 1: "sendable [tick_packet 7, [0x19, 0, 5]]" by code_simp
  have 2: "check_duplicate 100 0 (wire_packet [tick_packet 7, [0x19, 0, 5]] 9) (subscribe (Some 1) mkTAPacketParser) =
     (False, subscribe (Some 1) mkTAPacketParser)"
    by (simp add: check_duplicate_def subscribe_def mkTAPacketParser_def)
  show ?thesis
    using 1 2 parseTaPacket_wire [OF 1 2, of True] by (simp add: Let_def subscribe_def mkTAPacketParser_def)
qed

section \<open>What never reaches a handler\<close>

text \<open>
  A packet damaged on the way reaches no handler: whatever single enciphered byte of an encrypted
  packet is replaced by a different one, the parser calls nobody and collects no codes.
\<close>

theorem parseTaPacket_damaged:
  assumes "in_body data 3 i" and "b \<noteq> encrypt data ! i"
  shows "parseTaPacket src other isLocal ((encrypt data)[i := b]) st =
    Inr (snd (check_duplicate src other ((encrypt data)[i := b]) st), [])"
proof -
  obtain d x y where "decrypt ((encrypt data)[i := b]) 0 = (d, Some (x, y))" "x \<noteq> y"
    using decrypt_changed [OF assms] by (metis prod.collapse)
  then show ?thesis
    by (simp add: parseTaPacket_def split: prod.splits)
qed

theorem parseTaPacket_damaged_witness:
  "in_body [3, 0, 0, 10, 20, 30, 40, 50 :: byte] 3 4 \<and>
   parseTaPacket 1 0 True ((encrypt [3, 0, 0, 10, 20, 30, 40, 50])[4 := 99]) mkTAPacketParser =
     Inr (mkTAPacketParser, [])"
proof -
  have 1: "in_body [3, 0, 0, 10, 20, 30, 40, 50 :: byte] 3 4" by code_simp
  have 2: "99 \<noteq> encrypt [3, 0, 0, 10, 20, 30, 40, 50] ! 4" by code_simp
  show ?thesis
    using 1 parseTaPacket_damaged [OF 1 2, of 1 0 True mkTAPacketParser]
    by (simp add: check_duplicate_def mkTAPacketParser_def)
qed

lemma scan_subpackets_keeps:
  "scan_subpackets ss st = Inr st' \<Longrightarrow>
   m_taDuplicateDetection st' = m_taDuplicateDetection st \<and> m_packetHandlers st' = m_packetHandlers st \<and>
   m_progressTicks st \<le> m_progressTicks st'"
proof (induction ss arbitrary: st)
  case (Cons s ss)
  then show ?case
    by (auto simp: Let_def split: option.splits if_splits dest!: Cons.IH intro: order_trans)
qed simp

lemma parseTaPacket_keeps:
  assumes "parseTaPacket src other l p st = Inr (st', out)"
  shows "m_taDuplicateDetection st' = m_taDuplicateDetection (snd (check_duplicate src other p st)) \<and>
    m_packetHandlers st' = m_packetHandlers st \<and> m_progressTicks st \<le> m_progressTicks st'"
  using assms check_duplicate_keeps [of src other p st]
  by (auto simp: parseTaPacket_def Let_def split: prod.splits option.splits if_splits sum.splits
      dest!: scan_subpackets_keeps)

text \<open>
  A game packet the parser has just seen is not reported again once the game runs: the copy TA
  sends for another player is dropped, whatever was in it, and leaves the parser as it was.
\<close>

theorem parseTaPacket_copy_dropped:
  assumes "0 < m_progressTicks st" and "dd_ok (m_taDuplicateDetection st)"
    and "parseTaPacket src 0 isLocal payload st = Inr (st', out)"
  shows "parseTaPacket src 0 isLocal' payload st' = Inr (st', [])"
proof -
  obtain d dd where dd: "isLikelyDuplicate src 0 payload (m_taDuplicateDetection st) = (d, dd)" by fastforce
  then have again: "isLikelyDuplicate src 0 payload dd = (True, dd)"
    using isLikelyDuplicate_again [OF assms(2)] by blast
  have "m_taDuplicateDetection st' = dd" "0 < m_progressTicks st'"
    using parseTaPacket_keeps [OF assms(3)] assms(1) dd by (auto simp: check_duplicate_def)
  then show ?thesis
    using again by (simp add: parseTaPacket_def check_duplicate_def)
qed

theorem parseTaPacket_copy_dropped_witness:
  "\<exists>st'. parseTaPacket 100 0 True (wire_packet [[0x19, 0, 5]] 9) (mkTAPacketParser\<lparr>m_progressTicks := 1\<rparr>) =
     Inr (st', []) \<and> parseTaPacket 100 0 False (wire_packet [[0x19, 0, 5]] 9) st' = Inr (st', [])"
proof -
  let ?st = "mkTAPacketParser\<lparr>m_progressTicks := 1\<rparr>" and ?p = "wire_packet [[0x19, 0, 5]] 9"
  have dd: "dd_ok (m_taDuplicateDetection ?st)" by (simp add: mkTAPacketParser_def dd_init_ok)
  have ok: "sendable [[0x19, 0, 5]]" by code_simp
  have "\<not> fst (isLikelyDuplicate 100 0 ?p dd_init)"
    using isLikelyDuplicate_step [OF dd_init_ok(1), of 100 0 ?p] dd_init_ok(2)
    by (simp add: window_step_def split: prod.splits)
  then obtain st1 where "check_duplicate 100 0 ?p ?st = (False, st1)"
    by (cases "isLikelyDuplicate 100 0 ?p dd_init") (auto simp: check_duplicate_def mkTAPacketParser_def)
  then obtain st' where "parseTaPacket 100 0 True ?p ?st = Inr (st', [])"
    using parseTaPacket_wire_eq [OF ok] by (auto simp: Let_def mkTAPacketParser_def)
  then show ?thesis
    using parseTaPacket_copy_dropped [OF _ dd, of 100 True ?p st' "[]" False] by auto
qed

section \<open>Messages in one buffer\<close>

text \<open>
  A message of the game: reply address and port, sender id, command, dialect and payload, laid out by
  the header constructor. \<open>parse_messages\<close> handles a sequence of them one after the other.
\<close>

type_synonym message = "u32 \<times> u16 \<times> u32 \<times> u16 \<times> u16 \<times> bytestring"

fun message_bytes :: "message \<Rightarrow> bytestring" where
  "message_bytes (a, p, src, cmd, dial, payload) =
     DPHeader_bytes (mkDPHeader a p (le32 src) cmd dial (length payload)) @ payload"

fun message_ok :: "message \<Rightarrow> bool" where
  "message_ok (a, p, src, cmd, dial, payload) = (le32 src \<noteq> play \<and> length payload + 28 < 2 ^ 20)"

fun parse_messages :: "bool \<Rightarrow> message list \<Rightarrow> TAPacketParser \<Rightarrow> parse_result" where
  "parse_messages l [] st = Inr (st, [])"
| "parse_messages l ((a, p, src, cmd, dial, payload) # ms) st =
     (case parseTaPacket src 0 l payload st of
        Inl e \<Rightarrow> Inl e
      | Inr (st', out) \<Rightarrow> map_sum id (\<lambda>(st'', out'). (st'', out @ out')) (parse_messages l ms st'))"

lemma strncmp_eq_at:
  "length xs = i \<Longrightarrow> length bs = length cs \<Longrightarrow> strncmp_eq (xs @ bs @ ys) i cs = Some (bs = cs)"
proof (induction cs arbitrary: xs i bs)
  case (Cons c cs)
  then obtain b bs' where bs: "bs = b # bs'" by (cases bs) auto
  have "strncmp_eq ((xs @ [b]) @ bs' @ ys) (i + 1) cs = Some (bs' = cs)"
    using Cons.prems bs by (intro Cons.IH) auto
  moreover have "byte_at (xs @ bs @ ys) i = Some b"
    using Cons.prems by (simp add: bs byte_at_def nth_append)
  ultimately show ?case using bs by auto
qed simp

lemma DPHeader_bytes_action:
  assumes "header_ok h"
  shows "\<exists>us vs. DPHeader_bytes h = us @ actionstring h @ vs \<and> length us = 20"
  using assms unfolding DPHeader_bytes_def header_ok_def
  by (intro exI [of _ "le32 (size_and_token h) @ DPAddress_bytes (hdr_address h)"]
      exI [of _ "le16 (command h) @ le16 (dialect h)"]) auto

lemma parse_loop_message:
  assumes "message_ok (a, p, src, cmd, dial, payload)"
    and s: "s = xs @ message_bytes (a, p, src, cmd, dial, payload) @ ys"
  shows "parse_loop l s (length xs) st =
    (case parseTaPacket src 0 l payload st of
       Inl e \<Rightarrow> Inl e
     | Inr (st', out) \<Rightarrow> map_sum id (\<lambda>(st'', out'). (st'', out @ out'))
         (parse_loop l s (length (xs @ message_bytes (a, p, src, cmd, dial, payload))) st'))"
proof -
  let ?h = "mkDPHeader a p (le32 src) cmd dial (length payload)"
  have ok: "header_ok ?h" and size: "header_size (size_and_token ?h) = length payload + 28"
    and looks: "looksOk ?h" and notplay: "le32 src \<noteq> play"
    using assms(1) mkDPHeader_size [of "length payload"] mkDPHeader_looksOk by simp_all
  have s': "s = xs @ DPHeader_bytes ?h @ payload @ ys" using s by simp
  obtain us vs where act: "DPHeader_bytes ?h = us @ le32 src @ vs" "length us = 20"
    using DPHeader_bytes_action [OF ok] by auto
  have s'': "s = (xs @ us) @ le32 src @ vs @ payload @ ys" using s' act by simp
  have "strncmp_eq s (length xs + 20) play = Some False"
    using strncmp_eq_at [of "xs @ us" "length xs + 20" "le32 src" play "vs @ payload @ ys"] act notplay
    by (simp add: s'' play_def)
  moreover have "load32 s (length xs + 20) = Some src"
    using load32_at [of "xs @ us" "length xs + 20" src] act unfolding s'' by simp
  moreover have "load_bytes s (length xs + 28) (length payload) = Some payload"
    using load_bytes_at [of "xs @ DPHeader_bytes ?h" "length xs + 28" payload] ok by (simp add: s')
  moreover have "looksOk_at s (length xs) = Some True" "load32 s (length xs) = Some (size_and_token ?h)"
    using looksOk_at_bytes [OF ok refl] header_fields_at(1) [OF ok refl] looks by (simp_all add: s')
  moreover have "length xs < length s" using ok by (simp add: s')
  moreover have "length (xs @ message_bytes (a, p, src, cmd, dial, payload)) =
      length xs + header_size (size_and_token ?h)"
    using ok size by simp
  ultimately show ?thesis
    using size by (subst parse_loop.simps) (simp add: parse_message_def sizeof_DPHeader_def del: message_bytes.simps cong: sum.case_cong)
qed

text \<open>
  A buffer of several messages is taken apart exactly at the message boundaries: parsing the
  concatenation is parsing the messages' payloads one after the other, with the sender id of each
  header, the handler calls in order, for any number of messages that fit the 20-bit size field.
\<close>

theorem parseGameData_messages:
  assumes "list_all message_ok ms"
  shows "parseGameData isLocal (concat (map message_bytes ms)) st =
    parse_messages isLocal ms (st\<lparr>m_parsedSubPacketCodes := {}\<rparr>)"
proof -
  have "parse_loop isLocal (xs @ concat (map message_bytes ms)) (length xs) st = parse_messages isLocal ms st"
    for xs st
    using assms
  proof (induction ms arbitrary: xs st)
    case Nil
    then show ?case by (simp add: parse_loop.simps)
  next
    case (Cons m ms)
    obtain a p src cmd dial payload where m: "m = (a, p, src, cmd, dial, payload)" by (cases m) auto
    have ok: "message_ok (a, p, src, cmd, dial, payload)" using Cons.prems m by simp
    show ?case
      using Cons.IH [of "xs @ message_bytes m"] Cons.prems
        parse_loop_message [OF ok, of _ xs "concat (map message_bytes ms)" isLocal st] m
      by (simp del: message_bytes.simps cong: sum.case_cong)
  qed
  from this [of "[]"] show ?thesis by (simp add: parseGameData_def)
qed

theorem parseGameData_messages_witness:
  "list_all message_ok [(1, 2, 100, 0, 14, wire_packet [[0x19, 0, 5]] 9), (1, 2, 101, 0, 14, wire_packet [[0x15]] 3)] \<and>
   map_sum id snd (parseGameData True (concat (map message_bytes
       [(1, 2, 100, 0, 14, wire_packet [[0x19, 0, 5]] 9), (1, 2, 101, 0, 14, wire_packet [[0x15]] 3)]))
     (subscribe (Some 1) mkTAPacketParser)) =
     Inr [(1, OnTaPacket 100 0 True (wire_packet [[0x19, 0, 5]] 9) [[0x19, 0, 5]]),
          (1, OnTaPacket 101 0 True (wire_packet [[0x15]] 3) [[0x15]])]"
proof -
  let ?ms = "[(1, 2, 100, 0, 14, wire_packet [[0x19, 0, 5]] 9), (1, 2, 101, 0, 14, wire_packet [[0x15]] 3)] :: message list"
  have "length (wire_packet [[0x19, 0, 5]] 9) < 100" "length (wire_packet [[0x15]] 3) < 100"
    "le32 100 \<noteq> play" "le32 101 \<noteq> play"
    by code_simp+
  then have ok: "list_all message_ok ?ms" by simp
  have send: "sendable [[0x19, 0, 5]]" "sendable [[0x15]]" by code_simp+
  have none: "ticks_in [[0x19, 0, 5]] = {}" "ticks_in [[0x15]] = {}" by (simp_all add: ticks_in_def)
  have fresh: "check_duplicate src other p st = (False, st)" if "m_progressTicks st = 0" for src other p st
    using that by (simp add: check_duplicate_def)
  note wire = parseTaPacket_wire_eq [OF send(1) fresh] parseTaPacket_wire_eq [OF send(2) fresh]
  have "map_sum id snd (parse_messages True ?ms ((subscribe (Some 1) mkTAPacketParser)\<lparr>m_parsedSubPacketCodes := {}\<rparr>)) =
     Inr [(1, OnTaPacket 100 0 True (wire_packet [[0x19, 0, 5]] 9) [[0x19, 0, 5]]),
          (1, OnTaPacket 101 0 True (wire_packet [[0x15]] 3) [[0x15]])]"
    by (simp add: subscribe_def mkTAPacketParser_def wire none Let_def)
  then show ?thesis
    using ok parseGameData_messages [OF ok, of True "subscribe (Some 1) mkTAPacketParser"] by simp
qed

end
