(* ===== verification/Address_Translater.thy ===== *)
theory Address_Translater
  imports Ta_Packet_Parser
begin

text \<open>
  Rewriting of the network addresses inside DirectPlay messages
  (\<open>libs/tafnet/GameAddressTranslater.cpp\<close>). The buffer is changed in place: every operation takes the
  buffer and returns it updated. The address callback is a parameter, a function on the address, its
  index and a state of the caller that it may change. Binding a reference to an address that is not
  completely inside the buffer is the error \<open>Undefined\<close>, as is the index of a reply port other than 0
  and 1. The loop over the messages advances by the size field of whatever is there, which may be 0, so
  it may run forever: it is a partial function, \<open>None\<close> when it does not return.
\<close>

section \<open>The code\<close>

definition store_bytes :: "bytestring \<Rightarrow> nat \<Rightarrow> bytestring \<Rightarrow> bytestring option" where
  "store_bytes s i bs =
     (if i + length bs \<le> length s then Some (take i s @ bs @ drop (i + length bs) s) else None)"

type_synonym 'st spa = "DPAddress \<Rightarrow> nat \<Rightarrow> 'st \<Rightarrow> bool \<times> DPAddress \<times> 'st"

record 'st GameAddressTranslater =
  replyAddress :: u32
  replyPorts :: "u16 \<times> u16"
  translatePlayerSPA :: "'st spa"

text \<open>The constructor without a callback.\<close>

definition plainTranslater :: "u32 \<Rightarrow> u16 \<times> u16 \<Rightarrow> 'st GameAddressTranslater" where
  "plainTranslater addr ports =
     \<lparr>replyAddress = addr, replyPorts = ports, translatePlayerSPA = (\<lambda>a n st. (False, a, st))\<rparr>"

definition reply_port :: "u16 \<times> u16 \<Rightarrow> nat \<Rightarrow> u16 option" where
  "reply_port ports index =
     (if index = 0 then Some (fst ports) else if index = 1 then Some (snd ports) else None)"

definition translateReplyAddress :: "'st GameAddressTranslater \<Rightarrow> DPAddress \<Rightarrow> nat \<Rightarrow> DPAddress option" where
  "translateReplyAddress tx a index =
     map_option (\<lambda>p. set_port p (set_address (replyAddress tx) a)) (reply_port (replyPorts tx) index)"

definition address_ref :: "bytestring \<Rightarrow> nat \<Rightarrow> DPAddress option" where
  "address_ref buf i = (if i + 16 \<le> length buf then DPAddress_at buf i else None)"

text \<open>\<open>if (!translatePlayerSPA(*addr, n)) translateReplyAddress(*addr, n);\<close>\<close>

definition translate_spa ::
  "'st GameAddressTranslater \<Rightarrow> bytestring \<Rightarrow> nat \<Rightarrow> nat \<Rightarrow> 'st \<Rightarrow> cpp_error + bytestring \<times> 'st" where
  "translate_spa tx buf i n st =
     (case address_ref buf i of
        None \<Rightarrow> Inl Undefined
      | Some a \<Rightarrow>
          let (done, a', st') = translatePlayerSPA tx a n st in
          (case (if done then Some a' else translateReplyAddress tx a' n) of
             None \<Rightarrow> Inl Undefined
           | Some a'' \<Rightarrow>
               (case store_bytes buf i (DPAddress_bytes a'') of
                  None \<Rightarrow> Inl Undefined | Some buf' \<Rightarrow> Inr (buf', st'))))"

definition translateHeader ::
  "'st GameAddressTranslater \<Rightarrow> bytestring \<Rightarrow> nat \<Rightarrow> cpp_error + bool \<times> bytestring" where
  "translateHeader tx buf i =
     (case looksOk_at buf i of
        None \<Rightarrow> Inl Undefined
      | Some False \<Rightarrow> Inr (False, buf)
      | Some True \<Rightarrow>
          (case Option.bind (address_ref buf (i + 4)) (\<lambda>a. translateReplyAddress tx a 0) of
             None \<Rightarrow> Inl Undefined
           | Some a \<Rightarrow>
               (case store_bytes buf (i + 4) (DPAddress_bytes a) of
                  None \<Rightarrow> Inl Undefined | Some buf' \<Rightarrow> Inr (True, buf'))))"

lemma store_bytes_length: "store_bytes s i bs = Some s' \<Longrightarrow> length s' = length s"
  by (auto simp: store_bytes_def split: if_splits)

lemma translate_spa_length: "translate_spa tx buf i n st = Inr (buf', st') \<Longrightarrow> length buf' = length buf \<and> i + 16 \<le> length buf"
  by (auto simp: translate_spa_def address_ref_def dest: store_bytes_length
      split: option.splits prod.splits if_splits)

text \<open>
  The loop over the service provider addresses of one player: \<open>n\<close> counts them, \<open>sp_size\<close> is the
  announced size of the list. The fields the condition reads lie before the first address.
\<close>

function translate_addresses ::
  "'st GameAddressTranslater \<Rightarrow> bytestring \<Rightarrow> nat \<Rightarrow> nat \<Rightarrow> nat \<Rightarrow> 'st \<Rightarrow> cpp_error + bytestring \<times> 'st" where
  "translate_addresses tx buf addr n sp_size st =
     (if \<not> n * 16 < sp_size then Inr (buf, st)
      else case translate_spa tx buf addr n st of
             Inl e \<Rightarrow> Inl e
           | Inr (buf', st') \<Rightarrow> translate_addresses tx buf' (addr + 16) (n + 1) sp_size st')"
  by pat_completeness auto
termination
  by (relation "measure (\<lambda>(tx, buf, addr, n, sp, st). sp - n * 16)") auto

declare translate_addresses.simps [simp del]

definition translateForwardOrCreateRequest ::
  "'st GameAddressTranslater \<Rightarrow> bytestring \<Rightarrow> nat \<Rightarrow> 'st \<Rightarrow> cpp_error + bool \<times> bytestring \<times> 'st" where
  "translateForwardOrCreateRequest tx buf i st =
     (case load16 buf (i + 24) of
        None \<Rightarrow> Inl Undefined
      | Some cmd \<Rightarrow>
          if cmd \<noteq> 0x2e \<and> cmd \<noteq> 0x13 \<and> cmd \<noteq> 0x08 \<and> cmd \<noteq> 0x38 then Inr (False, buf, st)
          else let req = i + 28; player = req + 20; sentinel = req + 68 in
            (case (load32 buf (player + 12), load32 buf (player + 16), load32 buf (player + 20)) of
               (Some short_len, Some long_len, Some sp_size) \<Rightarrow>
                 if sp_size = 0 then Inr (False, buf, st)
                 else map_sum id (Pair True)
                   (translate_addresses tx buf (sentinel + unat short_len + unat long_len) 0 (unat sp_size) st)
             | _ \<Rightarrow> Inl Undefined))"

text \<open>Where the addresses of a packed player start.\<close>

definition skip_name :: "bytestring \<Rightarrow> bool \<Rightarrow> nat \<Rightarrow> nat option" where
  "skip_name s have i = (if have then skipCWStr s i else Some i)"

definition spa_position :: "bytestring \<Rightarrow> nat \<Rightarrow> nat option" where
  "spa_position s player =
     (case (load32 s player, load32 s (player + 12)) of
        (Some sz, Some info) \<Rightarrow>
          Option.bind (skip_name s (bit info 0) (player + unat sz + 4)) (\<lambda>ptr.
          Option.bind (skip_name s (bit info 1) ptr) (\<lambda>ptr.
          Option.bind (skip_player_data s (drop_bit 4 info AND 3) ptr) (\<lambda>ptr.
          skip_service_length s (drop_bit 2 info AND 3) ptr)))
      | _ \<Rightarrow> None)"

lemma skipCWStr_ge: "skipCWStr s i = Some j \<Longrightarrow> i \<le> j"
  by (induction s i rule: skipCWStr.induct)
     (subst (asm) (2) skipCWStr.simps, auto split: option.splits if_splits)

lemma spa_position_ge: "spa_position s player = Some addr \<Longrightarrow> player \<le> addr"
  by (auto simp: spa_position_def skip_name_def skip_player_data_def skip_service_length_def bind_eq_Some_conv
      dest!: skipCWStr_ge split: option.splits if_splits)

text \<open>The loop over the players; the count is read again from the buffer at every turn.\<close>

function translate_players ::
  "'st GameAddressTranslater \<Rightarrow> bytestring \<Rightarrow> nat \<Rightarrow> nat \<Rightarrow> nat \<Rightarrow> 'st \<Rightarrow> cpp_error + bytestring \<times> 'st" where
  "translate_players tx buf i player n st =
     (case load32 buf (i + 28) of
        None \<Rightarrow> Inl Undefined
      | Some player_count \<Rightarrow>
          if \<not> n < unat player_count then Inr (buf, st)
          else case spa_position buf player of
                 None \<Rightarrow> Inl Undefined
               | Some addr \<Rightarrow>
                   (case translate_spa tx buf addr 0 st of
                      Inl e \<Rightarrow> Inl e
                    | Inr (buf', st') \<Rightarrow>
                        (case translate_spa tx buf' (addr + 16) 1 st' of
                           Inl e \<Rightarrow> Inl e
                         | Inr (buf'', st'') \<Rightarrow> translate_players tx buf'' i (addr + 32) (n + 1) st'')))"
  by pat_completeness auto
termination
  by (relation "measure (\<lambda>(tx, buf, i, player, n, st). length buf - player)")
     (auto dest!: translate_spa_length spa_position_ge)

declare translate_players.simps [simp del]

definition translateSuperEnumPlayersReply ::
  "'st GameAddressTranslater \<Rightarrow> bytestring \<Rightarrow> nat \<Rightarrow> 'st \<Rightarrow> cpp_error + bool \<times> bytestring \<times> 'st" where
  "translateSuperEnumPlayersReply tx buf i st =
     (case load16 buf (i + 24) of
        None \<Rightarrow> Inl Undefined
      | Some cmd \<Rightarrow>
          if cmd \<noteq> 0x0029 then Inr (False, buf, st)
          else case load32 buf (i + 28 + 8) of
                 None \<Rightarrow> Inl Undefined
               | Some packed_offset \<Rightarrow>
                   if packed_offset = 0 then Inr (True, buf, st)
                   else map_sum id (Pair True)
                     (translate_players tx buf i (i + 0x4a - 0x36 + unat packed_offset) 0 st))"

text \<open>The body of the loop of \<open>operator()\<close>, and the loop.\<close>

definition translate_message ::
  "'st GameAddressTranslater \<Rightarrow> bytestring \<Rightarrow> nat \<Rightarrow> 'st \<Rightarrow> cpp_error + bytestring \<times> 'st" where
  "translate_message tx buf ptr st =
     (case translateHeader tx buf ptr of
        Inl e \<Rightarrow> Inl e
      | Inr (False, buf') \<Rightarrow> Inr (buf', st)
      | Inr (True, buf') \<Rightarrow>
          (case translateSuperEnumPlayersReply tx buf' ptr st of
             Inl e \<Rightarrow> Inl e
           | Inr (True, buf'', st') \<Rightarrow> Inr (buf'', st')
           | Inr (False, buf'', st') \<Rightarrow> map_sum id snd (translateForwardOrCreateRequest tx buf'' ptr st')))"

partial_function (option) translate_loop ::
  "'st GameAddressTranslater \<Rightarrow> bytestring \<Rightarrow> nat \<Rightarrow> 'st \<Rightarrow> (cpp_error + bytestring \<times> 'st) option" where
  "translate_loop tx buf ptr st =
     (if \<not> ptr < length buf then Some (Inr (buf, st))
      else if load32 buf ptr = None then Some (Inl Undefined)
      else case translate_message tx buf ptr st of
             Inl e \<Rightarrow> Some (Inl e)
           | Inr (buf', st') \<Rightarrow>
               (case load32 buf' ptr of
                  None \<Rightarrow> Some (Inl Undefined)
                | Some sat \<Rightarrow> translate_loop tx buf' (ptr + header_size sat) st'))"

definition translate ::
  "'st GameAddressTranslater \<Rightarrow> bytestring \<Rightarrow> 'st \<Rightarrow> (cpp_error + bytestring \<times> 'st) option" where
  "translate tx buf st = translate_loop tx buf 0 st"

section \<open>Addresses in place\<close>

lemma store_bytes_at [codec_simps]:
  "length xs = i \<Longrightarrow> length old = length new \<Longrightarrow> store_bytes (xs @ old @ ys) i new = Some (xs @ new @ ys)"
  by (simp add: store_bytes_def)

lemma address_ref_at [codec_simps]:
  "address_ok a \<Longrightarrow> length xs = i \<Longrightarrow> address_ref (xs @ DPAddress_bytes a @ ys) i = Some a"
  by (simp add: address_ref_def DPAddress_at_bytes)

text \<open>What becomes of a list of addresses: the callback, or the reply address where it declines.\<close>

fun spa_results :: "'st GameAddressTranslater \<Rightarrow> nat \<Rightarrow> DPAddress list \<Rightarrow> 'st \<Rightarrow> (DPAddress list \<times> 'st) option" where
  "spa_results tx n [] st = Some ([], st)"
| "spa_results tx n (a # as) st =
     (let (done, a', st') = translatePlayerSPA tx a n st in
      case (if done then Some a' else translateReplyAddress tx a' n) of
        None \<Rightarrow> None
      | Some a'' \<Rightarrow> map_option (\<lambda>(bs, st''). (a'' # bs, st'')) (spa_results tx (n + 1) as st'))"

lemma spa_results_length: "spa_results tx n as st = Some (bs, st') \<Longrightarrow> length bs = length as"
  by (induction as arbitrary: n bs st) (auto simp: Let_def split: prod.splits option.splits if_splits)

abbreviation addresses_bytes :: "DPAddress list \<Rightarrow> bytestring" where
  "addresses_bytes as \<equiv> concat (map DPAddress_bytes as)"

lemma length_addresses_bytes [simp]: "list_all address_ok as \<Longrightarrow> length (addresses_bytes as) = 16 * length as"
  by (induction as) auto

lemma translate_addresses_at:
  assumes "list_all address_ok as" and "spa_results tx n as st = Some (bs, st')" and "list_all address_ok bs"
    and "length xs = i"
  shows "translate_addresses tx (xs @ addresses_bytes as @ ys) i n (16 * (n + length as)) st =
    Inr (xs @ addresses_bytes bs @ ys, st')"
  using assms
proof (induction as arbitrary: xs i n st bs)
  case Nil
  then show ?case by (simp add: translate_addresses.simps)
next
  case (Cons a as)
  obtain d a1 st1 where spa: "translatePlayerSPA tx a n st = (d, a1, st1)" by (metis prod_cases3)
  from Cons.prems(2) spa obtain b bs' where
    b: "(if d then Some a1 else translateReplyAddress tx a1 n) = Some b"
    and bs: "bs = b # bs'" and rest: "spa_results tx (n + 1) as st1 = Some (bs', st')"
    by (auto simp: Let_def split: option.splits)
  have step: "translate_spa tx (xs @ DPAddress_bytes a @ addresses_bytes as @ ys) i n st =
      Inr ((xs @ DPAddress_bytes b) @ addresses_bytes as @ ys, st1)"
    using Cons.prems(1,3,4) bs spa b
    by (simp add: translate_spa_def address_ref_at store_bytes_at)
  have "translate_addresses tx ((xs @ DPAddress_bytes b) @ addresses_bytes as @ ys) (i + 16) (n + 1)
      (16 * (n + 1 + length as)) st1 = Inr ((xs @ DPAddress_bytes b) @ addresses_bytes bs' @ ys, st')"
    using Cons.prems bs rest by (intro Cons.IH) auto
  then show ?case
    using step bs by (subst translate_addresses.simps) (simp add: algebra_simps)
qed

lemma mkDPAddress_readdress:
  "set_port p (set_address a (mkDPAddress a0 p0)) = mkDPAddress a p"
  by (simp add: mkDPAddress_def set_port_def set_address_def)

lemma DPHeader_bytes_split:
  "DPHeader_bytes (mkDPHeader a p act cmd dial n) =
     le32 (size_and_token (mkDPHeader 0 0 [] 0 0 n)) @ DPAddress_bytes (mkDPAddress a p) @ act @ le16 cmd @ le16 dial"
  by (simp add: DPHeader_bytes_def mkDPHeader_def)

lemma translateHeader_at:
  assumes "length act = 4" and "n + 28 < 2 ^ 20" and "length xs = i"
  shows "translateHeader tx (xs @ DPHeader_bytes (mkDPHeader a p act cmd dial n) @ ys) i =
    Inr (True, xs @ DPHeader_bytes (mkDPHeader (replyAddress tx) (fst (replyPorts tx)) act cmd dial n) @ ys)"
proof -
  let ?sat = "le32 (size_and_token (mkDPHeader 0 0 [] 0 0 n))" and ?rest = "act @ le16 cmd @ le16 dial @ ys"
  let ?to = "mkDPAddress (replyAddress tx) (fst (replyPorts tx))"
  have ok: "header_ok (mkDPHeader a p act cmd dial n)" "address_ok (mkDPAddress a p)" "address_ok ?to"
    using assms(1) by (simp_all add: address_ok_def)
  have "looksOk_at (xs @ DPHeader_bytes (mkDPHeader a p act cmd dial n) @ ys) i = Some True"
    using looksOk_at_bytes [OF ok(1) assms(3)] mkDPHeader_looksOk [OF assms(2)] by simp
  moreover have "address_ref ((xs @ ?sat) @ DPAddress_bytes (mkDPAddress a p) @ ?rest) (i + 4) = Some (mkDPAddress a p)"
    using ok assms(3) by (intro address_ref_at) simp_all
  moreover have "store_bytes ((xs @ ?sat) @ DPAddress_bytes (mkDPAddress a p) @ ?rest) (i + 4) (DPAddress_bytes ?to) =
      Some ((xs @ ?sat) @ DPAddress_bytes ?to @ ?rest)"
    using ok assms(3) by (intro store_bytes_at) simp_all
  ultimately show ?thesis
    by (simp add: translateHeader_def DPHeader_bytes_split translateReplyAddress_def reply_port_def
        mkDPAddress_readdress)
qed

section \<open>Messages of the game\<close>

text \<open>The commands whose messages carry addresses beyond the header's.\<close>

definition carries_addresses :: "u16 \<Rightarrow> bool" where
  "carries_addresses cmd = (cmd \<in> {0x29, 0x2e, 0x13, 0x08, 0x38})"

fun readdress :: "'st GameAddressTranslater \<Rightarrow> message \<Rightarrow> message" where
  "readdress tx (a, p, src, cmd, dial, payload) = (replyAddress tx, fst (replyPorts tx), src, cmd, dial, payload)"

fun plain_message :: "message \<Rightarrow> bool" where
  "plain_message (a, p, src, cmd, dial, payload) = (\<not> carries_addresses cmd \<and> length payload + 28 < 2 ^ 20)"

lemma translate_message_plain:
  assumes "length act = 4" and "n + 28 < 2 ^ 20" and "length xs = i" and "\<not> carries_addresses cmd"
  shows "translate_message tx (xs @ DPHeader_bytes (mkDPHeader a p act cmd dial n) @ ys) i st =
    Inr (xs @ DPHeader_bytes (mkDPHeader (replyAddress tx) (fst (replyPorts tx)) act cmd dial n) @ ys, st)"
proof -
  let ?h = "mkDPHeader (replyAddress tx) (fst (replyPorts tx)) act cmd dial n"
  have "load16 (xs @ DPHeader_bytes ?h @ ys) (i + 24) = Some cmd"
    using header_fields_at(3) [of ?h xs i ys] assms by simp
  then show ?thesis
    using translateHeader_at [OF assms(1-3), of tx a p cmd dial ys] assms(4)
    by (simp add: translate_message_def translateSuperEnumPlayersReply_def translateForwardOrCreateRequest_def
        carries_addresses_def)
qed

text \<open>
  Rewriting a buffer of game messages replaces the reply address of every message by the
  translater's own and changes nothing else: each message keeps its sender, command, dialect and
  payload byte for byte, for any number of messages, and the rewriting returns.
\<close>

theorem translate_messages:
  assumes "list_all plain_message ms"
  shows "translate tx (concat (map message_bytes ms)) st =
    Some (Inr (concat (map (message_bytes \<circ> readdress tx) ms), st))"
proof -
  have "translate_loop tx (xs @ concat (map message_bytes ms)) (length xs) st =
      Some (Inr (xs @ concat (map (message_bytes \<circ> readdress tx) ms), st))" for xs
    using assms
  proof (induction ms arbitrary: xs)
    case Nil
    then show ?case by (simp add: translate_loop.simps)
  next
    case (Cons m ms)
    obtain a p src cmd dial payload where m: "m = (a, p, src, cmd, dial, payload)" by (cases m) auto
    let ?h = "mkDPHeader a p (le32 src) cmd dial (length payload)"
    let ?h' = "mkDPHeader (replyAddress tx) (fst (replyPorts tx)) (le32 src) cmd dial (length payload)"
    let ?ys = "payload @ concat (map message_bytes ms)"
    have fits: "length payload + 28 < 2 ^ 20" "\<not> carries_addresses cmd"
      using Cons.prems m by simp_all
    have msg: "translate_message tx (xs @ DPHeader_bytes ?h @ ?ys) (length xs) st =
        Inr (xs @ DPHeader_bytes ?h' @ ?ys, st)"
      using fits by (intro translate_message_plain) simp_all
    have sat: "load32 (xs @ DPHeader_bytes ?h @ ?ys) (length xs) = Some (size_and_token ?h)"
      "load32 (xs @ DPHeader_bytes ?h' @ ?ys) (length xs) = Some (size_and_token ?h')"
      by (rule header_fields_at; simp)+
    have len: "length xs + header_size (size_and_token ?h') = length (xs @ DPHeader_bytes ?h' @ payload)"
      using mkDPHeader_size [OF fits(1)] by simp
    have "length xs < length (xs @ DPHeader_bytes ?h @ ?ys)" by simp
    then have "translate_loop tx (xs @ DPHeader_bytes ?h @ ?ys) (length xs) st =
        translate_loop tx (xs @ DPHeader_bytes ?h' @ ?ys) (length (xs @ DPHeader_bytes ?h' @ payload)) st"
      using msg sat len by (subst translate_loop.simps) simp
    also have "\<dots> = Some (Inr ((xs @ DPHeader_bytes ?h' @ payload) @
        concat (map (message_bytes \<circ> readdress tx) ms), st))"
      using Cons.IH [of "xs @ DPHeader_bytes ?h' @ payload"] Cons.prems by (simp add: comp_def)
    finally show ?case by (simp add: m comp_def)
  qed
  from this [of "[]"] show ?thesis by (simp add: translate_def)
qed

theorem translate_messages_witness:
  "list_all plain_message [(1, 2, 3, 4, 5, [6, 7, 8]), (9, 10, 11, 0x30, 13, [])] \<and>
   translate (plainTranslater 0x7f000001 (2300, 2350))
     (concat (map message_bytes [(1, 2, 3, 4, 5, [6, 7, 8]), (9, 10, 11, 0x30, 13, [])])) () =
   Some (Inr (concat (map message_bytes
     [(0x7f000001, 2300, 3, 4, 5, [6, 7, 8]), (0x7f000001, 2300, 11, 0x30, 13, [])]), ()))"
proof -
  have ok: "list_all plain_message [(1, 2, 3, 4, 5, [6, 7, 8]), (9, 10, 11, 0x30, 13, [])]"
    by (simp add: carries_addresses_def)
  show ?thesis
    using ok translate_messages [OF ok, of "plainTranslater 0x7f000001 (2300, 2350)" "()"]
    by (simp add: plainTranslater_def)
qed

section \<open>Messages about players\<close>

text \<open>
  A create or forward message: header, 32 bytes of ids and flags, the lengths of the two names and of
  the address list, 24 more bytes, the names, the addresses.
\<close>

definition player_body :: "bytestring \<Rightarrow> bytestring \<Rightarrow> bytestring \<Rightarrow> bytestring \<Rightarrow> DPAddress list \<Rightarrow> bytestring" where
  "player_body pre post short_name long_name as =
     pre @ le32 (word_of_nat (length short_name)) @ le32 (word_of_nat (length long_name)) @
     le32 (word_of_nat (16 * length as)) @ post @ short_name @ long_name @ addresses_bytes as"

definition player_message ::
  "u32 \<Rightarrow> u16 \<Rightarrow> u16 \<Rightarrow> u16 \<Rightarrow> bytestring \<Rightarrow> bytestring \<Rightarrow> bytestring \<Rightarrow> bytestring \<Rightarrow> DPAddress list \<Rightarrow> bytestring" where
  "player_message a p cmd dial pre post short_name long_name as =
     DPHeader_bytes (mkDPHeader a p play cmd dial (68 + length short_name + length long_name + 16 * length as)) @
     player_body pre post short_name long_name as"

lemma player_body_fields:
  assumes "length hdr = 28" and "length pre = 32"
  shows "load32 (hdr @ player_body pre post sn ln as) 60 = Some (word_of_nat (length sn))"
    and "load32 (hdr @ player_body pre post sn ln as) 64 = Some (word_of_nat (length ln))"
    and "load32 (hdr @ player_body pre post sn ln as) 68 = Some (word_of_nat (16 * length as))"
proof -
  let ?w = "\<lambda>xs. le32 (word_of_nat (length xs))"
  show "load32 (hdr @ player_body pre post sn ln as) 60 = Some (word_of_nat (length sn))"
    using load32_at [of "hdr @ pre" 60] assms by (simp add: player_body_def)
  show "load32 (hdr @ player_body pre post sn ln as) 64 = Some (word_of_nat (length ln))"
    using load32_at [of "hdr @ pre @ ?w sn" 64] assms by (simp add: player_body_def)
  show "load32 (hdr @ player_body pre post sn ln as) 68 = Some (word_of_nat (16 * length as))"
    using load32_at [of "hdr @ pre @ ?w sn @ ?w ln" 68] assms by (simp add: player_body_def)
qed

lemma unat_word_of_nat_small: "n < 2 ^ 20 \<Longrightarrow> unat (word_of_nat n :: u32) = n"
  by (simp add: unsigned_of_nat take_bit_nat_eq_self)

lemma translateForwardOrCreateRequest_at:
  assumes hdr: "length hdr = 28" "load16 (hdr @ player_body pre post sn ln as) 24 = Some cmd"
    and cmd: "cmd \<in> {0x2e, 0x13, 0x08, 0x38}" and len: "length pre = 32" "length post = 24"
    and small: "68 + length sn + length ln + 16 * length as < 2 ^ 20" and ne: "as \<noteq> []"
    and spa: "list_all address_ok as" "spa_results tx 0 as st = Some (bs, st')" "list_all address_ok bs"
  shows "translateForwardOrCreateRequest tx (hdr @ player_body pre post sn ln as) 0 st =
    Inr (True, hdr @ player_body pre post sn ln bs, st')"
proof -
  let ?pre = "\<lambda>as. hdr @ pre @ le32 (word_of_nat (length sn)) @ le32 (word_of_nat (length ln)) @
     le32 (word_of_nat (16 * length as)) @ post @ sn @ ln"
  have buf: "hdr @ player_body pre post sn ln cs = ?pre cs @ addresses_bytes cs @ []" for cs
    by (simp add: player_body_def)
  have bs: "length bs = length as"
    using spa(2) by (rule spa_results_length)
  have "translate_addresses tx (hdr @ player_body pre post sn ln as) (96 + length sn + length ln) 0
      (16 * (0 + length as)) st = Inr (?pre as @ addresses_bytes bs @ [], st')"
    unfolding buf using spa hdr(1) len by (intro translate_addresses_at) simp_all
  also have "?pre as @ addresses_bytes bs @ [] = hdr @ player_body pre post sn ln bs"
    unfolding buf using bs by simp
  finally have "translate_addresses tx (hdr @ player_body pre post sn ln as) (96 + length sn + length ln) 0
      (16 * length as) st = Inr (hdr @ player_body pre post sn ln bs, st')"
    by simp
  moreover have "unat (word_of_nat (length sn) :: u32) = length sn" "unat (word_of_nat (length ln) :: u32) = length ln"
    "unat (word_of_nat (16 * length as) :: u32) = 16 * length as"
    using small by (intro unat_word_of_nat_small; simp)+
  moreover from this(3) have "(word_of_nat (16 * length as) :: u32) \<noteq> 0"
    using ne by (metis length_0_conv mult_is_0 unat_0 zero_neq_numeral)
  ultimately show ?thesis
    using player_body_fields [OF hdr(1) len(1), of post sn ln as] hdr cmd
    by (auto simp: translateForwardOrCreateRequest_def)
qed

lemma translate_player_message_eq:
  assumes "cmd \<in> {0x2e, 0x13, 0x08, 0x38}" and "length pre = 32" and "length post = 24"
    and "96 + length sn + length ln + 16 * length as < 2 ^ 20" and "as \<noteq> []"
    and "list_all address_ok as" and "spa_results tx 0 as st = Some (bs, st')" and "list_all address_ok bs"
  shows "translate tx (player_message a p cmd dial pre post sn ln as) st =
    Some (Inr (player_message (replyAddress tx) (fst (replyPorts tx)) cmd dial pre post sn ln bs, st'))"
proof -
  let ?n = "68 + length sn + length ln + 16 * length as"
  let ?h = "mkDPHeader a p play cmd dial ?n"
  let ?h' = "mkDPHeader (replyAddress tx) (fst (replyPorts tx)) play cmd dial ?n"
  let ?b = "player_body pre post sn ln"
  have n: "?n + 28 < 2 ^ 20" using assms(4) by simp
  have ok: "header_ok h'" if "h' = ?h \<or> h' = ?h'" for h' using that by (auto simp: play_def)
  have bs: "length bs = length as"
    using assms(7) by (rule spa_results_length)
  have cmd24: "load16 (DPHeader_bytes ?h' @ ys) 24 = Some cmd" for ys
    using header_fields_at(3) [OF ok, of ?h' "[]" 0 ys] by simp
  have hdr: "translateHeader tx (DPHeader_bytes ?h @ ?b as) 0 = Inr (True, DPHeader_bytes ?h' @ ?b as)"
    using translateHeader_at [of play ?n "[]" 0 tx a p cmd dial "?b as"] n by (simp add: play_def)
  have req: "translateForwardOrCreateRequest tx (DPHeader_bytes ?h' @ ?b as) 0 st = Inr (True, DPHeader_bytes ?h' @ ?b bs, st')"
    using assms cmd24 ok by (intro translateForwardOrCreateRequest_at) auto
  have msg: "translate_message tx (DPHeader_bytes ?h @ ?b as) 0 st = Inr (DPHeader_bytes ?h' @ ?b bs, st')"
    using hdr req cmd24 assms(1) by (auto simp: translate_message_def translateSuperEnumPlayersReply_def)
  have sat: "load32 (DPHeader_bytes h' @ ys) 0 = Some (size_and_token h')" if "h' = ?h \<or> h' = ?h'" for h' ys
    using header_fields_at(1) [OF ok [OF that], of "[]" 0 ys] by simp
  have "header_size (size_and_token ?h') = length (DPHeader_bytes ?h' @ ?b bs)"
    using mkDPHeader_size [OF n] ok bs assms by (simp add: player_body_def)
  then show ?thesis
    using msg sat ok bs
    by (simp add: translate_def player_message_def translate_loop.simps [of tx _ 0] translate_loop.simps [of tx "_ @ ?b bs"])
qed

text \<open>
  In a message about a joining player every address of the player is replaced by what the callback
  makes of it (or by the reply address where the callback declines), in order and with the callback's
  state threaded through; the header gets the reply address, and names, ids and flags stay as they are.
\<close>

theorem translate_player_message:
  assumes "cmd \<in> {0x2e, 0x13, 0x08, 0x38}" and "length pre = 32" and "length post = 24"
    and "96 + length sn + length ln + 16 * length as < 2 ^ 20" and "as \<noteq> []"
    and "list_all address_ok as" and "spa_results tx 0 as st = Some (bs, st')" and "list_all address_ok bs"
  shows "translate tx (player_message a p cmd dial pre post sn ln as) st =
    Some (Inr (player_message (replyAddress tx) (fst (replyPorts tx)) cmd dial pre post sn ln bs, st'))"
  using assms by (rule translate_player_message_eq)

theorem translate_player_message_witness:
  "translate (plainTranslater 0x7f000001 (2300, 2350))
     (player_message 9 9 8 14 (replicate 32 0) (replicate 24 0) [65, 0, 0, 0] [] [mkDPAddress 1 2, mkDPAddress 3 4]) () =
   Some (Inr (player_message 0x7f000001 2300 8 14 (replicate 32 0) (replicate 24 0) [65, 0, 0, 0] []
     [mkDPAddress 0x7f000001 2300, mkDPAddress 0x7f000001 2350], ()))"
proof -
  let ?tx = "plainTranslater 0x7f000001 (2300, 2350) :: unit GameAddressTranslater"
  have "spa_results ?tx 0 [mkDPAddress 1 2, mkDPAddress 3 4] () =
      Some ([mkDPAddress 0x7f000001 2300, mkDPAddress 0x7f000001 2350], ())"
    by (simp add: plainTranslater_def translateReplyAddress_def reply_port_def mkDPAddress_readdress)
  then show ?thesis
    using translate_player_message [of 8 "replicate 32 0" "replicate 24 0" "[65, 0, 0, 0]" "[]"
        "[mkDPAddress 1 2, mkDPAddress 3 4]" ?tx "()"]
    by (simp add: address_ok_def) (simp add: plainTranslater_def)
qed

section \<open>Buffers on which the loop does not end\<close>

lemma translate_loop_stuck:
  assumes "translate_loop tx buf ptr st = Some r"
  shows "\<not> (ptr < length buf \<and> looksOk_at buf ptr = Some False \<and> (\<exists>sat. load32 buf ptr = Some sat \<and> header_size sat = 0))"
proof (induction rule: translate_loop.raw_induct [OF _ assms])
  case (1 loop tx buf ptr st r)
  show ?case
  proof
    assume stuck: "ptr < length buf \<and> looksOk_at buf ptr = Some False \<and>
      (\<exists>sat. load32 buf ptr = Some sat \<and> header_size sat = 0)"
    then have "translate_message tx buf ptr st = Inr (buf, st)"
      by (simp add: translate_message_def translateHeader_def)
    then have "loop tx buf ptr st = Some r"
      using "1"(2) stuck by (auto split: if_splits)
    then show False using "1"(1) stuck by blast
  qed
qed

text \<open>
  The rewriting never returns from a buffer at whose start there is no DirectPlay header and
  whose size field, the low 20 bits of the first word, is 0: it stays on the same byte forever. So
  a chunk of a TCP stream that begins in the middle of a message can hang the application.
\<close>

theorem translate_hangs:
  assumes "looksOk_at buf 0 = Some False" and "load32 buf 0 = Some sat" and "header_size sat = 0"
  shows "translate tx buf st = None"
proof -
  have "0 < length buf" using assms(1) by (auto simp: looksOk_at_def load16_def byte_at_def split: if_splits)
  then show ?thesis
    using translate_loop_stuck [of tx buf 0 st] assms unfolding translate_def
    by (cases "translate_loop tx buf 0 st") auto
qed

theorem translate_hangs_witness:
  "looksOk_at (replicate 40 0) 0 = Some False \<and> translate (plainTranslater 1 (2, 3)) (replicate 40 0) () = None"
proof -
  have 1: "looksOk_at (replicate 40 0) 0 = Some False" "load32 (replicate 40 0) 0 = Some 0" "header_size 0 = 0"
    by code_simp+
  show ?thesis using 1(1) translate_hangs [OF 1] by simp
qed

section \<open>Callbacks without effects\<close>

text \<open>A translater whose callback leaves its state alone leaves it alone.\<close>

definition pure_spa :: "'st GameAddressTranslater \<Rightarrow> bool" where
  "pure_spa tx = (\<forall>a n st. snd (snd (translatePlayerSPA tx a n st)) = st)"

lemma translate_spa_pure: "pure_spa tx \<Longrightarrow> translate_spa tx buf i n st = Inr (buf', st') \<Longrightarrow> st' = st"
  unfolding translate_spa_def pure_spa_def
  by (auto simp: Let_def split: option.splits prod.splits if_splits) (metis snd_conv)+

lemma translate_addresses_pure:
  "pure_spa tx \<Longrightarrow> translate_addresses tx buf i n sz st = Inr (buf', st') \<Longrightarrow> st' = st"
proof (induction tx buf i n sz st arbitrary: buf' st' rule: translate_addresses.induct)
  case (1 tx buf i n sz st)
  then show ?case
    by (subst (asm) (2) translate_addresses.simps)
       (auto split: if_splits sum.splits dest: translate_spa_pure)
qed

lemma translate_players_pure:
  "pure_spa tx \<Longrightarrow> translate_players tx buf i pl n st = Inr (buf', st') \<Longrightarrow> st' = st"
proof (induction tx buf i pl n st arbitrary: buf' st' rule: translate_players.induct)
  case (1 tx buf i pl n st)
  consider "buf' = buf" "st' = st"
    | k addr b1 s1 b2 s2 where "load32 buf (i + 28) = Some k" "\<not> \<not> n < unat k" "spa_position buf pl = Some addr"
      "translate_spa tx buf addr 0 st = Inr (b1, s1)" "translate_spa tx b1 (addr + 16) 1 s1 = Inr (b2, s2)"
      "translate_players tx b2 i (addr + 32) (n + 1) s2 = Inr (buf', st')"
    using "1.prems"(2) by (subst (asm) translate_players.simps) (auto split: option.splits if_splits sum.splits)
  then show ?case
  proof cases
    case 2
    then show ?thesis
      using "1.IH" [OF 2(1-4) refl 2(5) refl "1.prems"(1) 2(6)] translate_spa_pure [OF "1.prems"(1)] by blast
  qed simp
qed

lemma translate_message_pure: "pure_spa tx \<Longrightarrow> translate_message tx buf i st = Inr (buf', st') \<Longrightarrow> st' = st"
  unfolding translate_message_def translateSuperEnumPlayersReply_def translateForwardOrCreateRequest_def
  by (auto simp: Let_def split: sum.splits prod.splits bool.splits option.splits if_splits
      dest: translate_players_pure translate_addresses_pure)

lemma translate_pure:
  assumes "translate tx buf st = Some (Inr (buf', st'))" and "pure_spa tx"
  shows "st' = st"
proof -
  have "\<forall>b' s'. r = Inr (b', s') \<longrightarrow> pure_spa tx \<longrightarrow> s' = st" if "translate_loop tx buf ptr st = Some r" for tx buf ptr st r
  proof (induction rule: translate_loop.raw_induct [OF _ that])
    case (1 loop tx buf ptr st r)
    show ?case
    proof (intro allI impI)
      fix b' s'
      assume r: "r = Inr (b', s')" and pure: "pure_spa tx"
      consider "s' = st" | b s x where "translate_message tx buf ptr st = Inr (b, s)" "loop tx b x s = Some r"
        using "1"(2) r by (auto split: if_splits sum.splits option.splits)
      then show "s' = st"
      proof cases
        case (2 b s x)
        then show ?thesis using "1"(1) [OF 2(2)] translate_message_pure [OF pure 2(1)] r pure by simp
      qed
    qed
  qed
  from this [of tx buf 0 st "Inr (buf', st')"] show ?thesis using assms by (simp add: translate_def)
qed

end
