(* ===== verification/Game_Sockets.thy ===== *)
theory Game_Sockets
  imports Prelude
begin

text \<open>
  The sockets towards the local game (\<open>libs/tafnet/GameSender.cpp\<close>, \<open>GameReceiver.cpp\<close>): which ports data
  is sent to and which channel a socket belongs to. What reaches the game is a list of \<open>game_event\<close>s.
  Whether a connection attempt succeeds and which port the operating system assigns is decided by the
  environment and passed as an argument.
\<close>

section \<open>Sending\<close>

datatype game_event =
    EnumWrite u32 u16 bytestring   \<comment> \<open>address, port, data, over a connection of its own\<close>
  | TcpConnect u32 u16
  | TcpWrite bytestring
  | UdpWrite u32 u16 bytestring

record GameSender =
  gs_gameAddress :: u32
  gs_enumPort :: u16
  gs_tcpPort :: u16
  gs_udpPort :: u16
  gs_tcpOpen :: bool

definition GameSender_new :: "u32 \<Rightarrow> u16 \<Rightarrow> GameSender" where
  "GameSender_new gameAddress enumPort =
     \<lparr>gs_gameAddress = gameAddress, gs_enumPort = enumPort, gs_tcpPort = 0, gs_udpPort = 0, gs_tcpOpen = False\<rparr>"

definition setTcpPort :: "u16 \<Rightarrow> GameSender \<Rightarrow> GameSender" where
  "setTcpPort p gs = gs\<lparr>gs_tcpPort := p\<rparr>"

definition setUdpPort :: "u16 \<Rightarrow> GameSender \<Rightarrow> GameSender" where
  "setUdpPort p gs = gs\<lparr>gs_udpPort := p\<rparr>"

definition setGameAddress :: "u32 \<Rightarrow> GameSender \<Rightarrow> GameSender" where
  "setGameAddress a gs = gs\<lparr>gs_gameAddress := a\<rparr>"

text \<open>\<open>connected\<close> is the result of \<open>waitForConnected\<close>.\<close>

definition enumSessions :: "bool \<Rightarrow> bytestring \<Rightarrow> GameSender \<Rightarrow> bool \<times> game_event list" where
  "enumSessions connected s gs =
     (if \<not> connected then (False, []) else (True, [EnumWrite (gs_gameAddress gs) (gs_enumPort gs) s]))"

text \<open>\<open>opens\<close> is whether the socket is open after the attempt.\<close>

definition openTcpSocket :: "bool \<Rightarrow> GameSender \<Rightarrow> GameSender \<times> game_event list" where
  "openTcpSocket opens gs =
     (if gs_tcpPort gs > 0 \<and> \<not> gs_tcpOpen gs
      then (gs\<lparr>gs_tcpOpen := opens\<rparr>, [TcpConnect (gs_gameAddress gs) (gs_tcpPort gs)])
      else (gs, []))"

definition sendTcpData :: "bool \<Rightarrow> bytestring \<Rightarrow> GameSender \<Rightarrow> GameSender \<times> game_event list" where
  "sendTcpData opens s gs =
     (let (gs, evs) = (if gs_tcpOpen gs then (gs, []) else openTcpSocket opens gs)
      in (gs, evs @ (if gs_tcpOpen gs then [TcpWrite s] else [])))"

text \<open>The ports a datagram goes to, in order; \<open>m_tcpPort+50\<close> is an \<open>int\<close>.\<close>

definition udp_ports :: "u16 \<Rightarrow> GameSender \<Rightarrow> u16 list" where
  "udp_ports portOverride gs =
     (let p = (if portOverride = 0 then gs_udpPort gs else portOverride) in
      if p > 0 then [p]
      else if gs_tcpPort gs \<ge> 2300 \<and> gs_tcpPort gs < 2350
      then map word_of_nat [2350..<unat (gs_tcpPort gs) + 50 + 1]
      else if gs_tcpPort gs > 0 then [word_of_nat (unat (gs_tcpPort gs) + 50)]
      else map word_of_nat [2350..<2400])"

definition sendUdpData :: "u16 \<Rightarrow> bytestring \<Rightarrow> GameSender \<Rightarrow> game_event list" where
  "sendUdpData portOverride s gs = map (\<lambda>p. UdpWrite (gs_gameAddress gs) p s) (udp_ports portOverride gs)"

section \<open>Receiving\<close>

definition CHANNEL_ENUM :: int where "CHANNEL_ENUM = 1"
definition CHANNEL_TCP :: int where "CHANNEL_TCP = 2"
definition CHANNEL_UDP :: int where "CHANNEL_UDP = 3"

record GameReceiver =
  gr_bindAddress :: u32
  gr_enumPort :: u16
  gr_tcpPort :: u16
  gr_udpPort :: u16

text \<open>\<open>tcp\<close> and \<open>udp\<close> are the ports the two sockets are bound to after \<open>listen\<close> and \<open>bind\<close>.\<close>

definition GameReceiver_new :: "u32 \<Rightarrow> u16 \<Rightarrow> u16 \<Rightarrow> GameReceiver" where
  "GameReceiver_new bindAddress tcp udp =
     \<lparr>gr_bindAddress = bindAddress, gr_enumPort = 0, gr_tcpPort = tcp, gr_udpPort = udp\<rparr>"

text \<open>\<open>serverPort\<close> is the port the enumeration server has after \<open>listen\<close>.\<close>

definition bindEnumerationPort :: "u16 \<Rightarrow> u16 \<Rightarrow> GameReceiver \<Rightarrow> GameReceiver" where
  "bindEnumerationPort serverPort p gr = gr\<lparr>gr_enumPort := (if p > 0 then serverPort else 0)\<rparr>"

definition getChannelCodeFromSocket :: "u16 \<Rightarrow> bool \<Rightarrow> GameReceiver \<Rightarrow> int" where
  "getChannelCodeFromSocket localPort isTcp gr =
     (if localPort = gr_enumPort gr then CHANNEL_ENUM
      else if isTcp \<and> localPort = gr_tcpPort gr then CHANNEL_TCP
      else if \<not> isTcp \<and> localPort = gr_udpPort gr then CHANNEL_UDP
      else 0)"

definition getListenPorts :: "GameReceiver \<Rightarrow> u16 \<times> u16" where
  "getListenPorts gr = (gr_tcpPort gr, gr_udpPort gr)"

text \<open>What \<open>onReadyReadTcp\<close> and \<open>onReadyReadUdp\<close> pass to the handler: local port, channel, data.\<close>

definition onReadyReadTcp :: "u16 \<Rightarrow> bytestring list \<Rightarrow> GameReceiver \<Rightarrow> (u16 \<times> int \<times> bytestring) list" where
  "onReadyReadTcp localPort reads gr =
     map (\<lambda>d. (localPort, getChannelCodeFromSocket localPort True gr, d)) reads"

definition onReadyReadUdp :: "u16 \<Rightarrow> bytestring list \<Rightarrow> (u16 \<times> int \<times> bytestring) list" where
  "onReadyReadUdp localPort datagrams = map (\<lambda>d. (localPort, CHANNEL_UDP, d)) datagrams"

section \<open>Ports in use\<close>

lemma udp_ports_single: "0 < gs_udpPort gs \<Longrightarrow> udp_ports 0 gs = [gs_udpPort gs]"
  by (simp add: udp_ports_def)

text \<open>Unless the ports are known or the TCP port is unusual, datagrams only go to the game's UDP range.\<close>

lemma udp_ports_range:
  assumes "gs_udpPort gs = 0" and "gs_tcpPort gs = 0 \<or> gs_tcpPort gs \<in> {2300..<2350}" and "p \<in> set (udp_ports 0 gs)"
  shows "2350 \<le> p \<and> p < 2400"
proof -
  have "\<exists>k. p = word_of_nat k \<and> 2350 \<le> k \<and> k < 2400"
  proof (cases "gs_tcpPort gs = 0")
    case True
    then have "p \<in> word_of_nat ` {2350..<2400}" using assms(1,3) by (simp add: udp_ports_def del: upt_rec_numeral)
    then show ?thesis by auto
  next
    case False
    then have t: "2300 \<le> gs_tcpPort gs" "gs_tcpPort gs < 2350" using assms(2) by auto
    then have "p \<in> word_of_nat ` {2350..<unat (gs_tcpPort gs) + 50 + 1}"
      using assms(1,3) by (simp add: udp_ports_def del: upt_rec_numeral)
    moreover have "unat (gs_tcpPort gs) < 2350" using t(2) by (simp add: word_less_nat_alt)
    ultimately show ?thesis by force
  qed
  then show ?thesis
    by (auto simp: word_le_nat_alt word_less_nat_alt unsigned_of_nat take_bit_nat_eq_self)
qed

end
