(* ===== verification/Game_Node.thy ===== *)
theory Game_Node
  imports Tafnet_Node Address_Translater Game_Sockets
begin

text \<open>
  The node between the local game and its peers (\<open>libs/tafnet/TafnetGameNode.cpp\<close>): data of the game is
  parsed, its addresses are replaced by player ids, and it is forwarded to the peer it is meant for; data
  of a peer has the ids replaced by local addresses and goes to the game's sockets. The state has the
  transport node and the packet parser as components, so every handler is a composition of their models.

  A handler returns the new state and its effects in order: datagrams to peers, writes to the game, calls
  of the parser's handlers. It may fail (\<open>Inl\<close>) or, through the address translation, not return
  (\<open>None\<close>). What the operating system decides - ports of new sockets, results of connection
  attempts and port probes - is the parameter \<open>game_env\<close>.
\<close>

section \<open>State\<close>

definition GAME_TCP_PORT_BEGIN :: u16 where "GAME_TCP_PORT_BEGIN = 2300"
definition GAME_TCP_PORT_VALID_END :: u16 where "GAME_TCP_PORT_VALID_END = 2400"
definition GAME_UDP_PORT_BEGIN :: u16 where "GAME_UDP_PORT_BEGIN = 2350"
definition GAME_UDP_PORT_VALID_END :: u16 where "GAME_UDP_PORT_VALID_END = 2400"
definition TICKS_TO_PROTECT_UDP :: u32 where "TICKS_TO_PROTECT_UDP = 300"
definition LocalHost :: u32 where "LocalHost = 0x7f000001"

record game_env =
  env_newSender :: GameSender
  env_newReceiver :: "u32 \<Rightarrow> GameReceiver"
  env_enumServerPort :: u16
  env_tcpOpens :: bool
  env_enumConnects :: bool
  env_occupiedTcpPorts :: "u16 list"   \<comment> \<open>in increasing order\<close>

record TafnetGameNode =
  m_tafnetNode :: TafnetNode
  m_packetParser :: "TAPacketParser option"
  m_gameSenders :: "(u32, GameSender) std_map"
  m_gameReceivers :: "(u32, GameReceiver) std_map"
  m_remotePlayerIds :: "(u16, u32) std_map"
  m_pendingEnumRequests :: "(u32, bytestring) std_map"
  m_playerInviteOrder :: "u32 list"
  m_enumTimerActive :: bool
  m_gameTcpPort :: u16
  m_gameUdpPort :: u16
  m_gameAddress :: u32
  m_initialOccupiedTcpPorts :: "u16 list"

datatype effect = Net net_event | Game game_event | Call handler handler_call

type_synonym game_result = "cpp_error + TafnetGameNode \<times> effect list"

definition TafnetGameNode_new :: "TafnetNode \<Rightarrow> TAPacketParser option \<Rightarrow> u16 list \<Rightarrow> TafnetGameNode" where
  "TafnetGameNode_new tafnetNode packetParser occupied =
     \<lparr>m_tafnetNode = tafnetNode, m_packetParser = packetParser, m_gameSenders = [], m_gameReceivers = [],
      m_remotePlayerIds = [], m_pendingEnumRequests = [], m_playerInviteOrder = [], m_enumTimerActive = True,
      m_gameTcpPort = 0, m_gameUdpPort = 0, m_gameAddress = LocalHost, m_initialOccupiedTcpPorts = occupied\<rparr>"

section \<open>Peers\<close>

definition getGameSender :: "game_env \<Rightarrow> u32 \<Rightarrow> TafnetGameNode \<Rightarrow> GameSender \<times> TafnetGameNode" where
  "getGameSender env peer g =
     (case map_of (m_gameSenders g) peer of
        Some gs \<Rightarrow> (gs, g)
      | None \<Rightarrow>
          let gs = setGameAddress (m_gameAddress g) (setUdpPort (m_gameUdpPort g)
                     (setTcpPort (m_gameTcpPort g) (env_newSender env)))
          in (gs, g\<lparr>m_gameSenders := std_put peer gs (m_gameSenders g)\<rparr>))"

definition killGameSender :: "u32 \<Rightarrow> TafnetGameNode \<Rightarrow> TafnetGameNode" where
  "killGameSender peer g = g\<lparr>m_gameSenders := std_erase peer (m_gameSenders g)\<rparr>"

text \<open>\<open>if (m_remotePlayerIds.count(port) == 0) m_remotePlayerIds[port] = id;\<close>\<close>

definition add_port :: "u16 \<Rightarrow> u32 \<Rightarrow> (u16, u32) std_map \<Rightarrow> (u16, u32) std_map" where
  "add_port p peer ids = (if map_of ids p = None then std_put p peer ids else ids)"

definition getGameReceiver :: "game_env \<Rightarrow> u32 \<Rightarrow> TafnetGameNode \<Rightarrow> GameReceiver \<times> TafnetGameNode" where
  "getGameReceiver env peer g =
     (case map_of (m_gameReceivers g) peer of
        Some gr \<Rightarrow> (gr, g)
      | None \<Rightarrow>
          let gr = env_newReceiver env peer
          in (gr, g\<lparr>m_gameReceivers := std_put peer gr (m_gameReceivers g),
                    m_remotePlayerIds := add_port (gr_udpPort gr) peer (add_port (gr_tcpPort gr) peer (m_remotePlayerIds g))\<rparr>))"

definition killGameReceiver :: "u32 \<Rightarrow> TafnetGameNode \<Rightarrow> TafnetGameNode" where
  "killGameReceiver peer g =
     (case map_of (m_gameReceivers g) peer of
        None \<Rightarrow> g
      | Some gr \<Rightarrow>
          let ids = std_erase (gr_udpPort gr) (std_erase (gr_tcpPort gr) (m_remotePlayerIds g));
              ids = (if length (m_gameReceivers g) = 1 then std_erase (gr_enumPort gr) ids else ids)
          in g\<lparr>m_remotePlayerIds := ids, m_gameReceivers := std_erase peer (m_gameReceivers g)\<rparr>)"

definition registerRemotePlayer :: "game_env \<Rightarrow> u32 \<Rightarrow> u16 \<Rightarrow> TafnetGameNode \<Rightarrow> TafnetGameNode" where
  "registerRemotePlayer env peer isHostEnumPort g =
     (let (gs, g) = getGameSender env peer g;
          (gr, g) = getGameReceiver env peer g
      in if isHostEnumPort > 0
         then let gr = bindEnumerationPort (env_enumServerPort env) isHostEnumPort gr
              in g\<lparr>m_gameReceivers := std_put peer gr (m_gameReceivers g),
                   m_remotePlayerIds := std_put (gr_enumPort gr) peer (m_remotePlayerIds g)\<rparr>
         else g)"

definition unregisterRemotePlayer :: "u32 \<Rightarrow> TafnetGameNode \<Rightarrow> TafnetGameNode" where
  "unregisterRemotePlayer peer g =
     killGameReceiver peer (killGameSender peer
       (g\<lparr>m_pendingEnumRequests := std_erase peer (m_pendingEnumRequests g),
          m_playerInviteOrder := filter (\<lambda>x. x \<noteq> peer) (m_playerInviteOrder g)\<rparr>))"

section \<open>Ports of the game\<close>

definition all_senders :: "(GameSender \<Rightarrow> GameSender) \<Rightarrow> TafnetGameNode \<Rightarrow> TafnetGameNode" where
  "all_senders f g = g\<lparr>m_gameSenders := map (\<lambda>(p, gs). (p, f gs)) (m_gameSenders g)\<rparr>"

definition valid_tcp :: "u16 \<Rightarrow> bool" where
  "valid_tcp p = (GAME_TCP_PORT_BEGIN \<le> p \<and> p < GAME_TCP_PORT_VALID_END)"

definition valid_udp :: "u16 \<Rightarrow> bool" where
  "valid_udp p = (GAME_UDP_PORT_BEGIN \<le> p \<and> p < GAME_UDP_PORT_VALID_END)"

text \<open>The port from the header; out of range, the last newly occupied port; failing that, the first.\<close>

definition guess_tcp_port :: "u16 list \<Rightarrow> u16 list \<Rightarrow> u16 \<Rightarrow> u16" where
  "guess_tcp_port initial occupied p =
     (let p = (if valid_tcp p then p
               else foldl (\<lambda>acc q. if q \<notin> set initial then q else acc) p occupied)
      in if valid_tcp p then p else GAME_TCP_PORT_BEGIN)"

definition updateGameSenderPortsFromDplayHeader ::
  "game_env \<Rightarrow> bytestring \<Rightarrow> TafnetGameNode \<Rightarrow> cpp_error + TafnetGameNode" where
  "updateGameSenderPortsFromDplayHeader env s g =
     (case looksOk_at s 0 of
        None \<Rightarrow> Inl Undefined
      | Some False \<Rightarrow> Inr g
      | Some True \<Rightarrow>
          (case load16 s 6 of
             None \<Rightarrow> Inl Undefined
           | Some netPort \<Rightarrow>
               let p = guess_tcp_port (m_initialOccupiedTcpPorts g) (env_occupiedTcpPorts env) (NetworkByteOrder16 netPort);
                   g = g\<lparr>m_gameTcpPort := p, m_gameAddress := LocalHost\<rparr>
               in Inr (all_senders (\<lambda>gs. setGameAddress (m_gameAddress g) (setUdpPort (m_gameUdpPort g) (setTcpPort p gs))) g)))"

definition updateGameSenderPortsFromSpaPacket :: "u16 \<Rightarrow> u16 \<Rightarrow> TafnetGameNode \<Rightarrow> TafnetGameNode" where
  "updateGameSenderPortsFromSpaPacket tcp udp g =
     (let g = (if valid_tcp tcp \<and> m_gameTcpPort g = 0
               then all_senders (setTcpPort tcp) (g\<lparr>m_gameTcpPort := tcp\<rparr>) else g)
      in if valid_udp udp \<and> m_gameUdpPort g = 0
         then all_senders (setUdpPort udp) (g\<lparr>m_gameUdpPort := udp\<rparr>) else g)"

section \<open>Data from the local game\<close>

text \<open>The callback of \<open>translateMessageFromLocalGame\<close>: local ports become player ids.\<close>

definition spa_from_local :: "TafnetGameNode spa" where
  "spa_from_local a index g =
     (case map_of (m_remotePlayerIds g) (Dplay.port a) of
        None \<Rightarrow>
          (True, set_address (m_playerId (m_tafnetNode g)) a,
           updateGameSenderPortsFromSpaPacket (if index = 0 then Dplay.port a else 0) (if index = 1 then Dplay.port a else 0) g)
      | Some peer \<Rightarrow> (True, set_address peer a, g))"

definition translateMessageFromLocalGame ::
  "bytestring \<Rightarrow> u32 \<Rightarrow> u16 \<times> u16 \<Rightarrow> TafnetGameNode \<Rightarrow> (cpp_error + bytestring \<times> TafnetGameNode) option" where
  "translateMessageFromLocalGame s replyAddr ports g =
     translate \<lparr>replyAddress = replyAddr, replyPorts = ports, translatePlayerSPA = spa_from_local\<rparr> s g"

definition protectedSubpaks :: "SubPacketCode set" where
  "protectedSubpaks = {CHAT_05, LOADING_STARTED_08, GIVE_UNIT_14, HOST_MIGRATION_18, REJECT_1B, SPEED_19, ALLY_23, TEAM_24}"

text \<open>A call of the parser, when there is one: the codes it saw and the calls it made.\<close>

definition run_parser :: "bool \<Rightarrow> bytestring \<Rightarrow> TafnetGameNode \<Rightarrow> cpp_error + SubPacketCode set \<times> TafnetGameNode \<times> effect list" where
  "run_parser isLocal s g =
     (case m_packetParser g of
        None \<Rightarrow> Inr ({}, g, [])
      | Some p \<Rightarrow> map_sum id (\<lambda>(p', out). (m_parsedSubPacketCodes p', g\<lparr>m_packetParser := Some p'\<rparr>,
                     map (\<lambda>(h, c). Call h c) out)) (parseGameData isLocal s p))"

definition forward :: "i64 \<Rightarrow> u32 \<Rightarrow> u32 \<Rightarrow> bytestring \<Rightarrow> TafnetGameNode \<Rightarrow> game_result" where
  "forward tNow dest action s g =
     map_sum id (\<lambda>(n, evs). (g\<lparr>m_tafnetNode := n\<rparr>, map Net evs)) (forwardGameData tNow dest action s (m_tafnetNode g))"

definition needs_protection :: "u32 \<Rightarrow> bytestring \<Rightarrow> TafnetGameNode \<Rightarrow> bool" where
  "needs_protection dest s g =
     (word_of_nat (length s) > maxPacketSizeForPlayerId (m_tafnetNode g) dest \<or>
      (case m_packetParser g of None \<Rightarrow> False | Some p \<Rightarrow> getProgressTicks p < TICKS_TO_PROTECT_UDP))"

definition handle_udp :: "i64 \<Rightarrow> u32 \<Rightarrow> bytestring \<Rightarrow> TafnetGameNode \<Rightarrow> game_result" where
  "handle_udp tNow dest s g =
     (let early = needs_protection dest s g in
      case run_parser True s g of
        Inl e \<Rightarrow> Inl e
      | Inr (codes, g, calls) \<Rightarrow>
          let protect = (early \<or> codes \<inter> protectedSubpaks \<noteq> {})
          in map_sum id (\<lambda>(g, evs). (g, calls @ evs))
               (forward tNow dest (if protect then ACTION_UDP_PROTECTED else ACTION_UDP_DATA) s g))"

definition handle_tcp :: "i64 \<Rightarrow> u32 \<Rightarrow> bytestring \<Rightarrow> TafnetGameNode \<Rightarrow> game_result option" where
  "handle_tcp tNow dest s g =
     (case translateMessageFromLocalGame s 0 (0xdead, 0xbeef) g of
        None \<Rightarrow> None
      | Some (Inl e) \<Rightarrow> Some (Inl e)
      | Some (Inr (s, g)) \<Rightarrow>
          Some (case forward tNow dest ACTION_TCP_DATA s g of
                  Inl e \<Rightarrow> Inl e
                | Inr (g, evs) \<Rightarrow> map_sum id (\<lambda>(codes, g, calls). (g, evs @ calls)) (run_parser True s g)))"

definition handleGameData :: "game_env \<Rightarrow> i64 \<Rightarrow> u16 \<Rightarrow> int \<Rightarrow> bytestring \<Rightarrow> TafnetGameNode \<Rightarrow> game_result option" where
  "handleGameData env tNow localPort channelCode s g =
     (case map_of (m_remotePlayerIds g) localPort of
        None \<Rightarrow> Some (Inr (g, []))
      | Some dest \<Rightarrow>
          if dest = 0 \<or> s = [] then Some (Inr (g, []))
          else case (if m_gameTcpPort g = 0 then updateGameSenderPortsFromDplayHeader env s g else Inr g) of
                 Inl e \<Rightarrow> Some (Inl e)
               | Inr g \<Rightarrow>
                   if channelCode = CHANNEL_UDP then Some (handle_udp tNow dest s g)
                   else if channelCode = CHANNEL_TCP then handle_tcp tNow dest s g
                   else if channelCode = CHANNEL_ENUM then Some (forward tNow dest ACTION_ENUM s g)
                   else Some (Inr (g, [])))"

section \<open>Data from a peer\<close>

text \<open>The callback of \<open>translateMessageFromRemoteGame\<close>: player ids become local addresses.\<close>

definition spa_from_remote :: "u32 \<Rightarrow> u16 \<times> u16 \<Rightarrow> TafnetGameNode spa" where
  "spa_from_remote replyAddr ports a index g =
     (case map_of (m_gameReceivers g) (address a) of
        Some gr \<Rightarrow> (True, set_port (if index \<noteq> 0 then gr_udpPort gr else gr_tcpPort gr) (set_address (gr_bindAddress gr) a), g)
      | None \<Rightarrow> (True, set_port (if index > 0 then snd ports else fst ports) (set_address replyAddr a), g))"

definition translateMessageFromRemoteGame ::
  "bytestring \<Rightarrow> u32 \<Rightarrow> u16 \<times> u16 \<Rightarrow> TafnetGameNode \<Rightarrow> (cpp_error + bytestring \<times> TafnetGameNode) option" where
  "translateMessageFromRemoteGame s replyAddr ports g =
     translate \<lparr>replyAddress = replyAddr, replyPorts = ports, translatePlayerSPA = spa_from_remote replyAddr ports\<rparr> s g"

definition put_sender :: "u32 \<Rightarrow> GameSender \<Rightarrow> TafnetGameNode \<Rightarrow> TafnetGameNode" where
  "put_sender peer gs g = g\<lparr>m_gameSenders := std_put peer gs (m_gameSenders g)\<rparr>"

definition handleTafnetMessage :: "game_env \<Rightarrow> i64 \<Rightarrow> u32 \<Rightarrow> u32 \<Rightarrow> bytestring \<Rightarrow> TafnetGameNode \<Rightarrow> game_result option" where
  "handleTafnetMessage env tNow action peer s g =
     (let (gs, g) = getGameSender env peer g;
          (gr, g) = getGameReceiver env peer g;
          ports = getListenPorts gr
      in if action = ACTION_HELLO
         then map_option (map_sum id (\<lambda>(n, evs). (g\<lparr>m_tafnetNode := n\<rparr>, map Net evs)))
                (sendPacksizeTests tNow peer (m_tafnetNode g))
         else if action = ACTION_ENUM
         then (case translate (plainTranslater (gr_bindAddress gr) ports) s g of
                 None \<Rightarrow> None
               | Some (Inl e) \<Rightarrow> Some (Inl e)
               | Some (Inr (s, g)) \<Rightarrow>
                   Some (Inr (g\<lparr>m_pendingEnumRequests := std_put peer s (m_pendingEnumRequests g)\<rparr>, [])))
         else if action = ACTION_TCP_OPEN
         then let (gs, evs) = openTcpSocket (env_tcpOpens env) gs in Some (Inr (put_sender peer gs g, map Game evs))
         else if action = ACTION_TCP_DATA
         then (case translateMessageFromRemoteGame s (gr_bindAddress gr) ports g of
                 None \<Rightarrow> None
               | Some (Inl e) \<Rightarrow> Some (Inl e)
               | Some (Inr (s, g)) \<Rightarrow>
                   let (gs, evs) = sendTcpData (env_tcpOpens env) s gs
                   in Some (map_sum id (\<lambda>(codes, g, calls). (g, map Game evs @ calls))
                        (run_parser False s (put_sender peer gs g))))
         else if action = ACTION_UDP_PROTECTED \<or> action = ACTION_UDP_DATA
         then Some (map_sum id (\<lambda>(codes, g, calls). (g, map Game (sendUdpData 0 s gs) @ calls)) (run_parser False s g))
         else Some (Inr (g, [])))"

section \<open>Services for the host\<close>

definition messageToLocalPlayer :: "u32 \<Rightarrow> u32 \<Rightarrow> bool \<Rightarrow> bytestring \<Rightarrow> bytestring \<Rightarrow> TafnetGameNode \<Rightarrow> effect list" where
  "messageToLocalPlayer sourceDplayId tafnetid isPrivate nick chat g =
     (case m_gameSenders g of
        [] \<Rightarrow> []
      | (_, sender) # _ \<Rightarrow>
          let message = (if nick = [] then chat
                         else [if isPrivate then 0x21 else 0x2a, 0x3c] @ nick @ [0x3e, 0x20] @ chat);
              bs = encrypt (compress (trivialSmartpak (createChatSubpacket message) (- 1)))
          in map Game (sendUdpData 0 (le32 sourceDplayId @ le32 0 @ bs) sender))"

definition setPlayerInviteOrder :: "u32 list \<Rightarrow> TafnetGameNode \<Rightarrow> TafnetGameNode" where
  "setPlayerInviteOrder tafnetIds g =
     g\<lparr>m_playerInviteOrder := filter (\<lambda>x. map_of (m_gameSenders g) x \<noteq> None) tafnetIds\<rparr>"

text \<open>
  The shared memory of \<open>setPlayerStartPositions\<close> (a count and ten names of 32 bytes); a eleventh name is
  written behind it.
\<close>

definition start_positions :: "bytestring list \<Rightarrow> cpp_error + bytestring" where
  "start_positions names =
     (if length names > 10 then Inl Undefined
      else Inr (le32 (word_of_nat (length names)) @
        concat (map (\<lambda>name. let m = take 31 (takeWhile (\<lambda>b. b \<noteq> 0) name) in m @ replicate (32 - length m) 0) names) @
        replicate (32 * (10 - length names)) 0))"

text \<open>The timer: at most one pending request is passed to the game.\<close>

definition processPendingEnumRequests :: "game_env \<Rightarrow> TafnetGameNode \<Rightarrow> TafnetGameNode \<times> effect list" where
  "processPendingEnumRequests env g =
     (let toAdmit = (case m_playerInviteOrder g of
            x # _ \<Rightarrow> map_option (Pair x) (map_of (m_pendingEnumRequests g) x)
          | [] \<Rightarrow> (case m_pendingEnumRequests g of [] \<Rightarrow> None | e # _ \<Rightarrow> Some e));
          (g, evs) = (case toAdmit of
             None \<Rightarrow> (g, [])
           | Some (peer, s) \<Rightarrow>
               let (gs, g) = getGameSender env peer g;
                   (ok, evs) = enumSessions (env_enumConnects env) s gs
               in if \<not> ok then (g, map Game evs)
                  else (g\<lparr>m_playerInviteOrder := tl (m_playerInviteOrder g),
                          m_pendingEnumRequests := std_erase peer (m_pendingEnumRequests g)\<rparr>, map Game evs))
      in (case m_packetParser g of
            Some p \<Rightarrow> if getProgressTicks p > 0 then g\<lparr>m_enumTimerActive := False\<rparr> else g
          | None \<Rightarrow> g, evs))"

section \<open>A player's addresses on the way to a peer\<close>

lemma updateGameSenderPorts_keeps [simp]:
  "m_remotePlayerIds (updateGameSenderPortsFromSpaPacket tcp udp g) = m_remotePlayerIds g"
  "m_tafnetNode (updateGameSenderPortsFromSpaPacket tcp udp g) = m_tafnetNode g"
  by (simp_all add: updateGameSenderPortsFromSpaPacket_def all_senders_def Let_def)

text \<open>The player an address of the local game stands for, and the address of a player as seen from a node.\<close>

definition player_at :: "TafnetGameNode \<Rightarrow> DPAddress \<Rightarrow> u32" where
  "player_at g a = (case map_of (m_remotePlayerIds g) (Dplay.port a) of
     None \<Rightarrow> m_playerId (m_tafnetNode g) | Some peer \<Rightarrow> peer)"

definition seen_from :: "TafnetGameNode \<Rightarrow> u32 \<Rightarrow> u16 \<times> u16 \<Rightarrow> nat \<Rightarrow> u32 \<Rightarrow> DPAddress \<Rightarrow> DPAddress" where
  "seen_from g replyAddr ports index player a =
     (case map_of (m_gameReceivers g) player of
        Some gr \<Rightarrow> set_port (if index \<noteq> 0 then gr_udpPort gr else gr_tcpPort gr) (set_address (gr_bindAddress gr) a)
      | None \<Rightarrow> set_port (if index \<noteq> 0 then snd ports else fst ports) (set_address replyAddr a))"

lemma spa_results_local:
  "\<exists>g'. spa_results \<lparr>replyAddress = ra, replyPorts = ps, translatePlayerSPA = spa_from_local\<rparr> n as g =
     Some (map (\<lambda>a. set_address (player_at g a) a) as, g')"
proof (induction as arbitrary: n g)
  case (Cons a as)
  obtain g1 where g1: "spa_from_local a n g = (True, set_address (player_at g a) a, g1)"
    "m_remotePlayerIds g1 = m_remotePlayerIds g" "m_tafnetNode g1 = m_tafnetNode g"
    by (cases "map_of (m_remotePlayerIds g) (Dplay.port a)") (auto simp: spa_from_local_def player_at_def)
  have "player_at g1 = player_at g"
    unfolding player_at_def g1(2,3) by simp
  then show ?case using Cons.IH [of "Suc n" g1] g1(1) by auto
qed simp

lemma spa_results_remote:
  "spa_results \<lparr>replyAddress = ra, replyPorts = ps, translatePlayerSPA = spa_from_remote ra ps\<rparr> n as g =
     Some (map (\<lambda>(i, a). seen_from g ra ps i (address a) a) (enumerate n as), g)"
proof (induction as arbitrary: n)
  case (Cons a as)
  have "spa_from_remote ra ps a n g = (True, seen_from g ra ps n (address a) a, g)"
    by (auto simp: spa_from_remote_def seen_from_def split: option.splits)
  then show ?case using Cons.IH [of "Suc n"] by simp
qed simp

lemma address_ok_setters [simp]:
  "address_ok (set_address x a) = address_ok a" "address_ok (set_port p a) = address_ok a"
  by (simp_all add: address_ok_def set_address_def set_port_def)

lemma set_address_twice [simp]: "set_address y (set_address x a) = set_address y a"
  by (simp add: set_address_def)

lemma seen_from_set_address [simp]: "seen_from g ra ps i p (set_address x a) = seen_from g ra ps i p a"
  by (simp add: seen_from_def split: option.splits)

lemma seen_from_ok [simp]: "address_ok (seen_from g ra ps i p a) = address_ok a"
  by (simp add: seen_from_def split: option.splits)

lemma list_all_enumerate: "list_all P as \<Longrightarrow> list_all (\<lambda>(i, a). P a) (enumerate n as)"
  by (induction as arbitrary: n) auto

text \<open>
  C13. A message about a joining player that travels from one player's game to another's names the
  right places when it arrives: every address of the player that was a local port of the sending node is
  the address of the receiving node's own socket for that player (its TCP port for the first address,
  its UDP port for the others), or the reply address if the receiving node does not know the player. The
  names, ids and flags of the message are those that were sent. Both translations return.
\<close>

theorem player_message_between_nodes:
  assumes "cmd \<in> {0x2e, 0x13, 0x08, 0x38}" and "length pre = 32" and "length post = 24"
    and "96 + length sn + length ln + 16 * length as < 2 ^ 20" and "as \<noteq> []" and "list_all address_ok as"
  shows "\<exists>sent g'. translateMessageFromLocalGame (player_message a p cmd dial pre post sn ln as) 0 (0xdead, 0xbeef) g =
      Some (Inr (sent, g')) \<and>
    translateMessageFromRemoteGame sent ra ports peer =
      Some (Inr (player_message ra (fst ports) cmd dial pre post sn ln
        (map (\<lambda>(i, a). seen_from peer ra ports i (player_at g a) a) (enumerate 0 as)), peer))"
proof -
  let ?tx = "\<lparr>replyAddress = 0, replyPorts = (0xdead, 0xbeef), translatePlayerSPA = spa_from_local\<rparr>"
  let ?rx = "\<lparr>replyAddress = ra, replyPorts = ports, translatePlayerSPA = spa_from_remote ra ports\<rparr>"
  let ?ids = "map (\<lambda>a. set_address (player_at g a) a) as"
  let ?out = "map (\<lambda>(i, a). seen_from peer ra ports i (player_at g a) a) (enumerate 0 as)"
  obtain g' where loc: "spa_results ?tx 0 as g = Some (?ids, g')" using spa_results_local by blast
  have ids: "list_all address_ok ?ids" using assms(6) by (simp add: list_all_iff)
  have "translate ?tx (player_message a p cmd dial pre post sn ln as) g =
      Some (Inr (player_message 0 0xdead cmd dial pre post sn ln ?ids, g'))"
    using translate_player_message_eq [OF assms(1-6) loc ids] by simp
  moreover have rem: "spa_results ?rx 0 ?ids peer = Some (?out, peer)"
    by (simp add: spa_results_remote enumerate_map_upt enumerate_eq_zip zip_map2 case_prod_beta comp_def)
  have out: "list_all address_ok ?out"
    using list_all_enumerate [OF assms(6), of 0] by (simp add: list_all_iff case_prod_beta)
  have "translate ?rx (player_message 0 0xdead cmd dial pre post sn ln ?ids) peer =
      Some (Inr (player_message ra (fst ports) cmd dial pre post sn ln ?out, peer))"
    using translate_player_message_eq [OF assms(1-3) _ _ ids rem out] assms(4,5) by simp
  ultimately show ?thesis
    by (auto simp: translateMessageFromLocalGame_def translateMessageFromRemoteGame_def)
qed

definition sample_node :: TafnetGameNode where
  "sample_node = (TafnetGameNode_new (TafnetNode_new 7 True False 1500) None [])
     \<lparr>m_remotePlayerIds := [(2401, 9)], m_gameReceivers := [(7, GameReceiver_new 0x7f000001 2310 2360)]\<rparr>"

theorem player_message_between_nodes_witness:
  "\<exists>sent g'. translateMessageFromLocalGame
      (player_message 1 2 8 14 (replicate 32 0) (replicate 24 0) [65, 0, 0, 0] [] [mkDPAddress 3 2400]) 0 (0xdead, 0xbeef) sample_node =
      Some (Inr (sent, g')) \<and>
    translateMessageFromRemoteGame sent 0x7f000001 (1, 2) sample_node =
      Some (Inr (player_message 0x7f000001 1 8 14 (replicate 32 0) (replicate 24 0) [65, 0, 0, 0] []
        [mkDPAddress 0x7f000001 2310], sample_node))"
proof -
  have "seen_from sample_node 0x7f000001 (1, 2) 0 (player_at sample_node (mkDPAddress 3 2400)) (mkDPAddress 3 2400) =
      mkDPAddress 0x7f000001 2310"
    by (simp add: seen_from_def player_at_def sample_node_def TafnetGameNode_new_def TafnetNode_new_def GameReceiver_new_def
        mkDPAddress_readdress)
  then show ?thesis
    using player_message_between_nodes [of 8 "replicate 32 0" "replicate 24 0" "[65, 0, 0, 0]" "[]" "[mkDPAddress 3 2400]"
        1 2 14 sample_node "0x7f000001" "(1, 2)" sample_node]
    by (simp add: address_ok_def)
qed

section \<open>Datagrams of the game\<close>

text \<open>A datagram of the game: the ids of sender and addressee in front of a packet, no DirectPlay header.\<close>

definition game_datagram :: "u32 \<Rightarrow> u32 \<Rightarrow> bytestring list \<Rightarrow> u32 \<Rightarrow> bytestring" where
  "game_datagram src dst ss tcpseq = le32 src @ le32 dst @ wire_packet ss tcpseq"

lemma wire_packet_length: "4 \<le> length (wire_packet ss tcpseq)"
  by (simp add: wire_packet_def compress_length_ge_4 trivialSmartpak_def)

lemma load16_datagram: "load16 (le32 src @ le32 dst @ xs) 4 = Some (ucast dst)"
proof -
  have "load16 (le32 src @ le32 dst @ xs) 4 = Some (mk16 (ucast dst) (ucast (drop_bit 8 dst)))"
    by (simp add: load16_def byte_at_def le32_def nth_append)
  also have "mk16 (ucast dst) (ucast (drop_bit 8 dst)) = ucast dst"
    unfolding mk16_def by (rule bit_word_eqI) (auto simp: bit_simps)
  finally show ?thesis .
qed

lemma parseGameData_datagram:
  assumes "sendable ss" and "(ucast dst :: u16) \<noteq> 2"
    and "check_duplicate src dst (wire_packet ss tcpseq) (p\<lparr>m_parsedSubPacketCodes := {}\<rparr>) = (False, p1)"
  shows "parseGameData isLocal (game_datagram src dst ss tcpseq) p =
    Inr (p1\<lparr>m_parsedSubPacketCodes := codes_in ss, m_progressTicks := Max (insert (m_progressTicks p) (ticks_in ss))\<rparr>,
      map (\<lambda>h. (h, OnTaPacket src dst isLocal (wire_packet ss tcpseq) ss)) (m_packetHandlers p))"
proof -
  let ?d = "game_datagram src dst ss tcpseq"
  have "looksOk_at ?d 0 = Some False"
    using assms(2) by (simp add: looksOk_at_def game_datagram_def load16_datagram)
  moreover have "8 < length ?d" "?d \<noteq> []"
    using wire_packet_length [of ss tcpseq] by (auto simp: game_datagram_def le32_def)
  moreover have "load32 ?d 0 = Some src" "load32 ?d 4 = Some dst" "drop 8 ?d = wire_packet ss tcpseq"
    using load32_at [of "le32 src" 4 dst] by (simp_all add: game_datagram_def)
  ultimately show ?thesis
    using parseTaPacket_wire_eq [OF assms(1,3), of isLocal]
    by (simp add: parseGameData_def parse_loop.simps Let_def)
qed



section \<open>Messages to the local player\<close>

lemma createChatSubpacket_sendable: "sendable [createChatSubpacket m]"
proof -
  let ?m = "take 64 (takeWhile (\<lambda>b. b \<noteq> 0) m)" and ?c = "createChatSubpacket m"
  have c: "?c \<noteq> []" "length ?c = 65" "?c ! 0 = 5" "?c ! 64 = 0"
    by (simp_all add: createChatSubpacket_def Let_def nth_list_update)
  then have "getExpectedSubPacketSize ?c = Some 65"
    by (simp add: getExpectedSubPacketSize_def subPacketCode_def Let_def)
  then show ?thesis
    using c by (simp add: sendable_def well_sized_def)
qed

text \<open>
  A message to the local player arrives as a chat: the datagram written to the game is one its
  parser takes apart into exactly one sub-packet, the chat with the decorated text, from the sender
  named in the call.
\<close>

theorem messageToLocalPlayer_readable:
  assumes "m_gameSenders g = (peer, sender) # rest" and "m_progressTicks p = 0"
  shows "\<exists>d chat_packet. messageToLocalPlayer src tid isPrivate nick chat g =
      map (\<lambda>port. Game (UdpWrite (gs_gameAddress sender) port d)) (udp_ports 0 sender) \<and>
    chat_packet = createChatSubpacket (if nick = [] then chat
      else [if isPrivate then 0x21 else 0x2a, 0x3c] @ nick @ [0x3e, 0x20] @ chat) \<and>
    map_sum id snd (parseGameData isLocal d p) =
      Inr (map (\<lambda>h. (h, OnTaPacket src 0 isLocal (drop 8 d) [chat_packet])) (m_packetHandlers p))"
proof -
  let ?c = "createChatSubpacket (if nick = [] then chat
      else [if isPrivate then 0x21 else 0x2a, 0x3c] @ nick @ [0x3e, 0x20] @ chat)"
  let ?d = "game_datagram src 0 [?c] (- 1)"
  have "smartpak_all True [?c] = ?c"
    by (simp add: smartPaker_def createChatSubpacket_def Let_def subPacketCode_def)
  then have d: "?d = le32 src @ le32 0 @ encrypt (compress (trivialSmartpak ?c (- 1)))"
    by (simp add: game_datagram_def wire_packet_def)
  have "check_duplicate src 0 (wire_packet [?c] (- 1)) (p\<lparr>m_parsedSubPacketCodes := {}\<rparr>) = (False, p\<lparr>m_parsedSubPacketCodes := {}\<rparr>)"
    using assms(2) by (simp add: check_duplicate_def)
  from parseGameData_datagram [OF createChatSubpacket_sendable _ this, of isLocal]
  have "map_sum id snd (parseGameData isLocal ?d p) =
      Inr (map (\<lambda>h. (h, OnTaPacket src 0 isLocal (drop 8 ?d) [?c])) (m_packetHandlers p))"
    by (simp add: game_datagram_def)
  then show ?thesis
    using assms(1) d
    by (intro exI [of _ ?d] exI [of _ ?c])
       (simp add: messageToLocalPlayer_def sendUdpData_def Let_def comp_def)
qed

theorem messageToLocalPlayer_readable_witness:
  "\<exists>d chat_packet. messageToLocalPlayer 100 7 True [0x41] [0x68, 0x69] (sample_node\<lparr>m_gameSenders := [(9, GameSender_new 1 2)]\<rparr>) =
      map (\<lambda>port. Game (UdpWrite 1 port d)) (udp_ports 0 (GameSender_new 1 2)) \<and>
    chat_packet = createChatSubpacket [0x21, 0x3c, 0x41, 0x3e, 0x20, 0x68, 0x69] \<and>
    map_sum id snd (parseGameData False d (subscribe (Some 3) mkTAPacketParser)) =
      Inr [(3, OnTaPacket 100 0 False (drop 8 d) [chat_packet])]"
  using messageToLocalPlayer_readable [of "sample_node\<lparr>m_gameSenders := [(9, GameSender_new 1 2)]\<rparr>" 9 "GameSender_new 1 2" "[]"
      "subscribe (Some 3) mkTAPacketParser" 100 7 True "[0x41]" "[0x68, 0x69]" False]
  by (simp add: subscribe_def mkTAPacketParser_def GameSender_new_def)

section \<open>Admission of players in the order of their invitations\<close>

text \<open>
  The steps that touch the pending requests: a request arrives from a peer, the timer fires. The second
  component of a configuration is the list of peers whose request has been passed to the game.
\<close>

inductive enum_step :: "TafnetGameNode \<times> u32 list \<Rightarrow> TafnetGameNode \<times> u32 list \<Rightarrow> bool" where
  request: "handleTafnetMessage env tNow ACTION_ENUM peer s g = Some (Inr (g', evs)) \<Longrightarrow> enum_step (g, adm) (g', adm)"
| timer: "processPendingEnumRequests env g = (g', evs) \<Longrightarrow>
    adm' = adm @ filter (\<lambda>x. map_of (m_pendingEnumRequests g') x = None) (map fst (m_pendingEnumRequests g)) \<Longrightarrow>
    enum_step (g, adm) (g', adm')"

inductive enum_reach :: "TafnetGameNode \<Rightarrow> TafnetGameNode \<Rightarrow> u32 list \<Rightarrow> bool" for g0 where
  start: "enum_reach g0 g0 []"
| step: "enum_reach g0 g adm \<Longrightarrow> enum_step (g, adm) (g', adm') \<Longrightarrow> enum_reach g0 g' adm'"

inductive_cases enum_stepE: "enum_step (g, adm) (g', adm')"

lemma getGameSender_keeps:
  "getGameSender env peer g = (gs, g') \<Longrightarrow> m_playerInviteOrder g' = m_playerInviteOrder g \<and>
     m_pendingEnumRequests g' = m_pendingEnumRequests g"
  by (auto simp: getGameSender_def Let_def split: option.splits)

lemma getGameReceiver_keeps:
  "getGameReceiver env peer g = (gs, g') \<Longrightarrow> m_playerInviteOrder g' = m_playerInviteOrder g \<and>
     m_pendingEnumRequests g' = m_pendingEnumRequests g"
  by (auto simp: getGameReceiver_def Let_def split: option.splits)

lemma request_keeps_order:
  assumes "handleTafnetMessage env tNow ACTION_ENUM peer s g = Some (Inr (g', evs))"
  shows "m_playerInviteOrder g' = m_playerInviteOrder g \<and>
    (std_ok (m_pendingEnumRequests g) \<longrightarrow> std_ok (m_pendingEnumRequests g'))"
proof -
  obtain gs g1 where gs: "getGameSender env peer g = (gs, g1)" by fastforce
  obtain gr g2 where gr: "getGameReceiver env peer g1 = (gr, g2)" by fastforce
  have ne: "ACTION_ENUM \<noteq> ACTION_HELLO" by (simp add: ACTION_ENUM_def ACTION_HELLO_def)
  let ?tx = "plainTranslater (gr_bindAddress gr) (getListenPorts gr) :: TafnetGameNode GameAddressTranslater"
  obtain s' g3 where t: "translate ?tx s g2 = Some (Inr (s', g3))"
    and g': "g' = g3\<lparr>m_pendingEnumRequests := std_put peer s' (m_pendingEnumRequests g3)\<rparr>"
    using assms gs gr ne by (auto simp: handleTafnetMessage_def split: option.splits sum.splits)
  have "pure_spa ?tx" by (simp add: pure_spa_def plainTranslater_def)
  then have "g3 = g2" using translate_pure [OF t] by simp
  then show ?thesis
    using g' getGameSender_keeps [OF gs] getGameReceiver_keeps [OF gr] by simp
qed

lemma timer_keeps_order:
  assumes "processPendingEnumRequests env g = (g', evs)" and "std_ok (m_pendingEnumRequests g)"
    and "m_playerInviteOrder g = x # xs"
  shows "(m_playerInviteOrder g' = x # xs \<and> m_pendingEnumRequests g' = m_pendingEnumRequests g) \<or>
    (m_playerInviteOrder g' = xs \<and> m_pendingEnumRequests g' = std_erase x (m_pendingEnumRequests g) \<and>
     map_of (m_pendingEnumRequests g) x \<noteq> None)"
proof (cases "map_of (m_pendingEnumRequests g) x")
  case None
  then show ?thesis
    using assms by (auto simp: processPendingEnumRequests_def split: option.splits if_splits)
next
  case (Some s)
  obtain gs g1 where gs: "getGameSender env x g = (gs, g1)" by fastforce
  show ?thesis
    using assms Some gs getGameSender_keeps [OF gs]
    by (auto simp: processPendingEnumRequests_def enumSessions_def split: option.splits if_splits)
qed

lemma timer_no_invitations:
  assumes "processPendingEnumRequests env g = (g', evs)" and "m_playerInviteOrder g = []" and "std_ok (m_pendingEnumRequests g)"
  shows "m_playerInviteOrder g' = [] \<and> std_ok (m_pendingEnumRequests g')"
proof (cases "m_pendingEnumRequests g")
  case Nil
  then show ?thesis
    using assms by (auto simp: processPendingEnumRequests_def split: option.splits if_splits)
next
  case (Cons e es)
  obtain gs g1 where gs: "getGameSender env (fst e) g = (gs, g1)" by fastforce
  show ?thesis
    using assms Cons gs getGameSender_keeps [OF gs] std_ok_erase [OF assms(3), of "fst e"]
    by (auto simp: processPendingEnumRequests_def enumSessions_def split: option.splits if_splits prod.splits)
qed

lemma filter_eq_distinct: "distinct ks \<Longrightarrow> x \<in> set ks \<Longrightarrow> filter (\<lambda>k. k = x) ks = [x]"
  by (induction ks) (auto simp: filter_empty_conv)

lemma erased_keys:
  assumes "std_ok m" and "map_of m x \<noteq> None"
  shows "filter (\<lambda>k. map_of (std_erase x m) k = None) (map fst m) = [x]"
proof -
  have "filter (\<lambda>k. map_of (std_erase x m) k = None) (map fst m) = filter (\<lambda>k. k = x) (map fst m)"
    by (rule filter_cong) (auto simp: map_of_eq_None_iff)
  also have "\<dots> = [x]"
    using assms std_ok_distinct [OF assms(1)] by (intro filter_eq_distinct) (auto simp: map_of_eq_None_iff)
  finally show ?thesis .
qed

text \<open>
  C22. The host admits players in the order in which they were invited: whatever requests arrive and
  however the timer and failed connection attempts interleave with them, the players whose request was
  passed to the game are, as long as invitations are left, exactly the first ones of the invitation
  order, each once and in that order; nobody else gets in before the last of them.
\<close>

theorem invitations_in_order:
  assumes "enum_reach g0 g adm" and "std_ok (m_pendingEnumRequests g0)"
  shows "\<exists>rest. adm @ m_playerInviteOrder g = m_playerInviteOrder g0 @ rest \<and> (m_playerInviteOrder g \<noteq> [] \<longrightarrow> rest = [])"
proof -
  have "std_ok (m_pendingEnumRequests g) \<and>
    (\<exists>rest. adm @ m_playerInviteOrder g = m_playerInviteOrder g0 @ rest \<and> (m_playerInviteOrder g \<noteq> [] \<longrightarrow> rest = []))"
    using assms
  proof (induction rule: enum_reach.induct)
    case (step g adm g' adm')
    then have ok: "std_ok (m_pendingEnumRequests g)" by blast
    from step.hyps(2) consider
      (request) env tNow peer s evs where "handleTafnetMessage env tNow ACTION_ENUM peer s g = Some (Inr (g', evs))" "adm' = adm"
    | (timer) env evs where "processPendingEnumRequests env g = (g', evs)"
        "adm' = adm @ filter (\<lambda>x. map_of (m_pendingEnumRequests g') x = None) (map fst (m_pendingEnumRequests g))"
      by (auto elim: enum_stepE)
    then show ?case
    proof cases
      case request
      then show ?thesis using step request_keeps_order by metis
    next
      case timer
      show ?thesis
      proof (cases "m_playerInviteOrder g")
        case Nil
        then show ?thesis using timer_no_invitations [OF timer(1) Nil ok] step timer(2) by auto
      next
        case (Cons x xs)
        have pf: "adm @ x # xs = m_playerInviteOrder g0" using step Cons by auto
        from timer_keeps_order [OF timer(1) ok Cons] show ?thesis
        proof
          assume same: "m_playerInviteOrder g' = x # xs \<and> m_pendingEnumRequests g' = m_pendingEnumRequests g"
          then have "filter (\<lambda>k. map_of (m_pendingEnumRequests g') k = None) (map fst (m_pendingEnumRequests g)) = []"
            by (auto simp: filter_empty_conv map_of_eq_None_iff)
          then show ?thesis using same pf ok timer(2) by simp
        next
          assume adm: "m_playerInviteOrder g' = xs \<and> m_pendingEnumRequests g' = std_erase x (m_pendingEnumRequests g) \<and>
            map_of (m_pendingEnumRequests g) x \<noteq> None"
          then show ?thesis using erased_keys [OF ok, of x] pf ok timer(2) by simp
        qed
      qed
    qed
  qed simp
  then show ?thesis by simp
qed

definition sample_env :: game_env where
  "sample_env = \<lparr>env_newSender = GameSender_new 1 2, env_newReceiver = (\<lambda>_. GameReceiver_new 1 2 3), env_enumServerPort = 0,
     env_tcpOpens = True, env_enumConnects = True, env_occupiedTcpPorts = []\<rparr>"

definition inviting_node :: TafnetGameNode where
  "inviting_node = sample_node\<lparr>m_gameSenders := [(9, GameSender_new 1 2)], m_pendingEnumRequests := [(5, [2]), (9, [1])],
     m_playerInviteOrder := [9, 5]\<rparr>"

theorem invitations_in_order_witness:
  "\<exists>g. enum_reach inviting_node g [9] \<and> (\<exists>rest. [9] @ m_playerInviteOrder g = m_playerInviteOrder inviting_node @ rest \<and>
     (m_playerInviteOrder g \<noteq> [] \<longrightarrow> rest = []))"
proof -
  let ?g = "fst (processPendingEnumRequests sample_env inviting_node)"
  have pend: "m_pendingEnumRequests ?g = [(5, [2])]"
    by (simp add: processPendingEnumRequests_def inviting_node_def sample_env_def sample_node_def TafnetGameNode_new_def
        getGameSender_def enumSessions_def std_erase_def)
  have "enum_step (inviting_node, []) (?g, [9])"
    by (rule enum_step.timer [of sample_env inviting_node ?g "snd (processPendingEnumRequests sample_env inviting_node)"])
       (simp_all add: pend, simp add: inviting_node_def)
  then have reach: "enum_reach inviting_node ?g [9]" by (rule enum_reach.step [OF enum_reach.start])
  have "std_ok (m_pendingEnumRequests inviting_node)" by (simp add: inviting_node_def)
  then show ?thesis using reach invitations_in_order [OF reach] by blast
qed

end
