(* ===== verification/Resumable.thy ===== *)
theory Resumable
  imports Prelude
begin

text \<open>
  Incremental readers: the readers of the sources that take their input in portions. A reader is a function from its
  state and the bytes available to the new state, the bytes left and the result; the state is kept when
  the result is an exception, and \<open>DataNotReady\<close> asks the caller to start over when there is more.

  The locale \<open>resumable\<close> states what makes starting over correct: a reader that had to wait continues as
  if all the bytes had been there, one that finished is not affected by what follows. \<open>stable_reader\<close>
  adds that a finished reader returns the same again without reading.
\<close>

type_synonym ('s, 'a) reader = "'s \<Rightarrow> bytestring \<Rightarrow> 's \<times> bytestring \<times> (cpp_error + 'a)"

text \<open>A reader whose result is processed further: \<open>*(const quint8*)get(is).data()\<close> and the like.\<close>

definition then_read :: "('s, 'a) reader \<Rightarrow> ('a \<Rightarrow> cpp_error + 'b) \<Rightarrow> ('s, 'b) reader" where
  "then_read get f st s = (let (st', s', r) = get st s in (st', s', case r of Inl e \<Rightarrow> Inl e | Inr x \<Rightarrow> f x))"

text \<open>Going on after a call that may throw, and a read of raw memory that may be undefined.\<close>

definition try_then :: "cpp_error + 'a \<Rightarrow> ('a \<Rightarrow> cpp_error + 'b) \<Rightarrow> cpp_error + 'b" where
  "try_then x f = (case x of Inl e \<Rightarrow> Inl e | Inr a \<Rightarrow> f a)"

definition opt_undef :: "'a option \<Rightarrow> ('a \<Rightarrow> cpp_error + 'b) \<Rightarrow> cpp_error + 'b" where
  "opt_undef x f = (case x of None \<Rightarrow> Inl Undefined | Some y \<Rightarrow> f y)"

lemma try_then_simps [simp]: "try_then (Inl e) f = Inl e" "try_then (Inr a) f = f a"
  by (simp_all add: try_then_def)

lemma opt_undef_simps [simp]: "opt_undef None f = Inl Undefined" "opt_undef (Some y) f = f y"
  by (simp_all add: opt_undef_def)

text \<open>One reader after another, on the same state.\<close>

definition seq_read :: "('s, unit) reader \<Rightarrow> ('s, unit) reader \<Rightarrow> ('s, unit) reader" where
  "seq_read f g p s = (case f p s of (p', s', Inl e) \<Rightarrow> (p', s', Inl e) | (p', s', Inr _) \<Rightarrow> g p' s')"

section \<open>The contract of an incremental reader\<close>

locale resumable =
  fixes get :: "('s, 'a) reader"
    and ok :: "'s \<Rightarrow> bool"
  assumes wait: "ok st \<Longrightarrow> get st s = (st', rest, Inl DataNotReady) \<Longrightarrow>
      rest = [] \<and> ok st' \<and> get st (s @ s2) = get st' s2"
    and settled: "ok st \<Longrightarrow> get st s = (st', rest, r) \<Longrightarrow> r \<noteq> Inl DataNotReady \<Longrightarrow>
      ok st' \<and> get st (s @ s2) = (st', rest @ s2, r)"
begin

lemma keeps_ok: "ok st \<Longrightarrow> get st s = (st', rest, r) \<Longrightarrow> ok st'"
  using wait settled by blast

text \<open>A reader that gets its bytes in two portions, starting over after the first if it has to wait.\<close>

lemma two_portions:
  assumes "ok st" and "get st s = (st', rest, r)"
  shows "get st (s @ s2) = (if r = Inl DataNotReady then get st' s2 else (st', rest @ s2, r))"
  using wait [OF assms(1)] settled [OF assms] assms(2) by (cases "r = Inl DataNotReady") simp_all

end

locale stable_reader = resumable get ok
  for get :: "('s, 'a) reader" and ok :: "'s \<Rightarrow> bool" +
  assumes again: "ok st \<Longrightarrow> get st s = (st', rest, r) \<Longrightarrow> r \<noteq> Inl DataNotReady \<Longrightarrow> get st' s2 = (st', s2, r)"
begin

text \<open>Processing the result further keeps the contract, provided it does not itself ask for more data.\<close>

lemma then_read_stable:
  assumes "\<And>x. f x \<noteq> Inl DataNotReady"
  shows "stable_reader (then_read get f) ok"
proof
  fix st s st' rest s2
  assume ok: "ok st" and eq: "then_read get f st s = (st', rest, Inl DataNotReady)"
  then have "get st s = (st', rest, Inl DataNotReady)"
    using assms by (auto simp: then_read_def split: prod.splits sum.splits)
  then show "rest = [] \<and> ok st' \<and> then_read get f st (s @ s2) = then_read get f st' s2"
    using wait [OF ok] by (simp add: then_read_def)
next
  fix st s st' rest r s2
  assume ok: "ok st" and eq: "then_read get f st s = (st', rest, r)" and r: "r \<noteq> Inl DataNotReady"
  then obtain r0 where r0: "get st s = (st', rest, r0)" "r0 \<noteq> Inl DataNotReady"
    "r = (case r0 of Inl e \<Rightarrow> Inl e | Inr x \<Rightarrow> f x)"
    by (cases "get st s") (auto simp: then_read_def split: sum.splits)
  then show "ok st' \<and> then_read get f st (s @ s2) = (st', rest @ s2, r)"
    using settled [OF ok r0(1,2)] by (simp add: then_read_def)
  show "then_read get f st' s2 = (st', s2, r)"
    using again [OF ok r0(1,2)] r0(3) by (simp add: then_read_def)
qed

end

section \<open>Readers that remember what they have done\<close>

text \<open>
  A phase of a longer reading keeps in its state whether it is finished; started over then, it does
  nothing. Two phases in sequence, the second leaving the first one finished, are a phase again.
\<close>

definition keeps :: "('s \<Rightarrow> bool) \<Rightarrow> ('s, 'a) reader \<Rightarrow> bool" where
  "keeps P run = (\<forall>p s p' rest r. P p \<longrightarrow> run p s = (p', rest, r) \<longrightarrow> P p')"

lemma keepsD: "keeps P run \<Longrightarrow> P p \<Longrightarrow> run p s = (p', rest, r) \<Longrightarrow> P p'"
  unfolding keeps_def by blast

lemma seq_read_cases:
  assumes "seq_read f g p s = (p', rest, r)"
  obtains (stopped) e where "f p s = (p', rest, Inl e)" and "r = Inl e"
    | (continued) p1 s1 where "f p s = (p1, s1, Inr ())" and "g p1 s1 = (p', rest, r)"
  using assms by (auto simp: seq_read_def split: prod.splits sum.splits)

lemma keeps_seq:
  assumes "keeps P f" and "keeps P g"
  shows "keeps P (seq_read f g)"
  unfolding keeps_def
proof (intro allI impI)
  fix p s p' rest r
  assume "P p" and "seq_read f g p s = (p', rest, r)"
  from this(2,1) show "P p'"
    by (cases rule: seq_read_cases) (blast intro: keepsD [OF assms(1)] keepsD [OF assms(2)])+
qed

locale phase = resumable run ok
  for run :: "('s, unit) reader" and ok :: "'s \<Rightarrow> bool" +
  fixes finished :: "'s \<Rightarrow> bool"
  assumes finishes: "ok p \<Longrightarrow> run p s = (p', rest, Inr u) \<Longrightarrow> finished p'"
    and skips: "finished p \<Longrightarrow> run p s = (p, s, Inr ())"

locale two_phases = first: phase run1 ok finished1 + second: phase run2 ok finished2
  for run1 run2 :: "('s, unit) reader" and ok finished1 finished2 :: "'s \<Rightarrow> bool" +
  assumes first_stays: "keeps finished1 run2"
begin

lemma seq_phase: "phase (seq_read run1 run2) ok (\<lambda>p. finished1 p \<and> finished2 p)"
proof
  fix st s st' rest s2
  assume ok: "ok st" and eq: "seq_read run1 run2 st s = (st', rest, Inl DataNotReady)"
  from eq show "rest = [] \<and> ok st' \<and> seq_read run1 run2 st (s @ s2) = seq_read run1 run2 st' s2"
  proof (cases rule: seq_read_cases)
    case (stopped e)
    with first.wait [OF ok, of s st' rest s2] show ?thesis by (simp add: seq_read_def)
  next
    case (continued p1 s1)
    have "ok p1" and "finished1 p1" and f: "run1 st (s @ s2) = (p1, s1 @ s2, Inr ())"
      using first.settled [OF ok continued(1)] first.finishes [OF ok continued(1)] by simp_all
    then have "rest = []" and "ok st'" and r2: "run2 p1 (s1 @ s2) = run2 st' s2" and "finished1 st'"
      using second.wait [OF _ continued(2)] keepsD [OF first_stays _ continued(2)] by blast+
    then show ?thesis
      by (simp add: seq_read_def f first.skips)
  qed
next
  fix st s st' rest r s2
  assume ok: "ok st" and eq: "seq_read run1 run2 st s = (st', rest, r)" and r: "r \<noteq> Inl DataNotReady"
  from eq show "ok st' \<and> seq_read run1 run2 st (s @ s2) = (st', rest @ s2, r)"
  proof (cases rule: seq_read_cases)
    case (stopped e)
    with first.settled [OF ok, of s st' rest r s2] r show ?thesis by (simp add: seq_read_def)
  next
    case (continued p1 s1)
    then have "ok p1" and f: "run1 st (s @ s2) = (p1, s1 @ s2, Inr ())"
      using first.settled [OF ok continued(1)] by simp_all
    with second.settled [OF _ continued(2) r] show ?thesis by (simp add: seq_read_def f)
  qed
next
  fix p s p' rest u
  assume ok: "ok p" and eq: "seq_read run1 run2 p s = (p', rest, Inr u)"
  from eq show "finished1 p' \<and> finished2 p'"
  proof (cases rule: seq_read_cases)
    case (continued p1 s1)
    have "ok p1" using first.settled [OF ok continued(1)] by simp
    with continued second.finishes first.finishes [OF ok continued(1)] show ?thesis
      using keepsD [OF first_stays] by blast
  qed simp
next
  fix p s
  assume "finished1 p \<and> finished2 p"
  then show "seq_read run1 run2 p s = (p, s, Inr ())"
    by (simp add: seq_read_def first.skips second.skips)
qed

end

end
