(* ===== verification/Gpgnet_Parse.thy ===== *)
theory Gpgnet_Parse
  imports Resumable
begin

text \<open>
  The incremental reader of GPGnet commands (\<open>libs/gpgnet/GpgNetParse.cpp\<close>). Bytes arrive in chunks; a
  reader takes what is there and throws \<open>DataNotReady\<close> when it needs more, and the caller starts
  over with the next chunk. The bytes \<open>QByteArray::resize\<close> leaves uninitialised are zeros here; they are
  overwritten before a record is returned.

  The contracts of \<open>Resumable\<close> are interpreted on the readers of the code, from the record reader up to
  \<open>GetCommand\<close>.
\<close>

section \<open>The code\<close>

definition MAX_RECORD_SIZE :: u32 where "MAX_RECORD_SIZE = 10000"
definition MAX_NUM_ARGS :: u32 where "MAX_NUM_ARGS = 10"

record RecordReader =
  m_buffer :: bytestring
  m_progress :: nat

definition setSize :: "nat \<Rightarrow> RecordReader \<Rightarrow> RecordReader" where
  "setSize n r = r\<lparr>m_buffer := take n (m_buffer r) @ replicate (n - length (m_buffer r)) 0\<rparr>"

definition RecordReader_new :: RecordReader where
  "RecordReader_new = \<lparr>m_buffer = [], m_progress = 0\<rparr>"

definition record_reset :: "RecordReader \<Rightarrow> RecordReader" where
  "record_reset r = r\<lparr>m_progress := 0\<rparr>"

text \<open>\<open>RecordReader::get\<close>; \<open>readRawData\<close> takes as many bytes as are there, at most as many as asked for.\<close>

definition record_get :: "(RecordReader, bytestring) reader" where
  "record_get r s =
     (let p = m_progress r; buf = m_buffer r;
          bytesRead = (if p < length buf then min (length buf - p) (length s) else 0);
          r' = r\<lparr>m_buffer := take p buf @ take bytesRead s @ drop (p + bytesRead) buf,
                 m_progress := p + bytesRead\<rparr>
      in (r', drop bytesRead s,
          if m_progress r' = length (m_buffer r') then Inr (m_buffer r') else Inl DataNotReady))"

definition ByteRecordReader_new :: RecordReader where
  "ByteRecordReader_new = setSize 1 RecordReader_new"

definition IntRecordReader_new :: RecordReader where
  "IntRecordReader_new = setSize 4 RecordReader_new"

definition byte_of :: "bytestring \<Rightarrow> cpp_error + byte" where
  "byte_of buf = (case byte_at buf 0 of None \<Rightarrow> Inl Undefined | Some b \<Rightarrow> Inr b)"

definition int_of_bytes :: "bytestring \<Rightarrow> cpp_error + u32" where
  "int_of_bytes buf = (case load32 buf 0 of None \<Rightarrow> Inl Undefined | Some n \<Rightarrow> Inr n)"

definition getByte :: "(RecordReader, byte) reader" where
  "getByte = then_read record_get byte_of"

definition getInt :: "(RecordReader, u32) reader" where
  "getInt = then_read record_get int_of_bytes"

record ByteArrayRecordReader =
  m_size :: RecordReader
  m_data :: RecordReader

definition ByteArrayRecordReader_new :: ByteArrayRecordReader where
  "ByteArrayRecordReader_new = \<lparr>m_size = IntRecordReader_new, m_data = RecordReader_new\<rparr>"

definition array_reset :: "ByteArrayRecordReader \<Rightarrow> ByteArrayRecordReader" where
  "array_reset r = \<lparr>m_size = record_reset (m_size r), m_data = record_reset (m_data r)\<rparr>"

definition array_get :: "(ByteArrayRecordReader, bytestring) reader" where
  "array_get r s =
     (let (sz, s1, res) = getInt (m_size r) s; r1 = r\<lparr>m_size := sz\<rparr> in
      case res of
        Inl e \<Rightarrow> (r1, s1, Inl e)
      | Inr n \<Rightarrow>
          if n > MAX_RECORD_SIZE then (r1, s1, Inl (RuntimeError ''record exceeds MAX_RECORD_SIZE''))
          else let (d, s2, res2) = record_get (setSize (unat n) (m_data r1)) s1
               in (r1\<lparr>m_data := d\<rparr>, s2, res2))"

text \<open>The argument readers: \<open>IntRecordReader\<close> or \<open>ByteArrayRecordReader\<close> behind the virtual \<open>get\<close>.\<close>

datatype arg_reader = IntArg RecordReader | ArrayArg ByteArrayRecordReader

fun arg_get :: "(arg_reader, bytestring) reader" where
  "arg_get (IntArg r) s = (let (r', s', res) = record_get r s in (IntArg r', s', res))"
| "arg_get (ArrayArg r) s = (let (r', s', res) = array_get r s in (ArrayArg r', s', res))"

datatype QVariant = UInt u32 | ByteArray bytestring

text \<open>
  The loop over the arguments, from argument \<open>nArg\<close> on: \<open>k\<close> arguments are left, the lists are the
  readers of \<open>m_argTypes\<close> and \<open>m_args\<close> from index \<open>nArg\<close> on. A reader is appended when there is none.
\<close>

definition argType_reader :: "RecordReader list \<Rightarrow> RecordReader" where
  "argType_reader ts = (case ts of [] \<Rightarrow> ByteRecordReader_new | t # _ \<Rightarrow> t)"

definition arg_of_type :: "byte \<Rightarrow> arg_reader list \<Rightarrow> arg_reader" where
  "arg_of_type argType as = (case as of
     [] \<Rightarrow> if argType = 0 then IntArg IntRecordReader_new else ArrayArg ByteArrayRecordReader_new
   | a # _ \<Rightarrow> a)"

definition arg_value :: "byte \<Rightarrow> bytestring \<Rightarrow> cpp_error + QVariant" where
  "arg_value argType buf = (if argType = 0 then map_sum id UInt (int_of_bytes buf) else Inr (ByteArray buf))"

fun get_args :: "nat \<Rightarrow> (RecordReader list \<times> arg_reader list, QVariant list) reader" where
  "get_args 0 st s = (st, s, Inr [])"
| "get_args (Suc k) (ts, as) s =
     (let (t, s1, res) = getByte (argType_reader ts) s in
      case res of
        Inl e \<Rightarrow> ((t # tl ts, as), s1, Inl e)
      | Inr argType \<Rightarrow>
          if argType = 0 \<or> argType = 1
          then let (a, s2, res2) = then_read arg_get (arg_value argType) (arg_of_type argType as) s1
               in case res2 of
                    Inl e \<Rightarrow> ((t # tl ts, a # tl as), s2, Inl e)
                  | Inr v \<Rightarrow>
                      let ((ts', as'), s3, res3) = get_args k (tl ts, tl as) s2
                      in ((t # ts', a # as'), s3, map_sum id (\<lambda>vs. v # vs) res3)
          else ((t # tl ts, as), s1, Inl (RuntimeError ''unexpected argument type'')))"

record GpgNetParse =
  m_command :: ByteArrayRecordReader
  m_numArgs :: RecordReader
  m_argReaders :: "RecordReader list \<times> arg_reader list"   \<comment> \<open>\<open>m_argTypes\<close> and \<open>m_args\<close>\<close>

definition GpgNetParse_new :: GpgNetParse where
  "GpgNetParse_new = \<lparr>m_command = ByteArrayRecordReader_new, m_numArgs = IntRecordReader_new, m_argReaders = ([], [])\<rparr>"

definition parse_reset :: "GpgNetParse \<Rightarrow> GpgNetParse" where
  "parse_reset p = \<lparr>m_command = array_reset (m_command p), m_numArgs = record_reset (m_numArgs p), m_argReaders = ([], [])\<rparr>"

definition GetCommand :: "(GpgNetParse, QVariant list) reader" where
  "GetCommand p s =
     (let (c, s1, res1) = array_get (m_command p) s; p1 = p\<lparr>m_command := c\<rparr> in
      case res1 of
        Inl e \<Rightarrow> (p1, s1, Inl e)
      | Inr command \<Rightarrow>
          let (n, s2, res2) = getInt (m_numArgs p1) s1; p2 = p1\<lparr>m_numArgs := n\<rparr> in
          case res2 of
            Inl e \<Rightarrow> (p2, s2, Inl e)
          | Inr numArgs \<Rightarrow>
              if numArgs > MAX_NUM_ARGS then (p2, s2, Inl (RuntimeError ''number of arguments exceeds MAX_NUM_ARGS''))
              else let (rs, s3, res3) = get_args (unat numArgs) (m_argReaders p2) s2; p3 = p2\<lparr>m_argReaders := rs\<rparr> in
                   case res3 of
                     Inl e \<Rightarrow> (p3, s3, Inl e)
                   | Inr args \<Rightarrow> (parse_reset p3, s3, Inr (ByteArray command # args)))"

section \<open>The readers of the code keep the contract\<close>

definition reader_ok :: "RecordReader \<Rightarrow> bool" where
  "reader_ok r = (m_progress r \<le> length (m_buffer r))"

abbreviation rdr :: "bytestring \<Rightarrow> nat \<Rightarrow> RecordReader" where
  "rdr buf p \<equiv> \<lparr>m_buffer = buf, m_progress = p\<rparr>"

lemma record_get_wait:
  assumes "p + length s < length buf"
  shows "record_get (rdr buf p) s = (rdr (take p buf @ s @ drop (p + length s) buf) (p + length s), [], Inl DataNotReady)"
  using assms by (simp add: record_get_def Let_def)

lemma record_get_done:
  assumes "length buf = p + length xs"
  shows "record_get (rdr buf p) (xs @ ys) = (rdr (take p buf @ xs) (length buf), ys, Inr (take p buf @ xs))"
  using assms by (simp add: record_get_def Let_def)

lemma record_get_cases:
  assumes "reader_ok r"
  obtains (waits) buf p where "r = rdr buf p" "p + length s < length buf"
  | (complete) buf p xs ys where "r = rdr buf p" "s = xs @ ys" "length buf = p + length xs"
proof -
  obtain buf p where r: "r = rdr buf p" by (cases r)
  show thesis
  proof (cases "p + length s < length buf")
    case False
    then show thesis
      using assms r
      by (intro complete [of buf p "take (length buf - p) s" "drop (length buf - p) s"]) (auto simp: reader_ok_def)
  qed (rule waits [OF r])
qed

interpretation rec: stable_reader record_get reader_ok
proof
  fix st s st' rest s2
  assume ok: "reader_ok st" and eq: "record_get st s = (st', rest, Inl DataNotReady)"
  from ok show "rest = [] \<and> reader_ok st' \<and> record_get st (s @ s2) = record_get st' s2"
  proof (cases rule: record_get_cases [where s = s])
    case (waits buf p)
    let ?buf = "take p buf @ s @ drop (p + length s) buf" and ?p = "p + length s"
    have len: "length ?buf = length buf" using waits by simp
    have st': "st' = rdr ?buf ?p" "rest = []"
      using eq waits by (simp_all add: record_get_wait)
    then have ok': "reader_ok st'" using waits by (simp add: reader_ok_def)
    then have "record_get st (s @ s2) = record_get st' s2"
    proof (cases rule: record_get_cases [where s = s2])
      case (waits buf' p')
      then have "buf' = ?buf" "p' = ?p" using st'(1) by auto
      then have "p + length (s @ s2) < length buf" using waits(2) len by simp
      then show ?thesis
        using record_get_wait [of ?p s2 ?buf] record_get_wait [of p "s @ s2" buf] \<open>st = rdr buf p\<close> st'
          \<open>p + length s < length buf\<close>
        by (simp add: add.assoc add.commute add.left_commute)
    next
      case (complete buf' p' xs ys)
      then have "buf' = ?buf" "p' = ?p" using st'(1) by auto
      then have "length buf = p + length (s @ xs)" using complete(3) len by simp
      then show ?thesis
        using record_get_done [of ?buf ?p xs ys] record_get_done [of buf p "s @ xs" ys] waits st' complete
        by simp
    qed
    then show ?thesis using st' ok' by simp
  next
    case (complete buf p xs ys)
    then show ?thesis using eq by (simp add: record_get_done)
  qed
next
  fix st s st' rest r s2
  assume ok: "reader_ok st" and eq: "record_get st s = (st', rest, r)" and r: "r \<noteq> Inl DataNotReady"
  from ok obtain buf p xs ys where d: "st = rdr buf p" "s = xs @ ys" "length buf = p + length xs"
    by (cases rule: record_get_cases [where s = s]) (use eq r in \<open>auto simp: record_get_wait\<close>)
  then have st': "st' = rdr (take p buf @ xs) (length buf)" "rest = ys" "r = Inr (take p buf @ xs)"
    using eq by (simp_all add: record_get_done)
  then show "reader_ok st' \<and> record_get st (s @ s2) = (st', rest @ s2, r)"
    using d record_get_done [of buf p xs "ys @ s2"] by (simp add: reader_ok_def)
  show "record_get st' s2 = (st', s2, r)"
    using d st' record_get_done [of "take p buf @ xs" "length buf" "[]" s2] by simp
qed

lemma byte_of_ready [simp]: "byte_of x \<noteq> Inl DataNotReady" and int_of_bytes_ready [simp]: "int_of_bytes x \<noteq> Inl DataNotReady"
  by (auto simp: byte_of_def int_of_bytes_def split: option.splits)

interpretation byte: stable_reader getByte reader_ok
  unfolding getByte_def by (rule rec.then_read_stable) simp

interpretation int: stable_reader getInt reader_ok
  unfolding getInt_def by (rule rec.then_read_stable) simp

text \<open>The size reader returns the same size again, so setting the size again changes nothing.\<close>

definition array_ok :: "ByteArrayRecordReader \<Rightarrow> bool" where
  "array_ok r = (reader_ok (m_size r) \<and>
     (m_progress (m_data r) = 0 \<or>
      (\<exists>n. (\<forall>s. getInt (m_size r) s = (m_size r, s, Inr n)) \<and> n \<le> MAX_RECORD_SIZE \<and> length (m_buffer (m_data r)) = unat n \<and>
         reader_ok (m_data r))))"

lemma setSize_ok: "m_progress r = 0 \<Longrightarrow> reader_ok (setSize n r)"
  by (simp add: reader_ok_def setSize_def)

lemma setSize_same: "length (m_buffer r) = n \<Longrightarrow> setSize n r = r"
  by (simp add: setSize_def)

lemma record_get_length: "record_get r s = (r', rest, x) \<Longrightarrow> reader_ok r \<Longrightarrow> length (m_buffer r') = length (m_buffer r)"
  by (auto simp: record_get_def Let_def reader_ok_def)

lemma setSize_length [simp]: "length (m_buffer (setSize n r)) = n"
  by (simp add: setSize_def)

lemma array_ok_setSize:
  assumes "array_ok r" and "getInt (m_size r) s = (sz, s1, Inr n)"
  shows "reader_ok (setSize (unat n) (m_data r))"
proof -
  consider "m_progress (m_data r) = 0"
    | k where "getInt (m_size r) s = (m_size r, s, Inr k)" "length (m_buffer (m_data r)) = unat k" "reader_ok (m_data r)"
    using assms(1) by (auto simp: array_ok_def)
  then show ?thesis
    by cases (use assms(2) in \<open>auto simp: setSize_ok setSize_same\<close>)
qed

interpretation array: stable_reader array_get array_ok
proof
  fix st s st' rest s2
  assume ok: "array_ok st" and eq: "array_get st s = (st', rest, Inl DataNotReady)"
  have sz_ok: "reader_ok (m_size st)" using ok by (simp add: array_ok_def)
  obtain sz s1 res where g: "getInt (m_size st) s = (sz, s1, res)" by (metis prod_cases3)
  show "rest = [] \<and> array_ok st' \<and> array_get st (s @ s2) = array_get st' s2"
  proof (cases res)
    case (Inl e)
    then have e: "e = DataNotReady" "st' = st\<lparr>m_size := sz\<rparr>" "rest = s1"
      using eq g by (simp_all add: array_get_def)
    have "m_progress (m_data st) = 0"
      using ok g Inl by (auto simp: array_ok_def)
    moreover note int.wait [OF sz_ok g [unfolded Inl e(1)]]
    ultimately show ?thesis
      using e by (auto simp: array_ok_def array_get_def Let_def split: prod.splits)
  next
    case (Inr n)
    have n: "n \<le> MAX_RECORD_SIZE"
      using eq g Inr by (auto simp: array_get_def Let_def split: if_splits prod.splits)
    obtain d where d: "record_get (setSize (unat n) (m_data st)) s1 = (d, rest, Inl DataNotReady)"
      and st': "st' = st\<lparr>m_size := sz, m_data := d\<rparr>"
      using eq g Inr n by (auto simp: array_get_def Let_def split: prod.splits if_splits)
    note dok = array_ok_setSize [OF ok g [unfolded Inr]]
    have w: "rest = []" "reader_ok d" "record_get (setSize (unat n) (m_data st)) (s1 @ s2) = record_get d s2"
      using rec.wait [OF dok d] by simp_all
    have len: "length (m_buffer d) = unat n" using record_get_length [OF d dok] by simp
    have sz: "reader_ok sz" "getInt (m_size st) (s @ s2) = (sz, s1 @ s2, Inr n)" "\<And>t. getInt sz t = (sz, t, Inr n)"
      using int.settled [OF sz_ok g] int.again [OF sz_ok g] Inr by simp_all
    show ?thesis
      using w len sz st' n by (auto simp: array_ok_def array_get_def Let_def setSize_same split: prod.splits)
  qed
next
  fix st s st' rest r s2
  assume ok: "array_ok st" and eq: "array_get st s = (st', rest, r)" and r: "r \<noteq> Inl DataNotReady"
  have sz_ok: "reader_ok (m_size st)" using ok by (simp add: array_ok_def)
  obtain sz s1 res where g: "getInt (m_size st) s = (sz, s1, res)" by (metis prod_cases3)
  have res: "res \<noteq> Inl DataNotReady" using eq g r by (auto simp: array_get_def)
  have sz: "reader_ok sz" "getInt (m_size st) (s @ s2) = (sz, s1 @ s2, res)" "\<And>t. getInt sz t = (sz, t, res)"
    using int.settled [OF sz_ok g res] int.again [OF sz_ok g res] by simp_all
  have "(array_ok st' \<and> array_get st (s @ s2) = (st', rest @ s2, r)) \<and> array_get st' s2 = (st', s2, r)"
  proof (cases "\<exists>n. res = Inr n \<and> n \<le> MAX_RECORD_SIZE")
    case False
    then have e: "st' = st\<lparr>m_size := sz\<rparr>" "rest = s1"
      using eq g by (auto simp: array_get_def Let_def split: sum.splits if_splits)
    have "m_progress (m_data st) = 0"
      using ok g False by (auto simp: array_ok_def)
    then show ?thesis
      using e sz False eq g by (auto simp: array_ok_def array_get_def Let_def split: sum.splits if_splits)
  next
    case True
    then obtain n where n: "res = Inr n" "n \<le> MAX_RECORD_SIZE" by blast
    obtain d where d: "record_get (setSize (unat n) (m_data st)) s1 = (d, rest, r)"
      and st': "st' = st\<lparr>m_size := sz, m_data := d\<rparr>"
      using eq g n by (auto simp: array_get_def Let_def split: prod.splits if_splits)
    note dok = array_ok_setSize [OF ok g [unfolded n(1)]]
    have w: "reader_ok d" "record_get (setSize (unat n) (m_data st)) (s1 @ s2) = (d, rest @ s2, r)"
      "record_get d s2 = (d, s2, r)"
      using rec.settled [OF dok d r] rec.again [OF dok d r] by simp_all
    have len: "length (m_buffer d) = unat n" using record_get_length [OF d dok] by simp
    show ?thesis
      using w len sz st' n by (auto simp: array_ok_def array_get_def Let_def setSize_same split: prod.splits)
  qed
  then show "array_ok st' \<and> array_get st (s @ s2) = (st', rest @ s2, r)" "array_get st' s2 = (st', s2, r)"
    by simp_all
qed

fun arg_ok :: "arg_reader \<Rightarrow> bool" where
  "arg_ok (IntArg r) = reader_ok r"
| "arg_ok (ArrayArg r) = array_ok r"

interpretation arg: stable_reader arg_get arg_ok
proof
  fix st s st' rest s2
  assume ok: "arg_ok st" and eq: "arg_get st s = (st', rest, Inl DataNotReady)"
  show "rest = [] \<and> arg_ok st' \<and> arg_get st (s @ s2) = arg_get st' s2"
  proof (cases st)
    case (IntArg r)
    then obtain r' where r': "record_get r s = (r', rest, Inl DataNotReady)" "st' = IntArg r'"
      using eq by (auto simp: Let_def split: prod.splits)
    then show ?thesis using rec.wait [OF _ r'(1)] ok IntArg by simp
  next
    case (ArrayArg r)
    then obtain r' where r': "array_get r s = (r', rest, Inl DataNotReady)" "st' = ArrayArg r'"
      using eq by (auto simp: Let_def split: prod.splits)
    then show ?thesis using array.wait [OF _ r'(1)] ok ArrayArg by simp
  qed
next
  fix st s st' rest r s2
  assume ok: "arg_ok st" and eq: "arg_get st s = (st', rest, r)" and r: "r \<noteq> Inl DataNotReady"
  have "(arg_ok st' \<and> arg_get st (s @ s2) = (st', rest @ s2, r)) \<and> arg_get st' s2 = (st', s2, r)"
  proof (cases st)
    case (IntArg x)
    then obtain r' where r': "record_get x s = (r', rest, r)" "st' = IntArg r'"
      using eq by (auto simp: Let_def split: prod.splits)
    then show ?thesis using rec.settled [OF _ r'(1) r] rec.again [OF _ r'(1) r] ok IntArg by simp
  next
    case (ArrayArg x)
    then obtain r' where r': "array_get x s = (r', rest, r)" "st' = ArrayArg r'"
      using eq by (auto simp: Let_def split: prod.splits)
    then show ?thesis using array.settled [OF _ r'(1) r] array.again [OF _ r'(1) r] ok ArrayArg by simp
  qed
  then show "arg_ok st' \<and> arg_get st (s @ s2) = (st', rest @ s2, r)" "arg_get st' s2 = (st', s2, r)"
    by simp_all
qed

lemma arg_value_ready: "arg_value ty x \<noteq> Inl DataNotReady"
  by (simp add: arg_value_def)

lemma arg_value_stable: "stable_reader (then_read arg_get (arg_value ty)) arg_ok"
  by (rule arg.then_read_stable) (rule arg_value_ready)

fun args_ok :: "RecordReader list \<times> arg_reader list \<Rightarrow> bool" where
  "args_ok (ts, as) = (list_all reader_ok ts \<and> list_all arg_ok as)"

lemma new_readers_ok [simp]:
  "reader_ok ByteRecordReader_new" "reader_ok IntRecordReader_new" "array_ok ByteArrayRecordReader_new"
  by (simp_all add: reader_ok_def array_ok_def ByteRecordReader_new_def IntRecordReader_new_def
      ByteArrayRecordReader_new_def RecordReader_new_def setSize_def)

lemma head_readers_ok:
  "list_all reader_ok ts \<Longrightarrow> reader_ok (argType_reader ts)"
  "list_all arg_ok as \<Longrightarrow> arg_ok (arg_of_type ty as)"
  by (auto simp: argType_reader_def arg_of_type_def split: list.splits)

lemma list_all_tl: "list_all P xs \<Longrightarrow> list_all P (tl xs)"
  by (cases xs) simp_all

lemma head_readers [simp]: "argType_reader (t # ts) = t" "arg_of_type ty (a # as) = a"
  by (simp_all add: argType_reader_def arg_of_type_def)

text \<open>What the contract says of one call, as one fact.\<close>

definition keeps_contract :: "('s \<Rightarrow> bool) \<Rightarrow> ('s, 'a) reader \<Rightarrow> 's \<Rightarrow> bytestring \<Rightarrow> bytestring \<Rightarrow> bool" where
  "keeps_contract ok get st s s2 =
     (let (st', rest, r) = get st s in ok st' \<and>
       (if r = Inl DataNotReady then rest = [] \<and> get st (s @ s2) = get st' s2
        else get st (s @ s2) = (st', rest @ s2, r) \<and> (\<forall>t. get st' t = (st', t, r))))"

lemma stable_reader_iff:
  "stable_reader get ok \<longleftrightarrow> (\<forall>st s s2. ok st \<longrightarrow> keeps_contract ok get st s s2)"
  (is "_ \<longleftrightarrow> ?contract")
proof
  assume st: "stable_reader get ok"
  then have res: "resumable get ok" by (simp add: stable_reader_def)
  show ?contract
  proof (intro allI impI)
    fix st s s2
    assume ok: "ok st"
    obtain st' rest r where g: "get st s = (st', rest, r)" by (metis prod_cases3)
    show "keeps_contract ok get st s s2"
      using resumable.wait [OF res ok] resumable.settled [OF res ok g] stable_reader.again [OF st ok g] g
      by (cases "r = Inl DataNotReady") (auto simp: keeps_contract_def)
  qed
next
  assume c: ?contract
  show "stable_reader get ok"
  proof
    fix st s st' rest s2
    assume "ok st" "get st s = (st', rest, Inl DataNotReady)"
    then show "rest = [] \<and> ok st' \<and> get st (s @ s2) = get st' s2"
      using c [rule_format, of st s s2] by (simp add: keeps_contract_def)
  next
    fix st s st' rest r s2
    assume "ok st" "get st s = (st', rest, r)" "r \<noteq> Inl DataNotReady"
    then show "ok st' \<and> get st (s @ s2) = (st', rest @ s2, r)" "get st' s2 = (st', s2, r)"
      using c [rule_format, of st s s2] by (simp_all add: keeps_contract_def)
  qed
qed

lemma get_args_contract: "args_ok st \<Longrightarrow> keeps_contract args_ok (get_args k) st s s2"
proof (induction k arbitrary: st s)
  case 0
  then show ?case by (simp add: keeps_contract_def)
next
  case (Suc k)
  obtain ts as where st: "st = (ts, as)" and ok: "list_all reader_ok ts" "list_all arg_ok as"
    using Suc.prems by (cases st) auto
  note tlok = list_all_tl [OF ok(1)] list_all_tl [OF ok(2)]
  obtain t s1 res where t: "getByte (argType_reader ts) s = (t, s1, res)" by (metis prod_cases3)
  note ct = stable_reader_iff [THEN iffD1, OF byte.stable_reader_axioms, rule_format,
      OF head_readers_ok(1) [OF ok(1)], of s s2, unfolded keeps_contract_def t, simplified]
  show ?case
  proof (cases "\<exists>ty. res = Inr ty \<and> (ty = 0 \<or> ty = 1)")
    case False
    then show ?thesis
      using ct t ok tlok by (auto simp: keeps_contract_def st split: sum.splits if_splits cong del: sum.case_cong_weak prod.case_cong_weak if_weak_cong)
  next
    case True
    then obtain ty where ty: "res = Inr ty" "ty = 0 \<or> ty = 1" by blast
    obtain a s3 res2 where a: "then_read arg_get (arg_value ty) (arg_of_type ty as) s1 = (a, s3, res2)"
      by (metis prod_cases3)
    note ca = stable_reader_iff [THEN iffD1, OF arg_value_stable, rule_format,
        OF head_readers_ok(2) [OF ok(2)], of ty ty s1 s2, unfolded keeps_contract_def a, simplified]
    show ?thesis
    proof (cases res2)
      case (Inl e)
      then show ?thesis
        using ct ca t a ty ok tlok by (auto simp: keeps_contract_def st split: if_splits cong del: sum.case_cong_weak prod.case_cong_weak if_weak_cong)
    next
      case (Inr v)
      obtain ts' as' s4 res3 where g: "get_args k (tl ts, tl as) s3 = ((ts', as'), s4, res3)"
        by (metis prod_cases3 surj_pair)
      note cg = Suc.IH [of "(tl ts, tl as)" s3, unfolded keeps_contract_def g, simplified]
      show ?thesis
        using ct ca cg t a g ty Inr ok tlok
        by (auto simp: keeps_contract_def st split: if_splits cong del: sum.case_cong_weak prod.case_cong_weak if_weak_cong)
    qed
  qed
qed

interpretation args: stable_reader "get_args k" args_ok for k
  by (simp add: stable_reader_iff get_args_contract)

definition parser_ok :: "GpgNetParse \<Rightarrow> bool" where
  "parser_ok p = (array_ok (m_command p) \<and> reader_ok (m_numArgs p) \<and> args_ok (m_argReaders p))"

lemma parse_reset_ok: "parser_ok p \<Longrightarrow> parser_ok (parse_reset p)"
  by (auto simp: parser_ok_def parse_reset_def array_ok_def reader_ok_def array_reset_def record_reset_def)

text \<open>
  The stages of \<open>GetCommand\<close> before the final reset; they keep the stable contract, so that also an
  exception other than \<open>DataNotReady\<close> is thrown again by every later call.
\<close>

definition command_stages :: "(GpgNetParse, QVariant list) reader" where
  "command_stages p s =
     (let (c, s1, res1) = array_get (m_command p) s; p1 = p\<lparr>m_command := c\<rparr> in
      case res1 of
        Inl e \<Rightarrow> (p1, s1, Inl e)
      | Inr command \<Rightarrow>
          let (n, s2, res2) = getInt (m_numArgs p1) s1; p2 = p1\<lparr>m_numArgs := n\<rparr> in
          case res2 of
            Inl e \<Rightarrow> (p2, s2, Inl e)
          | Inr numArgs \<Rightarrow>
              if numArgs > MAX_NUM_ARGS then (p2, s2, Inl (RuntimeError ''number of arguments exceeds MAX_NUM_ARGS''))
              else let (rs, s3, res3) = get_args (unat numArgs) (m_argReaders p2) s2
                   in (p2\<lparr>m_argReaders := rs\<rparr>, s3, map_sum id (\<lambda>args. ByteArray command # args) res3))"

lemma GetCommand_stages:
  "GetCommand p s = (let (p', rest, r) = command_stages p s
     in (case r of Inl e \<Rightarrow> p' | Inr x \<Rightarrow> parse_reset p', rest, r))"
  by (auto simp: GetCommand_def command_stages_def Let_def split: prod.splits sum.splits)

lemma command_stages_contract:
  assumes "parser_ok p"
  shows "keeps_contract parser_ok command_stages p s s2"
proof -
  have ok: "array_ok (m_command p)" "reader_ok (m_numArgs p)" "args_ok (m_argReaders p)"
    using assms by (simp_all add: parser_ok_def)
  note del = sum.case_cong_weak prod.case_cong_weak if_weak_cong
  obtain c s1 res1 where c: "array_get (m_command p) s = (c, s1, res1)" by (metis prod_cases3)
  note cc = stable_reader_iff [THEN iffD1, OF array.stable_reader_axioms, rule_format,
      OF ok(1), of s s2, unfolded keeps_contract_def c, simplified]
  show ?thesis
  proof (cases res1)
    case (Inl e)
    then show ?thesis
      using cc c ok by (auto simp: keeps_contract_def command_stages_def parser_ok_def Let_def split: if_splits cong del: del)
  next
    case (Inr command)
    obtain n s3 res2 where n: "getInt (m_numArgs p) s1 = (n, s3, res2)" by (metis prod_cases3)
    note cn = stable_reader_iff [THEN iffD1, OF int.stable_reader_axioms, rule_format,
        OF ok(2), of s1 s2, unfolded keeps_contract_def n, simplified]
    show ?thesis
    proof (cases "\<exists>k. res2 = Inr k \<and> k \<le> MAX_NUM_ARGS")
      case False
      then show ?thesis
        using cc cn c n ok Inr
        by (auto simp: keeps_contract_def command_stages_def parser_ok_def Let_def split: if_splits sum.splits cong del: del)
    next
      case True
      then obtain k where k: "res2 = Inr k" "k \<le> MAX_NUM_ARGS" by blast
      obtain rs s4 res3 where g: "get_args (unat k) (m_argReaders p) s3 = (rs, s4, res3)" by (metis prod_cases3)
      note cg = get_args_contract [OF ok(3), of "unat k" s3 s2, unfolded keeps_contract_def g, simplified]
      show ?thesis
        using cc cn cg c n g k ok Inr
        by (auto simp: keeps_contract_def command_stages_def parser_ok_def Let_def split: if_splits cong del: del)
    qed
  qed
qed

interpretation stages: stable_reader command_stages parser_ok
  by (simp add: stable_reader_iff command_stages_contract)

interpretation cmd: resumable GetCommand parser_ok
proof
  fix st s st' rest s2
  assume ok: "parser_ok st" and eq: "GetCommand st s = (st', rest, Inl DataNotReady)"
  then have "command_stages st s = (st', rest, Inl DataNotReady)"
    by (auto simp: GetCommand_stages Let_def split: prod.splits sum.splits)
  from stages.wait [OF ok this] show "rest = [] \<and> parser_ok st' \<and> GetCommand st (s @ s2) = GetCommand st' s2"
    by (simp add: GetCommand_stages)
next
  fix st s st' rest r s2
  assume ok: "parser_ok st" and eq: "GetCommand st s = (st', rest, r)" and r: "r \<noteq> Inl DataNotReady"
  then obtain p where p: "command_stages st s = (p, rest, r)" "st' = (case r of Inl e \<Rightarrow> p | Inr x \<Rightarrow> parse_reset p)"
    by (auto simp: GetCommand_stages Let_def split: prod.splits)
  then show "parser_ok st' \<and> GetCommand st (s @ s2) = (st', rest @ s2, r)"
    using stages.settled [OF ok p(1) r] parse_reset_ok by (auto simp: GetCommand_stages split: sum.splits)
qed

lemma GetCommand_poisoned:
  assumes "parser_ok p" and "GetCommand p s = (p', rest, Inl e)" and "e \<noteq> DataNotReady"
  shows "GetCommand p' t = (p', t, Inl e)"
proof -
  have "command_stages p s = (p', rest, Inl e)"
    using assms(2) by (auto simp: GetCommand_stages Let_def split: prod.splits sum.splits)
  then show ?thesis
    using stages.again [OF assms(1)] assms(3) by (simp add: GetCommand_stages)
qed

section \<open>Reading back what was written\<close>

definition enc_bytes :: "bytestring \<Rightarrow> bytestring" where
  "enc_bytes bs = le32 (word_of_nat (length bs)) @ bs"

fun enc_arg :: "QVariant \<Rightarrow> bytestring" where
  "enc_arg (UInt n) = 0 # le32 n"
| "enc_arg (ByteArray bs) = 1 # enc_bytes bs"

definition enc_command :: "bytestring \<Rightarrow> QVariant list \<Rightarrow> bytestring" where
  "enc_command command args = enc_bytes command @ le32 (word_of_nat (length args)) @ concat (map enc_arg args)"

fun arg_fits :: "QVariant \<Rightarrow> bool" where
  "arg_fits (UInt n) = True"
| "arg_fits (ByteArray bs) = (length bs \<le> 10000)"

definition command_fits :: "bytestring \<Rightarrow> QVariant list \<Rightarrow> bool" where
  "command_fits command args = (length command \<le> 10000 \<and> length args \<le> 10 \<and> list_all arg_fits args)"

text \<open>A reader at the start of a record of \<open>n\<close> bytes.\<close>

definition fresh :: "nat \<Rightarrow> RecordReader \<Rightarrow> bool" where
  "fresh n r = (m_progress r = 0 \<and> length (m_buffer r) = n)"

definition fresh_array :: "ByteArrayRecordReader \<Rightarrow> bool" where
  "fresh_array r = (fresh 4 (m_size r) \<and> m_progress (m_data r) = 0)"

definition fresh_parser :: "GpgNetParse \<Rightarrow> bool" where
  "fresh_parser p = (fresh_array (m_command p) \<and> fresh 4 (m_numArgs p) \<and> m_argReaders p = ([], []))"

lemma record_get_fresh:
  assumes "fresh (length xs) r"
  shows "record_get r (xs @ ys) = (rdr xs (length xs), ys, Inr xs)"
proof -
  obtain buf where "r = rdr buf 0" "length buf = length xs" using assms by (cases r) (auto simp: fresh_def)
  then show ?thesis using record_get_done [of buf 0 xs ys] by simp
qed

lemma getInt_fresh: "fresh 4 r \<Longrightarrow> getInt r (le32 n @ ys) = (rdr (le32 n) 4, ys, Inr n)"
  using record_get_fresh [of "le32 n" r ys] load32_le32 [of n "[]"]
  by (simp add: getInt_def then_read_def int_of_bytes_def)

lemma array_get_fresh:
  assumes "fresh_array r" and "length bs \<le> 10000"
  shows "array_get r (enc_bytes bs @ ys) =
    (\<lparr>m_size = rdr (le32 (word_of_nat (length bs))) 4, m_data = rdr bs (length bs)\<rparr>, ys, Inr bs)"
proof -
  have n: "unat (word_of_nat (length bs) :: u32) = length bs"
    using assms(2) by (simp add: unsigned_of_nat take_bit_nat_eq_self)
  then have "\<not> word_of_nat (length bs) > MAX_RECORD_SIZE"
    using assms(2) by (simp add: MAX_RECORD_SIZE_def word_less_nat_alt)
  moreover have "fresh (length bs) (setSize (length bs) (m_data r))"
    using assms(1) by (simp add: fresh_array_def fresh_def) (simp add: setSize_def)
  ultimately show ?thesis
    using assms(1) n getInt_fresh [of "m_size r" "word_of_nat (length bs)" "bs @ ys"] record_get_fresh [of bs _ ys]
    by (simp add: array_get_def enc_bytes_def fresh_array_def)
qed

lemma fresh_new [simp]:
  "fresh (Suc 0) ByteRecordReader_new" "fresh 4 IntRecordReader_new" "fresh_array ByteArrayRecordReader_new" "fresh_parser GpgNetParse_new"
  by (simp_all add: fresh_parser_def fresh_array_def fresh_def ByteRecordReader_new_def IntRecordReader_new_def
      ByteArrayRecordReader_new_def GpgNetParse_new_def RecordReader_new_def setSize_def)

lemma arg_get_new:
  assumes "arg_fits v"
  shows "\<exists>t a. getByte ByteRecordReader_new (enc_arg v @ ys) = (t, tl (enc_arg v) @ ys, Inr (hd (enc_arg v))) \<and>
    then_read arg_get (arg_value (hd (enc_arg v))) (arg_of_type (hd (enc_arg v)) []) (tl (enc_arg v) @ ys) = (a, ys, Inr v)"
proof (cases v)
  case (UInt n)
  have "getByte ByteRecordReader_new (enc_arg v @ ys) = (rdr [0] 1, le32 n @ ys, Inr 0)"
    using record_get_fresh [of "[0]" ByteRecordReader_new "le32 n @ ys"]
    by (simp add: UInt getByte_def then_read_def byte_of_def)
  then show ?thesis
    using record_get_fresh [of "le32 n" IntRecordReader_new ys] load32_le32 [of n "[]"]
    by (simp add: UInt then_read_def arg_value_def arg_of_type_def int_of_bytes_def)
next
  case (ByteArray bs)
  have "getByte ByteRecordReader_new (enc_arg v @ ys) = (rdr [1] 1, enc_bytes bs @ ys, Inr 1)"
    using record_get_fresh [of "[1]" ByteRecordReader_new "enc_bytes bs @ ys"]
    by (simp add: ByteArray getByte_def then_read_def byte_of_def)
  then show ?thesis
    using array_get_fresh [of ByteArrayRecordReader_new bs ys] assms
    by (simp add: ByteArray then_read_def arg_value_def arg_of_type_def)
qed

lemma enc_arg_type: "hd (enc_arg v) = 0 \<or> hd (enc_arg v) = 1"
  by (cases v) auto

lemma get_args_new:
  "list_all arg_fits args \<Longrightarrow>
   \<exists>rs. get_args (length args) ([], []) (concat (map enc_arg args) @ ys) = (rs, ys, Inr args)"
proof (induction args)
  case (Cons v args)
  then obtain rs where rs: "get_args (length args) ([], []) (concat (map enc_arg args) @ ys) = (rs, ys, Inr args)" by auto
  obtain t a where "getByte ByteRecordReader_new (enc_arg v @ concat (map enc_arg args) @ ys) =
        (t, tl (enc_arg v) @ concat (map enc_arg args) @ ys, Inr (hd (enc_arg v)))"
    "then_read arg_get (arg_value (hd (enc_arg v))) (arg_of_type (hd (enc_arg v)) [])
        (tl (enc_arg v) @ concat (map enc_arg args) @ ys) = (a, concat (map enc_arg args) @ ys, Inr v)"
    using arg_get_new [of v "concat (map enc_arg args) @ ys"] Cons.prems by auto
  then show ?case
    using rs enc_arg_type [of v] by (cases rs) (auto simp: argType_reader_def)
qed simp

lemma GetCommand_enc:
  assumes "fresh_parser p" and "command_fits command args"
  shows "\<exists>p'. GetCommand p (enc_command command args @ ys) = (p', ys, Inr (ByteArray command # args)) \<and> fresh_parser p'"
proof -
  let ?n = "word_of_nat (length args) :: u32"
  have fit: "length command \<le> 10000" "length args \<le> 10" "list_all arg_fits args"
    using assms(2) by (simp_all add: command_fits_def)
  have n: "unat ?n = length args" "\<not> ?n > MAX_NUM_ARGS"
    using fit(2) by (simp_all add: unsigned_of_nat take_bit_nat_eq_self MAX_NUM_ARGS_def word_less_nat_alt)
  obtain rs where rs: "get_args (length args) ([], []) (concat (map enc_arg args) @ ys) = (rs, ys, Inr args)"
    using get_args_new [OF fit(3)] by blast
  have p: "fresh_array (m_command p)" "fresh 4 (m_numArgs p)" "m_argReaders p = ([], [])"
    using assms(1) by (simp_all add: fresh_parser_def)
  show ?thesis
    using array_get_fresh [OF p(1) fit(1), of "le32 ?n @ concat (map enc_arg args) @ ys"]
      getInt_fresh [OF p(2), of ?n "concat (map enc_arg args) @ ys"] rs n p(3)
    by (simp add: GetCommand_def enc_command_def)
       (simp add: fresh_parser_def fresh_array_def fresh_def parse_reset_def array_reset_def record_reset_def)
qed

end
