(* ===== verification/Gpgnet_Client.thy ===== *)
theory Gpgnet_Client
  imports Gpgnet_Parse
begin

text \<open>
  The GPGnet client (\<open>libs/gpgnet/GpgNetClient.cpp\<close>, \<open>GpgNetServerMessages.cpp\<close>, \<open>GpgNetSend.cpp\<close>):
  commands from the lobby server are read from the socket, decoded and emitted as signals; the game's
  state is reported by commands written to the socket. A \<open>QString\<close> is represented by its UTF-8
  encoding. The conversions of Qt the code relies on (decoding of UTF-8, numbers to and from text) are
  the parameter \<open>qt\<close>. The loop of \<open>onReadyRead\<close> catches the exceptions of the parser and of the decoding;
  indexing past the end of the argument list is the error \<open>Undefined\<close>.
\<close>

section \<open>Messages of the server\<close>

record qt =
  fromUtf8 :: "bytestring \<Rightarrow> bytestring"
  bytesToInt :: "bytestring \<Rightarrow> int"
  uintToString :: "u32 \<Rightarrow> bytestring"

fun variant_toString :: "qt \<Rightarrow> QVariant \<Rightarrow> bytestring" where
  "variant_toString q (UInt n) = uintToString q n"
| "variant_toString q (ByteArray bs) = fromUtf8 q bs"

fun variant_toInt :: "qt \<Rightarrow> QVariant \<Rightarrow> int" where
  "variant_toInt q (UInt n) = sint n"
| "variant_toInt q (ByteArray bs) = bytesToInt q bs"

fun split_on :: "byte \<Rightarrow> bytestring \<Rightarrow> bytestring list" where
  "split_on sep [] = [[]]"
| "split_on sep (c # cs) =
     (if c = sep then [] # split_on sep cs
      else case split_on sep cs of [] \<Rightarrow> [[c]] | p # ps \<Rightarrow> (c # p) # ps)"

definition SplitAliasAndRealName :: "bytestring \<Rightarrow> bytestring \<times> bytestring" where
  "SplitAliasAndRealName aliasAndReal =
     (let parts = split_on 0x2f aliasAndReal
      in (parts ! 0, if length parts > 1 then parts ! 1 else []))"

type_synonym qvariant_list = "QVariant list"

definition arg_at :: "qvariant_list \<Rightarrow> nat \<Rightarrow> cpp_error + QVariant" where
  "arg_at command i = (if i < length command then Inr (command ! i) else Inl Undefined)"

definition str_at :: "qt \<Rightarrow> qvariant_list \<Rightarrow> nat \<Rightarrow> cpp_error + bytestring" where
  "str_at q command i = map_sum id (variant_toString q) (arg_at command i)"

definition int_at :: "qt \<Rightarrow> qvariant_list \<Rightarrow> nat \<Rightarrow> cpp_error + int" where
  "int_at q command i = map_sum id (variant_toInt q) (arg_at command i)"

text \<open>The test at the start of every \<open>Set\<close>.\<close>

definition check_id :: "qt \<Rightarrow> string \<Rightarrow> qvariant_list \<Rightarrow> cpp_error + unit" where
  "check_id q ident command = try_then (str_at q command 0) (\<lambda>cmd.
     if cmd \<noteq> ascii ident then Inl (RuntimeError ''Unexpected command'') else Inr ())"

record CreateLobbyCommand =
  protocol :: int
  localPort :: int
  clc_playerName :: bytestring
  playerAlias :: bytestring
  playerRealName :: bytestring
  playerId :: int
  natTraversal :: int

definition CreateLobbyCommand_Set :: "qt \<Rightarrow> qvariant_list \<Rightarrow> cpp_error + CreateLobbyCommand" where
  "CreateLobbyCommand_Set q command =
     try_then (check_id q ''CreateLobby'' command) (\<lambda>_.
     try_then (int_at q command 1) (\<lambda>proto.
     try_then (int_at q command 2) (\<lambda>lport.
     try_then (str_at q command 3) (\<lambda>name.
     try_then (int_at q command 4) (\<lambda>pid.
     try_then (int_at q command 5) (\<lambda>nat.
     let (al, real) = SplitAliasAndRealName name
     in Inr \<lparr>protocol = proto, localPort = lport, clc_playerName = name, playerAlias = al,
             playerRealName = real, playerId = pid, natTraversal = nat\<rparr>))))))"

definition HostGameCommand_Set :: "qt \<Rightarrow> qvariant_list \<Rightarrow> cpp_error + bytestring" where
  "HostGameCommand_Set q command =
     try_then (check_id q ''HostGame'' command) (\<lambda>_. str_at q command 1)"

text \<open>\<open>JoinGameCommand\<close> and \<open>ConnectToPeerCommand\<close> have the same members.\<close>

record PeerCommand =
  peer_host :: bytestring
  peer_playerName :: bytestring
  peer_alias :: bytestring
  peer_realName :: bytestring
  peer_playerId :: int

definition set_peer :: "qt \<Rightarrow> string \<Rightarrow> qvariant_list \<Rightarrow> cpp_error + PeerCommand" where
  "set_peer q ident command =
     try_then (check_id q ident command) (\<lambda>_.
     try_then (str_at q command 1) (\<lambda>h.
     try_then (str_at q command 2) (\<lambda>name.
     try_then (int_at q command 3) (\<lambda>pid.
     let (al, real) = SplitAliasAndRealName name
     in Inr \<lparr>peer_host = h, peer_playerName = name, peer_alias = al, peer_realName = real, peer_playerId = pid\<rparr>))))"

definition JoinGameCommand_Set :: "qt \<Rightarrow> qvariant_list \<Rightarrow> cpp_error + PeerCommand" where
  "JoinGameCommand_Set q = set_peer q ''JoinGame''"

definition ConnectToPeerCommand_Set :: "qt \<Rightarrow> qvariant_list \<Rightarrow> cpp_error + PeerCommand" where
  "ConnectToPeerCommand_Set q = set_peer q ''ConnectToPeer''"

definition DisconnectFromPeerCommand_Set :: "qt \<Rightarrow> qvariant_list \<Rightarrow> cpp_error + int" where
  "DisconnectFromPeerCommand_Set q command =
     try_then (check_id q ''DisconnectFromPeer'' command) (\<lambda>_. int_at q command 1)"

definition PingMessage_Set :: "qt \<Rightarrow> qvariant_list \<Rightarrow> cpp_error + unit" where
  "PingMessage_Set q command = check_id q ''Ping'' command"

section \<open>The client\<close>

record GpgNetClient =
  m_gpgNetParser :: GpgNetParse
  m_gpgnetPlayerIds :: "bytestring \<rightharpoonup> u32"

datatype gpgnet_signal =
    createLobby int int bytestring bytestring int int
  | hostGame bytestring
  | joinGame bytestring bytestring bytestring int
  | connectToPeer bytestring bytestring bytestring int
  | disconnectFromPeer int

definition GpgNetClient_new :: GpgNetClient where
  "GpgNetClient_new = \<lparr>m_gpgNetParser = GpgNetParse_new, m_gpgnetPlayerIds = Map.empty\<rparr>"

type_synonym player_ids = "bytestring \<rightharpoonup> u32"

text \<open>The body of the loop after \<open>GetCommand\<close>.\<close>

definition dispatch :: "qt \<Rightarrow> qvariant_list \<Rightarrow> player_ids \<Rightarrow> cpp_error + player_ids \<times> gpgnet_signal list" where
  "dispatch q serverCommand ids =
     try_then (str_at q serverCommand 0) (\<lambda>cmd.
      if cmd = ascii ''CreateLobby''
      then map_sum id (\<lambda>clc. (ids(playerAlias clc \<mapsto> word_of_int (playerId clc)),
             [createLobby (protocol clc) (localPort clc) (playerAlias clc) (playerRealName clc) (playerId clc) (natTraversal clc)]))
             (CreateLobbyCommand_Set q serverCommand)
      else if cmd = ascii ''HostGame''
      then map_sum id (\<lambda>mapName. (ids, [hostGame mapName])) (HostGameCommand_Set q serverCommand)
      else if cmd = ascii ''JoinGame''
      then map_sum id (\<lambda>jgc. (ids(peer_alias jgc \<mapsto> word_of_int (peer_playerId jgc)),
             [joinGame (peer_host jgc) (peer_alias jgc) (peer_realName jgc) (peer_playerId jgc)]))
             (JoinGameCommand_Set q serverCommand)
      else if cmd = ascii ''ConnectToPeer''
      then map_sum id (\<lambda>ctp. (ids(peer_alias ctp \<mapsto> word_of_int (peer_playerId ctp)),
             [connectToPeer (peer_host ctp) (peer_alias ctp) (peer_realName ctp) (peer_playerId ctp)]))
             (ConnectToPeerCommand_Set q serverCommand)
      else if cmd = ascii ''DisconnectFromPeer''
      then map_sum id (\<lambda>pid. (ids, [disconnectFromPeer pid])) (DisconnectFromPeerCommand_Set q serverCommand)
      else Inr (ids, []))"

subsection \<open>Readers consume\<close>

definition shortens :: "('s, 'a) reader \<Rightarrow> bool" where
  "shortens get = (\<forall>st s st' rest r. get st s = (st', rest, r) \<longrightarrow> length rest \<le> length s)"

lemma shortensD: "shortens get \<Longrightarrow> get st s = (st', rest, r) \<Longrightarrow> length rest \<le> length s"
  unfolding shortens_def by blast

lemma record_get_shortens: "shortens record_get"
  by (auto simp: shortens_def record_get_def Let_def)

lemma then_read_shortens: "shortens get \<Longrightarrow> shortens (then_read get f)"
  by (fastforce simp: shortens_def then_read_def Let_def split: prod.splits)

lemmas int_shortens = then_read_shortens [OF record_get_shortens, of int_of_bytes, folded getInt_def]
  and byte_shortens = then_read_shortens [OF record_get_shortens, of byte_of, folded getByte_def]

lemma array_get_shortens: "shortens array_get"
  unfolding shortens_def array_get_def
  by (auto simp: Let_def split: prod.splits sum.splits if_splits
      dest!: shortensD [OF int_shortens] shortensD [OF record_get_shortens])

lemma arg_get_shortens: "shortens arg_get"
  unfolding shortens_def
proof (intro allI impI)
  fix st s st' rest r
  assume "arg_get st s = (st', rest, r)"
  then show "length rest \<le> length s"
    by (cases st) (auto split: prod.splits dest: shortensD [OF record_get_shortens] shortensD [OF array_get_shortens])
qed

lemma get_args_shortens: "get_args k st s = (st', rest, r) \<Longrightarrow> length rest \<le> length s"
proof (induction k arbitrary: st s st' rest r)
  case (Suc k)
  then show ?case
    by (cases st) (fastforce split: prod.splits sum.splits if_splits
      dest!: shortensD [OF byte_shortens] shortensD [OF then_read_shortens [OF arg_get_shortens]] Suc.IH)
qed simp

lemma GetCommand_progress:
  assumes "GetCommand p s = (p', rest, Inr cmd)"
  shows "length rest < length s \<or>
    length rest = length s \<and> m_progress (m_size (m_command p')) < m_progress (m_size (m_command p))"
proof -
  obtain c s1 x where c: "array_get (m_command p) s = (c, s1, Inr x)" and rest: "length rest \<le> length s1"
    and p': "m_progress (m_size (m_command p')) = 0"
    using assms
    by (fastforce simp: GetCommand_def Let_def parse_reset_def array_reset_def record_reset_def
        split: prod.splits sum.splits if_splits dest: get_args_shortens shortensD [OF int_shortens])
  obtain sz s2 n where sz: "getInt (m_size (m_command p)) s = (sz, s2, Inr n)" and s1: "length s1 \<le> length s2"
    using c by (fastforce simp: array_get_def Let_def split: prod.splits sum.splits if_splits
        dest: shortensD [OF record_get_shortens])
  have "length s2 < length s \<or> length s2 = length s \<and> 0 < m_progress (m_size (m_command p))"
    using sz
    by (auto simp: getInt_def then_read_def record_get_def int_of_bytes_def load32_def byte_at_def Let_def
        split: if_splits option.splits)
  then show ?thesis using rest s1 p' by auto
qed

subsection \<open>\<open>onReadyRead\<close>\<close>

text \<open>The bytes available at the socket are consumed; the result has the bytes left and the signals.\<close>

type_synonym client_result = "cpp_error + GpgNetClient \<times> bytestring \<times> gpgnet_signal list"

function onReadyRead :: "qt \<Rightarrow> GpgNetClient \<Rightarrow> bytestring \<Rightarrow> client_result" where
  "onReadyRead q c s =
     (if s = [] then Inr (c, s, [])
      else case GetCommand (m_gpgNetParser c) s of
        (p, rest, Inl e) \<Rightarrow>
          if e = Undefined then Inl Undefined else Inr (c\<lparr>m_gpgNetParser := p\<rparr>, rest, [])
      | (p, rest, Inr serverCommand) \<Rightarrow>
          (case dispatch q serverCommand (m_gpgnetPlayerIds c) of
             Inl e \<Rightarrow> if e = Undefined then Inl Undefined else Inr (c\<lparr>m_gpgNetParser := p\<rparr>, rest, [])
           | Inr (ids, signals) \<Rightarrow>
               map_sum id (\<lambda>(c', s', out). (c', s', signals @ out))
                 (onReadyRead q \<lparr>m_gpgNetParser = p, m_gpgnetPlayerIds = ids\<rparr> rest)))"
  by pat_completeness auto
termination
  by (relation "measures [\<lambda>(q, c, s). length s, \<lambda>(q, c, s). m_progress (m_size (m_command (m_gpgNetParser c)))]")
     (auto dest: GetCommand_progress [OF sym])

declare onReadyRead.simps [simp del]

definition lookupPlayerId :: "GpgNetClient \<Rightarrow> bytestring \<Rightarrow> u32" where
  "lookupPlayerId c playerName =
     (if take 3 playerName = ascii ''AI:'' then 0
      else case m_gpgnetPlayerIds c playerName of None \<Rightarrow> 0 | Some n \<Rightarrow> n)"

section \<open>What the client sends\<close>

text \<open>\<open>operator<<\<close> of a little-endian \<open>QDataStream\<close>; a byte array goes with its length in front.\<close>

definition sendCommand :: "bytestring \<Rightarrow> int \<Rightarrow> bytestring" where
  "sendCommand command argumentCount =
     le32 (word_of_nat (length command)) @ command @ le32 (word_of_int argumentCount)"

definition sendArgument_bytes :: "bytestring \<Rightarrow> bytestring" where
  "sendArgument_bytes arg = [1] @ le32 (word_of_nat (length arg)) @ arg"

definition sendArgument_int :: "int \<Rightarrow> bytestring" where
  "sendArgument_int arg = [0] @ le32 (word_of_int arg)"

definition sendGameOption :: "bytestring \<Rightarrow> bytestring \<Rightarrow> bytestring" where
  "sendGameOption key val = sendCommand (ascii ''GameOption'') 2 @ sendArgument_bytes key @ sendArgument_bytes val"

definition sendGameOption_int :: "bytestring \<Rightarrow> int \<Rightarrow> bytestring" where
  "sendGameOption_int key val = sendCommand (ascii ''GameOption'') 2 @ sendArgument_bytes key @ sendArgument_int val"

definition sendGameState :: "bytestring \<Rightarrow> bytestring \<Rightarrow> bytestring" where
  "sendGameState state substate =
     sendCommand (ascii ''GameOption'') 2 @ sendArgument_bytes (ascii ''SubState'') @ sendArgument_bytes substate @
     sendCommand (ascii ''GameState'') 1 @ sendArgument_bytes state"

definition sendHostGame :: "bytestring \<Rightarrow> bytestring" where
  "sendHostGame mapName = sendCommand (ascii ''HostGame'') 1 @ sendArgument_bytes mapName"

definition sendJoinGame :: "bytestring \<Rightarrow> bytestring \<Rightarrow> int \<Rightarrow> bytestring" where
  "sendJoinGame hostAndPort remotePlayerName remotePlayerId =
     sendCommand (ascii ''JoinGame'') 3 @ sendArgument_bytes remotePlayerName @ sendArgument_int remotePlayerId"

definition sendGameMods :: "int \<Rightarrow> bytestring" where
  "sendGameMods numMods =
     sendCommand (ascii ''GameMods'') 2 @ sendArgument_bytes (ascii ''activated'') @ sendArgument_int numMods"

fun join_space :: "bytestring list \<Rightarrow> bytestring" where
  "join_space [] = []"
| "join_space [x] = x"
| "join_space (x # y # ys) = x @ [0x20] @ join_space (y # ys)"

definition sendGameMods_uids :: "bytestring list \<Rightarrow> bytestring" where
  "sendGameMods_uids uids =
     sendCommand (ascii ''GameMods'') 2 @ sendArgument_bytes (ascii ''uids'') @ sendArgument_bytes (join_space uids)"

definition sendGameMetrics :: "bytestring \<Rightarrow> bytestring \<Rightarrow> bytestring" where
  "sendGameMetrics key val = sendCommand (ascii ''GameMetrics'') 2 @ sendArgument_bytes key @ sendArgument_bytes val"

definition sendPlayerOption :: "bytestring \<Rightarrow> bytestring \<Rightarrow> bytestring \<Rightarrow> bytestring" where
  "sendPlayerOption pid key val =
     sendCommand (ascii ''PlayerOption'') 3 @ sendArgument_bytes pid @ sendArgument_bytes key @ sendArgument_bytes val"

definition sendPlayerOption_int :: "bytestring \<Rightarrow> bytestring \<Rightarrow> int \<Rightarrow> bytestring" where
  "sendPlayerOption_int pid key val =
     sendCommand (ascii ''PlayerOption'') 3 @ sendArgument_bytes pid @ sendArgument_bytes key @ sendArgument_int val"

definition sendAiOption :: "bytestring \<Rightarrow> bytestring \<Rightarrow> int \<Rightarrow> bytestring" where
  "sendAiOption name key val =
     sendCommand (ascii ''AIOption'') 3 @ sendArgument_bytes name @ sendArgument_bytes key @ sendArgument_int val"

definition sendClearSlot :: "int \<Rightarrow> bytestring" where
  "sendClearSlot slot = sendCommand (ascii ''ClearSlot'') 1 @ sendArgument_int slot"

definition sendGameEnded :: bytestring where
  "sendGameEnded = sendCommand (ascii ''GameEnded'') 0"

definition sendGameResult :: "int \<Rightarrow> int \<Rightarrow> bytestring" where
  "sendGameResult army score =
     sendCommand (ascii ''GameResult'') 2 @ sendArgument_int army @
     (if score > 0 then sendArgument_bytes (ascii ''VICTORY 1'')
      else if score = 0 then sendArgument_bytes (ascii ''DRAW 0'')
      else sendArgument_bytes (ascii ''DEFEAT -1''))"

section \<open>Chunks do not matter\<close>

lemma dispatch_no_exception: "dispatch q command ids = Inl e \<Longrightarrow> e = Undefined"
  by (auto simp: dispatch_def CreateLobbyCommand_Set_def HostGameCommand_Set_def JoinGameCommand_Set_def
      ConnectToPeerCommand_Set_def DisconnectFromPeerCommand_Set_def set_peer_def check_id_def str_at_def int_at_def
      arg_at_def try_then_def Let_def split: sum.splits if_splits prod.splits)

text \<open>The chunks as they arrive: what \<open>onReadyRead\<close> leaves at the socket is in front of the next chunk.\<close>

fun receive_chunks :: "qt \<Rightarrow> GpgNetClient \<Rightarrow> bytestring \<Rightarrow> bytestring list \<Rightarrow> client_result" where
  "receive_chunks q c left [] = Inr (c, left, [])"
| "receive_chunks q c left (ch # chs) =
     (case onReadyRead q c (left @ ch) of
        Inl e \<Rightarrow> Inl e
      | Inr (c', left', out) \<Rightarrow>
          map_sum id (\<lambda>(c'', left'', out'). (c'', left'', out @ out')) (receive_chunks q c' left' chs))"

definition client_ok :: "GpgNetClient \<Rightarrow> bool" where
  "client_ok c = parser_ok (m_gpgNetParser c)"

abbreviation emits :: "gpgnet_signal list \<Rightarrow> client_result \<Rightarrow> client_result" where
  "emits out \<equiv> map_sum id (\<lambda>(c, left, out'). (c, left, out @ out'))"

lemma emits_emits [simp]: "emits a (emits b r) = emits (a @ b) r"
  by (cases r) auto

lemma emits_Nil [simp]: "emits [] r = r"
  by (cases r) auto

lemma onReadyRead_append:
  assumes "client_ok c"
  shows "onReadyRead q c (s @ s2) =
    (case onReadyRead q c s of Inl e \<Rightarrow> Inl e | Inr (c', left, out) \<Rightarrow> emits out (onReadyRead q c' (left @ s2))) \<and>
    (\<forall>c' left out. onReadyRead q c s = Inr (c', left, out) \<longrightarrow> client_ok c')"
  using assms
proof (induction q c s rule: onReadyRead.induct)
  case (1 q c s)
  have ok: "parser_ok (m_gpgNetParser c)" using "1.prems" by (simp add: client_ok_def)
  show ?case
  proof (cases "s = []")
    case True
    then show ?thesis using "1.prems" by (simp add: onReadyRead.simps [of q c "[]"] sum.map_id0)
  next
    case False
    obtain p rest r where g: "GetCommand (m_gpgNetParser c) s = (p, rest, r)" by (metis prod_cases3)
    have p: "parser_ok p" using cmd.keeps_ok [OF ok g] .
    note app = cmd.two_portions [OF ok g, of s2]
    show ?thesis
    proof (cases r)
      case (Inl e)
      show ?thesis
      proof (cases "e = DataNotReady")
        case True
        then have "rest = []" using cmd.wait [OF ok g [unfolded Inl True]] by simp
        then have here: "onReadyRead q c s = Inr (c\<lparr>m_gpgNetParser := p\<rparr>, [], [])"
          using False g Inl True by (simp add: onReadyRead.simps [of q c s])
        have "onReadyRead q c (s @ s2) = onReadyRead q (c\<lparr>m_gpgNetParser := p\<rparr>) s2"
        proof (cases "s2 = []")
          case True
          then show ?thesis using here by (simp add: onReadyRead.simps [of q _ "[]"])
        next
          case s2: False
          have "GetCommand (m_gpgNetParser c) (s @ s2) = GetCommand p s2"
            using app Inl True by simp
          then show ?thesis
            using False s2
            by (simp add: onReadyRead.simps [of q c "s @ s2"] onReadyRead.simps [of q _ s2]
                cong del: sum.case_cong_weak prod.case_cong_weak if_weak_cong)
        qed
        then show ?thesis using here p by (simp add: client_ok_def sum.map_id0)
      next
        case e: False
        have again: "GetCommand p (rest @ s2) = (p, rest @ s2, Inl e)"
          using GetCommand_poisoned [OF ok g [unfolded Inl] e] by simp
        show ?thesis
          using app False g Inl e p again
          by (simp add: onReadyRead.simps [of q c] onReadyRead.simps [of q "c\<lparr>m_gpgNetParser := p\<rparr>"] client_ok_def)
      qed
    next
      case (Inr command)
      show ?thesis
      proof (cases "dispatch q command (m_gpgnetPlayerIds c)")
        case (Inl e)
        then have "e = Undefined" by (rule dispatch_no_exception)
        then show ?thesis using app False g Inr Inl by (simp add: onReadyRead.simps [of q c])
      next
        case (Inr d)
        obtain ids out where d: "d = (ids, out)" by (cases d)
        let ?c = "\<lparr>m_gpgNetParser = p, m_gpgnetPlayerIds = ids\<rparr>"
        have IH: "onReadyRead q ?c (rest @ s2) =
            (case onReadyRead q ?c rest of Inl e \<Rightarrow> Inl e | Inr (c', left, out) \<Rightarrow> emits out (onReadyRead q c' (left @ s2))) \<and>
            (\<forall>c' left out. onReadyRead q ?c rest = Inr (c', left, out) \<longrightarrow> client_ok c')"
          using "1.IH" [OF False g [symmetric] refl \<open>r = Inr command\<close> Inr d [symmetric]] p by (simp add: client_ok_def)
        show ?thesis
          using app False g \<open>r = Inr command\<close> Inr d IH
          by (cases "onReadyRead q ?c rest") (auto simp: onReadyRead.simps [of q c])
      qed
    qed
  qed
qed

lemma receive_chunks_onReadyRead:
  assumes "client_ok c"
  shows "receive_chunks q c left chunks =
    (if chunks = [] then Inr (c, left, []) else onReadyRead q c (left @ concat chunks))"
  using assms
proof (induction chunks arbitrary: c left)
  case (Cons ch chs)
  note app = onReadyRead_append [OF Cons.prems, of q "left @ ch" "concat chs"]
  show ?case
  proof (cases "onReadyRead q c (left @ ch)")
    case (Inr x)
    obtain c' left' out where x: "x = (c', left', out)" by (cases x)
    then have "client_ok c'" using app Inr by blast
    then have "receive_chunks q c' left' chs = (if chs = [] then Inr (c', left', []) else onReadyRead q c' (left' @ concat chs))"
      by (rule Cons.IH)
    then show ?thesis
    proof (cases "chs = []")
      case True
      then show ?thesis by (simp add: Inr x)
    next
      case False
      with \<open>receive_chunks q c' left' chs = _\<close> show ?thesis using app Inr x by simp
    qed
  qed (use app in simp)
qed simp

text \<open>
  C20. How the bytes of the lobby server are cut into chunks does not matter: handling every chunk
  as it arrives, with whatever a reader had to leave unfinished, gives the same signals, the same
  player ids, the same reader state and the same bytes left as handling all the bytes at once.
\<close>

theorem receive_chunks_eq:
  assumes "client_ok c"
  shows "receive_chunks q c [] chunks = onReadyRead q c (concat chunks)"
  using receive_chunks_onReadyRead [OF assms, of q "[]" chunks]
  by (cases "chunks = []") (simp_all add: onReadyRead.simps [of q c "[]"])

lemma fresh_parser_ok: "fresh_parser p \<Longrightarrow> parser_ok p"
  by (auto simp: fresh_parser_def parser_ok_def fresh_array_def array_ok_def fresh_def reader_ok_def)

theorem receive_chunks_eq_witness:
  "client_ok GpgNetClient_new \<and>
   receive_chunks \<lparr>fromUtf8 = id, bytesToInt = (\<lambda>_. 0), uintToString = (\<lambda>_. [])\<rparr> GpgNetClient_new []
     [take 7 (sendHostGame [65, 66]), drop 7 (sendHostGame [65, 66])] =
   onReadyRead \<lparr>fromUtf8 = id, bytesToInt = (\<lambda>_. 0), uintToString = (\<lambda>_. [])\<rparr> GpgNetClient_new (sendHostGame [65, 66])"
proof -
  have ok: "client_ok GpgNetClient_new"
    by (simp add: client_ok_def GpgNetClient_new_def fresh_parser_ok)
  show ?thesis
    using ok receive_chunks_eq [OF ok, of _ "[take 7 (sendHostGame [65, 66]), drop 7 (sendHostGame [65, 66])]"] by simp
qed

section \<open>The commands of the server arrive\<close>

type_synonym server_command = "bytestring \<times> QVariant list"

fun dispatch_all :: "qt \<Rightarrow> player_ids \<Rightarrow> server_command list \<Rightarrow> cpp_error + player_ids \<times> gpgnet_signal list" where
  "dispatch_all q ids [] = Inr (ids, [])"
| "dispatch_all q ids ((command, args) # cmds) =
     (case dispatch q (ByteArray command # args) ids of
        Inl e \<Rightarrow> Inl e
      | Inr (ids', out) \<Rightarrow> map_sum id (\<lambda>(ids'', out'). (ids'', out @ out')) (dispatch_all q ids' cmds))"

lemma enc_command_nonempty: "enc_command command args \<noteq> []"
  by (simp add: enc_command_def enc_bytes_def le32_def)

lemma onReadyRead_commands:
  assumes "fresh_parser (m_gpgNetParser c)" and "list_all (\<lambda>(command, args). command_fits command args) cmds"
  shows "\<exists>p. onReadyRead q c (concat (map (\<lambda>(command, args). enc_command command args) cmds)) =
    map_sum id (\<lambda>(ids, out). (\<lparr>m_gpgNetParser = p, m_gpgnetPlayerIds = ids\<rparr>, [], out))
      (dispatch_all q (m_gpgnetPlayerIds c) cmds)"
  using assms
proof (induction cmds arbitrary: c)
  case Nil
  show ?case by (rule exI [of _ "m_gpgNetParser c"]) (simp add: onReadyRead.simps)
next
  case (Cons cmd cmds)
  obtain command args where cmd: "cmd = (command, args)" by (cases cmd)
  let ?rest = "concat (map (\<lambda>(command, args). enc_command command args) cmds)"
  obtain p where p: "GetCommand (m_gpgNetParser c) (enc_command command args @ ?rest) =
      (p, ?rest, Inr (ByteArray command # args))" "fresh_parser p"
    using GetCommand_enc [of "m_gpgNetParser c" command args ?rest] Cons.prems cmd by auto
  show ?case
  proof (cases "dispatch q (ByteArray command # args) (m_gpgnetPlayerIds c)")
    case (Inl e)
    then show ?thesis
      using dispatch_no_exception [OF Inl] p enc_command_nonempty cmd by (simp add: onReadyRead.simps [of q c])
  next
    case (Inr x)
    obtain ids out where x: "x = (ids, out)" by (cases x)
    obtain p' where "onReadyRead q \<lparr>m_gpgNetParser = p, m_gpgnetPlayerIds = ids\<rparr> ?rest =
        map_sum id (\<lambda>(ids, out). (\<lparr>m_gpgNetParser = p', m_gpgnetPlayerIds = ids\<rparr>, [], out)) (dispatch_all q ids cmds)"
      using Cons.IH [of "\<lparr>m_gpgNetParser = p, m_gpgnetPlayerIds = ids\<rparr>"] Cons.prems p(2) by fastforce
    then show ?thesis
      using Inr x p enc_command_nonempty cmd
      by (intro exI [of _ p'], cases "dispatch_all q ids cmds") (auto simp: onReadyRead.simps [of q c])
  qed
qed

text \<open>
  C38. The lobby server's commands reach the application: for any sequence of commands within the size
  limits, in any chunks, the client emits exactly the signals the commands stand for, in order, records
  the player ids they carry and has consumed every byte.
\<close>

theorem server_commands_received:
  assumes "fresh_parser (m_gpgNetParser c)" and "list_all (\<lambda>(command, args). command_fits command args) cmds"
    and "concat chunks = concat (map (\<lambda>(command, args). enc_command command args) cmds)"
  shows "\<exists>p. receive_chunks q c [] chunks =
    map_sum id (\<lambda>(ids, out). (\<lparr>m_gpgNetParser = p, m_gpgnetPlayerIds = ids\<rparr>, [], out))
      (dispatch_all q (m_gpgnetPlayerIds c) cmds)"
proof -
  have "client_ok c" using fresh_parser_ok [OF assms(1)] by (simp add: client_ok_def)
  then have "receive_chunks q c left chs = (if chs = [] then Inr (c, left, []) else onReadyRead q c (left @ concat chs))"
    for left chs by (rule receive_chunks_onReadyRead)
  then have "receive_chunks q c [] chunks = onReadyRead q c (concat chunks)"
    by (cases "chunks = []") (simp_all add: onReadyRead.simps [of q c "[]"])
  then show ?thesis using onReadyRead_commands [OF assms(1,2)] assms(3) by simp
qed

theorem server_commands_received_witness:
  "\<exists>p. receive_chunks \<lparr>fromUtf8 = id, bytesToInt = (\<lambda>_. 0), uintToString = (\<lambda>_. [])\<rparr> GpgNetClient_new []
     [[8, 0, 0], [0], ascii ''HostGame'' @ [1, 0], [0, 0, 1, 2, 0], [0, 0, 65, 66]] =
   Inr (\<lparr>m_gpgNetParser = p, m_gpgnetPlayerIds = Map.empty\<rparr>, [], [hostGame [65, 66]])"
proof -
  let ?q = "\<lparr>fromUtf8 = id, bytesToInt = (\<lambda>_. 0), uintToString = (\<lambda>_. [])\<rparr>"
  let ?cmds = "[(ascii ''HostGame'', [ByteArray [65, 66]])]"
  let ?chunks = "[[8, 0, 0], [0], ascii ''HostGame'' @ [1, 0], [0, 0, 1, 2, 0], [0, 0, 65, 66]] :: bytestring list"
  have 1: "fresh_parser (m_gpgNetParser GpgNetClient_new)" by (simp add: GpgNetClient_new_def)
  have 2: "list_all (\<lambda>(command, args). command_fits command args) ?cmds"
    by (simp add: command_fits_def ascii_def)
  have 3: "concat ?chunks = concat (map (\<lambda>(command, args). enc_command command args) ?cmds)"
    by code_simp
  have "dispatch_all ?q Map.empty ?cmds = Inr (Map.empty, [hostGame [65, 66]])"
    by (simp add: dispatch_def str_at_def arg_at_def HostGameCommand_Set_def check_id_def) (simp add: ascii_def)
  then show ?thesis
    using server_commands_received [OF 1 2 3, of ?q] by (simp add: GpgNetClient_new_def)
qed

text \<open>
  A command name that is announced with more than 10000 bytes silences the client for good: the
  exception is caught, but the size stays in its reader, so every later call throws it again, whatever
  arrives, no byte is consumed any more and no signal is emitted.
\<close>

theorem oversized_record_silences:
  assumes "fresh_parser (m_gpgNetParser c)" and "10000 < n"
  shows "\<exists>c'. onReadyRead q c (le32 n @ s) = Inr (c', s, []) \<and> (\<forall>t. onReadyRead q c' t = Inr (c', t, []))"
proof -
  let ?p = "(m_gpgNetParser c)"
  have f: "fresh 4 (m_size (m_command ?p))" using assms(1) by (simp add: fresh_parser_def fresh_array_def)
  obtain p where p: "GetCommand ?p (le32 n @ s) = (p, s, Inl (RuntimeError ''record exceeds MAX_RECORD_SIZE''))"
    using getInt_fresh [OF f, of n s] assms(2) by (simp add: GetCommand_def array_get_def MAX_RECORD_SIZE_def)
  have ne: "le32 n @ s \<noteq> []" by (simp add: le32_def)
  have "onReadyRead q c (le32 n @ s) = Inr (c\<lparr>m_gpgNetParser := p\<rparr>, s, [])"
    using p ne by (subst onReadyRead.simps) (auto simp: le32_def)
  moreover have "onReadyRead q (c\<lparr>m_gpgNetParser := p\<rparr>) t = Inr (c\<lparr>m_gpgNetParser := p\<rparr>, t, [])" for t
    using GetCommand_poisoned [OF fresh_parser_ok [OF assms(1)] p] by (subst onReadyRead.simps) simp
  ultimately show ?thesis by blast
qed

theorem oversized_record_silences_witness:
  "\<exists>c'. onReadyRead \<lparr>fromUtf8 = id, bytesToInt = (\<lambda>_. 0), uintToString = (\<lambda>_. [])\<rparr> GpgNetClient_new (le32 10001 @ [1, 2]) =
       Inr (c', [1, 2], []) \<and>
     (\<forall>t. onReadyRead \<lparr>fromUtf8 = id, bytesToInt = (\<lambda>_. 0), uintToString = (\<lambda>_. [])\<rparr> c' t = Inr (c', t, []))"
  by (rule oversized_record_silences) (simp_all add: GpgNetClient_new_def)

end
