(* ===== verification/Game_Monitor.thy ===== *)
theory Game_Monitor
  imports Ta_Packet_Parser Packet_Records Std_Map
begin

text \<open>
  The game monitor (\<open>apps/gpgnet4ta/GameMonitor2.cpp\<close>): from the parser's calls it follows who plays with
  whom, decides when the game has started and when it is over, and which team has won. The calls on the
  installed \<open>GameEventHandler\<close> are an output list in their order.

  A handler returns the new state, the calls made and the exception it ended with, if any; the state is what
  the exception leaves behind. Reading an uninitialised member, a null handler and a read outside a
  sub-packet are the error \<open>Undefined\<close>. A pointer to an entry of \<open>m_players\<close> is the entry's key.
  Logging and watchdogs have no effect here.
\<close>

section \<open>Data\<close>

record PlayerData =
  pd_side :: int
  pd_name :: bytestring
  allies :: "u32 set"
  battleroomTeamSelection :: int
  pd_isWatcher :: bool
  pd_isAI :: bool
  slotNumber :: int
  isDead :: bool
  pd_tick :: u32
  pd_dplayid :: u32
  armyNumber :: int
  pd_teamNumber :: int

definition PlayerData_new :: PlayerData where
  "PlayerData_new = \<lparr>pd_side = - 1, pd_name = [], allies = {}, battleroomTeamSelection = 5,
     pd_isWatcher = False, pd_isAI = False, slotNumber = - 1, isDead = False, pd_tick = 0,
     pd_dplayid = 0, armyNumber = 0, pd_teamNumber = 0\<rparr>"

type_synonym players = "(u32, PlayerData) std_map"

datatype Status = NOT_READY | VOID_RESULT | READY_RESULT

record ArmyResult =
  res_army :: int
  res_slot :: int
  res_alias :: bytestring
  res_realName :: bytestring
  res_team :: int
  score :: int

record GameResult =
  status :: Status
  results :: "ArmyResult list"
  endGameTick :: u32

definition GameResult_new :: GameResult where
  "GameResult_new = \<lparr>status = NOT_READY, results = [], endGameTick = 0\<rparr>"

text \<open>The interface \<open>GameEventHandler\<close>.\<close>

datatype monitor_event =
    OnGameSettings bytestring u16 bytestring bytestring
  | OnPlayerStatus PlayerData "bytestring set"
  | OnClearSlot PlayerData
  | OnGameStarted u32 bool
  | OnGameEnded GameResult
  | OnChat bytestring bool

text \<open>
  \<open>m_maxUnits\<close> is not initialised by the constructor: \<open>None\<close>. \<open>m_gameEventHandler\<close> says whether a handler
  is installed.
\<close>

record GameMonitor2 =
  m_hostPlayerName :: bytestring
  m_localPlayerName :: bytestring
  m_gameStartsAfterTickCount :: u32
  m_drawGameTicks :: u32
  m_hostDplayId :: u32
  m_localDplayId :: u32
  m_gameLaunched :: bool
  m_gameStarted :: bool
  m_cheatsEnabled :: bool
  m_suspiciousStatus :: bool
  m_mapName :: bytestring
  m_maxUnits :: "u16 option"
  m_players :: players
  m_frozenPlayers :: players
  m_playerRealNames :: "bytestring \<rightharpoonup> bytestring"
  m_gameResult :: GameResult
  m_gameEventHandler :: bool

definition GameMonitor2_new :: "bool \<Rightarrow> u32 \<Rightarrow> u32 \<Rightarrow> GameMonitor2" where
  "GameMonitor2_new gameEventHandler gameStartsAfterTickCount drawGameTicks =
     \<lparr>m_hostPlayerName = [], m_localPlayerName = [], m_gameStartsAfterTickCount = gameStartsAfterTickCount,
      m_drawGameTicks = drawGameTicks, m_hostDplayId = 0, m_localDplayId = 0, m_gameLaunched = False,
      m_gameStarted = False, m_cheatsEnabled = False, m_suspiciousStatus = False, m_mapName = [],
      m_maxUnits = None, m_players = [], m_frozenPlayers = [], m_playerRealNames = Map.empty,
      m_gameResult = GameResult_new, m_gameEventHandler = gameEventHandler\<rparr>"

definition setHostPlayerName :: "bytestring \<Rightarrow> GameMonitor2 \<Rightarrow> GameMonitor2" where
  "setHostPlayerName playerName m = m\<lparr>m_hostPlayerName := playerName\<rparr>"

definition setLocalPlayerName :: "bytestring \<Rightarrow> GameMonitor2 \<Rightarrow> GameMonitor2" where
  "setLocalPlayerName playerName m = m\<lparr>m_localPlayerName := playerName\<rparr>"

definition setPlayerRealName :: "bytestring \<Rightarrow> bytestring \<Rightarrow> GameMonitor2 \<Rightarrow> GameMonitor2" where
  "setPlayerRealName playerName realName m =
     m\<lparr>m_playerRealNames := (m_playerRealNames m)(playerName \<mapsto> realName)\<rparr>"

definition isGameOver :: "GameMonitor2 \<Rightarrow> bool" where
  "isGameOver m = (status (m_gameResult m) \<noteq> NOT_READY)"

definition gm_reset :: "GameMonitor2 \<Rightarrow> GameMonitor2" where
  "gm_reset m = m\<lparr>m_gameStarted := False, m_cheatsEnabled := False, m_suspiciousStatus := False,
     m_mapName := [], m_players := [], m_gameResult := GameResult_new\<rparr>"

definition getPlayerNames :: "bool \<Rightarrow> bool \<Rightarrow> GameMonitor2 \<Rightarrow> bytestring set" where
  "getPlayerNames queryIsPlayer queryIsWatcher m =
     pd_name ` Set.filter (\<lambda>p. \<not> pd_isWatcher p \<and> queryIsPlayer \<or> pd_isWatcher p \<and> queryIsWatcher)
       (snd ` set (m_players m))"

section \<open>Steps\<close>

type_synonym step = "GameMonitor2 \<times> monitor_event list \<times> cpp_error option"

definition ret :: "GameMonitor2 \<Rightarrow> step" where
  "ret m = (m, [], None)"

definition raise :: "cpp_error \<Rightarrow> GameMonitor2 \<Rightarrow> step" where
  "raise e m = (m, [], Some e)"

fun and_then :: "step \<Rightarrow> (GameMonitor2 \<Rightarrow> step) \<Rightarrow> step" where
  "and_then (m, es, None) f = (let (m', es', x) = f m in (m', es @ es', x))"
| "and_then (m, es, Some e) f = (m, es, Some e)"

text \<open>\<open>if (m_gameEventHandler) m_gameEventHandler->...\<close>, and the same without the test.\<close>

definition notify_handler :: "monitor_event \<Rightarrow> GameMonitor2 \<Rightarrow> step" where
  "notify_handler e m = (m, if m_gameEventHandler m then [e] else [], None)"

definition call_handler :: "monitor_event \<Rightarrow> GameMonitor2 \<Rightarrow> step" where
  "call_handler e m = (if m_gameEventHandler m then (m, [e], None) else raise Undefined m)"

section \<open>Queries\<close>

definition modify :: "u32 \<Rightarrow> (PlayerData \<Rightarrow> PlayerData) \<Rightarrow> players \<Rightarrow> players" where
  "modify k f ps = map (\<lambda>(i, p). (i, if i = k then f p else p)) ps"

definition entry :: "players \<Rightarrow> u32 \<Rightarrow> PlayerData" where
  "entry ps k = (case map_of ps k of Some p \<Rightarrow> p | None \<Rightarrow> PlayerData_new)"

definition getPlayerDpidByName :: "bytestring \<Rightarrow> GameMonitor2 \<Rightarrow> u32" where
  "getPlayerDpidByName name m =
     (case List.find (\<lambda>(_, p). pd_name p = name) (m_players m) of
        Some (_, p) \<Rightarrow> pd_dplayid p | None \<Rightarrow> 0)"

definition getActivePlayers :: "GameMonitor2 \<Rightarrow> u32 set" where
  "getActivePlayers m =
     pd_dplayid ` Set.filter (\<lambda>p. \<not> isDead p \<and> \<not> pd_isWatcher p) (snd ` set (m_players m))"

definition getMostRecentGameTick :: "GameMonitor2 \<Rightarrow> u32" where
  "getMostRecentGameTick m =
     fold (\<lambda>(_, p) tick. if pd_tick p > tick then pd_tick p else tick) (m_players m) 0"

text \<open>\<open>None\<close> is \<open>std::out_of_range\<close> from \<open>at()\<close>.\<close>

definition getMutualAllies :: "u32 \<Rightarrow> players \<Rightarrow> u32 set option" where
  "getMutualAllies playerId playerData =
     (case map_of playerData playerId of
        None \<Rightarrow> None
      | Some player \<Rightarrow>
          if \<forall>otherId \<in> allies player. map_of playerData otherId \<noteq> None
          then Some ((\<lambda>otherId. pd_dplayid (entry playerData otherId)) `
                 Set.filter (\<lambda>otherId. pd_dplayid player \<in> allies (entry playerData otherId)) (allies player))
          else None)"

definition getMutualAllyNames :: "u32 \<Rightarrow> players \<Rightarrow> GameMonitor2 \<Rightarrow> bytestring set option" where
  "getMutualAllyNames playerId playerData m =
     (case getMutualAllies playerId playerData of
        None \<Rightarrow> None
      | Some ids \<Rightarrow>
          if \<forall>id \<in> ids. map_of (m_players m) id \<noteq> None
          then Some ((\<lambda>id. pd_name (entry (m_players m) id)) ` ids) else None)"

definition getPlayerData :: "u32 \<Rightarrow> GameMonitor2 \<Rightarrow> cpp_error + PlayerData" where
  "getPlayerData dplayId m =
     (case map_of (m_players m) dplayId of None \<Rightarrow> Inl OutOfRange | Some p \<Rightarrow> Inr p)"

definition getPlayerData_by_name :: "bytestring \<Rightarrow> GameMonitor2 \<Rightarrow> cpp_error + PlayerData" where
  "getPlayerData_by_name name m = getPlayerData (getPlayerDpidByName name m) m"

section \<open>Teams\<close>

fun assign_team :: "int \<Rightarrow> u32 list \<Rightarrow> players \<Rightarrow> players \<times> cpp_error option" where
  "assign_team teamCount [] ps = (ps, None)"
| "assign_team teamCount (allynumber # as) ps =
     (case map_of ps allynumber of
        None \<Rightarrow> (ps, Some OutOfRange)
      | Some p \<Rightarrow>
          assign_team teamCount as
            (if pd_teamNumber p = 0 \<and> \<not> pd_isWatcher p \<and> \<not> isDead p
             then modify allynumber (\<lambda>p. p\<lparr>pd_teamNumber := teamCount\<rparr>) ps else ps))"

fun assign_armies :: "u32 list \<Rightarrow> int \<Rightarrow> int \<Rightarrow> players \<Rightarrow> players \<times> cpp_error option" where
  "assign_armies [] teamCount armyCount ps = (ps, None)"
| "assign_armies (k # ks) teamCount armyCount ps =
     (let sortedPlayer = entry ps k in
      if pd_isWatcher sortedPlayer \<or> isDead sortedPlayer then assign_armies ks teamCount armyCount ps
      else
        let ps1 = modify k (\<lambda>p. p\<lparr>armyNumber := armyCount + 1\<rparr>) ps in
        if pd_teamNumber sortedPlayer = 0
        then (case getMutualAllies (pd_dplayid sortedPlayer) ps1 of
                None \<Rightarrow> (ps1, Some OutOfRange)
              | Some mutualAllies \<Rightarrow>
                  (case assign_team (teamCount + 1)
                          (sorted_list_of_set (insert (pd_dplayid sortedPlayer) mutualAllies)) ps1 of
                     (ps2, Some e) \<Rightarrow> (ps2, Some e)
                   | (ps2, None) \<Rightarrow> assign_armies ks (teamCount + 1) (armyCount + 1) ps2))
        else assign_armies ks teamCount (armyCount + 1) ps1)"

definition clear_armies :: "players \<Rightarrow> players" where
  "clear_armies ps = map (\<lambda>(k, p). (k, p\<lparr>armyNumber := 0, pd_teamNumber := 0\<rparr>)) ps"

definition sortedPlayers :: "players \<Rightarrow> u32 list" where
  "sortedPlayers ps = map fst (sort_key (\<lambda>(_, p). pd_dplayid p) ps)"

definition armies :: "players \<Rightarrow> players \<times> cpp_error option" where
  "armies ps = assign_armies (sortedPlayers ps) 1 0 (clear_armies ps)"

definition updatePlayerArmies :: "GameMonitor2 \<Rightarrow> step" where
  "updatePlayerArmies m = (let (ps, x) = armies (m_players m) in (m\<lparr>m_players := ps\<rparr>, [], x))"

fun status_events :: "players \<Rightarrow> GameMonitor2 \<Rightarrow> monitor_event list \<times> cpp_error option" where
  "status_events [] m = ([], None)"
| "status_events ((k, p) # rest) m =
     (if pd_side p \<ge> 0
      then case getMutualAllyNames k (m_players m) m of
             None \<Rightarrow> ([], Some OutOfRange)
           | Some names \<Rightarrow> (let (es, x) = status_events rest m in (OnPlayerStatus p names # es, x))
      else status_events rest m)"

definition isSlotUsed :: "GameMonitor2 \<Rightarrow> nat \<Rightarrow> bool" where
  "isSlotUsed m n = (\<exists>p \<in> snd ` set (m_players m). pd_side p \<ge> 0 \<and> slotNumber p = int n)"

definition clear_slot_events :: "GameMonitor2 \<Rightarrow> monitor_event list" where
  "clear_slot_events m =
     map (\<lambda>n. OnClearSlot (PlayerData_new\<lparr>slotNumber := int n, pd_dplayid := 0\<rparr>))
       (filter (\<lambda>n. \<not> isSlotUsed m n) [0..<10])"

definition notifyPlayerStatuses :: "GameMonitor2 \<Rightarrow> step" where
  "notifyPlayerStatuses m =
     (if \<not> m_gameEventHandler m then ret m
      else case status_events (m_players m) m of
             (es, Some e) \<Rightarrow> (m, es, Some e)
           | (es, None) \<Rightarrow> (m, es @ clear_slot_events m, None))"

section \<open>The end of the game\<close>

fun all_on_team :: "int \<Rightarrow> u32 list \<Rightarrow> players \<Rightarrow> cpp_error + bool" where
  "all_on_team team [] playerData = Inr True"
| "all_on_team team (i # ids) playerData =
     (case map_of playerData i of
        None \<Rightarrow> Inl OutOfRange
      | Some p \<Rightarrow> if pd_teamNumber p \<noteq> team then Inr False else all_on_team team ids playerData)"

text \<open>\<open>Some teamNumber\<close> for \<open>true\<close>, \<open>None\<close> for \<open>false\<close>.\<close>

definition isPlayersAllAllied :: "u32 set \<Rightarrow> players \<Rightarrow> cpp_error + int option" where
  "isPlayersAllAllied playerIds playerData =
     (case sorted_list_of_set playerIds of
        [] \<Rightarrow> Inl Undefined
      | i # ids \<Rightarrow>
          (case map_of playerData i of
             None \<Rightarrow> Inl OutOfRange
           | Some p \<Rightarrow>
               map_sum id (\<lambda>b. if b then Some (pd_teamNumber p) else None)
                 (all_on_team (pd_teamNumber p) (i # ids) playerData)))"

text \<open>\<open>Some winningTeamNumber\<close> when an end is detected: 0 is a forced draw, \<open>-1\<close> an agreed one.\<close>

definition checkEndGameCondition :: "GameMonitor2 \<Rightarrow> cpp_error + int option" where
  "checkEndGameCondition m =
     (if \<not> m_gameStarted m then Inr None
      else let activePlayers = getActivePlayers m in
        if activePlayers = {} then Inr (Some 0)
        else case isPlayersAllAllied activePlayers (m_frozenPlayers m) of
               Inl e \<Rightarrow> Inl e
             | Inr (Some lastTeamStanding) \<Rightarrow> Inr (Some lastTeamStanding)
             | Inr None \<Rightarrow>
                 (case isPlayersAllAllied activePlayers (m_players m) of
                    Inl e \<Rightarrow> Inl e
                  | Inr (Some _) \<Rightarrow> Inr (Some (- 1))
                  | Inr None \<Rightarrow> Inr None))"

definition latchEndGameTick :: "u32 \<Rightarrow> GameMonitor2 \<Rightarrow> GameMonitor2" where
  "latchEndGameTick t m =
     (if endGameTick (m_gameResult m) = 0
      then m\<lparr>m_gameResult := (m_gameResult m)\<lparr>endGameTick := if t = 0 then 1 else t\<rparr>\<rparr> else m)"

text \<open>The loop over the frozen players; \<open>operator[]\<close> adds an empty real name where there is none.\<close>

definition counts :: "PlayerData \<Rightarrow> bool" where
  "counts p = (\<not> (armyNumber p = 0 \<or> pd_teamNumber p = 0 \<or> pd_isWatcher p))"

definition score_for :: "int \<Rightarrow> int \<Rightarrow> int" where
  "score_for winningTeamNumber nTeam =
     (if winningTeamNumber > 0 then (if nTeam = winningTeamNumber then 1 else - 1) else 0)"

definition real_name :: "bytestring \<Rightarrow> (bytestring \<rightharpoonup> bytestring) \<Rightarrow> bytestring" where
  "real_name name names = (case names name of Some n \<Rightarrow> n | None \<Rightarrow> [])"

definition army_result :: "int \<Rightarrow> (bytestring \<rightharpoonup> bytestring) \<Rightarrow> PlayerData \<Rightarrow> ArmyResult" where
  "army_result winningTeamNumber names p =
     \<lparr>res_army = armyNumber p, res_slot = slotNumber p, res_alias = pd_name p,
      res_realName = real_name (pd_name p) names, res_team = pd_teamNumber p,
      score = score_for winningTeamNumber (pd_teamNumber p)\<rparr>"

fun army_results :: "int \<Rightarrow> players \<Rightarrow> (bytestring \<rightharpoonup> bytestring) \<Rightarrow> ArmyResult list \<times> (bytestring \<rightharpoonup> bytestring)" where
  "army_results winningTeamNumber [] names = ([], names)"
| "army_results winningTeamNumber ((_, p) # ps) names =
     (if counts p
      then let names' = names(pd_name p \<mapsto> real_name (pd_name p) names);
               (rs, names'') = army_results winningTeamNumber ps names'
           in (army_result winningTeamNumber names p # rs, names'')
      else army_results winningTeamNumber ps names)"

definition latchEndGameResult :: "int \<Rightarrow> GameMonitor2 \<Rightarrow> step" where
  "latchEndGameResult winningTeamNumber m =
     (if status (m_gameResult m) \<noteq> NOT_READY then ret m
      else if winningTeamNumber < 0
      then ret (m\<lparr>m_gameResult :=
             \<lparr>status = VOID_RESULT, results = [], endGameTick = getMostRecentGameTick m\<rparr>\<rparr>)
      else
        let (rs, names) = army_results winningTeamNumber (m_frozenPlayers m) (m_playerRealNames m);
            result = \<lparr>status = if rs = [] then VOID_RESULT else READY_RESULT, results = rs,
              endGameTick = getMostRecentGameTick m\<rparr>
        in notify_handler (OnGameEnded result) (m\<lparr>m_gameResult := result, m_playerRealNames := names\<rparr>))"

text \<open>\<open>if (checkEndGameCondition(winningTeamNumber)) ...\<close>\<close>

definition if_ended :: "(int \<Rightarrow> GameMonitor2 \<Rightarrow> step) \<Rightarrow> GameMonitor2 \<Rightarrow> step" where
  "if_ended f m = (case checkEndGameCondition m of
     Inl e \<Rightarrow> raise e m | Inr None \<Rightarrow> ret m | Inr (Some winningTeamNumber) \<Rightarrow> f winningTeamNumber m)"

section \<open>Players\<close>

definition operator_at :: "u32 \<Rightarrow> players \<Rightarrow> players" where
  "operator_at k ps = (case map_of ps k of Some _ \<Rightarrow> ps | None \<Rightarrow> std_put k PlayerData_new ps)"

text \<open>The common part of the two handlers that report a player.\<close>

definition register_player :: "u32 \<Rightarrow> bytestring \<Rightarrow> GameMonitor2 \<Rightarrow> step" where
  "register_player dplayId name m =
     (let m1 = m\<lparr>m_players := modify dplayId (\<lambda>p. p\<lparr>pd_name := name, pd_dplayid := dplayId\<rparr>)
                 (operator_at dplayId (m_players m))\<rparr> in
      if m_hostPlayerName m1 = [] then raise (RuntimeError ''setHostPlayerName'') m1
      else
        let m2 = (if name = m_hostPlayerName m1 then m1\<lparr>m_hostDplayId := dplayId\<rparr> else m1) in
        if m_localPlayerName m2 = [] then raise (RuntimeError ''setLocalPlayerName'') m2
        else updatePlayerArmies (if name = m_localPlayerName m2 then m2\<lparr>m_localDplayId := dplayId\<rparr> else m2))"

definition onDplaySuperEnumPlayerReply :: "u32 \<Rightarrow> bytestring \<Rightarrow> GameMonitor2 \<Rightarrow> step" where
  "onDplaySuperEnumPlayerReply dplayId name m =
     (if \<not> m_gameStarted m \<and> name \<noteq> [] \<and> dplayId > 0 then register_player dplayId name m else ret m)"

definition onDplayCreateOrForwardPlayer :: "u16 \<Rightarrow> u32 \<Rightarrow> bytestring \<Rightarrow> GameMonitor2 \<Rightarrow> step" where
  "onDplayCreateOrForwardPlayer cmd dplayId name m =
     (if cmd = 0x0008 \<and> \<not> m_gameStarted m \<and> name \<noteq> [] \<and> dplayId > 0
      then register_player dplayId name m else ret m)"

definition remove_player :: "u32 \<Rightarrow> GameMonitor2 \<Rightarrow> step" where
  "remove_player dplayId m =
     and_then (call_handler (OnClearSlot (entry (m_players m) dplayId)) m) (\<lambda>m.
     and_then (updatePlayerArmies (m\<lparr>m_players :=
         map (\<lambda>(k, p). (k, p\<lparr>allies := allies p - {dplayId}\<rparr>)) (std_erase dplayId (m_players m))\<rparr>))
       notifyPlayerStatuses)"

definition onDplayDeletePlayer :: "u32 \<Rightarrow> GameMonitor2 \<Rightarrow> step" where
  "onDplayDeletePlayer dplayId m =
     (if dplayId = 0 \<or> map_of (m_players m) dplayId = None then ret m
      else if \<not> m_gameStarted m then remove_player dplayId m
      else if_ended latchEndGameResult m)"

definition game_settings :: "u32 \<Rightarrow> bytestring \<Rightarrow> u16 \<Rightarrow> GameMonitor2 \<Rightarrow> step" where
  "game_settings sourceDplayId mapName unitLimit m =
     (if sourceDplayId = m_hostDplayId m \<and> mapName \<noteq> [] \<and> unitLimit > 0 \<and> m_mapName m \<noteq> mapName
      then notify_handler (OnGameSettings mapName unitLimit (m_hostPlayerName m) (m_localPlayerName m))
             (m\<lparr>m_mapName := mapName, m_maxUnits := Some unitLimit\<rparr>)
      else ret m)"

definition onStatus ::
  "u32 \<Rightarrow> bytestring \<Rightarrow> u16 \<Rightarrow> int \<Rightarrow> int \<Rightarrow> bool \<Rightarrow> bool \<Rightarrow> bool \<Rightarrow> GameMonitor2 \<Rightarrow> step" where
  "onStatus sourceDplayId mapName unitLimit playerSlotNumber playerSide watches byAI cheats m =
     (case map_of (m_players m) sourceDplayId of
        None \<Rightarrow> ret m
      | Some player \<Rightarrow>
          if m_gameStarted m then ret m
          else
            let m1 = m\<lparr>m_players := modify sourceDplayId
                      (\<lambda>p. p\<lparr>pd_isAI := byAI, slotNumber := playerSlotNumber\<rparr>) (m_players m)\<rparr>;
                changed = (pd_side player < 0 \<or> pd_isWatcher player \<noteq> watches \<or> pd_side player \<noteq> playerSide);
                m2 = m1\<lparr>m_players := modify sourceDplayId
                      (\<lambda>p. p\<lparr>pd_side := playerSide, pd_isWatcher := watches\<rparr>) (m_players m1)\<rparr>
            in and_then (if changed then and_then (updatePlayerArmies m2) notifyPlayerStatuses else ret m1)
                 (game_settings sourceDplayId mapName unitLimit))"

section \<open>Alliances\<close>

definition find_first_of :: "byte \<Rightarrow> bytestring \<Rightarrow> nat option" where
  "find_first_of c s = (let n = length (takeWhile (\<lambda>b. b \<noteq> c) s) in if n < length s then Some n else None)"

definition find_last_of :: "byte \<Rightarrow> bytestring \<Rightarrow> nat option" where
  "find_last_of c s = map_option (\<lambda>n. length s - 1 - n) (find_first_of c (rev s))"

definition chat_sender :: "u32 \<Rightarrow> bytestring \<Rightarrow> GameMonitor2 \<Rightarrow> u32" where
  "chat_sender sender chat m =
     (if sender = 0
      then case (find_first_of 0x3c chat, find_first_of 0x3e chat) of
             (Some senderStart, Some senderEnd) \<Rightarrow>
               if senderStart = 0 \<and> senderEnd > 1
               then getPlayerDpidByName (take (senderEnd - 1) (drop 1 chat)) m else 0
           | _ \<Rightarrow> 0
      else sender)"

definition makeAlliance :: "bytestring \<Rightarrow> bytestring \<Rightarrow> bytestring" where
  "makeAlliance name lastWord = ascii ''<'' @ name @ ascii ''>  allied with '' @ lastWord"

definition breakAlliance :: "bytestring \<Rightarrow> bytestring \<Rightarrow> bytestring" where
  "breakAlliance name lastWord = ascii ''<'' @ name @ ascii ''>  broke alliance with '' @ lastWord"

definition updateAlliances :: "u32 \<Rightarrow> bytestring \<Rightarrow> GameMonitor2 \<Rightarrow> bool \<times> GameMonitor2" where
  "updateAlliances sender0 chat m =
     (let sender = chat_sender sender0 chat m in
      if sender = 0 then (False, m)
      else case find_last_of 0x20 chat of
             None \<Rightarrow> (False, m)
           | Some lastWordStart \<Rightarrow>
               if 1 + lastWordStart < length chat
               then
                 let lastWord = drop (1 + lastWordStart) chat;
                     playernumber2 = getPlayerDpidByName lastWord m
                 in if playernumber2 = 0 \<or> playernumber2 = sender then (False, m)
                    else
                      let ps = operator_at sender (m_players m);
                          name = pd_name (entry ps sender)
                      in if chat = makeAlliance name lastWord
                         then (True, m\<lparr>m_players :=
                                 modify sender (\<lambda>p. p\<lparr>allies := insert playernumber2 (allies p)\<rparr>) ps\<rparr>)
                         else if chat = breakAlliance name lastWord
                         then (True, m\<lparr>m_players :=
                                 modify sender (\<lambda>p. p\<lparr>allies := allies p - {playernumber2}\<rparr>) ps\<rparr>)
                         else (False, m\<lparr>m_players := ps\<rparr>)
               else (False, m))"

text \<open>What follows a change of the alliances.\<close>

definition alliances_changed :: "GameMonitor2 \<Rightarrow> step" where
  "alliances_changed m =
     and_then (updatePlayerArmies m) (\<lambda>m.
     and_then (if \<not> m_gameStarted m then notifyPlayerStatuses m else ret m)
       (if_ended (\<lambda>winningTeamNumber m.
          if winningTeamNumber < 0 then latchEndGameResult winningTeamNumber m else ret m)))"

definition onChat :: "u32 \<Rightarrow> bytestring \<Rightarrow> GameMonitor2 \<Rightarrow> step" where
  "onChat sourceDplayId chat m =
     (if map_of (m_players m) sourceDplayId = None then ret m
      else and_then (notify_handler (monitor_event.OnChat chat (sourceDplayId = m_localDplayId m)) m) (\<lambda>m.
             let (updated, m') = updateAlliances sourceDplayId chat m
             in if updated then alliances_changed m' else ret m'))"

definition onAlliance :: "u32 \<Rightarrow> u32 \<Rightarrow> bool \<Rightarrow> GameMonitor2 \<Rightarrow> step" where
  "onAlliance subjectDpid objectDpid isAllied m =
     (case (map_of (m_players m) subjectDpid, map_of (m_players m) objectDpid) of
        (Some itSubject, Some itObject) \<Rightarrow>
          let wasAllied = (objectDpid \<in> allies itSubject);
              m' = m\<lparr>m_players := modify subjectDpid
                (\<lambda>p. p\<lparr>allies := if isAllied then insert objectDpid (allies p) else allies p - {objectDpid}\<rparr>)
                (m_players m)\<rparr>
          in if wasAllied \<noteq> isAllied then alliances_changed m' else ret m'
      | _ \<Rightarrow> ret m)"

text \<open>The loop over the objects (their keys); the subject is the entry under \<open>fromDplayId\<close>.\<close>

fun select_team :: "u32 \<Rightarrow> int \<Rightarrow> u32 list \<Rightarrow> bool \<Rightarrow> players \<Rightarrow> bool \<times> players" where
  "select_team fromDplayId team [] anyAllianceChange ps = (anyAllianceChange, ps)"
| "select_team fromDplayId team (k # ks) anyAllianceChange ps =
     (let itSubject = entry ps fromDplayId; itObject = entry ps k in
      if pd_dplayid itObject \<noteq> fromDplayId
      then
        let wasAlliedAB = (pd_dplayid itObject \<in> allies itSubject);
            wasAlliedBA = (pd_dplayid itSubject \<in> allies itObject)
        in if team < 5 \<and> team = battleroomTeamSelection itObject
           then select_team fromDplayId team ks
                  (anyAllianceChange \<or> \<not> wasAlliedAB \<or> \<not> wasAlliedBA)
                  (modify k (\<lambda>p. p\<lparr>allies := insert (pd_dplayid itSubject) (allies p)\<rparr>)
                    (modify fromDplayId (\<lambda>p. p\<lparr>allies := insert (pd_dplayid itObject) (allies p)\<rparr>) ps))
           else select_team fromDplayId team ks
                  (anyAllianceChange \<or> wasAlliedAB \<or> wasAlliedBA)
                  (modify k (\<lambda>p. p\<lparr>allies := allies p - {pd_dplayid itSubject}\<rparr>)
                    (modify fromDplayId (\<lambda>p. p\<lparr>allies := allies p - {pd_dplayid itObject}\<rparr>) ps))
      else select_team fromDplayId team ks anyAllianceChange ps)"

definition onTeamSelection :: "u32 \<Rightarrow> int \<Rightarrow> GameMonitor2 \<Rightarrow> step" where
  "onTeamSelection fromDplayId team m =
     (if map_of (m_players m) fromDplayId = None then ret m
      else
        let ps = modify fromDplayId (\<lambda>p. p\<lparr>battleroomTeamSelection := team\<rparr>) (m_players m);
            (anyAllianceChange, ps') = select_team fromDplayId team (map fst ps) False ps;
            m' = m\<lparr>m_players := ps'\<rparr>
        in if anyAllianceChange then alliances_changed m' else ret m')"

section \<open>The course of the game\<close>

definition onUnitDied :: "u32 \<Rightarrow> u16 \<Rightarrow> GameMonitor2 \<Rightarrow> step" where
  "onUnitDied sourceDplayId unitId m =
     (if map_of (m_players m) sourceDplayId = None then ret m
      else case m_maxUnits m of
             None \<Rightarrow> raise Undefined m
           | Some unitLimit \<Rightarrow>
               if unitLimit = 0 then raise Undefined m
               else if unitId mod unitLimit = 1
               then if_ended (\<lambda>winningTeamNumber m.
                      if winningTeamNumber > 0
                      then ret (latchEndGameTick (getMostRecentGameTick m + m_drawGameTicks m) m)
                      else latchEndGameResult winningTeamNumber m)
                    (m\<lparr>m_players := modify sourceDplayId (\<lambda>p. p\<lparr>isDead := True\<rparr>) (m_players m)\<rparr>)
               else ret m)"

definition onRejectOther :: "u32 \<Rightarrow> u32 \<Rightarrow> GameMonitor2 \<Rightarrow> step" where
  "onRejectOther sourceDplayId rejectedDplayId m =
     (if map_of (m_players m) sourceDplayId = None then ret m
      else if map_of (m_players m) rejectedDplayId = None then ret m
      else if \<not> m_gameStarted m then remove_player rejectedDplayId m
      else if_ended latchEndGameResult
             (m\<lparr>m_players := modify rejectedDplayId (\<lambda>p. p\<lparr>isDead := True\<rparr>) (m_players m)\<rparr>))"

definition start_game :: "u32 \<Rightarrow> GameMonitor2 \<Rightarrow> step" where
  "start_game tick m =
     (if \<not> m_gameStarted m \<and> tick > m_gameStartsAfterTickCount m
      then and_then (notifyPlayerStatuses (m\<lparr>m_frozenPlayers := m_players m, m_gameStarted := True\<rparr>)) (\<lambda>m.
           and_then (notify_handler (OnGameStarted tick True) m)
             (if_ended (\<lambda>winningTeamNumber. latchEndGameResult (- 1))))
      else ret m)"

definition launch_game :: "u32 \<Rightarrow> GameMonitor2 \<Rightarrow> step" where
  "launch_game tick m =
     (if \<not> m_gameLaunched m then notify_handler (OnGameStarted tick False) (m\<lparr>m_gameLaunched := True\<rparr>) else ret m)"

definition end_game :: "GameMonitor2 \<Rightarrow> step" where
  "end_game m =
     (if endGameTick (m_gameResult m) > 0 \<and> sint (getMostRecentGameTick m - endGameTick (m_gameResult m)) \<ge> 0
      then if_ended latchEndGameResult m else ret m)"

definition onGameTick :: "u32 \<Rightarrow> u32 \<Rightarrow> GameMonitor2 \<Rightarrow> step" where
  "onGameTick sourceDplayId tick m =
     (if map_of (m_players m) sourceDplayId = None then ret m
      else and_then (launch_game tick m) (\<lambda>m. and_then (start_game tick m) (\<lambda>m.
             end_game (m\<lparr>m_players := modify sourceDplayId
               (\<lambda>p. if sint (tick - pd_tick p) > 0 then p\<lparr>pd_tick := tick\<rparr> else p) (m_players m)\<rparr>))))"

section \<open>Packets\<close>

text \<open>A C string read from \<open>&s[i]\<close>.\<close>

definition cstring_at :: "bytestring \<Rightarrow> nat \<Rightarrow> bytestring option" where
  "cstring_at s i = (if i \<le> length s then Some (takeWhile (\<lambda>b. b \<noteq> 0) (drop i s)) else None)"

definition onPlayerInfo :: "byte \<Rightarrow> u32 \<Rightarrow> bytestring \<Rightarrow> GameMonitor2 \<Rightarrow> step" where
  "onPlayerInfo garbage sourceDplayId s m =
     (case TPlayerInfo_parse garbage s of
        None \<Rightarrow> raise Undefined m
      | Some playerInfo \<Rightarrow>
          (case getMapName playerInfo of
             None \<Rightarrow> raise Undefined m
           | Some mapName \<Rightarrow>
               if getSlotNumber playerInfo < 10
               then onStatus sourceDplayId mapName (maxUnits playerInfo) (uint (getSlotNumber playerInfo))
                      (getSide playerInfo) (isWatcher playerInfo) (isAI playerInfo) (isCheatsEnabled playerInfo) m
               else ret m))"

definition onSubPacket :: "byte \<Rightarrow> u32 \<Rightarrow> bytestring \<Rightarrow> GameMonitor2 \<Rightarrow> step" where
  "onSubPacket garbage sourceDplayId s m =
     (case map_option subPacketCode (byte_at s 0) of
        Some PLAYER_INFO_20 \<Rightarrow> onPlayerInfo garbage sourceDplayId s m
      | Some ALLY_23 \<Rightarrow>
          (case TAlliance_parse s of
             None \<Rightarrow> raise Undefined m
           | Some a \<Rightarrow> onAlliance (ally_dpidFrom a) (ally_dpidTo a) (alliedFromWithTo a \<noteq> 0) m)
      | Some TEAM_24 \<Rightarrow>
          (case TTeam_parse s of
             None \<Rightarrow> raise Undefined m
           | Some t \<Rightarrow> onTeamSelection (team_dpidFrom t) (uint (teamNumber t)) m)
      | Some CHAT_05 \<Rightarrow>
          (case cstring_at s 1 of
             None \<Rightarrow> raise Undefined m | Some chat \<Rightarrow> onChat sourceDplayId chat m)
      | Some UNIT_KILLED_0C \<Rightarrow>
          (case load16 s 1 of None \<Rightarrow> raise Undefined m | Some unitId \<Rightarrow> onUnitDied sourceDplayId unitId m)
      | Some REJECT_1B \<Rightarrow>
          (case load32 s 1 of
             None \<Rightarrow> raise Undefined m | Some rejectedDplayId \<Rightarrow> onRejectOther sourceDplayId rejectedDplayId m)
      | Some UNIT_STAT_AND_MOVE_2C \<Rightarrow>
          (case load32 s 3 of None \<Rightarrow> raise Undefined m | Some tick \<Rightarrow> onGameTick sourceDplayId tick m)
      | _ \<Rightarrow> ret m)"

fun onTaPacket :: "byte \<Rightarrow> u32 \<Rightarrow> bytestring list \<Rightarrow> GameMonitor2 \<Rightarrow> step" where
  "onTaPacket garbage sourceDplayId [] m = ret m"
| "onTaPacket garbage sourceDplayId (s # subpaks) m =
     and_then (onSubPacket garbage sourceDplayId s m) (onTaPacket garbage sourceDplayId subpaks)"

text \<open>The monitor as one of the parser's handlers.\<close>

fun monitor_call :: "byte \<Rightarrow> handler_call \<Rightarrow> GameMonitor2 \<Rightarrow> step" where
  "monitor_call garbage (OnDplaySuperEnumPlayerReply dplayId name tcp udp) m = onDplaySuperEnumPlayerReply dplayId name m"
| "monitor_call garbage (OnDplayCreateOrForwardPlayer cmd dplayId name tcp udp) m =
     onDplayCreateOrForwardPlayer cmd dplayId name m"
| "monitor_call garbage (OnDplayDeletePlayer dplayId) m = onDplayDeletePlayer dplayId m"
| "monitor_call garbage (OnTaPacket sourceDplayId otherDplayId isLocalSource encrypted subpaks) m =
     onTaPacket garbage sourceDplayId subpaks m"

end
