(* ===== verification/Game_Teams.thy ===== *)
theory Game_Teams
  imports Game_Monitor
begin

text \<open>
  The numbering of armies and teams by \<open>updatePlayerArmies\<close> of the game monitor. The loops over the player table
  compute two functions on the player ids (\<open>army_of\<close>, \<open>team_of\<close>); proved of them: active players get the
  armies 1, 2, ... in the order of their ids, and where being mutually allied is an equivalence, two active
  players are on the same team if and only if they are allied.
\<close>

section \<open>The entries of the player table\<close>

lemma map_of_entries [simp]:
  "map_of (map (\<lambda>(k, p). (k, f k p)) ps) k = map_option (f k) (map_of ps k)"
  by (induction ps) auto

lemma keys_entries [simp]: "map fst (map (\<lambda>(k, p). (k, f k p)) ps) = map fst ps"
  by (induction ps) auto

lemma std_ok_entries [simp]: "std_ok (map (\<lambda>(k, p). (k, f k p)) ps) = std_ok ps"
  by (simp only: std_ok_def keys_entries)

lemma key_set_entries [simp]: "fst ` set (map (\<lambda>(k, p). (k, f k p)) ps) = fst ` set ps"
  by force

lemma entries_cong:
  "(\<And>k p. (k, p) \<in> set ps \<Longrightarrow> f k p = g k p) \<Longrightarrow>
   map (\<lambda>(k, p). (k, f k p)) ps = map (\<lambda>(k, p). (k, g k p)) ps"
  by auto

lemma entries_entries [simp]:
  "map (\<lambda>(k, p). (k, f k p)) (map (\<lambda>(k, p). (k, g k p)) ps) = map (\<lambda>(k, p). (k, f k (g k p))) ps"
  by (induction ps) auto

lemma entry_Some [simp]: "map_of ps k = Some p \<Longrightarrow> entry ps k = p"
  by (simp add: entry_def)

lemma map_of_modify [simp]:
  "map_of (modify k f ps) i = (if i = k then map_option f (map_of ps i) else map_of ps i)"
  by (cases "i = k") (simp_all add: modify_def option.map_ident)

lemma std_ok_modify [simp]: "std_ok (modify k f ps) = std_ok ps"
  by (simp add: modify_def)

lemma key_set_modify [simp]: "fst ` set (modify k f ps) = fst ` set ps"
  by (simp only: modify_def key_set_entries)

lemma key_iff_map_of: "k \<in> fst ` set ps \<longleftrightarrow> (\<exists>p. map_of ps k = Some p)"
  by (metis map_of_eq_None_iff not_None_eq)

text \<open>What every handler keeps: players are filed under their id, and allies are players.\<close>

definition players_ok :: "players \<Rightarrow> bool" where
  "players_ok ps = (std_ok ps \<and> (\<forall>(k, p) \<in> set ps. pd_dplayid p = k \<and> k \<noteq> 0 \<and> allies p \<subseteq> fst ` set ps))"

lemma players_okI:
  assumes "std_ok ps"
    and "\<And>k p. map_of ps k = Some p \<Longrightarrow> pd_dplayid p = k \<and> k \<noteq> 0 \<and> allies p \<subseteq> fst ` set ps"
  shows "players_ok ps"
  unfolding players_ok_def using assms(1) assms(2) [OF iffD1 [OF in_set_map_of [OF assms(1)]]] by blast

lemma players_okD:
  assumes "players_ok ps" and "map_of ps k = Some p"
  shows "pd_dplayid p = k" and "k \<noteq> 0" and "allies p \<subseteq> fst ` set ps"
  using assms by (auto simp: players_ok_def dest!: map_of_SomeD)

lemma players_ok_std [simp]: "players_ok ps \<Longrightarrow> std_ok ps"
  by (simp add: players_ok_def)

lemma players_ok_entries:
  assumes "players_ok ps"
    and "\<And>k p. map_of ps k = Some p \<Longrightarrow> pd_dplayid (f k p) = pd_dplayid p \<and> allies (f k p) \<subseteq> fst ` set ps"
  shows "players_ok (map (\<lambda>(k, p). (k, f k p)) ps)"
proof (rule players_okI)
  fix k q assume "map_of (map (\<lambda>(k, p). (k, f k p)) ps) k = Some q"
  then obtain p where p: "map_of ps k = Some p" and q: "q = f k p" by auto
  show "pd_dplayid q = k \<and> k \<noteq> 0 \<and> allies q \<subseteq> fst ` set (map (\<lambda>(k, p). (k, f k p)) ps)"
    unfolding key_set_entries using assms(2) [OF p] players_okD [OF assms(1) p] q by simp
qed (simp add: assms(1))

section \<open>Numbering of armies and teams\<close>

definition active :: "PlayerData \<Rightarrow> bool" where
  "active p = (\<not> isDead p \<and> \<not> pd_isWatcher p)"

definition is_active :: "players \<Rightarrow> u32 \<Rightarrow> bool" where
  "is_active ps k = (\<exists>p. map_of ps k = Some p \<and> active p)"

definition mutual :: "players \<Rightarrow> u32 \<Rightarrow> u32 \<Rightarrow> bool" where
  "mutual ps i j = (j \<in> allies (entry ps i) \<and> i \<in> allies (entry ps j))"

definition with_armies :: "(u32 \<Rightarrow> int) \<Rightarrow> (u32 \<Rightarrow> int) \<Rightarrow> players \<Rightarrow> players" where
  "with_armies A T ps = map (\<lambda>(k, p). (k, p\<lparr>armyNumber := A k, pd_teamNumber := T k\<rparr>)) ps"

text \<open>The numbering loops on plain functions.\<close>

fun team_loop :: "('k \<Rightarrow> bool) \<Rightarrow> ('k \<Rightarrow> 'k \<Rightarrow> bool) \<Rightarrow> 'k list \<Rightarrow> int \<Rightarrow> ('k \<Rightarrow> int) \<Rightarrow> 'k \<Rightarrow> int" where
  "team_loop act mut [] tc T = T"
| "team_loop act mut (k # ks) tc T =
     (if act k \<and> T k = 0
      then team_loop act mut ks (tc + 1) (\<lambda>j. if (j = k \<or> mut k j) \<and> act j \<and> T j = 0 then tc + 1 else T j)
      else team_loop act mut ks tc T)"

fun army_loop :: "('k \<Rightarrow> bool) \<Rightarrow> 'k list \<Rightarrow> int \<Rightarrow> ('k \<Rightarrow> int) \<Rightarrow> 'k \<Rightarrow> int" where
  "army_loop act [] ac A = A"
| "army_loop act (k # ks) ac A =
     (if act k then army_loop act ks (ac + 1) (A(k := ac + 1)) else army_loop act ks ac A)"

lemma map_of_with_armies [simp]:
  "map_of (with_armies A T ps) k =
     map_option (\<lambda>p. p\<lparr>armyNumber := A k, pd_teamNumber := T k\<rparr>) (map_of ps k)"
  by (simp add: with_armies_def)

lemma keys_with_armies [simp]: "fst ` set (with_armies A T ps) = fst ` set ps"
  unfolding with_armies_def by (rule key_set_entries)

lemma players_ok_with_armies: "players_ok ps \<Longrightarrow> players_ok (with_armies A T ps)"
  unfolding with_armies_def by (rule players_ok_entries) (auto dest: players_okD)

lemma entry_with_armies:
  "k \<in> fst ` set ps \<Longrightarrow> entry (with_armies A T ps) k = (entry ps k)\<lparr>armyNumber := A k, pd_teamNumber := T k\<rparr>"
  by (auto simp: key_iff_map_of)

lemma entry_props:
  assumes "players_ok ps" and "k \<in> fst ` set ps"
  shows "pd_dplayid (entry ps k) = k" and "allies (entry ps k) \<subseteq> fst ` set ps"
proof -
  obtain p where "map_of ps k = Some p" using assms(2) by (auto simp: key_iff_map_of)
  then show "pd_dplayid (entry ps k) = k" and "allies (entry ps k) \<subseteq> fst ` set ps"
    using players_okD [OF assms(1)] by simp_all
qed

lemma getMutualAllies_eq:
  assumes "players_ok ps" and "k \<in> fst ` set ps"
  shows "getMutualAllies k ps = Some {j. mutual ps k j}"
proof -
  obtain p where p: "map_of ps k = Some p" using assms(2) by (auto simp: key_iff_map_of)
  have al: "j \<in> fst ` set ps" if "j \<in> allies p" for j using players_okD(3) [OF assms(1) p] that by blast
  have "(\<lambda>j. pd_dplayid (entry ps j)) ` Set.filter (\<lambda>j. k \<in> allies (entry ps j)) (allies p) =
      Set.filter (\<lambda>j. k \<in> allies (entry ps j)) (allies p)"
    using entry_props(1) [OF assms(1) al] by (auto simp: image_iff)
  moreover have "Set.filter (\<lambda>j. k \<in> allies (entry ps j)) (allies p) = {j. mutual ps k j}"
    using p by (auto simp: mutual_def)
  ultimately show ?thesis
    using p al players_okD(1) [OF assms(1) p] by (auto simp: getMutualAllies_def key_iff_map_of)
qed

lemma mutual_keys: "players_ok ps \<Longrightarrow> k \<in> fst ` set ps \<Longrightarrow> mutual ps k j \<Longrightarrow> j \<in> fst ` set ps"
  using entry_props(2) unfolding mutual_def by blast

lemma assign_team_eq:
  assumes "set as \<subseteq> fst ` set ps" and "std_ok ps"
  shows "assign_team t as (with_armies A T ps) =
    (with_armies A (\<lambda>j. if j \<in> set as \<and> is_active ps j \<and> T j = 0 then t else T j) ps, None)"
  using assms
proof (induction as arbitrary: T)
  case (Cons a as)
  then obtain p where p: "map_of ps a = Some p" by (auto simp: key_iff_map_of)
  have upd: "modify a (\<lambda>p. p\<lparr>pd_teamNumber := t\<rparr>) (with_armies A T ps) = with_armies A (T(a := t)) ps"
    unfolding modify_def with_armies_def by (auto intro!: map_cong)
  show ?case
  proof (cases "T a = 0 \<and> active p")
    case True
    have "assign_team t (a # as) (with_armies A T ps) = assign_team t as (with_armies A (T(a := t)) ps)"
      using p True upd by (simp add: active_def)
    also have "\<dots> = (with_armies A (\<lambda>j. if j \<in> set as \<and> is_active ps j \<and> (T(a := t)) j = 0 then t else (T(a := t)) j) ps, None)"
      using Cons by simp
    also have "(\<lambda>j. if j \<in> set as \<and> is_active ps j \<and> (T(a := t)) j = 0 then t else (T(a := t)) j) =
        (\<lambda>j. if j \<in> set (a # as) \<and> is_active ps j \<and> T j = 0 then t else T j)"
      using p True by (auto simp: fun_eq_iff is_active_def)
    finally show ?thesis .
  next
    case False
    then have "assign_team t (a # as) (with_armies A T ps) = assign_team t as (with_armies A T ps)"
      using p by (auto simp: active_def)
    also have "\<dots> = (with_armies A (\<lambda>j. if j \<in> set as \<and> is_active ps j \<and> T j = 0 then t else T j) ps, None)"
      using Cons by simp
    also have "(\<lambda>j. if j \<in> set as \<and> is_active ps j \<and> T j = 0 then t else T j) =
        (\<lambda>j. if j \<in> set (a # as) \<and> is_active ps j \<and> T j = 0 then t else T j)"
      using p False by (auto simp: fun_eq_iff is_active_def)
    finally show ?thesis .
  qed
qed simp

lemma mutual_with_armies: "players_ok ps \<Longrightarrow> k \<in> fst ` set ps \<Longrightarrow> mutual (with_armies A T ps) k j = mutual ps k j"
  using entry_props(2) [of ps k] unfolding mutual_def
  by (cases "j \<in> fst ` set ps") (simp_all add: entry_with_armies, blast)

lemma finite_mutual: "players_ok ps \<Longrightarrow> k \<in> fst ` set ps \<Longrightarrow> finite {j. mutual ps k j}"
  by (rule finite_subset [of _ "fst ` set ps"]) (auto dest: mutual_keys)

lemma assign_armies_eq:
  assumes "players_ok ps" and "set ks \<subseteq> fst ` set ps"
  shows "assign_armies ks tc ac (with_armies A T ps) =
    (with_armies (army_loop (is_active ps) ks ac A) (team_loop (is_active ps) (mutual ps) ks tc T) ps, None)"
  using assms(2)
proof (induction ks arbitrary: tc ac A T)
  case (Cons k ks)
  then have k: "k \<in> fst ` set ps" by simp
  then obtain p where p: "map_of ps k = Some p" by (auto simp: key_iff_map_of)
  have act: "is_active ps k = active p" using p by (simp add: is_active_def)
  have upd: "modify k (\<lambda>p. p\<lparr>armyNumber := ac + 1\<rparr>) (with_armies A T ps) = with_armies (A(k := ac + 1)) T ps"
    unfolding modify_def with_armies_def by (auto intro!: map_cong)
  have mem: "j \<in> set (sorted_list_of_set (insert k {j. mutual ps k j})) \<longleftrightarrow> j = k \<or> mutual ps k j" for j
    using finite_mutual [OF assms(1) k] by (simp del: sorted_list_of_set_insert_remove)
  have mut: "getMutualAllies k (with_armies (A(k := ac + 1)) T ps) = Some {j. mutual ps k j}"
    using getMutualAllies_eq [OF players_ok_with_armies [OF assms(1)], of k] k
    by (simp add: mutual_with_armies [OF assms(1)])
  have sub: "set (sorted_list_of_set (insert k {j. mutual ps k j})) \<subseteq> fst ` set ps"
    using mem mutual_keys [OF assms(1) k] k by blast
  have team: "assign_team (tc + 1) (sorted_list_of_set (insert k {j. mutual ps k j})) (with_armies (A(k := ac + 1)) T ps) =
      (with_armies (A(k := ac + 1)) (\<lambda>j. if (j = k \<or> mutual ps k j) \<and> is_active ps j \<and> T j = 0 then tc + 1 else T j) ps, None)"
    unfolding assign_team_eq [OF sub players_ok_std [OF assms(1)]] by (simp only: mem)
  show ?case
    using Cons p act upd mut team players_okD(1) [OF assms(1) p] by (simp add: active_def Let_def)
qed simp

lemma sortedPlayers_eq: "players_ok ps \<Longrightarrow> sortedPlayers ps = map fst ps"
proof -
  assume ok: "players_ok ps"
  then have "map (\<lambda>(_, p). pd_dplayid p) ps = map fst ps"
    by (auto simp: players_ok_def)
  moreover have "sorted (map fst ps)"
    using players_ok_std [OF ok] by (simp add: std_ok_def strict_sorted_iff)
  ultimately have "sort_key (\<lambda>(_, p). pd_dplayid p) ps = ps"
    by (intro sort_key_id_if_sorted) (simp only:)
  then show ?thesis by (simp add: sortedPlayers_def)
qed

definition army_of :: "players \<Rightarrow> u32 \<Rightarrow> int" where
  "army_of ps = army_loop (is_active ps) (map fst ps) 0 (\<lambda>_. 0)"

definition team_of :: "players \<Rightarrow> u32 \<Rightarrow> int" where
  "team_of ps = team_loop (is_active ps) (mutual ps) (map fst ps) 1 (\<lambda>_. 0)"

lemma armies_eq: "players_ok ps \<Longrightarrow> armies ps = (with_armies (army_of ps) (team_of ps) ps, None)"
proof -
  assume ok: "players_ok ps"
  have "clear_armies ps = with_armies (\<lambda>_. 0) (\<lambda>_. 0) ps"
    by (simp add: clear_armies_def with_armies_def)
  then show ?thesis
    using assign_armies_eq [OF ok, of "map fst ps" 1 0] by (simp add: armies_def sortedPlayers_eq [OF ok] army_of_def team_of_def)
qed

text \<open>What the loops compute.\<close>

lemma team_loop_settled: "T j \<noteq> 0 \<Longrightarrow> team_loop act mut ks tc T j = T j"
  by (induction ks arbitrary: tc T) auto

lemma team_loop_inactive: "\<not> act j \<Longrightarrow> team_loop act mut ks tc T j = T j"
  by (induction ks arbitrary: tc T) auto

lemma team_loop_range:
  assumes "0 < tc" and "\<forall>j. T j = 0 \<or> 2 \<le> T j" and "act k" and "k \<in> set ks"
  shows "2 \<le> team_loop act mut ks tc T k"
  using assms
proof (induction ks arbitrary: tc T)
  case (Cons i ks)
  show ?case
  proof (cases "k \<in> set ks")
    case True
    then show ?thesis using Cons.prems Cons.IH by auto
  next
    case False
    then have "k = i" using Cons.prems by simp
    then show ?thesis using Cons.prems team_loop_settled by (cases "T i = 0") (auto simp: team_loop_settled)
  qed
qed simp

lemma army_loop_other: "k \<notin> set ks \<Longrightarrow> army_loop act ks ac A k = A k"
  by (induction ks arbitrary: ac A) auto

lemma army_loop_inactive: "\<not> act k \<Longrightarrow> army_loop act ks ac A k = A k"
  by (induction ks arbitrary: ac A) auto

lemma army_loop_range: "0 \<le> ac \<Longrightarrow> act k \<Longrightarrow> k \<in> set ks \<or> 1 \<le> A k \<Longrightarrow> 1 \<le> army_loop act ks ac A k"
  by (induction ks arbitrary: ac A) auto

lemma army_loop_ranks:
  "distinct ks \<Longrightarrow> map (army_loop act ks ac A) (filter act ks) = [ac + 1..ac + int (length (filter act ks))]"
  by (induction ks arbitrary: ac A) (auto simp: army_loop_other upto_rec1 algebra_simps)

text \<open>Where being allied is an equivalence, the teams are its classes.\<close>

lemma team_loop_classes:
  assumes sym: "\<And>i j. mut i j \<Longrightarrow> mut j i"
    and trans: "\<And>i j k. act i \<Longrightarrow> act j \<Longrightarrow> act k \<Longrightarrow> mut i j \<Longrightarrow> mut j k \<Longrightarrow> i \<noteq> k \<Longrightarrow> mut i k"
    and range: "\<forall>j. T j \<noteq> 0 \<longrightarrow> act j \<and> T j \<le> tc" and tc: "0 < tc"
    and same: "\<forall>i j. T i \<noteq> 0 \<longrightarrow> T j \<noteq> 0 \<longrightarrow> (T i = T j \<longleftrightarrow> i = j \<or> mut i j)"
    and closed: "\<forall>i j. T i \<noteq> 0 \<longrightarrow> mut i j \<longrightarrow> act j \<longrightarrow> T j \<noteq> 0"
    and cover: "act x" "act y" "T x \<noteq> 0 \<or> x \<in> set ks" "T y \<noteq> 0 \<or> y \<in> set ks"
  shows "team_loop act mut ks tc T x = team_loop act mut ks tc T y \<longleftrightarrow> x = y \<or> mut x y"
  using range tc same closed cover(3,4)
proof (induction ks arbitrary: tc T)
  case Nil
  then show ?case by simp
next
  case (Cons k ks)
  show ?case
  proof (cases "act k \<and> T k = 0")
    case False
    then have "T x \<noteq> 0 \<or> x \<in> set ks" and "T y \<noteq> 0 \<or> y \<in> set ks"
      using Cons.prems(5,6) cover(1,2) by auto
    then show ?thesis
      unfolding team_loop.simps if_not_P [OF False] by (rule Cons.IH [OF Cons.prems(1-4)])
  next
    case True
    let ?T = "\<lambda>j. if (j = k \<or> mut k j) \<and> act j \<and> T j = 0 then tc + 1 else T j"
    have new: "T j = 0" if "j = k \<or> mut k j" "act j" for j
      using Cons.prems(4) True that sym by blast
    have "team_loop act mut ks (tc + 1) ?T x = team_loop act mut ks (tc + 1) ?T y \<longleftrightarrow> x = y \<or> mut x y"
    proof (rule Cons.IH)
      show "\<forall>j. ?T j \<noteq> 0 \<longrightarrow> act j \<and> ?T j \<le> tc + 1" using Cons.prems(1) by (auto intro: order_trans)
      show "0 < tc + 1" using Cons.prems(2) by simp
      show "\<forall>i j. ?T i \<noteq> 0 \<longrightarrow> ?T j \<noteq> 0 \<longrightarrow> (?T i = ?T j \<longleftrightarrow> i = j \<or> mut i j)"
      proof (intro allI impI)
        fix i j assume i: "?T i \<noteq> 0" and j: "?T j \<noteq> 0"
        have ai: "act i" and aj: "act j" using i j Cons.prems(1) by (auto split: if_splits)
        have le: "T l \<noteq> tc + 1" for l using Cons.prems(1) [rule_format, of l] Cons.prems(2) by (cases "T l = 0") auto
        consider "i = k \<or> mut k i" "j = k \<or> mut k j" | "i = k \<or> mut k i" "\<not> (j = k \<or> mut k j)"
          | "\<not> (i = k \<or> mut k i)" "j = k \<or> mut k j" | "\<not> (i = k \<or> mut k i)" "\<not> (j = k \<or> mut k j)" by blast
        then show "?T i = ?T j \<longleftrightarrow> i = j \<or> mut i j"
        proof cases
          case 1
          then have "i = j \<or> mut i j" using trans sym ai aj True by metis
          then show ?thesis using 1 new ai aj by simp
        next
          case 2
          then have "\<not> (i = j \<or> mut i j)" using trans sym ai aj True by metis
          then show ?thesis using 2 new ai aj le [of j] by simp
        next
          case 3
          then have "\<not> (i = j \<or> mut i j)" using trans sym ai aj True by metis
          then show ?thesis using 3 new ai aj le [of i] by simp
        next
          case 4
          then show ?thesis using Cons.prems(3) i j by auto
        qed
      qed
      show "\<forall>i j. ?T i \<noteq> 0 \<longrightarrow> mut i j \<longrightarrow> act j \<longrightarrow> ?T j \<noteq> 0"
      proof (intro allI impI)
        fix i j assume i: "?T i \<noteq> 0" and m: "mut i j" and aj: "act j"
        show "?T j \<noteq> 0"
        proof (cases "i = k \<or> mut k i")
          case True
          have "act i" using i Cons.prems(1) by (auto split: if_splits)
          then have "j = k \<or> mut k j" using True m aj trans [of k i j] sym \<open>act k \<and> T k = 0\<close> by metis
          then show ?thesis using aj new Cons.prems(2) by simp
        next
          case False
          then show ?thesis using i m aj Cons.prems(2,4) by auto
        qed
      qed
      show "?T x \<noteq> 0 \<or> x \<in> set ks" using Cons.prems(2,5) cover(1) True by auto
      show "?T y \<noteq> 0 \<or> y \<in> set ks" using Cons.prems(2,6) cover(2) True by auto
    qed
    then show ?thesis using True by simp
  qed
qed


section \<open>What \<open>updatePlayerArmies\<close> promises\<close>

definition numbered :: "players \<Rightarrow> bool" where
  "numbered ps = (\<forall>(k, p) \<in> set ps. active p \<longrightarrow> 1 \<le> armyNumber p \<and> 2 \<le> pd_teamNumber p)"

lemma numberedD: "numbered ps \<Longrightarrow> map_of ps k = Some p \<Longrightarrow> active p \<Longrightarrow> 1 \<le> armyNumber p \<and> 2 \<le> pd_teamNumber p"
  by (auto simp: numbered_def dest!: map_of_SomeD)

lemma is_active_iff: "map_of ps k = Some p \<Longrightarrow> is_active ps k = active p"
  by (simp add: is_active_def)

lemma key_in_keys: "map_of ps k = Some p \<Longrightarrow> k \<in> set (map fst ps)"
  by (auto dest: map_of_SomeD intro: rev_image_eqI)

lemma army_of_active:
  assumes "is_active ps k"
  shows "1 \<le> army_of ps k"
  unfolding army_of_def
  using assms key_in_keys by (intro army_loop_range) (auto simp: is_active_def simp del: set_map)

lemma team_of_active:
  assumes "is_active ps k"
  shows "2 \<le> team_of ps k"
  unfolding team_of_def
  using assms key_in_keys by (intro team_loop_range) (auto simp: is_active_def simp del: set_map)

lemma team_of_inactive: "\<not> is_active ps k \<Longrightarrow> team_of ps k = 0"
  by (simp add: team_of_def team_loop_inactive)

definition transitive_alliance :: "players \<Rightarrow> bool" where
  "transitive_alliance ps = (\<forall>i j k. is_active ps i \<and> is_active ps j \<and> is_active ps k \<and>
     mutual ps i j \<and> mutual ps j k \<and> i \<noteq> k \<longrightarrow> mutual ps i k)"

lemma team_of_classes:
  assumes "transitive_alliance ps" and "is_active ps x" "is_active ps y"
  shows "team_of ps x = team_of ps y \<longleftrightarrow> x = y \<or> mutual ps x y"
  unfolding team_of_def
proof (rule team_loop_classes)
  show "mutual ps i k"
    if "is_active ps i" "is_active ps j" "is_active ps k" "mutual ps i j" "mutual ps j k" "i \<noteq> k" for i j k
    using assms(1) that unfolding transitive_alliance_def by blast
  show "mutual ps j i" if "mutual ps i j" for i j using that by (simp add: mutual_def)
  show "0 \<noteq> (0 :: int) \<or> x \<in> set (map fst ps)" and "0 \<noteq> (0 :: int) \<or> y \<in> set (map fst ps)"
    using assms(2,3) key_in_keys by (auto simp: is_active_def simp del: set_map)
qed (simp_all add: assms(2,3))

lemma active_with_armies [simp]: "active (p\<lparr>armyNumber := a, pd_teamNumber := t\<rparr>) = active p"
  by (simp add: active_def)

lemma numbered_armies:
  assumes "players_ok ps"
  shows "numbered (with_armies (army_of ps) (team_of ps) ps)"
proof -
  have "1 \<le> army_of ps k \<and> 2 \<le> team_of ps k" if "(k, p) \<in> set ps" "active p" for k p
  proof -
    have "is_active ps k"
      using that in_set_map_of [OF players_ok_std [OF assms]] by (auto simp: is_active_def)
    then show ?thesis using army_of_active team_of_active by blast
  qed
  then show ?thesis by (auto simp: numbered_def with_armies_def)
qed

lemma updatePlayerArmies_eq:
  "players_ok (m_players m) \<Longrightarrow>
   updatePlayerArmies m = ret (m\<lparr>m_players := with_armies (army_of (m_players m)) (team_of (m_players m)) (m_players m)\<rparr>)"
  by (simp add: updatePlayerArmies_def armies_eq ret_def)


lemma active_keys:
  assumes "std_ok ps"
  shows "map fst (filter (\<lambda>(k, p). active p) ps) = filter (is_active ps) (map fst ps)"
proof -
  have "filter (\<lambda>(k, p). active p) ps = filter (is_active ps \<circ> fst) ps"
    using in_set_map_of [OF assms] by (intro filter_cong) (auto simp: is_active_def)
  then show ?thesis by (simp add: filter_map)
qed

lemma army_numbers:
  assumes "players_ok ps"
  shows "map (\<lambda>(k, p). armyNumber p) (filter (\<lambda>(k, p). active p) (with_armies (army_of ps) (team_of ps) ps)) =
    [1..int (length (filter (\<lambda>(k, p). active p) ps))]"
proof -
  let ?act = "filter (\<lambda>(k, p). active p) ps"
  have "map (\<lambda>(k, p). armyNumber p) (filter (\<lambda>(k, p). active p) (with_armies A T ps)) = map (A \<circ> fst) (filter (\<lambda>(k, p). active p) ps)"
    for A T :: "u32 \<Rightarrow> int" and ps
    by (induction ps) (auto simp: with_armies_def)
  also have "map (army_of ps \<circ> fst) ?act = map (army_of ps) (filter (is_active ps) (map fst ps))"
    by (metis active_keys assms map_map players_ok_std)
  also have "\<dots> = [1..int (length (filter (is_active ps) (map fst ps)))]"
    using army_loop_ranks [of "map fst ps" "is_active ps" 0] std_ok_distinct [OF players_ok_std [OF assms]]
    by (simp add: army_of_def)
  also have "length (filter (is_active ps) (map fst ps)) = length ?act"
    by (metis active_keys assms length_map players_ok_std)
  finally show ?thesis .
qed

text \<open>
  \<open>updatePlayerArmies\<close> does not throw and changes nothing but the two numbers of the players. The active players get the
  armies 1, 2, ... in the order of their ids. Where mutual alliance is transitive among them, two
  active players have the same team number if and only if they are the same or allied with each other, and
  team numbers are at least 2 (1 is reserved for players without a team).
\<close>

theorem teams_are_alliances:
  assumes "players_ok (m_players m)" and "transitive_alliance (m_players m)"
  shows "\<exists>A T. updatePlayerArmies m = ret (m\<lparr>m_players := with_armies A T (m_players m)\<rparr>) \<and>
    map (\<lambda>(k, p). armyNumber p) (filter (\<lambda>(k, p). active p) (with_armies A T (m_players m))) =
      [1..int (length (filter (\<lambda>(k, p). active p) (m_players m)))] \<and>
    (\<forall>x y. is_active (m_players m) x \<and> is_active (m_players m) y \<longrightarrow>
      2 \<le> T x \<and> (T x = T y \<longleftrightarrow> x = y \<or> mutual (m_players m) x y))"
  using updatePlayerArmies_eq [OF assms(1)] army_numbers [OF assms(1)] team_of_active team_of_classes [OF assms(2)]
  by blast

definition team_example :: GameMonitor2 where
  "team_example = (GameMonitor2_new True 100 10)\<lparr>m_players :=
     [(3, PlayerData_new\<lparr>pd_dplayid := 3, allies := {7}\<rparr>), (5, PlayerData_new\<lparr>pd_dplayid := 5\<rparr>),
      (7, PlayerData_new\<lparr>pd_dplayid := 7, allies := {3}\<rparr>)]\<rparr>"

lemma team_example_players:
  "m_players team_example = [(3, PlayerData_new\<lparr>pd_dplayid := 3, allies := {7}\<rparr>),
     (5, PlayerData_new\<lparr>pd_dplayid := 5\<rparr>), (7, PlayerData_new\<lparr>pd_dplayid := 7, allies := {3}\<rparr>)]"
  by (simp add: team_example_def)

theorem teams_are_alliances_witness:
  "\<exists>A T. updatePlayerArmies team_example = ret (team_example\<lparr>m_players := with_armies A T (m_players team_example)\<rparr>) \<and>
    A 3 = 1 \<and> A 5 = 2 \<and> A 7 = 3 \<and> T 3 = T 7 \<and> T 3 \<noteq> T 5"
proof -
  let ?ps = "m_players team_example"
  have ok: "players_ok ?ps"
    by (auto simp: team_example_players players_ok_def PlayerData_new_def)
  have mut: "mutual ?ps i j \<longleftrightarrow> i = 3 \<and> j = 7 \<or> i = 7 \<and> j = 3" for i j
    by (auto simp: mutual_def entry_def team_example_players PlayerData_new_def)
  have act: "is_active ?ps k \<longleftrightarrow> k = 3 \<or> k = 5 \<or> k = 7" for k
    by (auto simp: is_active_def active_def team_example_players PlayerData_new_def)
  have "transitive_alliance ?ps" by (simp only: transitive_alliance_def mut) auto
  then obtain A T where r: "updatePlayerArmies team_example = ret (team_example\<lparr>m_players := with_armies A T ?ps\<rparr>)"
    and a: "map (\<lambda>(k, p). armyNumber p) (filter (\<lambda>(k, p). active p) (with_armies A T ?ps)) =
        [1..int (length (filter (\<lambda>(k, p). active p) ?ps))]"
    and t: "\<forall>x y. is_active ?ps x \<and> is_active ?ps y \<longrightarrow> 2 \<le> T x \<and> (T x = T y \<longleftrightarrow> x = y \<or> mutual ?ps x y)"
    using teams_are_alliances [OF ok] by blast
  have "A 3 = 1 \<and> A 5 = 2 \<and> A 7 = 3"
    using a by (simp add: team_example_players with_armies_def active_def PlayerData_new_def upto_rec1)
  moreover have "T 3 = T 7 \<and> T 3 \<noteq> T 5"
    using t act mut by simp
  ultimately show ?thesis using r by blast
qed

end
