(* ===== verification/Game_Verdict.thy ===== *)
theory Game_Verdict
  imports Game_Teams
begin

text \<open>
  The course of a game as the monitor sees it. For every sequence of calls by the packet parser: no handler
  throws \<open>std::out_of_range\<close>, the start and the end of the game are reported in order and once, the result is
  final once it is latched, and it is the right one: a surviving player never loses.
\<close>

section \<open>Outcomes of steps\<close>

text \<open>
  A step is \<open>safe\<close> when it returns normally with \<open>Q\<close>, or runs into undefined behaviour where \<open>U\<close> permits it.
\<close>

fun safe :: "bool \<Rightarrow> (GameMonitor2 \<Rightarrow> monitor_event list \<Rightarrow> bool) \<Rightarrow> step \<Rightarrow> bool" where
  "safe U Q (m, es, None) = Q m es"
| "safe U Q (m, es, Some e) = (U \<and> e = Undefined)"

lemma safe_ret [simp]: "safe U Q (ret m) = Q m []"
  by (simp add: ret_def)

lemma safe_raise [simp]: "safe U Q (raise e m) = (U \<and> e = Undefined)"
  by (simp add: raise_def)

lemma safe_and_then [simp]:
  "safe U Q (and_then r f) = safe U (\<lambda>m es. safe U (\<lambda>m' es'. Q m' (es @ es')) (f m)) r"
  by (cases "(r, f)" rule: and_then.cases) (auto split: prod.splits elim!: safe.elims)

declare and_then.simps [simp del]

lemma safe_notify [simp]: "safe U Q (notify_handler e m) = Q m (if m_gameEventHandler m then [e] else [])"
  by (simp add: notify_handler_def)

lemma safe_call [simp]: "safe U Q (call_handler e m) = (if m_gameEventHandler m then Q m [e] else U)"
  by (simp add: call_handler_def)

lemma safe_mono: "safe U P r \<Longrightarrow> (\<And>m es. P m es \<Longrightarrow> Q m es) \<Longrightarrow> (U \<Longrightarrow> V) \<Longrightarrow> safe V Q r"
  by (cases r; cases "snd (snd r)") auto

section \<open>The invariant\<close>

definition fteam :: "GameMonitor2 \<Rightarrow> u32 \<Rightarrow> int" where
  "fteam m k = pd_teamNumber (entry (m_frozenPlayers m) k)"

definition one_team :: "GameMonitor2 \<Rightarrow> bool" where
  "one_team m = (\<exists>w. \<forall>k. is_active (m_players m) k \<longrightarrow> fteam m k = w)"

text \<open>The players at the start of the game are the players now; who is active now was active then.\<close>

definition frozen_ok :: "GameMonitor2 \<Rightarrow> bool" where
  "frozen_ok m = (fst ` set (m_frozenPlayers m) = fst ` set (m_players m) \<and> numbered (m_frozenPlayers m) \<and>
     std_ok (m_frozenPlayers m) \<and>
     (\<forall>k. is_active (m_players m) k \<longrightarrow> is_active (m_frozenPlayers m) k))"

text \<open>The result agrees with who is still alive.\<close>

definition verdict :: "int \<Rightarrow> GameMonitor2 \<Rightarrow> bool" where
  "verdict w m = (w = 0 \<and> (\<forall>k. \<not> is_active (m_players m) k) \<or>
     0 < w \<and> (\<forall>k. is_active (m_players m) k \<longrightarrow> fteam m k = w))"

definition verdict_ok :: "GameMonitor2 \<Rightarrow> bool" where
  "verdict_ok m = (case status (m_gameResult m) of
     NOT_READY \<Rightarrow> results (m_gameResult m) = [] \<and> (endGameTick (m_gameResult m) \<noteq> 0 \<longrightarrow> one_team m)
   | _ \<Rightarrow> results (m_gameResult m) = [] \<or>
       (\<exists>w names. results (m_gameResult m) = fst (army_results w (m_frozenPlayers m) names) \<and> verdict w m))"

definition base_ok :: "GameMonitor2 \<Rightarrow> bool" where
  "base_ok m = (players_ok (m_players m) \<and> m_hostPlayerName m \<noteq> [] \<and> m_localPlayerName m \<noteq> [] \<and>
     m_maxUnits m \<noteq> Some 0 \<and>
     (if m_gameStarted m then m_gameLaunched m \<and> frozen_ok m \<and> verdict_ok m
      else m_gameResult m = GameResult_new))"

definition gm_ok :: "GameMonitor2 \<Rightarrow> bool" where
  "gm_ok m = (base_ok m \<and> numbered (m_players m))"

section \<open>What a call may change\<close>

fun is_lifecycle :: "monitor_event \<Rightarrow> bool" where
  "is_lifecycle (OnGameStarted t frozen) = True"
| "is_lifecycle (OnGameEnded r) = True"
| "is_lifecycle _ = False"

abbreviation lifecycle :: "monitor_event list \<Rightarrow> monitor_event list" where
  "lifecycle es \<equiv> filter is_lifecycle es"

text \<open>The reports of start and end made so far: launch, start, end, in this order and each once.\<close>

definition start_reports :: "monitor_event list \<Rightarrow> GameMonitor2 \<Rightarrow> bool" where
  "start_reports L m = (\<exists>a b. L = a @ b \<and>
     (if m_gameLaunched m then \<exists>t. a = [OnGameStarted t False] else a = []) \<and>
     (if m_gameStarted m then \<exists>t > m_gameStartsAfterTickCount m. b = [OnGameStarted t True] else b = []))"

definition end_reports :: "monitor_event list \<Rightarrow> GameResult \<Rightarrow> bool" where
  "end_reports L r = (L = [] \<and> results r = [] \<or>
     (\<exists>r'. L = [OnGameEnded r'] \<and> status r' = status r \<and> status r' \<noteq> NOT_READY \<and> results r' = results r))"

definition trace_ok :: "monitor_event list \<Rightarrow> GameMonitor2 \<Rightarrow> bool" where
  "trace_ok L m = (\<exists>a b. L = a @ b \<and> start_reports a m \<and> end_reports b (m_gameResult m))"

lemma trace_okI: "start_reports L m \<Longrightarrow> results (m_gameResult m) = [] \<Longrightarrow> trace_ok L m"
  by (auto simp: trace_ok_def end_reports_def)

lemma trace_ok_running: "status (m_gameResult m) = NOT_READY \<Longrightarrow> trace_ok L m \<Longrightarrow> start_reports L m"
  by (auto simp: trace_ok_def end_reports_def)

definition evolves :: "GameMonitor2 \<Rightarrow> GameMonitor2 \<Rightarrow> monitor_event list \<Rightarrow> bool" where
  "evolves m m' es =
     ((m_gameEventHandler m \<longrightarrow> (\<forall>L. trace_ok L m \<longrightarrow> trace_ok (L @ lifecycle es) m')) \<and>
      (status (m_gameResult m) \<noteq> NOT_READY \<longrightarrow>
         status (m_gameResult m') = status (m_gameResult m) \<and> results (m_gameResult m') = results (m_gameResult m) \<and>
         (\<forall>r. OnGameEnded r \<notin> set (lifecycle es))) \<and>
      (m_gameStarted m \<longrightarrow> m_gameStarted m' \<and> m_frozenPlayers m' = m_frozenPlayers m) \<and>
      (m_maxUnits m \<noteq> None \<longrightarrow> m_maxUnits m' \<noteq> None) \<and>
      m_gameEventHandler m' = m_gameEventHandler m \<and>
      m_gameStartsAfterTickCount m' = m_gameStartsAfterTickCount m \<and> m_drawGameTicks m' = m_drawGameTicks m)"

lemma evolves_refl [simp]: "evolves m m []"
  by (simp add: evolves_def)

lemma evolves_trans: "evolves m1 m2 es \<Longrightarrow> evolves m2 m3 es' \<Longrightarrow> evolves m1 m3 (es @ es')"
  unfolding evolves_def by (simp, metis append_assoc)

lemma evolves_quiet:
  assumes "evolves m m' es" and "lifecycle es' = lifecycle es"
  shows "evolves m m' es'"
  using assms by (simp add: evolves_def)

definition keeps :: "GameMonitor2 \<Rightarrow> GameMonitor2 \<Rightarrow> monitor_event list \<Rightarrow> bool" where
  "keeps m m' es = (gm_ok m' \<and> evolves m m' es)"

lemma keeps_refl: "gm_ok m \<Longrightarrow> keeps m m []"
  by (simp add: keeps_def)

lemma keeps_trans: "keeps m1 m2 es \<Longrightarrow> keeps m2 m3 es' \<Longrightarrow> keeps m1 m3 (es @ es')"
  by (auto simp: keeps_def intro: evolves_trans)

text \<open>Sequencing: a step after a step.\<close>

lemma keeps_then:
  assumes "safe U (keeps m) r" and "\<And>m' es. keeps m m' es \<Longrightarrow> safe U (keeps m') (f m')"
  shows "safe U (keeps m) (and_then r f)"
  unfolding safe_and_then
  by (rule safe_mono [OF assms(1)]) (auto intro: safe_mono [OF assms(2)] keeps_trans)

section \<open>Changes of the player table\<close>

lemma one_team_mono:
  "one_team m \<Longrightarrow> (\<And>k. is_active (m_players m') k \<Longrightarrow> is_active (m_players m) k) \<Longrightarrow>
   m_frozenPlayers m' = m_frozenPlayers m \<Longrightarrow> one_team m'"
  unfolding one_team_def fteam_def by metis

lemma verdict_mono:
  "verdict w m \<Longrightarrow> (\<And>k. is_active (m_players m') k \<Longrightarrow> is_active (m_players m) k) \<Longrightarrow>
   m_frozenPlayers m' = m_frozenPlayers m \<Longrightarrow> verdict w m'"
  unfolding verdict_def fteam_def by metis

lemma verdict_ok_mono:
  assumes "verdict_ok m" and "\<And>k. is_active (m_players m') k \<Longrightarrow> is_active (m_players m) k"
    and "m_frozenPlayers m' = m_frozenPlayers m" and "m_gameResult m' = m_gameResult m"
  shows "verdict_ok m'"
  using assms one_team_mono [OF _ assms(2,3)] verdict_mono [OF _ assms(2,3)]
  by (auto simp: verdict_ok_def split: Status.splits)

lemma base_ok_players:
  assumes "base_ok m" and "players_ok ps"
    and "m_gameStarted m \<Longrightarrow> fst ` set ps = fst ` set (m_players m)"
    and "\<And>k. m_gameStarted m \<Longrightarrow> is_active ps k \<Longrightarrow> is_active (m_players m) k"
  shows "base_ok (m\<lparr>m_players := ps\<rparr>)"
proof (cases "m_gameStarted m")
  case True
  then have "frozen_ok (m\<lparr>m_players := ps\<rparr>)"
    using assms by (simp add: base_ok_def frozen_ok_def)
  moreover have "verdict_ok (m\<lparr>m_players := ps\<rparr>)"
    by (rule verdict_ok_mono [of m]) (use assms True in \<open>simp_all add: base_ok_def\<close>)
  ultimately show ?thesis using assms(1,2) True by (simp add: base_ok_def)
qed (use assms in \<open>simp add: base_ok_def\<close>)

lemma evolves_players [simp]: "evolves m (m\<lparr>m_players := ps\<rparr>) []"
  by (simp add: evolves_def trace_ok_def start_reports_def)

lemma is_active_with_armies [simp]: "is_active (with_armies A T ps) k = is_active ps k"
  by (auto simp: is_active_def)

lemma updatePlayerArmies_keeps:
  assumes "base_ok m"
  shows "safe U (keeps m) (updatePlayerArmies m)"
proof -
  have ok: "players_ok (m_players m)" using assms by (simp add: base_ok_def)
  have "base_ok (m\<lparr>m_players := with_armies (army_of (m_players m)) (team_of (m_players m)) (m_players m)\<rparr>)"
    by (rule base_ok_players [OF assms]) (simp_all add: players_ok_with_armies ok)
  then show ?thesis
    by (simp add: updatePlayerArmies_eq ok keeps_def gm_ok_def numbered_armies)
qed

text \<open>A handler that changes the table and then renumbers the armies.\<close>

lemma renumber_keeps:
  assumes "base_ok m" and "players_ok ps"
    and "m_gameStarted m \<Longrightarrow> fst ` set ps = fst ` set (m_players m)"
    and "\<And>k. m_gameStarted m \<Longrightarrow> is_active ps k \<Longrightarrow> is_active (m_players m) k"
  shows "safe U (keeps m) (updatePlayerArmies (m\<lparr>m_players := ps\<rparr>))"
  using updatePlayerArmies_keeps [OF base_ok_players [OF assms]]
  by (rule safe_mono) (use evolves_trans [OF evolves_players] in \<open>auto simp: keeps_def\<close>)

lemma getMutualAllyNames_ok:
  assumes "players_ok (m_players m)" and "k \<in> fst ` set (m_players m)"
  shows "\<exists>names. getMutualAllyNames k (m_players m) m = Some names"
  using mutual_keys [OF assms]
  by (auto simp: getMutualAllyNames_def getMutualAllies_eq [OF assms] map_of_eq_None_iff)

lemma status_events_ok:
  assumes "players_ok (m_players m)" and "fst ` set rest \<subseteq> fst ` set (m_players m)"
  shows "\<exists>es. status_events rest m = (es, None) \<and> lifecycle es = []"
  using assms(2)
proof (induction rest)
  case (Cons kp rest)
  obtain k p where kp: "kp = (k, p)" by (cases kp)
  obtain names where "getMutualAllyNames k (m_players m) m = Some names"
    using getMutualAllyNames_ok [OF assms(1), of k] Cons.prems kp by (auto simp del: image_iff)
  then show ?case using Cons kp by auto
qed simp

lemma notifyPlayerStatuses_quiet:
  assumes "players_ok (m_players m)"
  shows "\<exists>es. notifyPlayerStatuses m = (m, es, None) \<and> lifecycle es = []"
proof -
  obtain es where "status_events (m_players m) m = (es, None)" and "lifecycle es = []"
    using status_events_ok [OF assms] by blast
  moreover have "lifecycle (clear_slot_events m) = []"
    by (auto simp: clear_slot_events_def filter_empty_conv)
  ultimately show ?thesis by (simp add: notifyPlayerStatuses_def ret_def)
qed

lemma notifyPlayerStatuses_keeps:
  assumes "gm_ok m"
  shows "safe U (keeps m) (notifyPlayerStatuses m)"
proof -
  obtain es where "notifyPlayerStatuses m = (m, es, None)" "lifecycle es = []"
    using notifyPlayerStatuses_quiet assms by (fastforce simp: gm_ok_def base_ok_def)
  then show ?thesis using assms by (auto simp: keeps_def intro: evolves_quiet [OF evolves_refl])
qed

section \<open>The end of the game\<close>

lemma getActivePlayers_eq: "players_ok (m_players m) \<Longrightarrow> getActivePlayers m = {k. is_active (m_players m) k}"
proof -
  assume ok: "players_ok (m_players m)"
  show ?thesis
  proof (intro set_eqI iffI)
    fix k assume "k \<in> getActivePlayers m"
    then obtain i q where q: "(i, q) \<in> set (m_players m)" "active q" "k = pd_dplayid q"
      by (auto simp: getActivePlayers_def active_def)
    then have "map_of (m_players m) i = Some q" using in_set_map_of [OF players_ok_std [OF ok]] by simp
    then show "k \<in> {k. is_active (m_players m) k}"
      using q players_okD(1) [OF ok] by (auto simp: is_active_def)
  next
    fix k assume "k \<in> {k. is_active (m_players m) k}"
    then obtain q where q: "map_of (m_players m) k = Some q" "active q" by (auto simp: is_active_def)
    then have "(k, q) \<in> set (m_players m)" by (simp add: map_of_SomeD)
    then show "k \<in> getActivePlayers m"
      using q players_okD(1) [OF ok q(1)] by (force simp: getActivePlayers_def active_def)
  qed
qed

lemma all_on_team_eq:
  "set ids \<subseteq> fst ` set ps \<Longrightarrow> all_on_team t ids ps = Inr (\<forall>i \<in> set ids. pd_teamNumber (entry ps i) = t)"
proof (induction ids)
  case (Cons i ids)
  then obtain p where "map_of ps i = Some p" by (auto simp: key_iff_map_of)
  then show ?case using Cons by simp
qed simp

lemma isPlayersAllAllied_eq:
  assumes "S \<subseteq> fst ` set ps" and "S \<noteq> {}"
  shows "\<exists>i \<in> S. isPlayersAllAllied S ps = Inr (if \<forall>j \<in> S. pd_teamNumber (entry ps j) = pd_teamNumber (entry ps i)
    then Some (pd_teamNumber (entry ps i)) else None)"
proof -
  have fin: "finite S" using assms(1) by (rule finite_subset) simp
  obtain i ids where l: "sorted_list_of_set S = i # ids"
    using assms(2) fin by (cases "sorted_list_of_set S") auto
  then have s: "set (i # ids) = S" using fin by (metis set_sorted_list_of_set)
  then obtain p where p: "map_of ps i = Some p" using assms(1) by (auto simp: key_iff_map_of)
  show ?thesis
  proof (rule bexI [of _ i])
    have "all_on_team t (i # ids) ps = Inr (\<forall>j \<in> S. pd_teamNumber (entry ps j) = t)" for t
      using all_on_team_eq [of "i # ids" ps t, unfolded s, OF assms(1)] .
    then show "isPlayersAllAllied S ps = Inr (if \<forall>j \<in> S. pd_teamNumber (entry ps j) = pd_teamNumber (entry ps i)
        then Some (pd_teamNumber (entry ps i)) else None)"
      unfolding isPlayersAllAllied_def l using p by (simp del: all_on_team.simps)
  qed (use s in auto)
qed

lemma active_keys_frozen:
  "frozen_ok m \<Longrightarrow> {k. is_active (m_players m) k} \<subseteq> fst ` set (m_frozenPlayers m)"
  unfolding frozen_ok_def by (auto simp: is_active_def dest!: map_of_SomeD intro: rev_image_eqI)

lemma active_keys_players: "{k. is_active ps k} \<subseteq> fst ` set ps"
  by (auto simp: is_active_def dest!: map_of_SomeD intro: rev_image_eqI)

lemma fteam_active: "frozen_ok m \<Longrightarrow> is_active (m_players m) k \<Longrightarrow> 2 \<le> fteam m k"
  unfolding frozen_ok_def fteam_def is_active_def by (metis entry_Some numberedD)

text \<open>When the monitor sees an end, and which.\<close>

lemma check_cases:
  assumes "base_ok m" and "m_gameStarted m"
  obtains (running) "checkEndGameCondition m = Inr None" "\<not> one_team m"
  | (draw) "checkEndGameCondition m = Inr (Some 0)" "verdict 0 m" "one_team m"
  | (win) w where "checkEndGameCondition m = Inr (Some w)" "2 \<le> w" "verdict w m" "one_team m"
  | (agreed) "checkEndGameCondition m = Inr (Some (- 1))" "\<not> one_team m"
proof -
  let ?S = "{k. is_active (m_players m) k}"
  have ok: "players_ok (m_players m)" and fr: "frozen_ok m" using assms by (auto simp: base_ok_def)
  note act = getActivePlayers_eq [OF ok]
  show thesis
  proof (cases "?S = {}")
    case True
    then have "checkEndGameCondition m = Inr (Some 0)" using assms(2) by (simp add: checkEndGameCondition_def act)
    then show thesis by (rule draw) (use True in \<open>auto simp: verdict_def one_team_def\<close>)
  next
    case False
    obtain i where i': "i \<in> ?S"
      and f: "isPlayersAllAllied ?S (m_frozenPlayers m) = Inr (if \<forall>j \<in> ?S. fteam m j = fteam m i then Some (fteam m i) else None)"
      using isPlayersAllAllied_eq [OF active_keys_frozen [OF fr] False] unfolding fteam_def by blast
    have i: "is_active (m_players m) i" using i' by simp
    obtain r where p: "isPlayersAllAllied ?S (m_players m) = Inr r"
      using isPlayersAllAllied_eq [OF active_keys_players False] by blast
    show thesis
    proof (cases "\<forall>j \<in> ?S. fteam m j = fteam m i")
      case True
      have "checkEndGameCondition m = Inr (Some (fteam m i))"
        unfolding checkEndGameCondition_def act Let_def f using True False assms(2) by (simp, blast)
      moreover have "verdict (fteam m i) m" and "one_team m"
        using True fteam_active [OF fr i] by (auto simp: verdict_def one_team_def)
      ultimately show thesis using win fteam_active [OF fr i] by blast
    next
      case not: False
      then have "\<not> one_team m" using i by (auto simp: one_team_def)
      moreover have "checkEndGameCondition m = Inr (Some (- 1)) \<or> checkEndGameCondition m = Inr None"
        unfolding checkEndGameCondition_def act Let_def f p if_not_P [OF not]
        using False assms(2) by (cases r) simp_all
      ultimately show thesis using running agreed by blast
    qed
  qed
qed

lemma check_not_started: "\<not> m_gameStarted m \<Longrightarrow> checkEndGameCondition m = Inr None"
  by (simp add: checkEndGameCondition_def)


lemma gm_ok_base: "gm_ok m \<Longrightarrow> base_ok m"
  by (simp add: gm_ok_def)

lemma gm_ok_players: "gm_ok m \<Longrightarrow> players_ok (m_players m)"
  by (simp add: gm_ok_def base_ok_def)

text \<open>Changes of the result and of the real names only.\<close>

lemma verdict_ok_names [simp]: "verdict_ok (m\<lparr>m_playerRealNames := n\<rparr>) = verdict_ok m"
  by (cases "status (m_gameResult m)") (simp_all add: verdict_ok_def verdict_def one_team_def fteam_def)

lemma gm_ok_names [simp]: "gm_ok (m\<lparr>m_playerRealNames := n\<rparr>) = gm_ok m"
  by (simp add: gm_ok_def base_ok_def frozen_ok_def)

lemma trace_ok_names [simp]: "trace_ok L (m\<lparr>m_playerRealNames := n\<rparr>) = trace_ok L m"
  by (simp add: trace_ok_def start_reports_def)

lemma verdict_result [simp]:
  "verdict w (m\<lparr>m_gameResult := r\<rparr>) = verdict w m" "one_team (m\<lparr>m_gameResult := r\<rparr>) = one_team m"
  by (simp_all add: verdict_def one_team_def fteam_def)

lemma gm_ok_result:
  assumes "gm_ok m" and "m_gameStarted m" and "verdict_ok (m\<lparr>m_gameResult := r\<rparr>)"
  shows "gm_ok (m\<lparr>m_gameResult := r\<rparr>)"
  using assms by (simp add: gm_ok_def base_ok_def frozen_ok_def)

lemma start_reports_result [simp]: "start_reports L (m\<lparr>m_gameResult := r\<rparr>) = start_reports L m"
  by (simp add: start_reports_def)

lemma trace_ok_end:
  assumes "trace_ok L m" and "status (m_gameResult m) = NOT_READY" and "end_reports c r"
  shows "trace_ok (L @ c) (m\<lparr>m_gameResult := r\<rparr>)"
  using trace_ok_running [OF assms(2,1)] assms(3) by (auto simp: trace_ok_def)

lemma set_result_keeps:
  assumes "gm_ok m" and "m_gameStarted m" and "status (m_gameResult m) = NOT_READY"
    and "status r \<noteq> NOT_READY" and "results r = fst (army_results w (m_frozenPlayers m) names)" and "verdict w m"
  shows "keeps m (m\<lparr>m_gameResult := r, m_playerRealNames := n\<rparr>) (if m_gameEventHandler m then [OnGameEnded r] else [])"
proof -
  have "verdict_ok (m\<lparr>m_gameResult := r\<rparr>)"
    using assms(4-6) by (cases "status r") (auto simp: verdict_ok_def)
  then show ?thesis
    using assms gm_ok_result [OF assms(1,2)] trace_ok_end [OF _ assms(3), of _ "[OnGameEnded r]"]
    by (simp add: keeps_def evolves_def end_reports_def)
qed

lemma latchEndGameResult_keeps:
  assumes "gm_ok m" and "m_gameStarted m" and "w < 0 \<or> verdict w m"
  shows "safe U (keeps m) (latchEndGameResult w m)"
proof (cases "status (m_gameResult m) \<noteq> NOT_READY")
  case True
  then show ?thesis using assms by (simp add: latchEndGameResult_def keeps_refl)
next
  case False
  then have nr: "status (m_gameResult m) = NOT_READY" by simp
  have empty: "results (m_gameResult m) = []"
    using assms(1,2) nr by (simp add: gm_ok_def base_ok_def verdict_ok_def)
  show ?thesis
  proof (cases "w < 0")
    case True
    let ?m = "m\<lparr>m_gameResult := \<lparr>status = VOID_RESULT, results = [], endGameTick = getMostRecentGameTick m\<rparr>\<rparr>"
    have "gm_ok ?m"
      using gm_ok_result [OF assms(1,2)] by (simp add: verdict_ok_def)
    moreover have "evolves m ?m []"
      using nr trace_ok_end [OF _ nr, of _ "[]"] by (simp add: evolves_def end_reports_def)
    ultimately show ?thesis using True nr by (simp add: latchEndGameResult_def keeps_def)
  next
    case False
    then have v: "verdict w m" using assms(3) by simp
    obtain rs names where a: "army_results w (m_frozenPlayers m) (m_playerRealNames m) = (rs, names)" by fastforce
    then show ?thesis
      using False nr set_result_keeps [OF assms(1,2) nr _ _ v, of _ "m_playerRealNames m" names]
      by (simp add: latchEndGameResult_def Let_def)
  qed
qed

lemma latchEndGameTick_keeps:
  assumes "gm_ok m" and "m_gameStarted m" and "one_team m"
  shows "keeps m (latchEndGameTick t m) []"
proof (cases "endGameTick (m_gameResult m) = 0")
  case True
  have "gm_ok (latchEndGameTick t m)"
    unfolding latchEndGameTick_def if_P [OF True]
    using assms True by (intro gm_ok_result)
      (auto simp: verdict_ok_def gm_ok_def base_ok_def split: Status.splits)
  moreover have "evolves m (latchEndGameTick t m) []"
    using True by (simp add: latchEndGameTick_def evolves_def trace_ok_def start_reports_def end_reports_def)
  ultimately show ?thesis by (simp add: keeps_def)
qed (simp add: latchEndGameTick_def keeps_refl assms(1))

text \<open>The three ways the code reacts to an end of the game.\<close>

lemma if_ended_keeps:
  assumes "gm_ok m"
    and "\<And>w. m_gameStarted m \<Longrightarrow> w < 0 \<or> verdict w m \<and> one_team m \<Longrightarrow> safe U (keeps m) (f w m)"
  shows "safe U (keeps m) (if_ended f m)"
proof (cases "m_gameStarted m")
  case True
  show ?thesis
    by (rule check_cases [OF gm_ok_base [OF assms(1)] True])
      (use assms True in \<open>simp_all add: if_ended_def keeps_refl\<close>)
qed (simp add: if_ended_def check_not_started keeps_refl assms(1))

lemma if_ended_latch: "gm_ok m \<Longrightarrow> safe U (keeps m) (if_ended latchEndGameResult m)"
  by (rule if_ended_keeps) (auto intro: latchEndGameResult_keeps)

section \<open>The handlers\<close>

lemma alliances_changed_keeps:
  assumes "base_ok m" and "players_ok ps" and "fst ` set ps = fst ` set (m_players m)"
    and "\<And>k. is_active ps k \<Longrightarrow> is_active (m_players m) k"
  shows "safe U (keeps m) (alliances_changed (m\<lparr>m_players := ps\<rparr>))"
  unfolding alliances_changed_def
proof (rule keeps_then)
  show "safe U (keeps m) (updatePlayerArmies (m\<lparr>m_players := ps\<rparr>))"
    using assms by (intro renumber_keeps) simp_all
  fix m1 es assume "keeps m m1 es"
  then have m1: "gm_ok m1" by (simp add: keeps_def)
  show "safe U (keeps m1) (and_then (if \<not> m_gameStarted m1 then notifyPlayerStatuses m1 else ret m1)
      (if_ended (\<lambda>w m. if w < 0 then latchEndGameResult w m else ret m)))"
  proof (rule keeps_then)
    show "safe U (keeps m1) (if \<not> m_gameStarted m1 then notifyPlayerStatuses m1 else ret m1)"
      using m1 by (simp add: notifyPlayerStatuses_keeps keeps_refl)
    fix m2 es assume "keeps m1 m2 es"
    then have "gm_ok m2" by (simp add: keeps_def)
    then show "safe U (keeps m2) (if_ended (\<lambda>w m. if w < 0 then latchEndGameResult w m else ret m) m2)"
      by (intro if_ended_keeps) (auto intro: latchEndGameResult_keeps keeps_refl)
  qed
qed

lemma players_ok_modify:
  assumes "players_ok ps"
    and "\<And>p. map_of ps k = Some p \<Longrightarrow> pd_dplayid (f p) = pd_dplayid p \<and> allies (f p) \<subseteq> fst ` set ps"
  shows "players_ok (modify k f ps)"
  unfolding modify_def
  by (rule players_ok_entries [OF assms(1)]) (use assms players_okD(3) [OF assms(1)] in auto)

text \<open>Changes of the table that make nobody active and leave the numbers of the active players alone.\<close>

definition quiet_change :: "players \<Rightarrow> players \<Rightarrow> bool" where
  "quiet_change ps ps' = (players_ok ps' \<and> fst ` set ps' = fst ` set ps \<and>
     (\<forall>k p'. map_of ps' k = Some p' \<and> active p' \<longrightarrow>
       (\<exists>p. map_of ps k = Some p \<and> active p \<and> armyNumber p' = armyNumber p \<and> pd_teamNumber p' = pd_teamNumber p)))"

lemma quiet_change_refl: "players_ok ps \<Longrightarrow> quiet_change ps ps"
  by (auto simp: quiet_change_def)

lemma quiet_change_trans: "quiet_change ps ps1 \<Longrightarrow> quiet_change ps1 ps2 \<Longrightarrow> quiet_change ps ps2"
  unfolding quiet_change_def by metis

lemma quiet_change_modify:
  assumes "players_ok ps" and "\<And>p. map_of ps k = Some p \<Longrightarrow> pd_dplayid (f p) = pd_dplayid p \<and>
      allies (f p) \<subseteq> fst ` set ps \<and> (active (f p) \<longrightarrow> active p) \<and>
      armyNumber (f p) = armyNumber p \<and> pd_teamNumber (f p) = pd_teamNumber p"
  shows "quiet_change ps (modify k f ps)"
  using players_ok_modify [OF assms(1), of k f] assms(2)
  by (auto simp: quiet_change_def split: if_splits simp del: image_iff)

lemma quiet_change_active: "quiet_change ps ps' \<Longrightarrow> is_active ps' k \<Longrightarrow> is_active ps k"
  unfolding quiet_change_def is_active_def by blast

lemma quiet_change_keeps:
  assumes "gm_ok m" and "quiet_change (m_players m) ps"
  shows "keeps m (m\<lparr>m_players := ps\<rparr>) []"
proof -
  have "base_ok (m\<lparr>m_players := ps\<rparr>)"
    by (rule base_ok_players [OF gm_ok_base [OF assms(1)]])
      (use assms(2) quiet_change_active [OF assms(2)] in \<open>simp_all add: quiet_change_def\<close>)
  moreover have "numbered ps"
  proof -
    have "1 \<le> armyNumber p' \<and> 2 \<le> pd_teamNumber p'" if mem: "(k, p') \<in> set ps" and act: "active p'" for k p'
    proof -
      have "map_of ps k = Some p'" using mem assms(2) by (simp add: quiet_change_def in_set_map_of)
      then obtain p where "map_of (m_players m) k = Some p" "active p" "armyNumber p' = armyNumber p"
        "pd_teamNumber p' = pd_teamNumber p"
        using assms(2) act unfolding quiet_change_def by blast
      then show ?thesis using assms(1) numberedD [of "m_players m" k p] by (simp add: gm_ok_def)
    qed
    then show ?thesis by (auto simp: numbered_def)
  qed
  ultimately show ?thesis by (simp add: keeps_def gm_ok_def)
qed

text \<open>After such a change, a step from the new state.\<close>

lemma keeps_after:
  assumes "keeps m m1 []" and "gm_ok m1 \<Longrightarrow> safe U (keeps m1) r"
  shows "safe U (keeps m) r"
proof -
  have "safe U (keeps m1) r" using assms by (simp add: keeps_def)
  then show ?thesis by (rule safe_mono) (use keeps_trans [OF assms(1)] in auto)
qed

lemma alliances_changed_quiet:
  "gm_ok m \<Longrightarrow> quiet_change (m_players m) ps \<Longrightarrow> safe U (keeps m) (alliances_changed (m\<lparr>m_players := ps\<rparr>))"
  by (rule alliances_changed_keeps [OF gm_ok_base])
    (simp_all add: quiet_change_def quiet_change_active [unfolded quiet_change_def])

subsection \<open>Players come and go\<close>

lemma base_ok_ids [simp]:
  "base_ok (m\<lparr>m_hostDplayId := h\<rparr>) = base_ok m" "base_ok (m\<lparr>m_localDplayId := h\<rparr>) = base_ok m"
  by (cases "status (m_gameResult m)";
      simp add: base_ok_def frozen_ok_def verdict_ok_def verdict_def one_team_def fteam_def)+

lemma evolves_ids [simp]:
  "evolves m (m'\<lparr>m_hostDplayId := h\<rparr>) es = evolves m m' es" "evolves m (m'\<lparr>m_localDplayId := h\<rparr>) es = evolves m m' es"
  by (simp_all add: evolves_def trace_ok_def start_reports_def)

lemma base_ok_not_started: "base_ok m \<Longrightarrow> \<not> m_gameStarted m \<Longrightarrow> players_ok ps \<Longrightarrow> base_ok (m\<lparr>m_players := ps\<rparr>)"
  by (rule base_ok_players) simp_all

lemma players_ok_register:
  assumes "players_ok ps" and "k \<noteq> 0"
  shows "players_ok (modify k (\<lambda>p. p\<lparr>pd_name := name, pd_dplayid := k\<rparr>) (operator_at k ps))"
proof (rule players_okI)
  let ?qs = "modify k (\<lambda>p. p\<lparr>pd_name := name, pd_dplayid := k\<rparr>) (operator_at k ps)"
  show "std_ok ?qs" using assms(1) by (auto simp: operator_at_def split: option.split)
  have keys: "fst ` set ?qs = insert k (fst ` set ps)"
    unfolding key_set_modify by (auto simp: operator_at_def key_iff_map_of split: option.split simp del: image_iff)
  fix i q assume q: "map_of ?qs i = Some q"
  show "pd_dplayid q = i \<and> i \<noteq> 0 \<and> allies q \<subseteq> fst ` set ?qs"
    unfolding keys
    using q assms players_okD [OF assms(1)]
    by (cases "map_of ps k") (fastforce simp: operator_at_def PlayerData_new_def split: if_splits)+
qed

lemma register_player_keeps:
  assumes "gm_ok m" and "\<not> m_gameStarted m" and "dplayId \<noteq> 0"
  shows "safe U (keeps m) (register_player dplayId name m)"
proof -
  let ?m = "m\<lparr>m_players := modify dplayId (\<lambda>p. p\<lparr>pd_name := name, pd_dplayid := dplayId\<rparr>) (operator_at dplayId (m_players m))\<rparr>"
  have ok: "base_ok ?m"
    using base_ok_not_started [OF gm_ok_base [OF assms(1)] assms(2)] players_ok_register gm_ok_players [OF assms(1)] assms(3)
    by blast
  have step: "safe U (keeps m) (updatePlayerArmies m')" if "base_ok m'" "evolves m m' []" for m'
    using updatePlayerArmies_keeps [OF that(1), of U] evolves_trans [OF that(2)]
    by (auto intro: safe_mono simp: keeps_def)
  have names: "m_hostPlayerName m \<noteq> []" "m_localPlayerName m \<noteq> []"
    using assms(1) by (simp_all add: gm_ok_def base_ok_def)
  show ?thesis
    unfolding register_player_def Let_def using ok names by (auto intro!: step)
qed

lemma remove_player_keeps:
  assumes "gm_ok m" and "\<not> m_gameStarted m"
  shows "safe (\<not> m_gameEventHandler m) (keeps m) (remove_player dplayId m)"
proof -
  let ?ps = "map (\<lambda>(k, p). (k, p\<lparr>allies := allies p - {dplayId}\<rparr>)) (std_erase dplayId (m_players m))"
  have ok: "players_ok (m_players m)" using assms(1) by (rule gm_ok_players)
  have "players_ok ?ps"
  proof (rule players_okI)
    fix k q assume "map_of ?ps k = Some q"
    then obtain p where p: "map_of (m_players m) k = Some p" and q: "q = p\<lparr>allies := allies p - {dplayId}\<rparr>"
      by (auto split: if_splits)
    have keys: "fst ` set ?ps = fst ` set (m_players m) - {dplayId}"
      unfolding key_set_entries by (auto simp: std_erase_def)
    show "pd_dplayid q = k \<and> k \<noteq> 0 \<and> allies q \<subseteq> fst ` set ?ps"
      unfolding keys q using players_okD [OF ok p] by auto
  qed (simp add: ok)
  then have "safe False (keeps m) (and_then (updatePlayerArmies (m\<lparr>m_players := ?ps\<rparr>)) notifyPlayerStatuses)"
    using assms by (intro keeps_then renumber_keeps gm_ok_base) (auto simp: keeps_def intro: notifyPlayerStatuses_keeps)
  then have "safe False (\<lambda>m' es. keeps m m' (OnClearSlot p # es))
      (and_then (updatePlayerArmies (m\<lparr>m_players := ?ps\<rparr>)) notifyPlayerStatuses)" for p
    by (rule safe_mono) (auto simp: keeps_def intro: evolves_quiet)
  then show ?thesis by (simp add: remove_player_def)
qed


lemma quiet_modify:
  assumes "gm_ok m" and "\<And>p. pd_dplayid (f p) = pd_dplayid p" "\<And>p. allies (f p) = allies p"
    "\<And>p. active (f p) \<Longrightarrow> active p" "\<And>p. armyNumber (f p) = armyNumber p" "\<And>p. pd_teamNumber (f p) = pd_teamNumber p"
  shows "quiet_change (m_players m) (modify k f (m_players m))"
  using assms(2-) players_okD(3) [OF gm_ok_players [OF assms(1)]]
  by (intro quiet_change_modify gm_ok_players assms(1)) auto

lemma settings_keeps:
  assumes "gm_ok m" and "n \<noteq> 0"
  shows "keeps m (m\<lparr>m_mapName := s, m_maxUnits := Some n\<rparr>) (if m_gameEventHandler m then [OnGameSettings a b c d] else [])"
proof -
  have "gm_ok (m\<lparr>m_mapName := s, m_maxUnits := Some n\<rparr>)"
    using assms by (cases "status (m_gameResult m)")
      (simp_all add: gm_ok_def base_ok_def frozen_ok_def verdict_ok_def verdict_def one_team_def fteam_def split: if_splits)
  moreover have "evolves m (m\<lparr>m_mapName := s, m_maxUnits := Some n\<rparr>) []"
    by (simp add: evolves_def trace_ok_def start_reports_def)
  ultimately show ?thesis by (auto simp: keeps_def intro: evolves_quiet)
qed

lemma onStatus_keeps:
  assumes "gm_ok m"
  shows "safe U (keeps m) (onStatus src mapName limit slot side watches byAI cheats m)"
proof (cases "map_of (m_players m) src = None \<or> m_gameStarted m")
  case True
  then show ?thesis using assms by (auto simp: onStatus_def keeps_refl split: option.split)
next
  case False
  then obtain p where p: "map_of (m_players m) src = Some p" and ns: "\<not> m_gameStarted m" by auto
  let ?ps1 = "modify src (\<lambda>p. p\<lparr>pd_isAI := byAI, slotNumber := slot\<rparr>) (m_players m)"
  let ?ps2 = "modify src (\<lambda>p. p\<lparr>pd_side := side, pd_isWatcher := watches\<rparr>) ?ps1"
  have q1: "quiet_change (m_players m) ?ps1"
    using assms by (rule quiet_modify) (simp_all add: active_def)
  have ok2: "players_ok ?ps2"
  proof (rule players_ok_modify)
    show ok1: "players_ok ?ps1" using q1 by (simp add: quiet_change_def)
    fix p assume "map_of ?ps1 src = Some p"
    from players_okD(3) [OF ok1 this]
    show "pd_dplayid (p\<lparr>pd_side := side, pd_isWatcher := watches\<rparr>) = pd_dplayid p \<and>
        allies (p\<lparr>pd_side := side, pd_isWatcher := watches\<rparr>) \<subseteq> fst ` set ?ps1" by simp
  qed
  have "safe U (keeps m) (and_then (updatePlayerArmies (m\<lparr>m_players := ?ps2\<rparr>)) notifyPlayerStatuses)"
    using assms ns ok2 by (intro keeps_then renumber_keeps gm_ok_base) (auto simp: keeps_def intro: notifyPlayerStatuses_keeps)
  moreover have "safe U (keeps m) (ret (m\<lparr>m_players := ?ps1\<rparr>))"
    using quiet_change_keeps [OF assms q1] by simp
  ultimately have first: "safe U (keeps m) (if c then and_then (updatePlayerArmies (m\<lparr>m_players := ?ps2\<rparr>)) notifyPlayerStatuses
      else ret (m\<lparr>m_players := ?ps1\<rparr>))" for c by simp
  have settings: "safe U (keeps m') (game_settings src mapName limit m')" if "keeps m m' es" for m' es
    using that settings_keeps [of m' limit]
    by (auto simp: game_settings_def keeps_def [of m] keeps_refl)
  have "safe U (keeps m) (and_then (if c then and_then (updatePlayerArmies (m\<lparr>m_players := ?ps2\<rparr>)) notifyPlayerStatuses
      else ret (m\<lparr>m_players := ?ps1\<rparr>)) (game_settings src mapName limit))" for c
    by (rule keeps_then [OF first settings])
  then show ?thesis
    using p ns by (simp add: onStatus_def Let_def del: safe_and_then split del: if_split cong: if_cong)
qed

subsection \<open>Alliances\<close>

lemma getPlayerDpidByName_key:
  assumes "players_ok (m_players m)" and "getPlayerDpidByName name m \<noteq> 0"
  shows "getPlayerDpidByName name m \<in> fst ` set (m_players m)"
proof -
  obtain k p where f: "List.find (\<lambda>(_, p). pd_name p = name) (m_players m) = Some (k, p)"
    using assms(2) by (cases "List.find (\<lambda>(_, p). pd_name p = name) (m_players m)") (auto simp: getPlayerDpidByName_def)
  then have "getPlayerDpidByName name m = pd_dplayid p" by (simp add: getPlayerDpidByName_def)
  moreover have "(k, p) \<in> set (m_players m)" using f by (metis find_Some_iff nth_mem)
  moreover from this have "pd_dplayid p = k" using assms(1) by (auto simp: players_ok_def)
  ultimately show ?thesis by (force simp: image_iff)
qed

lemma quiet_change_ally:
  assumes "players_ok ps" and "\<And>p. A p \<subseteq> insert k (allies p)" and "k \<in> fst ` set ps"
  shows "quiet_change ps (modify i (\<lambda>p. p\<lparr>allies := A p\<rparr>) ps)"
proof (rule quiet_change_modify [OF assms(1)])
  fix p assume "map_of ps i = Some p"
  then have "A p \<subseteq> fst ` set ps" using assms players_okD(3) [OF assms(1)] by blast
  then show "pd_dplayid (p\<lparr>allies := A p\<rparr>) = pd_dplayid p \<and> allies (p\<lparr>allies := A p\<rparr>) \<subseteq> fst ` set ps \<and>
      (active (p\<lparr>allies := A p\<rparr>) \<longrightarrow> active p) \<and> armyNumber (p\<lparr>allies := A p\<rparr>) = armyNumber p \<and>
      pd_teamNumber (p\<lparr>allies := A p\<rparr>) = pd_teamNumber p"
    by (simp add: active_def)
qed

lemma if_both: "P a \<Longrightarrow> P b \<Longrightarrow> P (if c then a else b)"
  by simp

lemma updateAlliances_quiet:
  assumes "gm_ok m" and "map_of (m_players m) src \<noteq> None"
  shows "\<exists>b ps. updateAlliances src chat m = (b, m\<lparr>m_players := ps\<rparr>) \<and> quiet_change (m_players m) ps"
proof -
  have ok: "players_ok (m_players m)" using assms(1) by (rule gm_ok_players)
  obtain p where p: "map_of (m_players m) src = Some p" using assms(2) by auto
  have s: "chat_sender src chat m = src" and at: "operator_at src (m_players m) = m_players m"
    using players_okD(2) [OF ok p] p by (simp_all add: chat_sender_def operator_at_def)
  have same: "quiet_change (m_players m) (m_players m)" by (rule quiet_change_refl [OF ok])
  show ?thesis
  proof (cases "\<exists>n. find_last_of 0x20 chat = Some n \<and> 1 + n < length chat \<and>
      getPlayerDpidByName (drop (1 + n) chat) m \<noteq> 0")
    case False
    then show ?thesis
      using s at by (intro exI [of _ False] exI [of _ "m_players m"]) (auto simp: updateAlliances_def Let_def same split: option.split)
  next
    case True
    then obtain n where n: "find_last_of 0x20 chat = Some n" "1 + n < length chat"
      "getPlayerDpidByName (drop (1 + n) chat) m \<noteq> 0" by blast
    note key = getPlayerDpidByName_key [OF ok n(3)]
    have "quiet_change (m_players m) (modify src (\<lambda>p. p\<lparr>allies := insert (getPlayerDpidByName (drop (1 + n) chat) m) (allies p)\<rparr>) (m_players m))"
      and "quiet_change (m_players m) (modify src (\<lambda>p. p\<lparr>allies := allies p - {getPlayerDpidByName (drop (1 + n) chat) m}\<rparr>) (m_players m))"
      by (rule quiet_change_ally [OF ok _ key]; blast)+
    moreover have "updateAlliances src chat m =
       (if getPlayerDpidByName (drop (1 + n) chat) m = src then (False, m\<lparr>m_players := m_players m\<rparr>)
        else if chat = makeAlliance (pd_name (entry (m_players m) src)) (drop (1 + n) chat)
        then (True, m\<lparr>m_players := modify src (\<lambda>p. p\<lparr>allies := insert (getPlayerDpidByName (drop (1 + n) chat) m) (allies p)\<rparr>) (m_players m)\<rparr>)
        else if chat = breakAlliance (pd_name (entry (m_players m) src)) (drop (1 + n) chat)
        then (True, m\<lparr>m_players := modify src (\<lambda>p. p\<lparr>allies := allies p - {getPlayerDpidByName (drop (1 + n) chat) m}\<rparr>) (m_players m)\<rparr>)
        else (False, m\<lparr>m_players := m_players m\<rparr>))"
      unfolding updateAlliances_def Let_def s at n(1) using n(2,3) players_okD(2) [OF ok p] by simp
    ultimately show ?thesis
      using same by (simp only:, intro if_both [of "\<lambda>r. \<exists>b ps. r = (b, m\<lparr>m_players := ps\<rparr>) \<and> quiet_change (m_players m) ps"]) blast+
  qed
qed

lemma onChat_keeps:
  assumes "gm_ok m"
  shows "safe U (keeps m) (onChat src chat m)"
proof (cases "map_of (m_players m) src = None")
  case False
  obtain b ps where u: "updateAlliances src chat m = (b, m\<lparr>m_players := ps\<rparr>)" and q: "quiet_change (m_players m) ps"
    using updateAlliances_quiet [OF assms False] by blast
  have "safe U (keeps m) (if b then alliances_changed (m\<lparr>m_players := ps\<rparr>) else ret (m\<lparr>m_players := ps\<rparr>))"
    using alliances_changed_quiet [OF assms q] quiet_change_keeps [OF assms q] by simp
  then have "safe U (\<lambda>m' es'. keeps m m' ((if m_gameEventHandler m then [monitor_event.OnChat chat c] else []) @ es'))
      (if b then alliances_changed (m\<lparr>m_players := ps\<rparr>) else ret (m\<lparr>m_players := ps\<rparr>))" for c
    by (rule safe_mono) (auto simp: keeps_def intro: evolves_quiet)
  then show ?thesis using False by (auto simp: onChat_def u)
qed (simp add: onChat_def keeps_refl assms)

lemma onAlliance_keeps:
  assumes "gm_ok m"
  shows "safe U (keeps m) (onAlliance subject object allied m)"
proof (cases "map_of (m_players m) subject = None \<or> map_of (m_players m) object = None")
  case True
  then show ?thesis using assms by (auto simp: onAlliance_def keeps_refl split: option.split)
next
  case False
  then obtain p q where pq: "map_of (m_players m) subject = Some p" "map_of (m_players m) object = Some q" by auto
  let ?ps = "modify subject (\<lambda>p. p\<lparr>allies := if allied then insert object (allies p) else allies p - {object}\<rparr>) (m_players m)"
  have key: "object \<in> fst ` set (m_players m)" unfolding key_iff_map_of using pq(2) by blast
  have "quiet_change (m_players m) ?ps"
  proof (rule quiet_change_ally [OF gm_ok_players [OF assms] _ key])
    show "(if allied then insert object (allies p) else allies p - {object}) \<subseteq> insert object (allies p)" for p
      by auto
  qed
  then have "safe U (keeps m) (alliances_changed (m\<lparr>m_players := ?ps\<rparr>))" and "keeps m (m\<lparr>m_players := ?ps\<rparr>) []"
    using alliances_changed_quiet [OF assms] quiet_change_keeps [OF assms] by blast+
  then show ?thesis unfolding onAlliance_def Let_def pq by simp
qed

lemma select_team_quiet:
  assumes "players_ok ps" and "set ks \<subseteq> fst ` set ps" and "from \<in> fst ` set ps"
  shows "\<exists>b' ps'. select_team from team ks b ps = (b', ps') \<and> quiet_change ps ps'"
  using assms
proof (induction ks arbitrary: b ps)
  case Nil
  then show ?case by (simp add: quiet_change_refl)
next
  case (Cons k ks)
  have k: "k \<in> fst ` set ps" using Cons.prems(2) by simp
  have ids: "pd_dplayid (entry ps k) = k" "pd_dplayid (entry ps from) = from"
    using entry_props(1) [OF Cons.prems(1)] k Cons.prems(3) by blast+
  have go: "\<exists>b' ps'. select_team from team ks b1 ps1 = (b', ps') \<and> quiet_change ps ps'" if "quiet_change ps ps1" for b1 ps1
  proof -
    have "players_ok ps1" "fst ` set ps1 = fst ` set ps" using that by (simp_all add: quiet_change_def)
    then have "\<exists>b' ps'. select_team from team ks b1 ps1 = (b', ps') \<and> quiet_change ps1 ps'"
      using Cons.IH [of ps1 b1] Cons.prems(2,3) by simp
    then show ?thesis using quiet_change_trans [OF that] by blast
  qed
  have two: "quiet_change ps (modify k (\<lambda>p. p\<lparr>allies := B p\<rparr>) (modify from (\<lambda>p. p\<lparr>allies := A p\<rparr>) ps))"
    if "\<And>p. A p \<subseteq> insert k (allies p)" "\<And>p. B p \<subseteq> insert from (allies p)" for A B
  proof -
    have 1: "quiet_change ps (modify from (\<lambda>p. p\<lparr>allies := A p\<rparr>) ps)"
      by (rule quiet_change_ally [OF Cons.prems(1) that(1) k])
    then have "players_ok (modify from (\<lambda>p. p\<lparr>allies := A p\<rparr>) ps)" by (simp add: quiet_change_def)
    from quiet_change_ally [OF this that(2), of k] Cons.prems(3) quiet_change_trans [OF 1] show ?thesis
      unfolding key_set_modify by blast
  qed
  have "quiet_change ps (modify k (\<lambda>p. p\<lparr>allies := insert from (allies p)\<rparr>)
      (modify from (\<lambda>p. p\<lparr>allies := insert k (allies p)\<rparr>) ps))"
    and "quiet_change ps (modify k (\<lambda>p. p\<lparr>allies := allies p - {from}\<rparr>)
      (modify from (\<lambda>p. p\<lparr>allies := allies p - {k}\<rparr>) ps))"
    by (rule two; blast)+
  then show ?case
    unfolding select_team.simps Let_def ids
    by (intro if_both [of "\<lambda>r. \<exists>b' ps'. r = (b', ps') \<and> quiet_change ps ps'"] go
        quiet_change_refl [OF Cons.prems(1)])
qed

lemma onTeamSelection_keeps:
  assumes "gm_ok m"
  shows "safe U (keeps m) (onTeamSelection from team m)"
proof (cases "map_of (m_players m) from = None")
  case False
  let ?ps = "modify from (\<lambda>p. p\<lparr>battleroomTeamSelection := team\<rparr>) (m_players m)"
  have 1: "quiet_change (m_players m) ?ps"
    using assms by (rule quiet_modify) (simp_all add: active_def)
  have "players_ok ?ps" using 1 by (simp add: quiet_change_def)
  moreover have "from \<in> fst ` set ?ps" using False unfolding key_set_modify by (simp add: key_iff_map_of)
  ultimately obtain b ps where s: "select_team from team (map fst ?ps) False ?ps = (b, ps)" and "quiet_change ?ps ps"
    using select_team_quiet [of ?ps "map fst ?ps" "from" team False] by auto
  then have "quiet_change (m_players m) ps" using quiet_change_trans [OF 1] by blast
  then have "safe U (keeps m) (alliances_changed (m\<lparr>m_players := ps\<rparr>))" and "keeps m (m\<lparr>m_players := ps\<rparr>) []"
    using alliances_changed_quiet [OF assms] quiet_change_keeps [OF assms] by blast+
  then show ?thesis
    unfolding onTeamSelection_def if_not_P [OF False] Let_def s by simp
qed (simp add: onTeamSelection_def keeps_refl assms)


subsection \<open>The course of the game\<close>

lemma onUnitDied_keeps:
  assumes "gm_ok m"
  shows "safe (m_maxUnits m = None) (keeps m) (onUnitDied src u m)"
proof (cases "m_maxUnits m")
  case (Some n)
  let ?m = "m\<lparr>m_players := modify src (\<lambda>p. p\<lparr>isDead := True\<rparr>) (m_players m)\<rparr>"
  have "keeps m ?m []"
    by (rule quiet_change_keeps [OF assms quiet_modify [OF assms]]) (simp_all add: active_def)
  moreover have "safe U (keeps m') (if_ended (\<lambda>w m. if w > 0 then ret (latchEndGameTick (getMostRecentGameTick m + m_drawGameTicks m) m)
      else latchEndGameResult w m) m')" if "gm_ok m'" for U m'
    using that by (rule if_ended_keeps) (auto intro: latchEndGameResult_keeps latchEndGameTick_keeps that)
  ultimately have "safe U (keeps m) (if_ended (\<lambda>w m. if w > 0 then ret (latchEndGameTick (getMostRecentGameTick m + m_drawGameTicks m) m)
      else latchEndGameResult w m) ?m)" for U
    by (rule keeps_after)
  moreover have "n \<noteq> 0" using assms Some by (simp add: gm_ok_def base_ok_def)
  ultimately show ?thesis using Some assms by (simp add: onUnitDied_def keeps_refl)
qed (simp add: onUnitDied_def keeps_refl assms)

lemma onRejectOther_keeps:
  assumes "gm_ok m"
  shows "safe (\<not> m_gameEventHandler m) (keeps m) (onRejectOther src rejected m)"
proof -
  let ?m = "m\<lparr>m_players := modify rejected (\<lambda>p. p\<lparr>isDead := True\<rparr>) (m_players m)\<rparr>"
  have "keeps m ?m []"
    by (rule quiet_change_keeps [OF assms quiet_modify [OF assms]]) (simp_all add: active_def)
  then have "safe U (keeps m) (if_ended latchEndGameResult ?m)" for U
    by (rule keeps_after) (rule if_ended_latch)
  then show ?thesis
    using assms remove_player_keeps by (simp add: onRejectOther_def keeps_refl)
qed

lemma onDplayDeletePlayer_keeps:
  "gm_ok m \<Longrightarrow> safe (\<not> m_gameEventHandler m) (keeps m) (onDplayDeletePlayer k m)"
  by (simp add: onDplayDeletePlayer_def keeps_refl remove_player_keeps if_ended_latch)

lemma launch_game_keeps:
  assumes "gm_ok m"
  shows "safe U (\<lambda>m' es. keeps m m' es \<and> m_gameLaunched m' \<and> m_players m' = m_players m) (launch_game tick m)"
proof (cases "m_gameLaunched m")
  case False
  have ns: "\<not> m_gameStarted m" and new: "m_gameResult m = GameResult_new"
    using assms False by (auto simp: gm_ok_def base_ok_def split: if_splits)
  have "gm_ok (m\<lparr>m_gameLaunched := True\<rparr>)" using assms ns by (simp add: gm_ok_def base_ok_def)
  moreover have "trace_ok (L @ [OnGameStarted tick False]) (m\<lparr>m_gameLaunched := True\<rparr>)" if "trace_ok L m" for L
  proof -
    have "start_reports L m" using that new by (intro trace_ok_running) (simp_all add: GameResult_new_def)
    then have "start_reports (L @ [OnGameStarted tick False]) (m\<lparr>m_gameLaunched := True\<rparr>)"
      using False ns by (auto simp: start_reports_def)
    then show ?thesis using new by (intro trace_okI) (simp_all add: GameResult_new_def)
  qed
  ultimately have "keeps m (m\<lparr>m_gameLaunched := True\<rparr>) (if m_gameEventHandler m then [OnGameStarted tick False] else [])"
    by (simp add: keeps_def evolves_def)
  then show ?thesis using False by (simp add: launch_game_def)
qed (simp add: launch_game_def keeps_refl assms)

lemma start_state_ok:
  assumes "gm_ok m" and "m_gameLaunched m" and "\<not> m_gameStarted m"
  shows "gm_ok (m\<lparr>m_frozenPlayers := m_players m, m_gameStarted := True\<rparr>)"
  using assms by (simp add: gm_ok_def base_ok_def frozen_ok_def verdict_ok_def GameResult_new_def)

lemma start_game_keeps:
  assumes "gm_ok m" and "m_gameLaunched m"
  shows "safe U (keeps m) (start_game tick m)"
proof (cases "\<not> m_gameStarted m \<and> tick > m_gameStartsAfterTickCount m")
  case True
  let ?m = "m\<lparr>m_frozenPlayers := m_players m, m_gameStarted := True\<rparr>"
  have ok: "gm_ok ?m" using assms True by (simp add: start_state_ok)
  obtain es where n: "notifyPlayerStatuses ?m = (?m, es, None)" and quiet: "lifecycle es = []"
    using notifyPlayerStatuses_quiet [OF gm_ok_players [OF ok]] by blast
  have new: "m_gameResult m = GameResult_new" using assms True by (simp add: gm_ok_def base_ok_def)
  have "trace_ok (L @ [OnGameStarted tick True]) ?m" if "trace_ok L m" for L
  proof -
    have "start_reports L m" using that new by (intro trace_ok_running) (simp_all add: GameResult_new_def)
    then have "start_reports (L @ [OnGameStarted tick True]) ?m"
      using True assms(2) by (auto simp: start_reports_def)
    then show ?thesis using new by (intro trace_okI) (simp_all add: GameResult_new_def)
  qed
  then have k: "keeps m ?m (es @ (if m_gameEventHandler m then [OnGameStarted tick True] else []))"
    using ok quiet new True by (simp add: keeps_def evolves_def GameResult_new_def)
  have "safe U (keeps ?m) (if_ended (\<lambda>w. latchEndGameResult (- 1)) ?m)"
    using ok by (rule if_ended_keeps) (auto intro: latchEndGameResult_keeps ok)
  then have "safe U (\<lambda>m' es'. keeps m m' ((es @ (if m_gameEventHandler m then [OnGameStarted tick True] else [])) @ es'))
      (if_ended (\<lambda>w. latchEndGameResult (- 1)) ?m)"
    by (rule safe_mono) (use keeps_trans [OF k] in auto)
  then show ?thesis using True n by (simp add: start_game_def)
next
  case False
  then show ?thesis unfolding start_game_def if_not_P [OF False] by (simp add: keeps_refl assms)
qed

lemma end_game_keeps: "gm_ok m \<Longrightarrow> safe U (keeps m) (end_game m)"
  by (simp add: end_game_def keeps_refl if_ended_latch)

lemma onGameTick_keeps:
  assumes "gm_ok m"
  shows "safe U (keeps m) (onGameTick src tick m)"
proof -
  have tick: "safe U (keeps m') (end_game (m'\<lparr>m_players := modify src
      (\<lambda>p. if sint (tick - pd_tick p) > 0 then p\<lparr>pd_tick := tick\<rparr> else p) (m_players m')\<rparr>))" if "gm_ok m'" for m'
  proof (rule keeps_after [OF quiet_change_keeps [OF that]])
    show "quiet_change (m_players m') (modify src
        (\<lambda>p. if sint (tick - pd_tick p) > 0 then p\<lparr>pd_tick := tick\<rparr> else p) (m_players m'))"
      by (rule quiet_modify [OF that]) (auto simp: active_def split: if_splits)
  qed (rule end_game_keeps)
  have start: "safe U (keeps m') (and_then (start_game tick m') (\<lambda>m'. end_game (m'\<lparr>m_players := modify src
      (\<lambda>p. if sint (tick - pd_tick p) > 0 then p\<lparr>pd_tick := tick\<rparr> else p) (m_players m')\<rparr>)))"
    if "gm_ok m'" "m_gameLaunched m'" for m'
    by (rule keeps_then [OF start_game_keeps [OF that] tick]) (simp add: keeps_def)
  have "safe U (\<lambda>m' es. safe U (\<lambda>m'' es'. keeps m m'' (es @ es')) (and_then (start_game tick m') (\<lambda>m'. end_game (m'\<lparr>m_players := modify src
      (\<lambda>p. if sint (tick - pd_tick p) > 0 then p\<lparr>pd_tick := tick\<rparr> else p) (m_players m')\<rparr>)))) (launch_game tick m)"
    using launch_game_keeps [OF assms, of U tick]
    by (rule safe_mono) (auto simp del: safe_and_then intro!: safe_mono [OF start] intro: evolves_trans simp: keeps_def)
  then show ?thesis using assms by (simp add: onGameTick_def keeps_refl)
qed

end
