(* ===== verification/Game_Run.thy ===== *)
theory Game_Run
  imports Game_Verdict
begin

text \<open>
  Runs of the game monitor: any sequence of calls by the packet parser, from a monitor whose player names are
  set. The properties of this theory are about every state such a run reaches.
\<close>

section \<open>Packets\<close>

text \<open>A sub-packet that has all the bytes the monitor reads, and a map name that ends.\<close>

definition complete :: "bytestring \<Rightarrow> bool" where
  "complete s = (case subPacketCode (s ! 0) of
     PLAYER_INFO_20 \<Rightarrow> 186 \<le> length s \<and> 0 \<in> set (take 139 (drop 1 s))
   | ALLY_23 \<Rightarrow> 14 \<le> length s
   | TEAM_24 \<Rightarrow> 6 \<le> length s
   | UNIT_KILLED_0C \<Rightarrow> 3 \<le> length s
   | REJECT_1B \<Rightarrow> 5 \<le> length s
   | UNIT_STAT_AND_MOVE_2C \<Rightarrow> 7 \<le> length s
   | _ \<Rightarrow> s \<noteq> [])"

fun call_complete :: "handler_call \<Rightarrow> bool" where
  "call_complete (OnTaPacket src other isLocal enc subpaks) = (\<forall>s \<in> set subpaks. complete s)"
| "call_complete _ = True"

text \<open>Undefined behaviour is possible only without a handler, before the unit limit is known, or on a truncated sub-packet.\<close>

definition risky :: "GameMonitor2 \<Rightarrow> bool" where
  "risky m = (\<not> m_gameEventHandler m \<or> m_maxUnits m = None)"

lemma complete_nonempty: "complete s \<Longrightarrow> s \<noteq> []"
  by (auto simp: complete_def split: SubPacketCode.splits)

lemma TPlayerInfo_parse_some:
  assumes "186 \<le> length s"
  shows "\<exists>p. TPlayerInfo_parse g s = Some p \<and> fill1 p = take 139 (drop 1 s)"
  using assms
  by (cases "length s = 192") (simp_all add: TPlayerInfo_parse_def codec_simps load_bytes_def load16_less load32_less)

lemma onPlayerInfo_keeps:
  assumes "gm_ok m" and "186 \<le> length s" and "0 \<in> set (take 139 (drop 1 s))"
  shows "safe U (keeps m) (onPlayerInfo g src s m)"
proof -
  obtain p where "TPlayerInfo_parse g s = Some p" "fill1 p = take 139 (drop 1 s)"
    using TPlayerInfo_parse_some [OF assms(2)] by blast
  moreover from this have "getMapName p \<noteq> None" using assms(3) by (simp add: getMapName_def)
  ultimately show ?thesis
    using assms(1) by (auto simp: onPlayerInfo_def keeps_refl onStatus_keeps)
qed

lemma load16_None: "load16 s i = None \<Longrightarrow> length s < i + 2"
  using load16_less [of i s] by (cases "i + 1 < length s") auto

lemma load32_None: "load32 s i = None \<Longrightarrow> length s < i + 4"
  using load32_less [of i s] by (cases "i + 3 < length s") auto

lemma TAlliance_parse_some: "14 \<le> length s \<Longrightarrow> TAlliance_parse s \<noteq> None"
  by (simp add: TAlliance_parse_def codec_simps load32_less)

lemma TTeam_parse_some: "6 \<le> length s \<Longrightarrow> TTeam_parse s \<noteq> None"
  by (simp add: TTeam_parse_def codec_simps load32_less)

lemma onPlayerInfo_keeps_complete:
  "gm_ok m \<Longrightarrow> subPacketCode (s ! 0) = PLAYER_INFO_20 \<Longrightarrow> safe (risky m \<or> \<not> complete s) (keeps m) (onPlayerInfo g src s m)"
proof (cases "complete s")
  case True
  assume "gm_ok m" and "subPacketCode (s ! 0) = PLAYER_INFO_20"
  then show ?thesis using True onPlayerInfo_keeps by (simp add: complete_def)
next
  case False
  assume "gm_ok m"
  then show ?thesis
    using False by (auto simp: onPlayerInfo_def keeps_refl onStatus_keeps split: option.split)
qed

lemma onSubPacket_keeps:
  assumes "gm_ok m"
  shows "safe (risky m \<or> \<not> complete s) (keeps m) (onSubPacket g src s m)"
proof (cases "s = []")
  case True
  then show ?thesis using assms by (simp add: onSubPacket_def byte_at_def subPacketCode_def keeps_refl)
next
  case False
  then have code: "map_option subPacketCode (byte_at s 0) = Some (subPacketCode (s ! 0))" by simp
  have died: "safe (risky m \<or> \<not> complete s) (keeps m) (onUnitDied src u m)" for u
    using onUnitDied_keeps [OF assms] by (rule safe_mono) (simp_all add: risky_def)
  have reject: "safe (risky m \<or> \<not> complete s) (keeps m) (onRejectOther src r m)" for r
    using onRejectOther_keeps [OF assms] by (rule safe_mono) (simp_all add: risky_def)
  show ?thesis
  proof (cases "subPacketCode (s ! 0)")
    case UNIT_KILLED_0C
    then show ?thesis using died load16_None [of s 1]
      by (auto simp: onSubPacket_def code complete_def split: option.split)
  next
    case REJECT_1B
    then show ?thesis using reject load32_None [of s 1]
      by (auto simp: onSubPacket_def code complete_def split: option.split)
  next
    case UNIT_STAT_AND_MOVE_2C
    then show ?thesis using onGameTick_keeps [OF assms] load32_None [of s 3]
      by (auto simp: onSubPacket_def code complete_def split: option.split)
  next
    case PLAYER_INFO_20
    then show ?thesis using onPlayerInfo_keeps_complete [OF assms] by (simp add: onSubPacket_def code)
  next
    case ALLY_23
    then show ?thesis using onAlliance_keeps [OF assms] TAlliance_parse_some [of s]
      by (auto simp: onSubPacket_def code complete_def split: option.split)
  next
    case TEAM_24
    then show ?thesis using onTeamSelection_keeps [OF assms] TTeam_parse_some [of s]
      by (auto simp: onSubPacket_def code complete_def split: option.split)
  next
    case CHAT_05
    then show ?thesis using onChat_keeps [OF assms] False
      by (auto simp: onSubPacket_def code cstring_at_def Suc_le_eq)
  qed (simp_all add: onSubPacket_def code keeps_refl assms)
qed

lemma risky_mono: "keeps m m' es \<Longrightarrow> risky m' \<Longrightarrow> risky m"
  by (auto simp: keeps_def evolves_def risky_def)

lemma onTaPacket_keeps:
  "gm_ok m \<Longrightarrow> safe (risky m \<or> (\<exists>s \<in> set subpaks. \<not> complete s)) (keeps m) (onTaPacket g src subpaks m)"
proof (induction subpaks arbitrary: m)
  case (Cons s subpaks)
  let ?U = "risky m \<or> (\<exists>s \<in> set (s # subpaks). \<not> complete s)"
  show ?case unfolding onTaPacket.simps
  proof (rule keeps_then)
    show "safe ?U (keeps m) (onSubPacket g src s m)"
      using onSubPacket_keeps [OF Cons.prems] by (rule safe_mono) auto
    fix m' es assume k: "keeps m m' es"
    then have "gm_ok m'" by (simp add: keeps_def)
    from Cons.IH [OF this] show "safe ?U (keeps m') (onTaPacket g src subpaks m')"
      by (rule safe_mono) (use risky_mono [OF k] in auto)
  qed
qed (simp add: keeps_refl)

lemma monitor_call_keeps:
  assumes "gm_ok m"
  shows "safe (risky m \<or> \<not> call_complete c) (keeps m) (monitor_call g c m)"
proof (cases c)
  case (OnDplayDeletePlayer k)
  then show ?thesis using onDplayDeletePlayer_keeps [OF assms, of k] by (auto intro: safe_mono simp: risky_def)
next
  case (OnTaPacket src other isLocal enc subpaks)
  then show ?thesis using onTaPacket_keeps [OF assms] by simp
qed (use assms in \<open>simp_all add: onDplaySuperEnumPlayerReply_def onDplayCreateOrForwardPlayer_def keeps_refl
  register_player_keeps word_neq_0_conv\<close>)

section \<open>Runs\<close>

text \<open>Any sequence of calls that return, with the events they emit.\<close>

inductive monitor_run :: "GameMonitor2 \<Rightarrow> GameMonitor2 \<Rightarrow> monitor_event list \<Rightarrow> bool" for m0 where
  start: "monitor_run m0 m0 []"
| call: "monitor_run m0 m es \<Longrightarrow> monitor_call g c m = (m', es', None) \<Longrightarrow> monitor_run m0 m' (es @ es')"

definition watching :: "bytestring \<Rightarrow> bytestring \<Rightarrow> u32 \<Rightarrow> u32 \<Rightarrow> GameMonitor2" where
  "watching hostName localName gameStartsAfter drawTicks =
     setLocalPlayerName localName (setHostPlayerName hostName (GameMonitor2_new True gameStartsAfter drawTicks))"

lemma monitor_run_keeps: "monitor_run m0 m es \<Longrightarrow> gm_ok m0 \<Longrightarrow> keeps m0 m es"
proof (induction rule: monitor_run.induct)
  case (call m es g c m' es')
  then have k: "keeps m0 m es" and "gm_ok m" by (simp_all add: keeps_def)
  from monitor_call_keeps [OF this(2), of c g] have "keeps m m' es'" using call.hyps(2) by simp
  then show ?case by (rule keeps_trans [OF k])
qed (rule keeps_refl)

lemma watching_ok: "h \<noteq> [] \<Longrightarrow> l \<noteq> [] \<Longrightarrow> gm_ok (watching h l a d)"
  by (simp add: watching_def setLocalPlayerName_def setHostPlayerName_def GameMonitor2_new_def gm_ok_def
      base_ok_def players_ok_def numbered_def)

lemma watching_trace: "trace_ok [] (watching h l a d)"
  by (simp add: watching_def setLocalPlayerName_def setHostPlayerName_def GameMonitor2_new_def trace_ok_def
      start_reports_def end_reports_def GameResult_new_def)

lemma watching_simps [simp]:
  "m_gameEventHandler (watching h l a d)" "m_gameStartsAfterTickCount (watching h l a d) = a"
  by (simp_all add: watching_def setLocalPlayerName_def setHostPlayerName_def GameMonitor2_new_def)


text \<open>The same as a function, for concrete runs.\<close>

fun run_calls :: "byte \<Rightarrow> handler_call list \<Rightarrow> GameMonitor2 \<Rightarrow> step" where
  "run_calls g [] m = ret m"
| "run_calls g (c # cs) m = and_then (monitor_call g c m) (run_calls g cs)"

lemma run_calls_run:
  assumes "monitor_run m0 m es" and "run_calls g cs m = (m', es', None)"
  shows "monitor_run m0 m' (es @ es')"
  using assms
proof (induction cs arbitrary: m es es')
  case (Cons c cs)
  obtain m1 es1 where 1: "monitor_call g c m = (m1, es1, None)"
    using Cons.prems(2) by (cases "monitor_call g c m"; cases "snd (snd (monitor_call g c m))") (auto simp: and_then.simps)
  then obtain es2 where 2: "run_calls g cs m1 = (m', es2, None)" "es' = es1 @ es2"
    using Cons.prems(2) by (cases "run_calls g cs m1") (auto simp: and_then.simps)
  show ?case using Cons.IH [OF monitor_run.call [OF Cons.prems(1) 1] 2(1)] 2(2) by simp
qed (simp add: ret_def)

text \<open>
  A game of two: the players join, the host announces map and unit limit, ticks arrive until the game counts
  as started, the commander of player 5 dies, and a later tick of player 3 ends the game.
\<close>

definition example_info :: bytestring where
  "example_info = (replicate 192 0)[0 := 0x20, 1 := 77, 166 := 250]"

definition example_start :: GameMonitor2 where
  "example_start = watching [72] [74] 100 10"

definition example_calls :: "handler_call list" where
  "example_calls =
     [OnDplaySuperEnumPlayerReply 3 [72] Null Null, OnDplayCreateOrForwardPlayer 8 5 [74] Null Null,
      OnTaPacket 3 0 True [] [example_info],
      OnTaPacket 3 0 True [] [[0x2c, 9, 0, 1, 0, 0, 0, 0, 0]],
      OnTaPacket 5 0 False [] [[0x2c, 9, 0, 200, 0, 0, 0, 0, 0]],
      OnTaPacket 5 0 False [] [[0x0c, 251, 0, 0, 0]]]"

definition example_end :: handler_call where
  "example_end = OnTaPacket 3 0 True [] [[0x2c, 9, 0, 215, 0, 0, 0, 0, 0]]"

definition example_monitor :: GameMonitor2 where
  "example_monitor = fst (run_calls 0 example_calls example_start)"

definition example_events :: "monitor_event list" where
  "example_events = fst (snd (run_calls 0 example_calls example_start))"

lemma example_returns: "snd (snd (run_calls 0 example_calls example_start)) = None"
  by code_simp

lemma example_run: "monitor_run (watching [72] [74] 100 10) example_monitor example_events"
proof -
  have "run_calls 0 example_calls example_start = (example_monitor, example_events, None)"
    using example_returns by (simp add: example_monitor_def example_events_def prod_eq_iff)
  from run_calls_run [OF monitor_run.start this] show ?thesis by (simp add: example_start_def)
qed

lemma example_state:
  "status (m_gameResult example_monitor) = NOT_READY" "endGameTick (m_gameResult example_monitor) = 210"
  "m_gameStarted example_monitor" "m_maxUnits example_monitor = Some 250" "call_complete example_end"
  by code_simp+

definition example_over :: GameMonitor2 where
  "example_over = fst (monitor_call 0 example_end example_monitor)"

definition example_report :: "monitor_event list" where
  "example_report = fst (snd (monitor_call 0 example_end example_monitor))"

lemma example_end_call: "monitor_call 0 example_end example_monitor = (example_over, example_report, None)"
proof -
  have "snd (snd (monitor_call 0 example_end example_monitor)) = None" by code_simp
  then show ?thesis by (simp add: example_over_def example_report_def prod_eq_iff)
qed

lemmas example_over_run = monitor_run.call [OF example_run example_end_call]

lemma example_over_state: "isGameOver example_over" "results (m_gameResult example_over) \<noteq> []"
  by code_simp+

section \<open>Properties\<close>



lemma monitor_course:
  assumes "h \<noteq> []" and "l \<noteq> []" and "monitor_run (watching h l a d) m es"
  shows "\<exists>starts ends. lifecycle es = starts @ ends \<and>
    (starts = [] \<and> \<not> m_gameStarted m \<or>
     (\<exists>t. starts = [OnGameStarted t False]) \<and> \<not> m_gameStarted m \<or>
     (\<exists>t t'. starts = [OnGameStarted t False, OnGameStarted t' True] \<and> a < t') \<and> m_gameStarted m) \<and>
    (ends = [] \<and> results (m_gameResult m) = [] \<or>
     (\<exists>r. ends = [OnGameEnded r] \<and> isGameOver m \<and> m_gameStarted m \<and>
        status r = status (m_gameResult m) \<and> results r = results (m_gameResult m)))"
proof -
  have k: "keeps (watching h l a d) m es"
    by (rule monitor_run_keeps [OF assms(3) watching_ok [OF assms(1,2)]])
  then have "trace_ok (lifecycle es) m" and a: "m_gameStartsAfterTickCount m = a"
    using watching_trace by (fastforce simp: keeps_def evolves_def)+
  then obtain s e where se: "lifecycle es = s @ e" "start_reports s m" "end_reports e (m_gameResult m)"
    by (auto simp: trace_ok_def)
  have ok: "m_gameStarted m \<longrightarrow> m_gameLaunched m" "\<not> m_gameStarted m \<longrightarrow> status (m_gameResult m) = NOT_READY"
    using k by (auto simp: keeps_def gm_ok_def base_ok_def GameResult_new_def)
  have "s = [] \<and> \<not> m_gameStarted m \<or> (\<exists>t. s = [OnGameStarted t False]) \<and> \<not> m_gameStarted m \<or>
      (\<exists>t t'. s = [OnGameStarted t False, OnGameStarted t' True] \<and> a < t') \<and> m_gameStarted m"
    using se(2) ok(1) a by (auto simp: start_reports_def split: if_splits)
  moreover have "e = [] \<and> results (m_gameResult m) = [] \<or>
      (\<exists>r. e = [OnGameEnded r] \<and> isGameOver m \<and> m_gameStarted m \<and>
        status r = status (m_gameResult m) \<and> results r = results (m_gameResult m))"
    using se(3) ok(2) by (auto simp: end_reports_def isGameOver_def)
  ultimately show ?thesis using se(1) by blast
qed

text \<open>
  C21. The monitor reports the course of a game in order, each stage once: the launch, then the start with frozen
  teams at a tick after the configured count, then the end, and the result it reports is the one it keeps. There is no
  end report for an agreed draw, which has no results.
\<close>

theorem monitor_lifecycle:
  assumes "h \<noteq> []" and "l \<noteq> []" and "monitor_run (watching h l a d) m es"
  shows "\<exists>starts ends. lifecycle es = starts @ ends \<and>
    (starts = [] \<and> \<not> m_gameStarted m \<or>
     (\<exists>t. starts = [OnGameStarted t False]) \<and> \<not> m_gameStarted m \<or>
     (\<exists>t t'. starts = [OnGameStarted t False, OnGameStarted t' True] \<and> a < t') \<and> m_gameStarted m) \<and>
    (ends = [] \<and> results (m_gameResult m) = [] \<or>
     (\<exists>r. ends = [OnGameEnded r] \<and> isGameOver m \<and> m_gameStarted m \<and>
        status r = status (m_gameResult m) \<and> results r = results (m_gameResult m)))"
  using assms by (rule monitor_course)

theorem monitor_lifecycle_witness:
  "\<exists>t t' r. lifecycle (example_events @ example_report) = [OnGameStarted t False, OnGameStarted t' True, OnGameEnded r] \<and> 100 < t'"
proof -
  have "m_gameStarted example_over" by code_simp
  with monitor_lifecycle [OF _ _ example_over_run] example_over_state(2) show ?thesis by fastforce
qed

text \<open>
  A result is final: once the game is over, no further call changes status or results, and no further end is reported.
\<close>

theorem result_is_final:
  assumes "h \<noteq> []" and "l \<noteq> []" and "monitor_run (watching h l a d) m es" and "isGameOver m"
    and "monitor_run m m' es'"
  shows "status (m_gameResult m') = status (m_gameResult m) \<and> results (m_gameResult m') = results (m_gameResult m) \<and>
    (\<forall>r. OnGameEnded r \<notin> set es')"
proof -
  have "gm_ok m"
    using monitor_run_keeps [OF assms(3) watching_ok [OF assms(1,2)]] by (simp add: keeps_def)
  from monitor_run_keeps [OF assms(5) this] assms(4) show ?thesis
    by (simp add: keeps_def evolves_def isGameOver_def)
qed

theorem result_is_final_witness:
  "results (m_gameResult (fst (monitor_call 0 example_end example_over))) = results (m_gameResult example_over)"
proof -
  have "snd (snd (monitor_call 0 example_end example_over)) = None" by code_simp
  then have "monitor_run example_over (fst (monitor_call 0 example_end example_over))
      ([] @ fst (snd (monitor_call 0 example_end example_over)))"
    by (intro monitor_run.call [OF monitor_run.start, of 0 example_end]) (simp add: prod_eq_iff)
  with result_is_final [OF _ _ example_over_run example_over_state(1)] show ?thesis by simp
qed

lemma army_results_eq:
  "map (\<lambda>r. (res_army r, res_slot r, res_alias r, res_team r, score r)) (fst (army_results w ps names)) =
   map (\<lambda>(k, p). (armyNumber p, slotNumber p, pd_name p, pd_teamNumber p, score_for w (pd_teamNumber p)))
     (filter (\<lambda>(k, p). counts p) ps)"
  by (induction ps arbitrary: names) (auto simp: army_result_def Let_def case_prod_beta)

text \<open>
  C4. A result is right. It lists exactly the armies of the players at the start of the game, and there is a
  winning team such that everybody who is still alive belongs to it and its armies have the score 1 and all
  others \<open>-1\<close>; or nobody is alive and every score is 0. In particular a surviving player never loses.
\<close>

theorem result_matches_survivors:
  assumes "h \<noteq> []" and "l \<noteq> []" and "monitor_run (watching h l a d) m es" and "results (m_gameResult m) \<noteq> []"
  shows "\<exists>w. map (\<lambda>r. (res_army r, res_slot r, res_alias r, res_team r, score r)) (results (m_gameResult m)) =
      map (\<lambda>(k, p). (armyNumber p, slotNumber p, pd_name p, pd_teamNumber p, score_for w (pd_teamNumber p)))
        (filter (\<lambda>(k, p). counts p) (m_frozenPlayers m)) \<and>
    (w = 0 \<and> (\<forall>k. \<not> is_active (m_players m) k) \<or>
     0 < w \<and> (\<forall>k. is_active (m_players m) k \<longrightarrow> pd_teamNumber (entry (m_frozenPlayers m) k) = w))"
proof -
  have ok: "gm_ok m"
    using monitor_run_keeps [OF assms(3) watching_ok [OF assms(1,2)]] by (simp add: keeps_def)
  then have "verdict_ok m"
    using assms(4) by (auto simp: gm_ok_def base_ok_def GameResult_new_def split: if_splits)
  then obtain w names where "results (m_gameResult m) = fst (army_results w (m_frozenPlayers m) names)" "verdict w m"
    using assms(4) by (auto simp: verdict_ok_def split: Status.splits)
  then show ?thesis
    using army_results_eq [of w "m_frozenPlayers m" names] by (auto simp: verdict_def fteam_def)
qed

theorem result_matches_survivors_witness:
  "\<exists>w. map (\<lambda>r. (res_alias r, score r)) (results (m_gameResult example_over)) =
      map (\<lambda>(k, p). (pd_name p, score_for w (pd_teamNumber p)))
        (filter (\<lambda>(k, p). counts p) (m_frozenPlayers example_over)) \<and>
    0 < w \<and> pd_teamNumber (entry (m_frozenPlayers example_over) 3) = w"
proof -
  have a: "is_active (m_players example_over) 3"
  proof -
    have "case map_of (m_players example_over) 3 of None \<Rightarrow> False | Some p \<Rightarrow> active p" by code_simp
    then show ?thesis by (auto simp: is_active_def split: option.splits)
  qed
  obtain w where w: "map (\<lambda>r. (res_army r, res_slot r, res_alias r, res_team r, score r)) (results (m_gameResult example_over)) =
      map (\<lambda>(k, p). (armyNumber p, slotNumber p, pd_name p, pd_teamNumber p, score_for w (pd_teamNumber p)))
        (filter (\<lambda>(k, p). counts p) (m_frozenPlayers example_over))"
    and v: "0 < w" "pd_teamNumber (entry (m_frozenPlayers example_over) 3) = w"
    using result_matches_survivors [OF _ _ example_over_run example_over_state(2)] a by blast
  from arg_cong [OF w, of "map (\<lambda>(ar, sl, al, te, sc). (al, sc))"]
  have "map (\<lambda>r. (res_alias r, score r)) (results (m_gameResult example_over)) =
      map (\<lambda>(k, p). (pd_name p, score_for w (pd_teamNumber p))) (filter (\<lambda>(k, p). counts p) (m_frozenPlayers example_over))"
    by (simp add: comp_def case_prod_beta)
  then show ?thesis using v by blast
qed


section \<open>The end comes\<close>

lemma fold_max_tick:
  "fold (\<lambda>(_, p) t. if pd_tick p > t then pd_tick p else t) ps t = foldr max (map (\<lambda>(_, p). pd_tick p) (rev ps)) t"
  by (induction ps arbitrary: t) (auto simp: max_def)

lemma most_recent_ge:
  assumes "(k, p) \<in> set (m_players m)"
  shows "pd_tick p \<le> getMostRecentGameTick m"
proof -
  have "x \<in> set xs \<Longrightarrow> x \<le> foldr max xs t" for x t :: u32 and xs
    by (induction xs) (auto simp: le_max_iff_disj)
  then show ?thesis
    using assms unfolding getMostRecentGameTick_def fold_max_tick by (force simp: image_iff)
qed

lemma most_recent_less:
  assumes "\<And>k p. (k, p) \<in> set (m_players m) \<Longrightarrow> pd_tick p < b" and "0 < b"
  shows "getMostRecentGameTick m < b"
proof -
  have bound: "foldr max xs t < b" if "\<forall>x \<in> set xs. x < b" "t < b" for t :: u32 and xs
    using that by (induction xs) auto
  show ?thesis
    unfolding getMostRecentGameTick_def fold_max_tick by (rule bound) (use assms in auto)
qed

lemma sint_diff_nonneg:
  fixes x y :: u32
  assumes "y \<le> x" and "x < 0x80000000"
  shows "0 \<le> sint (x - y)"
proof -
  have "uint (x - y) = uint x - uint y" using assms(1) by (simp add: uint_sub_lem word_le_def)
  moreover have "uint x < 2 ^ 31" using assms(2) by (simp add: word_less_def)
  ultimately have "uint (x - y) < 2 ^ 31" using uint_ge_0 [of y] by linarith
  then have "signed_take_bit 31 (uint (x - y)) = uint (x - y)"
    using uint_ge_0 [of "x - y"] by (intro signed_take_bit_int_eq_self) linarith+
  then have "sint (x - y) = uint (x - y)" by (simp add: sint_uint)
  then show ?thesis by simp
qed


lemma latch_over:
  assumes "status (m_gameResult m) = NOT_READY"
  shows "\<exists>m' es. latchEndGameResult w m = (m', es, None) \<and> isGameOver m' \<and>
    (0 \<le> w \<longrightarrow> es = (if m_gameEventHandler m then [OnGameEnded (m_gameResult m')] else []) \<and>
       (\<exists>names. results (m_gameResult m') = fst (army_results w (m_frozenPlayers m) names)))"
  using assms
  by (cases "army_results w (m_frozenPlayers m) (m_playerRealNames m)")
    (auto simp: latchEndGameResult_def isGameOver_def ret_def notify_handler_def Let_def intro: exI [of _ "m_playerRealNames m"])

text \<open>A game that is waiting for its end tick still has one team only.\<close>

lemma pending_latched:
  assumes "gm_ok m" and "status (m_gameResult m) = NOT_READY" and "one_team m" and "m_gameStarted m"
  shows "\<exists>m' es. if_ended latchEndGameResult m = (m', es, None) \<and> isGameOver m' \<and>
    (m_gameEventHandler m \<longrightarrow> es = [OnGameEnded (m_gameResult m')])"
proof -
  have go: "\<exists>m' es. latchEndGameResult w m = (m', es, None) \<and> isGameOver m' \<and>
    (m_gameEventHandler m \<longrightarrow> es = [OnGameEnded (m_gameResult m')])" if "0 \<le> w" for w
    using latch_over [OF assms(2), of w] that by auto
  from gm_ok_base [OF assms(1)] assms(4) show ?thesis
  proof (cases rule: check_cases)
    case (win w)
    then show ?thesis using go [of w] by (simp add: if_ended_def)
  qed (use assms(3) go [of 0] in \<open>simp_all add: if_ended_def\<close>)
qed

lemma updated_tick_ge:
  assumes "pd_tick p < 0x80000000" and "tick < 0x80000000"
  shows "tick \<le> pd_tick (if sint (tick - pd_tick p) > 0 then p\<lparr>pd_tick := tick\<rparr> else p)"
proof (cases "tick \<le> pd_tick p")
  case False
  then have "0 \<le> sint (tick - pd_tick p)" and "tick - pd_tick p \<noteq> 0" using sint_diff_nonneg [OF _ assms(2)] by auto
  then have "0 < sint (tick - pd_tick p)" by (metis order_le_less signed_0 signed_word_eqI)
  then show ?thesis by simp
qed auto

text \<open>
  C30. The end comes: when a single team is left and the end of the game has been put off, the next tick at or
  after the end tick, from any known player, ends the game and reports the result (as long as the ticks stay
  below \<open>2\<^sup>3\<^sup>1\<close>).
\<close>

theorem deferred_end_is_reported:
  assumes "h \<noteq> []" and "l \<noteq> []" and "monitor_run (watching h l a d) m es"
    and "status (m_gameResult m) = NOT_READY" and "endGameTick (m_gameResult m) \<noteq> 0"
    and "map_of (m_players m) src \<noteq> None" and "endGameTick (m_gameResult m) \<le> tick" and "tick < 0x80000000"
    and "\<forall>(k, p) \<in> set (m_players m). pd_tick p < 0x80000000"
  shows "\<exists>m' es'. onGameTick src tick m = (m', es', None) \<and> isGameOver m' \<and> es' = [OnGameEnded (m_gameResult m')]"
proof -
  let ?f = "\<lambda>p. if sint (tick - pd_tick p) > 0 then p\<lparr>pd_tick := tick\<rparr> else p"
  let ?m = "m\<lparr>m_players := modify src ?f (m_players m)\<rparr>"
  have k: "keeps (watching h l a d) m es"
    by (rule monitor_run_keeps [OF assms(3) watching_ok [OF assms(1,2)]])
  then have ok: "gm_ok m" and handler: "m_gameEventHandler m" by (simp_all add: keeps_def evolves_def)
  have started: "m_gameStarted m" and "m_gameLaunched m"
    using ok assms(5) by (auto simp: gm_ok_def base_ok_def GameResult_new_def split: if_splits)
  then have step: "onGameTick src tick m = end_game ?m"
    using assms(6) by (auto simp: onGameTick_def launch_game_def start_game_def ret_def and_then.simps split: prod.splits)
  have q: "quiet_change (m_players m) (modify src ?f (m_players m))"
    by (rule quiet_modify [OF ok]) (auto simp: active_def split: if_splits)
  have ok': "gm_ok ?m" using quiet_change_keeps [OF ok q] by (simp add: keeps_def)
  obtain p where p: "map_of (m_players m) src = Some p" using assms(6) by blast
  then have "pd_tick p < 0x80000000" using assms(9) by (auto dest: map_of_SomeD)
  then have "tick \<le> pd_tick (?f p)" by (rule updated_tick_ge [OF _ assms(8)])
  moreover have "(src, ?f p) \<in> set (m_players ?m)"
    using p map_of_SomeD [of "modify src ?f (m_players m)" src "?f p"] by simp
  ultimately have ge: "tick \<le> getMostRecentGameTick ?m"
    by (intro order_trans [OF _ most_recent_ge])
  have "getMostRecentGameTick ?m < 0x80000000"
    by (rule most_recent_less) (use assms(8,9) in \<open>auto simp: modify_def split: if_splits\<close>)
  then have due: "sint (getMostRecentGameTick ?m - endGameTick (m_gameResult m)) \<ge> 0"
    using sint_diff_nonneg order_trans [OF assms(7) ge] by blast
  have "one_team ?m"
    using ok' started assms(4,5) by (simp add: gm_ok_def base_ok_def verdict_ok_def)
  from pending_latched [OF ok' _ this] assms(4,5) started handler due show ?thesis
    unfolding step end_game_def by (auto simp: word_neq_0_conv)
qed

theorem deferred_end_is_reported_witness:
  "\<exists>m' es'. onGameTick 3 215 example_monitor = (m', es', None) \<and> isGameOver m' \<and> es' = [OnGameEnded (m_gameResult m')]"
proof (rule deferred_end_is_reported [OF _ _ example_run example_state(1)])
  show "map_of (m_players example_monitor) 3 \<noteq> None" by code_simp
  show "\<forall>(k, p) \<in> set (m_players example_monitor). pd_tick p < 0x80000000" by code_simp
qed (simp_all add: example_state(2))


lemma army_results_draw: "r \<in> set (fst (army_results 0 ps names)) \<Longrightarrow> score r = 0"
  by (induction ps arbitrary: names) (auto simp: army_result_def score_for_def Let_def case_prod_beta split: if_splits)

text \<open>
  If the commander of the last active player dies before the result is in - also while an end is put off in
  favour of that player's team - the game is over at once, a draw with score 0 for everybody.
\<close>

theorem last_death_is_a_draw:
  assumes "h \<noteq> []" and "l \<noteq> []" and "monitor_run (watching h l a d) m es"
    and "m_gameStarted m" and "status (m_gameResult m) = NOT_READY"
    and "m_maxUnits m = Some n" and "u mod n = 1" and "map_of (m_players m) src \<noteq> None"
    and "\<forall>k. is_active (m_players m) k \<longrightarrow> k = src"
  shows "\<exists>m'. onUnitDied src u m = (m', [OnGameEnded (m_gameResult m')], None) \<and> isGameOver m' \<and>
    (\<forall>r \<in> set (results (m_gameResult m')). score r = 0)"
proof -
  let ?m = "m\<lparr>m_players := modify src (\<lambda>p. p\<lparr>isDead := True\<rparr>) (m_players m)\<rparr>"
  have k: "keeps (watching h l a d) m es"
    by (rule monitor_run_keeps [OF assms(3) watching_ok [OF assms(1,2)]])
  then have ok: "gm_ok m" and handler: "m_gameEventHandler m" by (simp_all add: keeps_def evolves_def)
  have "keeps m ?m []"
    by (rule quiet_change_keeps [OF ok quiet_modify [OF ok]]) (simp_all add: active_def)
  then have ok': "gm_ok ?m" by (simp add: keeps_def)
  have "\<not> is_active (m_players ?m) k" for k
    using assms(9) by (auto simp: is_active_def active_def split: if_splits)
  then have "checkEndGameCondition ?m = Inr (Some 0)"
    using assms(4) getActivePlayers_eq [OF gm_ok_players [OF ok']] by (simp add: checkEndGameCondition_def)
  then have "onUnitDied src u m = latchEndGameResult 0 ?m"
    using assms(6-8) ok by (auto simp: onUnitDied_def if_ended_def gm_ok_def base_ok_def)
  then show ?thesis
    using latch_over [of ?m 0] assms(5) handler army_results_draw by fastforce
qed

theorem last_death_is_a_draw_witness:
  "\<exists>m'. onUnitDied 3 1 example_monitor = (m', [OnGameEnded (m_gameResult m')], None) \<and> isGameOver m' \<and>
    (\<forall>r \<in> set (results (m_gameResult m')). score r = 0)"
proof (rule last_death_is_a_draw [OF _ _ example_run example_state(3,1,4)])
  show "map_of (m_players example_monitor) 3 \<noteq> None" by code_simp
  have "\<forall>(k, p) \<in> set (m_players example_monitor). active p \<longrightarrow> k = 3" by code_simp
  then show "\<forall>k. is_active (m_players example_monitor) k \<longrightarrow> k = 3"
    by (auto simp: is_active_def dest!: map_of_SomeD)
qed simp_all

end
