(* ===== verification/Demo_Records.thy ===== *)
theory Demo_Records
  imports Packet_Crypt Sub_Packets Resumable
begin

text \<open>
  The format of recorded games (\<open>libs/tapacket/TADemoRecords.h\<close>, \<open>TADemoWriter.cpp\<close> and the record layer of
  \<open>TADemoParser.cpp\<close>): records with a 16-bit length, written by \<open>TADemoWriter\<close> and read by
  \<open>RecordReader\<close> from a file that may still be growing. A stream is the list of the bytes it holds.

  Proved here: the reader meets the contract \<open>resumable\<close>, so a record may arrive in any number of portions,
  and reading a written record gives its contents back.
\<close>

section \<open>Records\<close>

record Header =
  magic :: bytestring
  version :: u16
  numPlayers :: byte
  hd_maxUnits :: u16
  hd_mapName :: bytestring

record ExtraHeader =
  numSectors :: u32

record ExtraSector =
  sectorType :: u32
  sector_data :: bytestring

definition RECORDER_VERSION :: u32 where "RECORDER_VERSION = 3"
definition DATE :: u32 where "DATE = 4"
definition PLAYER_ADDR :: u32 where "PLAYER_ADDR = 6"

record DemoPlayer =
  dp_color :: byte
  dp_side :: byte
  dp_number :: byte
  dp_name :: bytestring

record PlayerStatusMessage =
  st_number :: byte
  statusMessage :: bytestring

record UnitData =
  unitData :: bytestring

record Packet =
  pk_time :: u16
  pk_sender :: byte
  pk_data :: bytestring

text \<open>\<open>Player::getSide\<close>; the side is a signed byte.\<close>

definition demo_getSide :: "DemoPlayer \<Rightarrow> bytestring" where
  "demo_getSide p = (if dp_side p = 1 then ascii ''CORE'' else if dp_side p = 2 then ascii ''WATCH'' else ascii ''ARM'')"

section \<open>Writing\<close>

text \<open>What \<open>writeRecord\<close> appends to the output.\<close>

definition writeRecord :: "bytestring \<Rightarrow> cpp_error + bytestring" where
  "writeRecord s =
     (let size16 = (2 + word_of_nat (length s) :: u16) in
      if unat size16 \<noteq> 2 + length s then Inl (RuntimeError ''Oversize record!'')
      else Inr (le16 size16 @ s))"

definition write_Header :: "Header \<Rightarrow> cpp_error + bytestring" where
  "write_Header h = writeRecord (magic h @ le16 (version h) @ [numPlayers h] @ le16 (hd_maxUnits h) @ take 64 (hd_mapName h))"

definition write_ExtraHeader :: "ExtraHeader \<Rightarrow> cpp_error + bytestring" where
  "write_ExtraHeader eh = writeRecord (le32 (numSectors eh))"

definition write_ExtraSector :: "ExtraSector \<Rightarrow> cpp_error + bytestring" where
  "write_ExtraSector es = writeRecord (le32 (sectorType es) @ sector_data es)"

definition write_Player :: "DemoPlayer \<Rightarrow> cpp_error + bytestring" where
  "write_Player p = writeRecord ([dp_color p] @ [dp_side p] @ [dp_number p] @ take 16 (dp_name p))"

definition write_PlayerStatusMessage :: "PlayerStatusMessage \<Rightarrow> cpp_error + bytestring" where
  "write_PlayerStatusMessage s = writeRecord ([st_number s] @ statusMessage s)"

definition write_UnitData :: "UnitData \<Rightarrow> cpp_error + bytestring" where
  "write_UnitData u = writeRecord (unitData u)"

definition write_Packet :: "Packet \<Rightarrow> cpp_error + bytestring" where
  "write_Packet p = writeRecord (le16 (pk_time p) @ [pk_sender p] @ pk_data p)"

section \<open>Reading records\<close>

datatype reader_state = READ_RECLEN1 | READ_RECLEN2 | READ_RECORD

record DemoReader =
  rr_state :: reader_state
  rr_length :: "byte \<times> byte"
  rr_buffer :: bytestring
  rr_bytesRead :: nat

definition DemoReader_new :: DemoReader where
  "DemoReader_new = \<lparr>rr_state = READ_RECLEN1, rr_length = (0, 0), rr_buffer = [], rr_bytesRead = 0\<rparr>"

text \<open>\<open>RecordReader::operator()\<close>, one definition for each of its three \<open>if\<close>s.\<close>

definition read_record :: "(DemoReader, bytestring) reader" where
  "read_record r s =
     (let n = min (length (rr_buffer r) - rr_bytesRead r) (length s);
          buf = take (rr_bytesRead r) (rr_buffer r) @ take n s @ drop (rr_bytesRead r + n) (rr_buffer r);
          r' = r\<lparr>rr_buffer := buf, rr_bytesRead := rr_bytesRead r + n\<rparr>
      in if rr_bytesRead r' < length buf then (r', drop n s, Inl DataNotReady)
         else (r'\<lparr>rr_buffer := [], rr_bytesRead := 0, rr_state := READ_RECLEN1\<rparr>, drop n s, Inr buf))"

definition read_reclen2 :: "(DemoReader, bytestring) reader" where
  "read_reclen2 r s = (case s of
     [] \<Rightarrow> (r, [], Inl DataNotReady)
   | b # s' \<Rightarrow>
       let r1 = r\<lparr>rr_length := (fst (rr_length r), b)\<rparr>;
           len = unat (mk16 (fst (rr_length r)) b)
       in if len > 32768 \<or> len \<le> 2 then (r1, s', Inl (RuntimeError ''unrealistic record length''))
          else read_record (r1\<lparr>rr_buffer := replicate (len - 2) 0, rr_bytesRead := 0, rr_state := READ_RECORD\<rparr>) s')"

definition read_reclen1 :: "(DemoReader, bytestring) reader" where
  "read_reclen1 r s = (case s of
     [] \<Rightarrow> (r, [], Inl DataNotReady)
   | b # s' \<Rightarrow> read_reclen2 (r\<lparr>rr_length := (b, snd (rr_length r)), rr_state := READ_RECLEN2\<rparr>) s')"

definition demo_record :: "(DemoReader, bytestring) reader" where
  "demo_record r = (case rr_state r of
     READ_RECLEN1 \<Rightarrow> read_reclen1 r | READ_RECLEN2 \<Rightarrow> read_reclen2 r | READ_RECORD \<Rightarrow> read_record r)"

section \<open>The reader keeps the contract\<close>

definition demo_reader_ok :: "DemoReader \<Rightarrow> bool" where
  "demo_reader_ok r = (rr_state r = READ_RECORD \<longrightarrow> rr_bytesRead r < length (rr_buffer r))"

lemma read_record_wait:
  assumes "rr_bytesRead r + length s < length (rr_buffer r)"
  shows "read_record r s =
    (r\<lparr>rr_buffer := take (rr_bytesRead r) (rr_buffer r) @ s @ drop (rr_bytesRead r + length s) (rr_buffer r),
       rr_bytesRead := rr_bytesRead r + length s\<rparr>, [], Inl DataNotReady)"
  using assms by (simp add: read_record_def Let_def)

lemma read_record_done:
  assumes "length (rr_buffer r) = rr_bytesRead r + length xs"
  shows "read_record r (xs @ ys) =
    (r\<lparr>rr_buffer := [], rr_bytesRead := 0, rr_state := READ_RECLEN1\<rparr>, ys, Inr (take (rr_bytesRead r) (rr_buffer r) @ xs))"
  using assms by (simp add: read_record_def Let_def)

text \<open>The contract for a stage: waiting consumes everything and continues, finishing is stable.\<close>

definition stage_step :: "(DemoReader, bytestring) reader \<Rightarrow> DemoReader \<Rightarrow> bytestring \<Rightarrow> bytestring \<Rightarrow> bool" where
  "stage_step f r s s2 = (case f r s of (r', rest, res) \<Rightarrow>
     demo_reader_ok r' \<and>
     (if res = Inl DataNotReady then rest = [] \<and> f r (s @ s2) = demo_record r' s2
      else f r (s @ s2) = (r', rest @ s2, res)))"

lemma stage_step_cong:
  "g r' t = f r s \<Longrightarrow> g r' (t @ s2) = f r (s @ s2) \<Longrightarrow> stage_step g r' t s2 \<Longrightarrow> stage_step f r s s2"
  unfolding stage_step_def by (simp cong: if_cong)

text \<open>The state of the reader after \<open>n\<close> more bytes of a record.\<close>

definition filled :: "DemoReader \<Rightarrow> bytestring \<Rightarrow> DemoReader" where
  "filled r s = r\<lparr>rr_buffer := take (rr_bytesRead r) (rr_buffer r) @ s @ drop (rr_bytesRead r + length s) (rr_buffer r),
     rr_bytesRead := rr_bytesRead r + length s\<rparr>"

lemma read_record_filled:
  assumes "rr_bytesRead r + length s < length (rr_buffer r)"
  shows "read_record r (s @ s2) = read_record (filled r s) s2"
proof -
  have len: "length (rr_buffer (filled r s)) = length (rr_buffer r)"
    and rd: "rr_bytesRead (filled r s) = rr_bytesRead r + length s"
    using assms by (simp_all add: filled_def)
  have tk: "take (rr_bytesRead (filled r s)) (rr_buffer (filled r s)) = take (rr_bytesRead r) (rr_buffer r) @ s"
    using assms by (simp add: filled_def)
  show ?thesis
  proof (cases "rr_bytesRead r + length (s @ s2) < length (rr_buffer r)")
    case True
    then have "rr_bytesRead (filled r s) + length s2 < length (rr_buffer (filled r s))"
      by (simp add: len rd)
    from read_record_wait [OF True] read_record_wait [OF this] assms show ?thesis
      unfolding tk by (simp add: filled_def add.commute add.left_commute)
  next
    case False
    define n where "n = length (rr_buffer r) - rr_bytesRead r - length s"
    have s2: "s2 = take n s2 @ drop n s2" by simp
    have l1: "length (rr_buffer r) = rr_bytesRead r + length (s @ take n s2)"
      and l2: "length (rr_buffer (filled r s)) = rr_bytesRead (filled r s) + length (take n s2)"
      using False assms by (simp_all add: n_def len rd)
    show ?thesis
      using read_record_done [OF l1, of "drop n s2"] read_record_done [OF l2, of "drop n s2", unfolded tk]
      by (simp add: filled_def)
  qed
qed

lemma read_record_stage:
  assumes "rr_state r = READ_RECORD" and "rr_bytesRead r < length (rr_buffer r)"
  shows "stage_step read_record r s s2"
proof (cases "rr_bytesRead r + length s < length (rr_buffer r)")
  case True
  have "read_record r s = (filled r s, [], Inl DataNotReady)"
    using read_record_wait [OF True] by (simp add: filled_def)
  moreover have "demo_reader_ok (filled r s)" and "rr_state (filled r s) = READ_RECORD"
    using True assms by (simp_all add: filled_def demo_reader_ok_def)
  ultimately show ?thesis
    using read_record_filled [OF True] by (simp add: stage_step_def demo_record_def)
next
  case False
  define n where "n = length (rr_buffer r) - rr_bytesRead r"
  have l: "length (rr_buffer r) = rr_bytesRead r + length (take n s)"
    using False assms by (simp add: n_def)
  from read_record_done [OF l, of "drop n s"] read_record_done [OF l, of "drop n s @ s2"]
  have "read_record r s = (r\<lparr>rr_buffer := [], rr_bytesRead := 0, rr_state := READ_RECLEN1\<rparr>, drop n s,
      Inr (take (rr_bytesRead r) (rr_buffer r) @ take n s))"
    and "read_record r (s @ s2) = (r\<lparr>rr_buffer := [], rr_bytesRead := 0, rr_state := READ_RECLEN1\<rparr>, drop n s @ s2,
      Inr (take (rr_bytesRead r) (rr_buffer r) @ take n s))"
    by (simp_all flip: append_assoc)
  then show ?thesis by (simp add: stage_step_def demo_reader_ok_def)
qed

lemma read_reclen2_stage:
  assumes "rr_state r = READ_RECLEN2"
  shows "stage_step read_reclen2 r s s2"
proof (cases s)
  case Nil
  then show ?thesis using assms by (simp add: stage_step_def read_reclen2_def demo_record_def demo_reader_ok_def)
next
  case (Cons b s')
  let ?len = "unat (mk16 (fst (rr_length r)) b)"
  let ?r = "r\<lparr>rr_length := (fst (rr_length r), b), rr_buffer := replicate (?len - 2) 0, rr_bytesRead := 0,
     rr_state := READ_RECORD\<rparr>"
  show ?thesis
  proof (cases "?len > 32768 \<or> ?len \<le> 2")
    case True
    then show ?thesis using assms Cons by (simp add: stage_step_def read_reclen2_def demo_reader_ok_def Let_def)
  next
    case False
    then have "stage_step read_record ?r s' s2" by (intro read_record_stage) simp_all
    then show ?thesis
      by (rule stage_step_cong [rotated 2]) (use False Cons in \<open>simp_all add: read_reclen2_def Let_def\<close>)
  qed
qed

lemma read_reclen1_stage:
  assumes "rr_state r = READ_RECLEN1"
  shows "stage_step read_reclen1 r s s2"
proof (cases s)
  case Nil
  then show ?thesis using assms by (simp add: stage_step_def read_reclen1_def demo_record_def demo_reader_ok_def)
next
  case (Cons b s')
  have "stage_step read_reclen2 (r\<lparr>rr_length := (b, snd (rr_length r)), rr_state := READ_RECLEN2\<rparr>) s' s2"
    by (rule read_reclen2_stage) simp
  then show ?thesis
    by (rule stage_step_cong [rotated 2]) (use Cons in \<open>simp_all add: read_reclen1_def\<close>)
qed

lemma demo_record_stage: "demo_reader_ok r \<Longrightarrow> stage_step demo_record r s s2"
  using read_reclen1_stage [of r s s2] read_reclen2_stage [of r s s2] read_record_stage [of r s s2]
  by (cases "rr_state r") (auto simp: demo_record_def demo_reader_ok_def intro: stage_step_cong)

interpretation demo: resumable demo_record demo_reader_ok
proof
  fix st s st' rest s2
  assume "demo_reader_ok st" and "demo_record st s = (st', rest, Inl DataNotReady)"
  then show "rest = [] \<and> demo_reader_ok st' \<and> demo_record st (s @ s2) = demo_record st' s2"
    using demo_record_stage [of st s s2] by (simp add: stage_step_def)
next
  fix st s st' rest r s2
  assume "demo_reader_ok st" and "demo_record st s = (st', rest, r)" and "r \<noteq> Inl DataNotReady"
  then show "demo_reader_ok st' \<and> demo_record st (s @ s2) = (st', rest @ s2, r)"
    using demo_record_stage [of st s s2] by (simp add: stage_step_def)
qed

section \<open>Reading what was written\<close>

text \<open>A reader between two records.\<close>

definition at_record :: "DemoReader \<Rightarrow> bool" where
  "at_record r = (rr_state r = READ_RECLEN1 \<and> rr_buffer r = [] \<and> rr_bytesRead r = 0)"

lemma at_record_ok: "at_record r \<Longrightarrow> demo_reader_ok r"
  by (simp add: at_record_def demo_reader_ok_def)

lemma unat_size16: "n \<le> 65533 \<Longrightarrow> unat (2 + word_of_nat n :: u16) = 2 + n"
proof -
  assume "n \<le> 65533"
  then have "unat (word_of_nat (2 + n) :: u16) = 2 + n"
    by (subst unsigned_of_nat) (simp add: take_bit_nat_eq_self)
  then show ?thesis by simp
qed

text \<open>The bytes of a record of acceptable size.\<close>

definition record_bytes :: "bytestring \<Rightarrow> bytestring" where
  "record_bytes s = le16 (2 + word_of_nat (length s)) @ s"

lemma writeRecord_Inr: "length s \<le> 65533 \<Longrightarrow> writeRecord s = Inr (record_bytes s)"
  by (simp add: writeRecord_def record_bytes_def Let_def unat_size16)

lemma demo_record_written:
  assumes "at_record r" and "s \<noteq> []" and "length s \<le> 32766"
  obtains r' where "at_record r'" and "\<And>rest. demo_record r (record_bytes s @ rest) = (r', rest, Inr s)"
proof -
  define w :: u16 where "w = 2 + word_of_nat (length s)"
  have u: "unat w = 2 + length s"
    using assms(3) by (simp add: w_def unat_size16)
  have sp: "le16 w = [ucast w, ucast (drop_bit 8 w)]" by (simp add: le16_def)
  let ?r = "r\<lparr>rr_length := (ucast w, ucast (drop_bit 8 w)), rr_state := READ_RECLEN1\<rparr>"
  let ?r1 = "r\<lparr>rr_length := (ucast w, ucast (drop_bit 8 w)), rr_buffer := replicate (length s) 0, rr_bytesRead := 0,
     rr_state := READ_RECORD\<rparr>"
  have "demo_record r (record_bytes s @ rest) = (?r, rest, Inr s)" for rest
  proof -
    have "demo_record r (record_bytes s @ rest) = read_record ?r1 (s @ rest)"
      using assms u by (simp add: demo_record_def at_record_def read_reclen1_def read_reclen2_def record_bytes_def sp
        Let_def flip: w_def)
    also have "\<dots> = (?r, rest, Inr s)"
      using assms(1) by (subst read_record_done) (simp_all add: at_record_def)
    finally show ?thesis .
  qed
  with that [of ?r] assms(1) show thesis by (simp add: at_record_def)
qed

end
