(* ===== verification/Demo_Parser.thy ===== *)
theory Demo_Parser
  imports Demo_Records
begin

text \<open>
  The parser of recorded games (\<open>DemoParser\<close>, \<open>libs/tapacket/TADemoParser.cpp\<close>). It reads a file that may
  still be growing: \<open>parse\<close> goes as far as the file reaches and a later call continues from the counters the
  parser keeps. The virtual \<open>handle\<close> functions of the subclasses appear as the trace \<open>p_events\<close> of their
  calls, in order; they are taken to return normally.

  Proved here: parsing a growing file in any number of calls, with or without a limit on the packets of a
  call, delivers what one call on the whole file delivers.
\<close>

section \<open>State\<close>

datatype demo_event =
    EvHeader Header
  | EvExtraSector ExtraSector nat nat
  | EvPlayer DemoPlayer nat nat
  | EvStatus PlayerStatusMessage u32 nat nat
  | EvUnitData UnitData
  | EvPacket Packet "bytestring list" u32

text \<open>
  The members \<open>doParse\<close> works on. The counters of the headers are bounded by header fields, that of the packets
  wraps at 32 bits.
\<close>

record DemoScan =
  p_reader :: DemoReader
  p_header :: "Header option"
  p_extraHeader :: "ExtraHeader option"
  p_numExtraSectorsRead :: nat
  p_numPlayersRead :: nat
  p_numPlayerStatusMessagesRead :: nat
  p_numUnitDataRead :: nat
  p_numPacketsRead :: u32
  p_events :: "demo_event list"

definition DemoScan_new :: DemoScan where
  "DemoScan_new = \<lparr>p_reader = DemoReader_new, p_header = None, p_extraHeader = None, p_numExtraSectorsRead = 0,
     p_numPlayersRead = 0, p_numPlayerStatusMessagesRead = 0, p_numUnitDataRead = 0, p_numPacketsRead = 0,
     p_events = []\<rparr>"

definition handle :: "demo_event \<Rightarrow> DemoScan \<Rightarrow> DemoScan" where
  "handle e p = p\<lparr>p_events := p_events p @ [e]\<rparr>"

section \<open>Decoding a record\<close>

text \<open>\<open>(char*)s.c_str()\<close> as a \<open>std::string\<close>: up to the first zero.\<close>

definition c_str :: "bytestring \<Rightarrow> bytestring" where
  "c_str s = takeWhile (\<lambda>b. b \<noteq> 0) s"

text \<open>\<open>isprint\<close> in the C locale; a negative \<open>char\<close> is outside its domain.\<close>

fun check_printable :: "bytestring \<Rightarrow> cpp_error + unit" where
  "check_printable [] = Inr ()"
| "check_printable (ch # s) =
     (if 0x80 \<le> ch then Inl Undefined
      else if ch < 0x20 \<or> ch = 0x7f then Inl (RuntimeError ''mapname contains unprintable characters'')
      else check_printable s)"

definition TA_DEMO_MAGIC :: bytestring where "TA_DEMO_MAGIC = ascii ''TA Demo'' @ [0]"

definition load_Header :: "bytestring \<Rightarrow> cpp_error + Header" where
  "load_Header data =
     opt_undef (load_bytes data 0 8) (\<lambda>mag.
       if mag \<noteq> TA_DEMO_MAGIC then Inl (RuntimeError ''invalid tad header'') else
     opt_undef (load16 data 8) (\<lambda>ver.
       if ver < 3 \<or> ver > 5 then Inl (RuntimeError ''unsupported tad version'') else
     opt_undef (byte_at data 10) (\<lambda>np.
       if np > 10 then Inl (RuntimeError ''unrealistic number of players'') else
     opt_undef (load16 data 11) (\<lambda>mu.
       if mu > 5000 then Inl (RuntimeError ''unrealistic max units'') else
     (case substr_from data 13 of
        Inl e \<Rightarrow> Inl e
      | Inr s \<Rightarrow>
          let name = c_str s in
          if length name > 64 then Inl (RuntimeError ''unrealistic size of mapname'')
          else case check_printable name of
                 Inl e \<Rightarrow> Inl e
               | Inr _ \<Rightarrow> Inr \<lparr>magic = mag, version = ver, numPlayers = np, hd_maxUnits = mu, hd_mapName = name\<rparr>)))))"

definition load_ExtraHeader :: "bytestring \<Rightarrow> cpp_error + ExtraHeader" where
  "load_ExtraHeader data = opt_undef (load32 data 0) (\<lambda>n.
     if n > 10000 then Inl (RuntimeError ''unrealistic number of extra sectors'') else Inr \<lparr>numSectors = n\<rparr>)"

definition load_ExtraSector :: "bytestring \<Rightarrow> cpp_error + ExtraSector" where
  "load_ExtraSector data = opt_undef (load32 data 0) (\<lambda>t.
     map_sum id (\<lambda>d. \<lparr>sectorType = t, sector_data = d\<rparr>) (substr_from data 4))"

definition load_Player :: "bytestring \<Rightarrow> cpp_error + DemoPlayer" where
  "load_Player data =
     opt_undef (byte_at data 0) (\<lambda>c. opt_undef (byte_at data 1) (\<lambda>s. opt_undef (byte_at data 2) (\<lambda>n.
       map_sum id (\<lambda>d. \<lparr>dp_color = c, dp_side = s, dp_number = n, dp_name = c_str d\<rparr>) (substr_from data 3))))"

text \<open>
  The comparison of the checksums (indeterminate for a short record) decides only whether a warning is logged.
\<close>

definition load_PlayerStatusMessage :: "bytestring \<Rightarrow> cpp_error + PlayerStatusMessage" where
  "load_PlayerStatusMessage data =
     opt_undef (byte_at data 0) (\<lambda>n.
       let (data', checks) = decrypt data 1 in
       opt_undef (decompress (drop 1 data') 3) (\<lambda>d.
         map_sum id (\<lambda>m. \<lparr>st_number = n, statusMessage = m\<rparr>) (substr_from d 7)))"

definition load_UnitData :: "bytestring \<Rightarrow> cpp_error + UnitData" where
  "load_UnitData data = Inr \<lparr>unitData = data\<rparr>"

definition load_Packet :: "bytestring \<Rightarrow> cpp_error + Packet" where
  "load_Packet data =
     opt_undef (load16 data 0) (\<lambda>t. opt_undef (byte_at data 2) (\<lambda>s.
       map_sum id (\<lambda>d. \<lparr>pk_time = t, pk_sender = s, pk_data = d\<rparr>) (substr_from data 3)))"

section \<open>The loops of doParse\<close>

text \<open>
  One record: it is read, and \<open>f\<close> decodes it, hands it to the subclass and counts it. A failure of \<open>f\<close> leaves the
  parser behind the record.
\<close>

type_synonym item = "bytestring \<Rightarrow> DemoScan \<Rightarrow> cpp_error + DemoScan"

definition read_item :: "item \<Rightarrow> (DemoScan, unit) reader" where
  "read_item f p s =
     (let (r, s', res) = demo_record (p_reader p) s; p' = p\<lparr>p_reader := r\<rparr> in
      case res of
        Inl e \<Rightarrow> (p', s', Inl e)
      | Inr data \<Rightarrow> (case f data p' of
          Inl e \<Rightarrow> (p', s', Inl e)
        | Inr p'' \<Rightarrow> (p''\<lparr>p_reader := r\<rparr>, s', Inr ())))"

text \<open>Every record that is returned took bytes, or finished a record begun before.\<close>

definition reading :: "DemoReader \<Rightarrow> nat" where
  "reading r = (if rr_state r = READ_RECORD then 1 else 0)"

lemma read_record_shortens:
  "read_record r s = (r', s', Inr d) \<Longrightarrow> length s' \<le> length s \<and> reading r' = 0"
  by (auto simp: read_record_def Let_def reading_def split: if_splits)

lemma read_reclen2_shortens:
  "read_reclen2 r s = (r', s', Inr d) \<Longrightarrow> length s' < length s \<and> reading r' = 0"
  by (auto simp: read_reclen2_def Let_def split: list.splits if_splits dest!: read_record_shortens)

lemma demo_record_shortens:
  "demo_record r s = (r', s', Inr d) \<Longrightarrow> 2 * length s' + reading r' < 2 * length s + reading r"
proof (cases "rr_state r")
  case READ_RECLEN1
  assume "demo_record r s = (r', s', Inr d)"
  then show ?thesis
    using READ_RECLEN1 by (auto simp: demo_record_def read_reclen1_def split: list.splits dest!: read_reclen2_shortens)
next
  case READ_RECLEN2
  assume "demo_record r s = (r', s', Inr d)"
  then show ?thesis
    using READ_RECLEN2 by (auto simp: demo_record_def dest!: read_reclen2_shortens)
next
  case READ_RECORD
  assume "demo_record r s = (r', s', Inr d)"
  then show ?thesis
    using READ_RECORD read_record_shortens [of r s r' s' d] by (simp add: demo_record_def reading_def)
qed

lemma read_item_shortens:
  assumes "read_item f p s = (p', s', Inr u)"
  shows "2 * length s' + reading (p_reader p') < 2 * length s + reading (p_reader p)"
  using assms demo_record_shortens
  by (auto simp: read_item_def Let_def split: prod.splits sum.splits)

text \<open>A \<open>for\<close> loop over records; \<open>n\<close> counts its rounds.\<close>

function items_loop :: "(nat \<Rightarrow> DemoScan \<Rightarrow> bool) \<Rightarrow> item \<Rightarrow> nat \<Rightarrow> (DemoScan, unit) reader" where
  "items_loop cont f n p s =
     (if cont n p
      then case read_item f p s of
             (p', s', Inl e) \<Rightarrow> (p', s', Inl e)
           | (p', s', Inr _) \<Rightarrow> items_loop cont f (n + 1) p' s'
      else (p, s, Inr ()))"
  by pat_completeness auto
termination
  by (relation "measure (\<lambda>(c, f, n, p, s). 2 * length s + reading (p_reader p))")
    (auto dest!: read_item_shortens [OF sym])

declare items_loop.simps [simp del]

section \<open>doParse and parse\<close>

definition header_item :: item where
  "header_item data p = try_then (load_Header data) (\<lambda>h. Inr ((handle (EvHeader h) p)\<lparr>p_header := Some h\<rparr>))"

definition extraHeader_item :: item where
  "extraHeader_item data p = try_then (load_ExtraHeader data) (\<lambda>eh. Inr (p\<lparr>p_extraHeader := Some eh\<rparr>))"

definition total_sectors :: "DemoScan \<Rightarrow> nat" where
  "total_sectors p = (case p_extraHeader p of None \<Rightarrow> 0 | Some eh \<Rightarrow> unat (numSectors eh))"

definition total_players :: "DemoScan \<Rightarrow> nat" where
  "total_players p = (case p_header p of None \<Rightarrow> 0 | Some h \<Rightarrow> unat (numPlayers h))"

definition demo_version :: "DemoScan \<Rightarrow> u16" where
  "demo_version p = (case p_header p of None \<Rightarrow> 0 | Some h \<Rightarrow> version h)"

definition sector_item :: item where
  "sector_item data p = try_then (load_ExtraSector data) (\<lambda>es.
     let es' = (if sectorType es = PLAYER_ADDR then es\<lparr>sector_data := map (\<lambda>c. c XOR 42) (sector_data es)\<rparr> else es)
     in Inr ((handle (EvExtraSector es' (p_numExtraSectorsRead p) (total_sectors p)) p)
               \<lparr>p_numExtraSectorsRead := p_numExtraSectorsRead p + 1\<rparr>))"

definition player_item :: item where
  "player_item data p = try_then (load_Player data) (\<lambda>pl.
     Inr ((handle (EvPlayer pl (p_numPlayersRead p) (total_players p)) p)
            \<lparr>p_numPlayersRead := p_numPlayersRead p + 1\<rparr>))"

definition status_item :: item where
  "status_item data p = try_then (load_PlayerStatusMessage data) (\<lambda>msg.
     opt_undef (load32 (statusMessage msg) 0x91) (\<lambda>dplayid.
       Inr ((handle (EvStatus msg dplayid (p_numPlayerStatusMessagesRead p) (total_players p)) p)
              \<lparr>p_numPlayerStatusMessagesRead := p_numPlayerStatusMessagesRead p + 1\<rparr>)))"

definition unitData_item :: item where
  "unitData_item data p = try_then (load_UnitData data) (\<lambda>ud.
     Inr ((handle (EvUnitData ud) p)\<lparr>p_numUnitDataRead := p_numUnitDataRead p + 1\<rparr>))"

definition packet_item :: item where
  "packet_item data p = try_then (load_Packet data) (\<lambda>pk.
     try_then (unsmartpak (pk_data pk) (demo_version p = 3) False) (\<lambda>unpacked.
       Inr ((handle (EvPacket pk unpacked (p_numPacketsRead p)) p)\<lparr>p_numPacketsRead := p_numPacketsRead p + 1\<rparr>)))"

definition parse_header :: "(DemoScan, unit) reader" where
  "parse_header p s = (if p_header p = None then read_item header_item p s else (p, s, Inr ()))"

definition parse_extraHeader :: "(DemoScan, unit) reader" where
  "parse_extraHeader p s =
     (if demo_version p > 4 \<and> p_extraHeader p = None then read_item extraHeader_item p s else (p, s, Inr ()))"

definition parse_sectors :: "(DemoScan, unit) reader" where
  "parse_sectors =
     items_loop (\<lambda>_ p. demo_version p > 4 \<and> p_numExtraSectorsRead p < total_sectors p) sector_item 0"

definition parse_players :: "(DemoScan, unit) reader" where
  "parse_players = items_loop (\<lambda>_ p. p_numPlayersRead p < total_players p) player_item 0"

definition parse_statuses :: "(DemoScan, unit) reader" where
  "parse_statuses = items_loop (\<lambda>_ p. p_numPlayerStatusMessagesRead p < total_players p) status_item 0"

definition parse_unitData :: "(DemoScan, unit) reader" where
  "parse_unitData = items_loop (\<lambda>_ p. p_numUnitDataRead p < 1) unitData_item 0"

definition parse_packets :: "nat \<Rightarrow> (DemoScan, unit) reader" where
  "parse_packets maxPaksToLoad = items_loop (\<lambda>n _. n < maxPaksToLoad \<or> maxPaksToLoad = 0) packet_item 0"

text \<open>Everything before the packets, and \<open>doParse\<close>.\<close>

definition parse_front :: "(DemoScan, unit) reader" where
  "parse_front = seq_read (seq_read (seq_read (seq_read (seq_read parse_header parse_extraHeader) parse_sectors)
     parse_players) parse_statuses) parse_unitData"

definition doParse :: "nat \<Rightarrow> (DemoScan, unit) reader" where
  "doParse maxPaksToLoad = seq_read parse_front (parse_packets maxPaksToLoad)"

text \<open>
  The parser; \<open>m_numTimesNewDataReceived\<close> is \<open>None\<close> while it is indeterminate: the constructor does not set it.
  \<open>parse\<close> on an open stream (the null stream returns \<open>false\<close> and changes nothing).
\<close>

record DemoParser =
  scan :: DemoScan
  m_numTimesNewDataReceived :: "int option"

definition DemoParser_new :: DemoParser where
  "DemoParser_new = \<lparr>scan = DemoScan_new, m_numTimesNewDataReceived = None\<rparr>"

definition demo_parse :: "nat \<Rightarrow> (DemoParser, bool) reader" where
  "demo_parse maxPaksToLoad p s =
     (let (sc, s', res) = doParse maxPaksToLoad (scan p) s; p' = p\<lparr>scan := sc\<rparr> in
      if res = Inr () \<or> res = Inl DataNotReady
      then if p_numPacketsRead (scan p) < p_numPacketsRead sc
           then (p'\<lparr>m_numTimesNewDataReceived := map_option (\<lambda>k. k + 1) (m_numTimesNewDataReceived p)\<rparr>, s', Inr True)
           else (p', s', Inr False)
      else (p', s', Inl (projl res)))"

section \<open>Reading goes on where it stopped\<close>

definition scan_ok :: "DemoScan \<Rightarrow> bool" where
  "scan_ok p = demo_reader_ok (p_reader p)"

text \<open>An item does not look at the record reader and never asks for more data.\<close>

definition item_ok :: "item \<Rightarrow> bool" where
  "item_ok f = (\<forall>d p. f d p \<noteq> Inl DataNotReady)"

lemma read_item_cases:
  assumes "read_item f p s = (p', rest, res)"
  obtains (unread) r e where "demo_record (p_reader p) s = (r, rest, Inl e)" and "p' = p\<lparr>p_reader := r\<rparr>" and "res = Inl e"
    | (bad) r d e where "demo_record (p_reader p) s = (r, rest, Inr d)" and "f d (p\<lparr>p_reader := r\<rparr>) = Inl e"
        and "p' = p\<lparr>p_reader := r\<rparr>" and "res = Inl e"
    | (good) r d p'' where "demo_record (p_reader p) s = (r, rest, Inr d)" and "f d (p\<lparr>p_reader := r\<rparr>) = Inr p''"
        and "p' = p''\<lparr>p_reader := r\<rparr>" and "res = Inr ()"
  using assms by (auto simp: read_item_def Let_def split: prod.splits sum.splits)

lemma read_item_wait:
  assumes "scan_ok p" and "item_ok f" and eq: "read_item f p s = (p', rest, Inl DataNotReady)"
  obtains r where "p' = p\<lparr>p_reader := r\<rparr>" and "rest = []" and "scan_ok p'"
    and "\<And>s2. read_item f p (s @ s2) = read_item f p' s2"
  using eq
proof (cases rule: read_item_cases)
  case (unread r e)
  then have "demo_reader_ok r \<and> rest = [] \<and> demo_record (p_reader p) (s @ s2) = demo_record r s2" for s2
    using demo.wait [of "p_reader p" s r rest s2] assms(1) by (simp add: scan_ok_def)
  then show thesis using unread by (intro that [of r]) (simp_all add: scan_ok_def read_item_def)
qed (use assms(2) in \<open>simp_all add: item_ok_def\<close>)

lemma read_item_settled:
  assumes "scan_ok p" and "read_item f p s = (p', rest, res)" and "res \<noteq> Inl DataNotReady"
  shows "scan_ok p'" and "read_item f p (s @ s2) = (p', rest @ s2, res)"
proof -
  from assms(2) have "scan_ok p' \<and> read_item f p (s @ s2) = (p', rest @ s2, res)"
  proof (cases rule: read_item_cases)
    case (unread r e)
    then show ?thesis
      using demo.settled [of "p_reader p" s r rest "Inl e" s2] assms(1,3) by (simp add: scan_ok_def read_item_def)
  next
    case (bad r d e)
    then show ?thesis
      using demo.settled [of "p_reader p" s r rest "Inr d" s2] assms(1) by (simp add: scan_ok_def read_item_def)
  next
    case (good r d p'')
    then show ?thesis
      using demo.settled [of "p_reader p" s r rest "Inr d" s2] assms(1) by (simp add: scan_ok_def read_item_def)
  qed
  then show "scan_ok p'" and "read_item f p (s @ s2) = (p', rest @ s2, res)" by simp_all
qed

text \<open>A predicate on the parser that does not depend on the record reader.\<close>

definition off_reader :: "(DemoScan \<Rightarrow> bool) \<Rightarrow> bool" where
  "off_reader c = (\<forall>p r. c (p\<lparr>p_reader := r\<rparr>) = c p)"

lemma items_loop_stop: "\<not> cont n p \<Longrightarrow> items_loop cont f n p s = (p, s, Inr ())"
  by (simp add: items_loop.simps)

lemma items_loop_round:
  "cont n p \<Longrightarrow> read_item f p s = (p', s', Inr u) \<Longrightarrow> items_loop cont f n p s = items_loop cont f (n + 1) p' s'"
  by (simp add: items_loop.simps [of cont f n p s])

lemma items_loop_fail:
  "cont n p \<Longrightarrow> read_item f p s = (p', s', Inl e) \<Longrightarrow> items_loop cont f n p s = (p', s', Inl e)"
  by (simp add: items_loop.simps [of cont f n p s])

lemma items_loop_cong: "cont n p \<Longrightarrow> cont n p' \<Longrightarrow> read_item f p s = read_item f p' s' \<Longrightarrow> items_loop cont f n p s = items_loop cont f n p' s'"
  by (simp add: items_loop.simps [of cont f n p s] items_loop.simps [of cont f n p' s'])

lemma items_loop_cases:
  assumes "items_loop cont f n p s = (p', rest, res)"
  obtains (stop) "\<not> cont n p" and "p' = p" and "rest = s" and "res = Inr ()"
    | (fail) e where "cont n p" and "read_item f p s = (p', rest, Inl e)" and "res = Inl e"
    | (round) p1 s1 where "cont n p" and "read_item f p s = (p1, s1, Inr ())"
        and "items_loop cont f (n + 1) p1 s1 = (p', rest, res)"
  using assms by (auto simp: items_loop.simps [of cont f n p s] split: if_splits prod.splits sum.splits)

lemma items_loop_rounds: "items_loop (\<lambda>_. c) f n p s = items_loop (\<lambda>_. c) f m p s"
proof (induction "2 * length s + reading (p_reader p)" arbitrary: n m p s rule: less_induct)
  case less
  obtain p' rest res where r: "read_item f p s = (p', rest, res)" by (metis prod_cases3)
  show ?case
  proof (cases "c p")
    case True
    show ?thesis
    proof (cases res)
      case (Inl e)
      with True r show ?thesis by (simp add: items_loop_fail)
    next
      case (Inr u)
      with r have "items_loop (\<lambda>_. c) f (n + 1) p' rest = items_loop (\<lambda>_. c) f (m + 1) p' rest"
        by (intro less read_item_shortens) simp
      with Inr True r show ?thesis by (simp add: items_loop_round)
    qed
  qed (simp add: items_loop_stop)
qed

text \<open>
  A loop that may stop early, and the loop that goes on as long as it can: what is left to do after the first is
  what the second would have done.
\<close>

lemma items_loop_advance:
  assumes "item_ok f" and "off_reader c" and "\<And>n p. cont n p \<Longrightarrow> c p"
    and "scan_ok p" and "items_loop cont f n p s = (p', rest, res)"
  shows "scan_ok p' \<and> (res = Inl DataNotReady \<longrightarrow> rest = []) \<and>
    items_loop (\<lambda>_. c) f m p (s @ s2) =
      (if res = Inr () \<or> res = Inl DataNotReady then items_loop (\<lambda>_. c) f m p' (rest @ s2) else (p', rest @ s2, res))"
  using assms(4,5)
proof (induction "2 * length s + reading (p_reader p)" arbitrary: n p s rule: less_induct)
  case less
  from less.prems(2) show ?case
  proof (cases rule: items_loop_cases)
    case (fail e)
    then have c: "c p" using assms(3) by blast
    show ?thesis
    proof (cases "e = DataNotReady")
      case True
      with fail obtain r where "p' = p\<lparr>p_reader := r\<rparr>" and "rest = []" and ok: "scan_ok p'"
        and eq: "\<And>s2. read_item f p (s @ s2) = read_item f p' s2"
        using read_item_wait [OF less.prems(1) assms(1)] by metis
      moreover from this(1) c assms(2) have "c p'" by (simp add: off_reader_def)
      ultimately show ?thesis
        using True fail c by (simp add: items_loop_cong [OF _ _ eq])
    next
      case False
      with fail read_item_settled [OF less.prems(1) fail(2)] c show ?thesis
        by (simp add: items_loop_fail)
    qed
  next
    case (round p1 s1)
    then have c: "c p" using assms(3) by blast
    note settled = read_item_settled [OF less.prems(1) round(2), simplified]
    have "items_loop (\<lambda>_. c) f m p (s @ s2) = items_loop (\<lambda>_. c) f m p1 (s1 @ s2)"
      using items_loop_round [of "\<lambda>_. c" m, OF c settled(2)] items_loop_rounds by metis
    with less.hyps [OF read_item_shortens [OF round(2)] settled(1) round(3)] show ?thesis by simp
  qed (simp add: less.prems)
qed

lemma items_loop_ends: "items_loop (\<lambda>_. c) f n p s = (p', rest, Inr u) \<Longrightarrow> \<not> c p'"
proof (induction "2 * length s + reading (p_reader p)" arbitrary: n p s rule: less_induct)
  case less
  from less.prems show ?case
    by (cases rule: items_loop_cases) (use less.hyps read_item_shortens in blast)+
qed

text \<open>A loop with a condition on the parser alone is a phase.\<close>

lemma items_loop_phase:
  assumes "item_ok f" and "off_reader c"
  shows "phase (items_loop (\<lambda>_. c) f 0) scan_ok (\<lambda>p. \<not> c p)"
proof
  fix p s p' rest s2
  assume "scan_ok p" and "items_loop (\<lambda>_. c) f 0 p s = (p', rest, Inl DataNotReady)"
  from items_loop_advance [OF assms _ this] show
    "rest = [] \<and> scan_ok p' \<and> items_loop (\<lambda>_. c) f 0 p (s @ s2) = items_loop (\<lambda>_. c) f 0 p' s2"
    by (metis append_Nil)
next
  fix p s p' rest r s2
  assume p: "scan_ok p" "items_loop (\<lambda>_. c) f 0 p s = (p', rest, r)" and r: "r \<noteq> Inl DataNotReady"
  from items_loop_advance [OF assms _ p, of 0 s2]
  show "scan_ok p' \<and> items_loop (\<lambda>_. c) f 0 p (s @ s2) = (p', rest @ s2, r)"
    using r items_loop_ends [of c f 0 p s p' rest] p(2) by (cases r) (auto simp: items_loop_stop)
next
  fix p s p' rest u
  assume "items_loop (\<lambda>_. c) f 0 p s = (p', rest, Inr u)"
  then show "\<not> c p'" by (rule items_loop_ends)
qed (simp add: items_loop_stop)

text \<open>A single record is a phase when its handling makes the condition false.\<close>

lemma read_once_loop:
  assumes "off_reader c" and "\<And>d p p'. f d p = Inr p' \<Longrightarrow> \<not> c p'"
  shows "(if c p then read_item f p s else (p, s, Inr ())) = items_loop (\<lambda>_. c) f 0 p s"
proof -
  obtain p' rest res where r: "read_item f p s = (p', rest, res)" by (metis prod_cases3)
  have "\<not> c p'" if "res = Inr u" for u
    using r [unfolded that] assms by (cases rule: read_item_cases) (auto simp: off_reader_def)
  then show ?thesis
    using r by (cases res) (simp_all add: items_loop_fail items_loop_round items_loop_stop)
qed

lemma items_loop_keeps:
  assumes "off_reader P" and "\<And>d p p'. P p \<Longrightarrow> f d p = Inr p' \<Longrightarrow> P p'"
  shows "keeps P (items_loop cont f n)"
proof -
  have "P p'" if "P p" and "items_loop cont f n p s = (p', rest, r)" for n p s p' rest r
    using that
  proof (induction "2 * length s + reading (p_reader p)" arbitrary: n p s rule: less_induct)
    case less
    have item: "P q'" if "read_item f p s = (q', t, x)" for q' t x
      using that
    proof (cases rule: read_item_cases)
      case (good r d p'')
      then show ?thesis using less.prems(1) assms unfolding off_reader_def by metis
    qed (use less.prems(1) assms(1) in \<open>simp_all add: off_reader_def\<close>)
    from less.prems(2) show ?case
      by (cases rule: items_loop_cases) (use less item read_item_shortens in blast)+
  qed
  then show ?thesis unfolding keeps_def by blast
qed

section \<open>The phases of doParse\<close>

lemmas item_defs = header_item_def extraHeader_item_def sector_item_def player_item_def status_item_def
  unitData_item_def packet_item_def

lemma check_printable_settled: "check_printable s \<noteq> Inl DataNotReady"
  by (induction s) auto

lemma substr_from_settled: "substr_from s n \<noteq> Inl DataNotReady"
  by (simp add: substr_from_def)

lemma load_settled:
  "load_Header d \<noteq> Inl DataNotReady" "load_ExtraHeader d \<noteq> Inl DataNotReady" "load_ExtraSector d \<noteq> Inl DataNotReady"
  "load_Player d \<noteq> Inl DataNotReady" "load_PlayerStatusMessage d \<noteq> Inl DataNotReady" "load_Packet d \<noteq> Inl DataNotReady"
  by (auto simp: load_Header_def load_ExtraHeader_def load_ExtraSector_def load_Player_def load_PlayerStatusMessage_def
      load_Packet_def opt_undef_def Let_def substr_from_def check_printable_settled split: option.splits sum.splits if_splits prod.splits)

lemma fast_loop_settled: "fast_loop k p \<noteq> Inl DataNotReady"
proof (induction k p rule: fast_loop.induct)
  case (1 k p)
  have "map_sum id g x = Inl DataNotReady \<longleftrightarrow> x = Inl DataNotReady" for g :: "bytestring list \<Rightarrow> bytestring list" and x
    by (cases x) auto
  with 1 show ?case
    by (subst fast_loop.simps) (simp add: Let_def split: option.splits)
qed

lemma unsmartpak_settled: "unsmartpak c t k \<noteq> Inl DataNotReady"
  by (simp add: unsmartpak_def fast_loop_settled split: option.splits)

lemma items_ok:
  "item_ok header_item" "item_ok extraHeader_item" "item_ok sector_item" "item_ok player_item" "item_ok status_item"
  "item_ok unitData_item" "item_ok packet_item"
  unfolding item_ok_def item_defs
  by (auto simp: try_then_def opt_undef_def Let_def load_UnitData_def load_settled unsmartpak_settled
      dest: load_settled [THEN notE] split: sum.splits option.splits)

abbreviation header_left :: "DemoScan \<Rightarrow> bool" where
  "header_left p \<equiv> p_header p = None"

abbreviation extraHeader_left :: "DemoScan \<Rightarrow> bool" where
  "extraHeader_left p \<equiv> demo_version p > 4 \<and> p_extraHeader p = None"

abbreviation sectors_left :: "DemoScan \<Rightarrow> bool" where
  "sectors_left p \<equiv> demo_version p > 4 \<and> p_numExtraSectorsRead p < total_sectors p"

abbreviation players_left :: "DemoScan \<Rightarrow> bool" where
  "players_left p \<equiv> p_numPlayersRead p < total_players p"

abbreviation statuses_left :: "DemoScan \<Rightarrow> bool" where
  "statuses_left p \<equiv> p_numPlayerStatusMessagesRead p < total_players p"

abbreviation unitData_left :: "DemoScan \<Rightarrow> bool" where
  "unitData_left p \<equiv> p_numUnitDataRead p < 1"

lemma off_readers:
  "off_reader header_left" "off_reader extraHeader_left" "off_reader sectors_left" "off_reader players_left"
  "off_reader statuses_left" "off_reader unitData_left"
  "off_reader (\<lambda>p. \<not> header_left p)" "off_reader (\<lambda>p. \<not> extraHeader_left p)" "off_reader (\<lambda>p. \<not> sectors_left p)"
  "off_reader (\<lambda>p. \<not> players_left p)" "off_reader (\<lambda>p. \<not> statuses_left p)" "off_reader (\<lambda>p. \<not> unitData_left p)"
  by (simp_all add: off_reader_def demo_version_def total_sectors_def total_players_def)

lemma parse_header_loop: "parse_header = items_loop (\<lambda>_. header_left) header_item 0"
  unfolding parse_header_def
  by (intro ext read_once_loop off_readers) (auto simp: header_item_def try_then_def split: sum.splits)

lemma parse_extraHeader_loop: "parse_extraHeader = items_loop (\<lambda>_. extraHeader_left) extraHeader_item 0"
  unfolding parse_extraHeader_def
  by (intro ext read_once_loop off_readers) (auto simp: extraHeader_item_def try_then_def split: sum.splits)

lemmas phase_loops = parse_header_loop parse_extraHeader_loop parse_sectors_def parse_players_def parse_statuses_def
  parse_unitData_def

lemma parse_phases:
  "phase parse_header scan_ok (\<lambda>p. \<not> header_left p)" "phase parse_extraHeader scan_ok (\<lambda>p. \<not> extraHeader_left p)"
  "phase parse_sectors scan_ok (\<lambda>p. \<not> sectors_left p)" "phase parse_players scan_ok (\<lambda>p. \<not> players_left p)"
  "phase parse_statuses scan_ok (\<lambda>p. \<not> statuses_left p)" "phase parse_unitData scan_ok (\<lambda>p. \<not> unitData_left p)"
  unfolding phase_loops by (intro items_loop_phase items_ok off_readers)+

text \<open>A finished phase stays finished when later records are handled.\<close>

lemmas item_effects = item_defs try_then_def opt_undef_def Let_def handle_def demo_version_def total_sectors_def
  total_players_def

lemma keeps_header: "keeps (\<lambda>p. \<not> header_left p) parse_extraHeader"
  unfolding phase_loops
  by (rule items_loop_keeps) (auto simp: off_reader_def item_effects split: sum.splits)

interpretation front2: two_phases parse_header parse_extraHeader scan_ok
  "\<lambda>p. \<not> header_left p" "\<lambda>p. \<not> extraHeader_left p"
  by (intro two_phases.intro two_phases_axioms.intro parse_phases keeps_header)

lemma keeps_extraHeader: "keeps (\<lambda>p. \<not> header_left p \<and> \<not> extraHeader_left p) parse_sectors"
  unfolding phase_loops
  by (rule items_loop_keeps) (auto simp: off_reader_def item_effects split: sum.splits option.splits)

interpretation front3: two_phases "seq_read parse_header parse_extraHeader" parse_sectors scan_ok
  "\<lambda>p. \<not> header_left p \<and> \<not> extraHeader_left p" "\<lambda>p. \<not> sectors_left p"
  by (intro two_phases.intro two_phases_axioms.intro front2.seq_phase parse_phases keeps_extraHeader)

lemma keeps_sectors: "keeps (\<lambda>p. (\<not> header_left p \<and> \<not> extraHeader_left p) \<and> \<not> sectors_left p) parse_players"
  unfolding phase_loops
  by (rule items_loop_keeps) (auto simp: off_reader_def item_effects split: sum.splits option.splits)

interpretation front4: two_phases "seq_read (seq_read parse_header parse_extraHeader) parse_sectors" parse_players scan_ok
  "\<lambda>p. (\<not> header_left p \<and> \<not> extraHeader_left p) \<and> \<not> sectors_left p" "\<lambda>p. \<not> players_left p"
  by (intro two_phases.intro two_phases_axioms.intro front3.seq_phase parse_phases keeps_sectors)

lemma keeps_players:
  "keeps (\<lambda>p. ((\<not> header_left p \<and> \<not> extraHeader_left p) \<and> \<not> sectors_left p) \<and> \<not> players_left p) parse_statuses"
  unfolding phase_loops
  by (rule items_loop_keeps) (auto simp: off_reader_def item_effects split: sum.splits option.splits)

interpretation front5: two_phases "seq_read (seq_read (seq_read parse_header parse_extraHeader) parse_sectors) parse_players"
  parse_statuses scan_ok
  "\<lambda>p. ((\<not> header_left p \<and> \<not> extraHeader_left p) \<and> \<not> sectors_left p) \<and> \<not> players_left p" "\<lambda>p. \<not> statuses_left p"
  by (intro two_phases.intro two_phases_axioms.intro front4.seq_phase parse_phases keeps_players)

lemma keeps_statuses:
  "keeps (\<lambda>p. (((\<not> header_left p \<and> \<not> extraHeader_left p) \<and> \<not> sectors_left p) \<and> \<not> players_left p) \<and> \<not> statuses_left p)
     parse_unitData"
  unfolding phase_loops
  by (rule items_loop_keeps) (auto simp: off_reader_def item_effects split: sum.splits option.splits)

interpretation front6: two_phases
  "seq_read (seq_read (seq_read (seq_read parse_header parse_extraHeader) parse_sectors) parse_players) parse_statuses"
  parse_unitData scan_ok
  "\<lambda>p. (((\<not> header_left p \<and> \<not> extraHeader_left p) \<and> \<not> sectors_left p) \<and> \<not> players_left p) \<and> \<not> statuses_left p"
  "\<lambda>p. \<not> unitData_left p"
  by (intro two_phases.intro two_phases_axioms.intro front5.seq_phase parse_phases keeps_statuses)

definition front_done :: "DemoScan \<Rightarrow> bool" where
  "front_done p = ((((\<not> header_left p \<and> \<not> extraHeader_left p) \<and> \<not> sectors_left p) \<and> \<not> players_left p) \<and> \<not> statuses_left p \<and>
     \<not> unitData_left p)"

lemma parse_front_phase: "phase parse_front scan_ok front_done"
  using front6.seq_phase unfolding parse_front_def front_done_def by (simp add: conj_assoc)

lemma keeps_front: "keeps front_done (parse_packets n)"
  unfolding parse_packets_def front_done_def
  by (rule items_loop_keeps) (auto simp: off_reader_def item_effects split: sum.splits option.splits)

lemma packets_loop: "parse_packets 0 = items_loop (\<lambda>_ _. True) packet_item 0"
  by (simp add: parse_packets_def)

lemma parse_packets_phase: "phase (parse_packets 0) scan_ok (\<lambda>_. False)"
  using items_loop_phase [of packet_item "\<lambda>_. True"] by (simp add: packets_loop items_ok off_reader_def)

interpretation demo_file: two_phases parse_front "parse_packets 0" scan_ok front_done "\<lambda>_. False"
  by (intro two_phases.intro two_phases_axioms.intro parse_front_phase parse_packets_phase keeps_front)

lemma packets_advance:
  assumes "scan_ok p" and "parse_packets n p s = (p', rest, res)"
  shows "scan_ok p' \<and> parse_packets 0 p (s @ s2) =
    (if res = Inr () \<or> res = Inl DataNotReady then parse_packets 0 p' (rest @ s2) else (p', rest @ s2, res))"
proof -
  have "off_reader (\<lambda>_. True)" by (simp add: off_reader_def)
  from items_loop_advance [OF items_ok(7) this _ assms(1) assms(2) [unfolded parse_packets_def], of 0 s2]
  show ?thesis unfolding packets_loop by blast
qed

text \<open>
  After a call with any limit, what is left to do is what one call without a limit would have done.
\<close>

lemma doParse_advance:
  assumes "scan_ok p" and "doParse n p s = (p', rest, res)"
  shows "scan_ok p' \<and> doParse 0 p (s @ s2) =
    (if res = Inr () \<or> res = Inl DataNotReady then doParse 0 p' (rest @ s2) else (p', rest @ s2, res))"
  using assms(2) unfolding doParse_def
proof (cases rule: seq_read_cases)
  case (stopped e)
  then have "seq_read parse_front (parse_packets 0) p s = (p', rest, Inl e)" by (simp add: seq_read_def)
  with stopped demo_file.first.two_portions [OF assms(1) stopped(1), of s2] demo_file.first.keeps_ok [OF assms(1) stopped(1)]
  show "scan_ok p' \<and> seq_read parse_front (parse_packets 0) p (s @ s2) =
    (if res = Inr () \<or> res = Inl DataNotReady then seq_read parse_front (parse_packets 0) p' (rest @ s2)
     else (p', rest @ s2, res))"
    using demo_file.first.wait [OF assms(1), of s p' rest s2] by (auto simp: seq_read_def)
next
  case (continued p1 s1)
  note front = demo_file.first.settled [OF assms(1) continued(1), of s2, simplified]
  from front have "seq_read parse_front (parse_packets 0) p (s @ s2) = parse_packets 0 p1 (s1 @ s2)"
    by (simp add: seq_read_def)
  moreover have "front_done p'"
    by (rule keepsD [OF keeps_front demo_file.first.finishes [OF assms(1) continued(1)] continued(2)])
  then have "seq_read parse_front (parse_packets 0) p' t = parse_packets 0 p' t" for t
    by (simp add: seq_read_def demo_file.first.skips)
  ultimately show "scan_ok p' \<and> seq_read parse_front (parse_packets 0) p (s @ s2) =
    (if res = Inr () \<or> res = Inl DataNotReady then seq_read parse_front (parse_packets 0) p' (rest @ s2)
     else (p', rest @ s2, res))"
    using packets_advance [OF _ continued(2), of s2] front by simp
qed

section \<open>Live parsing\<close>

text \<open>
  A file that grows: before each call of \<open>parse\<close> the recorder has appended a portion. Reading ends
  with the first exception.
\<close>

fun live_parse :: "DemoParser \<Rightarrow> bytestring \<Rightarrow> (nat \<times> bytestring) list \<Rightarrow> DemoParser \<times> (cpp_error + unit)" where
  "live_parse p unread [] = (p, Inr ())"
| "live_parse p unread ((maxPaksToLoad, portion) # steps) =
     (case demo_parse maxPaksToLoad p (unread @ portion) of
        (p', unread', Inl e) \<Rightarrow> (p', Inl e)
      | (p', unread', Inr _) \<Rightarrow> live_parse p' unread' steps)"

text \<open>What the subclass has been told, and the exception if there was one.\<close>

definition outcome :: "DemoParser \<times> (cpp_error + 'a) \<Rightarrow> demo_event list \<times> cpp_error option" where
  "outcome x = (p_events (scan (fst x)), case snd x of Inl e \<Rightarrow> Some e | Inr _ \<Rightarrow> None)"

definition scan_outcome :: "DemoScan \<times> bytestring \<times> (cpp_error + unit) \<Rightarrow> demo_event list \<times> cpp_error option" where
  "scan_outcome x = (case x of (p, _, r) \<Rightarrow>
     (p_events p, case r of Inl e \<Rightarrow> if e = DataNotReady then None else Some e | Inr _ \<Rightarrow> None))"

lemma demo_parse_outcome:
  "demo_parse n p s = (p', rest, r) \<Longrightarrow> outcome (p', r) = scan_outcome (doParse n (scan p) s)"
  by (auto simp: demo_parse_def outcome_def scan_outcome_def Let_def split: prod.splits if_splits sum.splits)

lemma demo_parse_soft:
  "doParse n (scan p) s = (sc, rest, res) \<Longrightarrow> res = Inr () \<or> res = Inl DataNotReady \<Longrightarrow>
     \<exists>p' b. demo_parse n p s = (p', rest, Inr b) \<and> scan p' = sc"
  by (cases "p_numPacketsRead (scan p) < p_numPacketsRead sc") (auto simp: demo_parse_def Let_def)

lemma demo_parse_hard:
  "doParse n (scan p) s = (sc, rest, Inl e) \<Longrightarrow> e \<noteq> DataNotReady \<Longrightarrow>
     demo_parse n p s = (p\<lparr>scan := sc\<rparr>, rest, Inl e)"
  by (simp add: demo_parse_def Let_def)

lemma live_parse_scan:
  "scan_ok (scan p) \<Longrightarrow> outcome (live_parse p unread (steps @ [(0, portion)])) =
     scan_outcome (doParse 0 (scan p) (unread @ concat (map snd steps) @ portion))"
proof (induction p unread steps rule: live_parse.induct)
  case (1 p unread)
  show ?case
    using demo_parse_outcome [of 0 p "unread @ portion"]
    by (auto simp: outcome_def split: prod.splits sum.splits)
next
  case (2 p unread n c steps)
  obtain sc rest res where d: "doParse n (scan p) (unread @ c) = (sc, rest, res)" by (metis prod_cases3)
  note adv = doParse_advance [OF "2.prems" d, of "concat (map snd steps) @ portion", simplified]
  show ?case
  proof (cases "res = Inr () \<or> res = Inl DataNotReady")
    case True
    then obtain p' b where "demo_parse n p (unread @ c) = (p', rest, Inr b)" and "scan p' = sc"
      using demo_parse_soft [OF d] by blast
    with "2.IH" [OF this(1)[symmetric] refl refl] adv True show ?thesis by simp
  next
    case False
    then obtain e where "demo_parse n p (unread @ c) = (p\<lparr>scan := sc\<rparr>, rest, Inl e)" and "res = Inl e"
      using d by (cases res) (auto dest: demo_parse_hard)
    with adv False show ?thesis by (simp add: outcome_def scan_outcome_def)
  qed
qed

text \<open>
  C16. A recording that is still being written: however the file grows between the calls of \<open>parse\<close>, and whatever
  limit on the number of packets each call has, once the file is complete and a call without a limit has been made,
  the subclass has been handed exactly what one call on the complete file hands over, in the same order and each
  record once, and an exception is raised in the one case exactly when it is raised in the other.
\<close>

theorem live_parse_complete:
  "outcome (live_parse DemoParser_new [] (steps @ [(0, portion)])) =
   (case demo_parse 0 DemoParser_new (concat (map snd steps) @ portion) of (p, rest, r) \<Rightarrow> outcome (p, r))"
proof -
  have "scan_ok (scan DemoParser_new)"
    by (simp add: scan_ok_def DemoParser_new_def DemoScan_new_def DemoReader_new_def demo_reader_ok_def)
  from live_parse_scan [OF this, of "[]" steps portion] show ?thesis
    using demo_parse_outcome [of 0 DemoParser_new "concat (map snd steps) @ portion"] by (auto split: prod.splits)
qed

end
