(* ===== verification/Demo_Client.thy ===== *)
theory Demo_Client
  imports Gpgnet_Client Demo_Parser Packet_Records
begin

text \<open>
  The recording client (\<open>libs/tareplay/TaDemoCompilerMessages.cpp\<close>, \<open>TaDemoCompilerClient.cpp\<close>): it watches the
  packets of the local game and reports players, game information, unit data and moves to the demo compiler, as
  GPGnet commands on a TCP connection. A \<open>QString\<close> is its UTF-8 encoding. Bytes written are the bytes handed to the
  socket, also while it is not connected (where Qt drops them).

  Qt's conversions are the parameter \<open>qtv\<close>: those of \<open>qt\<close>, the conversion of text to an unsigned number and
  the order in which a \<open>QSet\<close> is traversed.
\<close>

record qtv =
  qt_of :: qt
  bytesToUInt :: "bytestring \<Rightarrow> u32"
  qset_order :: "u32 list \<Rightarrow> u32 list"

section \<open>Messages\<close>

fun variant_toUInt :: "qtv \<Rightarrow> QVariant \<Rightarrow> u32" where
  "variant_toUInt q (UInt n) = n"
| "variant_toUInt q (ByteArray bs) = bytesToUInt q bs"

fun variant_toByteArray :: "qtv \<Rightarrow> QVariant \<Rightarrow> bytestring" where
  "variant_toByteArray q (UInt n) = uintToString (qt_of q) n"
| "variant_toByteArray q (ByteArray bs) = bs"

definition uint_at :: "qtv \<Rightarrow> qvariant_list \<Rightarrow> nat \<Rightarrow> cpp_error + u32" where
  "uint_at q cmd i = map_sum id (variant_toUInt q) (arg_at cmd i)"

definition bytes_arg :: "qtv \<Rightarrow> qvariant_list \<Rightarrow> nat \<Rightarrow> cpp_error + bytestring" where
  "bytes_arg q cmd i = map_sum id (variant_toByteArray q) (arg_at cmd i)"

record HelloMessage =
  hello_gameId :: u32
  hello_playerDpId :: u32
  hello_playerName :: bytestring

definition HelloMessage_new :: HelloMessage where
  "HelloMessage_new = \<lparr>hello_gameId = 0, hello_playerDpId = 0, hello_playerName = ascii ''127.0.0.1''\<rparr>"

definition HelloMessage_set :: "qtv \<Rightarrow> qvariant_list \<Rightarrow> cpp_error + HelloMessage" where
  "HelloMessage_set q cmd =
     try_then (check_id (qt_of q) ''Hello'' cmd) (\<lambda>_.
     try_then (uint_at q cmd 1) (\<lambda>g. try_then (uint_at q cmd 2) (\<lambda>d. try_then (str_at (qt_of q) cmd 3) (\<lambda>n.
       Inr \<lparr>hello_gameId = g, hello_playerDpId = d, hello_playerName = n\<rparr>))))"

record GameInfoMessage =
  gi_maxUnits :: u16
  gi_mapName :: bytestring

definition GameInfoMessage_new :: GameInfoMessage where
  "GameInfoMessage_new = \<lparr>gi_maxUnits = 1500, gi_mapName = ascii ''SHERWOOD''\<rparr>"

definition GameInfoMessage_set :: "qtv \<Rightarrow> qvariant_list \<Rightarrow> cpp_error + GameInfoMessage" where
  "GameInfoMessage_set q cmd =
     try_then (check_id (qt_of q) ''GameInfo'' cmd) (\<lambda>_.
     try_then (uint_at q cmd 1) (\<lambda>m. try_then (str_at (qt_of q) cmd 2) (\<lambda>n.
       Inr \<lparr>gi_maxUnits = ucast m, gi_mapName = n\<rparr>)))"

record GamePlayerMessage =
  gp_side :: byte
  gp_name :: bytestring
  gp_statusMessage :: bytestring

definition GamePlayerMessage_new :: GamePlayerMessage where
  "GamePlayerMessage_new = \<lparr>gp_side = 1, gp_name = ascii ''BILLY_IDOL'', gp_statusMessage = []\<rparr>"

definition GamePlayerMessage_set :: "qtv \<Rightarrow> qvariant_list \<Rightarrow> cpp_error + GamePlayerMessage" where
  "GamePlayerMessage_set q cmd =
     try_then (check_id (qt_of q) ''GamePlayer'' cmd) (\<lambda>_.
     try_then (int_at (qt_of q) cmd 1) (\<lambda>s. try_then (str_at (qt_of q) cmd 2) (\<lambda>n. try_then (bytes_arg q cmd 3) (\<lambda>m.
       Inr \<lparr>gp_side = word_of_int s, gp_name = n, gp_statusMessage = m\<rparr>))))"

definition GamePlayerNumber_set :: "qtv \<Rightarrow> qvariant_list \<Rightarrow> cpp_error + u32 \<times> byte" where
  "GamePlayerNumber_set q cmd =
     try_then (check_id (qt_of q) ''GamePlayerNumber'' cmd) (\<lambda>_.
     try_then (uint_at q cmd 1) (\<lambda>d. try_then (uint_at q cmd 2) (\<lambda>n. Inr (d, ucast n))))"

definition GamePlayerLoading_set :: "qtv \<Rightarrow> qvariant_list \<Rightarrow> cpp_error + u32 list" where
  "GamePlayerLoading_set q cmd =
     try_then (check_id (qt_of q) ''GamePlayerLoading'' cmd) (\<lambda>_. Inr (map (variant_toUInt q) (drop 1 cmd)))"

definition GameUnitDataMessage_set :: "qtv \<Rightarrow> qvariant_list \<Rightarrow> cpp_error + bytestring" where
  "GameUnitDataMessage_set q cmd = try_then (check_id (qt_of q) ''UnitData'' cmd) (\<lambda>_. bytes_arg q cmd 1)"

definition GameMoveMessage_set :: "qtv \<Rightarrow> qvariant_list \<Rightarrow> cpp_error + bytestring" where
  "GameMoveMessage_set q cmd = try_then (check_id (qt_of q) ''Move'' cmd) (\<lambda>_. bytes_arg q cmd 1)"

definition StopRecordingMessage_set :: "qtv \<Rightarrow> qvariant_list \<Rightarrow> cpp_error + unit" where
  "StopRecordingMessage_set q cmd = check_id (qt_of q) ''StopRecording'' cmd"

definition ReconnectMessage_set :: "qtv \<Rightarrow> qvariant_list \<Rightarrow> cpp_error + u32 \<times> u32" where
  "ReconnectMessage_set q cmd =
     try_then (check_id (qt_of q) ''Reconnect'' cmd) (\<lambda>_.
     try_then (uint_at q cmd 1) (\<lambda>g. try_then (uint_at q cmd 2) (\<lambda>d. Inr (g, d))))"

definition DebugDumpRequestMessage_set :: "qtv \<Rightarrow> qvariant_list \<Rightarrow> cpp_error + u32" where
  "DebugDumpRequestMessage_set q cmd = try_then (check_id (qt_of q) ''Debug'' cmd) (\<lambda>_. uint_at q cmd 1)"

section \<open>What the client sends\<close>

definition sendArgument_uint :: "u32 \<Rightarrow> bytestring" where
  "sendArgument_uint n = sendArgument_int (sint n)"

definition sendHello :: "u32 \<Rightarrow> u32 \<Rightarrow> bytestring \<Rightarrow> bytestring" where
  "sendHello gameId dplayPlayerId playerName =
     sendCommand (ascii ''Hello'') 3 @ sendArgument_uint gameId @ sendArgument_uint dplayPlayerId @
     sendArgument_bytes playerName"

definition sendReconnect :: "u32 \<Rightarrow> u32 \<Rightarrow> bytestring" where
  "sendReconnect gameId dplayPlayerId =
     sendCommand (ascii ''Reconnect'') 2 @ sendArgument_uint gameId @ sendArgument_uint dplayPlayerId"

definition sendGameInfo :: "u16 \<Rightarrow> bytestring \<Rightarrow> bytestring" where
  "sendGameInfo mxUnits mapName =
     sendCommand (ascii ''GameInfo'') 2 @ sendArgument_int (uint mxUnits) @ sendArgument_bytes mapName"

definition sendGamePlayer :: "byte \<Rightarrow> bytestring \<Rightarrow> bytestring \<Rightarrow> bytestring" where
  "sendGamePlayer side name statusMsg =
     sendCommand (ascii ''GamePlayer'') 3 @ sendArgument_int (sint side) @ sendArgument_bytes name @
     sendArgument_bytes statusMsg"

definition sendGamePlayerNumber :: "u32 \<Rightarrow> byte \<Rightarrow> bytestring" where
  "sendGamePlayerNumber dplayId nr =
     sendCommand (ascii ''GamePlayerNumber'') 2 @ sendArgument_uint dplayId @ sendArgument_int (uint nr)"

text \<open>The locked-in players in the order of the \<open>QSet\<close>, the host first.\<close>

definition sendGamePlayerLoading :: "u32 \<Rightarrow> u32 list \<Rightarrow> bytestring" where
  "sendGamePlayerLoading hostDplayId lockedInPlayers =
     sendCommand (ascii ''GamePlayerLoading'') (int (length lockedInPlayers)) @ sendArgument_uint hostDplayId @
     concat (map sendArgument_uint (filter (\<lambda>d. d \<noteq> hostDplayId) lockedInPlayers))"

definition sendUnitData :: "bytestring \<Rightarrow> bytestring" where
  "sendUnitData ud = sendCommand (ascii ''UnitData'') 1 @ sendArgument_bytes ud"

definition sendMoves :: "bytestring \<Rightarrow> bytestring" where
  "sendMoves moves = sendCommand (ascii ''Move'') 1 @ sendArgument_bytes moves"

definition sendDebugRequest :: "u32 \<Rightarrow> bytestring" where
  "sendDebugRequest gameId = sendCommand (ascii ''Debug'') 1 @ sendArgument_uint gameId"

section \<open>The client\<close>

datatype socket_state = UnconnectedState | ConnectingState | ConnectedState

record DemoClient =
  cl_hostName :: bytestring
  cl_port :: u16
  cl_tafGameId :: u32
  cl_localPlayerName :: bytestring
  cl_hostPlayerName :: bytestring
  cl_localPlayerDplayId :: u32
  cl_hostDplayId :: u32
  cl_ticks :: int
  cl_dpConnectedPlayers :: "u32 list"

definition DemoClient_new :: "bytestring \<Rightarrow> u16 \<Rightarrow> u32 \<Rightarrow> DemoClient" where
  "DemoClient_new hostName prt gameId = \<lparr>cl_hostName = hostName, cl_port = prt, cl_tafGameId = gameId,
     cl_localPlayerName = [], cl_hostPlayerName = [], cl_localPlayerDplayId = 0, cl_hostDplayId = 0, cl_ticks = -1,
     cl_dpConnectedPlayers = []\<rparr>"

text \<open>\<open>timerEvent\<close>: whether the client tries to connect.\<close>

definition client_timerEvent :: "socket_state \<Rightarrow> DemoClient \<Rightarrow> bool" where
  "client_timerEvent st c = (st = UnconnectedState \<and> cl_hostName c \<noteq> [] \<and> cl_port c > 0)"

definition client_onSocketStateChanged :: "socket_state \<Rightarrow> DemoClient \<Rightarrow> bytestring" where
  "client_onSocketStateChanged st c =
     (if st = ConnectedState \<and> cl_tafGameId c > 0 \<and> cl_localPlayerDplayId c > 0
      then sendReconnect (cl_tafGameId c) (cl_localPlayerDplayId c) else [])"

definition setHostPlayerName :: "bytestring \<Rightarrow> DemoClient \<Rightarrow> DemoClient" where
  "setHostPlayerName name c = c\<lparr>cl_hostPlayerName := name\<rparr>"

definition setLocalPlayerName :: "bytestring \<Rightarrow> DemoClient \<Rightarrow> DemoClient" where
  "setLocalPlayerName name c = c\<lparr>cl_localPlayerName := name\<rparr>"

text \<open>A call of the client: its new state, the bytes written and the exception.\<close>

type_synonym client_call = "DemoClient \<times> bytestring \<times> cpp_error option"

definition onDplaySuperEnumPlayerReply :: "qtv \<Rightarrow> u32 \<Rightarrow> bytestring \<Rightarrow> DemoClient \<Rightarrow> client_call" where
  "onDplaySuperEnumPlayerReply q dplayId name c =
     (if dplayId > 0 \<and> name \<noteq> [] then
        let c1 = c\<lparr>cl_dpConnectedPlayers := List.insert dplayId (cl_dpConnectedPlayers c)\<rparr>;
            qname = fromUtf8 (qt_of q) (c_str name)
        in if cl_hostPlayerName c = [] then (c1, [], Some (RuntimeError ''setHostPlayerName() first''))
           else let c2 = (if qname = cl_hostPlayerName c then c1\<lparr>cl_hostDplayId := dplayId\<rparr> else c1)
           in if cl_localPlayerName c = [] then (c2, [], Some (RuntimeError ''setLocalPlayerName() first''))
              else if qname = cl_localPlayerName c \<and> dplayId \<noteq> cl_localPlayerDplayId c
              then (c2\<lparr>cl_localPlayerDplayId := dplayId\<rparr>, sendHello (cl_tafGameId c) dplayId (cl_localPlayerName c), None)
              else (c2, [], None)
      else (c, [], None))"

definition onDplayCreateOrForwardPlayer :: "qtv \<Rightarrow> u16 \<Rightarrow> u32 \<Rightarrow> bytestring \<Rightarrow> DemoClient \<Rightarrow> client_call" where
  "onDplayCreateOrForwardPlayer q cmd dplayId name c =
     (if dplayId > 0 \<and> name \<noteq> [] then
        let c1 = c\<lparr>cl_dpConnectedPlayers := List.insert dplayId (cl_dpConnectedPlayers c)\<rparr>;
            qname = fromUtf8 (qt_of q) (c_str name)
        in if cl_hostPlayerName c = [] then (c1, [], Some (RuntimeError ''setHostPlayerName() first''))
           else let c2 = (if qname = cl_hostPlayerName c then c1\<lparr>cl_hostDplayId := dplayId\<rparr> else c1)
           in if cl_localPlayerName c = [] then (c2, [], Some (RuntimeError ''setLocalPlayerName() first''))
              else if qname = cl_localPlayerName c \<and> dplayId \<noteq> cl_localPlayerDplayId c
              then (c2\<lparr>cl_localPlayerDplayId := dplayId\<rparr>, sendHello (cl_tafGameId c) dplayId (cl_localPlayerName c), None)
              else (c2, [], None)
      else (c, [], None))"

definition onDplayDeletePlayer :: "u32 \<Rightarrow> DemoClient \<Rightarrow> DemoClient" where
  "onDplayDeletePlayer dplayId c =
     (let c1 = c\<lparr>cl_dpConnectedPlayers := removeAll dplayId (cl_dpConnectedPlayers c)\<rparr>
      in if dplayId = cl_localPlayerDplayId c then c1\<lparr>cl_localPlayerDplayId := 0\<rparr> else c1)"

text \<open>The \<open>switch\<close> of \<open>onTaPacket\<close> on one sub-packet: the new state and the bytes written.\<close>

definition client_subpak :: "qtv \<Rightarrow> byte \<Rightarrow> u32 \<Rightarrow> bytestring \<Rightarrow> DemoClient \<Rightarrow> (DemoClient \<times> bytestring) option" where
  "client_subpak q garbage sourceDplayId s c = do {
     b0 \<leftarrow> byte_at s 0;
     let code = subPacketCode b0;
     if code = PLAYER_INFO_20 then do {
       playerInfo \<leftarrow> TPlayerInfo_parse garbage s;
       if getSlotNumber playerInfo < 10 then do {
         info \<leftarrow> (if sourceDplayId = cl_hostDplayId c
                  then do { mapName \<leftarrow> getMapName playerInfo;
                            Some (sendGameInfo (maxUnits playerInfo) (fromUtf8 (qt_of q) mapName)) }
                  else Some []);
         let side = (if isWatcher playerInfo then 2 else data2 playerInfo ! 1);
         Some (c, info @ sendGamePlayer side (cl_localPlayerName c) s) }
       else Some (c, []) }
     else if code = UNIT_DATA_1A then do {
       ud \<leftarrow> TUnitData_parse s;
       Some (c, if sub ud = 2 \<or> sub ud = 3 then sendUnitData s else []) }
     else if code = LOADING_STARTED_08 then
       Some (c, sendGamePlayerLoading (cl_hostDplayId c) (qset_order q (cl_dpConnectedPlayers c)))
     else if code = LOADING_PROGRESS_2A then do {
       b1 \<leftarrow> byte_at s 1;
       Some (if b1 = 100 then c\<lparr>cl_ticks := 0\<rparr> else c, []) }
     else if code = UNIT_STAT_AND_MOVE_2C then do {
       t \<leftarrow> load32 s 3;
       Some (c\<lparr>cl_ticks := uint t\<rparr>, []) }
     else Some (c, []) }"

text \<open>The loop over the sub-packets; \<open>first\<close> is the state of \<open>smartPaker\<close>, \<open>moves\<close> the collected \<open>filteredMoves\<close>.\<close>

fun client_subpaks ::
  "qtv \<Rightarrow> byte \<Rightarrow> u32 \<Rightarrow> bytestring list \<Rightarrow> bool \<Rightarrow> bytestring \<Rightarrow> DemoClient \<Rightarrow> (DemoClient \<times> bytestring \<times> bytestring) option" where
  "client_subpaks q garbage sourceDplayId [] first moves c = Some (c, [], moves)"
| "client_subpaks q garbage sourceDplayId (s # subpaks) first moves c = do {
     (c1, out) \<leftarrow> client_subpak q garbage sourceDplayId s c;
     b0 \<leftarrow> byte_at s 0;
     let (first1, bs) = (if b0 = code_byte UNIT_STAT_AND_MOVE_2C then smartPaker first s else (first, s));
     (c2, out2, moves2) \<leftarrow> client_subpaks q garbage sourceDplayId subpaks first1 (moves @ bs) c1;
     Some (c2, out @ out2, moves2) }"

definition client_onTaPacket ::
  "qtv \<Rightarrow> byte \<Rightarrow> u32 \<Rightarrow> bool \<Rightarrow> bytestring list \<Rightarrow> DemoClient \<Rightarrow> (DemoClient \<times> bytestring) option" where
  "client_onTaPacket q garbage sourceDplayId isLocalSource subpaks c =
     (if \<not> isLocalSource then Some (c, [])
      else do {
        (c', out, filteredMoves) \<leftarrow> client_subpaks q garbage sourceDplayId subpaks True [0x03] c;
        Some (c', if cl_ticks c' \<ge> 0 then out @ sendMoves filteredMoves else out) })"

end
