(* ===== verification/Demo_Compiler.thy ===== *)
theory Demo_Compiler
  imports Demo_Client Unit_Data_Repo
begin

text \<open>
  The demo compiler (\<open>libs/tareplay/TaDemoCompiler.cpp\<close>): a server that merges what the players of a game report
  into one recording. User contexts are shared between the table of connections and the games, so they live in a
  store and are referred to by number, like the \<open>QSharedPointer\<close>s of the code; none of those is null. Sockets are
  numbers; a socket that is gone has no address any more, and reading it is \<open>Undefined\<close>. \<open>QMap\<close>s are ordered
  association lists. Logging is left out.

  A \<open>demoCompilation\<close> is the list of the bytes written to it. What the server does to its surroundings (data sent,
  sockets closed, files) is a trace of effects. Parameters (\<open>compiler_cfg\<close>): Qt's conversions, MD5, the file name
  template, the version string and the date.
\<close>

section \<open>State\<close>

datatype NoUserContextOption = IGNORE | CLOSE_CONNECTION | ABORT_CONNECTION | DISCONNECT_FROM_HOST

record compiler_cfg =
  cfg_qt :: qtv
  cfg_md5 :: "u32 list \<Rightarrow> bytestring"
  cfg_demoPath :: "u32 \<Rightarrow> bytestring"           \<comment> \<open>\<open>m_demoPathTemplate.arg(gameId)\<close>\<close>
  cfg_version :: bytestring
  cfg_today :: bytestring
  cfg_minDemoSize :: nat
  cfg_noUserContextOption :: NoUserContextOption
  cfg_garbage :: byte                            \<comment> \<open>the byte \<open>TPlayerInfo\<close> leaves unset\<close>
  cfg_signal_at_once :: bool                     \<comment> \<open>whether Qt emits \<open>stateChanged\<close> before \<open>close\<close> returns\<close>

record UserContext =
  uc_socket :: nat
  uc_gameId :: u32
  uc_playerDpId :: u32
  uc_playerName :: bytestring
  uc_gpgNetParser :: GpgNetParse
  uc_gamePlayerInfo :: GamePlayerMessage
  uc_gamePlayerNumber :: int

definition UserContext_new :: "nat \<Rightarrow> UserContext" where
  "UserContext_new socket = \<lparr>uc_socket = socket, uc_gameId = 0, uc_playerDpId = 0, uc_playerName = [],
     uc_gpgNetParser = GpgNetParse_new, uc_gamePlayerInfo = GamePlayerMessage_new, uc_gamePlayerNumber = 0\<rparr>"

definition GAME_EXPIRY_TICKS :: int where "GAME_EXPIRY_TICKS = 3600"

record GameContext =
  gc_gameId :: u32
  gc_header :: GameInfoMessage
  gc_players :: "(u32, nat) std_map"            \<comment> \<open>DirectPlay id to context\<close>
  gc_playersLockedIn :: "u32 list"
  gc_unitData :: UnitDataRepo
  gc_timer :: "nat option"                      \<comment> \<open>when it was last started, in ms\<close>
  gc_demoCompilation :: "bytestring option"
  gc_tempFileName :: bytestring
  gc_finalFileName :: bytestring
  gc_expiryCountdown :: int

definition GameContext_new :: GameContext where
  "GameContext_new = \<lparr>gc_gameId = 0, gc_header = GameInfoMessage_new, gc_players = [], gc_playersLockedIn = [],
     gc_unitData = [], gc_timer = None, gc_demoCompilation = None, gc_tempFileName = [], gc_finalFileName = [],
     gc_expiryCountdown = GAME_EXPIRY_TICKS\<rparr>"

record DemoMeta =
  meta_gameId :: u32
  meta_unitsHash :: bytestring
  meta_taVersionMajor :: byte
  meta_taVersionMinor :: byte
  meta_cheatsEnabled :: bool
  meta_permLosByte :: byte
  meta_mapName :: bytestring
  meta_taMapHash :: "u32 option"                \<comment> \<open>\<open>None\<close>: never assigned\<close>
  meta_players :: "(bytestring \<times> byte \<times> int) list"

datatype demo_effect =
    Sent nat bytestring
  | ClosedSocket nat
  | AbortedSocket nat
  | DisconnectedSocket nat
  | WroteMeta bytestring DemoMeta
  | RenamedFile bytestring bytestring bytestring    \<comment> \<open>from, to, contents\<close>
  | RemovedFile bytestring

record DemoCompiler =
  dc_sockets :: "nat \<rightharpoonup> bytestring"             \<comment> \<open>the sockets that exist, with their peer addresses\<close>
  dc_contexts :: "nat \<Rightarrow> UserContext"
  dc_nextContext :: nat
  dc_players :: "(nat, nat) std_map"            \<comment> \<open>socket to context\<close>
  dc_games :: "(u32, GameContext) std_map"
  dc_timerCounter :: u32

definition DemoCompiler_new :: DemoCompiler where
  "DemoCompiler_new = \<lparr>dc_sockets = Map.empty, dc_contexts = UserContext_new, dc_nextContext = 0, dc_players = [],
     dc_games = [], dc_timerCounter = 0\<rparr>"

definition update_context :: "nat \<Rightarrow> (UserContext \<Rightarrow> UserContext) \<Rightarrow> DemoCompiler \<Rightarrow> DemoCompiler" where
  "update_context i f d = d\<lparr>dc_contexts := (dc_contexts d)(i := f (dc_contexts d i))\<rparr>"

definition put_game :: "u32 \<Rightarrow> GameContext \<Rightarrow> DemoCompiler \<Rightarrow> DemoCompiler" where
  "put_game k g d = d\<lparr>dc_games := std_put k g (dc_games d)\<rparr>"

text \<open>\<open>m_games[k]\<close>, which creates the game if it is missing.\<close>

definition game_at :: "u32 \<Rightarrow> DemoCompiler \<Rightarrow> GameContext" where
  "game_at k d = fst (std_index GameContext_new k (dc_games d))"

text \<open>\<open>UserContext::ipAddr\<close>: the peer address of the socket the context was made for.\<close>

definition ipAddr :: "DemoCompiler \<Rightarrow> nat \<Rightarrow> cpp_error + bytestring" where
  "ipAddr d i = opt_undef (dc_sockets d (uc_socket (dc_contexts d i))) Inr"

definition getUnitDataHash :: "compiler_cfg \<Rightarrow> GameContext \<Rightarrow> cpp_error + bytestring" where
  "getUnitDataHash cfg g = opt_undef (repo_hash (gc_unitData g)) (\<lambda>xs. Inr (cfg_md5 cfg xs))"

section \<open>Connections\<close>

fun onNewConnection :: "(nat \<times> bytestring) list \<Rightarrow> DemoCompiler \<Rightarrow> DemoCompiler" where
  "onNewConnection [] d = d"
| "onNewConnection ((socket, addr) # pending) d =
     (let i = dc_nextContext d in
      onNewConnection pending (d\<lparr>dc_sockets := (dc_sockets d)(socket \<mapsto> addr),
        dc_contexts := (dc_contexts d)(i := UserContext_new socket), dc_nextContext := i + 1,
        dc_players := std_put socket i (dc_players d)\<rparr>))"

text \<open>
  A socket that was disconnected is forgotten and deleted (\<open>deleteLater\<close>: the object is gone before the next event).
\<close>

definition onSocketStateChanged :: "nat \<Rightarrow> socket_state \<Rightarrow> DemoCompiler \<Rightarrow> DemoCompiler" where
  "onSocketStateChanged sender st d =
     (if st = UnconnectedState
      then d\<lparr>dc_players := std_erase sender (dc_players d), dc_sockets := (dc_sockets d)(sender := None)\<rparr>
      else d)"

definition handleBadConnection :: "compiler_cfg \<Rightarrow> nat \<Rightarrow> DemoCompiler \<Rightarrow> DemoCompiler \<times> demo_effect list" where
  "handleBadConnection cfg sender d =
     (let d' = (if cfg_signal_at_once cfg then d\<lparr>dc_players := std_erase sender (dc_players d)\<rparr> else d) in
      case cfg_noUserContextOption cfg of
        CLOSE_CONNECTION \<Rightarrow> (d', [ClosedSocket sender])
      | ABORT_CONNECTION \<Rightarrow> (d', [AbortedSocket sender])
      | DISCONNECT_FROM_HOST \<Rightarrow> (d', [DisconnectedSocket sender])
      | IGNORE \<Rightarrow> (d, []))"

section \<open>Writing a recording\<close>

text \<open>The players get their numbers in the order in which they were locked in.\<close>

fun number_players :: "GameContext \<Rightarrow> u32 list \<Rightarrow> nat \<Rightarrow> DemoCompiler \<Rightarrow> DemoCompiler" where
  "number_players g [] n d = d"
| "number_players g (dpid # pids) n d =
     number_players g pids (n + 1)
       (case map_of (gc_players g) dpid of
          None \<Rightarrow> d
        | Some i \<Rightarrow> update_context i (\<lambda>u. u\<lparr>uc_gamePlayerNumber := int n + 1\<rparr>) d)"

fun write_all :: "(cpp_error + bytestring) list \<Rightarrow> cpp_error + bytestring" where
  "write_all [] = Inr []"
| "write_all (x # xs) = try_then x (\<lambda>b. try_then (write_all xs) (\<lambda>bs. Inr (b @ bs)))"

definition known :: "GameContext \<Rightarrow> u32 \<Rightarrow> bool" where
  "known g dpid = (map_of (gc_players g) dpid \<noteq> None)"

definition player_context :: "DemoCompiler \<Rightarrow> GameContext \<Rightarrow> u32 \<Rightarrow> UserContext" where
  "player_context d g dpid = dc_contexts d (case map_of (gc_players g) dpid of Some i \<Rightarrow> i | None \<Rightarrow> 0)"

definition commit_header :: "GameContext \<Rightarrow> u32 list \<Rightarrow> Header" where
  "commit_header g pids = \<lparr>magic = ascii ''TA Demo'' @ [0], version = 5, numPlayers = word_of_nat (length pids),
     hd_maxUnits = gi_maxUnits (gc_header g), hd_mapName = gi_mapName (gc_header g)\<rparr>"

text \<open>The address: 0x50 zero bytes, then the text and its terminator, masked.\<close>

definition addr_sector :: "bytestring \<Rightarrow> ExtraSector" where
  "addr_sector addr = \<lparr>sectorType = PLAYER_ADDR, sector_data = replicate 0x50 0 @ map (\<lambda>x. x XOR 42) (addr @ [0])\<rparr>"

definition write_address :: "DemoCompiler \<Rightarrow> GameContext \<Rightarrow> u32 \<Rightarrow> cpp_error + bytestring" where
  "write_address d g dpid = (case map_of (gc_players g) dpid of
     None \<Rightarrow> write_ExtraSector (addr_sector (ascii ''127.0.0.1''))
   | Some i \<Rightarrow> try_then (ipAddr d i) (\<lambda>addr. write_ExtraSector (addr_sector addr)))"

definition demo_player :: "UserContext \<Rightarrow> DemoPlayer" where
  "demo_player u = (let n = word_of_int (uc_gamePlayerNumber u) in
     \<lparr>dp_color = n, dp_side = gp_side (uc_gamePlayerInfo u), dp_number = n, dp_name = gp_name (uc_gamePlayerInfo u)\<rparr>)"

definition demo_status :: "UserContext \<Rightarrow> PlayerStatusMessage" where
  "demo_status u = \<lparr>st_number = word_of_int (uc_gamePlayerNumber u),
     statusMessage = encrypt (compress (trivialSmartpak (gp_statusMessage (uc_gamePlayerInfo u)) 0xffffffff))\<rparr>"

text \<open>What the status messages tell about the game: the last one whose map is the map of the game counts.\<close>

record status_info =
  si_taMapHash :: "u32 option"
  si_versionMajor :: byte
  si_versionMinor :: byte
  si_cheatsEnabled :: bool
  si_permLosByte :: byte

definition read_status :: "compiler_cfg \<Rightarrow> bytestring \<Rightarrow> bytestring \<Rightarrow> status_info \<Rightarrow> status_info option" where
  "read_status cfg mapName statusMsg si = do {
     playerInfo \<leftarrow> TPlayerInfo_parse (cfg_garbage cfg) statusMsg;
     name \<leftarrow> getMapName playerInfo;
     Some (if name = mapName
           then \<lparr>si_taMapHash = Some (getMapHash playerInfo), si_versionMajor = versionMajor playerInfo,
                 si_versionMinor = versionMinor playerInfo, si_cheatsEnabled = isCheatsEnabled playerInfo,
                 si_permLosByte = getPermLosByte playerInfo\<rparr>
           else si) }"

fun write_statuses ::
  "compiler_cfg \<Rightarrow> bytestring \<Rightarrow> UserContext list \<Rightarrow> status_info \<Rightarrow> cpp_error + status_info \<times> bytestring" where
  "write_statuses cfg mapName [] si = Inr (si, [])"
| "write_statuses cfg mapName (u # us) si =
     opt_undef (read_status cfg mapName (gp_statusMessage (uc_gamePlayerInfo u)) si) (\<lambda>si1.
     try_then (write_PlayerStatusMessage (demo_status u)) (\<lambda>b.
     try_then (write_statuses cfg mapName us si1) (\<lambda>(si2, bs). Inr (si2, b @ bs))))"

definition all_unitData :: "UnitDataRepo \<Rightarrow> UnitData" where
  "all_unitData m = \<lparr>unitData = concat (map snd m)\<rparr>"

text \<open>
  What \<open>commitHeaders\<close> writes to the new file, with the meta data: \<open>pids\<close> are the known locked-in players, who have
  their numbers by now.
\<close>

definition header_bytes :: "compiler_cfg \<Rightarrow> DemoCompiler \<Rightarrow> GameContext \<Rightarrow> u32 list \<Rightarrow> cpp_error + bytestring \<times> DemoMeta" where
  "header_bytes cfg d g pids =
     (let header = commit_header g pids;
          users = map (player_context d g) (filter (known g) pids)
      in try_then (write_Header header) (\<lambda>b1.
         try_then (write_ExtraHeader \<lparr>numSectors = 2 + ucast (numPlayers header)\<rparr>) (\<lambda>b2.
         try_then (write_ExtraSector \<lparr>sectorType = RECORDER_VERSION, sector_data = cfg_version cfg\<rparr>) (\<lambda>b3.
         try_then (write_ExtraSector \<lparr>sectorType = DATE, sector_data = cfg_today cfg\<rparr>) (\<lambda>b4.
         try_then (write_all (map (write_address d g) pids)) (\<lambda>b5.
         try_then (write_all (map (\<lambda>u. write_Player (demo_player u)) users)) (\<lambda>b6.
         try_then (write_statuses cfg (hd_mapName header) users
           \<lparr>si_taMapHash = None, si_versionMajor = 0, si_versionMinor = 0, si_cheatsEnabled = False, si_permLosByte = 0\<rparr>) (\<lambda>(si, b7).
         try_then (write_UnitData (all_unitData (gc_unitData g))) (\<lambda>b8.
         try_then (getUnitDataHash cfg g) (\<lambda>hash.
           Inr (b1 @ b2 @ b3 @ b4 @ b5 @ b6 @ b7 @ b8,
             \<lparr>meta_gameId = gc_gameId g, meta_unitsHash = hash, meta_taVersionMajor = si_versionMajor si,
              meta_taVersionMinor = si_versionMinor si, meta_cheatsEnabled = si_cheatsEnabled si,
              meta_permLosByte = si_permLosByte si, meta_mapName = c_str (hd_mapName header),
              meta_taMapHash = si_taMapHash si,
              meta_players = map (\<lambda>u. (gp_name (uc_gamePlayerInfo u), gp_side (uc_gamePlayerInfo u),
                uc_gamePlayerNumber u)) users\<rparr>)))))))))))"

text \<open>
  \<open>commitHeaders\<close>: the players' numbers are set even if writing fails; the result is the contents of the new file, or
  no file if a locked-in player is not registered.
\<close>

definition commitHeaders ::
  "compiler_cfg \<Rightarrow> GameContext \<Rightarrow> bytestring \<Rightarrow> DemoCompiler \<Rightarrow> DemoCompiler \<times> demo_effect list \<times> (cpp_error + bytestring option)" where
  "commitHeaders cfg g filename d =
     (let pids = filter (known g) (gc_playersLockedIn g) in
      if length pids \<noteq> length (gc_playersLockedIn g) then (d, [], Inr None)
      else let d1 = number_players g pids 0 d in
        case header_bytes cfg d1 g pids of
          Inl e \<Rightarrow> (d1, [], Inl e)
        | Inr (bytes, meta) \<Rightarrow> (d1, [WroteMeta (filename @ ascii ''.json'') meta], Inr (Some bytes)))"

text \<open>\<open>commitMove\<close> at time \<open>now\<close>; the milliseconds since the last packet are cut to 16 bits.\<close>

definition commitMove :: "nat \<Rightarrow> int \<Rightarrow> bytestring \<Rightarrow> bytestring \<Rightarrow> GameContext \<Rightarrow> GameContext \<times> (cpp_error + unit)" where
  "commitMove now playerNumber moves written g =
     (let start = (case gc_timer g of None \<Rightarrow> now | Some t \<Rightarrow> t);
          g1 = g\<lparr>gc_timer := Some now\<rparr>
      in case write_Packet \<lparr>pk_time = word_of_nat (now - start), pk_sender = word_of_int playerNumber, pk_data = moves\<rparr> of
           Inl e \<Rightarrow> (g1, Inl e)
         | Inr b \<Rightarrow> (g1\<lparr>gc_demoCompilation := Some (written @ b)\<rparr>, Inr ()))"

section \<open>Commands of the players\<close>

text \<open>
  One round of the loop of \<open>onReadyRead\<close> for the command of the user with context \<open>i\<close> on socket \<open>sender\<close>: the new
  state, the effects and either the exception or whether moves were committed.
\<close>

type_synonym compiler_step = "DemoCompiler \<times> demo_effect list \<times> (cpp_error + bool)"

definition stepped :: "DemoCompiler \<Rightarrow> compiler_step" where
  "stepped d = (d, [], Inr False)"

definition on_Hello :: "compiler_cfg \<Rightarrow> nat \<Rightarrow> qvariant_list \<Rightarrow> DemoCompiler \<Rightarrow> compiler_step" where
  "on_Hello cfg i cmd d = (case HelloMessage_set (cfg_qt cfg) cmd of
     Inl e \<Rightarrow> (d, [], Inl e)
   | Inr msg \<Rightarrow>
       let d1 = update_context i (\<lambda>u. u\<lparr>uc_gameId := hello_gameId msg, uc_playerDpId := hello_playerDpId msg,
                  uc_playerName := hello_playerName msg\<rparr>) d;
           g = game_at (hello_gameId msg) d1
       in stepped (put_game (hello_gameId msg) (g\<lparr>gc_players := std_put (hello_playerDpId msg) i (gc_players g)\<rparr>) d1))"

definition on_Reconnect :: "compiler_cfg \<Rightarrow> nat \<Rightarrow> nat \<Rightarrow> qvariant_list \<Rightarrow> DemoCompiler \<Rightarrow> compiler_step" where
  "on_Reconnect cfg sender i cmd d = (case ReconnectMessage_set (cfg_qt cfg) cmd of
     Inl e \<Rightarrow> (d, [], Inl e)
   | Inr (gameId, playerDpId) \<Rightarrow>
       (case Option.bind (map_of (dc_games d) gameId) (\<lambda>g. map_of (gc_players g) playerDpId) of
          Some j \<Rightarrow>
            let old = dc_contexts d j;
                d1 = update_context i (\<lambda>u. u\<lparr>uc_gameId := gameId, uc_playerDpId := playerDpId,
                  uc_playerName := uc_playerName old, uc_gamePlayerInfo := uc_gamePlayerInfo old,
                  uc_gamePlayerNumber := uc_gamePlayerNumber old\<rparr>) d;
                g = game_at gameId d1
            in stepped (put_game gameId (g\<lparr>gc_players := std_put playerDpId i (gc_players g)\<rparr>) d1)
        | None \<Rightarrow>
            (case dc_sockets d sender of
               None \<Rightarrow> (d, [], Inl Undefined)
             | Some addr \<Rightarrow>
                 let d1 = update_context i (\<lambda>u. u\<lparr>uc_gameId := gameId, uc_playerDpId := playerDpId,
                       uc_playerName := addr\<rparr>) d;
                     g = game_at gameId d1
                 in stepped (put_game gameId (g\<lparr>gc_players := std_put playerDpId i (gc_players g)\<rparr>) d1))))"

definition on_Move :: "compiler_cfg \<Rightarrow> nat \<Rightarrow> nat \<Rightarrow> qvariant_list \<Rightarrow> DemoCompiler \<Rightarrow> compiler_step" where
  "on_Move cfg now i cmd d =
     (let u = dc_contexts d i in
      case map_of (dc_games d) (uc_gameId u) of
        None \<Rightarrow> stepped d
      | Some g \<Rightarrow>
          if map_of (gc_players g) (uc_playerDpId u) = None then stepped d
          else let g1 = g\<lparr>gc_expiryCountdown := GAME_EXPIRY_TICKS\<rparr>; d1 = put_game (uc_gameId u) g1 d in
            case gc_demoCompilation g of
              None \<Rightarrow> stepped d1
            | Some written \<Rightarrow>
                (case GameMoveMessage_set (cfg_qt cfg) cmd of
                   Inl e \<Rightarrow> (d1, [], Inl e)
                 | Inr moves \<Rightarrow>
                     let (g2, res) = commitMove now (uc_gamePlayerNumber u) moves written g1
                     in (put_game (uc_gameId u) g2 d1, [], map_sum id (\<lambda>_. True) res)))"

definition on_GameInfo :: "compiler_cfg \<Rightarrow> nat \<Rightarrow> qvariant_list \<Rightarrow> DemoCompiler \<Rightarrow> compiler_step" where
  "on_GameInfo cfg i cmd d =
     (let k = uc_gameId (dc_contexts d i);
          g = (game_at k d)\<lparr>gc_gameId := k, gc_expiryCountdown := GAME_EXPIRY_TICKS\<rparr>
      in case GameInfoMessage_set (cfg_qt cfg) cmd of
           Inl e \<Rightarrow> (put_game k g d, [], Inl e)
         | Inr msg \<Rightarrow> stepped (put_game k (g\<lparr>gc_header := msg\<rparr>) d))"

definition on_GamePlayer :: "compiler_cfg \<Rightarrow> nat \<Rightarrow> nat \<Rightarrow> qvariant_list \<Rightarrow> DemoCompiler \<Rightarrow> compiler_step" where
  "on_GamePlayer cfg sender i cmd d = (case GamePlayerMessage_set (cfg_qt cfg) cmd of
     Inl e \<Rightarrow> (d, [], Inl e)
   | Inr gpm \<Rightarrow>
       let u = dc_contexts d i in
       case map_of (dc_games d) (uc_gameId u) of
         None \<Rightarrow> stepped d
       | Some g \<Rightarrow>
           (case map_of (gc_players g) (uc_playerDpId u) of
              Some j \<Rightarrow> stepped (update_context j (\<lambda>v. v\<lparr>uc_gamePlayerInfo := gpm\<rparr>)
                          (put_game (uc_gameId u) (g\<lparr>gc_expiryCountdown := GAME_EXPIRY_TICKS\<rparr>) d))
            | None \<Rightarrow>
                if TPlayerInfo_parse (cfg_garbage cfg) (gp_statusMessage gpm) = None then (d, [], Inl Undefined)
                else let (d', out) = handleBadConnection cfg sender d in (d', out, Inr False)))"

definition on_UnitData :: "compiler_cfg \<Rightarrow> nat \<Rightarrow> qvariant_list \<Rightarrow> DemoCompiler \<Rightarrow> compiler_step" where
  "on_UnitData cfg i cmd d =
     (let k = uc_gameId (dc_contexts d i) in
      case map_of (dc_games d) k of
        None \<Rightarrow> stepped d
      | Some g \<Rightarrow>
          (case GameUnitDataMessage_set (cfg_qt cfg) cmd of
             Inl e \<Rightarrow> (d, [], Inl e)
           | Inr ud \<Rightarrow>
               (case repo_add ud (gc_unitData g) of
                  None \<Rightarrow> (d, [], Inl Undefined)
                | Some m \<Rightarrow> stepped (put_game k (g\<lparr>gc_unitData := m, gc_expiryCountdown := GAME_EXPIRY_TICKS\<rparr>) d))))"

definition on_GamePlayerLoading :: "compiler_cfg \<Rightarrow> nat \<Rightarrow> qvariant_list \<Rightarrow> DemoCompiler \<Rightarrow> compiler_step" where
  "on_GamePlayerLoading cfg i cmd d = (case GamePlayerLoading_set (cfg_qt cfg) cmd of
     Inl e \<Rightarrow> (d, [], Inl e)
   | Inr lockedIn \<Rightarrow>
       let k = uc_gameId (dc_contexts d i) in
       case map_of (dc_games d) k of
         None \<Rightarrow> stepped d
       | Some g \<Rightarrow>
           if gc_demoCompilation g \<noteq> None then stepped d
           else let final = cfg_demoPath cfg (gc_gameId g);
                    g1 = g\<lparr>gc_playersLockedIn := lockedIn, gc_finalFileName := final,
                           gc_tempFileName := final @ ascii ''.part''\<rparr>;
                    (d1, out, res) = commitHeaders cfg g1 (gc_tempFileName g1) (put_game k g1 d)
                in case res of
                     Inl e \<Rightarrow> (d1, out, Inl e)
                   | Inr file \<Rightarrow> (put_game k (g1\<lparr>gc_demoCompilation := file\<rparr>) d1, out, Inr False))"

text \<open>
  The debugging dump changes nothing, but it decodes every stored unit packet up to its first zero byte only:
  \<open>TUnitData ud(it->second.data())\<close> goes through the constructor from a C string.
\<close>

definition on_Debug :: "compiler_cfg \<Rightarrow> qvariant_list \<Rightarrow> DemoCompiler \<Rightarrow> compiler_step" where
  "on_Debug cfg cmd d = (case DebugDumpRequestMessage_set (cfg_qt cfg) cmd of
     Inl e \<Rightarrow> (d, [], Inl e)
   | Inr gameId \<Rightarrow>
       let games = filter (\<lambda>g. gc_gameId g = gameId \<or> gameId = 0) (map snd (dc_games d)) in
       if list_all (\<lambda>p. dc_sockets d (uc_socket (dc_contexts d (snd p))) \<noteq> None) (dc_players d) \<and>
          list_all (\<lambda>g. list_all (\<lambda>e. TUnitData_parse (c_str (snd e)) \<noteq> None) (gc_unitData g) \<and>
                       repo_hash (gc_unitData g) \<noteq> None) games
       then stepped d else (d, [], Inl Undefined))"

definition compiler_command :: "compiler_cfg \<Rightarrow> nat \<Rightarrow> nat \<Rightarrow> nat \<Rightarrow> qvariant_list \<Rightarrow> DemoCompiler \<Rightarrow> compiler_step" where
  "compiler_command cfg now sender i cmd d = (case str_at (qt_of (cfg_qt cfg)) cmd 0 of
     Inl e \<Rightarrow> (d, [], Inl e)
   | Inr name \<Rightarrow>
       let u = dc_contexts d i in
       if name = ascii ''Hello'' then on_Hello cfg i cmd d
       else if name = ascii ''Reconnect'' then on_Reconnect cfg sender i cmd d
       else if uc_gameId u = 0 \<or> uc_playerDpId u = 0
       then let (d', out) = handleBadConnection cfg sender d in (d', out, Inr False)
       else if name = ascii ''Move'' then on_Move cfg now i cmd d
       else if name = ascii ''GameInfo'' then on_GameInfo cfg i cmd d
       else if name = ascii ''GamePlayer'' then on_GamePlayer cfg sender i cmd d
       else if name = ascii ''UnitData'' then on_UnitData cfg i cmd d
       else if name = ascii ''GamePlayerLoading'' then on_GamePlayerLoading cfg i cmd d
       else if name = ascii ''Debug'' then on_Debug cfg cmd d
       else stepped d)"

text \<open>A command leaves the readers of the connections alone.\<close>

definition parsers :: "DemoCompiler \<Rightarrow> nat \<Rightarrow> GpgNetParse" where
  "parsers d j = uc_gpgNetParser (dc_contexts d j)"

lemma parsers_update:
  "(\<And>u. uc_gpgNetParser (f u) = uc_gpgNetParser u) \<Longrightarrow> parsers (update_context i f d) = parsers d"
  by (auto simp: parsers_def update_context_def)

lemma parsers_put [simp]: "parsers (put_game k g d) = parsers d"
  by (simp add: parsers_def put_game_def fun_eq_iff)

lemma parsers_number [simp]: "parsers (number_players g pids n d) = parsers d"
  by (induction g pids n d rule: number_players.induct) (auto simp: parsers_update split: option.splits)

lemma parsers_bad: "handleBadConnection cfg sender d = (d', out) \<Longrightarrow> parsers d' = parsers d"
  by (auto simp: handleBadConnection_def parsers_def fun_eq_iff Let_def split: NoUserContextOption.splits if_splits)

lemma parsers_commit: "commitHeaders cfg g fn d = (d', out, r) \<Longrightarrow> parsers d' = parsers d"
  by (auto simp: commitHeaders_def Let_def split: if_splits sum.splits prod.splits)

lemma compiler_command_parsers:
  assumes "compiler_command cfg now sender i cmd d = (d', out, r)"
  shows "parsers d' = parsers d"
proof -
  note defs = on_Hello_def on_Reconnect_def on_Move_def on_GameInfo_def on_GamePlayer_def on_UnitData_def
    on_GamePlayerLoading_def on_Debug_def stepped_def Let_def
  have "parsers d' = parsers d" if "on_Hello cfg i cmd d = (d', out, r)"
    using that by (auto simp: defs parsers_update split: sum.splits)
  moreover have "parsers d' = parsers d" if "on_Reconnect cfg sender i cmd d = (d', out, r)"
    using that by (auto simp: defs parsers_update split: sum.splits prod.splits option.splits)
  moreover have "parsers d' = parsers d" if "on_Move cfg now i cmd d = (d', out, r)"
    using that by (auto simp: defs split: sum.splits prod.splits option.splits if_splits)
  moreover have "parsers d' = parsers d" if "on_GameInfo cfg i cmd d = (d', out, r)"
    using that by (auto simp: defs split: sum.splits)
  moreover have "parsers d' = parsers d" if "on_GamePlayer cfg sender i cmd d = (d', out, r)"
    using that by (auto simp: defs parsers_update parsers_bad split: sum.splits prod.splits option.splits if_splits)
  moreover have "parsers d' = parsers d" if "on_UnitData cfg i cmd d = (d', out, r)"
    using that by (auto simp: defs split: sum.splits option.splits)
  moreover have "parsers d' = parsers d" if "on_GamePlayerLoading cfg i cmd d = (d', out, r)"
    using that by (auto simp: defs dest!: parsers_commit split: sum.splits prod.splits option.splits if_splits)
  moreover have "parsers d' = parsers d" if "on_Debug cfg cmd d = (d', out, r)"
    using that by (auto simp: defs split: sum.splits if_splits)
  ultimately show ?thesis
    using assms by (auto simp: compiler_command_def stepped_def Let_def parsers_bad split: sum.splits if_splits prod.splits)
qed

lemma command_keeps_parser:
  "compiler_command cfg now sender i cmd d = (d', out, r) \<Longrightarrow>
     uc_gpgNetParser (dc_contexts d' i) = uc_gpgNetParser (dc_contexts d i)"
  using compiler_command_parsers [of cfg now sender i cmd d d' out r] by (simp add: parsers_def fun_eq_iff)

text \<open>
  The loop of \<open>onReadyRead\<close> over the bytes at the socket. Its condition goes through the iterator into \<open>m_players\<close>,
  which is invalid once the entry is gone; a closed or aborted socket is at its end.
\<close>

definition shut :: "nat \<Rightarrow> demo_effect list \<Rightarrow> bool" where
  "shut sender out = (ClosedSocket sender \<in> set out \<or> AbortedSocket sender \<in> set out)"

type_synonym compiler_read = "DemoCompiler \<times> bytestring \<times> demo_effect list \<times> (cpp_error + bool)"

function compiler_loop :: "compiler_cfg \<Rightarrow> nat \<Rightarrow> nat \<Rightarrow> nat \<Rightarrow> bool \<Rightarrow> DemoCompiler \<Rightarrow> bytestring \<Rightarrow> compiler_read" where
  "compiler_loop cfg now sender i committedMoves d s =
     (if map_of (dc_players d) sender = None then (d, s, [], Inl Undefined)
      else if s = [] then (d, s, [], Inr committedMoves)
      else case GetCommand (uc_gpgNetParser (dc_contexts d i)) s of
        (p, rest, r) \<Rightarrow>
          let d1 = update_context i (\<lambda>u. u\<lparr>uc_gpgNetParser := p\<rparr>) d in
          case r of
            Inl e \<Rightarrow> (d1, rest, [], Inl e)
          | Inr cmd \<Rightarrow>
              let (d2, out, res) = compiler_command cfg now sender i cmd d1 in
              case res of
                Inl e \<Rightarrow> (d2, rest, out, Inl e)
              | Inr moved \<Rightarrow>
                  let (d3, rest', out', res') =
                        compiler_loop cfg now sender i (committedMoves \<or> moved) d2 (if shut sender out then [] else rest)
                  in (d3, rest', out @ out', res'))"
  by pat_completeness auto
termination
  by (relation "measures [\<lambda>(cfg, now, sender, i, c, d, s). length s,
        \<lambda>(cfg, now, sender, i, c, d, s). m_progress (m_size (m_command (uc_gpgNetParser (dc_contexts d i))))]")
    (auto dest!: GetCommand_progress [OF sym] command_keeps_parser [OF sym] simp: update_context_def)

declare compiler_loop.simps [simp del]

text \<open>
  \<open>onReadyRead\<close> with the bytes at the socket. \<open>DataNotReady\<close> waits for more; another exception closes the connection;
  undefined behaviour remains.
\<close>

definition finish_read :: "nat \<Rightarrow> nat \<Rightarrow> compiler_read \<Rightarrow> DemoCompiler \<times> bytestring \<times> demo_effect list \<times> (cpp_error + unit)" where
  "finish_read sender i x = (case x of (d, rest, out, res) \<Rightarrow>
     (case res of
        Inr committedMoves \<Rightarrow>
          if committedMoves
          then let k = uc_gameId (dc_contexts d i); g = game_at k d in
               (put_game k g d, rest, out, if gc_demoCompilation g = None then Inl Undefined else Inr ())
          else (d, rest, out, Inr ())
      | Inl e \<Rightarrow>
          if e = DataNotReady then (d, rest, out, Inr ())
          else if e = Undefined then (d, rest, out, Inl Undefined)
          else (d, rest, out @ [ClosedSocket sender], Inr ())))"

definition compiler_onReadyRead ::
  "compiler_cfg \<Rightarrow> nat \<Rightarrow> nat \<Rightarrow> bytestring \<Rightarrow> DemoCompiler \<Rightarrow> DemoCompiler \<times> bytestring \<times> demo_effect list \<times> (cpp_error + unit)" where
  "compiler_onReadyRead cfg now sender s d = (case map_of (dc_players d) sender of
     None \<Rightarrow> (d, s, [ClosedSocket sender], Inr ())
   | Some i \<Rightarrow> finish_read sender i (compiler_loop cfg now sender i False d s))"

section \<open>The timer\<close>

definition pingUsers :: "DemoCompiler \<Rightarrow> demo_effect list" where
  "pingUsers d = map (\<lambda>p. Sent (fst p) (sendCommand (ascii ''Ping'') 0)) (dc_players d)"

text \<open>\<open>sendStopRecordingToAllInGame\<close>: one command to every player of the game whose socket exists.\<close>

definition sendStopRecordingToAllInGame :: "u32 \<Rightarrow> DemoCompiler \<Rightarrow> cpp_error + demo_effect list" where
  "sendStopRecordingToAllInGame gameId d = (case map_of (dc_games d) gameId of
     None \<Rightarrow> Inr []
   | Some g \<Rightarrow>
       let socks = map (\<lambda>p. uc_socket (dc_contexts d (snd p))) (gc_players g) in
       if list_all (\<lambda>k. dc_sockets d k \<noteq> None) socks
       then Inr (map (\<lambda>k. Sent k (sendCommand (ascii ''StopRecording'') 0)) socks) else Inl Undefined)"

definition tick_game :: "GameContext \<Rightarrow> GameContext" where
  "tick_game g = g\<lparr>gc_expiryCountdown := gc_expiryCountdown g - 1\<rparr>"

definition expired_ids :: "(u32, GameContext) std_map \<Rightarrow> u32 list" where
  "expired_ids games = map (\<lambda>p. gc_gameId (snd p)) (filter (\<lambda>p. gc_expiryCountdown (snd p) \<le> 0) games)"

text \<open>Closing one game: \<open>m_games[gameid]\<close> creates a missing one, and it is removed in the end.\<close>

definition close_game :: "compiler_cfg \<Rightarrow> u32 \<Rightarrow> DemoCompiler \<Rightarrow> DemoCompiler \<times> demo_effect list" where
  "close_game cfg gameid d =
     (let g = game_at gameid d in
      (d\<lparr>dc_games := std_erase gameid (dc_games d)\<rparr>,
       case gc_demoCompilation g of
         None \<Rightarrow> []
       | Some written \<Rightarrow>
           if length written \<ge> cfg_minDemoSize cfg
           then [RenamedFile (gc_tempFileName g) (gc_finalFileName g) written]
           else [RemovedFile (gc_tempFileName g)]))"

fun close_games :: "compiler_cfg \<Rightarrow> u32 list \<Rightarrow> DemoCompiler \<Rightarrow> DemoCompiler \<times> demo_effect list" where
  "close_games cfg [] d = (d, [])"
| "close_games cfg (k # ks) d =
     (let (d1, out) = close_game cfg k d; (d2, out2) = close_games cfg ks d1 in (d2, out @ out2))"

definition closeExpiredGames :: "compiler_cfg \<Rightarrow> DemoCompiler \<Rightarrow> DemoCompiler \<times> demo_effect list" where
  "closeExpiredGames cfg d =
     (let games = map (\<lambda>(k, g). (k, tick_game g)) (dc_games d)
      in close_games cfg (expired_ids games) (d\<lparr>dc_games := games\<rparr>))"

definition compiler_timerEvent :: "compiler_cfg \<Rightarrow> DemoCompiler \<Rightarrow> DemoCompiler \<times> demo_effect list" where
  "compiler_timerEvent cfg d =
     (let d1 = d\<lparr>dc_timerCounter := dc_timerCounter d + 1\<rparr>;
          pings = (if dc_timerCounter d1 mod 60 = 0 then pingUsers d1 else []);
          (d2, out) = closeExpiredGames cfg d1
      in (d2, pings @ out))"

end
