(* ===== verification/Demo_Trip.thy ===== *)
theory Demo_Trip
  imports Demo_Compiler
begin

text \<open>
  Recording and playing back, end to end: the compiler writes the headers of a game and the moves the players
  report; the parser reads the file. The lemmas about loops over written records hold for every item of the parser.
\<close>

section \<open>Records in a file\<close>

definition record_ok :: "bytestring \<Rightarrow> bool" where
  "record_ok d = (d \<noteq> [] \<and> length d \<le> 32766)"

abbreviation file_of :: "bytestring list \<Rightarrow> bytestring" where
  "file_of ds \<equiv> concat (map record_bytes ds)"

text \<open>An item does not depend on the state of the record reader.\<close>

definition item_blind :: "item \<Rightarrow> bool" where
  "item_blind f = (\<forall>d p r. f d (p\<lparr>p_reader := r\<rparr>) = map_sum id (\<lambda>q. q\<lparr>p_reader := r\<rparr>) (f d p))"

lemma item_blindD: "item_blind f \<Longrightarrow> f d p = Inr q \<Longrightarrow> f d (p\<lparr>p_reader := r\<rparr>) = Inr (q\<lparr>p_reader := r\<rparr>)"
  unfolding item_blind_def by (metis map_sum.simps(2))

lemma items_blind:
  "item_blind header_item" "item_blind extraHeader_item" "item_blind sector_item" "item_blind player_item"
  "item_blind status_item" "item_blind unitData_item" "item_blind packet_item"
  by (auto simp: item_blind_def item_effects split: sum.splits option.splits)

lemma read_item_written:
  assumes "item_blind f" and "at_record (p_reader p)" and "record_ok d" and "f d p = Inr q"
  obtains r where "at_record r" and "\<And>rest. read_item f p (record_bytes d @ rest) = (q\<lparr>p_reader := r\<rparr>, rest, Inr ())"
proof -
  obtain r where "at_record r" and "\<And>rest. demo_record (p_reader p) (record_bytes d @ rest) = (r, rest, Inr d)"
    using demo_record_written [of "p_reader p" d] assms(2,3) by (auto simp: record_ok_def)
  then show thesis
    by (intro that [of r]) (simp_all add: read_item_def item_blindD [OF assms(1,4)])
qed

text \<open>
  A loop over written records runs through the states \<open>st\<close> and stands where they end.
\<close>

lemma items_loop_written:
  assumes "item_blind f" and "off_reader c" and "at_record (p_reader p)"
    and "list_all record_ok ds" and "p = (st 0)\<lparr>p_reader := p_reader p\<rparr>"
    and "\<And>i. i < length ds \<Longrightarrow> c (st i) \<and> f (ds ! i) (st i) = Inr (st (Suc i))"
  shows "\<exists>r. at_record r \<and> (\<forall>rest. items_loop (\<lambda>_. c) f 0 p (file_of ds @ rest) =
    items_loop (\<lambda>_. c) f 0 ((st (length ds))\<lparr>p_reader := r\<rparr>) rest)"
  using assms(3-6)
proof (induction ds arbitrary: p st)
  case Nil
  then show ?case by (intro exI [of _ "p_reader p"]) simp
next
  case (Cons d ds)
  have c: "c (st 0)" and f: "f d (st 0) = Inr (st 1)" using Cons.prems(4) [of 0] by simp_all
  have "c p" and fp: "f d p = Inr ((st 1)\<lparr>p_reader := p_reader p\<rparr>)"
    using c assms(2) item_blindD [OF assms(1) f, of "p_reader p"] Cons.prems(3) by (metis off_reader_def)+
  obtain r where r: "at_record r"
    and eq: "\<And>rest. read_item f p (record_bytes d @ rest) = ((st 1)\<lparr>p_reader := r\<rparr>, rest, Inr ())"
    using read_item_written [OF assms(1) Cons.prems(1) _ fp] Cons.prems(2) by auto
  let ?p = "(st 1)\<lparr>p_reader := r\<rparr>"
  have step: "items_loop (\<lambda>_. c) f 0 p (record_bytes d @ t) = items_loop (\<lambda>_. c) f 0 ?p t" for t
    using items_loop_round [of "\<lambda>_. c" 0, OF \<open>c p\<close> eq] items_loop_rounds by metis
  have "\<exists>r'. at_record r' \<and> (\<forall>rest. items_loop (\<lambda>_. c) f 0 ?p (file_of ds @ rest) =
      items_loop (\<lambda>_. c) f 0 ((st (Suc (length ds)))\<lparr>p_reader := r'\<rparr>) rest)"
    using Cons.IH [of ?p "\<lambda>i. st (Suc i)"] Cons.prems r by fastforce
  then show ?case using step by simp
qed

lemma items_loop_phase_written:
  assumes "item_blind f" and "off_reader c" and "at_record (p_reader p)"
    and "list_all record_ok ds" and "p = (st 0)\<lparr>p_reader := p_reader p\<rparr>"
    and "\<And>i. i < length ds \<Longrightarrow> c (st i) \<and> f (ds ! i) (st i) = Inr (st (Suc i))" and "\<not> c (st (length ds))"
  obtains r where "at_record r"
    and "\<And>rest. items_loop (\<lambda>_. c) f 0 p (file_of ds @ rest) = ((st (length ds))\<lparr>p_reader := r\<rparr>, rest, Inr ())"
proof -
  obtain r where r: "at_record r" "\<forall>rest. items_loop (\<lambda>_. c) f 0 p (file_of ds @ rest) =
      items_loop (\<lambda>_. c) f 0 ((st (length ds))\<lparr>p_reader := r\<rparr>) rest"
    using items_loop_written [OF assms(1-6)] by blast
  moreover have "\<not> c ((st (length ds))\<lparr>p_reader := r\<rparr>)" using assms(2,7) by (simp add: off_reader_def)
  ultimately show thesis by (intro that [of r]) (simp_all add: items_loop_stop)
qed

section \<open>Decoding what was encoded\<close>

definition printable :: "bytestring \<Rightarrow> bool" where
  "printable s = list_all (\<lambda>b. 0x20 \<le> b \<and> b < 0x7f) s"

lemma check_printable_ok: "printable s \<Longrightarrow> check_printable s = Inr ()"
proof (induction s)
  case (Cons b s)
  then have "0x20 \<le> b" and "b < 0x7f" and "printable s" by (simp_all add: printable_def)
  then have "\<not> 0x80 \<le> b" and "\<not> b < 0x20" and "b \<noteq> 0x7f" by (auto simp: word_le_nat_alt word_less_nat_alt)
  then show ?case using Cons \<open>printable s\<close> by simp
qed simp

lemma c_str_id: "0 \<notin> set s \<Longrightarrow> c_str s = s"
  by (auto simp: c_str_def takeWhile_eq_all_conv)

lemma printable_c_str: "printable s \<Longrightarrow> c_str s = s"
  by (rule c_str_id) (auto simp: printable_def list_all_iff)

definition header_record :: "Header \<Rightarrow> bytestring" where
  "header_record h = magic h @ le16 (version h) @ [numPlayers h] @ le16 (hd_maxUnits h) @ take 64 (hd_mapName h)"

definition header_fits :: "Header \<Rightarrow> bool" where
  "header_fits h = (magic h = TA_DEMO_MAGIC \<and> 3 \<le> version h \<and> version h \<le> 5 \<and> numPlayers h \<le> 10 \<and> hd_maxUnits h \<le> 5000 \<and>
     length (hd_mapName h) \<le> 64 \<and> printable (hd_mapName h))"

lemma load_header_record:
  assumes "header_fits h"
  shows "load_Header (header_record h) = Inr h"
proof -
  have m: "magic h = [84, 65, 32, 68, 101, 109, 111, 0]"
    using assms by (simp add: header_fits_def TA_DEMO_MAGIC_def ascii_def)
  let ?d = "header_record h"
  have d: "?d = [84, 65, 32, 68, 101, 109, 111, 0, ucast (version h), ucast (drop_bit 8 (version h)), numPlayers h,
      ucast (hd_maxUnits h), ucast (drop_bit 8 (hd_maxUnits h))] @ hd_mapName h"
    using assms by (simp add: header_record_def m le16_def header_fits_def)
  have "load_bytes ?d 0 8 = Some TA_DEMO_MAGIC"
    by (simp add: d load_bytes_def TA_DEMO_MAGIC_def ascii_def)
  moreover have "load16 ?d 8 = Some (version h)" "byte_at ?d 10 = Some (numPlayers h)" "load16 ?d 11 = Some (hd_maxUnits h)"
    by (simp_all add: d load16_def byte_at_def)
  moreover have "substr_from ?d 13 = Inr (hd_mapName h)" by (simp add: d substr_from_def)
  ultimately show ?thesis
    using assms check_printable_ok [of "hd_mapName h"] printable_c_str [of "hd_mapName h"]
    by (auto simp: load_Header_def header_fits_def Let_def not_less)
qed

lemma load_extraHeader_record: "n \<le> 10000 \<Longrightarrow> load_ExtraHeader (le32 n) = Inr \<lparr>numSectors = n\<rparr>"
  by (simp add: load_ExtraHeader_def le32_def load32_def byte_at_def not_less)

lemma load_extraSector_record: "load_ExtraSector (le32 (sectorType es) @ sector_data es) = Inr es"
  by (simp add: load_ExtraSector_def le32_def load32_def byte_at_def substr_from_def)

definition player_record :: "DemoPlayer \<Rightarrow> bytestring" where
  "player_record p = [dp_color p] @ [dp_side p] @ [dp_number p] @ take 16 (dp_name p)"

lemma load_player_record:
  "length (dp_name p) \<le> 16 \<Longrightarrow> 0 \<notin> set (dp_name p) \<Longrightarrow> load_Player (player_record p) = Inr p"
  by (simp add: load_Player_def player_record_def byte_at_def substr_from_def c_str_id)

lemma load_packet_record: "load_Packet (le16 (pk_time p) @ [pk_sender p] @ pk_data p) = Inr p"
  by (simp add: load_Packet_def le16_def load16_def byte_at_def substr_from_def)

lemma mask_bytes_Cons: "mask_bytes (Suc 0) 4 (b # xs) = b # mask_bytes 0 3 xs"
  by (intro nth_equalityI) (auto simp: nth_mask_bytes in_body_def nth_Cons split: nat.split)

lemma decrypt_Cons:
  assumes "4 \<le> length x"
  shows "fst (decrypt (b # encrypt x) 1) = b # x[1 := encrypt x ! 1, 2 := encrypt x ! 2]"
proof -
  have "fst (decrypt (b # encrypt x) 1) = b # mask_bytes 0 3 (encrypt x)"
    using assms decrypt_eq [of 1 "b # encrypt x"] by (simp add: mask_bytes_Cons)
  also have "mask_bytes 0 3 (encrypt x) = fst (decrypt (encrypt x) 0)"
    using assms decrypt_eq [of 0 "encrypt x"] by simp
  also have "\<dots> = x[1 := encrypt x ! 1, 2 := encrypt x ! 2]"
    by (simp add: decrypt_encrypt_eq [OF assms])
  finally show ?thesis .
qed

lemma length_compress_ge: "4 \<le> length data \<Longrightarrow> 4 \<le> length (compress data)"
  using pack_nonempty by (auto simp: compress_eq Let_def Suc_le_eq tokens_first)

definition status_record :: "byte \<Rightarrow> bytestring \<Rightarrow> bytestring" where
  "status_record n m = n # encrypt (compress (trivialSmartpak m 0xffffffff))"

lemma load_status_record: "load_PlayerStatusMessage (status_record n m) = Inr \<lparr>st_number = n, statusMessage = m\<rparr>"
proof -
  let ?t = "trivialSmartpak m 0xffffffff"
  let ?e = "encrypt (compress ?t)"
  have "4 \<le> length (compress ?t)" by (rule length_compress_ge) (simp add: trivialSmartpak_def le32_def)
  then have d: "fst (decrypt (n # ?e) 1) = n # (compress ?t)[1 := ?e ! 1, 2 := ?e ! 2]" by (rule decrypt_Cons)
  have "decompress ((compress ?t)[1 := ?e ! 1, 2 := ?e ! 2]) 3 = Some (?t[0 := 3, 1 := ?e ! 1, 2 := ?e ! 2])"
    by (rule decompress_compress_header) (simp add: trivialSmartpak_def)
  moreover have "drop 7 (?t[0 := 3, 1 := x, 2 := y]) = m" for x y
    by (simp add: trivialSmartpak_def le32_def)
  ultimately show ?thesis
    using d by (cases "decrypt (n # ?e) 1")
      (simp add: load_PlayerStatusMessage_def status_record_def byte_at_def substr_from_def trivialSmartpak_def)
qed

lemma length_status_record: "length (status_record n m) \<le> length m + 8"
proof -
  let ?t = "trivialSmartpak m 0xffffffff"
  have "4 \<le> length (compress ?t)" by (rule length_compress_ge) (simp add: trivialSmartpak_def le32_def)
  then show ?thesis
    using compress_length [of ?t] by (simp add: status_record_def trivialSmartpak_def le32_def)
qed

section \<open>A complete recording\<close>

record demo_file =
  df_header :: Header
  df_sectors :: "ExtraSector list"
  df_players :: "DemoPlayer list"
  df_statuses :: "(byte \<times> bytestring) list"
  df_unitData :: bytestring
  df_packets :: "(Packet \<times> bytestring list) list"     \<comment> \<open>with the sub-packets they hold\<close>

definition sector_record :: "ExtraSector \<Rightarrow> bytestring" where
  "sector_record es = le32 (sectorType es) @ sector_data es"

definition packet_record :: "Packet \<Rightarrow> bytestring" where
  "packet_record p = le16 (pk_time p) @ [pk_sender p] @ pk_data p"

definition front_records :: "demo_file \<Rightarrow> bytestring list" where
  "front_records df = [header_record (df_header df), le32 (word_of_nat (length (df_sectors df)))] @
     map sector_record (df_sectors df) @ map player_record (df_players df) @
     map (\<lambda>(n, m). status_record n m) (df_statuses df) @ [df_unitData df]"

definition demo_records :: "demo_file \<Rightarrow> bytestring list" where
  "demo_records df = front_records df @ map (packet_record \<circ> fst) (df_packets df)"

definition unmasked :: "ExtraSector \<Rightarrow> ExtraSector" where
  "unmasked es = (if sectorType es = PLAYER_ADDR then es\<lparr>sector_data := map (\<lambda>c. c XOR 42) (sector_data es)\<rparr> else es)"

definition status_dplayid :: "bytestring \<Rightarrow> u32" where
  "status_dplayid m = (case load32 m 0x91 of Some n \<Rightarrow> n | None \<Rightarrow> 0)"

abbreviation sector_event :: "ExtraSector list \<Rightarrow> nat \<Rightarrow> demo_event" where
  "sector_event ss i \<equiv> EvExtraSector (unmasked (ss ! i)) i (length ss)"

abbreviation player_event :: "DemoPlayer list \<Rightarrow> nat \<Rightarrow> demo_event" where
  "player_event ps i \<equiv> EvPlayer (ps ! i) i (length ps)"

abbreviation status_event :: "(byte \<times> bytestring) list \<Rightarrow> nat \<Rightarrow> demo_event" where
  "status_event ms i \<equiv> EvStatus \<lparr>st_number = fst (ms ! i), statusMessage = snd (ms ! i)\<rparr> (status_dplayid (snd (ms ! i))) i (length ms)"

abbreviation packet_event :: "(Packet \<times> bytestring list) list \<Rightarrow> nat \<Rightarrow> demo_event" where
  "packet_event ks i \<equiv> EvPacket (fst (ks ! i)) (snd (ks ! i)) (word_of_nat i)"

definition demo_events :: "demo_file \<Rightarrow> demo_event list" where
  "demo_events df =
     [EvHeader (df_header df)] @
     map (sector_event (df_sectors df)) [0..<length (df_sectors df)] @
     map (player_event (df_players df)) [0..<length (df_players df)] @
     map (status_event (df_statuses df)) [0..<length (df_statuses df)] @
     [EvUnitData \<lparr>unitData = df_unitData df\<rparr>] @
     map (packet_event (df_packets df)) [0..<length (df_packets df)]"

text \<open>What the format can hold.\<close>

definition demo_fits :: "demo_file \<Rightarrow> bool" where
  "demo_fits df = (
     header_fits (df_header df) \<and> version (df_header df) = 5 \<and>
     length (df_players df) = unat (numPlayers (df_header df)) \<and> length (df_statuses df) = unat (numPlayers (df_header df)) \<and>
     length (df_sectors df) \<le> 10000 \<and> list_all (\<lambda>es. length (sector_data es) \<le> 32762) (df_sectors df) \<and>
     list_all (\<lambda>p. length (dp_name p) \<le> 16 \<and> 0 \<notin> set (dp_name p)) (df_players df) \<and>
     list_all (\<lambda>(n, m). 0x95 \<le> length m \<and> length m \<le> 32758) (df_statuses df) \<and>
     record_ok (df_unitData df) \<and>
     list_all (\<lambda>(p, us). length (pk_data p) \<le> 32763 \<and> unsmartpak (pk_data p) False False = Inr us) (df_packets df))"

text \<open>The parser on each group of records.\<close>

lemma header_written:
  assumes "p_header p = None" and "at_record (p_reader p)" and "header_fits h"
  obtains r where "at_record r" and "\<And>rest. parse_header p (record_bytes (header_record h) @ rest) =
    (p\<lparr>p_header := Some h, p_events := p_events p @ [EvHeader h], p_reader := r\<rparr>, rest, Inr ())"
proof -
  have "record_ok (header_record h)"
    using assms(3) by (auto simp: record_ok_def header_record_def header_fits_def TA_DEMO_MAGIC_def ascii_def le16_def)
  moreover have "header_item (header_record h) p = Inr (p\<lparr>p_header := Some h, p_events := p_events p @ [EvHeader h]\<rparr>)"
    by (simp add: header_item_def load_header_record [OF assms(3)] handle_def)
  ultimately show thesis
    using read_item_written [OF items_blind(1) assms(2), of "header_record h"] assms(1) that
    by (auto simp: parse_header_def)
qed

lemma extraHeader_written:
  assumes "p_extraHeader p = None" and "demo_version p > 4" and "at_record (p_reader p)" and "n \<le> 10000"
  obtains r where "at_record r" and "\<And>rest. parse_extraHeader p (record_bytes (le32 n) @ rest) =
    (p\<lparr>p_extraHeader := Some \<lparr>numSectors = n\<rparr>, p_reader := r\<rparr>, rest, Inr ())"
proof -
  have "record_ok (le32 n)" by (simp add: record_ok_def le32_def)
  moreover have "extraHeader_item (le32 n) p = Inr (p\<lparr>p_extraHeader := Some \<lparr>numSectors = n\<rparr>\<rparr>)"
    by (simp add: extraHeader_item_def load_extraHeader_record [OF assms(4)])
  ultimately show thesis
    using read_item_written [OF items_blind(2) assms(3), of "le32 n"] assms(1,2) that
    by (auto simp: parse_extraHeader_def)
qed

lemma sectors_written:
  assumes "at_record (p_reader p)" and "demo_version p > 4" and "p_numExtraSectorsRead p = 0"
    and "total_sectors p = length ss" and "list_all (\<lambda>es. length (sector_data es) \<le> 32762) ss"
  obtains r where "at_record r" and "\<And>rest. parse_sectors p (file_of (map sector_record ss) @ rest) =
    (p\<lparr>p_numExtraSectorsRead := length ss, p_events := p_events p @ map (sector_event ss) [0..<length ss], p_reader := r\<rparr>, rest, Inr ())"
proof -
  define st where "st i = p\<lparr>p_numExtraSectorsRead := i, p_events := p_events p @ map (sector_event ss) [0..<i]\<rparr>" for i
  have ok: "list_all record_ok (map sector_record ss)"
    using assms(5) by (auto simp: list_all_iff record_ok_def sector_record_def le32_def)
  have start: "p = (st 0)\<lparr>p_reader := p_reader p\<rparr>"
    using assms(3) by (cases p) (simp add: st_def)
  have left: "sectors_left (st i) \<longleftrightarrow> i < length ss" for i
    using assms(2,4) by (simp add: st_def demo_version_def total_sectors_def)
  have "sector_item (sector_record (ss ! i)) (st i) = Inr (st (Suc i))" if "i < length ss" for i
    using assms(4)
    by (simp add: sector_item_def sector_record_def load_extraSector_record unmasked_def st_def handle_def total_sectors_def Let_def)
  then show thesis
    using items_loop_phase_written [where st = st, OF items_blind(3) off_readers(3) assms(1) ok start] that left
    by (simp add: parse_sectors_def) (simp add: st_def, blast)
qed

lemma players_written:
  assumes "at_record (p_reader p)" and "p_numPlayersRead p = 0" and "total_players p = length ps"
    and "list_all (\<lambda>q. length (dp_name q) \<le> 16 \<and> 0 \<notin> set (dp_name q)) ps"
  obtains r where "at_record r" and "\<And>rest. parse_players p (file_of (map player_record ps) @ rest) =
    (p\<lparr>p_numPlayersRead := length ps, p_events := p_events p @ map (player_event ps) [0..<length ps], p_reader := r\<rparr>, rest, Inr ())"
proof -
  define st where "st i = p\<lparr>p_numPlayersRead := i, p_events := p_events p @ map (player_event ps) [0..<i]\<rparr>" for i
  have ok: "list_all record_ok (map player_record ps)"
    by (auto simp: list_all_iff record_ok_def player_record_def)
  have start: "p = (st 0)\<lparr>p_reader := p_reader p\<rparr>"
    using assms(2) by (cases p) (simp add: st_def)
  have left: "players_left (st i) \<longleftrightarrow> i < length ps" for i
    using assms(3) by (simp add: st_def total_players_def)
  have "player_item (player_record (ps ! i)) (st i) = Inr (st (Suc i))" if "i < length ps" for i
    using assms(3) load_player_record [of "ps ! i"] list_all_length [THEN iffD1, OF assms(4), rule_format, OF that]
    by (simp add: player_item_def st_def handle_def total_players_def)
  then show thesis
    using items_loop_phase_written [where st = st, OF items_blind(4) off_readers(4) assms(1) ok start] that left
    by (simp add: parse_players_def) (simp add: st_def, blast)
qed

lemma statuses_written:
  assumes "at_record (p_reader p)" and "p_numPlayerStatusMessagesRead p = 0" and "total_players p = length ms"
    and "list_all (\<lambda>(n, m). 0x95 \<le> length m \<and> length m \<le> 32758) ms"
  obtains r where "at_record r" and "\<And>rest. parse_statuses p (file_of (map (\<lambda>(n, m). status_record n m) ms) @ rest) =
    (p\<lparr>p_numPlayerStatusMessagesRead := length ms, p_events := p_events p @ map (status_event ms) [0..<length ms], p_reader := r\<rparr>,
     rest, Inr ())"
proof -
  define st where "st i = p\<lparr>p_numPlayerStatusMessagesRead := i, p_events := p_events p @ map (status_event ms) [0..<i]\<rparr>" for i
  have "record_ok (status_record n m)" if "length m \<le> 32758" for n m
    using that length_status_record [of n m] by (simp add: record_ok_def) (simp add: status_record_def)
  then have ok: "list_all record_ok (map (\<lambda>(n, m). status_record n m) ms)"
    using assms(4) by (auto simp: list_all_iff)
  have start: "p = (st 0)\<lparr>p_reader := p_reader p\<rparr>"
    using assms(2) by (cases p) (simp add: st_def)
  have left: "statuses_left (st i) \<longleftrightarrow> i < length ms" for i
    using assms(3) by (simp add: st_def total_players_def)
  have "status_item (status_record (fst (ms ! i)) (snd (ms ! i))) (st i) = Inr (st (Suc i))" if "i < length ms" for i
  proof -
    have "0x95 \<le> length (snd (ms ! i))"
      using list_all_length [THEN iffD1, OF assms(4), rule_format, OF that] by (auto split: prod.splits)
    then have "load32 (snd (ms ! i)) 0x91 = Some (status_dplayid (snd (ms ! i)))"
      by (simp add: status_dplayid_def load32_def byte_at_def)
    then show ?thesis
      using assms(3) by (simp add: status_item_def load_status_record st_def handle_def total_players_def)
  qed
  then show thesis
    using items_loop_phase_written [where st = st, OF items_blind(5) off_readers(5) assms(1) ok start] that left
    by (simp add: parse_statuses_def split_beta) (simp add: st_def, blast)
qed

lemma unitData_written:
  assumes "at_record (p_reader p)" and "p_numUnitDataRead p = 0" and "record_ok ud"
  obtains r where "at_record r" and "\<And>rest. parse_unitData p (record_bytes ud @ rest) =
    (p\<lparr>p_numUnitDataRead := 1, p_events := p_events p @ [EvUnitData \<lparr>unitData = ud\<rparr>], p_reader := r\<rparr>, rest, Inr ())"
proof -
  define st where "st i = p\<lparr>p_numUnitDataRead := i, p_events := p_events p @ replicate i (EvUnitData \<lparr>unitData = ud\<rparr>)\<rparr>" for i
  have start: "p = (st 0)\<lparr>p_reader := p_reader p\<rparr>"
    using assms(2) by (cases p) (simp add: st_def)
  have "unitData_left (st i) \<longleftrightarrow> i < 1" for i by (simp add: st_def)
  moreover have "unitData_item ud (st 0) = Inr (st (Suc 0))"
    by (simp add: unitData_item_def load_UnitData_def st_def handle_def)
  ultimately show thesis
    using items_loop_phase_written [where st = st, OF items_blind(6) off_readers(6) assms(1) _ start, of "[ud]"] that assms(3)
    by (simp add: parse_unitData_def) (simp add: st_def, blast)
qed

lemma packets_written:
  assumes "at_record (p_reader p)" and "p_numPacketsRead p = 0" and "demo_version p \<noteq> 3"
    and "list_all (\<lambda>(k, us). length (pk_data k) \<le> 32763 \<and> unsmartpak (pk_data k) False False = Inr us) ks"
  obtains r where "at_record r" and "parse_packets 0 p (file_of (map (packet_record \<circ> fst) ks)) =
    (p\<lparr>p_numPacketsRead := word_of_nat (length ks), p_events := p_events p @ map (packet_event ks) [0..<length ks],
       p_reader := r\<rparr>, [], Inl DataNotReady)"
proof -
  define st where "st i = p\<lparr>p_numPacketsRead := word_of_nat i, p_events := p_events p @ map (packet_event ks) [0..<i]\<rparr>" for i
  have ok: "list_all record_ok (map (packet_record \<circ> fst) ks)"
    using assms(4) by (auto simp: list_all_iff record_ok_def packet_record_def le16_def)
  have start: "p = (st 0)\<lparr>p_reader := p_reader p\<rparr>"
    using assms(2) by (cases p) (simp add: st_def)
  have "packet_item (packet_record (fst (ks ! i))) (st i) = Inr (st (Suc i))" if "i < length ks" for i
  proof -
    have "unsmartpak (pk_data (fst (ks ! i))) False False = Inr (snd (ks ! i))"
      using list_all_length [THEN iffD1, OF assms(4), rule_format, OF that] by (auto split: prod.splits)
    then show ?thesis
      using assms(3) load_packet_record [of "fst (ks ! i)"]
      by (simp add: packet_item_def packet_record_def st_def handle_def demo_version_def add.commute)
  qed
  then obtain r where r: "at_record r" and eq: "\<forall>rest. items_loop (\<lambda>_ _. True) packet_item 0 p
      (file_of (map (packet_record \<circ> fst) ks) @ rest) =
      items_loop (\<lambda>_ _. True) packet_item 0 ((st (length ks))\<lparr>p_reader := r\<rparr>) rest"
    using items_loop_written [where st = st and c = "\<lambda>_. True", OF items_blind(7) _ assms(1) ok start] by (auto simp: off_reader_def)
  have "read_item packet_item ((st (length ks))\<lparr>p_reader := r\<rparr>) [] = ((st (length ks))\<lparr>p_reader := r\<rparr>, [], Inl DataNotReady)"
    using r by (simp add: read_item_def demo_record_def at_record_def read_reclen1_def)
  then show thesis
    using that [OF r] eq [rule_format, of "[]"] by (simp add: packets_loop items_loop_fail) (simp add: st_def)
qed

lemma seq_read_step: "f p s = (p1, s1, Inr ()) \<Longrightarrow> g p1 s1 = x \<Longrightarrow> seq_read f g p s = x"
  by (simp add: seq_read_def)

lemma demo_file_scanned:
  assumes "demo_fits df"
  obtains q where "doParse 0 DemoScan_new (file_of (demo_records df)) = (q, [], Inl DataNotReady)"
    and "p_events q = demo_events df"
proof -
  let ?h = "df_header df" and ?n = "word_of_nat (length (df_sectors df)) :: u32"
  note fits = assms [unfolded demo_fits_def]
  have n: "unat ?n = length (df_sectors df)" and n': "?n \<le> 10000"
    using fits by (simp_all add: unat_of_nat take_bit_nat_eq_self word_le_nat_alt)
  obtain r1 where "at_record r1" and s1: "\<And>rest. parse_header DemoScan_new (record_bytes (header_record ?h) @ rest) =
      (DemoScan_new\<lparr>p_header := Some ?h, p_events := [EvHeader ?h], p_reader := r1\<rparr>, rest, Inr ())"
    using header_written [of DemoScan_new ?h] fits
    by (auto simp: DemoScan_new_def DemoReader_new_def at_record_def)
  define p1 where "p1 = DemoScan_new\<lparr>p_header := Some ?h, p_events := [EvHeader ?h], p_reader := r1\<rparr>"
  have p1: "p_header p1 = Some ?h" "p_extraHeader p1 = None" "at_record (p_reader p1)" "demo_version p1 = 5"
    using \<open>at_record r1\<close> fits by (simp_all add: p1_def DemoScan_new_def demo_version_def)
  obtain r2 where "at_record r2" and s2: "\<And>rest. parse_extraHeader p1 (record_bytes (le32 ?n) @ rest) =
      (p1\<lparr>p_extraHeader := Some \<lparr>numSectors = ?n\<rparr>, p_reader := r2\<rparr>, rest, Inr ())"
    using extraHeader_written [of p1 ?n] p1 n' by auto
  define p2 where "p2 = p1\<lparr>p_extraHeader := Some \<lparr>numSectors = ?n\<rparr>, p_reader := r2\<rparr>"
  obtain r3 where "at_record r3" and s3: "\<And>rest. parse_sectors p2 (file_of (map sector_record (df_sectors df)) @ rest) =
      (p2\<lparr>p_numExtraSectorsRead := length (df_sectors df), p_events := p_events p2 @ map (sector_event (df_sectors df)) [0..<length (df_sectors df)],
         p_reader := r3\<rparr>, rest, Inr ())"
    by (rule sectors_written [of p2 "df_sectors df"])
      (use \<open>at_record r2\<close> p1 n fits in \<open>auto simp: p2_def demo_version_def total_sectors_def p1_def DemoScan_new_def\<close>)
  define p3 where "p3 = p2\<lparr>p_numExtraSectorsRead := length (df_sectors df),
      p_events := p_events p2 @ map (sector_event (df_sectors df)) [0..<length (df_sectors df)], p_reader := r3\<rparr>"
  obtain r4 where "at_record r4" and s4: "\<And>rest. parse_players p3 (file_of (map player_record (df_players df)) @ rest) =
      (p3\<lparr>p_numPlayersRead := length (df_players df), p_events := p_events p3 @ map (player_event (df_players df)) [0..<length (df_players df)],
         p_reader := r4\<rparr>, rest, Inr ())"
    by (rule players_written [of p3 "df_players df"])
      (use \<open>at_record r3\<close> fits in \<open>auto simp: p3_def p2_def p1_def DemoScan_new_def total_players_def\<close>)
  define p4 where "p4 = p3\<lparr>p_numPlayersRead := length (df_players df),
      p_events := p_events p3 @ map (player_event (df_players df)) [0..<length (df_players df)], p_reader := r4\<rparr>"
  obtain r5 where "at_record r5" and s5: "\<And>rest. parse_statuses p4 (file_of (map (\<lambda>(n, m). status_record n m) (df_statuses df)) @ rest) =
      (p4\<lparr>p_numPlayerStatusMessagesRead := length (df_statuses df),
         p_events := p_events p4 @ map (status_event (df_statuses df)) [0..<length (df_statuses df)], p_reader := r5\<rparr>, rest, Inr ())"
    by (rule statuses_written [of p4 "df_statuses df"])
      (use \<open>at_record r4\<close> fits in \<open>auto simp: p4_def p3_def p2_def p1_def DemoScan_new_def total_players_def\<close>)
  define p5 where "p5 = p4\<lparr>p_numPlayerStatusMessagesRead := length (df_statuses df),
      p_events := p_events p4 @ map (status_event (df_statuses df)) [0..<length (df_statuses df)], p_reader := r5\<rparr>"
  obtain r6 where "at_record r6" and s6: "\<And>rest. parse_unitData p5 (record_bytes (df_unitData df) @ rest) =
      (p5\<lparr>p_numUnitDataRead := 1, p_events := p_events p5 @ [EvUnitData \<lparr>unitData = df_unitData df\<rparr>], p_reader := r6\<rparr>, rest, Inr ())"
    by (rule unitData_written [of p5 "df_unitData df"])
      (use \<open>at_record r5\<close> fits in \<open>auto simp: p5_def p4_def p3_def p2_def p1_def DemoScan_new_def\<close>)
  define p6 where "p6 = p5\<lparr>p_numUnitDataRead := 1, p_events := p_events p5 @ [EvUnitData \<lparr>unitData = df_unitData df\<rparr>], p_reader := r6\<rparr>"
  note ps = p6_def p5_def p4_def p3_def p2_def p1_def DemoScan_new_def
  obtain r7 where s7: "parse_packets 0 p6 (file_of (map (packet_record \<circ> fst) (df_packets df))) =
      (p6\<lparr>p_numPacketsRead := word_of_nat (length (df_packets df)),
         p_events := p_events p6 @ map (packet_event (df_packets df)) [0..<length (df_packets df)], p_reader := r7\<rparr>, [], Inl DataNotReady)"
    by (rule packets_written [of p6 "df_packets df"])
      (use \<open>at_record r6\<close> fits in \<open>auto simp: ps demo_version_def\<close>)
  have "doParse 0 DemoScan_new (file_of (demo_records df)) =
      parse_packets 0 p6 (file_of (map (packet_record \<circ> fst) (df_packets df)))"
    unfolding doParse_def parse_front_def demo_records_def front_records_def
    by (simp add: seq_read_def s1 [folded p1_def] s2 [folded p2_def] s3 [folded p3_def] s4 [folded p4_def]
        s5 [folded p5_def] s6 [folded p6_def] del: map_map)
  with s7 show thesis
    by (intro that) (auto simp: ps demo_events_def)
qed

lemma demo_file_parsed:
  assumes "demo_fits df"
  shows "\<exists>p b. demo_parse 0 DemoParser_new (file_of (demo_records df)) = (p, [], Inr b) \<and>
    p_events (scan p) = demo_events df"
proof -
  obtain q where "doParse 0 DemoScan_new (file_of (demo_records df)) = (q, [], Inl DataNotReady)"
    and "p_events q = demo_events df"
    using demo_file_scanned [OF assms] by blast
  then show ?thesis
    using demo_parse_soft [of 0 DemoParser_new "file_of (demo_records df)" q "[]"] by (fastforce simp: DemoParser_new_def)
qed

section \<open>What the compiler writes\<close>

lemma writeRecord_bytes: "writeRecord s = Inr b \<Longrightarrow> b = record_bytes s"
  by (auto simp: writeRecord_def record_bytes_def Let_def split: if_splits)

lemma write_all_records: "write_all (map (\<lambda>x. writeRecord (f x)) xs) = Inr b \<Longrightarrow> b = file_of (map f xs)"
proof (induction xs arbitrary: b)
  case (Cons x xs)
  then show ?case by (auto simp: try_then_def split: sum.splits dest: writeRecord_bytes)
qed simp

definition address :: "DemoCompiler \<Rightarrow> GameContext \<Rightarrow> u32 \<Rightarrow> bytestring" where
  "address d g pid = (case dc_sockets d (uc_socket (player_context d g pid)) of Some a \<Rightarrow> a | None \<Rightarrow> [])"

text \<open>The contents of the recording of game \<open>g\<close>, the players being \<open>pids\<close>.\<close>

definition compiled_file :: "compiler_cfg \<Rightarrow> DemoCompiler \<Rightarrow> GameContext \<Rightarrow> u32 list \<Rightarrow> (Packet \<times> bytestring list) list \<Rightarrow> demo_file" where
  "compiled_file cfg d g pids ks =
     \<lparr>df_header = commit_header g pids,
      df_sectors = [\<lparr>sectorType = RECORDER_VERSION, sector_data = cfg_version cfg\<rparr>,
                    \<lparr>sectorType = DATE, sector_data = cfg_today cfg\<rparr>] @ map (\<lambda>pid. addr_sector (address d g pid)) pids,
      df_players = map (\<lambda>pid. demo_player (player_context d g pid)) pids,
      df_statuses = map (\<lambda>pid. (word_of_int (uc_gamePlayerNumber (player_context d g pid)),
                                gp_statusMessage (uc_gamePlayerInfo (player_context d g pid)))) pids,
      df_unitData = unitData (all_unitData (gc_unitData g)),
      df_packets = ks\<rparr>"

lemma write_addresses:
  "list_all (known g) pids \<Longrightarrow> write_all (map (write_address d g) pids) = Inr b \<Longrightarrow>
     b = file_of (map (\<lambda>pid. sector_record (addr_sector (address d g pid))) pids)"
proof (induction pids arbitrary: b)
  case (Cons pid pids)
  then obtain i where i: "map_of (gc_players g) pid = Some i" by (auto simp: known_def)
  obtain b1 b2 where b: "b = b1 @ b2" and b1: "write_address d g pid = Inr b1"
    and b2: "write_all (map (write_address d g) pids) = Inr b2"
    using Cons.prems(2) by (auto simp: try_then_def split: sum.splits)
  from b1 i have "b1 = record_bytes (sector_record (addr_sector (address d g pid)))"
    by (auto simp: write_address_def ipAddr_def address_def player_context_def opt_undef_def try_then_def
        write_ExtraSector_def sector_record_def split: option.splits dest: writeRecord_bytes)
  with Cons b b2 show ?case by simp
qed simp

lemma write_statuses_records:
  "write_statuses cfg mn us si = Inr (si', b) \<Longrightarrow>
     b = file_of (map (\<lambda>u. status_record (word_of_int (uc_gamePlayerNumber u)) (gp_statusMessage (uc_gamePlayerInfo u))) us)"
proof (induction us arbitrary: si b)
  case (Cons u us)
  then show ?case
    by (auto simp: opt_undef_def try_then_def write_PlayerStatusMessage_def demo_status_def status_record_def
        split: option.splits sum.splits prod.splits dest!: writeRecord_bytes)
qed simp

lemma header_bytes_records:
  assumes "header_bytes cfg d g pids = Inr (b, meta)" and "list_all (known g) pids" and "length pids \<le> 10"
  shows "b = file_of (front_records (compiled_file cfg d g pids ks))"
proof -
  have users: "filter (known g) pids = pids" using assms(2) by (simp add: list_all_iff)
  have n: "(2 + ucast (word_of_nat (length pids) :: byte) :: u32) = word_of_nat (Suc (Suc (length pids)))"
  proof -
    have "(ucast (word_of_nat (length pids) :: byte) :: u32) = word_of_nat (length pids)"
      using assms(3) by (simp add: unsigned_of_nat take_bit_nat_eq_self)
    then show ?thesis by simp
  qed
  obtain b1 b2 b3 b4 b5 b6 si b7 b8 where
    w: "write_Header (commit_header g pids) = Inr b1"
    "write_ExtraHeader \<lparr>numSectors = 2 + ucast (numPlayers (commit_header g pids))\<rparr> = Inr b2"
    "write_ExtraSector \<lparr>sectorType = RECORDER_VERSION, sector_data = cfg_version cfg\<rparr> = Inr b3"
    "write_ExtraSector \<lparr>sectorType = DATE, sector_data = cfg_today cfg\<rparr> = Inr b4"
    "write_all (map (write_address d g) pids) = Inr b5"
    "write_all (map (\<lambda>u. write_Player (demo_player u)) (map (player_context d g) pids)) = Inr b6"
    "write_statuses cfg (hd_mapName (commit_header g pids)) (map (player_context d g) pids)
       \<lparr>si_taMapHash = None, si_versionMajor = 0, si_versionMinor = 0, si_cheatsEnabled = False, si_permLosByte = 0\<rparr> = Inr (si, b7)"
    "write_UnitData (all_unitData (gc_unitData g)) = Inr b8"
    and b: "b = b1 @ b2 @ b3 @ b4 @ b5 @ b6 @ b7 @ b8"
    using assms(1) by (auto simp: header_bytes_def Let_def users try_then_def split: sum.splits prod.splits)
  have "b1 = record_bytes (header_record (commit_header g pids))"
    using w(1) by (simp add: write_Header_def header_record_def writeRecord_bytes)
  moreover have "b2 = record_bytes (le32 (word_of_nat (Suc (Suc (length pids)))))"
    using w(2) n by (simp add: write_ExtraHeader_def commit_header_def writeRecord_bytes)
  moreover have "b3 = record_bytes (sector_record \<lparr>sectorType = RECORDER_VERSION, sector_data = cfg_version cfg\<rparr>)"
    and "b4 = record_bytes (sector_record \<lparr>sectorType = DATE, sector_data = cfg_today cfg\<rparr>)"
    using w(3,4) by (simp_all add: write_ExtraSector_def sector_record_def writeRecord_bytes)
  moreover have "b6 = file_of (map (\<lambda>pid. player_record (demo_player (player_context d g pid))) pids)"
    using w(6) write_all_records [of "\<lambda>pid. player_record (demo_player (player_context d g pid))" pids b6]
    by (simp add: write_Player_def player_record_def comp_def)
  moreover have "b8 = record_bytes (unitData (all_unitData (gc_unitData g)))"
    using w(8) by (simp add: write_UnitData_def writeRecord_bytes)
  ultimately show ?thesis
    using b write_addresses [OF assms(2) w(5)] write_statuses_records [OF w(7)]
    by (simp add: front_records_def compiled_file_def comp_def)
qed

text \<open>
  What the compiler needs to know of a game in order to record it: every locked-in player is registered, his socket
  still exists and his status message can be decoded.
\<close>

definition recordable :: "compiler_cfg \<Rightarrow> DemoCompiler \<Rightarrow> GameContext \<Rightarrow> bool" where
  "recordable cfg d g = (
     list_all (\<lambda>pid. known g pid \<and> dc_sockets d (uc_socket (player_context d g pid)) \<noteq> None \<and>
       (case TPlayerInfo_parse (cfg_garbage cfg) (gp_statusMessage (uc_gamePlayerInfo (player_context d g pid))) of
          None \<Rightarrow> False | Some info \<Rightarrow> getMapName info \<noteq> None)) (gc_playersLockedIn g) \<and>
     repo_hash (gc_unitData g) \<noteq> None)"

lemma number_players_keeps:
  "dc_sockets (number_players g pids n d) = dc_sockets d"
  "uc_socket (dc_contexts (number_players g pids n d) i) = uc_socket (dc_contexts d i)"
  "uc_gamePlayerInfo (dc_contexts (number_players g pids n d) i) = uc_gamePlayerInfo (dc_contexts d i)"
  by (induction g pids n d rule: number_players.induct) (auto simp: update_context_def split: option.splits)

lemma recordable_number: "recordable cfg (number_players g pids n d) g = recordable cfg d g"
  by (simp add: recordable_def player_context_def number_players_keeps)

lemma write_all_ok: "list_all (\<lambda>x. \<exists>b. x = Inr b) xs \<Longrightarrow> \<exists>b. write_all xs = Inr b"
  by (induction xs) auto

lemma write_statuses_ok:
  "list_all (\<lambda>u. length (gp_statusMessage (uc_gamePlayerInfo u)) \<le> 32758 \<and>
      (case TPlayerInfo_parse (cfg_garbage cfg) (gp_statusMessage (uc_gamePlayerInfo u)) of
         None \<Rightarrow> False | Some info \<Rightarrow> getMapName info \<noteq> None)) us \<Longrightarrow>
   \<exists>si' b. write_statuses cfg mn us si = Inr (si', b)"
proof (induction us arbitrary: si)
  case (Cons u us)
  let ?m = "gp_statusMessage (uc_gamePlayerInfo u)"
  obtain si1 where si1: "read_status cfg mn ?m si = Some si1"
    using Cons.prems by (auto simp: read_status_def split: option.splits)
  have "length (status_record (word_of_int (uc_gamePlayerNumber u)) ?m) \<le> 65533"
    using Cons.prems length_status_record [of "word_of_int (uc_gamePlayerNumber u)" ?m] by simp
  from writeRecord_Inr [OF this] have "\<exists>b. write_PlayerStatusMessage (demo_status u) = Inr b"
    by (simp add: write_PlayerStatusMessage_def demo_status_def status_record_def)
  moreover obtain si' b where "write_statuses cfg mn us si1 = Inr (si', b)"
    using Cons.IH [of si1] Cons.prems by auto
  ultimately show ?case using si1 by auto
qed simp

lemma header_bytes_ok:
  assumes "recordable cfg d g" and "demo_fits (compiled_file cfg d g (gc_playersLockedIn g) [])"
  shows "\<exists>file meta. header_bytes cfg d g (gc_playersLockedIn g) = Inr (file, meta)"
proof -
  let ?pids = "gc_playersLockedIn g" and ?us = "map (player_context d g) (gc_playersLockedIn g)"
  note fits = assms(2) [unfolded demo_fits_def compiled_file_def, simplified]
  have users: "filter (known g) ?pids = ?pids"
    using assms(1) by (auto simp: recordable_def list_all_iff filter_id_conv)
  have sector: "\<exists>b. write_ExtraSector es = Inr b" if "length (sector_data es) \<le> 32762" for es
    unfolding write_ExtraSector_def by (rule exI, rule writeRecord_Inr) (use that in \<open>simp add: le32_def\<close>)
  have statuses: "\<exists>si' b. write_statuses cfg mn ?us si = Inr (si', b)" for mn si
    by (rule write_statuses_ok) (use assms(1) fits in \<open>auto simp: recordable_def list_all_iff split: option.splits\<close>)
  have "\<exists>b. write_Header (commit_header g ?pids) = Inr b"
    unfolding write_Header_def by (rule exI, rule writeRecord_Inr) (simp add: commit_header_def ascii_def le16_def)
  moreover have "\<exists>b. write_ExtraHeader eh = Inr b" for eh
    unfolding write_ExtraHeader_def by (rule exI, rule writeRecord_Inr) (simp add: le32_def)
  moreover have "\<exists>b. write_all (map (write_address d g) ?pids) = Inr b"
  proof (rule write_all_ok)
    have "\<exists>b. write_address d g pid = Inr b" if "pid \<in> set ?pids" for pid
    proof -
      have "known g pid" and "dc_sockets d (uc_socket (player_context d g pid)) \<noteq> None"
        using assms(1) that by (simp_all add: recordable_def list_all_iff)
      then obtain i a where "map_of (gc_players g) pid = Some i" and "dc_sockets d (uc_socket (dc_contexts d i)) = Some a"
        by (auto simp: known_def player_context_def)
      moreover from this have "length (sector_data (addr_sector a)) \<le> 32762"
        using fits that by (auto simp: list_all_iff address_def player_context_def)
      ultimately show ?thesis using sector by (simp add: write_address_def ipAddr_def)
    qed
    then show "list_all (\<lambda>x. \<exists>b. x = Inr b) (map (write_address d g) ?pids)" by (simp add: list_all_iff)
  qed
  moreover have "\<exists>b. write_all (map (\<lambda>u. write_Player (demo_player u)) ?us) = Inr b"
  proof (rule write_all_ok)
    have "\<exists>b. write_Player pl = Inr b" for pl
      unfolding write_Player_def by (rule exI, rule writeRecord_Inr) simp
    then show "list_all (\<lambda>x. \<exists>b. x = Inr b) (map (\<lambda>u. write_Player (demo_player u)) ?us)" by (simp add: list_all_iff)
  qed
  moreover have "\<exists>b. write_UnitData (all_unitData (gc_unitData g)) = Inr b"
    unfolding write_UnitData_def by (rule exI, rule writeRecord_Inr) (use fits in \<open>simp add: record_ok_def\<close>)
  moreover have "\<exists>h. getUnitDataHash cfg g = Inr h"
    using assms(1) by (auto simp: recordable_def getUnitDataHash_def)
  ultimately obtain b1 b2 b5 b6 b8 h where w: "write_Header (commit_header g ?pids) = Inr b1"
    "write_ExtraHeader \<lparr>numSectors = 2 + ucast (numPlayers (commit_header g ?pids))\<rparr> = Inr b2"
    "write_all (map (write_address d g) ?pids) = Inr b5"
    "write_all (map (\<lambda>u. write_Player (demo_player u)) ?us) = Inr b6"
    "write_UnitData (all_unitData (gc_unitData g)) = Inr b8" "getUnitDataHash cfg g = Inr h"
    by blast
  obtain b3 b4 where v: "write_ExtraSector \<lparr>sectorType = RECORDER_VERSION, sector_data = cfg_version cfg\<rparr> = Inr b3"
    "write_ExtraSector \<lparr>sectorType = DATE, sector_data = cfg_today cfg\<rparr> = Inr b4"
    using sector [of "\<lparr>sectorType = RECORDER_VERSION, sector_data = cfg_version cfg\<rparr>"]
      sector [of "\<lparr>sectorType = DATE, sector_data = cfg_today cfg\<rparr>"] fits by auto
  obtain si b7 where "write_statuses cfg (hd_mapName (commit_header g ?pids)) ?us
      \<lparr>si_taMapHash = None, si_versionMajor = 0, si_versionMinor = 0, si_cheatsEnabled = False, si_permLosByte = 0\<rparr> = Inr (si, b7)"
    using statuses by blast
  then show ?thesis by (simp add: header_bytes_def Let_def users w v del: map_map)
qed

section \<open>Moves\<close>

text \<open>A sequence of moves committed to a running recording: time, player number and data of each.\<close>

fun commit_moves :: "(nat \<times> int \<times> bytestring) list \<Rightarrow> GameContext \<Rightarrow> GameContext \<times> (cpp_error + unit)" where
  "commit_moves [] g = (g, Inr ())"
| "commit_moves ((now, n, moves) # ms) g = (case gc_demoCompilation g of
     None \<Rightarrow> commit_moves ms g
   | Some written \<Rightarrow>
       (case commitMove now n moves written g of
          (g1, Inl e) \<Rightarrow> (g1, Inl e)
        | (g1, Inr _) \<Rightarrow> commit_moves ms g1))"

text \<open>What a client sends for the sub-packets of one packet, and the packets that are recorded.\<close>

definition recorded_moves :: "bytestring list \<Rightarrow> bytestring" where
  "recorded_moves ss = 0x03 # smartpak_all True ss"

fun game_packets :: "nat option \<Rightarrow> (nat \<times> int \<times> bytestring list) list \<Rightarrow> (Packet \<times> bytestring list) list" where
  "game_packets t [] = []"
| "game_packets t ((now, n, ss) # ms) =
     (\<lparr>pk_time = word_of_nat (now - (case t of None \<Rightarrow> now | Some t0 \<Rightarrow> t0)), pk_sender = word_of_int n,
       pk_data = recorded_moves ss\<rparr>, ss) # game_packets (Some now) ms"

definition moves_ok :: "(nat \<times> int \<times> bytestring list) list \<Rightarrow> bool" where
  "moves_ok ms = list_all (\<lambda>(now, n, ss). ticks_ok None ss \<and> length (smartpak_all True ss) \<le> 32762) ms"

lemma unsmartpak_recorded: "ticks_ok None ss \<Longrightarrow> unsmartpak (recorded_moves ss) False False = Inr ss"
  using fast_loop_smartpak_all [of None ss 0] by (simp add: unsmartpak_def recorded_moves_def byte_at_def)

lemma length_recorded: "length (recorded_moves ss) = Suc (length (smartpak_all True ss))"
  by (simp add: recorded_moves_def)

lemma game_packets_ok:
  "moves_ok ms \<Longrightarrow> list_all (\<lambda>(k, us). length (pk_data k) \<le> 32763 \<and> unsmartpak (pk_data k) False False = Inr us) (game_packets t ms)"
  by (induction t ms rule: game_packets.induct) (auto simp: moves_ok_def unsmartpak_recorded length_recorded)

lemma commit_moves_file:
  "moves_ok ms \<Longrightarrow> gc_demoCompilation g = Some w \<Longrightarrow>
   \<exists>g'. commit_moves (map (\<lambda>(now, n, ss). (now, n, recorded_moves ss)) ms) g = (g', Inr ()) \<and>
     gc_demoCompilation g' = Some (w @ file_of (map (packet_record \<circ> fst) (game_packets (gc_timer g) ms)))"
proof (induction ms arbitrary: g w)
  case (Cons m ms)
  obtain now n ss where m: "m = (now, n, ss)" by (cases m)
  let ?pk = "\<lparr>pk_time = word_of_nat (now - (case gc_timer g of None \<Rightarrow> now | Some t \<Rightarrow> t)), pk_sender = word_of_int n,
    pk_data = recorded_moves ss\<rparr>"
  let ?g = "g\<lparr>gc_timer := Some now, gc_demoCompilation := Some (w @ record_bytes (packet_record ?pk))\<rparr>"
  have "length (recorded_moves ss) \<le> 32763" using Cons.prems(1) m by (simp add: moves_ok_def recorded_moves_def)
  then have "write_Packet ?pk = Inr (record_bytes (packet_record ?pk))"
    unfolding write_Packet_def packet_record_def by (intro writeRecord_Inr) (simp add: le16_def)
  then have "commitMove now n (recorded_moves ss) w g = (?g, Inr ())"
    by (simp add: commitMove_def Let_def)
  with Cons.IH [of ?g "w @ record_bytes (packet_record ?pk)"] Cons.prems m show ?case
    by (simp add: moves_ok_def)
qed simp

lemma demo_fits_packets:
  "demo_fits (compiled_file cfg d g pids []) \<Longrightarrow> moves_ok ms \<Longrightarrow> demo_fits (compiled_file cfg d g pids (game_packets t ms))"
  using game_packets_ok [of ms t] by (simp add: demo_fits_def compiled_file_def)

text \<open>The file that commits of the headers and of moves leave behind, with the meta data written for it.\<close>

lemma recorded_file:
  assumes "recordable cfg d g" and "d' = number_players g (gc_playersLockedIn g) 0 d"
    and "demo_fits (compiled_file cfg d' g (gc_playersLockedIn g) [])" and "moves_ok ms"
  obtains contents meta g' where
    "header_bytes cfg d' g (gc_playersLockedIn g) = Inr (contents, meta)"
    and "commitHeaders cfg g fn d = (d', [WroteMeta (fn @ ascii ''.json'') meta], Inr (Some contents))"
    and "commit_moves (map (\<lambda>(now, n, ss). (now, n, recorded_moves ss)) ms) (g\<lparr>gc_demoCompilation := Some contents\<rparr>) = (g', Inr ())"
    and "gc_demoCompilation g' =
      Some (file_of (demo_records (compiled_file cfg d' g (gc_playersLockedIn g) (game_packets (gc_timer g) ms))))"
proof -
  let ?pids = "gc_playersLockedIn g" and ?ks = "game_packets (gc_timer g) ms"
  let ?df = "compiled_file cfg d' g ?pids ?ks"
  have rec: "recordable cfg d' g" using assms(1,2) by (simp add: recordable_number)
  then have known: "list_all (known g) ?pids" by (auto simp: recordable_def list_all_iff)
  then have "filter (known g) ?pids = ?pids" by (auto simp: filter_id_conv list_all_iff)
  moreover obtain f meta where f: "header_bytes cfg d' g ?pids = Inr (f, meta)"
    using header_bytes_ok [OF rec assms(3)] by blast
  ultimately have commit: "commitHeaders cfg g fn d = (d', [WroteMeta (fn @ ascii ''.json'') meta], Inr (Some f))"
    by (simp add: commitHeaders_def Let_def flip: assms(2))
  have "length ?pids \<le> 10"
    using assms(3) by (auto simp: demo_fits_def compiled_file_def header_fits_def word_le_nat_alt)
  then have contents: "f = file_of (front_records ?df)"
    using header_bytes_records [OF f known] by blast
  obtain g' where g': "commit_moves (map (\<lambda>(now, n, ss). (now, n, recorded_moves ss)) ms) (g\<lparr>gc_demoCompilation := Some f\<rparr>) = (g', Inr ())"
    "gc_demoCompilation g' = Some (f @ file_of (map (packet_record \<circ> fst) ?ks))"
    using commit_moves_file [OF assms(4), of "g\<lparr>gc_demoCompilation := Some f\<rparr>" f] by auto
  have "f @ file_of (map (packet_record \<circ> fst) ?ks) = file_of (demo_records ?df)"
    by (simp add: contents demo_records_def) (simp add: compiled_file_def)
  with g' show thesis by (intro that [OF f commit]) simp_all
qed

text \<open>
  C2. A game that was recorded can be played back. When every locked-in player is registered and connected and the
  data of the game fit the format, the compiler writes a recording; after any sequence of moves, as the clients send
  them, the file parses to its end without an exception. The viewer is handed the map and unit limit of the game, the
  version, date and addresses, the locked-in players in their order with the numbers they were given, their
  status messages as they were reported, the unit data, and for every move the number of the player and exactly the
  sub-packets his game had sent.
\<close>

theorem recorded_game_replays:
  assumes "recordable cfg d g" and "d' = number_players g (gc_playersLockedIn g) 0 d"
    and "demo_fits (compiled_file cfg d' g (gc_playersLockedIn g) [])" and "moves_ok ms"
  shows "\<exists>out contents g' contents' p b.
    commitHeaders cfg g fn d = (d', out, Inr (Some contents)) \<and>
    commit_moves (map (\<lambda>(now, n, ss). (now, n, recorded_moves ss)) ms) (g\<lparr>gc_demoCompilation := Some contents\<rparr>) = (g', Inr ()) \<and>
    gc_demoCompilation g' = Some contents' \<and>
    demo_parse 0 DemoParser_new contents' = (p, [], Inr b) \<and>
    p_events (scan p) = demo_events (compiled_file cfg d' g (gc_playersLockedIn g) (game_packets (gc_timer g) ms))"
proof -
  obtain contents meta g' where "commitHeaders cfg g fn d = (d', [WroteMeta (fn @ ascii ''.json'') meta], Inr (Some contents))"
    and "commit_moves (map (\<lambda>(now, n, ss). (now, n, recorded_moves ss)) ms) (g\<lparr>gc_demoCompilation := Some contents\<rparr>) = (g', Inr ())"
    and "gc_demoCompilation g' =
      Some (file_of (demo_records (compiled_file cfg d' g (gc_playersLockedIn g) (game_packets (gc_timer g) ms))))"
    by (rule recorded_file [OF assms])
  then show ?thesis
    using demo_file_parsed [OF demo_fits_packets [OF assms(3,4), of "gc_timer g"]] by blast
qed

text \<open>One connection whose player has introduced himself and sent his status.\<close>

definition example_cfg :: compiler_cfg where
  "example_cfg = \<lparr>cfg_qt = \<lparr>qt_of = \<lparr>fromUtf8 = id, bytesToInt = (\<lambda>_. 0), uintToString = (\<lambda>_. [])\<rparr>,
       bytesToUInt = (\<lambda>_. 0), qset_order = id\<rparr>,
     cfg_md5 = (\<lambda>_. []), cfg_demoPath = le32, cfg_version = ascii ''taf'', cfg_today = ascii ''2021-01-01'',
     cfg_minDemoSize = 100, cfg_noUserContextOption = IGNORE, cfg_garbage = 0, cfg_signal_at_once = True\<rparr>"

definition example_status :: bytestring where
  "example_status = 0x20 # replicate 191 0"

definition example_compiler :: DemoCompiler where
  "example_compiler = DemoCompiler_new\<lparr>dc_sockets := [4 \<mapsto> ascii ''10.0.0.7''],
     dc_contexts := (\<lambda>_. (UserContext_new 4)\<lparr>uc_gameId := 9, uc_playerDpId := 77,
       uc_gamePlayerInfo := \<lparr>gp_side = 0, gp_name = ascii ''axle'', gp_statusMessage = example_status\<rparr>\<rparr>),
     dc_nextContext := 1, dc_players := [(4, 0)]\<rparr>"

definition example_game :: GameContext where
  "example_game = GameContext_new\<lparr>gc_gameId := 9, gc_players := [(77, 0)], gc_playersLockedIn := [77],
     gc_unitData := [((2, 7), [0x1a, 2, 0, 0, 0, 0, 7, 0, 0, 0, 0x34, 0x12, 0, 0])]\<rparr>"

lemma example_recordable: "recordable example_cfg example_compiler example_game"
  by code_simp

lemma example_player:
  "player_context (number_players example_game [77] 0 example_compiler) example_game 77 =
     (UserContext_new 4)\<lparr>uc_gameId := 9, uc_playerDpId := 77, uc_gamePlayerNumber := 1,
       uc_gamePlayerInfo := \<lparr>gp_side = 0, gp_name = ascii ''axle'', gp_statusMessage = example_status\<rparr>\<rparr>"
  by (simp add: player_context_def example_game_def example_compiler_def update_context_def)

lemma example_fits:
  "demo_fits (compiled_file example_cfg (number_players example_game (gc_playersLockedIn example_game) 0 example_compiler)
     example_game (gc_playersLockedIn example_game) [])"
proof -
  have locked: "gc_playersLockedIn example_game = [77]" and
    hdr: "gc_header example_game = GameInfoMessage_new" by (simp_all add: example_game_def GameContext_new_def)
  have "header_fits (commit_header example_game [77])"
    by (simp add: header_fits_def commit_header_def TA_DEMO_MAGIC_def hdr GameInfoMessage_new_def printable_def ascii_def)
  moreover have "length (unitData (all_unitData (gc_unitData example_game))) = 14"
    by (simp add: all_unitData_def example_game_def)
  moreover have "dc_sockets (number_players example_game [77] 0 example_compiler) 4 = Some (ascii ''10.0.0.7'')"
    unfolding number_players_keeps by (simp add: example_compiler_def)
  ultimately show ?thesis
    unfolding locked demo_fits_def compiled_file_def
    by (auto simp: example_player commit_header_def example_cfg_def addr_sector_def address_def ascii_def UserContext_new_def
        demo_player_def example_status_def record_ok_def Let_def simp del: number_players.simps)
qed

theorem recorded_game_replays_witness:
  "\<exists>out contents g' contents' p b.
    commitHeaders example_cfg example_game [] example_compiler =
      (number_players example_game [77] 0 example_compiler, out, Inr (Some contents)) \<and>
    commit_moves [(1000, 1, recorded_moves [tick_packet 7, [0x19, 0, 5]])] (example_game\<lparr>gc_demoCompilation := Some contents\<rparr>) = (g', Inr ()) \<and>
    gc_demoCompilation g' = Some contents' \<and> demo_parse 0 DemoParser_new contents' = (p, [], Inr b) \<and>
    p_events (scan p) = demo_events (compiled_file example_cfg (number_players example_game [77] 0 example_compiler)
      example_game [77] [(\<lparr>pk_time = 0, pk_sender = 1, pk_data = recorded_moves [tick_packet 7, [0x19, 0, 5]]\<rparr>, [tick_packet 7, [0x19, 0, 5]])])"
proof -
  have "moves_ok [(1000, 1, [tick_packet 7, [0x19, 0, 5]])]" by code_simp
  from recorded_game_replays [OF example_recordable refl example_fits this, of "[]"] show ?thesis
    by (simp add: example_game_def GameContext_new_def)
qed

end
