(* ===== verification/Demo_Server.thy ===== *)
theory Demo_Server
  imports Demo_Compiler
begin

text \<open>
  The demo compiler as a running server: the states it can reach from its start by connections, disconnections,
  data from the players and ticks of the timer, the invariant they keep, and what becomes of the games.
\<close>

section \<open>The invariant\<close>

definition game_ok :: "nat \<Rightarrow> u32 \<Rightarrow> GameContext \<Rightarrow> bool" where
  "game_ok n k g = ((gc_gameId g = k \<or> gc_gameId g = 0) \<and> std_ok (gc_players g) \<and>
     (\<forall>p i. map_of (gc_players g) p = Some i \<longrightarrow> i < n) \<and> repo_ok (gc_unitData g) \<and>
     gc_expiryCountdown g \<le> GAME_EXPIRY_TICKS)"

definition compiler_ok :: "DemoCompiler \<Rightarrow> bool" where
  "compiler_ok d = (std_ok (dc_players d) \<and> std_ok (dc_games d) \<and>
     (\<forall>socket i. map_of (dc_players d) socket = Some i \<longrightarrow>
        i < dc_nextContext d \<and> uc_socket (dc_contexts d i) = socket \<and> dc_sockets d socket \<noteq> None) \<and>
     (\<forall>k g. map_of (dc_games d) k = Some g \<longrightarrow> game_ok (dc_nextContext d) k g))"

lemma game_ok_new: "game_ok n k GameContext_new"
  by (simp add: game_ok_def GameContext_new_def repo_ok_def std.all_entries_def)

lemma game_at_ok: "compiler_ok d \<Longrightarrow> game_ok (dc_nextContext d) k (game_at k d)"
  by (auto simp: game_at_def std_index_def compiler_ok_def game_ok_new split: option.splits)

lemma put_game_ok: "compiler_ok d \<Longrightarrow> game_ok (dc_nextContext d) k g \<Longrightarrow> compiler_ok (put_game k g d)"
  by (simp add: compiler_ok_def put_game_def)

lemma update_context_ok:
  "compiler_ok d \<Longrightarrow> (\<And>u. uc_socket (f u) = uc_socket u) \<Longrightarrow> compiler_ok (update_context i f d)"
  by (auto simp: compiler_ok_def update_context_def)

lemma update_context_keeps [simp]:
  "dc_nextContext (update_context i f d) = dc_nextContext d" "dc_games (update_context i f d) = dc_games d"
  "dc_players (update_context i f d) = dc_players d" "dc_nextContext (put_game k g d) = dc_nextContext d"
  by (simp_all add: update_context_def put_game_def)

lemma compiler_ok_game: "compiler_ok d \<Longrightarrow> map_of (dc_games d) k = Some g \<Longrightarrow> game_ok (dc_nextContext d) k g"
  by (simp add: compiler_ok_def)

lemma erase_player_ok: "compiler_ok d \<Longrightarrow> compiler_ok (d\<lparr>dc_players := std_erase s (dc_players d)\<rparr>)"
  by (simp add: compiler_ok_def)

lemma number_players_ok: "compiler_ok d \<Longrightarrow> compiler_ok (number_players g pids n d) \<and>
    dc_nextContext (number_players g pids n d) = dc_nextContext d"
  by (induction g pids n d rule: number_players.induct) (auto simp: update_context_ok split: option.splits)

lemma commitHeaders_ok:
  "compiler_ok d \<Longrightarrow> commitHeaders cfg g fn d = (d', out, r) \<Longrightarrow> compiler_ok d' \<and> dc_nextContext d' = dc_nextContext d"
  by (auto simp: commitHeaders_def Let_def number_players_ok split: if_splits sum.splits prod.splits)

lemma handleBadConnection_ok: "compiler_ok d \<Longrightarrow> handleBadConnection cfg s d = (d', out) \<Longrightarrow> compiler_ok d'"
  by (auto simp: handleBadConnection_def Let_def erase_player_ok split: NoUserContextOption.splits if_splits)

lemma onNewConnection_ok:
  "compiler_ok d \<Longrightarrow> list_all (\<lambda>(s, a). dc_sockets d s = None) pending \<Longrightarrow> distinct (map fst pending) \<Longrightarrow>
     compiler_ok (onNewConnection pending d)"
proof (induction pending d rule: onNewConnection.induct)
  case (2 socket addr pending d)
  let ?i = "dc_nextContext d"
  let ?d = "d\<lparr>dc_sockets := (dc_sockets d)(socket \<mapsto> addr), dc_contexts := (dc_contexts d)(?i := UserContext_new socket),
    dc_nextContext := ?i + 1, dc_players := std_put socket ?i (dc_players d)\<rparr>"
  have "compiler_ok ?d"
    using "2.prems"(1) by (fastforce simp: compiler_ok_def game_ok_def UserContext_new_def less_Suc_eq)
  moreover have "list_all (\<lambda>(s, a). dc_sockets ?d s = None) pending"
    using "2.prems"(2,3) by (induction pending) auto
  ultimately show ?case using 2 by (simp add: Let_def)
qed simp

lemma onSocketStateChanged_ok: "compiler_ok d \<Longrightarrow> compiler_ok (onSocketStateChanged s st d)"
  by (auto simp: onSocketStateChanged_def compiler_ok_def)

section \<open>Commands keep it\<close>

lemma game_ok_updates:
  "game_ok n k g \<Longrightarrow> i < n \<Longrightarrow> game_ok n k (g\<lparr>gc_players := std_put p i (gc_players g)\<rparr>)"
  "game_ok n k g \<Longrightarrow> game_ok n k (g\<lparr>gc_expiryCountdown := GAME_EXPIRY_TICKS\<rparr>)"
  "game_ok n k g \<Longrightarrow> game_ok n k (g\<lparr>gc_timer := t\<rparr>)"
  "game_ok n k g \<Longrightarrow> game_ok n k (g\<lparr>gc_demoCompilation := c\<rparr>)"
  "game_ok n k g \<Longrightarrow> game_ok n k (g\<lparr>gc_gameId := k\<rparr>)"
  "game_ok n k g \<Longrightarrow> game_ok n k (g\<lparr>gc_header := h\<rparr>)"
  "game_ok n k g \<Longrightarrow> repo_ok m \<Longrightarrow> game_ok n k (g\<lparr>gc_unitData := m\<rparr>)"
  "game_ok n k g \<Longrightarrow> game_ok n k (g\<lparr>gc_playersLockedIn := l, gc_finalFileName := f, gc_tempFileName := t'\<rparr>)"
  by (auto simp: game_ok_def)

lemma commitMove_ok: "game_ok n k g \<Longrightarrow> commitMove now pn m w g = (g', r) \<Longrightarrow> game_ok n k g'"
  by (auto simp: commitMove_def Let_def game_ok_updates split: sum.splits)

text \<open>A user is entered into a game after his context was changed.\<close>

lemma register_ok:
  assumes "compiler_ok d" and "i < dc_nextContext d" and "\<And>u. uc_socket (f u) = uc_socket u"
  shows "compiler_ok (put_game k ((game_at k (update_context i f d))\<lparr>gc_players := std_put p i (gc_players (game_at k (update_context i f d)))\<rparr>)
    (update_context i f d))"
proof (rule put_game_ok)
  show ok: "compiler_ok (update_context i f d)" by (rule update_context_ok [OF assms(1,3)])
  show "game_ok (dc_nextContext (update_context i f d)) k ((game_at k (update_context i f d))
      \<lparr>gc_players := std_put p i (gc_players (game_at k (update_context i f d)))\<rparr>)"
    by (rule game_ok_updates(1) [OF game_at_ok [OF ok]]) (simp add: assms(2))
qed

lemma on_Hello_ok:
  assumes "compiler_ok d" and "i < dc_nextContext d" and "on_Hello cfg i cmd d = (d', out, r)"
  shows "compiler_ok d'"
  using assms by (auto simp: on_Hello_def stepped_def Let_def split: sum.splits intro!: register_ok)

lemma on_Reconnect_ok:
  assumes "compiler_ok d" and "i < dc_nextContext d" and "on_Reconnect cfg s i cmd d = (d', out, r)"
  shows "compiler_ok d'"
proof (cases "ReconnectMessage_set (cfg_qt cfg) cmd")
  case (Inl e)
  then show ?thesis using assms by (simp add: on_Reconnect_def)
next
  case (Inr msg)
  obtain k p where msg: "msg = (k, p)" by (cases msg)
  show ?thesis
  proof (cases "Option.bind (map_of (dc_games d) k) (\<lambda>g. map_of (gc_players g) p)")
    case None
    with Inr msg assms show ?thesis
      by (cases "dc_sockets d s") (auto simp: on_Reconnect_def stepped_def Let_def simp del: bind_eq_None_conv intro!: register_ok)
  next
    case (Some j)
    with Inr msg assms show ?thesis
      by (auto simp: on_Reconnect_def stepped_def Let_def simp del: bind_eq_Some_conv intro!: register_ok)
  qed
qed

lemma on_Move_ok:
  assumes "compiler_ok d" and eq: "on_Move cfg now i cmd d = (d', out, r)"
  shows "compiler_ok d'"
proof (cases "map_of (dc_games d) (uc_gameId (dc_contexts d i))")
  case None
  with assms show ?thesis by (simp add: on_Move_def stepped_def)
next
  case (Some g)
  let ?k = "uc_gameId (dc_contexts d i)" and ?g = "g\<lparr>gc_expiryCountdown := GAME_EXPIRY_TICKS\<rparr>"
  have g: "game_ok (dc_nextContext d) ?k ?g" by (rule game_ok_updates(2) [OF compiler_ok_game [OF assms(1) Some]])
  then have d1: "compiler_ok (put_game ?k ?g d)" by (rule put_game_ok [OF assms(1)])
  have d2: "compiler_ok (put_game ?k g2 (put_game ?k ?g d))" if "commitMove now n m w ?g = (g2, x)" for n m w g2 x
    by (rule put_game_ok [OF d1]) (use commitMove_ok [OF g that] in simp)
  show ?thesis
    using eq Some assms(1) d1 d2
    by (auto simp: on_Move_def stepped_def Let_def split: sum.splits prod.splits option.splits if_splits)
qed

lemma on_GameInfo_ok:
  assumes "compiler_ok d" and eq: "on_GameInfo cfg i cmd d = (d', out, r)"
  shows "compiler_ok d'"
proof -
  let ?k = "uc_gameId (dc_contexts d i)"
  let ?g = "(game_at ?k d)\<lparr>gc_gameId := ?k, gc_expiryCountdown := GAME_EXPIRY_TICKS\<rparr>"
  have g: "game_ok (dc_nextContext d) ?k ?g"
    by (rule game_ok_updates(2) [OF game_ok_updates(5) [OF game_at_ok [OF assms(1)]]])
  have "compiler_ok (put_game ?k ?g d)" and "compiler_ok (put_game ?k (?g\<lparr>gc_header := m\<rparr>) d)" for m
    by (rule put_game_ok [OF assms(1) g], rule put_game_ok [OF assms(1) game_ok_updates(6) [OF g]])
  with eq show ?thesis
    by (cases "GameInfoMessage_set (cfg_qt cfg) cmd") (auto simp: on_GameInfo_def stepped_def Let_def)
qed

lemma on_GamePlayer_ok:
  assumes "compiler_ok d" and eq: "on_GamePlayer cfg s i cmd d = (d', out, r)"
  shows "compiler_ok d'"
proof -
  let ?k = "uc_gameId (dc_contexts d i)"
  have "compiler_ok (update_context j (\<lambda>v. v\<lparr>uc_gamePlayerInfo := m\<rparr>) (put_game ?k (g\<lparr>gc_expiryCountdown := GAME_EXPIRY_TICKS\<rparr>) d))"
    if "map_of (dc_games d) ?k = Some g" for j m g
    by (rule update_context_ok [OF put_game_ok [OF assms(1) game_ok_updates(2) [OF compiler_ok_game [OF assms(1) that]]]]) simp
  moreover have "compiler_ok d1" if "handleBadConnection cfg s d = (d1, o1)" for d1 o1
    by (rule handleBadConnection_ok [OF assms(1) that])
  ultimately show ?thesis
    using eq assms(1)
    by (auto simp: on_GamePlayer_def stepped_def Let_def split: sum.splits prod.splits option.splits if_splits)
qed

lemma on_UnitData_ok:
  assumes "compiler_ok d" and "on_UnitData cfg i cmd d = (d', out, r)"
  shows "compiler_ok d'"
proof -
  have "game_ok (dc_nextContext d) k (g\<lparr>gc_unitData := m, gc_expiryCountdown := GAME_EXPIRY_TICKS\<rparr>)"
    if "map_of (dc_games d) k = Some g" and "repo_add ud (gc_unitData g) = Some m" for k g ud m
  proof -
    have g: "game_ok (dc_nextContext d) k g" using compiler_ok_game [OF assms(1) that(1)] .
    then have "repo_ok m" using repo_add_step [of "gc_unitData g" ud] that(2) by (auto simp: game_ok_def)
    with g show ?thesis by (auto simp: game_ok_def)
  qed
  then show ?thesis
    using assms by (auto simp: on_UnitData_def stepped_def Let_def split: sum.splits option.splits intro!: put_game_ok)
qed

lemma on_GamePlayerLoading_ok:
  assumes "compiler_ok d" and eq: "on_GamePlayerLoading cfg i cmd d = (d', out, r)"
  shows "compiler_ok d'"
proof -
  let ?k = "uc_gameId (dc_contexts d i)"
  have step: "compiler_ok d1 \<and> compiler_ok (put_game ?k (g1\<lparr>gc_demoCompilation := c\<rparr>) d1)"
    if "map_of (dc_games d) ?k = Some g" and g1: "g1 = g\<lparr>gc_playersLockedIn := l, gc_finalFileName := f, gc_tempFileName := t\<rparr>"
      and com: "commitHeaders cfg g1 fn (put_game ?k g1 d) = (d1, o1, x)" for g g1 l f t fn d1 o1 x c
  proof -
    have g: "game_ok (dc_nextContext d) ?k g1"
      unfolding g1 by (rule game_ok_updates(8) [OF compiler_ok_game [OF assms(1) that(1)]])
    have d1: "compiler_ok d1" "dc_nextContext d1 = dc_nextContext d"
      using commitHeaders_ok [OF put_game_ok [OF assms(1) g] com] by simp_all
    then show ?thesis using put_game_ok [OF d1(1), of ?k "g1\<lparr>gc_demoCompilation := c\<rparr>"] game_ok_updates(4) [OF g] by simp
  qed
  show ?thesis
  proof (cases "GamePlayerLoading_set (cfg_qt cfg) cmd")
    case (Inl e)
    with eq assms(1) show ?thesis by (simp add: on_GamePlayerLoading_def)
  next
    case (Inr l)
    with eq assms(1) show ?thesis
      by (auto simp: on_GamePlayerLoading_def stepped_def Let_def split: sum.splits prod.splits option.splits if_splits
          dest: step [OF _ refl])
  qed
qed

lemma on_Debug_ok: "on_Debug cfg cmd d = (d', out, r) \<Longrightarrow> d' = d"
  by (auto simp: on_Debug_def stepped_def Let_def split: sum.splits if_splits)

text \<open>Commands make no contexts.\<close>

lemma next_number [simp]: "dc_nextContext (number_players g pids n d) = dc_nextContext d"
  by (induction g pids n d rule: number_players.induct) (auto split: option.splits)

lemma next_bad: "handleBadConnection cfg s d = (d', out) \<Longrightarrow> dc_nextContext d' = dc_nextContext d"
  by (auto simp: handleBadConnection_def Let_def split: NoUserContextOption.splits if_splits)

lemma next_commit: "commitHeaders cfg g fn d = (d', out, r) \<Longrightarrow> dc_nextContext d' = dc_nextContext d"
  by (auto simp: commitHeaders_def Let_def split: if_splits sum.splits prod.splits)

lemma command_next:
  assumes "compiler_command cfg now s i cmd d = (d', out, r)"
  shows "dc_nextContext d' = dc_nextContext d"
proof -
  note defs = on_Hello_def on_Reconnect_def on_Move_def on_GameInfo_def on_GamePlayer_def on_UnitData_def
    on_GamePlayerLoading_def stepped_def Let_def
  have "dc_nextContext d' = dc_nextContext d" if "on_Hello cfg i cmd d = (d', out, r)"
    using that by (auto simp: defs split: sum.splits)
  moreover have "dc_nextContext d' = dc_nextContext d" if "on_Reconnect cfg s i cmd d = (d', out, r)"
    using that by (auto simp: defs split: sum.splits prod.splits option.splits)
  moreover have "dc_nextContext d' = dc_nextContext d" if "on_Move cfg now i cmd d = (d', out, r)"
    using that by (auto simp: defs split: sum.splits prod.splits option.splits if_splits)
  moreover have "dc_nextContext d' = dc_nextContext d" if "on_GameInfo cfg i cmd d = (d', out, r)"
    using that by (auto simp: defs split: sum.splits)
  moreover have "dc_nextContext d' = dc_nextContext d" if "on_GamePlayer cfg s i cmd d = (d', out, r)"
    using that by (auto simp: defs next_bad split: sum.splits prod.splits option.splits if_splits)
  moreover have "dc_nextContext d' = dc_nextContext d" if "on_UnitData cfg i cmd d = (d', out, r)"
    using that by (auto simp: defs split: sum.splits option.splits)
  moreover have "dc_nextContext d' = dc_nextContext d" if "on_GamePlayerLoading cfg i cmd d = (d', out, r)"
    using that by (auto simp: defs dest!: next_commit split: sum.splits prod.splits option.splits if_splits)
  ultimately show ?thesis
    using assms
    by (auto simp: compiler_command_def stepped_def Let_def next_bad split: sum.splits if_splits prod.splits dest: on_Debug_ok)
qed

lemma command_ok:
  assumes "compiler_ok d" and "i < dc_nextContext d" and "compiler_command cfg now s i cmd d = (d', out, r)"
  shows "compiler_ok d'"
proof (cases "str_at (qt_of (cfg_qt cfg)) cmd 0")
  case (Inl e)
  with assms show ?thesis by (simp add: compiler_command_def)
next
  case (Inr name)
  note cases = on_Hello_ok [OF assms(1,2)] on_Reconnect_ok [OF assms(1,2)] on_Move_ok [OF assms(1)] on_GameInfo_ok [OF assms(1)]
    on_GamePlayer_ok [OF assms(1)] on_UnitData_ok [OF assms(1)] on_GamePlayerLoading_ok [OF assms(1)] on_Debug_ok
    handleBadConnection_ok [OF assms(1)]
  show ?thesis
    using assms(1,3) Inr
    by (auto simp: compiler_command_def stepped_def Let_def split: if_splits prod.splits dest: cases)
qed

lemma loop_ok:
  assumes "compiler_ok d" and "i < dc_nextContext d" and "compiler_loop cfg now s i c d bs = (d', rest, out, r)"
  shows "compiler_ok d' \<and> dc_nextContext d' = dc_nextContext d"
  using assms
proof (induction cfg now s i c d bs arbitrary: d' rest out r rule: compiler_loop.induct)
  case (1 cfg now s i c d bs)
  show ?case
  proof (cases "map_of (dc_players d) s = None \<or> bs = []")
    case True
    with "1.prems" show ?thesis by (auto simp: compiler_loop.simps [of cfg now s i c d bs] split: if_splits)
  next
    case False
    obtain p rest1 res where get: "GetCommand (uc_gpgNetParser (dc_contexts d i)) bs = (p, rest1, res)" by (metis prod_cases3)
    let ?d1 = "update_context i (\<lambda>u. u\<lparr>uc_gpgNetParser := p\<rparr>) d"
    have d1: "compiler_ok ?d1" by (rule update_context_ok [OF "1.prems"(1)]) simp
    show ?thesis
    proof (cases res)
      case (Inl e)
      with False get "1.prems" d1 show ?thesis by (auto simp: compiler_loop.simps [of cfg now s i c d bs])
    next
      case (Inr cmd)
      obtain d2 o2 r2 where com: "compiler_command cfg now s i cmd ?d1 = (d2, o2, r2)" by (metis prod_cases3)
      have d2: "compiler_ok d2" "dc_nextContext d2 = dc_nextContext d"
        using command_ok [OF d1 _ com] command_next [OF com] "1.prems"(2) by simp_all
      show ?thesis
      proof (cases r2)
        case (Inl e)
        with False get Inr com "1.prems" d2 show ?thesis by (auto simp: compiler_loop.simps [of cfg now s i c d bs])
      next
        case moved: (Inr m)
        obtain d3 rest3 o3 r3 where rec: "compiler_loop cfg now s i (c \<or> m) d2 (if shut s o2 then [] else rest1) = (d3, rest3, o3, r3)"
          by (metis prod_cases4)
        have "compiler_ok d3 \<and> dc_nextContext d3 = dc_nextContext d2"
          using "1.IH" [OF _ _ get [symmetric] refl refl Inr refl com [symmetric] refl moved d2(1) _ rec] False "1.prems"(2) d2(2)
          by auto
        then show ?thesis
          using False get Inr com moved rec "1.prems" d2 by (auto simp: compiler_loop.simps [of cfg now s i c d bs])
      qed
    qed
  qed
qed

lemma onReadyRead_ok:
  assumes "compiler_ok d" and "compiler_onReadyRead cfg now s bs d = (d', rest, out, r)"
  shows "compiler_ok d'"
proof (cases "map_of (dc_players d) s")
  case None
  with assms show ?thesis by (simp add: compiler_onReadyRead_def)
next
  case (Some i)
  obtain d1 rest1 o1 r1 where loop: "compiler_loop cfg now s i False d bs = (d1, rest1, o1, r1)" by (metis prod_cases4)
  have "i < dc_nextContext d" using assms(1) Some by (auto simp: compiler_ok_def)
  then have d1: "compiler_ok d1" using loop_ok [OF assms(1) _ loop] by simp
  show ?thesis
    using assms(2) Some loop d1 put_game_ok [OF d1 game_at_ok [OF d1]]
    by (auto simp: compiler_onReadyRead_def finish_read_def Let_def split: sum.splits if_splits)
qed

section \<open>The timer\<close>

lemma close_game_ok: "compiler_ok d \<Longrightarrow> compiler_ok (fst (close_game cfg k d))"
  by (auto simp: compiler_ok_def close_game_def Let_def)

lemma close_games_ok: "compiler_ok d \<Longrightarrow> compiler_ok (fst (close_games cfg ks d))"
proof (induction cfg ks d rule: close_games.induct)
  case (2 cfg k ks d)
  then show ?case
    using close_game_ok [of d cfg k] by (cases "close_game cfg k d") (auto simp: Let_def split: prod.splits)
qed simp

definition ticked :: "(u32, GameContext) std_map \<Rightarrow> (u32, GameContext) std_map" where
  "ticked games = map (\<lambda>(k, g). (k, tick_game g)) games"

lemma map_of_ticked: "map_of (ticked games) k = map_option tick_game (map_of games k)"
  by (induction games) (auto simp: ticked_def)

lemma keys_ticked: "map fst (ticked games) = map fst games"
  by (induction games) (auto simp: ticked_def)

lemma game_ok_tick: "game_ok n k g \<Longrightarrow> game_ok n k (tick_game g)"
  by (simp add: game_ok_def tick_game_def)

lemma std_ok_ticked: "std_ok (ticked games) = std_ok games"
  by (simp add: std_ok_def keys_ticked)

lemma ticked_ok: "compiler_ok d \<Longrightarrow> compiler_ok (d\<lparr>dc_games := ticked (dc_games d)\<rparr>)"
  by (auto simp: compiler_ok_def std_ok_ticked map_of_ticked game_ok_tick)

lemma closeExpiredGames_ok: "compiler_ok d \<Longrightarrow> compiler_ok (fst (closeExpiredGames cfg d))"
  using close_games_ok [OF ticked_ok] by (simp add: closeExpiredGames_def Let_def flip: ticked_def)

lemma counter_ok [simp]: "compiler_ok (d\<lparr>dc_timerCounter := n\<rparr>) = compiler_ok d"
  by (simp add: compiler_ok_def)

lemma timerEvent_ok:
  assumes "compiler_ok d" and "compiler_timerEvent cfg d = (d', out)"
  shows "compiler_ok d'"
  using closeExpiredGames_ok [of "d\<lparr>dc_timerCounter := dc_timerCounter d + 1\<rparr>" cfg] assms
  by (auto simp: compiler_timerEvent_def Let_def split: prod.splits)

section \<open>Reachable states\<close>

inductive compiler_reach :: "compiler_cfg \<Rightarrow> DemoCompiler \<Rightarrow> bool" for cfg where
  started: "compiler_reach cfg DemoCompiler_new"
| connected: "compiler_reach cfg d \<Longrightarrow> list_all (\<lambda>(s, a). dc_sockets d s = None) pending \<Longrightarrow> distinct (map fst pending) \<Longrightarrow>
    compiler_reach cfg (onNewConnection pending d)"
| changed: "compiler_reach cfg d \<Longrightarrow> compiler_reach cfg (onSocketStateChanged s st d)"
| received: "compiler_reach cfg d \<Longrightarrow> compiler_onReadyRead cfg now s bs d = (d', rest, out, r) \<Longrightarrow> compiler_reach cfg d'"
| timer: "compiler_reach cfg d \<Longrightarrow> compiler_timerEvent cfg d = (d', out) \<Longrightarrow> compiler_reach cfg d'"

lemma reach_ok: "compiler_reach cfg d \<Longrightarrow> compiler_ok d"
proof (induction rule: compiler_reach.induct)
  case started
  show ?case by (simp add: compiler_ok_def DemoCompiler_new_def)
next
  case (connected d pending)
  show ?case by (rule onNewConnection_ok [OF connected.IH connected.hyps(2,3)])
next
  case (changed d s st)
  show ?case by (rule onSocketStateChanged_ok [OF changed.IH])
next
  case (received d now s bs d' rest out r)
  show ?case by (rule onReadyRead_ok [OF received.IH received.hyps(2)])
next
  case (timer d d' out)
  show ?case by (rule timerEvent_ok [OF timer.IH timer.hyps(2)])
qed

text \<open>
  C27. Whatever the players send, in whatever portions, and however connections come and go, the tables of the demo
  compiler stay consistent: every connection has a context of its own that exists and belongs to an existing socket,
  every player of a game refers to a context that exists, a game's id is the key it is filed under or has
  not been announced yet, its unit data are complete and correctly keyed, and its countdown never exceeds an hour.
\<close>

theorem compiler_invariant:
  assumes "compiler_reach cfg d"
  shows "compiler_ok d"
  using assms by (rule reach_ok)

section \<open>The end of a game\<close>

lemma close_games_lookup: "map_of (dc_games (fst (close_games cfg ks d))) k = (if k \<in> set ks then None else map_of (dc_games d) k)"
proof (induction cfg ks d rule: close_games.induct)
  case (2 cfg j ks d)
  then show ?case by (auto simp: Let_def close_game_def split: prod.splits)
qed simp

text \<open>What is done with the recording of a game that is closed.\<close>

definition file_effect :: "compiler_cfg \<Rightarrow> GameContext \<Rightarrow> bytestring \<Rightarrow> demo_effect" where
  "file_effect cfg g w = (if length w \<ge> cfg_minDemoSize cfg then RenamedFile (gc_tempFileName g) (gc_finalFileName g) w
     else RemovedFile (gc_tempFileName g))"

lemma close_games_file:
  "k \<in> set ks \<Longrightarrow> map_of (dc_games d) k = Some g \<Longrightarrow> gc_demoCompilation g = Some w \<Longrightarrow>
     file_effect cfg g w \<in> set (snd (close_games cfg ks d))"
proof (induction ks arbitrary: d)
  case (Cons j ks)
  show ?case
  proof (cases "j = k")
    case True
    with Cons.prems show ?thesis
      by (auto simp: Let_def close_game_def game_at_def std_index_def file_effect_def split: prod.splits)
  next
    case False
    obtain d1 o1 where c: "close_game cfg j d = (d1, o1)" by fastforce
    then have "map_of (dc_games d1) k = Some g"
      using Cons.prems False by (auto simp: close_game_def Let_def)
    with Cons.IH [of d1] Cons.prems False c show ?thesis by (auto simp: Let_def split: prod.splits)
  qed
qed simp

lemma expired_iff:
  assumes "compiler_ok d" and "k \<noteq> 0" and "map_of (dc_games d) k = Some g"
  shows "k \<in> set (expired_ids (ticked (dc_games d))) \<longleftrightarrow> gc_gameId g = k \<and> gc_expiryCountdown g \<le> 1"
proof -
  have "(j, h) \<in> set (dc_games d) \<and> gc_gameId h = k \<longleftrightarrow> j = k \<and> h = g \<and> gc_gameId g = k" for j h
  proof -
    have "std_ok (dc_games d)" using assms(1) by (simp add: compiler_ok_def)
    then have mem: "(j, h) \<in> set (dc_games d) \<longleftrightarrow> map_of (dc_games d) j = Some h" for j h by (rule in_set_map_of)
    show ?thesis
      unfolding mem using assms compiler_ok_game [OF assms(1), of j h] by (auto simp: game_ok_def)
  qed
  moreover have "k \<in> set (expired_ids (ticked games)) \<longleftrightarrow>
      (\<exists>j h. (j, h) \<in> set games \<and> gc_gameId h = k \<and> gc_expiryCountdown h \<le> 1)" for games
    by (force simp: expired_ids_def ticked_def tick_game_def)
  ultimately show ?thesis by metis
qed

fun timer_run :: "compiler_cfg \<Rightarrow> nat \<Rightarrow> DemoCompiler \<Rightarrow> DemoCompiler \<times> demo_effect list" where
  "timer_run cfg 0 d = (d, [])"
| "timer_run cfg (Suc n) d =
     (let (d1, out) = compiler_timerEvent cfg d; (d2, out2) = timer_run cfg n d1 in (d2, out @ out2))"

lemma timerEvent_game:
  assumes "compiler_ok d" and "k \<noteq> 0" and "map_of (dc_games d) k = Some g" and "compiler_timerEvent cfg d = (d', out)"
  shows "map_of (dc_games d') k = (if gc_gameId g = k \<and> gc_expiryCountdown g \<le> 1 then None else Some (tick_game g))"
    and "gc_gameId g = k \<Longrightarrow> gc_expiryCountdown g \<le> 1 \<Longrightarrow> gc_demoCompilation g = Some w \<Longrightarrow> file_effect cfg g w \<in> set out"
proof -
  let ?d = "d\<lparr>dc_timerCounter := dc_timerCounter d + 1\<rparr>"
  let ?c = "close_games cfg (expired_ids (ticked (dc_games d))) (?d\<lparr>dc_games := ticked (dc_games d)\<rparr>)"
  have d': "d' = fst ?c" and out: "set (snd ?c) \<subseteq> set out"
    using assms(4) by (auto simp: compiler_timerEvent_def closeExpiredGames_def Let_def simp flip: ticked_def split: prod.splits)
  show "map_of (dc_games d') k = (if gc_gameId g = k \<and> gc_expiryCountdown g \<le> 1 then None else Some (tick_game g))"
    unfolding d' close_games_lookup using expired_iff [OF assms(1-3)] assms(3) by (simp add: map_of_ticked)
  assume "gc_gameId g = k" and "gc_expiryCountdown g \<le> 1" and w: "gc_demoCompilation g = Some w"
  then have "k \<in> set (expired_ids (ticked (dc_games d)))" using expired_iff [OF assms(1-3)] by simp
  then have "file_effect cfg (tick_game g) w \<in> set (snd ?c)"
    by (rule close_games_file) (simp_all add: map_of_ticked assms(3) tick_game_def w)
  then show "file_effect cfg g w \<in> set out"
    using out by (auto simp: file_effect_def tick_game_def)
qed

lemma timer_run_closes:
  "compiler_ok d \<Longrightarrow> k \<noteq> 0 \<Longrightarrow> map_of (dc_games d) k = Some g \<Longrightarrow> gc_gameId g = k \<Longrightarrow>
   gc_demoCompilation g = Some w \<Longrightarrow> gc_expiryCountdown g = 1 + int n \<Longrightarrow>
   \<exists>d' out. timer_run cfg (Suc n) d = (d', out) \<and> map_of (dc_games d') k = None \<and> file_effect cfg g w \<in> set out"
proof (induction n arbitrary: d g)
  case 0
  obtain d1 out1 where t: "compiler_timerEvent cfg d = (d1, out1)" by fastforce
  with timerEvent_game [OF "0.prems"(1-3) t] "0.prems" show ?case by simp
next
  case (Suc n)
  obtain d1 out1 where t: "compiler_timerEvent cfg d = (d1, out1)" by fastforce
  have g: "map_of (dc_games d1) k = Some (tick_game g)"
    using timerEvent_game(1) [OF Suc.prems(1-3) t] Suc.prems by simp
  obtain d' out where "timer_run cfg (Suc n) d1 = (d', out)" and "map_of (dc_games d') k = None"
    and "file_effect cfg (tick_game g) w \<in> set out"
    using Suc.IH [OF timerEvent_ok [OF Suc.prems(1) t] Suc.prems(2) g] Suc.prems by (auto simp: tick_game_def)
  moreover have "file_effect cfg (tick_game g) w = file_effect cfg g w" by (simp add: file_effect_def tick_game_def)
  ultimately show ?case using t by simp
qed


text \<open>
  A game of which only players are known, because the announcement of the map never came, is never closed: the
  compiler looks for the expired game under the id 0 it still has, not under its key, so it stays in the
  table however often the timer ticks.
\<close>

theorem unannounced_game_stays:
  assumes "compiler_ok d" and "map_of (dc_games d) k = Some g" and "gc_gameId g = 0" and "k \<noteq> 0"
  shows "\<exists>g'. map_of (dc_games (fst (timer_run cfg n d))) k = Some g' \<and> gc_expiryCountdown g' = gc_expiryCountdown g - int n"
proof -
  have "\<exists>g'. map_of (dc_games (fst (timer_run cfg n d))) k = Some g' \<and> gc_expiryCountdown g' = gc_expiryCountdown g - int n"
    if "compiler_ok d" and "map_of (dc_games d) k = Some g" and "gc_gameId g = 0" for d g
    using that
  proof (induction n arbitrary: d g)
    case (Suc n)
    obtain d1 out1 where t: "compiler_timerEvent cfg d = (d1, out1)" by fastforce
    have "map_of (dc_games d1) k = Some (tick_game g)"
      using timerEvent_game(1) [OF Suc.prems(1) assms(4) Suc.prems(2) t] Suc.prems(3) assms(4) by simp
    with Suc.IH [OF timerEvent_ok [OF Suc.prems(1) t]] Suc.prems(3) t show ?case
      by (fastforce simp: tick_game_def split: prod.splits)
  qed simp
  with assms show ?thesis by blast
qed

section \<open>Witnesses\<close>

definition plain_cfg :: compiler_cfg where
  "plain_cfg = \<lparr>cfg_qt = \<lparr>qt_of = \<lparr>fromUtf8 = id, bytesToInt = (\<lambda>_. 0), uintToString = (\<lambda>_. [])\<rparr>,
       bytesToUInt = (\<lambda>_. 0), qset_order = id\<rparr>,
     cfg_md5 = (\<lambda>_. []), cfg_demoPath = le32, cfg_version = [], cfg_today = [], cfg_minDemoSize = 3,
     cfg_noUserContextOption = IGNORE, cfg_garbage = 0, cfg_signal_at_once = True\<rparr>"

definition running_game :: GameContext where
  "running_game = GameContext_new\<lparr>gc_gameId := 9, gc_demoCompilation := Some [1, 2, 3, 4], gc_tempFileName := [7, 7],
     gc_finalFileName := [7], gc_expiryCountdown := 2\<rparr>"

definition silent_game :: GameContext where
  "silent_game = GameContext_new\<lparr>gc_expiryCountdown := 1\<rparr>"

definition two_games :: DemoCompiler where
  "two_games = DemoCompiler_new\<lparr>dc_games := [(5, silent_game), (9, running_game)]\<rparr>"

lemma two_games_ok: "compiler_ok two_games"
  by (auto simp: compiler_ok_def two_games_def DemoCompiler_new_def game_ok_def silent_game_def running_game_def
      GameContext_new_def GAME_EXPIRY_TICKS_def split: if_splits)

theorem compiler_invariant_witness:
  "compiler_reach plain_cfg (onNewConnection [(4, [49])] DemoCompiler_new) \<and>
   compiler_ok (onNewConnection [(4, [49])] DemoCompiler_new)"
proof -
  have "compiler_reach plain_cfg (onNewConnection [(4, [49])] DemoCompiler_new)"
    by (rule compiler_reach.connected [OF compiler_reach.started]) (simp_all add: DemoCompiler_new_def)
  with compiler_invariant [OF this] show ?thesis by simp
qed


theorem unannounced_game_stays_witness:
  "\<exists>g'. map_of (dc_games (fst (timer_run plain_cfg 10 two_games))) 5 = Some g' \<and> gc_expiryCountdown g' = -9"
proof -
  have "map_of (dc_games two_games) 5 = Some silent_game" by (simp add: two_games_def)
  with unannounced_game_stays [OF two_games_ok this, of plain_cfg 10] show ?thesis
    by (simp add: silent_game_def GameContext_new_def)
qed

end
