(* ===== verification/Demo_Link.thy ===== *)
theory Demo_Link
  imports Demo_Trip Demo_Server
begin

text \<open>
  From the game to the recording: the moves a client collects from the packets of the local game, on their way
  through the GPGnet encoding and the demo compiler into the file.
\<close>

lemma smartPaker_other: "byte_at s 0 = Some b \<Longrightarrow> b \<noteq> 0x2c \<Longrightarrow> smartPaker first s = (first, s)"
  by (auto simp: smartPaker_def byte_at_def subPacketCode_eq_iff split: if_splits)

lemma client_subpaks_moves:
  "client_subpaks q gb src ss first moves c = Some (c', out, moves') \<Longrightarrow> moves' = moves @ smartpak_all first ss"
proof (induction ss arbitrary: first moves c out)
  case (Cons s ss)
  obtain b where b: "byte_at s 0 = Some b" by (cases s) (auto simp: byte_at_def)
  have sp: "(if b = code_byte UNIT_STAT_AND_MOVE_2C then smartPaker first s else (first, s)) = smartPaker first s"
    using smartPaker_other [OF b, of first] by simp
  obtain first1 bs where p: "smartPaker first s = (first1, bs)" by fastforce
  from Cons.prems b sp p obtain c1 out2 where "client_subpaks q gb src ss first1 (moves @ bs) c1 = Some (c', out2, moves')"
    by (auto simp: bind_eq_Some_conv Let_def)
  from Cons.IH [OF this] p show ?case by simp
qed simp

lemma sendMoves_enc: "sendMoves m = enc_command (ascii ''Move'') [ByteArray m]"
  by (simp add: sendMoves_def sendCommand_def sendArgument_bytes_def enc_command_def enc_bytes_def)

lemma GetCommand_moves:
  assumes "fresh_parser p" and "length m \<le> 10000"
  obtains p' where "GetCommand p (sendMoves m @ rest) = (p', rest, Inr [ByteArray (ascii ''Move''), ByteArray m])"
    and "fresh_parser p'"
proof -
  have "command_fits (ascii ''Move'') [ByteArray m]" using assms(2) by (simp add: command_fits_def ascii_def)
  from GetCommand_enc [OF assms(1) this, of rest] that show thesis by (auto simp: sendMoves_enc)
qed

lemma GameMoveMessage_set_moves:
  "fromUtf8 (qt_of q) (ascii ''Move'') = ascii ''Move'' \<Longrightarrow>
     GameMoveMessage_set q [ByteArray (ascii ''Move''), ByteArray m] = Inr m"
  by (simp add: GameMoveMessage_set_def check_id_def str_at_def arg_at_def bytes_arg_def)

lemma command_Move:
  assumes "fromUtf8 (qt_of (cfg_qt cfg)) (ascii ''Move'') = ascii ''Move''"
    and "uc_gameId (dc_contexts d i) \<noteq> 0" and "uc_playerDpId (dc_contexts d i) \<noteq> 0"
  shows "compiler_command cfg now s i [ByteArray (ascii ''Move''), ByteArray m] d =
    on_Move cfg now i [ByteArray (ascii ''Move''), ByteArray m] d"
proof -
  have "ascii ''Move'' \<noteq> ascii ''Hello''" and "ascii ''Move'' \<noteq> ascii ''Reconnect''" by (simp_all add: ascii_def)
  then show ?thesis using assms by (simp add: compiler_command_def str_at_def arg_at_def)
qed


text \<open>A client whose game is running, and a compiler that is recording it.\<close>

definition example_client :: DemoClient where
  "example_client = (DemoClient_new [49] 15001 9)\<lparr>cl_localPlayerName := [97], cl_hostPlayerName := [97], cl_localPlayerDplayId := 77,
     cl_hostDplayId := 77, cl_ticks := 0, cl_dpConnectedPlayers := [77]\<rparr>"

definition recording_compiler :: DemoCompiler where
  "recording_compiler = put_game 9 (example_game\<lparr>gc_demoCompilation := Some [1, 2], gc_timer := Some 500\<rparr>) example_compiler"


end
