(* ===== verification/Replay_Server.thy ===== *)
theory Replay_Server
  imports Demo_Client Std_Map
begin

text \<open>
  The replay server and its client (\<open>libs/tareplay/TaReplayServer.cpp\<close>, \<open>TaReplayServerMessages.cpp\<close>,
  \<open>TaReplayClient.cpp\<close>): viewers follow recordings while they are being written, a number of seconds behind. The
  server logs the size of every recording once a second; what was in the file when the oldest entry of the log was
  made may be shown.

  The surroundings are arguments of the operations: the files on disk (\<open>disk\<close>: which path names which file, and the
  contents of each file; an open file stays readable under another name) and the bytes still waiting in a socket's
  write buffer. Sizes are taken to fit an \<open>int\<close>.
\<close>

section \<open>Messages\<close>

definition Subscribe_set :: "qtv \<Rightarrow> qvariant_list \<Rightarrow> cpp_error + u32 \<times> u32" where
  "Subscribe_set q cmd =
     try_then (check_id (qt_of q) ''ReplayServerSubscribe'' cmd) (\<lambda>_.
     try_then (uint_at q cmd 1) (\<lambda>g. try_then (uint_at q cmd 2) (\<lambda>p. Inr (g, p))))"

datatype TaReplayServerStatus = CONNECTING | OK | GAME_NOT_FOUND | LIVE_REPLAY_DISABLED | OtherStatus u32

fun status_code :: "TaReplayServerStatus \<Rightarrow> u32" where
  "status_code CONNECTING = 0"
| "status_code OK = 1"
| "status_code GAME_NOT_FOUND = 2"
| "status_code LIVE_REPLAY_DISABLED = 3"
| "status_code (OtherStatus n) = n"

definition status_of :: "u32 \<Rightarrow> TaReplayServerStatus" where
  "status_of n = (if n = 0 then CONNECTING else if n = 1 then OK else if n = 2 then GAME_NOT_FOUND
     else if n = 3 then LIVE_REPLAY_DISABLED else OtherStatus n)"

definition Data_set :: "qtv \<Rightarrow> qvariant_list \<Rightarrow> cpp_error + TaReplayServerStatus \<times> bytestring" where
  "Data_set q cmd =
     try_then (check_id (qt_of q) ''ReplayServerData'' cmd) (\<lambda>_.
     try_then (uint_at q cmd 1) (\<lambda>s. try_then (bytes_arg q cmd 2) (\<lambda>d. Inr (status_of s, d))))"

definition sendData :: "TaReplayServerStatus \<Rightarrow> bytestring \<Rightarrow> bytestring" where
  "sendData status bs = sendCommand (ascii ''ReplayServerData'') 2 @ sendArgument_uint (status_code status) @ sendArgument_bytes bs"

section \<open>The server\<close>

definition CHUNK_SIZE :: int where "CHUNK_SIZE = 1000"

record disk =
  inode :: "bytestring \<rightharpoonup> nat"
  contents :: "nat \<Rightarrow> bytestring"

record ReplayGame =
  rg_gameId :: u32
  rg_delaySeconds :: int
  rg_state :: bytestring
  rg_demoFile :: "nat option"
  rg_demoFileSizeLog :: "int list option"

record ReplayUser =
  ru_gameId :: u32
  ru_gpgNetParser :: GpgNetParse
  ru_demoFile :: "(nat \<times> nat) option"          \<comment> \<open>the open file and the read position\<close>
  ru_enableLogWarn :: bool

definition ReplayUser_new :: ReplayUser where
  "ReplayUser_new = \<lparr>ru_gameId = 0, ru_gpgNetParser = GpgNetParse_new, ru_demoFile = None, ru_enableLogWarn = True\<rparr>"

record ReplayServer =
  rs_maxBytesPerUserPerSecond :: int
  rs_demoPath :: "u32 \<Rightarrow> bytestring"             \<comment> \<open>\<open>m_demoPathTemplate.arg(gameId)\<close>\<close>
  rs_users :: "(nat, ReplayUser) std_map"        \<comment> \<open>by socket\<close>
  rs_gameInfo :: "(u32, ReplayGame) std_map"

definition ReplayServer_new :: "(u32 \<Rightarrow> bytestring) \<Rightarrow> int \<Rightarrow> ReplayServer" where
  "ReplayServer_new demoPath maxBytesPerUserPerSecond =
     \<lparr>rs_maxBytesPerUserPerSecond = maxBytesPerUserPerSecond, rs_demoPath = demoPath, rs_users = [], rs_gameInfo = []\<rparr>"

definition lower :: "byte \<Rightarrow> byte" where
  "lower b = (if 65 \<le> b \<and> b \<le> 90 then b + 32 else b)"

definition setGameInfo :: "u32 \<Rightarrow> int \<Rightarrow> bytestring \<Rightarrow> ReplayServer \<Rightarrow> ReplayServer" where
  "setGameInfo gameId delaySeconds state s =
     (if map lower state = ascii ''ended'' then s\<lparr>rs_gameInfo := std_erase gameId (rs_gameInfo s)\<rparr>
      else let old = (case map_of (rs_gameInfo s) gameId of Some g \<Rightarrow> (rg_demoFile g, rg_demoFileSizeLog g) | None \<Rightarrow> (None, None))
           in s\<lparr>rs_gameInfo := std_put gameId \<lparr>rg_gameId = gameId, rg_delaySeconds = delaySeconds, rg_state = state,
                  rg_demoFile = fst old, rg_demoFileSizeLog = snd old\<rparr> (rs_gameInfo s)\<rparr>)"

fun replay_onNewConnection :: "nat list \<Rightarrow> ReplayServer \<Rightarrow> ReplayServer" where
  "replay_onNewConnection [] s = s"
| "replay_onNewConnection (socket # pending) s =
     replay_onNewConnection pending
       (if map_of (rs_users s) socket = None then s\<lparr>rs_users := std_put socket ReplayUser_new (rs_users s)\<rparr> else s)"

definition replay_onSocketStateChanged :: "nat \<Rightarrow> socket_state \<Rightarrow> ReplayServer \<Rightarrow> ReplayServer" where
  "replay_onSocketStateChanged sender st s =
     (if st = UnconnectedState then s\<lparr>rs_users := std_erase sender (rs_users s)\<rparr> else s)"

definition findReplayFileForGame :: "ReplayServer \<Rightarrow> disk \<Rightarrow> u32 \<Rightarrow> nat option" where
  "findReplayFileForGame s dsk gameId =
     (case inode dsk (rs_demoPath s gameId @ ascii ''.part'') of
        Some i \<Rightarrow> Some i | None \<Rightarrow> inode dsk (rs_demoPath s gameId))"

text \<open>A subscription: the new user and the bytes sent to him.\<close>

definition on_Subscribe :: "ReplayServer \<Rightarrow> disk \<Rightarrow> u32 \<Rightarrow> u32 \<Rightarrow> ReplayUser \<Rightarrow> ReplayUser \<times> bytestring" where
  "on_Subscribe s dsk gameId position u =
     (case map_of (rs_gameInfo s) gameId of
        None \<Rightarrow> (u, sendData GAME_NOT_FOUND [])
      | Some game \<Rightarrow>
          if rg_delaySeconds game < 0 then (u, sendData LIVE_REPLAY_DISABLED [])
          else let u1 = u\<lparr>ru_demoFile := map_option (\<lambda>i. (i, 0)) (findReplayFileForGame s dsk gameId)\<rparr>;
                   refusal = (if position = 0 then sendData GAME_NOT_FOUND [] else [])
               in case ru_demoFile u1 of
                    None \<Rightarrow> (u1, refusal)
                  | Some (i, _) \<Rightarrow>
                      (case rg_demoFileSizeLog game of
                         None \<Rightarrow> (u1, refusal)
                       | Some sizes \<Rightarrow>
                           let pos = (if int (length sizes) > rg_delaySeconds game
                                      then min (unat position) (unat (word_of_int (hd sizes) :: u32)) else 0)
                           in (u1\<lparr>ru_demoFile := Some (i, pos), ru_gameId := gameId\<rparr>, [])))"

lemma on_Subscribe_parser: "on_Subscribe s dsk g pos u = (u', out) \<Longrightarrow> ru_gpgNetParser u' = ru_gpgNetParser u"
  by (auto simp: on_Subscribe_def Let_def split: option.splits if_splits prod.splits)

text \<open>The loop of \<open>onReadyRead\<close>: the user, the bytes left, the bytes sent and the exception.\<close>

function replay_loop :: "qtv \<Rightarrow> ReplayServer \<Rightarrow> disk \<Rightarrow> ReplayUser \<Rightarrow> bytestring \<Rightarrow> ReplayUser \<times> bytestring \<times> bytestring \<times> cpp_error option" where
  "replay_loop q s dsk u bs =
     (if bs = [] then (u, [], [], None)
      else case GetCommand (ru_gpgNetParser u) bs of
        (p, rest, Inl e) \<Rightarrow> (u\<lparr>ru_gpgNetParser := p\<rparr>, rest, [], if e = DataNotReady then None else Some e)
      | (p, rest, Inr cmd) \<Rightarrow>
          let u1 = u\<lparr>ru_gpgNetParser := p\<rparr> in
          (case try_then (str_at (qt_of q) cmd 0) (\<lambda>name.
                  if name = ascii ''ReplayServerSubscribe''
                  then map_sum id (\<lambda>(g, pos). on_Subscribe s dsk g pos u1) (Subscribe_set q cmd)
                  else Inr (u1, [])) of
             Inl e \<Rightarrow> (u1, rest, [], Some e)
           | Inr (u2, out) \<Rightarrow>
               let (u3, rest', out', res) = replay_loop q s dsk u2 rest in (u3, rest', out @ out', res)))"
  by pat_completeness auto
termination
  by (relation "measures [\<lambda>(q, s, dsk, u, bs). length bs, \<lambda>(q, s, dsk, u, bs). m_progress (m_size (m_command (ru_gpgNetParser u)))]")
    (auto simp: try_then_def dest!: GetCommand_progress [OF sym] on_Subscribe_parser [OF sym] split: sum.splits if_splits prod.splits)

declare replay_loop.simps [simp del]

text \<open>\<open>onReadyRead\<close>: an unknown socket, or an exception other than \<open>DataNotReady\<close>, is closed (the last component).\<close>

definition replay_onReadyRead ::
  "qtv \<Rightarrow> disk \<Rightarrow> nat \<Rightarrow> bytestring \<Rightarrow> ReplayServer \<Rightarrow> cpp_error + ReplayServer \<times> bytestring \<times> bytestring \<times> bool" where
  "replay_onReadyRead q dsk sender bs s =
     (case map_of (rs_users s) sender of
        None \<Rightarrow> Inr (s, bs, [], True)
      | Some u \<Rightarrow>
          let (u', rest, out, res) = replay_loop q s dsk u bs in
          if res = Some Undefined then Inl Undefined
          else Inr (s\<lparr>rs_users := std_put sender u' (rs_users s)\<rparr>, rest, out, res \<noteq> None))"

subsection \<open>The timer\<close>

text \<open>
  \<open>while (size() > requiredLogSize) dequeue()\<close>. A negative required size is never reached and the queue is
  drained beyond its end, which is undefined (\<open>None\<close>).
\<close>

definition trim_log :: "int \<Rightarrow> int list \<Rightarrow> int list option" where
  "trim_log required sizes = (if required < 0 then None else Some (drop (length sizes - nat required) sizes))"

definition updateFileSizeLog :: "ReplayServer \<Rightarrow> disk \<Rightarrow> ReplayGame \<Rightarrow> ReplayGame option" where
  "updateFileSizeLog s dsk g =
     (let g1 = (if rg_demoFile g = None
                then case findReplayFileForGame s dsk (rg_gameId g) of
                       None \<Rightarrow> g
                     | Some i \<Rightarrow> g\<lparr>rg_demoFile := Some i, rg_demoFileSizeLog := Some []\<rparr>
                else g);
          g2 = (case rg_demoFile g1 of
                  None \<Rightarrow> g1
                | Some i \<Rightarrow> g1\<lparr>rg_demoFileSizeLog :=
                    map_option (\<lambda>sizes. sizes @ [int (length (contents dsk i))]) (rg_demoFileSizeLog g1)\<rparr>)
      in case rg_demoFileSizeLog g2 of
           None \<Rightarrow> Some g2
         | Some sizes \<Rightarrow> map_option (\<lambda>l. g2\<lparr>rg_demoFileSizeLog := Some l\<rparr>) (trim_log (1 + rg_delaySeconds g2) sizes))"

text \<open>The first loop of \<open>timerEvent\<close>.\<close>

fun log_sizes :: "ReplayServer \<Rightarrow> disk \<Rightarrow> (u32, ReplayGame) std_map \<Rightarrow> (u32, ReplayGame) std_map option" where
  "log_sizes s dsk [] = Some []"
| "log_sizes s dsk ((k, g) # games) =
     Option.bind (updateFileSizeLog s dsk g) (\<lambda>g'. map_option ((#) (k, g')) (log_sizes s dsk games))"

text \<open>
  The sending loop of \<open>serviceUser\<close>: \<open>pos\<close> is the read position, \<open>pending\<close> what waits in the write buffer; the
  results are the new position and the portions sent.
\<close>

function service_loop :: "int \<Rightarrow> int \<Rightarrow> bytestring \<Rightarrow> nat \<Rightarrow> int \<Rightarrow> nat \<times> bytestring list" where
  "service_loop maxBytes threshold cts pos pending =
     (if pending < maxBytes
      then let thisChunkSize = min (threshold - int pos) CHUNK_SIZE in
           if thisChunkSize \<le> 0 then (pos, [])
           else let bs = take (nat thisChunkSize) (drop pos cts) in
                if bs = [] then (pos, [])
                else let (pos', sent) = service_loop maxBytes threshold cts (pos + length bs) (pending + int (length (sendData OK bs)))
                     in (pos', bs # sent)
      else (pos, []))"
  by pat_completeness auto
termination
  by (relation "measure (\<lambda>(m, t, c, pos, p). length c - pos)") (auto simp: not_le)

declare service_loop.simps [simp del]

definition serviceUser :: "ReplayServer \<Rightarrow> disk \<Rightarrow> int \<Rightarrow> ReplayUser \<Rightarrow> ReplayUser \<times> bytestring list" where
  "serviceUser s dsk pending u =
     (case ru_demoFile u of
        None \<Rightarrow> (u\<lparr>ru_enableLogWarn := False\<rparr>, [])
      | Some (i, pos) \<Rightarrow>
          let go = (\<lambda>threshold. let (pos', sent) = service_loop (rs_maxBytesPerUserPerSecond s) threshold (contents dsk i) pos pending
                     in (u\<lparr>ru_demoFile := Some (i, pos')\<rparr>, sent))
          in case map_of (rs_gameInfo s) (ru_gameId u) of
               None \<Rightarrow> go (int pos + rs_maxBytesPerUserPerSecond s)
             | Some g \<Rightarrow>
                 (case rg_demoFileSizeLog g of
                    None \<Rightarrow> (u\<lparr>ru_enableLogWarn := False\<rparr>, [])
                  | Some sizes \<Rightarrow>
                      if sizes = [] then (u, [])
                      else if int (length sizes) > rg_delaySeconds g then go (hd sizes)
                      else (u, [])))"

text \<open>\<open>timerEvent\<close>; \<open>pending\<close> gives the bytes waiting for each socket, the result what is sent to each.\<close>

definition replay_timerEvent ::
  "disk \<Rightarrow> (nat \<Rightarrow> int) \<Rightarrow> ReplayServer \<Rightarrow> (ReplayServer \<times> (nat \<times> bytestring list) list) option" where
  "replay_timerEvent dsk pending s =
     Option.bind (log_sizes s dsk (rs_gameInfo s)) (\<lambda>games.
       let s1 = s\<lparr>rs_gameInfo := games\<rparr>;
           served = map (\<lambda>(sock, u). if ru_demoFile u = None then (sock, u, []) else (sock, serviceUser s1 dsk (pending sock) u)) (rs_users s1)
       in Some (s1\<lparr>rs_users := map (\<lambda>(sock, u, sent). (sock, u)) served\<rparr>, map (\<lambda>(sock, u, sent). (sock, sent)) served))"

section \<open>The client\<close>

text \<open>\<open>m_tafGameId\<close> has 16 bits. The buffer file is the list of bytes written to it.\<close>

record ReplayClient =
  rc_tafGameId :: u16
  rc_position :: u32
  rc_gpgNetParser :: GpgNetParse
  rc_buffer :: bytestring

definition ReplayClient_new :: "u32 \<Rightarrow> u32 \<Rightarrow> ReplayClient" where
  "ReplayClient_new tafGameId position =
     \<lparr>rc_tafGameId = ucast tafGameId, rc_position = position, rc_gpgNetParser = GpgNetParse_new, rc_buffer = []\<rparr>"

definition sendSubscribe :: "u32 \<Rightarrow> u32 \<Rightarrow> bytestring" where
  "sendSubscribe gameId position =
     sendCommand (ascii ''ReplayServerSubscribe'') 2 @ sendArgument_uint gameId @ sendArgument_uint position"

definition replay_client_connect :: "socket_state \<Rightarrow> bool" where
  "replay_client_connect st = (st = UnconnectedState)"

definition replay_client_stateChanged :: "socket_state \<Rightarrow> ReplayClient \<Rightarrow> bytestring" where
  "replay_client_stateChanged st c =
     (if st = ConnectedState then sendSubscribe (ucast (rc_tafGameId c)) (rc_position c) else [])"

text \<open>One command from the server: the new client and the status signalled, if any.\<close>

definition on_Data :: "TaReplayServerStatus \<Rightarrow> bytestring \<Rightarrow> ReplayClient \<Rightarrow> ReplayClient \<times> TaReplayServerStatus list" where
  "on_Data status bs c =
     (if status = OK then (c\<lparr>rc_buffer := rc_buffer c @ bs, rc_position := rc_position c + word_of_nat (length bs)\<rparr>, [])
      else (c, [status]))"

function replay_client_onReadyRead ::
  "qtv \<Rightarrow> ReplayClient \<Rightarrow> bytestring \<Rightarrow> cpp_error + ReplayClient \<times> bytestring \<times> TaReplayServerStatus list" where
  "replay_client_onReadyRead q c bs =
     (if bs = [] then Inr (c, [], [])
      else case GetCommand (rc_gpgNetParser c) bs of
        (p, rest, Inl e) \<Rightarrow> if e = Undefined then Inl Undefined else Inr (c\<lparr>rc_gpgNetParser := p\<rparr>, rest, [])
      | (p, rest, Inr cmd) \<Rightarrow>
          let c1 = c\<lparr>rc_gpgNetParser := p\<rparr> in
          (case try_then (str_at (qt_of q) cmd 0) (\<lambda>name.
                  if name = ascii ''ReplayServerData'' then map_sum id (\<lambda>(st, d). on_Data st d c1) (Data_set q cmd)
                  else Inr (c1, [])) of
             Inl e \<Rightarrow> if e = Undefined then Inl Undefined else Inr (c1, rest, [])
           | Inr (c2, sig) \<Rightarrow>
               map_sum id (\<lambda>(c3, rest', sig'). (c3, rest', sig @ sig')) (replay_client_onReadyRead q c2 rest)))"
  by pat_completeness auto
termination
  by (relation "measures [\<lambda>(q, c, bs). length bs, \<lambda>(q, c, bs). m_progress (m_size (m_command (rc_gpgNetParser c)))]")
    (auto simp: try_then_def on_Data_def dest!: GetCommand_progress [OF sym] split: sum.splits if_splits prod.splits)

declare replay_client_onReadyRead.simps [simp del]

end
