(* ===== verification/Replay_Delay.thy ===== *)
theory Replay_Delay
  imports Replay_Server "HOL-Library.Sublist"
begin

text \<open>
  What a viewer gets to see: the recording as it stood \<open>delaySeconds\<close> ago, never more. The log of file sizes is
  related to the history of the file, one entry for every tick of the timer.
\<close>

section \<open>Sending\<close>

lemma service_loop_sent:
  "service_loop m t c pos pend = (pos', sent) \<Longrightarrow>
     pos \<le> pos' \<and> int pos' \<le> max (int pos) t \<and> concat sent = take (pos' - pos) (drop pos c) \<and> length (concat sent) = pos' - pos"
proof (induction m t c pos pend arbitrary: pos' sent rule: service_loop.induct)
  case (1 m t c pos pend)
  let ?n = "min (t - int pos) CHUNK_SIZE"
  let ?bs = "take (nat ?n) (drop pos c)"
  show ?case
  proof (cases "pend < m \<and> \<not> ?n \<le> 0 \<and> ?bs \<noteq> []")
    case False
    then have "pos' = pos \<and> sent = []"
      using "1.prems" by (auto simp: service_loop.simps [of m t c pos pend] Let_def split: if_splits)
    then show ?thesis by simp
  next
    case True
    define bs where "bs = ?bs"
    obtain p1 sent1 where r: "service_loop m t c (pos + length bs) (pend + int (length (sendData OK bs))) = (p1, sent1)" by fastforce
    then have eq: "pos' = p1" "sent = bs # sent1"
      using "1.prems" True by (auto simp: service_loop.simps [of m t c pos pend] Let_def bs_def)
    have IH: "pos + length bs \<le> p1" "int p1 \<le> max (int (pos + length bs)) t"
        "concat sent1 = take (p1 - (pos + length bs)) (drop (pos + length bs) c)" "length (concat sent1) = p1 - (pos + length bs)"
      using "1.IH" [OF _ refl _ refl _ r [unfolded bs_def]] True unfolding bs_def by blast+
    have "int (length bs) \<le> t - int pos" using True by (auto simp: bs_def)
    moreover have "drop pos c = bs @ drop (pos + length bs) c"
      unfolding bs_def by (metis add.commute append_eq_conv_conj append_take_drop_id drop_drop)
    then have "take (p1 - pos) (drop pos c) = bs @ take (p1 - (pos + length bs)) (drop (pos + length bs) c)"
      using IH(1) by simp
    ultimately show ?thesis using IH eq by auto
  qed
qed

section \<open>The log\<close>

text \<open>The log after the file has had the contents \<open>hist\<close>, one per second, with a delay of \<open>d\<close> seconds.\<close>

definition size_log :: "nat \<Rightarrow> bytestring list \<Rightarrow> int list" where
  "size_log d hist = map (\<lambda>c. int (length c)) (drop (length hist - (d + 1)) hist)"

text \<open>What was in the file \<open>d\<close> seconds ago.\<close>

definition past :: "nat \<Rightarrow> bytestring list \<Rightarrow> bytestring" where
  "past d hist = (if d < length hist then hist ! (length hist - 1 - d) else [])"

lemma size_log_snoc: "trim_log (1 + int d) (size_log d hist @ [int (length c)]) = Some (size_log d (hist @ [c]))"
proof (cases "d < length hist")
  case True
  then have "length hist - d = Suc (length hist - (d + 1))" by simp
  moreover have "length (size_log d hist @ [int (length c)]) - nat (1 + int d) = 1"
    using True by (simp add: size_log_def nat_add_distrib)
  ultimately show ?thesis
    using True by (simp add: trim_log_def size_log_def drop_map)
next
  case False
  then show ?thesis by (simp add: trim_log_def size_log_def nat_add_distrib)
qed

lemma length_size_log: "length (size_log d hist) = min (length hist) (d + 1)"
  by (auto simp: size_log_def)

lemma hd_size_log:
  assumes "d < length hist"
  shows "hd (size_log d hist) = int (length (past d hist))"
proof -
  have "length hist - (d + 1) < length hist" using assms by simp
  then have "hd (drop (length hist - (d + 1)) hist) = hist ! (length hist - (d + 1))" by (rule hd_drop_conv_nth)
  moreover have "drop (length hist - (d + 1)) hist \<noteq> []" using assms by simp
  then have "hd (size_log d hist) = int (length (hd (drop (length hist - (d + 1)) hist)))" by (simp add: size_log_def list.map_sel(1))
  moreover have "length hist - 1 - d = length hist - (d + 1)" by simp
  ultimately show ?thesis using assms by (simp only: past_def if_True)
qed

section \<open>One second\<close>

text \<open>
  The server, a game and one of its viewers after the history \<open>hist\<close>: the log is that of the history, and the
  viewer has not got beyond what was there \<open>d\<close> seconds ago.
\<close>

definition following :: "nat \<Rightarrow> bytestring list \<Rightarrow> u32 \<Rightarrow> nat \<Rightarrow> nat \<Rightarrow> nat \<Rightarrow> ReplayServer \<Rightarrow> bool" where
  "following d hist k i sock pos s = (\<exists>g u.
     map_of (rs_gameInfo s) k = Some g \<and> rg_demoFile g = Some i \<and> rg_delaySeconds g = int d \<and>
     rg_demoFileSizeLog g = Some (size_log d hist) \<and>
     map_of (rs_users s) sock = Some u \<and> ru_gameId u = k \<and> ru_demoFile u = Some (i, pos) \<and> pos \<le> length (past d hist))"

definition growing :: "bytestring list \<Rightarrow> bool" where
  "growing hist = sorted_wrt prefix hist"

lemma past_mono:
  assumes "growing (hist @ [c])"
  shows "prefix (past d hist) (past d (hist @ [c]))"
proof (cases "d < length hist")
  case True
  show ?thesis
  proof (cases d)
    case 0
    then have "hist ! (length hist - 1) \<in> set hist" using True by simp
    then show ?thesis using assms 0 True by (simp add: past_def growing_def sorted_wrt_append nth_append)
  next
    case (Suc e)
    have "length hist - 1 - d < length hist - d" and "length hist - d < length hist" using True Suc by auto
    then have "prefix (hist ! (length hist - 1 - d)) (hist ! (length hist - d))"
      using assms sorted_wrt_nth_less [of prefix hist] by (simp add: growing_def sorted_wrt_append)
    moreover have "(hist @ [c]) ! (length hist - d) = hist ! (length hist - d)"
      by (rule nth_append_left) (use True Suc in simp)
    ultimately show ?thesis using True Suc by (simp add: past_def)
  qed
qed (simp add: past_def)

text \<open>What is sent to one socket in a tick.\<close>

definition sent_to :: "nat \<Rightarrow> (nat \<times> bytestring list) list \<Rightarrow> bytestring" where
  "sent_to sock out = (case map_of out sock of None \<Rightarrow> [] | Some bss \<Rightarrow> concat bss)"

lemma map_of_served:
  "map_of (map (\<lambda>(sock, u). if ru_demoFile u = None then (sock, u, []) else (sock, f sock u)) us) k =
     map_option (\<lambda>u. if ru_demoFile u = None then (u, []) else f k u) (map_of us k)"
  by (induction us) auto

lemma map_of_split_served:
  "map_of (map (\<lambda>(sock, u, sent). (sock, u)) xs) k = map_option fst (map_of xs k)"
  "map_of (map (\<lambda>(sock, u, sent). (sock, sent)) xs) k = map_option snd (map_of xs k)"
  by (induction xs) auto

lemma map_of_logged:
  "log_sizes s dsk games = Some games' \<Longrightarrow> map_of games' k = Option.bind (map_of games k) (updateFileSizeLog s dsk)"
  by (induction games arbitrary: games') (auto simp: bind_eq_Some_conv)

text \<open>What the timer does for one viewer, the sizes being logged.\<close>

lemma timer_serves:
  assumes "replay_timerEvent dsk pending s = Some (s', out)" and "map_of (rs_users s) sock = Some u" and "ru_demoFile u \<noteq> None"
  obtains s1 u' sent where "rs_maxBytesPerUserPerSecond s1 = rs_maxBytesPerUserPerSecond s"
    and "\<And>k. map_of (rs_gameInfo s1) k = Option.bind (map_of (rs_gameInfo s) k) (updateFileSizeLog s dsk)"
    and "rs_gameInfo s' = rs_gameInfo s1" and "serviceUser s1 dsk (pending sock) u = (u', sent)"
    and "map_of (rs_users s') sock = Some u'" and "sent_to sock out = concat sent"
proof -
  obtain games where log: "log_sizes s dsk (rs_gameInfo s) = Some games"
    using assms(1) by (auto simp: replay_timerEvent_def bind_eq_Some_conv)
  let ?s1 = "s\<lparr>rs_gameInfo := games\<rparr>"
  obtain u' sent where "serviceUser ?s1 dsk (pending sock) u = (u', sent)" by fastforce
  moreover from this have "map_of (rs_users s') sock = Some u'" and "sent_to sock out = concat sent" and "rs_gameInfo s' = games"
    using assms log by (auto simp: replay_timerEvent_def Let_def map_of_served map_of_split_served sent_to_def simp del: map_map)
  ultimately show thesis using that [of ?s1] map_of_logged [OF log] by simp
qed

lemma tick_following:
  assumes w: "following d hist k i sock pos s" and grow: "growing (hist @ [contents dsk i])"
    and t: "replay_timerEvent dsk pending s = Some (s', out)"
  obtains pos' where "following d (hist @ [contents dsk i]) k i sock pos' s'" and "pos \<le> pos'"
    and "sent_to sock out = take (pos' - pos) (drop pos (contents dsk i))" and "length (sent_to sock out) = pos' - pos"
proof -
  let ?c = "contents dsk i" and ?h = "hist @ [contents dsk i]"
  obtain g u where g: "map_of (rs_gameInfo s) k = Some g" "rg_demoFile g = Some i" "rg_delaySeconds g = int d"
    "rg_demoFileSizeLog g = Some (size_log d hist)"
    and u: "map_of (rs_users s) sock = Some u" "ru_gameId u = k" "ru_demoFile u = Some (i, pos)" and pos: "pos \<le> length (past d hist)"
    using w by (auto simp: following_def)
  define g' where "g' = g\<lparr>rg_demoFileSizeLog := Some (size_log d ?h)\<rparr>"
  have "updateFileSizeLog s dsk g = Some g'"
    using g size_log_snoc [of d hist ?c] by (simp add: g'_def updateFileSizeLog_def Let_def)
  moreover obtain s1 u' sent where "rs_maxBytesPerUserPerSecond s1 = rs_maxBytesPerUserPerSecond s"
    and "\<And>k. map_of (rs_gameInfo s1) k = Option.bind (map_of (rs_gameInfo s) k) (updateFileSizeLog s dsk)"
    and games: "rs_gameInfo s' = rs_gameInfo s1" and served: "serviceUser s1 dsk (pending sock) u = (u', sent)"
    and s': "map_of (rs_users s') sock = Some u'" "sent_to sock out = concat sent"
    using timer_serves [OF t u(1)] u(3) by (metis option.discI)
  ultimately have k: "map_of (rs_gameInfo s1) k = Some g'" and m: "rs_maxBytesPerUserPerSecond s1 = rs_maxBytesPerUserPerSecond s"
    using g(1) by simp_all
  have g': "rg_demoFile g' = Some i" "rg_delaySeconds g' = int d" "rg_demoFileSizeLog g' = Some (size_log d ?h)"
    using g by (simp_all add: g'_def)
  have ne: "size_log d ?h \<noteq> []" by (simp add: size_log_def)
  have "\<exists>pos'. u' = u\<lparr>ru_demoFile := Some (i, pos')\<rparr> \<and> pos \<le> pos' \<and> pos' \<le> length (past d ?h) \<and>
      concat sent = take (pos' - pos) (drop pos ?c) \<and> length (concat sent) = pos' - pos"
  proof (cases "d < length ?h")
    case True
    then have "int (length (size_log d ?h)) > rg_delaySeconds g'" using g'(2) by (simp add: length_size_log)
    moreover obtain pos' sent' where l: "service_loop (rs_maxBytesPerUserPerSecond s) (int (length (past d ?h))) ?c pos (pending sock) = (pos', sent')"
      by fastforce
    ultimately have "u' = u\<lparr>ru_demoFile := Some (i, pos')\<rparr>" and "sent = sent'"
      using served u k m g' ne hd_size_log [OF True] by (auto simp: serviceUser_def Let_def)
    moreover have "pos \<le> length (past d ?h)" using pos past_mono [OF grow, of d] prefix_length_le le_trans by blast
    ultimately show ?thesis using service_loop_sent [OF l] by auto
  next
    case False
    then have "u' = u" and "sent = []"
      using served u k g' ne by (auto simp: serviceUser_def Let_def length_size_log split: if_splits)
    moreover have "u\<lparr>ru_demoFile := Some (i, pos)\<rparr> = u" using u(3) by (cases u) simp
    moreover have "pos = 0" using pos False by (simp add: past_def)
    ultimately show ?thesis by (intro exI [of _ pos]) simp
  qed
  then obtain pos' where "u' = u\<lparr>ru_demoFile := Some (i, pos')\<rparr>" and "pos \<le> pos'" and "pos' \<le> length (past d ?h)"
    and "concat sent = take (pos' - pos) (drop pos ?c)" and "length (concat sent) = pos' - pos" by blast
  then show thesis using that [of pos'] s' g' u k games by (simp add: following_def)
qed

section \<open>Following a game\<close>

text \<open>Ticks of the timer, each with the files as they are then; the bytes sent to one viewer.\<close>

fun replay_run :: "nat \<Rightarrow> (disk \<times> (nat \<Rightarrow> int)) list \<Rightarrow> ReplayServer \<Rightarrow> (ReplayServer \<times> bytestring) option" where
  "replay_run sock [] s = Some (s, [])"
| "replay_run sock ((dsk, pending) # ds) s =
     Option.bind (replay_timerEvent dsk pending s) (\<lambda>(s1, out). map_option (\<lambda>(s2, bs). (s2, sent_to sock out @ bs)) (replay_run sock ds s1))"

abbreviation file_history :: "nat \<Rightarrow> (disk \<times> (nat \<Rightarrow> int)) list \<Rightarrow> bytestring list" where
  "file_history i ds \<equiv> map (\<lambda>(dsk, _). contents dsk i) ds"

lemma past_prefix:
  assumes "growing (hist @ [c])"
  shows "prefix (past d (hist @ [c])) c"
proof (cases "d \<le> length hist")
  case True
  have "(hist @ [c]) ! (length hist - d) \<in> set (hist @ [c])" by (rule nth_mem) simp
  then show ?thesis using assms True by (auto simp: past_def growing_def sorted_wrt_append)
qed (simp add: past_def)

lemma growing_appendD: "growing (xs @ ys) \<Longrightarrow> growing xs"
  by (simp add: growing_def sorted_wrt_append)

lemma slice_prefix: "prefix a b \<Longrightarrow> n + m \<le> length a \<Longrightarrow> take m (drop n a) = take m (drop n b)"
  by (auto simp: prefix_def)

lemma run_following:
  assumes "following d hist k i sock pos s" and "growing (hist @ file_history i ds)" and "replay_run sock ds s = Some (s', sent)"
  shows "\<exists>pos'. following d (hist @ file_history i ds) k i sock pos' s' \<and> pos \<le> pos' \<and>
    sent = take (pos' - pos) (drop pos (past d (hist @ file_history i ds))) \<and> length sent = pos' - pos"
  using assms
proof (induction ds arbitrary: hist pos s sent)
  case Nil
  then show ?case by auto
next
  case (Cons x ds)
  obtain dsk pending where x: "x = (dsk, pending)" by (cases x)
  let ?h = "hist @ [contents dsk i]"
  obtain s1 out more where t: "replay_timerEvent dsk pending s = Some (s1, out)"
    and m: "replay_run sock ds s1 = Some (s', more)" and sent: "sent = sent_to sock out @ more"
    using Cons.prems(3) x by (auto simp: bind_eq_Some_conv)
  have grow: "growing ?h" using Cons.prems(2) x growing_appendD [of ?h "file_history i ds"] by simp
  obtain p1 where w1: "following d ?h k i sock p1 s1" and p1: "pos \<le> p1"
    and o1: "sent_to sock out = take (p1 - pos) (drop pos (contents dsk i))" "length (sent_to sock out) = p1 - pos"
    using tick_following [OF Cons.prems(1) grow t] by blast
  obtain p2 where w2: "following d (?h @ file_history i ds) k i sock p2 s'" and p2: "p1 \<le> p2"
    and o2: "more = take (p2 - p1) (drop p1 (past d (?h @ file_history i ds)))" "length more = p2 - p1"
    using Cons.IH [OF w1 _ m] Cons.prems(2) x by auto
  let ?now = "past d (?h @ file_history i ds)"
  have l1: "p1 \<le> length (past d ?h)" and l2: "p2 \<le> length ?now"
    using w1 w2 by (auto simp: following_def)
  have "prefix (past d ?h) ?now"
    using Cons.prems(2) x
  proof (induction ds rule: rev_induct)
    case (snoc y ys)
    then have "growing ((?h @ file_history i ys) @ file_history i [y])" by simp
    with snoc x growing_appendD past_mono [of "?h @ file_history i ys" _ d] show ?case
      by (auto intro: prefix_order.trans split: prod.splits)
  qed simp
  then have "sent_to sock out = take (p1 - pos) (drop pos ?now)"
    using o1 slice_prefix [OF past_prefix [OF grow], of pos "p1 - pos" d] slice_prefix [of "past d ?h" ?now pos "p1 - pos"] l1 p1 by simp
  moreover have "take (p2 - pos) (drop pos ?now) = take (p1 - pos) (drop pos ?now) @ take (p2 - p1) (drop p1 ?now)"
    using p1 p2 take_add [of "p1 - pos" "p2 - p1" "drop pos ?now"] by simp
  ultimately show ?case
    using w2 p1 p2 o1 o2 sent x by (intro exI [of _ p2]) auto
qed


definition example_server :: ReplayServer where
  "example_server = \<lparr>rs_maxBytesPerUserPerSecond = 50, rs_demoPath = (\<lambda>_. []), rs_users = [(0, ReplayUser_new)],
     rs_gameInfo = [(5, \<lparr>rg_gameId = 5, rg_delaySeconds = 1, rg_state = [], rg_demoFile = Some 7, rg_demoFileSizeLog = Some []\<rparr>)]\<rparr>"

definition example_disk :: "bytestring \<Rightarrow> disk" where
  "example_disk bs = \<lparr>inode = (\<lambda>_. Some 7), contents = (\<lambda>_. bs)\<rparr>"

definition example_ticks :: "(disk \<times> (nat \<Rightarrow> int)) list" where
  "example_ticks = [(example_disk [1], \<lambda>_. 0), (example_disk [1, 2], \<lambda>_. 0)]"

lemma example_replay:
  "on_Subscribe example_server (example_disk []) 5 9 ReplayUser_new = (ReplayUser_new\<lparr>ru_demoFile := Some (7, 0), ru_gameId := 5\<rparr>, [])"
  "map_option snd (replay_run 0 example_ticks (example_server\<lparr>rs_users := std_put 0 (ReplayUser_new\<lparr>ru_demoFile := Some (7, 0), ru_gameId := 5\<rparr>) (rs_users example_server)\<rparr>)) = Some [1]"
  by code_simp+


section \<open>A subscription that comes too early\<close>

lemma first_chunk:
  assumes "pend < m" and "0 < t - int pos"
  shows "\<exists>pos' sent. service_loop m t c pos pend = (pos', take (nat (min (t - int pos) CHUNK_SIZE)) (drop pos c) # sent) \<or>
    drop pos c = [] \<and> service_loop m t c pos pend = (pos, [])"
  using assms by (subst (1 2) service_loop.simps) (auto simp: Let_def CHUNK_SIZE_def split: prod.splits)

text \<open>
  The delay can be missed: a viewer who subscribes to a known game whose recording exists but whose size has not yet been
  logged gets the open file all the same, and not the game's number. Unless the number he had before is that of a
  known game, the next tick of the timer sends him the newest contents of the file, whatever the delay.
\<close>

theorem early_subscriber_sees_live:
  assumes "map_of (rs_gameInfo s) k = Some g" and "0 \<le> rg_delaySeconds g" and "rg_demoFileSizeLog g = None"
    and "findReplayFileForGame s dsk k = Some i" and "map_of (rs_users s) sock = Some u"
    and "map_of (rs_gameInfo s) (ru_gameId u) = None" and "on_Subscribe s dsk k position u = (u1, refusal)"
    and "0 \<le> pending sock" and "pending sock < rs_maxBytesPerUserPerSecond s"
    and "replay_timerEvent dsk' pending (s\<lparr>rs_users := std_put sock u1 (rs_users s)\<rparr>) = Some (s', out)"
  shows "prefix (take (nat (min (rs_maxBytesPerUserPerSecond s) CHUNK_SIZE)) (contents dsk' i)) (sent_to sock out)"
proof -
  let ?m = "rs_maxBytesPerUserPerSecond s"
  let ?s = "s\<lparr>rs_users := std_put sock u1 (rs_users s)\<rparr>"
  have u1: "u1 = u\<lparr>ru_demoFile := Some (i, 0)\<rparr>"
    using assms(1-4,7) by (auto simp: on_Subscribe_def Let_def)
  have user: "map_of (rs_users ?s) sock = Some u1" and u1_file: "ru_demoFile u1 \<noteq> None" using u1 by simp_all
  obtain s1 u' sent where m: "rs_maxBytesPerUserPerSecond s1 = rs_maxBytesPerUserPerSecond ?s"
    and games: "\<And>k. map_of (rs_gameInfo s1) k = Option.bind (map_of (rs_gameInfo ?s) k) (updateFileSizeLog ?s dsk')"
    and served: "serviceUser s1 dsk' (pending sock) u1 = (u', sent)" and out: "sent_to sock out = concat sent"
    using timer_serves [OF assms(10) user u1_file] by metis
  have "map_of (rs_gameInfo s1) (ru_gameId u1) = None" using games [of "ru_gameId u"] assms(6) u1 by simp
  then obtain pos' where loop: "service_loop ?m ?m (contents dsk' i) 0 (pending sock) = (pos', sent)"
    using u1 m served by (auto simp: serviceUser_def Let_def split: prod.splits)
  have "sent_to sock out = concat sent" by (rule out)
  moreover have "prefix (take (nat (min ?m CHUNK_SIZE)) (contents dsk' i)) (concat sent)"
    using first_chunk [of "pending sock" ?m ?m 0 "contents dsk' i"] assms(8,9) loop by auto
  ultimately show ?thesis by simp
qed

definition early_server :: ReplayServer where
  "early_server = example_server\<lparr>rs_gameInfo :=
     [(5, \<lparr>rg_gameId = 5, rg_delaySeconds = 300, rg_state = [], rg_demoFile = None, rg_demoFileSizeLog = None\<rparr>)]\<rparr>"

theorem early_subscriber_sees_live_witness:
  "\<exists>s' out. replay_timerEvent (example_disk [1, 2]) (\<lambda>_. 0)
       (early_server\<lparr>rs_users := [(0, ReplayUser_new\<lparr>ru_demoFile := Some (7, 0)\<rparr>)]\<rparr>) = Some (s', out) \<and>
     prefix [1, 2] (sent_to 0 out)"
proof -
  let ?g = "\<lparr>rg_gameId = 5, rg_delaySeconds = 300, rg_state = [], rg_demoFile = None, rg_demoFileSizeLog = None\<rparr>"
  let ?u = "ReplayUser_new\<lparr>ru_demoFile := Some (7, 0)\<rparr>"
  let ?s = "early_server\<lparr>rs_users := [(0, ?u)]\<rparr>"
  have sub: "on_Subscribe early_server (example_disk [1]) 5 0 ReplayUser_new = (?u, sendData GAME_NOT_FOUND [])"
    by (simp add: on_Subscribe_def early_server_def Let_def findReplayFileForGame_def example_disk_def)
  have put: "std_put 0 ?u (rs_users early_server) = [(0, ?u)]" by (simp add: early_server_def example_server_def)
  obtain s' out where run: "replay_timerEvent (example_disk [1, 2]) (\<lambda>_. 0) ?s = Some (s', out)"
    by (auto simp: replay_timerEvent_def early_server_def updateFileSizeLog_def findReplayFileForGame_def example_disk_def trim_log_def Let_def)
  with early_subscriber_sees_live [of early_server 5 ?g "example_disk [1]" 7 0 ReplayUser_new 0 ?u _ "\<lambda>_. 0" "example_disk [1, 2]" s' out,
      OF _ _ _ _ _ _ sub] put
  show ?thesis
    by (simp add: early_server_def example_server_def findReplayFileForGame_def example_disk_def ReplayUser_new_def CHUNK_SIZE_def)
qed

end
