(* ===== verification/Replay_View.thy ===== *)
theory Replay_View
  imports Replay_Delay
begin

text \<open>
  The viewer's side of the stream: what the server sends in one tick ends up in the client's buffer, and the positions
  the two keep, which a reconnect relies on, stay the same.
\<close>

lemma sendData_enc: "sendData st bs = enc_command (ascii ''ReplayServerData'') [UInt (status_code st), ByteArray bs]"
  by (simp add: sendData_def sendCommand_def sendArgument_bytes_def sendArgument_uint_def sendArgument_int_def
      enc_command_def enc_bytes_def)

lemma status_of_code: "status_of (status_code OK) = OK"
  by (simp add: status_of_def)

lemma Data_set_enc:
  "fromUtf8 (qt_of q) (ascii ''ReplayServerData'') = ascii ''ReplayServerData'' \<Longrightarrow>
     Data_set q [ByteArray (ascii ''ReplayServerData''), UInt n, ByteArray bs] = Inr (status_of n, bs)"
  by (simp add: Data_set_def check_id_def str_at_def arg_at_def uint_at_def bytes_arg_def)

lemma service_loop_chunks:
  "service_loop m t c pos pend = (pos', sent) \<Longrightarrow> list_all (\<lambda>bs. length bs \<le> 1000) sent"
proof (induction m t c pos pend arbitrary: pos' sent rule: service_loop.induct)
  case (1 m t c pos pend)
  let ?bs = "take (nat (min (t - int pos) CHUNK_SIZE)) (drop pos c)"
  show ?case
  proof (cases "pend < m \<and> \<not> min (t - int pos) CHUNK_SIZE \<le> 0 \<and> ?bs \<noteq> []")
    case False
    then show ?thesis
      using "1.prems" by (auto simp: service_loop.simps [of m t c pos pend] Let_def split: if_splits)
  next
    case True
    obtain p1 sent1 where r: "service_loop m t c (pos + length ?bs) (pend + int (length (sendData OK ?bs))) = (p1, sent1)" by fastforce
    then have "sent = ?bs # sent1"
      using "1.prems" True by (auto simp: service_loop.simps [of m t c pos pend] Let_def)
    moreover have "list_all (\<lambda>bs. length bs \<le> 1000) sent1"
      using "1.IH" [OF _ refl _ refl _ r] True by blast
    moreover have "length ?bs \<le> 1000" by (simp add: CHUNK_SIZE_def min.coboundedI2)
    ultimately show ?thesis by simp
  qed
qed

lemma serviceUser_cases:
  assumes "ru_demoFile u = Some (i, pos)" and "serviceUser s dsk pending u = (u', bss)"
  shows "(\<exists>t p. service_loop (rs_maxBytesPerUserPerSecond s) t (contents dsk i) pos pending = (p, bss) \<and> u' = u\<lparr>ru_demoFile := Some (i, p)\<rparr>) \<or>
    ru_demoFile u' = Some (i, pos) \<and> bss = []"
  using assms
  by (cases "map_of (rs_gameInfo s) (ru_gameId u)")
     (auto simp: serviceUser_def Let_def split: option.splits if_splits prod.splits)

lemma client_reads:
  assumes utf8: "fromUtf8 (qt_of q) (ascii ''ReplayServerData'') = ascii ''ReplayServerData''"
    and "fresh_parser (rc_gpgNetParser c)" and "list_all (\<lambda>bs. length bs \<le> 1000) bss"
  shows "\<exists>p. replay_client_onReadyRead q c (concat (map (sendData OK) bss)) =
    Inr (c\<lparr>rc_buffer := rc_buffer c @ concat bss, rc_position := rc_position c + word_of_nat (length (concat bss)), rc_gpgNetParser := p\<rparr>, [], []) \<and>
    fresh_parser p"
  using assms(2,3)
proof (induction bss arbitrary: c)
  case Nil
  then show ?case by (intro exI [of _ "rc_gpgNetParser c"]) (simp add: replay_client_onReadyRead.simps)
next
  case (Cons bs bss)
  let ?cmd = "[ByteArray (ascii ''ReplayServerData''), UInt (status_code OK), ByteArray bs]"
  let ?rest = "concat (map (sendData OK) bss)"
  have fits: "command_fits (ascii ''ReplayServerData'') [UInt (status_code OK), ByteArray bs]"
    using Cons.prems(2) by (simp add: command_fits_def ascii_def)
  obtain p where p: "GetCommand (rc_gpgNetParser c) (sendData OK bs @ ?rest) = (p, ?rest, Inr ?cmd)" "fresh_parser p"
    using GetCommand_enc [OF Cons.prems(1) fits, of ?rest] sendData_enc [of OK bs] by auto
  let ?c1 = "c\<lparr>rc_gpgNetParser := p\<rparr>"
  let ?c2 = "?c1\<lparr>rc_buffer := rc_buffer c @ bs, rc_position := rc_position c + word_of_nat (length bs)\<rparr>"
  have name: "str_at (qt_of q) ?cmd 0 = Inr (ascii ''ReplayServerData'')" using utf8 by (simp add: str_at_def arg_at_def)
  have step: "on_Data OK bs ?c1 = (?c2, [])" by (simp add: on_Data_def)
  have "sendData OK bs \<noteq> []" using sendData_enc enc_command_nonempty by simp
  then have "replay_client_onReadyRead q c (sendData OK bs @ ?rest) =
      map_sum id (\<lambda>(c3, rest', sig'). (c3, rest', sig')) (replay_client_onReadyRead q ?c2 ?rest)"
    using p(1) name step Data_set_enc [OF utf8] status_of_code
    by (simp add: replay_client_onReadyRead.simps [of q c] try_then_def)
  moreover obtain p' where "replay_client_onReadyRead q ?c2 ?rest =
      Inr (?c2\<lparr>rc_buffer := rc_buffer ?c2 @ concat bss, rc_position := rc_position ?c2 + word_of_nat (length (concat bss)), rc_gpgNetParser := p'\<rparr>, [], [])"
    "fresh_parser p'"
    using Cons.IH [of ?c2] Cons.prems(2) p(2) by auto
  ultimately show ?case
    by (intro exI [of _ p']) (simp add: add.assoc)
qed

text \<open>
  C32. Server and viewer stay in step: whatever the server decides to send a viewer in a tick, the client that
  receives it, however much that is, appends to its buffer file exactly the part of the recording between the old and the new position of
  the server; the position it would ask for after a reconnect is again that of the server (modulo the width of
  the field), nothing is left in the stream and no status is reported.
\<close>

theorem viewer_in_step:
  assumes "ru_demoFile u = Some (i, pos)" and "serviceUser s dsk pending u = (u', bss)"
    and "fresh_parser (rc_gpgNetParser c)" and "rc_position c = word_of_nat pos"
    and "fromUtf8 (qt_of q) (ascii ''ReplayServerData'') = ascii ''ReplayServerData''"
  shows "\<exists>pos' c'. ru_demoFile u' = Some (i, pos') \<and> pos \<le> pos' \<and>
    replay_client_onReadyRead q c (concat (map (sendData OK) bss)) = Inr (c', [], []) \<and>
    rc_buffer c' = rc_buffer c @ take (pos' - pos) (drop pos (contents dsk i)) \<and>
    rc_position c' = word_of_nat pos' \<and> fresh_parser (rc_gpgNetParser c')"
proof -
  have "\<exists>pos'. ru_demoFile u' = Some (i, pos') \<and> pos \<le> pos' \<and> list_all (\<lambda>bs. length bs \<le> 1000) bss \<and>
      concat bss = take (pos' - pos) (drop pos (contents dsk i)) \<and> length (concat bss) = pos' - pos"
    using serviceUser_cases [OF assms(1,2)]
  proof
    assume "\<exists>t p. service_loop (rs_maxBytesPerUserPerSecond s) t (contents dsk i) pos pending = (p, bss) \<and> u' = u\<lparr>ru_demoFile := Some (i, p)\<rparr>"
    then show ?thesis using service_loop_sent service_loop_chunks by fastforce
  qed simp
  then obtain pos' where p: "ru_demoFile u' = Some (i, pos')" "pos \<le> pos'" "list_all (\<lambda>bs. length bs \<le> 1000) bss"
      "concat bss = take (pos' - pos) (drop pos (contents dsk i))" "length (concat bss) = pos' - pos" by blast
  have "word_of_nat pos + word_of_nat (pos' - pos) = (word_of_nat pos' :: u32)"
    using p(2) by (metis le_add_diff_inverse of_nat_add)
  then show ?thesis using client_reads [OF assms(5,3) p(3)] p assms(4) by auto
qed

theorem viewer_in_step_witness:
  "\<exists>pos' c'. pos' = 2 \<and>
     replay_client_onReadyRead \<lparr>qt_of = \<lparr>fromUtf8 = id, bytesToInt = (\<lambda>_. 0), uintToString = (\<lambda>_. [])\<rparr>,
         bytesToUInt = (\<lambda>_. 0), qset_order = id\<rparr> (ReplayClient_new 5 0) (sendData OK [1, 2]) = Inr (c', [], []) \<and>
     rc_buffer c' = [1, 2] \<and> rc_position c' = word_of_nat pos'"
proof -
  let ?q = "\<lparr>qt_of = \<lparr>fromUtf8 = id, bytesToInt = (\<lambda>_. 0), uintToString = (\<lambda>_. [])\<rparr>, bytesToUInt = (\<lambda>_. 0), qset_order = id\<rparr>"
  let ?u = "ReplayUser_new\<lparr>ru_demoFile := Some (7, 0)\<rparr>"
  have "serviceUser example_server (example_disk [1, 2]) 0 ?u = (ReplayUser_new\<lparr>ru_demoFile := Some (7, 2)\<rparr>, [[1, 2]])"
    by code_simp
  from viewer_in_step [OF _ this, of 7 0 "ReplayClient_new 5 0" ?q] show ?thesis
    by (auto simp: ReplayClient_new_def example_disk_def)
qed

end
