(* ===== verification/Launch_Server.thy ===== *)
theory Launch_Server
  imports Demo_Client
begin

text \<open>
  The launch server and its client (\<open>libs/talaunch/LaunchServer.cpp\<close>, \<open>LaunchClient.cpp\<close>): a process with the
  rights to start the game listens on a TCP port for launch requests and reports the state of the game back as
  zero-terminated words.

  The DirectPlay wrapper \<open>JDPlay\<close> is a parameter (\<open>jdplay_env\<close>): whether it can be initialised, finds a session and
  launches the game, the exit code of the game and whether the session still admits players. Of a wrapper object
  the server's record keeps what it was made with. \<open>m_loggedAConnection\<close>, which only controls logging, is left out.
\<close>

section \<open>The server\<close>

record JDPlay =
  jd_guid :: bytestring
  jd_player :: bytestring
  jd_address :: bytestring
  jd_isHost :: bool

record jdplay_env =
  env_initialize :: "JDPlay \<Rightarrow> bool"
  env_search :: "nat \<Rightarrow> bool"             \<comment> \<open>the n-th call of \<open>searchOnce\<close>\<close>
  env_launch :: bool

record LaunchServer =
  ls_keepAliveTimeout :: int
  ls_tcpSockets :: "nat list"
  ls_jdPlay :: "JDPlay option"
  ls_shutdownCounter :: int
  ls_joinIsDisabled :: bool            \<comment> \<open>set before it is read\<close>

datatype launch_event =
    Notified nat bytestring
  | QuitServer
  | GameFailedToLaunch bytestring
  | GameExitedWithError u32
  | GameFileVersionMismatch bytestring

definition TICK_RATE_MILLISEC :: int where "TICK_RATE_MILLISEC = 1000"

definition LaunchServer_new :: "int \<Rightarrow> LaunchServer" where
  "LaunchServer_new keepAliveTimeout = \<lparr>ls_keepAliveTimeout = keepAliveTimeout * 1000 div TICK_RATE_MILLISEC,
     ls_tcpSockets = [], ls_jdPlay = None, ls_shutdownCounter = keepAliveTimeout, ls_joinIsDisabled = False\<rparr>"

definition launch_onNewConnection :: "nat \<Rightarrow> LaunchServer \<Rightarrow> LaunchServer" where
  "launch_onNewConnection socket s = s\<lparr>ls_tcpSockets := ls_tcpSockets s @ [socket]\<rparr>"

definition launch_onSocketStateChanged :: "nat \<Rightarrow> socket_state \<Rightarrow> LaunchServer \<Rightarrow> LaunchServer" where
  "launch_onSocketStateChanged sender st s =
     (if st = UnconnectedState then s\<lparr>ls_tcpSockets := remove1 sender (ls_tcpSockets s)\<rparr> else s)"

text \<open>The word and its terminating zero go to every client.\<close>

definition notifyClients :: "bytestring \<Rightarrow> LaunchServer \<Rightarrow> launch_event list" where
  "notifyClients msg s = map (\<lambda>socket. Notified socket (msg @ [0])) (ls_tcpSockets s)"

definition launchGame ::
  "jdplay_env \<Rightarrow> bytestring \<Rightarrow> bytestring \<Rightarrow> bytestring \<Rightarrow> bool \<Rightarrow> bool \<Rightarrow> LaunchServer \<Rightarrow> LaunchServer \<times> launch_event list" where
  "launchGame env guid player ipaddr asHost doSearch s =
     (if ls_jdPlay s \<noteq> None then (s, [])
      else let jd = \<lparr>jd_guid = c_str guid, jd_player = c_str player, jd_address = c_str ipaddr, jd_isHost = asHost\<rparr>;
               failed = (s, notifyClients (ascii ''FAIL'') s @ [GameFailedToLaunch guid]) in
        if \<not> env_initialize env jd then failed
        else if \<not> asHost \<and> doSearch \<and> \<not> (env_search env 0 \<or> env_search env 1 \<or> env_search env 2) then failed
        else if \<not> env_launch env then failed
        else (s\<lparr>ls_jdPlay := Some jd, ls_joinIsDisabled := False\<rparr>, notifyClients (ascii ''RUNNING'') s))"

definition launch_args :: "qt \<Rightarrow> bytestring \<Rightarrow> bytestring list" where
  "launch_args q datas = split_on 0x20 (filter (\<lambda>b. b \<noteq> 0x0a \<and> b \<noteq> 0x0d) (fromUtf8 q datas))"

definition launch_onReadyRead :: "qt \<Rightarrow> jdplay_env \<Rightarrow> bytestring \<Rightarrow> LaunchServer \<Rightarrow> LaunchServer \<times> launch_event list" where
  "launch_onReadyRead q env datas s =
     (let args = launch_args q datas; cmd = args ! 0 in
      if args = [] then (s, [])
      else if cmd = ascii ''/keepalive'' then (s\<lparr>ls_shutdownCounter := ls_keepAliveTimeout s\<rparr>, [])
      else if cmd = ascii ''/failversion''
      then (s\<lparr>ls_jdPlay := None\<rparr>, notifyClients (ascii ''FAIL'') s @ [GameFileVersionMismatch (join_space (drop 1 args))])
      else if length args \<ge> 4 \<and> cmd = ascii ''/host'' then launchGame env (args ! 1) (args ! 2) (args ! 3) True False s
      else if length args \<ge> 4 \<and> cmd = ascii ''/join'' then launchGame env (args ! 1) (args ! 2) (args ! 3) False False s
      else if length args \<ge> 4 \<and> cmd = ascii ''/searchjoin'' then launchGame env (args ! 1) (args ! 2) (args ! 3) False True s
      else (s, []))"

text \<open>\<open>QString::arg(n, 0, 16)\<close>: lower case digits without leading zeros.\<close>

definition hex_byte :: "nat \<Rightarrow> byte" where
  "hex_byte d = word_of_nat (if d < 10 then 48 + d else 87 + d)"

fun hex_digits :: "nat \<Rightarrow> bytestring" where
  "hex_digits n = (if n < 16 then [hex_byte n] else hex_digits (n div 16) @ [hex_byte (n mod 16)])"

declare hex_digits.simps [simp del]

definition STILL_ACTIVE :: u32 where "STILL_ACTIVE = 259"

text \<open>
  \<open>timerEvent\<close>; \<open>exitCode\<close> is what the system says of the game's process, \<open>joinDisabled\<close> what the session says.
  The exit code is only looked at when there is a game.
\<close>

definition launch_timerEvent :: "u32 \<Rightarrow> bool \<Rightarrow> LaunchServer \<Rightarrow> LaunchServer \<times> launch_event list" where
  "launch_timerEvent exitCode joinDisabled s =
     (let (s1, out) =
        (case ls_jdPlay s of
           None \<Rightarrow> (s, [])
         | Some jd \<Rightarrow>
             if exitCode \<noteq> STILL_ACTIVE
             then (s\<lparr>ls_jdPlay := None\<rparr>,
                   if exitCode = 0 then notifyClients (ascii ''IDLE'') s
                   else notifyClients (ascii ''FAIL '' @ hex_digits (unat exitCode)) s @ [GameExitedWithError exitCode])
             else if jd_isHost jd \<and> \<not> ls_joinIsDisabled s \<and> joinDisabled
             then (s\<lparr>ls_joinIsDisabled := True\<rparr>, notifyClients (ascii ''LAUNCHED'') s)
             else (s, []));
          s2 = (if ls_jdPlay s1 = None \<or> exitCode \<noteq> STILL_ACTIVE
                then s1\<lparr>ls_shutdownCounter := ls_shutdownCounter s1 - 1\<rparr> else s1)
      in (s2, out @ (if ls_shutdownCounter s2 \<le> 0 then [QuitServer] else [])))"

section \<open>The client\<close>

datatype launch_state = L_CONNECTING | L_IDLE | L_RUNNING | L_LAUNCHED | L_FAIL

record LaunchClient =
  lc_state :: launch_state
  lc_playerName :: bytestring
  lc_gameGuid :: bytestring
  lc_gameAddress :: bytestring
  lc_isHost :: bool
  lc_requireSearch :: bool

definition LaunchClient_new :: "bool \<Rightarrow> LaunchClient" where
  "LaunchClient_new conn = \<lparr>lc_state = (if conn then L_IDLE else L_CONNECTING), lc_playerName = ascii ''BILLYIDOL'',
     lc_gameGuid = ascii ''{99797420-F5F5-11CF-9827-00A0241496C8}'', lc_gameAddress = ascii ''127.0.0.1'',
     lc_isHost = True, lc_requireSearch = False\<rparr>"

text \<open>
  \<open>connect\<close>: at most 30 attempts after asking whether the socket is connected already. \<open>waits\<close> are the answers of the calls of
  \<open>waitForConnected\<close>.
\<close>

fun connect_attempts :: "nat \<Rightarrow> bool list \<Rightarrow> bool" where
  "connect_attempts 0 waits = (waits \<noteq> [] \<and> hd waits)"
| "connect_attempts (Suc n) waits = (waits \<noteq> [] \<and> (hd waits \<or> connect_attempts n (tl waits)))"

definition launch_connect :: "bool list \<Rightarrow> bool" where
  "launch_connect waits = (waits \<noteq> [] \<and> (hd waits \<or> connect_attempts 30 (tl waits)))"

definition lc_onSocketStateChanged :: "socket_state \<Rightarrow> LaunchClient \<Rightarrow> LaunchClient" where
  "lc_onSocketStateChanged st c = (if st = UnconnectedState then c\<lparr>lc_state := L_CONNECTING\<rparr> else c)"

definition setPlayerName :: "bytestring \<Rightarrow> LaunchClient \<Rightarrow> LaunchClient" where
  "setPlayerName playerName c = c\<lparr>lc_playerName := playerName\<rparr>"

definition setGameGuid :: "bytestring \<Rightarrow> LaunchClient \<Rightarrow> LaunchClient" where
  "setGameGuid gameGuid c = c\<lparr>lc_gameGuid := gameGuid\<rparr>"

definition setAddress :: "bytestring \<Rightarrow> LaunchClient \<Rightarrow> LaunchClient" where
  "setAddress addr c = c\<lparr>lc_gameAddress := addr\<rparr>"

definition setIsHost :: "bool \<Rightarrow> LaunchClient \<Rightarrow> LaunchClient" where
  "setIsHost h c = c\<lparr>lc_isHost := h\<rparr>"

definition setRequireSearch :: "bool \<Rightarrow> LaunchClient \<Rightarrow> LaunchClient" where
  "setRequireSearch r c = c\<lparr>lc_requireSearch := r\<rparr>"

definition isApplicationRunning :: "LaunchClient \<Rightarrow> bool" where
  "isApplicationRunning c = (lc_state c = L_RUNNING \<or> lc_state c = L_LAUNCHED)"

definition isGameLaunched :: "LaunchClient \<Rightarrow> bool" where
  "isGameLaunched c = (lc_state c = L_LAUNCHED)"

text \<open>
  \<open>onReadyReadTcp\<close> with the bytes at the socket. \<open>QString::fromUtf8\<close> of a \<open>QByteArray\<close> stops at the first zero.
\<close>

definition lc_onReadyRead :: "qt \<Rightarrow> bytestring \<Rightarrow> LaunchClient \<Rightarrow> LaunchClient" where
  "lc_onReadyRead q datas c =
     (if datas = [] then c
      else let response = split_on 0x20 (fromUtf8 q (c_str datas)) ! 0 in
        if response = ascii ''IDLE'' then c\<lparr>lc_state := L_IDLE\<rparr>
        else if response = ascii ''RUNNING'' then c\<lparr>lc_state := L_RUNNING\<rparr>
        else if response = ascii ''LAUNCHED'' then c\<lparr>lc_state := L_LAUNCHED\<rparr>
        else if response = ascii ''FAIL'' then c\<lparr>lc_state := L_FAIL\<rparr>
        else c)"

definition launch_verb :: "bool \<Rightarrow> bool \<Rightarrow> bytestring" where
  "launch_verb host search = (if host then ascii ''/host'' else if search then ascii ''/searchjoin'' else ascii ''/join'')"

definition launch_request :: "LaunchClient \<Rightarrow> bytestring" where
  "launch_request c = join_space [launch_verb (lc_isHost c) (lc_requireSearch c), lc_gameGuid c, lc_playerName c, lc_gameAddress c]"

text \<open>
  \<open>startApplication\<close>: \<open>conn\<close> tells whether there is a connection in the end, \<open>reply\<close> is what has arrived within
  the 30 seconds (nothing: no reply). The results are the new state, the bytes written and the value returned.
\<close>

definition startApplication :: "qt \<Rightarrow> bool \<Rightarrow> bytestring \<Rightarrow> LaunchClient \<Rightarrow> LaunchClient \<times> bytestring \<times> bool" where
  "startApplication q conn reply c =
     (let (c', out) =
        (if conn
         then (lc_onReadyRead q reply (if reply = [] then c\<lparr>lc_state := L_FAIL\<rparr> else c), launch_request c)
         else (c\<lparr>lc_state := L_CONNECTING\<rparr>, []))
      in (c', out, isApplicationRunning c'))"

text \<open>The closing parenthesis is in the code.\<close>

definition failGameFileVersions ::
  "qt \<Rightarrow> bool \<Rightarrow> bytestring \<Rightarrow> bytestring \<Rightarrow> bytestring \<Rightarrow> LaunchClient \<Rightarrow> LaunchClient \<times> bytestring \<times> bool" where
  "failGameFileVersions q conn reply filename reason c =
     (let (c', out) =
        (if conn
         then (lc_onReadyRead q reply (if reply = [] then c\<lparr>lc_state := L_FAIL\<rparr> else c),
               ascii ''/failversion '' @ filename @ ascii '' '' @ reason @ ascii '')'')
         else (c, []))
      in (c', out, isApplicationRunning c'))"

end
