(* ===== verification/Game_Launcher.thy ===== *)
theory Game_Launcher
  imports Launch_Server Crc Std_Map "HOL-Library.List_Lexorder"
begin

text \<open>
  The game launcher (\<open>apps/gpgnet4ta/GpgNetGameLauncher.cpp\<close>): it turns the lobby server's commands and the console's
  messages into launch requests, writes the game's initialisation file, checks the versions of the game's files and
  reports the progress of the game to the lobby server.

  A \<open>QString\<close> is its UTF-8 encoding. Files, the launch server's replies and Qt's conversions of numbers are
  parameters (\<open>launcher_env\<close>); what the launcher does is a trace of events. File names are taken to be free of
  \<open>QString::arg\<close>'s place markers.
\<close>

section \<open>Text\<close>

definition starts_with :: "bytestring \<Rightarrow> bytestring \<Rightarrow> bool" where
  "starts_with p s = (take (length p) s = p)"

definition ends_with :: "bytestring \<Rightarrow> bytestring \<Rightarrow> bool" where
  "ends_with p s = (length p \<le> length s \<and> drop (length s - length p) s = p)"

text \<open>\<open>QString::replace(before, after)\<close> for a non-empty \<open>before\<close>.\<close>

function replace_all :: "bytestring \<Rightarrow> bytestring \<Rightarrow> bytestring \<Rightarrow> bytestring" where
  "replace_all before after s =
     (if before \<noteq> [] \<and> s \<noteq> [] \<and> starts_with before s then after @ replace_all before after (drop (length before) s)
      else case s of [] \<Rightarrow> [] | b # s' \<Rightarrow> b # replace_all before after s')"
  by pat_completeness auto
termination
  by (relation "measure (\<lambda>(b, a, s). length s)") (auto simp: starts_with_def)

declare replace_all.simps [simp del]

section \<open>State\<close>

datatype game_file = NoFile | Unreadable | Contents bytestring

record launcher_env =
  le_qt :: qt
  le_number :: "int \<Rightarrow> bytestring"                  \<comment> \<open>\<open>QString::number\<close>\<close>
  le_hexToLongLong :: "bytestring \<Rightarrow> int option"    \<comment> \<open>\<open>toLongLong(&ok, 16)\<close>\<close>
  le_template :: "bytestring option"
  le_iniWritable :: bool
  le_files :: "bytestring \<Rightarrow> game_file"
  le_onlineDll :: bool                              \<comment> \<open>whether the target of the copy exists\<close>
  le_connected :: bool
  le_startReply :: bytestring
  le_failReply :: bytestring

datatype launcher_event =
    ToLobby bytestring
  | ToLaunchServer bytestring
  | WroteIni bytestring bytestring
  | CopiedDll bytestring
  | ApplicationStarted
  | ApplicationTerminated
  | QuitApplication

record GameLauncher =
  gl_gamePath :: bytestring
  gl_iniTarget :: bytestring
  gl_guid :: bytestring
  gl_playerLimit :: int
  gl_lockOptions :: bool
  gl_maxUnits :: int
  gl_launchClient :: LaunchClient
  gl_thisPlayerName :: bytestring
  gl_mapName :: bytestring
  gl_thisPlayerId :: int
  gl_pollTimer :: bool
  gl_autoStart :: bool
  gl_readyToStart :: bool
  gl_alreadyStarted :: bool
  gl_alreadyLaunched :: bool
  gl_isHost :: bool
  gl_randomPositions :: bool
  gl_quitCount :: int
  gl_quitTimer :: bool
  gl_gameFileVersions :: "(bytestring, int list) std_map"
  gl_enableVerify :: bool

type_synonym launcher_step = "GameLauncher \<times> launcher_event list"

text \<open>The constructor; the player's id, which it leaves unset, is an argument.\<close>

definition GameLauncher_new ::
  "bytestring \<Rightarrow> bytestring \<Rightarrow> bytestring \<Rightarrow> int \<Rightarrow> bool \<Rightarrow> int \<Rightarrow> LaunchClient \<Rightarrow> int \<Rightarrow> launcher_step" where
  "GameLauncher_new gamePath iniTarget guid playerLimit lockOptions mxUnits c unset =
     (\<lparr>gl_gamePath = gamePath, gl_iniTarget = iniTarget, gl_guid = guid, gl_playerLimit = playerLimit,
       gl_lockOptions = lockOptions, gl_maxUnits = mxUnits, gl_launchClient = c, gl_thisPlayerName = [], gl_mapName = [],
       gl_thisPlayerId = unset, gl_pollTimer = False, gl_autoStart = False, gl_readyToStart = False,
       gl_alreadyStarted = False, gl_alreadyLaunched = False, gl_isHost = False, gl_randomPositions = True,
       gl_quitCount = 0, gl_quitTimer = False, gl_gameFileVersions = [], gl_enableVerify = False\<rparr>,
      [ToLobby (sendGameState (ascii ''Idle'') (ascii ''Idle''))])"

section \<open>Files\<close>

definition ini_text :: "launcher_env \<Rightarrow> GameLauncher \<Rightarrow> bytestring \<Rightarrow> bytestring \<Rightarrow> bytestring" where
  "ini_text env g session txt =
     (let t1 = replace_all (ascii ''{session}'') session txt;
          t2 = replace_all (ascii ''{mission}'') (gl_mapName g) t1;
          t3 = replace_all (ascii ''{playerlimit}'') (le_number env (max 2 (min (gl_playerLimit g) 10))) t2;
          t4 = replace_all (ascii ''{maxunits}'') (le_number env (max 20 (min (gl_maxUnits g) 1500))) t3;
          t5 = replace_all (ascii ''{lockoptions}'') (if gl_lockOptions g then ascii ''1'' else ascii ''0'') t4
      in replace_all (ascii ''{location}'') (if gl_randomPositions g then ascii ''2'' else ascii ''1'') t5)"

definition createTAInitFile :: "launcher_env \<Rightarrow> GameLauncher \<Rightarrow> bytestring \<Rightarrow> launcher_event list" where
  "createTAInitFile env g session = (case le_template env of
     None \<Rightarrow> []
   | Some txt \<Rightarrow> if le_iniWritable env then [WroteIni (gl_iniTarget g) (ini_text env g session txt)] else [])"

definition copyOnlineDll :: "launcher_env \<Rightarrow> bytestring \<Rightarrow> launcher_event list" where
  "copyOnlineDll env target = (if le_onlineDll env then [] else [CopiedDll target])"

text \<open>The file is read and summed in portions of 4096 bytes.\<close>

function crc_chunks :: "u32 \<Rightarrow> bytestring \<Rightarrow> u32" where
  "crc_chunks r bs =
     (if bs = [] then r else crc_chunks (PartialCRC Initialize r (take 4096 bs)) (drop 4096 bs))"
  by pat_completeness auto
termination
  by (relation "measure (\<lambda>(c, bs). length bs)") auto

declare crc_chunks.simps [simp del]

definition file_crc :: "bytestring \<Rightarrow> u32" where
  "file_crc bs = crc_chunks 0xffffffff bs XOR 0xffffffff"

text \<open>The loop of \<open>verifyGameFileVersions\<close>: the client, the events and whether all files passed.\<close>

fun verify_files ::
  "launcher_env \<Rightarrow> bytestring \<Rightarrow> (bytestring \<times> int list) list \<Rightarrow> LaunchClient \<Rightarrow> LaunchClient \<times> launcher_event list \<times> bool" where
  "verify_files env path [] c = (c, [], True)"
| "verify_files env path ((name, crcs) # fs) c =
     (let file = path @ ascii ''/'' @ name;
          fail = (\<lambda>reason. let (c', out, _) = failGameFileVersions (le_qt env) (le_connected env) (le_failReply env) file reason c
                           in (c', if out = [] then [] else [ToLaunchServer out], False)) in
      case le_files env file of
        NoFile \<Rightarrow> verify_files env path fs c
      | Unreadable \<Rightarrow> if crcs = [] then verify_files env path fs c else fail (ascii ''unable to open for reading'')
      | Contents bs \<Rightarrow>
          if crcs = [] then verify_files env path fs c
          else if uint (file_crc bs) \<in> set crcs then verify_files env path fs c
          else fail (ascii '' (crc='' @ hex_digits (unat (file_crc bs)) @ ascii '') fails version verification.  It is not whitelisted for competitive play.  Please revert to an official version, or play an unranked game instead.''))"

definition verifyGameFileVersions :: "launcher_env \<Rightarrow> GameLauncher \<Rightarrow> GameLauncher \<times> launcher_event list \<times> bool" where
  "verifyGameFileVersions env g =
     (let (c, out, good) = verify_files env (gl_gamePath g) (gl_gameFileVersions g) (gl_launchClient g)
      in (g\<lparr>gl_launchClient := c\<rparr>, out, good))"

text \<open>\<open>m_gameFileVersions[filename].insert(crc32)\<close>, for the items of the option that can be read.\<close>

fun add_crcs :: "launcher_env \<Rightarrow> bytestring \<Rightarrow> bytestring list \<Rightarrow> (bytestring, int list) std_map \<Rightarrow> (bytestring, int list) std_map" where
  "add_crcs env name [] m = m"
| "add_crcs env name (s # ss) m =
     add_crcs env name ss (case le_hexToLongLong env s of
        None \<Rightarrow> m
      | Some n \<Rightarrow> std_put name (List.insert n (fst (std_index [] name m))) m)"

fun add_items :: "launcher_env \<Rightarrow> bytestring list \<Rightarrow> (bytestring, int list) std_map \<Rightarrow> (bytestring, int list) std_map" where
  "add_items env [] m = m"
| "add_items env (item # items) m =
     add_items env items (let fileAndCrcs = split_on 0x3a item in
        if length fileAndCrcs = 2 then add_crcs env (fileAndCrcs ! 0) (split_on 0x2c (fileAndCrcs ! 1)) m else m)"

definition parseGameFileVersions :: "launcher_env \<Rightarrow> bytestring \<Rightarrow> GameLauncher \<Rightarrow> GameLauncher" where
  "parseGameFileVersions env versions g =
     g\<lparr>gl_gameFileVersions := add_items env (split_on 0x3b versions) (gl_gameFileVersions g)\<rparr>"

definition setEnableGameFileVersionVerify :: "bool \<Rightarrow> GameLauncher \<Rightarrow> GameLauncher" where
  "setEnableGameFileVersionVerify en g = g\<lparr>gl_enableVerify := en\<rparr>"

section \<open>Starting the game\<close>

definition start_game_files :: "launcher_env \<Rightarrow> GameLauncher \<Rightarrow> launcher_event list" where
  "start_game_files env g =
     createTAInitFile env g (gl_thisPlayerName g @ ascii (CHR 0x27 # ''s Game'')) @
     copyOnlineDll env (gl_gamePath g @ ascii ''/online.dll'')"

definition onStartApplication :: "launcher_env \<Rightarrow> GameLauncher \<Rightarrow> launcher_step" where
  "onStartApplication env g =
     (if gl_alreadyStarted g then (g, [])
      else if \<not> gl_readyToStart g then (g\<lparr>gl_autoStart := True\<rparr>, [])
      else let files = start_game_files env g;
               (g1, out1, good) = (if gl_enableVerify g then verifyGameFileVersions env g else (g, [], True)) in
        if \<not> good then (g1, files @ out1)
        else let (c, req, running) = startApplication (le_qt env) (le_connected env) (le_startReply env) (gl_launchClient g1);
                 g2 = g1\<lparr>gl_alreadyLaunched := False, gl_launchClient := c\<rparr>;
                 out2 = files @ out1 @ (if req = [] then [] else [ToLaunchServer req]) in
          if \<not> running then (g2, out2)
          else (g2\<lparr>gl_alreadyStarted := True, gl_pollTimer := True\<rparr>,
                out2 @ [ToLobby (sendGameState (ascii ''Lobby'') (ascii ''Battleroom'')), ApplicationStarted]))"

section \<open>What the lobby server and the timers ask for\<close>

definition gl_onCreateLobby :: "bytestring \<Rightarrow> int \<Rightarrow> GameLauncher \<Rightarrow> launcher_step" where
  "gl_onCreateLobby playerName pid g =
     (g\<lparr>gl_thisPlayerName := playerName, gl_thisPlayerId := pid,
        gl_launchClient := setPlayerName playerName (gl_launchClient g)\<rparr>,
      [ToLobby (sendGameState (ascii ''Lobby'') (ascii ''Staging''))])"

definition point_client :: "bool \<Rightarrow> GameLauncher \<Rightarrow> GameLauncher" where
  "point_client host g = g\<lparr>gl_launchClient :=
     setIsHost host (setAddress (ascii ''127.0.0.1'') (setGameGuid (gl_guid g) (gl_launchClient g)))\<rparr>"

definition team_option :: "launcher_env \<Rightarrow> GameLauncher \<Rightarrow> launcher_event" where
  "team_option env g = ToLobby (sendPlayerOption_int (le_number env (gl_thisPlayerId g)) (ascii ''Team'') 1)"

definition gl_onHostGame :: "launcher_env \<Rightarrow> bytestring \<Rightarrow> bytestring \<Rightarrow> GameLauncher \<Rightarrow> launcher_step" where
  "gl_onHostGame env mapName mapDetails g =
     (let g1 = (point_client True (g\<lparr>gl_mapName := mapName\<rparr>))\<lparr>gl_readyToStart := True\<rparr>;
          (g2, out) = (if gl_autoStart g1 then onStartApplication env g1 else (g1, []))
      in (g2\<lparr>gl_isHost := True\<rparr>,
          out @ [team_option env g2,
                 ToLobby (sendGameOption_int (ascii ''Slots'') (gl_playerLimit g2)),
                 ToLobby (sendGameOption (ascii ''MapDetails'') mapDetails)]))"

definition gl_onJoinGame :: "launcher_env \<Rightarrow> GameLauncher \<Rightarrow> launcher_step" where
  "gl_onJoinGame env g =
     (let g1 = (point_client False g)\<lparr>gl_readyToStart := True\<rparr>;
          (g2, out) = (if gl_autoStart g1 then onStartApplication env g1 else (g1, []))
      in (g2, out @ [team_option env g2]))"

definition pollJdplayStillActive :: "GameLauncher \<Rightarrow> launcher_step" where
  "pollJdplayStillActive g =
     (if \<not> isApplicationRunning (gl_launchClient g)
      then (g\<lparr>gl_pollTimer := False\<rparr>, [ToLobby sendGameEnded, ApplicationTerminated])
      else if gl_isHost g \<and> \<not> gl_alreadyLaunched g \<and> isGameLaunched (gl_launchClient g)
      then (g\<lparr>gl_alreadyLaunched := True\<rparr>, [ToLobby (sendGameState (ascii ''Launching'') (ascii ''Launching''))])
      else (g, []))"

text \<open>An option only the host may set, and only before the game is started.\<close>

definition host_option :: "bytestring \<Rightarrow> bytestring \<Rightarrow> GameLauncher \<Rightarrow> launcher_event list" where
  "host_option key val g = (if \<not> gl_isHost g \<or> gl_alreadyStarted g then [] else [ToLobby (sendGameOption key val)])"

definition gl_onExtendedMessage :: "launcher_env \<Rightarrow> bytestring \<Rightarrow> GameLauncher \<Rightarrow> launcher_step" where
  "gl_onExtendedMessage env msg g =
     (if starts_with (ascii ''/launch'') msg
      then onStartApplication env (if ends_with (ascii ''/launch'') msg then g else g\<lparr>gl_randomPositions := False\<rparr>)
      else if starts_with (ascii ''/map '') msg \<and> length msg > 5
      then (let mapDetails = drop 5 msg in
            (if \<not> gl_isHost g \<or> gl_alreadyStarted g then g else g\<lparr>gl_mapName := split_on 0x1f mapDetails ! 0\<rparr>,
             host_option (ascii ''MapDetails'') mapDetails g))
      else if starts_with (ascii ''/enable_game_file_version_verify'') msg then (setEnableGameFileVersionVerify True g, [])
      else if starts_with (ascii ''/disable_game_file_version_verify'') msg then (setEnableGameFileVersionVerify False g, [])
      else if starts_with (ascii ''/rating_type '') msg \<and> length msg > 13
      then (g, host_option (ascii ''RatingType'') (drop 13 msg) g)
      else if starts_with (ascii ''/replay_delay_seconds '') msg \<and> length msg > 22
      then (g, host_option (ascii ''ReplayDelaySeconds'') (drop 22 msg) g)
      else if starts_with (ascii ''/title '') msg \<and> length msg > 6
      then (g, host_option (ascii ''Title'') (drop 6 msg) g)
      else if msg = ascii ''/quit''
      then (if \<not> isApplicationRunning (gl_launchClient g) then (g, [QuitApplication])
            else let g1 = g\<lparr>gl_quitCount := gl_quitCount g + 1\<rparr> in
              if gl_quitCount g1 = 2 then (g1, [QuitApplication]) else (g1\<lparr>gl_quitTimer := True\<rparr>, []))
      else (g, []))"

definition onResetQuitCount :: "GameLauncher \<Rightarrow> GameLauncher" where
  "onResetQuitCount g = g\<lparr>gl_quitCount := 0\<rparr>"

end
