(* ===== verification/Launch_Link.thy ===== *)
theory Launch_Link
  imports Game_Launcher
begin

text \<open>
  The launch client, the launch server and the game launcher together: what the reply to a launch request means, and
  which requests and notifications go wrong.
\<close>

section \<open>Splitting and joining words\<close>

definition plain_word :: "bytestring \<Rightarrow> bool" where
  "plain_word w = (0x20 \<notin> set w \<and> 0x0a \<notin> set w \<and> 0x0d \<notin> set w \<and> 0 \<notin> set w)"

lemma split_on_word [simp]: "sep \<notin> set w \<Longrightarrow> split_on sep w = [w]"
  by (induction w) auto

lemma split_on_append [simp]: "sep \<notin> set w \<Longrightarrow> split_on sep (w @ sep # s) = w # split_on sep s"
  by (induction w) auto

lemma split_join_space: "ws \<noteq> [] \<Longrightarrow> (\<forall>w \<in> set ws. 0x20 \<notin> set w) \<Longrightarrow> split_on 0x20 (join_space ws) = ws"
  by (induction ws rule: join_space.induct) auto

lemma set_join_space: "set (join_space ws) \<subseteq> {0x20} \<union> \<Union> (set ` set ws)"
  by (induction ws rule: join_space.induct) auto

lemma c_str_word [simp]: "0 \<notin> set w \<Longrightarrow> c_str w = w"
  unfolding c_str_def by (simp add: takeWhile_eq_all_conv) metis

lemma c_str_terminated [simp]: "0 \<notin> set w \<Longrightarrow> c_str (w @ 0 # s) = w"
  unfolding c_str_def by (induction w) auto

lemma plain_wordD:
  "plain_word w \<Longrightarrow> 0x20 \<notin> set w"
  "plain_word w \<Longrightarrow> 0x0a \<notin> set w"
  "plain_word w \<Longrightarrow> 0x0d \<notin> set w"
  "plain_word w \<Longrightarrow> 0 \<notin> set w"
  by (simp_all add: plain_word_def)

lemma plain_verb [simp]: "plain_word (launch_verb h r)"
  by (simp add: launch_verb_def plain_word_def ascii_def)

lemma launch_args_join:
  assumes "ws \<noteq> []" and "\<forall>w \<in> set ws. plain_word w" and "fromUtf8 q (join_space ws) = join_space ws"
  shows "launch_args q (join_space ws) = ws"
proof -
  have "\<forall>b \<in> set (join_space ws). b \<noteq> 0x0a \<and> b \<noteq> 0x0d"
    using set_join_space [of ws] assms(2) by (fastforce dest: plain_wordD)
  then have "filter (\<lambda>b. b \<noteq> 0x0a \<and> b \<noteq> 0x0d) (join_space ws) = join_space ws"
    by (simp add: filter_id_conv)
  then show ?thesis
    using assms unfolding launch_args_def by (simp add: split_join_space plain_wordD)
qed

section \<open>A launch request and its reply\<close>

definition ascii_decoder :: "qt \<Rightarrow> bool" where
  "ascii_decoder q = (\<forall>w \<in> {ascii ''IDLE'', ascii ''RUNNING'', ascii ''LAUNCHED'', ascii ''FAIL''}. fromUtf8 q w = w)"

definition delivered_to :: "nat \<Rightarrow> launch_event list \<Rightarrow> bytestring" where
  "delivered_to socket out = concat (map (\<lambda>e. case e of Notified k bs \<Rightarrow> if k = socket then bs else [] | _ \<Rightarrow> []) out)"

text \<open>What it takes for a game to be started.\<close>

definition can_launch :: "jdplay_env \<Rightarrow> LaunchClient \<Rightarrow> bool" where
  "can_launch env c =
     (env_initialize env \<lparr>jd_guid = lc_gameGuid c, jd_player = lc_playerName c, jd_address = lc_gameAddress c, jd_isHost = lc_isHost c\<rparr> \<and>
      (lc_isHost c \<or> \<not> lc_requireSearch c \<or> env_search env 0 \<or> env_search env 1 \<or> env_search env 2) \<and> env_launch env)"

lemma delivered_simps [simp]:
  "delivered_to k [] = []"
  "delivered_to k (xs @ ys) = delivered_to k xs @ delivered_to k ys"
  "delivered_to k (GameFailedToLaunch g # out) = delivered_to k out"
  by (simp_all add: delivered_to_def)

lemma delivered_notify_absent: "k \<notin> set ks \<Longrightarrow> delivered_to k (map (\<lambda>s. Notified s bs) ks) = []"
  by (induction ks) (auto simp: delivered_to_def)

lemma delivered_notify [simp]:
  "distinct (ls_tcpSockets s) \<Longrightarrow> k \<in> set (ls_tcpSockets s) \<Longrightarrow> delivered_to k (notifyClients w s) = w @ [0]"
proof -
  have "distinct ks \<Longrightarrow> k \<in> set ks \<Longrightarrow> delivered_to k (map (\<lambda>s. Notified s bs) ks) = bs" for ks bs
  proof (induction ks)
    case (Cons a ks)
    then show ?case
      using delivered_notify_absent [of k ks bs] by (auto simp: delivered_to_def)
  qed simp
  then show "distinct (ls_tcpSockets s) \<Longrightarrow> k \<in> set (ls_tcpSockets s) \<Longrightarrow> delivered_to k (notifyClients w s) = w @ [0]"
    unfolding notifyClients_def by simp
qed

lemma ascii_words_plain [simp]:
  "plain_word (ascii ''IDLE'')" "plain_word (ascii ''RUNNING'')" "plain_word (ascii ''LAUNCHED'')" "plain_word (ascii ''FAIL'')"
  by (simp_all add: plain_word_def ascii_def)

lemma ascii_words_differ [simp]:
  "ascii ''RUNNING'' \<noteq> ascii ''IDLE''" "ascii ''LAUNCHED'' \<noteq> ascii ''IDLE''" "ascii ''FAIL'' \<noteq> ascii ''IDLE''"
  "ascii ''LAUNCHED'' \<noteq> ascii ''RUNNING''" "ascii ''FAIL'' \<noteq> ascii ''RUNNING''" "ascii ''FAIL'' \<noteq> ascii ''LAUNCHED''"
  by (simp_all add: ascii_def)

text \<open>Of notifications that arrive together the client sees the first.\<close>

lemma client_reads_first:
  assumes "ascii_decoder q" and "w \<in> {ascii ''IDLE'', ascii ''RUNNING'', ascii ''LAUNCHED'', ascii ''FAIL''}"
  shows "lc_onReadyRead q (w @ 0 # rest) c =
     c\<lparr>lc_state := if w = ascii ''IDLE'' then L_IDLE else if w = ascii ''RUNNING'' then L_RUNNING
                   else if w = ascii ''LAUNCHED'' then L_LAUNCHED else L_FAIL\<rparr>"
proof -
  have p: "plain_word w" and f: "fromUtf8 q w = w" using assms by (auto simp: ascii_decoder_def)
  then show ?thesis
    using assms(2) unfolding lc_onReadyRead_def by (auto simp: plain_wordD Let_def)
qed

lemma launch_verb_cases:
  "launch_verb h r = ascii ''/host'' \<longleftrightarrow> h"
  "launch_verb h r = ascii ''/join'' \<longleftrightarrow> \<not> h \<and> \<not> r"
  "launch_verb h r = ascii ''/searchjoin'' \<longleftrightarrow> \<not> h \<and> r"
  "launch_verb h r \<noteq> ascii ''/keepalive''" "launch_verb h r \<noteq> ascii ''/failversion''"
  by (simp_all add: launch_verb_def ascii_def)

lemma server_reads_words:
  assumes "launch_args q datas = launch_verb h r # a # b # d # ws"
  shows "launch_onReadyRead q env datas s = launchGame env a b d h (\<not> h \<and> r) s"
  using assms by (cases h; cases r) (simp_all add: launch_onReadyRead_def Let_def launch_verb_cases launch_verb_def ascii_def)

lemma launchGame_outcome:
  fixes h r :: bool and env :: jdplay_env
  assumes "ls_jdPlay s = None" and "plain_word guid" "plain_word player" "plain_word ip"
  defines "jd \<equiv> \<lparr>jd_guid = guid, jd_player = player, jd_address = ip, jd_isHost = h\<rparr>"
  defines "good \<equiv> env_initialize env jd \<and> (h \<or> \<not> r \<or> env_search env 0 \<or> env_search env 1 \<or> env_search env 2) \<and> env_launch env"
  shows "launchGame env guid player ip h (\<not> h \<and> r) s =
     (if good then (s\<lparr>ls_jdPlay := Some jd, ls_joinIsDisabled := False\<rparr>, notifyClients (ascii ''RUNNING'') s)
      else (s, notifyClients (ascii ''FAIL'') s @ [GameFailedToLaunch guid]))"
  using assms by (auto simp: launchGame_def Let_def plain_wordD)


lemma plain_verb_join:
  "plain_word (lc_gameGuid c) \<Longrightarrow> plain_word (lc_playerName c) \<Longrightarrow> plain_word (lc_gameAddress c) \<Longrightarrow>
   fromUtf8 q (launch_request c) = launch_request c \<Longrightarrow>
   launch_args q (launch_request c) =
     [launch_verb (lc_isHost c) (lc_requireSearch c), lc_gameGuid c, lc_playerName c, lc_gameAddress c]"
  unfolding launch_request_def by (rule launch_args_join) auto

text \<open>C15. A launch request succeeds exactly when the game can be started: when no game runs and the three words of
  the request hold no separator, the server takes the request apart as the client put it together, starts the game
  with the client's settings if it can, and the value that \<open>startApplication\<close> returns for the server's reply tells
  whether it did; a game that failed leaves the server as it was.\<close>

theorem launch_reply_tells_outcome:
  assumes "plain_word (lc_gameGuid c)" and "plain_word (lc_playerName c)" and "plain_word (lc_gameAddress c)"
    and "fromUtf8 q (launch_request c) = launch_request c" and "ascii_decoder q"
    and "ls_jdPlay s = None" and "distinct (ls_tcpSockets s)" and "k \<in> set (ls_tcpSockets s)"
  shows "\<exists>s' out c'. launch_onReadyRead q env (launch_request c) s = (s', out) \<and>
     startApplication q True (delivered_to k out) c = (c', launch_request c, can_launch env c) \<and>
     (if can_launch env c
      then ls_jdPlay s' = Some \<lparr>jd_guid = lc_gameGuid c, jd_player = lc_playerName c, jd_address = lc_gameAddress c,
                              jd_isHost = lc_isHost c\<rparr> \<and> lc_state c' = L_RUNNING
      else s' = s \<and> lc_state c' = L_FAIL)"
proof -
  have rd: "launch_onReadyRead q env (launch_request c) s =
     launchGame env (lc_gameGuid c) (lc_playerName c) (lc_gameAddress c) (lc_isHost c) (\<not> lc_isHost c \<and> lc_requireSearch c) s"
    using assms by (intro server_reads_words [where ws = "[]"]) (simp add: plain_verb_join)
  have read: "lc_onReadyRead q (w @ [0]) c = c\<lparr>lc_state := if w = ascii ''RUNNING'' then L_RUNNING else L_FAIL\<rparr>"
    if "w \<in> {ascii ''RUNNING'', ascii ''FAIL''}" for w
    using client_reads_first [OF assms(5), of w "[]" c] that by auto
  show ?thesis
    using assms(1-3,6-8)
    by (auto simp: rd launchGame_outcome can_launch_def startApplication_def read isApplicationRunning_def)
qed

definition idle_launch_server :: LaunchServer where
  "idle_launch_server = launch_onNewConnection 1 (LaunchServer_new 10)"

definition example_qt :: qt where
  "example_qt = \<lparr>fromUtf8 = id, bytesToInt = (\<lambda>_. 0), uintToString = (\<lambda>_. [])\<rparr>"

definition example_jdplay :: jdplay_env where
  "example_jdplay = \<lparr>env_initialize = (\<lambda>jd. jd_guid jd \<noteq> []), env_search = (\<lambda>n. n = 2), env_launch = True\<rparr>"

theorem launch_reply_tells_outcome_witness:
  "\<exists>s' out c'. launch_onReadyRead example_qt example_jdplay (launch_request (LaunchClient_new True)) idle_launch_server = (s', out) \<and>
     startApplication example_qt True (delivered_to 1 out) (LaunchClient_new True) =
       (c', launch_request (LaunchClient_new True), True)"
proof -
  have "can_launch example_jdplay (LaunchClient_new True)"
    by (simp add: can_launch_def example_jdplay_def LaunchClient_new_def ascii_def)
  then show ?thesis
    using launch_reply_tells_outcome [of "LaunchClient_new True" example_qt idle_launch_server 1 example_jdplay]
    by (force simp: example_qt_def idle_launch_server_def launch_onNewConnection_def LaunchServer_new_def
        LaunchClient_new_def plain_word_def ascii_def ascii_decoder_def)
qed

text \<open>A space in the player's name redirects the request: the server takes what follows it for the address, and
  never looks at the address the client gave.\<close>

theorem spaced_name_misdirects_launch:
  assumes "plain_word (lc_gameGuid c)" and "lc_playerName c = a @ 0x20 # b" and "plain_word a" and "plain_word b"
    and "plain_word (lc_gameAddress c)" and "fromUtf8 q (launch_request c) = launch_request c"
  shows "launch_onReadyRead q env (launch_request c) s =
     launchGame env (lc_gameGuid c) a b (lc_isHost c) (\<not> lc_isHost c \<and> lc_requireSearch c) s"
proof -
  have "launch_request c = join_space [launch_verb (lc_isHost c) (lc_requireSearch c), lc_gameGuid c, a, b, lc_gameAddress c]"
    by (simp add: launch_request_def assms(2))
  then have "launch_args q (launch_request c) = [launch_verb (lc_isHost c) (lc_requireSearch c), lc_gameGuid c, a, b, lc_gameAddress c]"
    using launch_args_join [of "[launch_verb (lc_isHost c) (lc_requireSearch c), lc_gameGuid c, a, b, lc_gameAddress c]" q] assms by simp
  then show ?thesis by (rule server_reads_words)
qed

theorem spaced_name_misdirects_launch_witness:
  "\<exists>s'. ls_jdPlay s' = Some \<lparr>jd_guid = lc_gameGuid (LaunchClient_new True), jd_player = ascii ''John'', jd_address = ascii ''Doe'', jd_isHost = True\<rparr> \<and>
     fst (launch_onReadyRead example_qt example_jdplay
       (launch_request (setPlayerName (ascii ''John Doe'') (LaunchClient_new True))) idle_launch_server) = s'"
proof -
  let ?c = "setPlayerName (ascii ''John Doe'') (LaunchClient_new True)"
  have "launch_onReadyRead example_qt example_jdplay (launch_request ?c) idle_launch_server =
     launchGame example_jdplay (lc_gameGuid ?c) (ascii ''John'') (ascii ''Doe'') True False idle_launch_server"
    using spaced_name_misdirects_launch [of ?c "ascii ''John''" "ascii ''Doe''" example_qt example_jdplay idle_launch_server]
    by (simp add: example_qt_def LaunchClient_new_def setPlayerName_def plain_word_def ascii_def)
  then show ?thesis
    by (simp add: launchGame_def idle_launch_server_def example_jdplay_def launch_onNewConnection_def LaunchServer_new_def
        LaunchClient_new_def setPlayerName_def ascii_def c_str_def)
qed

text \<open>Of notifications that reach the client in one portion it follows the first alone, whatever follows it: a client that
  reads ``running'' and ``launched'' together stays in the state ``running'', and the launcher's poll, which waits
  for ``launched'' to tell the lobby server, reports nothing.\<close>

theorem coalesced_launch_is_missed:
  assumes "ascii_decoder q" and "distinct (ls_tcpSockets s)" and "k \<in> set (ls_tcpSockets s)"
    and "gl_launchClient g = lc_onReadyRead q (delivered_to k (notifyClients (ascii ''RUNNING'') s @ notifyClients (ascii ''LAUNCHED'') s)) c"
  shows "lc_state (gl_launchClient g) = L_RUNNING \<and> pollJdplayStillActive g = (g, [])"
  using client_reads_first [OF assms(1), of "ascii ''RUNNING''" "ascii ''LAUNCHED'' @ [0]" c] assms(2-)
  by (simp add: pollJdplayStillActive_def isApplicationRunning_def isGameLaunched_def)

theorem coalesced_launch_is_missed_witness:
  "let g = (fst (GameLauncher_new [] [] [] 10 False 500
              (lc_onReadyRead example_qt (delivered_to 1 (notifyClients (ascii ''RUNNING'') idle_launch_server @ notifyClients (ascii ''LAUNCHED'') idle_launch_server))
                (LaunchClient_new True)) 0))
   in pollJdplayStillActive g = (g, [])"
  using coalesced_launch_is_missed [of example_qt idle_launch_server 1
      "fst (GameLauncher_new [] [] [] 10 False 500
              (lc_onReadyRead example_qt (delivered_to 1 (notifyClients (ascii ''RUNNING'') idle_launch_server @ notifyClients (ascii ''LAUNCHED'') idle_launch_server))
                (LaunchClient_new True)) 0)" "LaunchClient_new True"]
  by (simp add: example_qt_def idle_launch_server_def launch_onNewConnection_def LaunchServer_new_def GameLauncher_new_def
      ascii_decoder_def Let_def)

end
