(* ===== verification/Launcher_Run.thy ===== *)
theory Launcher_Run
  imports Game_Launcher "HOL-Library.Multiset"
begin

text \<open>
  The game launcher at work: its runs as a step relation, the life cycle of the game that a run reports, the order of
  launch request and host command, and what the verification of the game's files guarantees.
\<close>

section \<open>Runs\<close>

datatype launcher_input =
    CreateLobbyInput bytestring int
  | HostGameInput bytestring bytestring
  | JoinGameInput
  | ExtendedInput bytestring
  | PollInput
  | ResetQuitInput
  | NotificationInput bytestring
  | SocketInput socket_state
  | FileVersionsInput bytestring

fun launcher_input_step :: "launcher_env \<Rightarrow> launcher_input \<Rightarrow> GameLauncher \<Rightarrow> launcher_step" where
  "launcher_input_step env (CreateLobbyInput name pid) g = gl_onCreateLobby name pid g"
| "launcher_input_step env (HostGameInput mapName details) g = gl_onHostGame env mapName details g"
| "launcher_input_step env JoinGameInput g = gl_onJoinGame env g"
| "launcher_input_step env (ExtendedInput msg) g = gl_onExtendedMessage env msg g"
| "launcher_input_step env PollInput g = (if gl_pollTimer g then pollJdplayStillActive g else (g, []))"
| "launcher_input_step env ResetQuitInput g = (onResetQuitCount g, [])"
| "launcher_input_step env (NotificationInput datas) g =
     (g\<lparr>gl_launchClient := lc_onReadyRead (le_qt env) datas (gl_launchClient g)\<rparr>, [])"
| "launcher_input_step env (SocketInput st) g = (g\<lparr>gl_launchClient := lc_onSocketStateChanged st (gl_launchClient g)\<rparr>, [])"
| "launcher_input_step env (FileVersionsInput versions) g = (parseGameFileVersions env versions g, [])"

inductive launcher_run :: "GameLauncher \<Rightarrow> launcher_event list \<Rightarrow> bool" where
  start: "GameLauncher_new gamePath iniTarget guid limit locked mxUnits c unset = (g, out) \<Longrightarrow> launcher_run g out"
| step: "launcher_run g out \<Longrightarrow> launcher_input_step env inp g = (g', out') \<Longrightarrow> launcher_run g' (out @ out')"

inductive_cases launcher_runE: "launcher_run g out"

section \<open>The life cycle\<close>

definition LaunchingReport :: launcher_event where
  "LaunchingReport = ToLobby (sendGameState (ascii ''Launching'') (ascii ''Launching''))"

definition life_event :: "launcher_event \<Rightarrow> bool" where
  "life_event e = (e = ApplicationStarted \<or> e = LaunchingReport \<or> e = ApplicationTerminated)"

definition life :: "launcher_event list \<Rightarrow> launcher_event list" where
  "life out = filter life_event out"

lemma life_append [simp]: "life (a @ b) = life a @ life b"
  by (simp add: life_def)

lemma life_simps [simp]:
  "life [] = []"
  "life (ToLaunchServer r # out) = life out"
  "life (WroteIni p t # out) = life out"
  "life (CopiedDll p # out) = life out"
  "life (QuitApplication # out) = life out"
  "life (ApplicationStarted # out) = ApplicationStarted # life out"
  "life (ApplicationTerminated # out) = ApplicationTerminated # life out"
  "life (ToLobby (sendGameState (ascii ''Launching'') (ascii ''Launching'')) # out) = LaunchingReport # life out"
  by (simp_all add: life_def life_event_def LaunchingReport_def)

text \<open>No other message to the lobby server looks like the launching report.\<close>

lemma life_other_messages [simp]:
  "life (ToLobby (sendGameState (ascii ''Idle'') (ascii ''Idle'')) # out) = life out"
  "life (ToLobby (sendGameState (ascii ''Lobby'') (ascii ''Staging'')) # out) = life out"
  "life (ToLobby (sendGameState (ascii ''Lobby'') (ascii ''Battleroom'')) # out) = life out"
  "life (ToLobby sendGameEnded # out) = life out"
  "life (ToLobby (sendGameOption (ascii ''MapDetails'') val) # out) = life out"
  "life (ToLobby (sendGameOption (ascii ''RatingType'') val) # out) = life out"
  "life (ToLobby (sendGameOption (ascii ''ReplayDelaySeconds'') val) # out) = life out"
  "life (ToLobby (sendGameOption (ascii ''Title'') val) # out) = life out"
  "life (ToLobby (sendGameOption_int (ascii ''Slots'') n) # out) = life out"
  "life (team_option env g # out) = life out"
  by (simp_all add: life_def life_event_def LaunchingReport_def sendGameState_def sendGameEnded_def sendGameOption_def
      sendGameOption_int_def team_option_def sendPlayerOption_int_def sendCommand_def sendArgument_bytes_def ascii_def le32_def)

lemma life_host_option [simp]:
  "life (host_option (ascii ''MapDetails'') val g) = []"
  "life (host_option (ascii ''RatingType'') val g) = []"
  "life (host_option (ascii ''ReplayDelaySeconds'') val g) = []"
  "life (host_option (ascii ''Title'') val g) = []"
  by (simp_all add: host_option_def)

lemma life_files [simp]: "life (start_game_files env g) = []"
  by (simp add: start_game_files_def createTAInitFile_def copyOnlineDll_def split: option.splits)

text \<open>The verification touches nothing but the client, and its events are requests to the launch server.\<close>

lemma life_verify_files: "life (fst (snd (verify_files env path fs c))) = []"
  by (induction env path fs c rule: verify_files.induct) (auto simp: Let_def split: game_file.splits prod.splits)

lemma verifyGameFileVersions_cases:
  obtains c out good where "verifyGameFileVersions env g = (g\<lparr>gl_launchClient := c\<rparr>, out, good)" and "life out = []"
proof -
  obtain c out good where r: "verify_files env (gl_gamePath g) (gl_gameFileVersions g) (gl_launchClient g) = (c, out, good)"
    by (metis prod_cases3)
  then have "life out = []"
    using life_verify_files [of env "gl_gamePath g" "gl_gameFileVersions g" "gl_launchClient g"] by simp
  then show thesis using that by (simp add: verifyGameFileVersions_def r)
qed

text \<open>What the life cycle has to be in each state.\<close>

definition life_of :: "GameLauncher \<Rightarrow> launcher_event list set" where
  "life_of g =
     (if \<not> gl_alreadyStarted g then (if gl_alreadyLaunched g \<or> gl_pollTimer g then {} else {[]})
      else {[ApplicationStarted] @ (if gl_alreadyLaunched g then [LaunchingReport] else []) @
            (if gl_pollTimer g then [] else [ApplicationTerminated])})"

definition life_kept :: "GameLauncher \<Rightarrow> GameLauncher \<times> launcher_event list \<Rightarrow> bool" where
  "life_kept g r = (\<forall>past \<in> life_of g. past @ life (snd r) \<in> life_of (fst r))"

lemma life_of_cong:
  "gl_alreadyStarted g' = gl_alreadyStarted g \<Longrightarrow> gl_alreadyLaunched g' = gl_alreadyLaunched g \<Longrightarrow>
   gl_pollTimer g' = gl_pollTimer g \<Longrightarrow> life_of g' = life_of g"
  by (simp add: life_of_def)

lemma life_kept_same:
  assumes "gl_alreadyStarted g' = gl_alreadyStarted g" "gl_alreadyLaunched g' = gl_alreadyLaunched g" "gl_pollTimer g' = gl_pollTimer g"
    and "life out = []"
  shows "life_kept g (g', out)"
  using assms by (simp add: life_kept_def life_of_def)

lemma life_kept_append:
  "life_kept g (g', out) \<Longrightarrow> life out' = [] \<Longrightarrow> life_kept g (g', out @ out')"
  by (simp add: life_kept_def)

lemma life_kept_start_same:
  assumes "gl_alreadyStarted g' = gl_alreadyStarted g" "gl_alreadyLaunched g' = gl_alreadyLaunched g" "gl_pollTimer g' = gl_pollTimer g"
    and "life_kept g' r"
  shows "life_kept g r"
  using assms(4) life_of_cong [OF assms(1-3)] by (simp add: life_kept_def)

lemma life_kept_start: "life_kept g (onStartApplication env g)"
proof (cases "gl_alreadyStarted g \<or> \<not> gl_readyToStart g")
  case True
  then show ?thesis by (auto simp: onStartApplication_def intro!: life_kept_same)
next
  case False
  obtain c out1 good where v: "(if gl_enableVerify g then verifyGameFileVersions env g else (g, [], True)) = (g\<lparr>gl_launchClient := c\<rparr>, out1, good)"
    and l: "life out1 = []"
  proof (cases "gl_enableVerify g")
    case True
    then show ?thesis using that verifyGameFileVersions_cases [of env g] by metis
  next
    case False
    then show ?thesis using that [of "gl_launchClient g" "[]" True] by simp
  qed
  obtain c' req running where s: "startApplication (le_qt env) (le_connected env) (le_startReply env) c = (c', req, running)"
    by (metis prod_cases3)
  show ?thesis
    using False l by (simp add: onStartApplication_def v s Let_def life_kept_def life_of_def)
qed

lemma life_kept_if:
  "(b \<Longrightarrow> life_kept g x) \<Longrightarrow> (\<not> b \<Longrightarrow> life_kept g y) \<Longrightarrow> life_kept g (if b then x else y)"
  by simp

lemma life_kept_extended: "life_kept g (gl_onExtendedMessage env msg g)"
proof -
  have "life_kept g (onStartApplication env (if b then g else g\<lparr>gl_randomPositions := False\<rparr>))" for b
    by (rule life_kept_start_same [OF _ _ _ life_kept_start]) simp_all
  then show ?thesis
    unfolding gl_onExtendedMessage_def Let_def setEnableGameFileVersionVerify_def
    by (intro life_kept_if life_kept_same) simp_all
qed

lemma life_kept_poll: "life_kept g (pollJdplayStillActive g)" if "gl_pollTimer g"
  using that unfolding pollJdplayStillActive_def by (intro life_kept_if) (simp_all add: life_kept_def life_of_def)

lemma life_kept_step: "life_kept g (launcher_input_step env inp g)"
proof (cases inp)
  case (HostGameInput mapName details)
  let ?g1 = "(point_client True (g\<lparr>gl_mapName := mapName\<rparr>))\<lparr>gl_readyToStart := True\<rparr>"
  obtain g2 out where r: "(if gl_autoStart ?g1 then onStartApplication env ?g1 else (?g1, [])) = (g2, out)" by fastforce
  then have "life_kept ?g1 (g2, out)"
    using life_kept_start [of ?g1 env] by (auto simp: life_kept_same split: if_splits)
  then have "life_kept g (g2, out)"
    by (rule life_kept_start_same [rotated 3]) (simp_all add: point_client_def)
  then have "life_kept g (g2\<lparr>gl_isHost := True\<rparr>, out)"
    using life_of_cong [of "g2\<lparr>gl_isHost := True\<rparr>" g2] by (simp add: life_kept_def)
  then show ?thesis
    unfolding HostGameInput launcher_input_step.simps gl_onHostGame_def Let_def r prod.case by (rule life_kept_append) simp
next
  case JoinGameInput
  let ?g1 = "(point_client False g)\<lparr>gl_readyToStart := True\<rparr>"
  obtain g2 out where r: "(if gl_autoStart ?g1 then onStartApplication env ?g1 else (?g1, [])) = (g2, out)" by fastforce
  then have "life_kept ?g1 (g2, out)"
    using life_kept_start [of ?g1 env] by (auto simp: life_kept_same split: if_splits)
  then have "life_kept g (g2, out)"
    by (rule life_kept_start_same [rotated 3]) (simp_all add: point_client_def)
  then show ?thesis
    unfolding JoinGameInput launcher_input_step.simps gl_onJoinGame_def Let_def r prod.case by (rule life_kept_append) simp
next
  case (ExtendedInput msg)
  then show ?thesis by (simp add: life_kept_extended)
next
  case PollInput
  then show ?thesis
    by (simp add: life_kept_poll life_kept_same)
qed (auto simp: gl_onCreateLobby_def onResetQuitCount_def parseGameFileVersions_def intro!: life_kept_same)

lemma launcher_run_life: "launcher_run g out \<Longrightarrow> life out \<in> life_of g"
proof (induction rule: launcher_run.induct)
  case (start gamePath iniTarget guid limit locked mxUnits c unset g out)
  then show ?case by (auto simp: GameLauncher_new_def life_of_def)
next
  case (step g out env inp g' out')
  then show ?case using life_kept_step [of g env inp] by (simp add: life_kept_def)
qed



definition example_launcher_env :: launcher_env where
  "example_launcher_env = \<lparr>le_qt = \<lparr>fromUtf8 = id, bytesToInt = (\<lambda>_. 0), uintToString = (\<lambda>_. [])\<rparr>,
     le_number = (\<lambda>n. [word_of_int n]), le_hexToLongLong = (\<lambda>s. None), le_template = None, le_iniWritable = False,
     le_files = (\<lambda>f. NoFile), le_onlineDll = True, le_connected = True,
     le_startReply = ascii ''RUNNING'' @ [0], le_failReply = ascii ''FAIL'' @ [0]\<rparr>"

definition example_launcher :: GameLauncher where
  "example_launcher = fst (GameLauncher_new [] [] [] 10 False 500 (LaunchClient_new True) 0)"


section \<open>Launching early\<close>

fun launcher_steps :: "launcher_env \<Rightarrow> launcher_input list \<Rightarrow> GameLauncher \<Rightarrow> launcher_step" where
  "launcher_steps env [] g = (g, [])"
| "launcher_steps env (inp # inps) g =
     (let (g1, out1) = launcher_input_step env inp g; (g2, out2) = launcher_steps env inps g1 in (g2, out1 @ out2))"

lemma verify_frame:
  "verifyGameFileVersions env (g\<lparr>gl_autoStart := a, gl_isHost := h\<rparr>) =
     (let (g', out, good) = verifyGameFileVersions env g in (g'\<lparr>gl_autoStart := a, gl_isHost := h\<rparr>, out, good))"
  by (simp add: verifyGameFileVersions_def split: prod.splits)

lemma start_files_frame: "start_game_files env (g\<lparr>gl_autoStart := a, gl_isHost := h\<rparr>) = start_game_files env g"
  by (cases "le_template env") (simp_all add: start_game_files_def createTAInitFile_def ini_text_def)

lemma start_frame:
  assumes "gl_readyToStart g"
  shows "onStartApplication env (g\<lparr>gl_autoStart := a, gl_isHost := h\<rparr>) =
     (let (g', out) = onStartApplication env g in (g'\<lparr>gl_autoStart := a, gl_isHost := h\<rparr>, out))"
  using assms unfolding onStartApplication_def start_files_frame verify_frame Let_def
  by (auto split: prod.splits simp: verify_frame)

lemma start_keeps:
  assumes "onStartApplication env g = (g', out)"
  shows "gl_thisPlayerId g' = gl_thisPlayerId g" "gl_playerLimit g' = gl_playerLimit g"
proof -
  have "gl_thisPlayerId (fst (verifyGameFileVersions env g)) = gl_thisPlayerId g"
    "gl_playerLimit (fst (verifyGameFileVersions env g)) = gl_playerLimit g"
    by (rule verifyGameFileVersions_cases [of env g]; simp)+
  then show "gl_thisPlayerId g' = gl_thisPlayerId g" "gl_playerLimit g' = gl_playerLimit g"
    using assms by (auto simp: onStartApplication_def Let_def split: if_splits prod.splits)
qed

text \<open>C19. A launch requested before the lobby server's command to host is only postponed: the launcher then ends in
  the state, and emits the events, up to their order, that it would have had if the request had come after the
  command. What remains is the mark that a start was asked for.\<close>

theorem early_launch_is_deferred:
  assumes "\<not> gl_autoStart g" and "\<not> gl_readyToStart g" and "\<not> gl_alreadyStarted g" and "starts_with (ascii ''/launch'') msg"
  shows "\<exists>g' out out'.
     launcher_steps env [ExtendedInput msg, HostGameInput mapName details] g = (g'\<lparr>gl_autoStart := True\<rparr>, out) \<and>
     launcher_steps env [HostGameInput mapName details, ExtendedInput msg] g = (g', out') \<and> mset out = mset out'"
proof -
  define ordered :: "GameLauncher \<Rightarrow> GameLauncher" where "ordered = (\<lambda>g. if ends_with (ascii ''/launch'') msg then g else g\<lparr>gl_randomPositions := False\<rparr>)"
  define G where "G = ordered ((point_client True (g\<lparr>gl_mapName := mapName\<rparr>))\<lparr>gl_readyToStart := True\<rparr>)"
  obtain G' out where G': "onStartApplication env G = (G', out)" by fastforce
  have ready: "gl_readyToStart G" by (simp add: G_def ordered_def)
  let ?lobby = "[team_option env G, ToLobby (sendGameOption_int (ascii ''Slots'') (gl_playerLimit G)), ToLobby (sendGameOption (ascii ''MapDetails'') details)]"
  have ext: "gl_onExtendedMessage env msg x = onStartApplication env (ordered x)" for x
    using assms(4) by (simp add: gl_onExtendedMessage_def ordered_def)
  have deferred: "gl_onExtendedMessage env msg g = ((ordered g)\<lparr>gl_autoStart := True\<rparr>, [])"
    using assms(2,3) by (simp add: ext onStartApplication_def ordered_def)
  have prepared: "(point_client True ((ordered g)\<lparr>gl_autoStart := True, gl_mapName := mapName\<rparr>))\<lparr>gl_readyToStart := True\<rparr> =
      G\<lparr>gl_autoStart := True, gl_isHost := gl_isHost G\<rparr>"
    by (simp add: G_def ordered_def point_client_def)
  have auto: "gl_autoStart (point_client True ((ordered g)\<lparr>gl_autoStart := True, gl_mapName := mapName\<rparr>))"
    by (simp add: point_client_def)
  have early: "launcher_steps env [ExtendedInput msg, HostGameInput mapName details] g =
      (G'\<lparr>gl_autoStart := True, gl_isHost := True\<rparr>, out @ ?lobby)"
    using start_frame [OF ready, where env = env and a = True and h = "gl_isHost G"] start_keeps [OF G'] G'
    by (simp add: deferred gl_onHostGame_def prepared auto Let_def team_option_def)
  have unstarted: "gl_onHostGame env mapName details g =
      ((point_client True (g\<lparr>gl_mapName := mapName\<rparr>))\<lparr>gl_readyToStart := True, gl_isHost := True\<rparr>, ?lobby)"
    using assms(1) by (simp add: gl_onHostGame_def Let_def point_client_def team_option_def G_def ordered_def)
  have ordered_host: "ordered ((point_client True (g\<lparr>gl_mapName := mapName\<rparr>))\<lparr>gl_readyToStart := True, gl_isHost := True\<rparr>) =
      G\<lparr>gl_autoStart := gl_autoStart G, gl_isHost := True\<rparr>"
    by (simp add: G_def ordered_def)
  have late: "launcher_steps env [HostGameInput mapName details, ExtendedInput msg] g =
      (G'\<lparr>gl_autoStart := gl_autoStart G, gl_isHost := True\<rparr>, ?lobby @ out)"
    using start_frame [OF ready, where env = env and a = "gl_autoStart G" and h = True] G'
    by (simp add: unstarted ext ordered_host)
  have "mset (out @ ?lobby) = mset (?lobby @ out)" by simp
  moreover have "launcher_steps env [ExtendedInput msg, HostGameInput mapName details] g =
      ((G'\<lparr>gl_autoStart := gl_autoStart G, gl_isHost := True\<rparr>)\<lparr>gl_autoStart := True\<rparr>, out @ ?lobby)"
    using early by simp
  ultimately show ?thesis using late by blast
qed

theorem early_launch_is_deferred_witness:
  "\<exists>g' out out'.
     launcher_steps example_launcher_env [ExtendedInput (ascii ''/launch''), HostGameInput (ascii ''Map'') []] example_launcher =
       (g'\<lparr>gl_autoStart := True\<rparr>, out) \<and>
     launcher_steps example_launcher_env [HostGameInput (ascii ''Map'') [], ExtendedInput (ascii ''/launch'')] example_launcher = (g', out') \<and>
     mset out = mset out'"
  using early_launch_is_deferred [of example_launcher "ascii ''/launch''" example_launcher_env "ascii ''Map''" "[]"]
  by (simp add: example_launcher_def GameLauncher_new_def starts_with_def)

section \<open>Verification of the game's files\<close>

lemma PartialCRC_append: "PartialCRC t r (a @ b) = PartialCRC t (PartialCRC t r a) b"
  by (induction t r a rule: PartialCRC.induct) auto

text \<open>Reading in portions computes the checksum of the whole.\<close>

lemma crc_chunks_eq: "crc_chunks r bs = PartialCRC Initialize r bs"
proof (induction r bs rule: crc_chunks.induct)
  case (1 r bs)
  then show ?case
    using PartialCRC_append [of Initialize r "take 4096 bs" "drop 4096 bs"] by (simp add: crc_chunks.simps [of r bs])
qed

definition crc32_spec :: "bytestring \<Rightarrow> u32" where
  "crc32_spec bs = foldl crc_byte 0xffffffff bs XOR 0xffffffff"

lemma file_crc_eq: "file_crc bs = crc32_spec bs"
  by (simp add: file_crc_def crc_chunks_eq PartialCRC_bitwise crc32_spec_def)

fun file_allowed :: "launcher_env \<Rightarrow> bytestring \<Rightarrow> bytestring \<times> int list \<Rightarrow> bool" where
  "file_allowed env path (name, crcs) = (case le_files env (path @ ascii ''/'' @ name) of
     NoFile \<Rightarrow> True
   | Unreadable \<Rightarrow> crcs = []
   | Contents bs \<Rightarrow> crcs = [] \<or> uint (crc32_spec bs) \<in> set crcs)"

lemma verify_files_iff: "snd (snd (verify_files env path fs c)) \<longleftrightarrow> (\<forall>f \<in> set fs. file_allowed env path f)"
  by (induction env path fs c rule: verify_files.induct)
    (auto simp: Let_def file_crc_eq split: game_file.splits prod.splits)

definition fail_request :: "launcher_event \<Rightarrow> bool" where
  "fail_request e = (\<exists>m. e = ToLaunchServer (ascii ''/failversion '' @ m))"

lemma verify_files_requests: "\<forall>e \<in> set (fst (snd (verify_files env path fs c))). fail_request e"
  by (induction env path fs c rule: verify_files.induct)
    (auto simp: Let_def failGameFileVersions_def fail_request_def split: game_file.splits prod.splits if_splits)

lemma start_game_files_events:
  "e \<in> set (start_game_files env g) \<Longrightarrow> (\<exists>p t. e = WroteIni p t) \<or> (\<exists>p. e = CopiedDll p)"
  by (auto simp: start_game_files_def createTAInitFile_def copyOnlineDll_def split: option.splits if_splits)

lemma launch_request_not_fail: "\<not> fail_request (ToLaunchServer (launch_request c))"
  by (simp add: fail_request_def launch_request_def launch_verb_def ascii_def)

text \<open>C18. With the verification enabled no game is started that has a file, among the listed ones, whose CRC-32 is not
  one of those allowed for it: then the launch is given up, nothing tells the lobby server of a battle room and
  the launch server is never asked to start the game; only its report of the failed verification goes out.\<close>

theorem unlisted_file_blocks_start:
  assumes "gl_enableVerify g" and "f \<in> set (gl_gameFileVersions g)" and "\<not> file_allowed env (gl_gamePath g) f"
    and "onStartApplication env g = (g', out)"
  shows "ApplicationStarted \<notin> set out \<and> gl_alreadyStarted g' = gl_alreadyStarted g \<and>
    (\<forall>bs. ToLobby bs \<notin> set out) \<and> ToLaunchServer (launch_request (gl_launchClient g)) \<notin> set out"
proof -
  obtain c out1 where v: "verify_files env (gl_gamePath g) (gl_gameFileVersions g) (gl_launchClient g) = (c, out1, False)"
    using verify_files_iff [of env "gl_gamePath g" "gl_gameFileVersions g" "gl_launchClient g"] assms(2,3) by (metis prod_cases3 snd_conv)
  then have v': "verifyGameFileVersions env g = (g\<lparr>gl_launchClient := c\<rparr>, out1, False)"
    by (simp add: verifyGameFileVersions_def)
  have "e \<in> set out \<Longrightarrow> fail_request e \<or> (\<exists>p t. e = WroteIni p t) \<or> (\<exists>p. e = CopiedDll p)" for e
    using assms(1,4) verify_files_requests [of env "gl_gamePath g" "gl_gameFileVersions g" "gl_launchClient g"] start_game_files_events [of e env g]
    by (auto simp: onStartApplication_def v v' Let_def split: if_splits)
  moreover have "gl_alreadyStarted g' = gl_alreadyStarted g"
    using assms(1,4) by (auto simp: onStartApplication_def v' Let_def split: if_splits)
  ultimately show ?thesis
    using launch_request_not_fail [of "gl_launchClient g"] unfolding fail_request_def by blast
qed

theorem unlisted_file_blocks_start_witness:
  "let env = example_launcher_env\<lparr>le_files := (\<lambda>f. if f = ascii ''/totala.exe'' then Contents [0x41] else NoFile)\<rparr>;
       g = (setEnableGameFileVersionVerify True example_launcher)
             \<lparr>gl_readyToStart := True, gl_gameFileVersions := [(ascii ''totala.exe'', [0x12345678])]\<rparr>
   in ApplicationStarted \<notin> set (snd (onStartApplication env g))"
proof -
  let ?env = "example_launcher_env\<lparr>le_files := (\<lambda>f. if f = ascii ''/totala.exe'' then Contents [0x41] else NoFile)\<rparr>"
  let ?g = "(setEnableGameFileVersionVerify True example_launcher)
             \<lparr>gl_readyToStart := True, gl_gameFileVersions := [(ascii ''totala.exe'', [0x12345678])]\<rparr>"
  have "crc32_spec [0x41] = 0xd3d99e8b" by code_simp
  then have "\<not> file_allowed ?env (gl_gamePath ?g) (ascii ''totala.exe'', [0x12345678])"
    by (simp add: example_launcher_def GameLauncher_new_def setEnableGameFileVersionVerify_def ascii_def)
  then have "ApplicationStarted \<notin> set (snd (onStartApplication ?env ?g))"
    using unlisted_file_blocks_start [of ?g "(ascii ''totala.exe'', [0x12345678])" ?env]
    by (simp add: setEnableGameFileVersionVerify_def prod.collapse) (metis prod.collapse)
  then show ?thesis by (simp add: Let_def)
qed

end
