(* ===== verification/Replayer_State.thy ===== *)
theory Replayer_State
  imports Complex_Main Packet_Records Demo_Parser Unit_Data_Repo Crc
begin

text \<open>
  The replayer (\<open>apps/replayer/TaReplayer.cpp\<close>): a DirectPlay host that plays a recorded game to the watchers who join
  it. This theory holds its state, the sending of packets and the loading of the recording; the lobby is in
  \<open>Replayer_Lobby\<close>, the game in \<open>Replayer_Play\<close>.

  An operation takes the state to a state, the events it causes and a result: an error is an exception, which leaves
  what was done before it in place, or undefined behaviour. DirectPlay (\<open>JDPlay\<close>) is a parameter: what it does
  appears as events, what it delivers as arguments. \<open>double\<close>s are rationals; the rounding of the machine is the
  parameter \<open>re_fl\<close>. The resource counters, which only the text of one chat command shows, are kept as the bits that
  were read and, for the sums, as the list of what was added.
\<close>

section \<open>State\<close>

datatype ReplayState = LOADING_DEMO_PLAYERS | LOBBY | LAUNCH | LOAD | PLAY | DONE

text \<open>\<open>Replayer::DemoPlayer\<close>. The ordinal is set before it is read; 0 stands for its initial value.\<close>

record RecordedPlayer =
  pl_info :: DemoPlayer
  pl_ordinalId :: nat
  pl_dpId :: u32
  pl_originalDpId :: u32
  pl_statusPacket :: bytestring
  pl_ticks :: u32
  pl_metal :: u32
  pl_metalShared :: "u32 list"
  pl_energy :: u32
  pl_energyShared :: "u32 list"

datatype DpPlayerState =
    START_SYNC | SEND_UNITS | WAIT_RECEIVE_UNITS | CHECK_ERRORS | SEND_ACKS | WAIT_ACKS | END_SYNC | WAIT_GO | LOADING | PLAYING

datatype WarnedWatcherState = INITIAL | HAVE_WARNED | PROCEED_REGARDLESS

text \<open>\<open>DpPlayer\<close>; its counters start at 0 and are only counted up or set to natural numbers. \<open>hasTaken\<close> is never read.\<close>

record Watcher =
  wp_ordinalId :: nat
  wp_dpid :: u32
  wp_ticks :: u32
  wp_statusPacket :: bytestring
  wp_state :: DpPlayerState
  wp_unitSyncSendCount :: nat
  wp_unitSyncNextUnit :: nat
  wp_unitSyncErrorCount :: nat
  wp_unitSyncAckCount :: nat
  wp_unitSyncReceiveCount :: nat
  wp_warned :: WarnedWatcherState

record UnitInfo =
  ui_id :: u32
  ui_crc :: u32
  ui_limit :: u16
  ui_inUse :: bool

definition NUM_PAKS_TO_PRELOAD :: nat where "NUM_PAKS_TO_PRELOAD = 100"
definition UNITS_SYNC_PER_TICK :: nat where "UNITS_SYNC_PER_TICK = 100"

text \<open>
  \<open>m_demoPlayersById\<close> holds the players of \<open>m_demoPlayers\<close> under their \<open>dpId\<close>: its keys are kept.
  \<open>m_demoUnitInfoLinear\<close> holds pointers into \<open>m_demoUnitInfo\<close>: the keys. \<open>rp_stream\<close> is what the file holds
  beyond the position of the parser.
\<close>

record Replayer =
  rp_hosting :: bool
  rp_tcpSeq :: u32
  rp_wallClockTicks :: u32
  rp_demoTicks :: u32
  rp_targetTicks :: u32
  rp_targetTicksFractional :: rat
  rp_playBackSpeed :: rat
  rp_rateControl :: rat
  rp_state :: ReplayState
  rp_isPaused :: bool
  rp_tickLastUserPauseEvent :: u32
  rp_parser :: DemoParser
  rp_stream :: bytestring
  rp_launch :: bool
  rp_nochat :: bool
  rp_dpIdsPrealloc :: "u32 list"
  rp_header :: "Header option"
  rp_demoPlayers :: "RecordedPlayer list"
  rp_demoPlayersById :: "u32 list"
  rp_dpPlayers :: "(u32, Watcher) std_map"
  rp_demoUnitInfo :: "(u32, UnitInfo) std_map"
  rp_demoUnitInfoLinear :: "u32 list"
  rp_demoUnitsCrc :: "u32 option"
  rp_pending :: "(Packet \<times> bytestring list) list"
  rp_recentChatQueue :: "u32 list"
  rp_recentChatSet :: "u32 set"
  rp_rands :: nat

definition Replayer_new :: Replayer where
  "Replayer_new = \<lparr>rp_hosting = False, rp_tcpSeq = 0xfffffffe, rp_wallClockTicks = 0, rp_demoTicks = 0, rp_targetTicks = 0,
     rp_targetTicksFractional = 0, rp_playBackSpeed = 1, rp_rateControl = 1, rp_state = LOADING_DEMO_PLAYERS,
     rp_isPaused = False, rp_tickLastUserPauseEvent = 0, rp_parser = DemoParser_new, rp_stream = [], rp_launch = True,
     rp_nochat = False, rp_dpIdsPrealloc = [], rp_header = None, rp_demoPlayers = [], rp_demoPlayersById = [],
     rp_dpPlayers = [], rp_demoUnitInfo = [], rp_demoUnitInfoLinear = [], rp_demoUnitsCrc = None, rp_pending = [],
     rp_recentChatQueue = [], rp_recentChatSet = {}, rp_rands = 0\<rparr>"

definition RecordedPlayer_new :: "DemoPlayer \<Rightarrow> RecordedPlayer" where
  "RecordedPlayer_new p = \<lparr>pl_info = p, pl_ordinalId = 0, pl_dpId = 0, pl_originalDpId = 0, pl_statusPacket = [], pl_ticks = 0,
     pl_metal = 0, pl_metalShared = [], pl_energy = 0, pl_energyShared = []\<rparr>"

definition Watcher_new :: "u32 \<Rightarrow> Watcher" where
  "Watcher_new dpid = \<lparr>wp_ordinalId = 0, wp_dpid = dpid, wp_ticks = 0, wp_statusPacket = [], wp_state = START_SYNC,
     wp_unitSyncSendCount = 0, wp_unitSyncNextUnit = 0, wp_unitSyncErrorCount = 0, wp_unitSyncAckCount = 0,
     wp_unitSyncReceiveCount = 0, wp_warned = INITIAL\<rparr>"

definition UnitInfo_new :: UnitInfo where
  "UnitInfo_new = \<lparr>ui_id = 0, ui_crc = 0, ui_limit = 0, ui_inUse = False\<rparr>"

definition setNoChat :: "bool \<Rightarrow> Replayer \<Rightarrow> Replayer" where
  "setNoChat opt r = r\<lparr>rp_nochat := opt\<rparr>"

section \<open>Operations with events and errors\<close>

datatype replay_event =
    DpSent u32 u32 bool bytestring         \<comment> \<open>from, to, guaranteed, the encrypted packet\<close>
  | DpSetPlayerName u32 bytestring
  | DpDestroyPlayer u32
  | DpEnumPlayers
  | DpClose
  | DpSetSession u32 u32 u32 u32
  | ReadyToJoin
  | TimerRestarted

text \<open>\<open>DPMSG_GENERIC\<close> and its variants, which \<open>re_sysmsg\<close> reads from a payload as \<open>dplay.h\<close> lays them out.\<close>

datatype dp_sysmsg = CreatePlayerOrGroup u32 | DestroyPlayerOrGroup u32 | SetSessionDesc | OtherSysMsg

record replay_env =
  re_fl :: "rat \<Rightarrow> rat"
  re_rand :: "nat \<Rightarrow> u32"
  re_garbage :: byte
  re_unit :: "byte \<times> u32 \<times> u32 \<times> u32"         \<comment> \<open>what \<open>TUnitData()\<close> leaves in the members it does not set\<close>
  re_sysmsg :: "bytestring \<Rightarrow> dp_sysmsg"
  re_totalText :: "RecordedPlayer \<Rightarrow> bytestring"
  re_posText :: bytestring

type_synonym 'a replay = "Replayer \<Rightarrow> Replayer \<times> replay_event list \<times> (cpp_error + 'a)"

definition rp_return :: "'a \<Rightarrow> 'a replay" where "rp_return x r = (r, [], Inr x)"
definition rp_fail :: "cpp_error \<Rightarrow> 'a replay" where "rp_fail e r = (r, [], Inl e)"
definition rp_emit :: "replay_event \<Rightarrow> unit replay" where "rp_emit e r = (r, [e], Inr ())"
definition rp_modify :: "(Replayer \<Rightarrow> Replayer) \<Rightarrow> unit replay" where "rp_modify f r = (f r, [], Inr ())"
definition rp_get :: "(Replayer \<Rightarrow> 'a replay) \<Rightarrow> 'a replay" where "rp_get f r = f r r"

definition rp_bind :: "'a replay \<Rightarrow> ('a \<Rightarrow> 'b replay) \<Rightarrow> 'b replay" where
  "rp_bind m f r = (case m r of
     (r', out, Inl e) \<Rightarrow> (r', out, Inl e)
   | (r', out, Inr x) \<Rightarrow> (let (r'', out', res) = f x r' in (r'', out @ out', res)))"

definition rp_then :: "unit replay \<Rightarrow> 'b replay \<Rightarrow> 'b replay" where
  "rp_then m n = rp_bind m (\<lambda>_. n)"

fun rp_each :: "('a \<Rightarrow> unit replay) \<Rightarrow> 'a list \<Rightarrow> unit replay" where
  "rp_each f [] = rp_return ()"
| "rp_each f (x # xs) = rp_then (f x) (rp_each f xs)"

text \<open>\<open>None\<close> is undefined behaviour; a value of the sum is returned or thrown.\<close>

definition rp_opt :: "'a option \<Rightarrow> ('a \<Rightarrow> 'b replay) \<Rightarrow> 'b replay" where
  "rp_opt v f = (case v of None \<Rightarrow> rp_fail Undefined | Some x \<Rightarrow> f x)"

definition rp_sum :: "cpp_error + 'a \<Rightarrow> ('a \<Rightarrow> 'b replay) \<Rightarrow> 'b replay" where
  "rp_sum v f = (case v of Inl e \<Rightarrow> rp_fail e | Inr x \<Rightarrow> f x)"

section \<open>Sending\<close>

text \<open>\<open>dpSend\<close> on a null \<open>m_jdPlay\<close> is undefined.\<close>

definition dpSend :: "u32 \<Rightarrow> u32 \<Rightarrow> bool \<Rightarrow> bytestring \<Rightarrow> unit replay" where
  "dpSend fromId toId guaranteed bs =
     rp_get (\<lambda>r. if rp_hosting r then rp_emit (DpSent fromId toId guaranteed bs) else rp_fail Undefined)"

definition rp_send :: "u32 \<Rightarrow> u32 \<Rightarrow> bytestring \<Rightarrow> unit replay" where
  "rp_send fromId toId subpak =
     rp_get (\<lambda>r. rp_then (rp_modify (\<lambda>r. if toId = 0 then r\<lparr>rp_tcpSeq := rp_tcpSeq r - 1\<rparr> else r))
       (dpSend fromId toId True (encrypt (trivialSmartpak subpak (if toId = 0 then rp_tcpSeq r else 0xffffffff)))))"

definition sendUdp :: "u32 \<Rightarrow> u32 \<Rightarrow> bytestring \<Rightarrow> unit replay" where
  "sendUdp fromId toId subpak = dpSend fromId toId False (encrypt (trivialSmartpak subpak 0))"

definition say :: "u32 \<Rightarrow> bytestring \<Rightarrow> unit replay" where
  "say fromId txt = sendUdp fromId 0 (createChatSubpacket txt)"

definition getDemoPlayerByOriginalDpId :: "u32 \<Rightarrow> Replayer \<Rightarrow> nat option" where
  "getDemoPlayerByOriginalDpId originalDpId r =
     (case filter (\<lambda>i. pl_originalDpId (rp_demoPlayers r ! i) = originalDpId) [0..<length (rp_demoPlayers r)] of
        [] \<Rightarrow> None | i # _ \<Rightarrow> Some i)"

section \<open>Hosting\<close>

text \<open>
  An attempt to open a session: whether \<open>dpOpen\<close> succeeds and the ids of the 20 players created. A first id above
  the last one makes it destroy the players and try again, at most 100 times.
\<close>

fun host_attempts :: "(bool \<times> u32 list) list \<Rightarrow> unit replay" where
  "host_attempts [] = rp_return ()"
| "host_attempts ((opened, ids) # attempts) =
     (if \<not> opened then rp_modify (\<lambda>r. r\<lparr>rp_hosting := False\<rparr>)
      else rp_then (rp_modify (\<lambda>r. r\<lparr>rp_dpIdsPrealloc := rp_dpIdsPrealloc r @ ids\<rparr>))
        (rp_get (\<lambda>r. let pre = rp_dpIdsPrealloc r in
          if pre \<noteq> [] \<and> hd pre > last pre
          then rp_then (rp_each (\<lambda>dpid. rp_emit (DpDestroyPlayer dpid)) (rev pre))
            (rp_then (rp_emit DpClose)
              (rp_then (rp_modify (\<lambda>r. r\<lparr>rp_dpIdsPrealloc := []\<rparr>)) (host_attempts attempts)))
          else rp_return ())))"

definition hostGame :: "bool \<Rightarrow> (bool \<times> u32 list) list \<Rightarrow> unit replay" where
  "hostGame initialised attempts =
     rp_then (rp_modify (\<lambda>r. r\<lparr>rp_hosting := initialised\<rparr>))
       (if initialised then host_attempts (take 100 attempts) else rp_return ())"

section \<open>Loading the recording\<close>

definition processUnitData :: "TUnitData \<Rightarrow> Replayer \<Rightarrow> Replayer" where
  "processUnitData ud r =
     (let (ui, units) = std_index UnitInfo_new (unit_id ud) (rp_demoUnitInfo r) in
      if pktid ud = GIVE_UNIT_14 \<or> pktid ud = TEAM_24 then r
      else if sub ud = 0x03
      then r\<lparr>rp_demoUnitInfo := std_put (unit_id ud)
             (ui\<lparr>ui_id := unit_id ud, ui_limit := statusAndLimit1 ud, ui_inUse := (statusAndLimit0 ud = 0x0101)\<rparr>) units\<rparr>
      else if sub ud = 0x02
      then r\<lparr>rp_demoUnitInfo := std_put (unit_id ud) (ui\<lparr>ui_id := unit_id ud, ui_crc := crc ud\<rparr>) units\<rparr>
      else if unit_id ud = 0xffffffff then r\<lparr>rp_demoUnitsCrc := Some (unit_fill ud)\<rparr>
      else r)"

text \<open>The loop of \<open>handle(UnitData)\<close>: the size of a sub-packet is that of the first, in every round.\<close>

function unit_data_loop :: "nat \<Rightarrow> bytestring \<Rightarrow> unit replay" where
  "unit_data_loop len bs =
     (if bs = [] \<or> len = 0 then rp_return ()
      else rp_opt (load_bytes bs 0 len) (\<lambda>sub_bytes. rp_opt (TUnitData_parse sub_bytes) (\<lambda>ud.
        rp_then (rp_modify (processUnitData ud)) (unit_data_loop len (drop len bs)))))"
  by pat_completeness auto
termination
  by (relation "measure (\<lambda>(len, bs). length bs)") auto

declare unit_data_loop.simps [simp del]

definition finish_units :: "Replayer \<Rightarrow> Replayer" where
  "finish_units r =
     (let units = filter (\<lambda>(uid, ui). ui_inUse ui) (rp_demoUnitInfo r);
          units' = std_put SY_UNIT_ID \<lparr>ui_id = SY_UNIT_ID, ui_crc = 0, ui_limit = 100, ui_inUse = True\<rparr> units
      in r\<lparr>rp_demoUnitInfo := units', rp_demoUnitInfoLinear := rp_demoUnitInfoLinear r @ map fst units'\<rparr>)"

definition handle_unitData :: "bytestring \<Rightarrow> unit replay" where
  "handle_unitData bs = rp_opt (getExpectedSubPacketSize bs) (\<lambda>len.
     rp_then (unit_data_loop len bs) (rp_modify finish_units))"

definition handle_status :: "PlayerStatusMessage \<Rightarrow> u32 \<Rightarrow> nat \<Rightarrow> unit replay" where
  "handle_status msg dplayid n = rp_get (\<lambda>r.
     if n < length (rp_demoPlayers r)
     then rp_modify (\<lambda>r. r\<lparr>rp_demoPlayers := (rp_demoPlayers r)[n := (rp_demoPlayers r ! n)
            \<lparr>pl_ordinalId := n, pl_originalDpId := dplayid, pl_statusPacket := statusMessage msg\<rparr>]\<rparr>)
     else rp_fail Undefined)"

text \<open>The \<open>handle\<close> functions the parser calls.\<close>

fun replay_handle :: "demo_event \<Rightarrow> unit replay" where
  "replay_handle (EvHeader h) = rp_modify (\<lambda>r. r\<lparr>rp_header := Some h\<rparr>)"
| "replay_handle (EvPlayer p n ofTotal) = rp_modify (\<lambda>r. r\<lparr>rp_demoPlayers := rp_demoPlayers r @ [RecordedPlayer_new p]\<rparr>)"
| "replay_handle (EvExtraSector es n ofTotal) = rp_return ()"
| "replay_handle (EvStatus msg dplayid n ofTotal) = handle_status msg dplayid n"
| "replay_handle (EvUnitData ud) = handle_unitData (unitData ud)"
| "replay_handle (EvPacket pk unpaked n) = rp_modify (\<lambda>r. r\<lparr>rp_pending := rp_pending r @ [(pk, unpaked)]\<rparr>)"

text \<open>
  \<open>parse\<close>: the parser goes as far as the file reaches and hands over what it reads. \<open>handle(UnitData)\<close> alone can fail,
  and only with undefined behaviour, so that the calls can be made after the parser has run.
\<close>

definition replay_parse :: "nat \<Rightarrow> bool replay" where
  "replay_parse maxPaks = rp_get (\<lambda>r.
     let (p, s, res) = demo_parse maxPaks (rp_parser r) (rp_stream r);
         news = drop (length (p_events (scan (rp_parser r)))) (p_events (scan p))
     in rp_then (rp_modify (\<lambda>r. r\<lparr>rp_parser := p, rp_stream := s\<rparr>))
          (rp_then (rp_each replay_handle news) (rp_sum res rp_return)))"

text \<open>
  The players are numbered in the order of their original ids and then put into the order of the recording. Ties of a
  sort, which \<open>std::sort\<close> leaves open, stay in order.
\<close>

definition assign_dpIds :: "u32 list \<Rightarrow> RecordedPlayer list \<Rightarrow> RecordedPlayer list" where
  "assign_dpIds ids ps = map (\<lambda>(dpid, p). p\<lparr>pl_dpId := dpid\<rparr>) (zip ids ps)"

definition onCompletedLoadingDemoPlayers :: "unit replay" where
  "onCompletedLoadingDemoPlayers = rp_get (\<lambda>r.
     let ids = sort (rp_dpIdsPrealloc r);
         byOriginal = sort_key pl_originalDpId (rp_demoPlayers r);
         named = assign_dpIds ids byOriginal;
         n = length (rp_demoPlayers r)
     in if \<not> rp_hosting r \<or> length ids < n then rp_fail Undefined
        else rp_then (rp_each (\<lambda>p. rp_emit (DpSetPlayerName (pl_dpId p) (c_str (dp_name (pl_info p))))) named)
          (rp_then (rp_modify (\<lambda>r. r\<lparr>rp_demoPlayers := sort_key pl_ordinalId named,
               rp_demoPlayersById := remdups (sort (map pl_dpId named @ rp_demoPlayersById r)), rp_dpIdsPrealloc := take n ids\<rparr>))
            (rp_then (rp_each (\<lambda>dpid. rp_emit (DpDestroyPlayer dpid)) (rev (drop n ids)))
              (rp_emit DpEnumPlayers))))"

end
