(* ===== verification/Replayer_Lobby.thy ===== *)
theory Replayer_Lobby
  imports Replayer_State
begin

text \<open>
  The lobby of the replayer: the messages of the watchers, the announcement of the players, and the synchronisation of the units with
  each watcher (\<open>doSyncWatcher\<close>), which has to finish before the game is launched.
\<close>

section \<open>Text\<close>

definition digit :: "nat \<Rightarrow> byte" where
  "digit d = word_of_nat (48 + d)"

fun digits :: "nat \<Rightarrow> bytestring" where
  "digits n = (if n < 10 then [digit n] else digits (n div 10) @ [digit (n mod 10)])"

declare digits.simps [simp del]

section \<open>Messages\<close>

text \<open>The packets a message holds; one with a wrong checksum is not for us.\<close>

definition received_subpaks :: "bytestring \<Rightarrow> cpp_error + bytestring list" where
  "received_subpaks payload0 =
     (case decrypt payload0 0 of
        (payload, None) \<Rightarrow> Inl Undefined
      | (payload, Some (extracted, calculated)) \<Rightarrow>
          if extracted \<noteq> calculated then Inr []
          else case (if byte_at payload 0 = Some 0x04 then decompress payload 3 else Some payload) of
                 None \<Rightarrow> Inl Undefined
               | Some payload \<Rightarrow> unsmartpak payload True True)"

text \<open>The loop over them, which passes over those of an unexpected size.\<close>

definition each_subpak :: "(bytestring \<Rightarrow> unit replay) \<Rightarrow> bytestring list \<Rightarrow> unit replay" where
  "each_subpak f = rp_each (\<lambda>s. rp_opt (getExpectedSubPacketSize s) (\<lambda>expectedSize.
     if expectedSize = 0 \<or> length s \<noteq> expectedSize then rp_return () else f s))"

definition onLobbySystemMessage :: "replay_env \<Rightarrow> bytestring \<Rightarrow> unit replay" where
  "onLobbySystemMessage env payload = rp_modify (\<lambda>r. case re_sysmsg env payload of
     CreatePlayerOrGroup dpid \<Rightarrow>
       if dpid \<in> set (rp_demoPlayersById r) then r
       else r\<lparr>rp_dpPlayers := std_put dpid (Watcher_new dpid) (rp_dpPlayers r)\<rparr>
   | DestroyPlayerOrGroup dpid \<Rightarrow>
       if dpid \<in> set (rp_demoPlayersById r) then r else r\<lparr>rp_dpPlayers := std_erase dpid (rp_dpPlayers r)\<rparr>
   | SetSessionDesc \<Rightarrow> r
   | OtherSysMsg \<Rightarrow> r)"

definition update_watcher :: "u32 \<Rightarrow> (Watcher \<Rightarrow> Watcher) \<Rightarrow> Replayer \<Rightarrow> Replayer" where
  "update_watcher dpid f r = (case map_of (rp_dpPlayers r) dpid of
     None \<Rightarrow> r | Some w \<Rightarrow> r\<lparr>rp_dpPlayers := std_put dpid (f w) (rp_dpPlayers r)\<rparr>)"

definition on_unit_data :: "(u32, UnitInfo) std_map \<Rightarrow> TUnitData \<Rightarrow> Watcher \<Rightarrow> Watcher" where
  "on_unit_data units ud w =
     (if sub ud = 0x02
      then case map_of units (unit_id ud) of
             None \<Rightarrow> w
           | Some ui \<Rightarrow>
               if ui_crc ui \<noteq> crc ud \<and> unit_id ud \<noteq> SY_UNIT_ID
               then w\<lparr>wp_unitSyncErrorCount := wp_unitSyncErrorCount w + 1\<rparr>
               else w\<lparr>wp_unitSyncAckCount := wp_unitSyncAckCount w + 1\<rparr>
      else if sub ud = 0x04 then w\<lparr>wp_unitSyncReceiveCount := unat (statusAndLimit0 ud)\<rparr>
      else w)"

definition lobby_subpak :: "replay_env \<Rightarrow> u32 \<Rightarrow> u32 \<Rightarrow> bytestring \<Rightarrow> unit replay" where
  "lobby_subpak env sourceDplayId otherDplayId s =
     (case subPacketCode (s ! 0) of
        PING_02 \<Rightarrow> rp_opt (TPing_parse s) (\<lambda>ping. rp_get (\<lambda>r.
          rp_then (rp_modify (\<lambda>r. r\<lparr>rp_rands := rp_rands r + 1\<rparr>))
            (rp_send otherDplayId sourceDplayId
               (TPing_asSubPacket (ping\<lparr>ping_value := 1000000 + re_rand env (rp_rands r) mod 1000000\<rparr>)))))
      | UNIT_DATA_1A \<Rightarrow> rp_get (\<lambda>r.
          if map_of (rp_dpPlayers r) sourceDplayId = None then rp_return ()
          else rp_opt (TUnitData_parse s) (\<lambda>ud.
            rp_modify (update_watcher sourceDplayId (on_unit_data (rp_demoUnitInfo r) ud))))
      | PLAYER_INFO_20 \<Rightarrow> rp_modify (\<lambda>r.
          if sourceDplayId \<in> set (rp_demoPlayersById r) then r
          else update_watcher sourceDplayId (\<lambda>w. w\<lparr>wp_statusPacket := s\<rparr>) r)
      | _ \<Rightarrow> rp_return ())"

definition onLobbyTaMessage :: "replay_env \<Rightarrow> u32 \<Rightarrow> u32 \<Rightarrow> bytestring \<Rightarrow> unit replay" where
  "onLobbyTaMessage env sourceDplayId otherDplayId payload =
     rp_sum (received_subpaks payload) (each_subpak (lobby_subpak env sourceDplayId otherDplayId))"

section \<open>Announcing the players\<close>

definition hostDpId :: "Replayer \<Rightarrow> u32" where
  "hostDpId r = pl_dpId (hd (rp_demoPlayers r))"

text \<open>The array \<open>dpids\<close> has ten places: more players are written past its end.\<close>

definition give_ordinals :: "Replayer \<Rightarrow> Replayer" where
  "give_ordinals r =
     (let n = length (rp_demoPlayers r) in
      r\<lparr>rp_demoPlayers := map (\<lambda>(i, p). p\<lparr>pl_ordinalId := i\<rparr>) (enumerate 0 (rp_demoPlayers r)),
        rp_dpPlayers := map (\<lambda>(i, (dpid, w)). (dpid, w\<lparr>wp_ordinalId := i\<rparr>)) (enumerate n (rp_dpPlayers r))\<rparr>)"

definition send_ident3 :: "(u32 \<times> nat) list \<Rightarrow> unit replay" where
  "send_ident3 ids = rp_each (\<lambda>(dpid, i). rp_get (\<lambda>r.
     rp_send (hostDpId r) 0 (TIdent3_asSubPacket \<lparr>ident_dpid = dpid, number = word_of_nat i\<rparr>))) ids"

definition announced_ids :: "Replayer \<Rightarrow> (u32 \<times> nat) list" where
  "announced_ids r = map (\<lambda>p. (pl_dpId p, pl_ordinalId p)) (rp_demoPlayers r) @ map (\<lambda>(dpid, w). (dpid, wp_ordinalId w)) (rp_dpPlayers r)"

definition lobby_info :: "u32 \<Rightarrow> TPlayerInfo \<Rightarrow> TPlayerInfo" where
  "lobby_info dpid info = setCheat True (setAllowWatch True (setInternalVersion 0 (setDpId dpid info)))"

definition sendPlayerInfos :: "replay_env \<Rightarrow> unit replay" where
  "sendPlayerInfos env = rp_get (\<lambda>r0. let ps = rp_demoPlayers r0; n = length ps in
     if ps = [] \<or> n > 10 then rp_fail Undefined
     else rp_then (rp_send (hostDpId r0) 0 (TIdent2_asSubPacket \<lparr>dpids = map pl_dpId ps @ replicate (10 - n) 0\<rparr>))
       (rp_then (rp_modify give_ordinals)
         (rp_then (rp_get (\<lambda>r. send_ident3 (announced_ids r)))
           (rp_each (\<lambda>p. rp_opt (TPlayerInfo_parse (re_garbage env) (pl_statusPacket p)) (\<lambda>info.
              rp_send (hostDpId r0) 0 (TPlayerInfo_asSubPacket (lobby_info (pl_dpId p) info)))) ps))))"

section \<open>Synchronising the units with a watcher\<close>

text \<open>The functions take the watcher and return it; the result is the watcher's share in the count of those ready.\<close>

definition send_unit :: "u32 \<Rightarrow> Watcher \<Rightarrow> Watcher replay" where
  "send_unit host w = rp_get (\<lambda>r.
     if wp_unitSyncNextUnit w < length (rp_demoUnitInfoLinear r)
     then rp_opt (map_of (rp_demoUnitInfo r) (rp_demoUnitInfoLinear r ! wp_unitSyncNextUnit w)) (\<lambda>ui.
       rp_then (rp_send host (wp_dpid w) (TUnitData_asSubPacket (TUnitData_make (ui_id ui) (ui_limit ui) True)))
         (rp_return (w\<lparr>wp_unitSyncNextUnit := wp_unitSyncNextUnit w + 1, wp_unitSyncSendCount := wp_unitSyncSendCount w + 1\<rparr>)))
     else rp_fail Undefined)"

fun send_units :: "u32 \<Rightarrow> nat \<Rightarrow> Watcher \<Rightarrow> Watcher replay" where
  "send_units host 0 w = rp_return w"
| "send_units host (Suc n) w = rp_bind (send_unit host w) (\<lambda>w. rp_get (\<lambda>r.
     if wp_unitSyncNextUnit w = length (rp_demoUnitInfoLinear r)
     then rp_then (say host (ascii ''*** Sent all units - '' @ digits (wp_unitSyncSendCount w)))
            (rp_return (w\<lparr>wp_unitSyncNextUnit := 0, wp_state := WAIT_RECEIVE_UNITS\<rparr>))
     else send_units host n w))"

text \<open>The loop of \<open>SEND_ACKS\<close> has no \<open>break\<close>: after the last unit it goes on with the first.\<close>

fun send_acks :: "u32 \<Rightarrow> nat \<Rightarrow> Watcher \<Rightarrow> Watcher replay" where
  "send_acks host 0 w = rp_return w"
| "send_acks host (Suc n) w = rp_bind (send_unit host w) (\<lambda>w. rp_get (\<lambda>r.
     if wp_unitSyncNextUnit w = length (rp_demoUnitInfo r)
     then rp_then (say host (ascii ''*** Sent ack on all units - '' @ digits (wp_unitSyncSendCount w)))
            (send_acks host n (w\<lparr>wp_unitSyncNextUnit := 0, wp_state := WAIT_ACKS\<rparr>))
     else send_acks host n w))"

definition ack_status :: "Watcher \<Rightarrow> bytestring" where
  "ack_status w = ascii ''*** Current ack status: '' @ digits (wp_unitSyncReceiveCount w) @ ascii '' of '' @ digits (wp_unitSyncSendCount w)"

text \<open>The default constructor clears only as many bytes as a pointer has: the rest of the object is as it was.\<close>

definition TUnitData_default :: "byte \<times> u32 \<times> u32 \<times> u32 \<Rightarrow> TUnitData" where
  "TUnitData_default rest = (let (s, fill, uid, u) = rest in \<lparr>pktid = UNIT_DATA_1A, sub = s, unit_fill = fill, unit_id = uid, crc = u\<rparr>)"

definition start_sync :: "replay_env \<Rightarrow> u32 \<Rightarrow> Watcher \<Rightarrow> Watcher replay" where
  "start_sync env host w =
     rp_then (rp_send host (wp_dpid w) (createHostMigrationSubpacket (int (wp_ordinalId w))))
       (rp_then (rp_send host (wp_dpid w)
           (TUnitData_asSubPacket (TUnitData_default (re_unit env))))
         (rp_return (w\<lparr>wp_unitSyncNextUnit := 0, wp_unitSyncSendCount := wp_unitSyncReceiveCount w + 1, wp_state := SEND_UNITS\<rparr>)))"

definition wait_receive_units :: "u32 \<Rightarrow> Watcher \<Rightarrow> Watcher replay" where
  "wait_receive_units host w0 =
     (let w = w0\<lparr>wp_unitSyncNextUnit := wp_unitSyncNextUnit w0 + 1\<rparr> in
      if wp_unitSyncSendCount w \<le> wp_unitSyncReceiveCount w + 1
      then rp_return (w\<lparr>wp_unitSyncSendCount := wp_unitSyncReceiveCount w, wp_state := CHECK_ERRORS\<rparr>)
      else if wp_unitSyncNextUnit w > 10
      then rp_then (say host (ack_status w))
             (rp_then (say host (ascii ''*** Attempting resync'')) (rp_return (w\<lparr>wp_state := START_SYNC\<rparr>)))
      else rp_return w)"

definition check_errors :: "u32 \<Rightarrow> Watcher \<Rightarrow> Watcher replay" where
  "check_errors host w = rp_get (\<lambda>r. let n = length (rp_demoUnitInfo r) in
     rp_then (if wp_unitSyncErrorCount w \<noteq> 0
              then say host (ascii ''*** You have CRC errors on '' @ digits (wp_unitSyncErrorCount w) @ ascii '' units!'')
              else rp_return ())
       (rp_then (if wp_unitSyncAckCount w < n
                 then say host (ascii ''*** You are missing '' @ digits (n - wp_unitSyncAckCount w) @ ascii '' of '' @ digits n @ ascii '' units!'')
                 else rp_return ())
         (rp_return (w\<lparr>wp_state := SEND_ACKS, wp_unitSyncNextUnit := 0\<rparr>))))"

definition wait_acks :: "u32 \<Rightarrow> Watcher \<Rightarrow> Watcher replay" where
  "wait_acks host w0 =
     (let w = w0\<lparr>wp_unitSyncNextUnit := wp_unitSyncNextUnit w0 + 1\<rparr> in
      if wp_unitSyncReceiveCount w = wp_unitSyncSendCount w then rp_return (w\<lparr>wp_state := END_SYNC\<rparr>)
      else if wp_unitSyncNextUnit w > 30
      then rp_then (say host (ack_status w))
             (rp_then (say host (ascii ''*** Attempting resync 2''))
               (rp_get (\<lambda>r. rp_return (w\<lparr>wp_state := SEND_ACKS, wp_unitSyncSendCount := length (rp_demoUnitInfo r) + 1\<rparr>))))
      else rp_return w)"

definition wait_go :: "replay_env \<Rightarrow> u32 \<Rightarrow> Watcher \<Rightarrow> (nat \<times> Watcher) replay" where
  "wait_go env host w = rp_opt (TPlayerInfo_parse (re_garbage env) (wp_statusPacket w)) (\<lambda>info.
     if isClickedIn info \<and> (\<not> isWatcher info \<or> wp_warned w = PROCEED_REGARDLESS) then rp_return (1, w)
     else if isClickedIn info \<and> wp_warned w = INITIAL
     then rp_then (say host (ascii ''Please join as a regular player, not as a watcher''))
            (rp_then (say host (ascii ''(or green-off / green-on again to proceed as watcher)''))
              (rp_return (0, w\<lparr>wp_warned := HAVE_WARNED\<rparr>)))
     else if \<not> isClickedIn info \<and> wp_warned w = HAVE_WARNED then rp_return (0, w\<lparr>wp_warned := PROCEED_REGARDLESS\<rparr>)
     else rp_return (0, w))"

definition doSyncWatcher :: "replay_env \<Rightarrow> Watcher \<Rightarrow> (nat \<times> Watcher) replay" where
  "doSyncWatcher env w = rp_get (\<lambda>r.
     let host = hostDpId r; unready = (\<lambda>m. rp_bind m (\<lambda>w. rp_return (0, w))) in
     case wp_state w of
       START_SYNC \<Rightarrow> unready (start_sync env host w)
     | SEND_UNITS \<Rightarrow> unready (send_units host UNITS_SYNC_PER_TICK w)
     | WAIT_RECEIVE_UNITS \<Rightarrow> unready (wait_receive_units host w)
     | CHECK_ERRORS \<Rightarrow> unready (check_errors host w)
     | SEND_ACKS \<Rightarrow> unready (send_acks host UNITS_SYNC_PER_TICK w)
     | WAIT_ACKS \<Rightarrow> unready (wait_acks host w)
     | END_SYNC \<Rightarrow> unready (rp_then (say host (ascii ''*** Unit sync is complete'')) (rp_return (w\<lparr>wp_state := WAIT_GO\<rparr>)))
     | WAIT_GO \<Rightarrow> wait_go env host w
     | LOADING \<Rightarrow> rp_return (0, w)
     | PLAYING \<Rightarrow> rp_return (0, w))"

text \<open>
  The loop over the watchers, which adds up those ready. A failure leaves the change of the failing watcher undone,
  which it is only in undefined executions: sending is the only operation that fails otherwise, on a null \<open>m_jdPlay\<close>.
\<close>

fun sync_watchers :: "replay_env \<Rightarrow> u32 list \<Rightarrow> nat replay" where
  "sync_watchers env [] = rp_return 0"
| "sync_watchers env (dpid # ids) = rp_get (\<lambda>r. rp_opt (map_of (rp_dpPlayers r) dpid) (\<lambda>w.
     rp_bind (doSyncWatcher env w) (\<lambda>(go, w').
       rp_then (rp_modify (\<lambda>r. r\<lparr>rp_dpPlayers := std_put dpid w' (rp_dpPlayers r)\<rparr>))
         (rp_bind (sync_watchers env ids) (\<lambda>n. rp_return (go + n))))))"

section \<open>doLobby\<close>

type_synonym dp_message = "u32 \<times> u32 \<times> bytestring"

text \<open>
  The loop over the messages that \<open>dpReceive\<close> delivers; a system message to the first player ends \<open>doLobby\<close>. The result tells
  whether it did.
\<close>

fun lobby_messages :: "replay_env \<Rightarrow> dp_message list \<Rightarrow> bool replay" where
  "lobby_messages env [] = rp_return False"
| "lobby_messages env ((fromId, toId, payload) # msgs) = rp_get (\<lambda>r.
     if fromId = 0 \<and> toId = hostDpId r then rp_then (onLobbySystemMessage env payload) (rp_return True)
     else rp_then (onLobbyTaMessage env fromId toId payload) (lobby_messages env msgs))"

definition launch_info :: "u32 \<Rightarrow> TPlayerInfo \<Rightarrow> TPlayerInfo" where
  "launch_info dpid info = setCheat True (setPermLos True (setAllowWatch True (setDpId dpid info)))"

definition doLobby :: "replay_env \<Rightarrow> dp_message list \<Rightarrow> bool replay" where
  "doLobby env msgs = rp_bind (lobby_messages env msgs) (\<lambda>ended.
     if ended then rp_return False
     else rp_get (\<lambda>r. rp_bind
       (if rp_wallClockTicks r mod 10 = 0
        then rp_then (sendPlayerInfos env) (rp_get (\<lambda>r. sync_watchers env (map fst (rp_dpPlayers r))))
        else rp_return 0) (\<lambda>goCount. rp_get (\<lambda>r.
          if rp_dpPlayers r \<noteq> [] \<and> goCount = length (rp_dpPlayers r)
          then rp_then (rp_each (\<lambda>p. rp_opt (TPlayerInfo_parse (re_garbage env) (pl_statusPacket p)) (\<lambda>info.
                   rp_send (pl_dpId p) 0 (TPlayerInfo_asSubPacket (launch_info (pl_dpId p) info)))) (rp_demoPlayers r))
                 (rp_return True)
          else rp_return False))))"

end
