(* ===== verification/Replayer_Play.thy ===== *)
theory Replayer_Play
  imports Replayer_Lobby
begin

text \<open>
  The launch, the loading and the playing of a recorded game, and the timer that drives the replayer. The loop of \<open>doPlay\<close> receives
  messages in every round: the argument \<open>inboxes\<close> holds what each round receives, and \<open>None\<close> as a result means that
  there were fewer inboxes than rounds. \<open>Replayer_Progress\<close> shows how many are enough.
\<close>

section \<open>Launch\<close>

definition doLaunch :: "u32 \<times> u32 \<times> u32 \<times> u32 \<Rightarrow> unit replay" where
  "doLaunch sess = rp_get (\<lambda>r.
     if rp_demoPlayers r = [] then rp_fail Undefined
     else rp_then (send_ident3 (map (\<lambda>p. (pl_dpId p, pl_ordinalId p)) (rp_demoPlayers r)))
       (rp_then (rp_each (\<lambda>(dpid, w). rp_then (send_ident3 [(dpid, wp_ordinalId w)])
            (rp_modify (update_watcher dpid (\<lambda>w. w\<lparr>wp_state := LOADING\<rparr>)))) (rp_dpPlayers r))
         (let (user1, user2, user3, user4) = sess in
          rp_then (rp_emit (DpSetSession ((user1 AND 0xff00ffff) OR 0x00320000) user2 user3 user4))
            (rp_then (rp_send (hostDpId r) 0 [code_byte REPLAYER_SERVER_FA, 0x06])
              (rp_send (hostDpId r) 0 [code_byte LOADING_STARTED_08, 0x06])))))"

section \<open>Loading\<close>

definition loading_subpak :: "u32 \<Rightarrow> bytestring \<Rightarrow> unit replay" where
  "loading_subpak sourceDplayId s =
     (if subPacketCode (s ! 0) = UNIT_STAT_AND_MOVE_2C \<or> subPacketCode (s ! 0) = START_15
      then rp_modify (update_watcher sourceDplayId (\<lambda>w. w\<lparr>wp_state := PLAYING\<rparr>)) else rp_return ())"

definition onLoadingTaMessage :: "u32 \<Rightarrow> bytestring \<Rightarrow> unit replay" where
  "onLoadingTaMessage sourceDplayId payload = rp_sum (received_subpaks payload) (each_subpak (loading_subpak sourceDplayId))"

definition loading_messages :: "dp_message list \<Rightarrow> unit replay" where
  "loading_messages = rp_each (\<lambda>(fromId, toId, payload). rp_get (\<lambda>r.
     if fromId \<in> set (rp_demoPlayersById r) then rp_return () else onLoadingTaMessage fromId payload))"

definition doLoad :: "dp_message list \<Rightarrow> bool replay" where
  "doLoad msgs = rp_then (loading_messages msgs) (rp_get (\<lambda>r.
     let t = rp_wallClockTicks r; ps = rp_demoPlayers r;
         percents = (if t > 20 then 100 else t * 5) in
     rp_then (if t mod 10 = 0
              then rp_each (\<lambda>p. rp_send (pl_dpId p) 0 (TProgress_asSubPacket (TProgress_make (ucast percents)))) ps
              else rp_return ())
       (rp_then (if t mod 10 = 0 \<and> t \<ge> 20
                 then rp_then (rp_each (\<lambda>p. rp_send (pl_dpId p) 0 [code_byte START_15]) ps)
                        (rp_each (\<lambda>(dpid, w). rp_send (hostDpId r) dpid
                           [code_byte START_1E, word_of_nat (1 + wp_ordinalId w)]) (rp_dpPlayers r))
                 else rp_return ())
         (rp_return (t \<ge> 20 \<and> (\<forall>(dpid, w) \<in> set (rp_dpPlayers r). wp_state w = PLAYING))))))"

section \<open>The watchers' messages during the game\<close>

definition startBuildSonar :: bytestring where
  "startBuildSonar = [0x09, 0x46, 0x00, 0x31, 0x32, 0x00, 0x00, 0x50, 0x00, 0x00, 0x00, 0x02, 0x00, 0x00, 0x00, 0x90,
     0x00, 0x00, 0x00, 0xE9, 0x74, 0x00, 0x00]"

definition giveSonar :: bytestring where
  "giveSonar = [0x14, 0x31, 0x32, 0x33, 0x34, 0x35, 0x36, 0x00, 0x00, 0x00, 0x00, 0x46, 0x01, 0x00, 0x00, 0x00,
     0x00, 0x64, 0x7E, 0x00, 0x00, 0x00, 0x00, 0x00]"

text \<open>\<open>*(T*)&bs[i] = \<dots>\<close> inside the packet.\<close>

definition poke :: "nat \<Rightarrow> bytestring \<Rightarrow> bytestring \<Rightarrow> bytestring" where
  "poke i v bs = take i bs @ v @ drop (i + length v) bs"

text \<open>\<open>maxUnits\<close> of a header that was never read is indeterminate; the timer only gets here after one was.\<close>

definition createSonar :: "u32 \<Rightarrow> u32 \<Rightarrow> unit replay" where
  "createSonar receivingDpId n = rp_get (\<lambda>r. case (rp_header r, rp_demoPlayersById r) of
     (Some h, benefactor # _) \<Rightarrow>
       let unitNumber = hd_maxUnits h - 1 in
       rp_then (rp_send benefactor 0
           (poke 7 (le16 (ucast (n * 0xa0 + 0x50))) (poke 3 (le16 unitNumber)
             (poke 1 (le16 (word_of_nat (length (rp_demoUnitInfo r)))) startBuildSonar))))
         (rp_then (rp_send benefactor 0 (poke 1 (le16 unitNumber) [0x11, 0x05, 0x00, 0x01]))
           (rp_send benefactor 0 (poke 3 (le32 receivingDpId) (poke 1 (le16 unitNumber) giveSonar))))
   | _ \<Rightarrow> rp_fail Undefined)"

text \<open>\<open>find\<close> of a C string from position 1 on.\<close>

fun contains :: "bytestring \<Rightarrow> bytestring \<Rightarrow> bool" where
  "contains p [] = (p = [])"
| "contains p (b # s) = (take (length p) (b # s) = p \<or> contains p s)"

definition on_speed :: "replay_env \<Rightarrow> bytestring \<Rightarrow> Replayer \<Rightarrow> Replayer" where
  "on_speed env s r =
     (if s ! 1 = 0 \<and> s ! 2 = 1 then r\<lparr>rp_isPaused := True, rp_tickLastUserPauseEvent := rp_wallClockTicks r\<rparr>
      else if s ! 1 = 0 then r\<lparr>rp_isPaused := False, rp_tickLastUserPauseEvent := rp_wallClockTicks r\<rparr>
      else if s ! 2 = 19 then r\<lparr>rp_playBackSpeed := re_fl env (424 / 100)\<rparr>
      else if s ! 2 = 20 then r\<lparr>rp_playBackSpeed := 10\<rparr>
      else r\<lparr>rp_playBackSpeed := re_fl env (of_nat (unat (s ! 2)) / 10)\<rparr>)"

definition playing_subpak :: "replay_env \<Rightarrow> u32 \<Rightarrow> u32 \<Rightarrow> bytestring \<Rightarrow> unit replay" where
  "playing_subpak env sourceDplayId otherDplayId s =
     (case subPacketCode (s ! 0) of
        CHAT_05 \<Rightarrow>
          if contains (ascii ''> .total'') (drop 1 s)
          then rp_get (\<lambda>r. rp_each (\<lambda>p. say (pl_dpId p) (re_totalText env p)) (rp_demoPlayers r))
          else if contains (ascii ''> .pos'') (drop 1 s) then say otherDplayId (re_posText env)
          else rp_return ()
      | SPEED_19 \<Rightarrow> rp_modify (on_speed env s)
      | UNIT_STAT_AND_MOVE_2C \<Rightarrow> rp_opt (load32 s 3) (\<lambda>ticks. rp_get (\<lambda>r.
          case map_of (rp_dpPlayers r) sourceDplayId of
            None \<Rightarrow> rp_return ()
          | Some w \<Rightarrow>
              rp_then (if ticks \<ge> 100 \<and> wp_ticks w < 100
                       then createSonar sourceDplayId (word_of_nat (wp_ordinalId w) - word_of_nat (length (rp_demoPlayers r)))
                       else rp_return ())
                (rp_modify (update_watcher sourceDplayId (\<lambda>w. w\<lparr>wp_ticks := ticks\<rparr>)))))
      | _ \<Rightarrow> rp_return ())"

definition onPlayingTaMessage :: "replay_env \<Rightarrow> u32 \<Rightarrow> u32 \<Rightarrow> bytestring \<Rightarrow> unit replay" where
  "onPlayingTaMessage env sourceDplayId otherDplayId payload =
     rp_sum (received_subpaks payload) (each_subpak (playing_subpak env sourceDplayId otherDplayId))"

definition playing_messages :: "replay_env \<Rightarrow> dp_message list \<Rightarrow> unit replay" where
  "playing_messages env = rp_each (\<lambda>(fromId, toId, payload). rp_get (\<lambda>r.
     if toId = hostDpId r \<and> fromId \<notin> set (rp_demoPlayersById r) then onPlayingTaMessage env fromId toId payload
     else rp_return ()))"

section \<open>Playing a recorded packet\<close>

definition update_player :: "nat \<Rightarrow> (RecordedPlayer \<Rightarrow> RecordedPlayer) \<Rightarrow> Replayer \<Rightarrow> Replayer" where
  "update_player i f r = r\<lparr>rp_demoPlayers := (rp_demoPlayers r)[i := f (rp_demoPlayers r ! i)]\<rparr>"

text \<open>A chat message, told apart by its checksum, is dropped while the checksum is in the set.\<close>

fun expire_chat :: "u32 list \<Rightarrow> u32 set \<Rightarrow> u32 list \<times> u32 set" where
  "expire_chat [] recent = ([], recent)"
| "expire_chat (c # queue) recent =
     (if length (c # queue) > 16 then expire_chat queue (recent - {c}) else (c # queue, recent))"

definition remember_chat :: "u32 \<Rightarrow> Replayer \<Rightarrow> Replayer" where
  "remember_chat c r =
     (let (queue, recent) = expire_chat (rp_recentChatQueue r @ [c]) (insert c (rp_recentChatSet r))
      in r\<lparr>rp_recentChatQueue := queue, rp_recentChatSet := recent\<rparr>)"

definition signed_digits :: "int \<Rightarrow> bytestring" where
  "signed_digits n = (if n < 0 then ascii ''-'' @ digits (nat (- n)) else ascii ''+'' @ digits (nat n))"

definition speed_text :: "bytestring \<Rightarrow> byte \<Rightarrow> byte \<Rightarrow> bytestring" where
  "speed_text name b1 b2 =
     (if b1 = 0 \<and> b2 = 1 then name @ ascii '' paused the game''
      else if b1 = 0 then name @ ascii '' unpaused the game''
      else name @ ascii '' set speed to '' @ signed_digits (int (unat b2) - 10))"

text \<open>The tick of the most lagged player who is ahead of the replay, or the sender's.\<close>

definition next_demoTicks :: "u32 \<Rightarrow> Replayer \<Rightarrow> u32" where
  "next_demoTicks ticks r = foldl min ticks (filter (\<lambda>t. t > rp_demoTicks r) (map pl_ticks (rp_demoPlayers r)))"

definition share_resources :: "bytestring \<Rightarrow> nat \<Rightarrow> u32 \<Rightarrow> unit replay" where
  "share_resources move i amount = rp_opt (byte_at move 1) (\<lambda>type. rp_modify (update_player i (\<lambda>p.
     if type = 2 then p\<lparr>pl_metalShared := pl_metalShared p @ [amount]\<rparr>
     else p\<lparr>pl_energyShared := pl_energyShared p @ [amount]\<rparr>)))"

text \<open>One move of the packet: the result is what is fed to the watchers.\<close>

definition play_move :: "nat \<Rightarrow> bytestring \<Rightarrow> bytestring replay" where
  "play_move i move = rp_get (\<lambda>r. let sending = rp_demoPlayers r ! i; name = dp_name (pl_info sending) in
     rp_opt (byte_at move 0) (\<lambda>code. case subPacketCode code of
       CHAT_05 \<Rightarrow> rp_opt (load_bytes move 0 65) (\<lambda>bs. let c = FullCRC Initialize bs in
         rp_then (rp_modify (remember_chat c))
           (rp_return (if \<not> rp_nochat r \<and> c \<notin> rp_recentChatSet r then move else [])))
     | GIVE_UNIT_14 \<Rightarrow> rp_return []
     | SPEED_19 \<Rightarrow> rp_opt (byte_at move 1) (\<lambda>b1. rp_opt (byte_at move 2) (\<lambda>b2.
         rp_then (say (pl_dpId sending) (speed_text name b1 b2)) (rp_return [])))
     | REJECT_1B \<Rightarrow> rp_opt (load32 move 1) (\<lambda>originalDpId.
         rp_then (case getDemoPlayerByOriginalDpId originalDpId r of
                    None \<Rightarrow> rp_return ()
                  | Some j \<Rightarrow> say (pl_dpId sending) (name @ ascii '' rejected '' @ dp_name (pl_info (rp_demoPlayers r ! j))))
           (rp_return move))
     | UNIT_STAT_AND_MOVE_2C \<Rightarrow> rp_opt (load32 move 3) (\<lambda>ticks.
         rp_then (rp_modify (update_player i (\<lambda>p. p\<lparr>pl_ticks := ticks\<rparr>)))
           (rp_then (rp_modify (\<lambda>r. r\<lparr>rp_demoTicks := next_demoTicks ticks r\<rparr>)) (rp_return move)))
     | ALLY_CHAT_F9 \<Rightarrow> rp_opt (load32 move 1) (\<lambda>originalDpId.
         if length move < 9 then rp_fail (RuntimeError ''length_error'') else rp_return [])
     | PLAYER_RESOURCE_INFO_28 \<Rightarrow> rp_opt (load32 move 46) (\<lambda>metal. rp_opt (load32 move 34) (\<lambda>energy.
         rp_then (rp_modify (update_player i (\<lambda>p. p\<lparr>pl_metal := metal, pl_energy := energy\<rparr>))) (rp_return move)))
     | SHARE_RESOURCES_16 \<Rightarrow> rp_opt (load32 move 9) (\<lambda>originalDpId.
         rp_then (case getDemoPlayerByOriginalDpId originalDpId r of
                    None \<Rightarrow> rp_return ()
                  | Some j \<Rightarrow> rp_opt (load32 move 13) (share_resources move j))
           (rp_return move))
     | _ \<Rightarrow> rp_return move))"

fun play_moves :: "nat \<Rightarrow> bytestring list \<Rightarrow> bytestring replay" where
  "play_moves i [] = rp_return []"
| "play_moves i (move # moves) =
     rp_bind (play_move i move) (\<lambda>fed. rp_bind (play_moves i moves) (\<lambda>fed'. rp_return (fed @ fed')))"

definition play_sender :: "byte \<Rightarrow> Replayer \<Rightarrow> nat option" where
  "play_sender n r = (case filter (\<lambda>i. dp_number (pl_info (rp_demoPlayers r ! i)) = n) (rev [0..<length (rp_demoPlayers r)]) of
     [] \<Rightarrow> None | i # _ \<Rightarrow> Some i)"

definition play_packet :: "Packet \<Rightarrow> bytestring list \<Rightarrow> unit replay" where
  "play_packet pk moves = rp_get (\<lambda>r. case play_sender (pk_sender pk) r of
     None \<Rightarrow> rp_return ()
   | Some i \<Rightarrow> rp_bind (play_moves i moves) (\<lambda>filteredMoves.
       if filteredMoves = [] then rp_return () else sendUdp (pl_dpId (rp_demoPlayers r ! i)) 0 filteredMoves))"

section \<open>doPlay\<close>

definition due :: "Replayer \<Rightarrow> bool" where
  "due r = (sint (rp_targetTicks r - rp_demoTicks r) > 0)"

definition preload :: "unit replay" where
  "preload = rp_get (\<lambda>r. if length (rp_pending r) < NUM_PAKS_TO_PRELOAD
     then rp_bind (replay_parse NUM_PAKS_TO_PRELOAD) (\<lambda>_. rp_return ()) else rp_return ())"

definition next_rate :: "(rat \<Rightarrow> rat) \<Rightarrow> nat \<Rightarrow> rat \<Rightarrow> rat" where
  "next_rate fl n rate =
     min (max (fl (rate + (if n < NUM_PAKS_TO_PRELOAD div 4 then - fl (5 / 1000) else fl (5 / 1000)))) (1 / 2)) 1"

text \<open>A tick count of \<open>2 ^ 32\<close> or more does not fit: undefined.\<close>

definition advance_target :: "replay_env \<Rightarrow> unit replay" where
  "advance_target env = rp_get (\<lambda>r.
     let fl = re_fl env;
         frac = fl (rp_targetTicksFractional r + fl (fl (rp_rateControl r * rp_playBackSpeed r) * 1));
         target = fl (of_nat (unat (rp_targetTicks r)) + frac)
     in if 0 \<le> frac \<and> 0 \<le> target \<and> target < 2 ^ 32
        then rp_modify (\<lambda>r. r\<lparr>rp_targetTicks := word_of_int \<lfloor>target\<rfloor>, rp_targetTicksFractional := fl (frac - of_int \<lfloor>frac\<rfloor>)\<rparr>)
        else rp_fail Undefined)"

definition set_target :: "replay_env \<Rightarrow> unit replay" where
  "set_target env = rp_get (\<lambda>r.
     let dpTicks = foldl max 0 (map (\<lambda>(dpid, w). wp_ticks w) (rp_dpPlayers r)) in
     if \<not> rp_isPaused r \<and> (rp_pending r \<noteq> [] \<or> \<not> due r)
     then if rp_wallClockTicks r < 100
          then rp_modify (\<lambda>r. r\<lparr>rp_targetTicks := dpTicks + 1, rp_targetTicksFractional := 0\<rparr>)
          else advance_target env
     else rp_return ())"

text \<open>One round of the loop; the result tells whether a packet was played.\<close>

definition play_round :: "replay_env \<Rightarrow> dp_message list \<Rightarrow> bool replay" where
  "play_round env msgs = rp_then (playing_messages env msgs) (rp_then preload (rp_get (\<lambda>r.
     if rp_isPaused r \<or> \<not> due r then rp_return False
     else case rp_pending r of
       [] \<Rightarrow> rp_return False
     | (pk, moves) # pending \<Rightarrow> rp_then (play_packet pk moves)
         (rp_then (rp_modify (\<lambda>r. r\<lparr>rp_pending := tl (rp_pending r)\<rparr>)) (rp_return True)))))"

fun play_rounds :: "replay_env \<Rightarrow> dp_message list list \<Rightarrow> (unit option) replay" where
  "play_rounds env [] = rp_return None"
| "play_rounds env (msgs # inboxes) =
     rp_bind (play_round env msgs) (\<lambda>played. if played then play_rounds env inboxes else rp_return (Some ()))"

definition doPlay :: "replay_env \<Rightarrow> dp_message list list \<Rightarrow> (unit option) replay" where
  "doPlay env inboxes =
     rp_then preload
       (rp_then (rp_modify (\<lambda>r. r\<lparr>rp_rateControl := next_rate (re_fl env) (length (rp_pending r)) (rp_rateControl r)\<rparr>))
         (rp_then (set_target env) (play_rounds env inboxes)))"

section \<open>The timer\<close>

text \<open>
  \<open>timerEvent\<close>: what arrives in the tick is \<open>inboxes\<close>, of which the states before the game take the first. An exception
  is caught: the state it left remains.
\<close>

definition loaded :: "Replayer \<Rightarrow> bool" where
  "loaded r = (rp_pending r \<noteq> [] \<and> rp_demoPlayers r \<noteq> [] \<and> pl_originalDpId (last (rp_demoPlayers r)) \<noteq> 0)"

definition inbox :: "dp_message list list \<Rightarrow> dp_message list" where
  "inbox inboxes = (case inboxes of [] \<Rightarrow> [] | msgs # _ \<Rightarrow> msgs)"

definition tick_loading :: "unit replay" where
  "tick_loading = rp_get (\<lambda>r. if loaded r
     then rp_then onCompletedLoadingDemoPlayers (rp_modify (\<lambda>r. r\<lparr>rp_state := LOBBY, rp_wallClockTicks := 0\<rparr>))
     else rp_return ())"

definition tick_lobby :: "replay_env \<Rightarrow> dp_message list \<Rightarrow> unit replay" where
  "tick_lobby env msgs =
     rp_then (rp_get (\<lambda>r. if rp_launch r
          then rp_then (rp_modify (\<lambda>r. r\<lparr>rp_launch := False\<rparr>)) (rp_emit ReadyToJoin) else rp_return ()))
       (rp_bind (doLobby env msgs) (\<lambda>launching.
         if launching then rp_modify (\<lambda>r. r\<lparr>rp_state := LAUNCH\<rparr>) else rp_return ()))"

definition tick_load :: "dp_message list \<Rightarrow> unit replay" where
  "tick_load msgs = rp_bind (doLoad msgs) (\<lambda>allgo.
     if allgo then rp_then (rp_modify (\<lambda>r. r\<lparr>rp_state := PLAY, rp_wallClockTicks := 0\<rparr>)) (rp_emit TimerRestarted) else rp_return ())"

definition tick_launch :: "u32 \<times> u32 \<times> u32 \<times> u32 \<Rightarrow> dp_message list \<Rightarrow> unit replay" where
  "tick_launch sess msgs =
     rp_then (doLaunch sess) (rp_then (rp_modify (\<lambda>r. r\<lparr>rp_state := LOAD, rp_wallClockTicks := 0\<rparr>)) (tick_load msgs))"

definition replayer_timerEvent :: "replay_env \<Rightarrow> u32 \<times> u32 \<times> u32 \<times> u32 \<Rightarrow> dp_message list list \<Rightarrow> unit replay" where
  "replayer_timerEvent env sess inboxes =
     rp_then (rp_modify (\<lambda>r. r\<lparr>rp_wallClockTicks := rp_wallClockTicks r + 1\<rparr>))
       (rp_then (rp_get (\<lambda>r.
          if rp_state r \<noteq> PLAY \<and> rp_state r \<noteq> DONE \<and> rp_pending r = []
          then rp_bind (replay_parse NUM_PAKS_TO_PRELOAD) (\<lambda>_. rp_return ()) else rp_return ()))
         (rp_get (\<lambda>r. case rp_state r of
            LOADING_DEMO_PLAYERS \<Rightarrow> tick_loading
          | LOBBY \<Rightarrow> tick_lobby env (inbox inboxes)
          | LAUNCH \<Rightarrow> tick_launch sess (inbox inboxes)
          | LOAD \<Rightarrow> tick_load (inbox inboxes)
          | PLAY \<Rightarrow> rp_bind (doPlay env inboxes) (\<lambda>_. rp_return ())
          | DONE \<Rightarrow> rp_return ())))"

end
