(* ===== verification/Replayer_Laws.thy ===== *)
theory Replayer_Laws
  imports Replayer_Play
begin

text \<open>
  Which operations of the replayer leave which parts of its state alone. The locale \<open>message_frame\<close> is the contract of
  the messages: an observation of the state that looks at none of the fields messages and announcements are for is the
  same after them. It is interpreted on the parts the game is played from. It extends \<open>send_frame\<close>, the contract of sending.
\<close>

named_theorems frame_intros

section \<open>Runs of an operation\<close>

lemmas replay_defs = rp_return_def rp_fail_def rp_emit_def rp_modify_def rp_get_def

lemma rp_bind_cases:
  assumes "rp_bind m f r = (r', out, res)"
  obtains (fail) e where "m r = (r', out, Inl e)" and "res = Inl e"
  | (step) r1 out1 x out2 where "m r = (r1, out1, Inr x)" and "f x r1 = (r', out2, res)" and "out = out1 @ out2"
  using assms by (auto simp: rp_bind_def split: prod.splits sum.splits)

lemma rp_then_cases:
  assumes "rp_then m n r = (r', out, res)"
  obtains (fail) e where "m r = (r', out, Inl e)" and "res = Inl e"
  | (step) r1 out1 out2 where "m r = (r1, out1, Inr ())" and "n r1 = (r', out2, res)" and "out = out1 @ out2"
  using assms unfolding rp_then_def by (elim rp_bind_cases) auto

lemma rp_each_append: "rp_each f (xs @ ys) = rp_then (rp_each f xs) (rp_each f ys)"
  by (induction xs) (auto simp: fun_eq_iff rp_then_def rp_bind_def rp_return_def split: prod.splits sum.splits)

section \<open>Frames\<close>

definition frame :: "(Replayer \<Rightarrow> 'c) \<Rightarrow> 'a replay \<Rightarrow> bool" where
  "frame f m = (\<forall>r. f (fst (m r)) = f r)"

lemma frameD: "frame f m \<Longrightarrow> m r = (r', out, res) \<Longrightarrow> f r' = f r"
  unfolding frame_def by (metis fst_conv)

lemma frame_return [frame_intros]: "frame f (rp_return x)"
  by (simp add: frame_def rp_return_def)

lemma frame_fail [frame_intros]: "frame f (rp_fail e)"
  by (simp add: frame_def rp_fail_def)

lemma frame_emit [frame_intros]: "frame f (rp_emit e)"
  by (simp add: frame_def rp_emit_def)

lemma frame_modify [frame_intros]: "(\<And>r. f (g r) = f r) \<Longrightarrow> frame f (rp_modify g)"
  by (simp add: frame_def rp_modify_def)

lemma frame_get [frame_intros]: "(\<And>r. frame f (m r)) \<Longrightarrow> frame f (rp_get m)"
  by (simp add: frame_def rp_get_def)

lemma frame_bind [frame_intros]: "frame f m \<Longrightarrow> (\<And>x. frame f (n x)) \<Longrightarrow> frame f (rp_bind m n)"
  unfolding frame_def rp_bind_def by (auto split: prod.splits sum.splits) (metis fst_conv)+

lemma frame_then [frame_intros]: "frame f m \<Longrightarrow> frame f n \<Longrightarrow> frame f (rp_then m n)"
  by (simp add: rp_then_def frame_bind)

lemma frame_each [frame_intros]: "(\<And>x. frame f (m x)) \<Longrightarrow> frame f (rp_each m xs)"
  by (induction xs) (simp_all add: frame_return frame_then)

lemma frame_opt [frame_intros]: "(\<And>x. frame f (m x)) \<Longrightarrow> frame f (rp_opt v m)"
  by (simp add: rp_opt_def frame_fail split: option.splits)

lemma frame_sum [frame_intros]: "(\<And>x. frame f (m x)) \<Longrightarrow> frame f (rp_sum v m)"
  by (simp add: rp_sum_def frame_fail split: sum.splits)

lemma frame_if [frame_intros]: "(b \<Longrightarrow> frame f m) \<Longrightarrow> (\<not> b \<Longrightarrow> frame f n) \<Longrightarrow> frame f (if b then m else n)"
  by simp

lemma frame_option [frame_intros]: "frame f m \<Longrightarrow> (\<And>x. frame f (n x)) \<Longrightarrow> frame f (case v of None \<Rightarrow> m | Some x \<Rightarrow> n x)"
  by (simp split: option.splits)

lemma frame_prod [frame_intros]: "(\<And>a b. frame f (m a b)) \<Longrightarrow> frame f (case p of (a, b) \<Rightarrow> m a b)"
  by (simp split: prod.splits)

lemma frame_Let [frame_intros]: "(\<And>x. frame f (m x)) \<Longrightarrow> frame f (let x = v in m x)"
  by simp

section \<open>The contract of sending\<close>

text \<open>Sending, and with it the synchronisation of a watcher, counts packets and changes nothing else.\<close>

locale send_frame =
  fixes view :: "Replayer \<Rightarrow> 'c"
  assumes view_tcpSeq: "view (r\<lparr>rp_tcpSeq := a\<rparr>) = view r"
begin

lemma frame_dpSend [frame_intros]: "frame view (dpSend a b c d)"
  unfolding dpSend_def by (intro frame_intros)

lemma frame_send [frame_intros]: "frame view (rp_send a b c)"
  unfolding rp_send_def by (intro frame_intros) (simp add: view_tcpSeq)

lemma frame_say [frame_intros]: "frame view (say a b)"
  unfolding say_def sendUdp_def by (intro frame_intros)

lemma frame_sendUdp [frame_intros]: "frame view (sendUdp a b c)"
  unfolding sendUdp_def by (intro frame_intros)

lemma frame_ident3 [frame_intros]: "frame view (send_ident3 ids)"
  unfolding send_ident3_def by (intro frame_intros)

lemma frame_send_unit [frame_intros]: "frame view (send_unit host w)"
  unfolding send_unit_def by (intro frame_intros)

lemma frame_send_units [frame_intros]: "frame view (send_units host n w)"
  by (induction n arbitrary: w) (auto intro!: frame_intros)

lemma frame_send_acks [frame_intros]: "frame view (send_acks host n w)"
  by (induction n arbitrary: w) (auto intro!: frame_intros)

lemma frame_sync_parts [frame_intros]:
  "frame view (start_sync env host w)" "frame view (wait_receive_units host w)" "frame view (check_errors host w)"
  "frame view (wait_acks host w)" "frame view (wait_go env host w)"
  unfolding start_sync_def wait_receive_units_def check_errors_def wait_acks_def wait_go_def Let_def
  by (intro frame_intros)+

lemma frame_sync [frame_intros]: "frame view (doSyncWatcher env w)"
  unfolding doSyncWatcher_def Let_def
  by (rule frame_get) (auto intro!: frame_intros split: DpPlayerState.split)

end

section \<open>The contract of the messages\<close>

locale message_frame = send_frame view
  for view :: "Replayer \<Rightarrow> 'c" +
  assumes view_rands: "view (r\<lparr>rp_rands := b\<rparr>) = view r"
    and view_dpPlayers: "view (r\<lparr>rp_dpPlayers := c\<rparr>) = view r"
    and view_demoPlayers: "view (r\<lparr>rp_demoPlayers := d\<rparr>) = view r"
    and view_isPaused: "view (r\<lparr>rp_isPaused := e\<rparr>) = view r"
    and view_pauseEvent: "view (r\<lparr>rp_tickLastUserPauseEvent := k\<rparr>) = view r"
    and view_playBackSpeed: "view (r\<lparr>rp_playBackSpeed := s\<rparr>) = view r"
begin

lemmas view_simps = view_tcpSeq view_rands view_dpPlayers view_demoPlayers view_isPaused view_pauseEvent view_playBackSpeed

lemma view_update_watcher: "view (update_watcher dpid f r) = view r"
  by (simp add: update_watcher_def view_simps split: option.splits)

lemma frame_system [frame_intros]: "frame view (onLobbySystemMessage env payload)"
  unfolding onLobbySystemMessage_def by (intro frame_intros) (simp add: view_simps split: dp_sysmsg.splits)

lemma frame_each_subpak [frame_intros]: "(\<And>s. frame view (m s)) \<Longrightarrow> frame view (each_subpak m ss)"
  unfolding each_subpak_def by (intro frame_intros) assumption

lemma frame_lobby_subpak [frame_intros]: "frame view (lobby_subpak env a b s)"
  unfolding lobby_subpak_def
  by (cases "subPacketCode (s ! 0)"; simp; (intro frame_intros | simp add: view_simps view_update_watcher)+)

lemma frame_lobby_message [frame_intros]: "frame view (onLobbyTaMessage env a b s)"
  unfolding onLobbyTaMessage_def by (intro frame_intros)

lemma frame_lobby_messages [frame_intros]: "frame view (lobby_messages env msgs)"
  by (induction env msgs rule: lobby_messages.induct) (auto intro!: frame_intros)

lemma frame_sendPlayerInfos [frame_intros]: "frame view (sendPlayerInfos env)"
  unfolding sendPlayerInfos_def Let_def by (intro frame_intros) (simp add: give_ordinals_def view_simps)

lemma frame_sync_watchers [frame_intros]: "frame view (sync_watchers env ids)"
  by (induction env ids rule: sync_watchers.induct) (auto intro!: frame_intros simp: view_simps)

lemma frame_doLobby: "frame view (doLobby env msgs)"
  unfolding doLobby_def by (intro frame_intros)

lemma frame_doLaunch: "frame view (doLaunch sess)"
  unfolding doLaunch_def Let_def by (intro frame_intros) (simp add: view_update_watcher)

lemma frame_loading_messages [frame_intros]: "frame view (loading_messages msgs)"
  unfolding loading_messages_def onLoadingTaMessage_def loading_subpak_def
  by (intro frame_intros) (simp add: view_update_watcher)

lemma frame_doLoad: "frame view (doLoad msgs)"
  unfolding doLoad_def Let_def by (intro frame_intros)

lemma frame_createSonar [frame_intros]: "frame view (createSonar a b)"
  unfolding createSonar_def Let_def by (auto intro!: frame_intros split: list.splits option.splits)

lemma view_on_speed: "view (on_speed env s r) = view r"
  unfolding on_speed_def by (cases "s ! 1 = 0"; cases "s ! 2 = 1") (simp_all add: view_simps)

lemma frame_playing_subpak [frame_intros]: "frame view (playing_subpak env a b s)"
proof -
  have "frame view (rp_opt (load32 s 3) (\<lambda>ticks. rp_get (\<lambda>r.
      case map_of (rp_dpPlayers r) a of None \<Rightarrow> rp_return ()
      | Some w \<Rightarrow> rp_then (if ticks \<ge> 100 \<and> wp_ticks w < 100
          then createSonar a (word_of_nat (wp_ordinalId w) - word_of_nat (length (rp_demoPlayers r))) else rp_return ())
          (rp_modify (update_watcher a (\<lambda>w. w\<lparr>wp_ticks := ticks\<rparr>))))))"
    by (intro frame_intros view_update_watcher)
  moreover have "frame view (rp_modify (on_speed env s))" by (intro frame_intros view_on_speed)
  ultimately show ?thesis
    unfolding playing_subpak_def by (simp add: frame_intros split: SubPacketCode.split)
qed

lemma frame_playing_messages: "frame view (playing_messages env msgs)"
  unfolding playing_messages_def onPlayingTaMessage_def by (intro frame_intros)

end

text \<open>What the game is played from.\<close>

definition game_view where
  "game_view r = (rp_parser r, rp_stream r, rp_pending r, rp_rateControl r, rp_recentChatQueue r, rp_recentChatSet r,
     rp_state r, rp_demoTicks r, rp_targetTicks r, rp_wallClockTicks r, rp_demoUnitInfo r, rp_demoUnitInfoLinear r)"

interpretation gv: message_frame game_view
  by unfold_locales (simp_all add: game_view_def)

interpretation dv: send_frame rp_dpPlayers
  by unfold_locales simp

end
