(* ===== verification/Replayer_Progress.thy ===== *)
theory Replayer_Progress
  imports Replayer_Laws "HOL-Library.Sublist"
begin

text \<open>
  The progress of the replayer: how much its parser can still deliver, the bound this sets to the rounds of \<open>doPlay\<close>, and
  the invariant of its runs.
\<close>

section \<open>What the parser can still deliver\<close>

text \<open>A bound on the records that are still to come, plus the events handed over.\<close>

definition parse_budget :: "DemoScan \<Rightarrow> bytestring \<Rightarrow> nat" where
  "parse_budget p s = 2 * length s + reading (p_reader p) + length (p_events p)"

definition advances :: "DemoScan \<Rightarrow> bytestring \<Rightarrow> DemoScan \<Rightarrow> bytestring \<Rightarrow> bool" where
  "advances p s p' s' = (prefix (p_events p) (p_events p') \<and> parse_budget p' s' \<le> parse_budget p s)"

definition delivers :: "(DemoScan, unit) reader \<Rightarrow> bool" where
  "delivers run = (\<forall>p s p' s' res. run p s = (p', s', res) \<longrightarrow> advances p s p' s')"

lemma advances_refl [simp]: "advances p s p s"
  by (simp add: advances_def)

lemma advances_trans: "advances p s p1 s1 \<Longrightarrow> advances p1 s1 p2 s2 \<Longrightarrow> advances p s p2 s2"
  unfolding advances_def using prefix_order.trans le_trans by blast

definition adds_event :: "item \<Rightarrow> bool" where
  "adds_event f = (\<forall>data p p'. f data p = Inr p' \<longrightarrow> (\<exists>es. p_events p' = p_events p @ es \<and> length es \<le> 1))"

lemma deliversD:
  "delivers run \<Longrightarrow> run p s = (p', s', res) \<Longrightarrow> advances p s p' s'"
  unfolding delivers_def by blast

lemma read_record_budget:
  "read_record r s = (r', s', Inl e) \<Longrightarrow> reading r' \<le> 1 \<and> length s' \<le> length s \<and> rr_state r' = rr_state r"
  by (auto simp: read_record_def Let_def reading_def split: if_splits)

lemma read_reclen2_budget:
  "read_reclen2 r s = (r', s', Inl e) \<Longrightarrow> rr_state r = READ_RECLEN2 \<Longrightarrow> 2 * length s' + reading r' \<le> 2 * length s"
  by (auto simp: read_reclen2_def Let_def reading_def split: list.splits if_splits dest!: read_record_budget)

lemma demo_record_budget:
  assumes "demo_record r s = (r', s', Inl e)"
  shows "2 * length s' + reading r' \<le> 2 * length s + reading r"
proof (cases "rr_state r")
  case READ_RECLEN1
  show ?thesis
  proof (cases s)
    case (Cons b t)
    then show ?thesis
      using assms READ_RECLEN1 read_reclen2_budget [of "r\<lparr>rr_length := (b, snd (rr_length r)), rr_state := READ_RECLEN2\<rparr>" t r' s' e]
      by (auto simp: demo_record_def read_reclen1_def)
  qed (use assms READ_RECLEN1 in \<open>simp add: demo_record_def read_reclen1_def\<close>)
next
  case READ_RECLEN2
  then show ?thesis using assms by (auto simp: demo_record_def dest!: read_reclen2_budget)
next
  case READ_RECORD
  then show ?thesis using assms by (auto simp: demo_record_def reading_def dest!: read_record_budget)
qed

lemma delivers_read_item:
  assumes "adds_event f"
  shows "delivers (read_item f)"
  unfolding delivers_def
proof (intro allI impI)
  fix p s p' s' res
  assume run: "read_item f p s = (p', s', res)"
  obtain r t d where rec: "demo_record (p_reader p) s = (r, t, d)" by (metis prod_cases3)
  show "advances p s p' s'"
  proof (cases d)
    case (Inl e)
    then show ?thesis
      using run rec demo_record_budget [of "p_reader p" s r t e] by (auto simp: read_item_def parse_budget_def advances_def)
  next
    case (Inr data)
    then have less: "2 * length t + reading r < 2 * length s + reading (p_reader p)"
      using rec demo_record_shortens by metis
    show ?thesis
    proof (cases "f data (p\<lparr>p_reader := r\<rparr>)")
      case (Inl e)
      then show ?thesis using run rec Inr less by (auto simp: read_item_def parse_budget_def advances_def)
    next
      case (Inr q)
      then obtain es where "p_events q = p_events p @ es" "length es \<le> 1"
        using assms by (fastforce simp: adds_event_def)
      then show ?thesis
        using run rec Inr \<open>d = Inr data\<close> less by (auto simp: read_item_def parse_budget_def advances_def)
    qed
  qed
qed

lemma items_advance:
  "adds_event f \<Longrightarrow> items_loop cont f n p s = (p', s', res) \<Longrightarrow> advances p s p' s'"
proof (induction cont f n p s rule: items_loop.induct)
  case (1 cont f n p s)
  obtain p1 s1 d where ri: "read_item f p s = (p1, s1, d)" by (metis prod_cases3)
  have first: "advances p s p1 s1"
    by (rule deliversD [OF delivers_read_item [OF "1.prems"(1)] ri])
  show ?case
  proof (cases "cont n p")
    case True
    show ?thesis
    proof (cases d)
      case (Inl e)
      then show ?thesis using "1.prems"(2) True ri first by (simp add: items_loop.simps [of cont f n p s])
    next
      case (Inr u)
      then have next_round: "items_loop cont f (n + 1) p1 s1 = (p', s', res)"
        using "1.prems"(2) True ri by (simp add: items_loop.simps [of cont f n p s])
      have "advances p1 s1 p' s'"
        by (rule "1.IH" [OF True ri [symmetric] refl Inr "1.prems"(1) next_round])
      with first show ?thesis by (rule advances_trans)
    qed
  qed (use "1.prems"(2) in \<open>simp add: items_loop.simps [of cont f n p s]\<close>)
qed

lemma delivers_items: "adds_event f \<Longrightarrow> delivers (items_loop cont f n)"
  unfolding delivers_def using items_advance by blast

lemma delivers_seq:
  assumes "delivers f" and "delivers g"
  shows "delivers (seq_read f g)"
  unfolding delivers_def
proof (intro allI impI)
  fix p s p' s' res
  assume "seq_read f g p s = (p', s', res)"
  then show "advances p s p' s'"
    by (cases rule: seq_read_cases)
      (blast intro: deliversD [OF assms(1)] deliversD [OF assms(2)] advances_trans)+
qed

lemma adds_event_items:
  "adds_event header_item" "adds_event extraHeader_item" "adds_event sector_item" "adds_event player_item"
  "adds_event status_item" "adds_event unitData_item" "adds_event packet_item"
  unfolding adds_event_def header_item_def extraHeader_item_def sector_item_def player_item_def status_item_def
    unitData_item_def packet_item_def try_then_def opt_undef_def handle_def Let_def
  by (auto split: sum.splits option.splits)

lemma delivers_doParse: "delivers (doParse n)"
proof -
  have skip: "delivers (\<lambda>p s. if c p then run p s else (p, s, Inr ()))" if "delivers run" for c :: "DemoScan \<Rightarrow> bool" and run
    using that by (auto simp: delivers_def)
  have "delivers parse_header" "delivers parse_extraHeader"
    using skip [OF delivers_read_item [OF adds_event_items(1)], of "\<lambda>p. p_header p = None"]
      skip [OF delivers_read_item [OF adds_event_items(2)], of "\<lambda>p. demo_version p > 4 \<and> p_extraHeader p = None"]
    unfolding parse_header_def parse_extraHeader_def delivers_def by simp_all
  then show ?thesis
    unfolding doParse_def parse_front_def parse_sectors_def parse_players_def parse_statuses_def parse_unitData_def parse_packets_def
    by (intro delivers_seq delivers_items adds_event_items)
qed

lemma demo_parse_delivers:
  assumes "demo_parse n p s = (p', s', res)"
  shows "advances (scan p) s (scan p') s'"
proof -
  obtain sc t d where "doParse n (scan p) s = (sc, t, d)" by (metis prod_cases3)
  then show ?thesis
    using assms deliversD [OF delivers_doParse] by (auto simp: demo_parse_def Let_def split: if_splits)
qed

section \<open>Handing over the events\<close>

fun packets_of :: "demo_event list \<Rightarrow> (Packet \<times> bytestring list) list" where
  "packets_of [] = []"
| "packets_of (EvPacket pk unpaked n # es) = (pk, unpaked) # packets_of es"
| "packets_of (_ # es) = packets_of es"

lemma packets_of_append: "packets_of (xs @ ys) = packets_of xs @ packets_of ys"
  by (induction xs rule: packets_of.induct) simp_all

lemma frame_unit_data_loop:
  "(\<And>ud r. view (processUnitData ud r) = view r) \<Longrightarrow> frame view (unit_data_loop len bs)"
proof (induction len bs rule: unit_data_loop.induct)
  case (1 len bs)
  show ?case
    using 1 by (subst unit_data_loop.simps) (auto simp: rp_opt_def intro!: frame_intros split: option.splits)
qed

definition input_view where
  "input_view r = (rp_parser r, rp_stream r, rp_pending r)"

definition play_view where
  "play_view r = (rp_rateControl r, rp_recentChatQueue r, rp_recentChatSet r, rp_state r)"

lemma frame_handle_unitData:
  "frame input_view (handle_unitData bs)" "frame play_view (handle_unitData bs)"
  unfolding handle_unitData_def
  by (intro frame_intros frame_unit_data_loop;
      simp add: input_view_def play_view_def processUnitData_def finish_units_def Let_def split: prod.splits)+

lemma unit_data_loop_result:
  "unit_data_loop len bs r = (r', out, res) \<Longrightarrow> res = Inr () \<or> res = Inl Undefined"
proof (induction len bs arbitrary: r out rule: unit_data_loop.induct)
  case (1 len bs)
  then show ?case
    by (subst (asm) (2) unit_data_loop.simps)
      (auto simp: rp_opt_def replay_defs split: if_splits option.splits elim!: rp_then_cases)
qed

lemma handle_unitData_result: "handle_unitData bs r = (r', out, res) \<Longrightarrow> res = Inr () \<or> res = Inl Undefined"
  unfolding handle_unitData_def
  by (auto simp: rp_opt_def replay_defs split: option.splits elim!: rp_then_cases dest: unit_data_loop_result)

lemma replay_handle_pending:
  assumes "replay_handle e r = (r', out, res)"
  shows "rp_parser r' = rp_parser r \<and> rp_stream r' = rp_stream r \<and> play_view r' = play_view r \<and>
    length (rp_pending r') \<le> length (rp_pending r) + 1 \<and>
    (res \<noteq> Inl Undefined \<longrightarrow> res = Inr () \<and> rp_pending r' = rp_pending r @ packets_of [e])"
proof (cases e)
  case (EvUnitData ud)
  then have h: "handle_unitData (unitData ud) r = (r', out, res)" using assms by simp
  show ?thesis
    using frameD [OF frame_handle_unitData(1) h] frameD [OF frame_handle_unitData(2) h] handle_unitData_result [OF h] EvUnitData
    by (auto simp: input_view_def)
qed (use assms in \<open>auto simp: replay_defs handle_status_def play_view_def split: if_splits\<close>)

lemma replay_handles_pending:
  "rp_each replay_handle es r = (r', out, res) \<Longrightarrow>
   rp_parser r' = rp_parser r \<and> rp_stream r' = rp_stream r \<and> play_view r' = play_view r \<and>
   length (rp_pending r') \<le> length (rp_pending r) + length es \<and>
   (res \<noteq> Inl Undefined \<longrightarrow> res = Inr () \<and> rp_pending r' = rp_pending r @ packets_of es)"
proof (induction es arbitrary: r out)
  case (Cons e es)
  from Cons.prems have "rp_then (replay_handle e) (rp_each replay_handle es) r = (r', out, res)" by simp
  then show ?case
  proof (cases rule: rp_then_cases)
    case (fail err)
    then show ?thesis using replay_handle_pending [of e r r' out "Inl err"] by auto
  next
    case (step r1 out1 out2)
    show ?thesis
      using replay_handle_pending [OF step(1)] Cons.IH [OF step(2)] packets_of_append [of "[e]" es] by auto
  qed
qed (simp add: rp_return_def)

section \<open>The budget of the replayer\<close>

definition budget :: "Replayer \<Rightarrow> nat" where
  "budget r = 2 * length (rp_stream r) + reading (p_reader (scan (rp_parser r))) + length (rp_pending r)"

definition parsed :: "Replayer \<Rightarrow> (Packet \<times> bytestring list) list" where
  "parsed r = packets_of (p_events (scan (rp_parser r)))"

lemma replay_parse_effect:
  assumes "replay_parse n r = (r', out, res)"
  shows "budget r' \<le> budget r \<and> play_view r' = play_view r \<and>
    (res \<noteq> Inl Undefined \<longrightarrow> (\<exists>news. parsed r' = parsed r @ news \<and> rp_pending r' = rp_pending r @ news))"
proof -
  obtain p s d where dp: "demo_parse n (rp_parser r) (rp_stream r) = (p, s, d)" by (metis prod_cases3)
  have adv: "advances (scan (rp_parser r)) (rp_stream r) (scan p) s" by (rule demo_parse_delivers [OF dp])
  then obtain news where news: "p_events (scan p) = p_events (scan (rp_parser r)) @ news"
    by (auto simp: advances_def prefix_def)
  define r0 where "r0 = r\<lparr>rp_parser := p, rp_stream := s\<rparr>"
  obtain r1 out1 d1 where ev: "rp_each replay_handle news r0 = (r1, out1, d1)" by (metis prod_cases3)
  have res: "r' = r1 \<and> (d1 = Inr () \<longrightarrow> res = d) \<and> (\<forall>e. d1 = Inl e \<longrightarrow> res = Inl e)"
    using assms dp news ev unfolding r0_def
    by (auto simp: replay_parse_def replay_defs rp_then_def rp_bind_def rp_sum_def split: sum.splits)
  note h = replay_handles_pending [OF ev]
  have "budget r' \<le> budget r"
    using res h adv news by (auto simp: budget_def advances_def parse_budget_def r0_def)
  moreover have "play_view r' = play_view r" using res h by (simp add: r0_def play_view_def)
  moreover have "\<exists>news. parsed r' = parsed r @ news \<and> rp_pending r' = rp_pending r @ news" if "res \<noteq> Inl Undefined"
  proof -
    have "d1 \<noteq> Inl Undefined" using that res by auto
    then show ?thesis
      using res h news by (intro exI [of _ "packets_of news"]) (auto simp: parsed_def r0_def packets_of_append)
  qed
  ultimately show ?thesis by blast
qed

lemma preload_effect:
  assumes "preload r = (r', out, res)"
  shows "budget r' \<le> budget r \<and> play_view r' = play_view r \<and>
    (res \<noteq> Inl Undefined \<longrightarrow> (\<exists>news. parsed r' = parsed r @ news \<and> rp_pending r' = rp_pending r @ news))"
proof (cases "length (rp_pending r) < NUM_PAKS_TO_PRELOAD")
  case True
  then have "rp_bind (replay_parse NUM_PAKS_TO_PRELOAD) (\<lambda>_. rp_return ()) r = (r', out, res)"
    using assms by (simp add: preload_def rp_get_def)
  then show ?thesis
  proof (cases rule: rp_bind_cases)
    case (fail e)
    then show ?thesis using replay_parse_effect by blast
  next
    case (step r1 out1 x out2)
    then show ?thesis using replay_parse_effect [OF step(1)] by (auto simp: rp_return_def)
  qed
qed (use assms in \<open>simp add: preload_def replay_defs\<close>)

section \<open>Playing a packet\<close>

locale play_frame =
  fixes view :: "Replayer \<Rightarrow> 'c"
  assumes view_players: "view (r\<lparr>rp_demoPlayers := a\<rparr>) = view r"
    and view_demoTicks: "view (r\<lparr>rp_demoTicks := b\<rparr>) = view r"
    and view_chat: "view (r\<lparr>rp_recentChatQueue := q, rp_recentChatSet := t\<rparr>) = view r"
begin

lemma view_update_player: "view (update_player i f r) = view r"
  by (simp add: update_player_def view_players)

lemma view_remember: "view (remember_chat c r) = view r"
  by (simp add: remember_chat_def view_chat split: prod.splits)

lemma frame_dpSend_play [frame_intros]: "frame view (dpSend a b c d)"
  unfolding dpSend_def by (intro frame_intros)

lemma frame_say_play [frame_intros]: "frame view (say a b)" "frame view (sendUdp a b' c)"
  unfolding say_def sendUdp_def by (intro frame_intros)+

lemma frame_play_move: "frame view (play_move i move)"
  unfolding play_move_def Let_def share_resources_def
  by (intro frame_get frame_opt)
    (auto intro!: frame_intros simp: view_update_player view_remember view_demoTicks split: SubPacketCode.split option.split)

lemma frame_play_moves: "frame view (play_moves i moves)"
  by (induction moves) (auto intro!: frame_intros frame_play_move)

lemma frame_play_packet: "frame view (play_packet pk moves)"
  unfolding play_packet_def by (intro frame_intros frame_play_moves)

end

definition outer_view where
  "outer_view r = (rp_parser r, rp_stream r, rp_pending r, rp_rateControl r, rp_state r)"

interpretation ov: play_frame outer_view
  by unfold_locales (simp_all add: outer_view_def)


lemma playing_messages_view: "playing_messages env msgs r = (r', out, res) \<Longrightarrow> game_view r' = game_view r"
  by (rule frameD [OF gv.frame_playing_messages])

lemma budget_view: "outer_view r' = outer_view r \<Longrightarrow> budget r' = budget r"
  by (simp add: outer_view_def budget_def)

lemma game_view_budget: "game_view r' = game_view r \<Longrightarrow> budget r' = budget r"
  by (simp add: game_view_def budget_def)

text \<open>A round never raises the budget, and a round that plays a packet lowers it.\<close>

lemma play_round_budget:
  assumes "play_round env msgs r = (r', out, res)"
  shows "budget r' \<le> budget r \<and> (res = Inr True \<longrightarrow> budget r' < budget r)"
  using assms unfolding play_round_def
proof (cases rule: rp_then_cases)
  case (fail e)
  then show ?thesis using game_view_budget [OF playing_messages_view [OF fail(1)]] by simp
next
  case (step r1 out1 out2)
  have b1: "budget r1 = budget r" using playing_messages_view [OF step(1)] game_view_budget by blast
  from step(2) show ?thesis
  proof (cases rule: rp_then_cases)
    case (fail e)
    then show ?thesis using preload_effect [OF fail(1)] b1 by simp
  next
    case (step r2 out3 out4)
    have b2: "budget r2 \<le> budget r1" using preload_effect [OF step(1)] by blast
    show ?thesis
    proof (cases "rp_isPaused r2 \<or> \<not> due r2 \<or> rp_pending r2 = []")
      case True
      then show ?thesis using step(2) b1 b2 by (auto simp: replay_defs split: list.splits if_splits)
    next
      case False
      then obtain pk moves rest where pend: "rp_pending r2 = (pk, moves) # rest" by (cases "rp_pending r2") auto
      with False step(2) have "rp_then (play_packet pk moves)
          (rp_then (rp_modify (\<lambda>r. r\<lparr>rp_pending := tl (rp_pending r)\<rparr>)) (rp_return True)) r2 = (r', out4, res)"
        by (simp add: rp_get_def)
      then show ?thesis
      proof (cases rule: rp_then_cases)
        case (fail e)
        then have "budget r' = budget r2" using frameD [OF ov.frame_play_packet] budget_view by metis
        then show ?thesis using fail b1 b2 by simp
      next
        case (step r3 out5 out6)
        then have "outer_view r3 = outer_view r2" using frameD [OF ov.frame_play_packet] by metis
        then show ?thesis
          using step(2) b1 b2 pend by (auto simp: rp_then_def rp_bind_def replay_defs outer_view_def budget_def)
      qed
    qed
  qed
qed

lemma play_rounds_finish:
  "budget r < length inboxes \<Longrightarrow> snd (snd (play_rounds env inboxes r)) \<noteq> Inr None"
proof (induction inboxes arbitrary: r)
  case (Cons msgs inboxes)
  obtain r1 out1 d where pr: "play_round env msgs r = (r1, out1, d)" by (metis prod_cases3)
  then show ?case
    using play_round_budget [OF pr] Cons.IH [of r1] Cons.prems
    by (auto simp: rp_bind_def rp_return_def split: sum.splits prod.splits)
qed simp

lemma set_target_budget: "set_target env r = (r', out, res) \<Longrightarrow> budget r' = budget r"
  by (auto simp: set_target_def advance_target_def replay_defs budget_def Let_def split: if_splits)

text \<open>C3. \<open>doPlay\<close> returns, whatever the watchers send while it runs: the packets that are waiting and the bytes of the
  recording that are not yet read bound the number of its rounds, and with an inbox for each of them it comes to its
  end (or to an exception).\<close>

theorem doPlay_terminates:
  assumes "2 * length (rp_stream r) + length (rp_pending r) + 1 < length inboxes"
  shows "snd (snd (doPlay env inboxes r)) \<noteq> Inr None"
proof
  have reading: "reading (p_reader (scan (rp_parser r))) \<le> 1" by (simp add: reading_def)
  assume none: "snd (snd (doPlay env inboxes r)) = Inr None"
  then obtain r' out where "doPlay env inboxes r = (r', out, Inr None)" by (metis prod.collapse)
  then show False
    unfolding doPlay_def
  proof (elim rp_then_cases; clarsimp)
    fix r1 o1 r2 o2 r3 o3 o4
    assume "preload r = (r1, o1, Inr ())"
      and "rp_modify (\<lambda>r. r\<lparr>rp_rateControl := next_rate (re_fl env) (length (rp_pending r)) (rp_rateControl r)\<rparr>) r1 = (r2, o2, Inr ())"
      and "set_target env r2 = (r3, o3, Inr ())" and rounds: "play_rounds env inboxes r3 = (r', o4, Inr None)"
    then have "budget r3 \<le> budget r"
      using preload_effect [of r r1 o1 "Inr ()"] set_target_budget [of env r2 r3 o3 "Inr ()"]
      by (auto simp: rp_modify_def budget_def)
    then have "budget r3 < length inboxes" using assms reading by (simp add: budget_def)
    then show False using play_rounds_finish [of r3 inboxes env] rounds by simp
  qed
qed

theorem doPlay_terminates_witness: "\<forall>env. snd (snd (doPlay env [[], []] Replayer_new)) \<noteq> Inr None"
proof
  fix env
  show "snd (snd (doPlay env [[], []] Replayer_new)) \<noteq> Inr None"
    by (rule doPlay_terminates) (simp add: Replayer_new_def)
qed

section \<open>The memory of chat messages\<close>

definition chat_ok :: "Replayer \<Rightarrow> bool" where
  "chat_ok r = (length (rp_recentChatQueue r) \<le> 16 \<and> rp_recentChatSet r \<subseteq> set (rp_recentChatQueue r))"

lemma expire_chat_ok:
  "t \<subseteq> set q \<Longrightarrow> length (fst (expire_chat q t)) \<le> 16 \<and> snd (expire_chat q t) \<subseteq> set (fst (expire_chat q t))"
proof (induction q t rule: expire_chat.induct)
  case (2 c queue recent)
  then show ?case by (cases "length (c # queue) > 16") auto
qed simp

lemma remember_chat_fields:
  "rp_recentChatQueue (remember_chat c r) = fst (expire_chat (rp_recentChatQueue r @ [c]) (insert c (rp_recentChatSet r)))"
  "rp_recentChatSet (remember_chat c r) = snd (expire_chat (rp_recentChatQueue r @ [c]) (insert c (rp_recentChatSet r)))"
  by (simp_all add: remember_chat_def split: prod.splits)

lemma remember_chat_ok: "chat_ok r \<Longrightarrow> chat_ok (remember_chat c r)"
proof -
  assume "chat_ok r"
  then have "insert c (rp_recentChatSet r) \<subseteq> set (rp_recentChatQueue r @ [c])" by (auto simp: chat_ok_def)
  then show ?thesis using expire_chat_ok unfolding chat_ok_def remember_chat_fields by blast
qed

lemma expire_replicate: "expire_chat (replicate (16 + n) c) {c} = (replicate 16 c, if n = 0 then {c} else {})"
proof -
  have gone: "expire_chat (replicate (16 + m) c) {} = (replicate 16 c, {})" for m
    by (induction m) (simp_all add: numeral_eq_Suc)
  show ?thesis
    by (cases n) (use gone [of "n - 1"] in \<open>simp_all add: numeral_eq_Suc\<close>)
qed



section \<open>Runs\<close>

text \<open>The replayer's runs: the file may grow, and the timer ticks. A run ends with undefined behaviour.\<close>

inductive replayer_run :: "Replayer \<Rightarrow> bool" where
  start: "hostGame initialised attempts (setNoChat nochat Replayer_new) = (r, out, res) \<Longrightarrow> replayer_run r"
| grow: "replayer_run r \<Longrightarrow> replayer_run (r\<lparr>rp_stream := rp_stream r @ bs\<rparr>)"
| tick: "replayer_run r \<Longrightarrow> replayer_timerEvent env sess inboxes r = (r', out, res) \<Longrightarrow> res \<noteq> Inl Undefined \<Longrightarrow> replayer_run r'"

definition replayer_ok :: "Replayer \<Rightarrow> bool" where
  "replayer_ok r = (1 / 2 \<le> rp_rateControl r \<and> rp_rateControl r \<le> 1 \<and> chat_ok r \<and> suffix (rp_pending r) (parsed r) \<and>
     rp_state r \<noteq> DONE)"

definition maintains :: "(Replayer \<Rightarrow> bool) \<Rightarrow> 'a replay \<Rightarrow> bool" where
  "maintains I m = (\<forall>r r' out res. m r = (r', out, res) \<longrightarrow> res \<noteq> Inl Undefined \<longrightarrow> I r \<longrightarrow> I r')"

named_theorems maintains_intros

lemma maintainsD: "maintains I m \<Longrightarrow> m r = (r', out, res) \<Longrightarrow> res \<noteq> Inl Undefined \<Longrightarrow> I r \<Longrightarrow> I r'"
  unfolding maintains_def by blast

lemma maintains_simple [maintains_intros]:
  "maintains I (rp_return x)" "maintains I (rp_fail e)" "maintains I (rp_emit ev)"
  by (simp_all add: maintains_def replay_defs)

lemma maintains_modify [maintains_intros]: "(\<And>r. I r \<Longrightarrow> I (f r)) \<Longrightarrow> maintains I (rp_modify f)"
  by (auto simp: maintains_def rp_modify_def)

lemma maintains_get [maintains_intros]: "(\<And>r. maintains I (m r)) \<Longrightarrow> maintains I (rp_get m)"
  by (auto simp: maintains_def rp_get_def)

lemma maintains_bind [maintains_intros]:
  assumes "maintains I m" and "\<And>x. maintains I (n x)"
  shows "maintains I (rp_bind m n)"
  unfolding maintains_def
proof (intro allI impI)
  fix r r' out res
  assume "rp_bind m n r = (r', out, res)" and ok: "res \<noteq> Inl Undefined" "I r"
  then show "I r'"
  proof (cases rule: rp_bind_cases)
    case (fail e)
    then show ?thesis using maintainsD [OF assms(1) fail(1)] ok by simp
  next
    case (step r1 out1 x out2)
    have "I r1" using maintainsD [OF assms(1) step(1)] ok by simp
    then show ?thesis using maintainsD [OF assms(2) step(2)] ok by simp
  qed
qed

lemma maintains_then [maintains_intros]: "maintains I m \<Longrightarrow> maintains I n \<Longrightarrow> maintains I (rp_then m n)"
  by (simp add: rp_then_def maintains_bind)

lemma maintains_each [maintains_intros]: "(\<And>x. maintains I (m x)) \<Longrightarrow> maintains I (rp_each m xs)"
  by (induction xs) (simp_all add: maintains_simple maintains_then)

lemma maintains_opt [maintains_intros]: "(\<And>x. maintains I (m x)) \<Longrightarrow> maintains I (rp_opt v m)"
  by (simp add: rp_opt_def maintains_simple split: option.splits)

lemma maintains_if [maintains_intros]: "(b \<Longrightarrow> maintains I m) \<Longrightarrow> (\<not> b \<Longrightarrow> maintains I n) \<Longrightarrow> maintains I (if b then m else n)"
  by simp

lemma maintains_list [maintains_intros]:
  "maintains I m \<Longrightarrow> (\<And>x xs. maintains I (n x xs)) \<Longrightarrow> maintains I (case v of [] \<Rightarrow> m | x # xs \<Rightarrow> n x xs)"
  by (simp split: list.splits)

lemma maintains_prod [maintains_intros]: "(\<And>a b. maintains I (m a b)) \<Longrightarrow> maintains I (case p of (a, b) \<Rightarrow> m a b)"
  by (simp split: prod.splits)

lemma maintains_frame:
  assumes "frame view m" and "\<And>r r'. view r' = view r \<Longrightarrow> I r \<Longrightarrow> I r'"
  shows "maintains I m"
  using assms frameD unfolding maintains_def by metis

text \<open>The invariant is a statement about this part of the state.\<close>

lemma replayer_ok_cong: "game_view r' = game_view r \<Longrightarrow> replayer_ok r \<Longrightarrow> replayer_ok r'"
  by (simp add: game_view_def replayer_ok_def chat_ok_def parsed_def)

lemmas ok_frame = maintains_frame [OF _ replayer_ok_cong]

lemma maintains_parse: "maintains replayer_ok (replay_parse n)"
  unfolding maintains_def
proof (intro allI impI)
  fix r r' out and res :: "cpp_error + bool"
  assume "replay_parse n r = (r', out, res)" and "res \<noteq> Inl Undefined" and ok: "replayer_ok r"
  with replay_parse_effect obtain news where "parsed r' = parsed r @ news" "rp_pending r' = rp_pending r @ news" "play_view r' = play_view r"
    by metis
  then show "replayer_ok r'"
    using ok by (auto simp: replayer_ok_def chat_ok_def play_view_def suffix_def)
qed

lemma maintains_preload: "maintains replayer_ok preload"
  unfolding preload_def by (intro maintains_intros maintains_parse)

lemma maintains_play_move: "maintains replayer_ok (play_move i move)"
proof -
  have update: "replayer_ok (update_player j f r)" "replayer_ok (r\<lparr>rp_demoTicks := t\<rparr>)" "replayer_ok (remember_chat c r)"
    if "replayer_ok r" for j f r t c
    using that remember_chat_ok [of r c]
    by (auto simp: replayer_ok_def update_player_def chat_ok_def parsed_def remember_chat_def split: prod.splits)
  have "maintains replayer_ok (say a b)" for a b by (rule ok_frame [OF gv.frame_say])
  then show ?thesis
    unfolding play_move_def Let_def share_resources_def
    by (intro maintains_get maintains_opt)
      (auto intro!: maintains_intros simp: update split: SubPacketCode.split option.split)
qed

lemma maintains_play_moves: "maintains replayer_ok (play_moves i moves)"
  by (induction moves) (auto intro!: maintains_intros maintains_play_move)

lemma maintains_play_packet: "maintains replayer_ok (play_packet pk moves)"
  unfolding play_packet_def
  by (auto intro!: maintains_intros maintains_play_moves ok_frame [OF gv.frame_sendUdp] split: option.split)

lemma maintains_play_round: "maintains replayer_ok (play_round env msgs)"
proof -
  have pop: "replayer_ok (r\<lparr>rp_pending := tl (rp_pending r)\<rparr>)" if "replayer_ok r" for r
    using that suffix_order.trans [OF suffix_tl] by (auto simp: replayer_ok_def chat_ok_def parsed_def)
  show ?thesis
    unfolding play_round_def
    by (intro maintains_intros maintains_preload maintains_play_packet ok_frame [OF gv.frame_playing_messages] pop)
qed

lemma maintains_play_rounds: "maintains replayer_ok (play_rounds env inboxes)"
  by (induction inboxes) (auto intro!: maintains_intros maintains_play_round)

lemma next_rate_bounds: "1 / 2 \<le> next_rate fl n rate \<and> next_rate fl n rate \<le> 1"
  by (simp add: next_rate_def)

lemma maintains_doPlay: "maintains replayer_ok (doPlay env inboxes)"
proof -
  have "maintains replayer_ok (set_target env)"
    unfolding set_target_def advance_target_def Let_def
    by (intro maintains_intros) (auto simp: replayer_ok_def chat_ok_def parsed_def)
  moreover have rate: "replayer_ok (r\<lparr>rp_rateControl := next_rate (re_fl env) (length (rp_pending r)) (rp_rateControl r)\<rparr>)"
    if "replayer_ok r" for r
    using that next_rate_bounds unfolding replayer_ok_def chat_ok_def parsed_def by simp
  ultimately show ?thesis
    unfolding doPlay_def
    by (intro maintains_intros maintains_preload maintains_play_rounds rate)
qed

lemma maintains_tick: "maintains replayer_ok (replayer_timerEvent env sess inboxes)"
proof -
  have same: "replayer_ok (r\<lparr>rp_wallClockTicks := t\<rparr>)" "replayer_ok (r\<lparr>rp_launch := b\<rparr>)"
    "replayer_ok (r\<lparr>rp_state := st, rp_wallClockTicks := t\<rparr>)" "replayer_ok (r\<lparr>rp_state := st\<rparr>)"
    "replayer_ok (r\<lparr>rp_demoPlayers := ps, rp_demoPlayersById := ids, rp_dpIdsPrealloc := pre\<rparr>)"
    if "replayer_ok r" "st \<noteq> DONE" for r t b st ps ids pre
    using that by (auto simp: replayer_ok_def chat_ok_def parsed_def)
  have "maintains replayer_ok tick_loading"
    unfolding tick_loading_def onCompletedLoadingDemoPlayers_def Let_def
    by (intro maintains_intros same [where st = LOBBY]) simp_all
  moreover have "maintains replayer_ok (tick_lobby env msgs)" for msgs
    unfolding tick_lobby_def
    by (intro maintains_intros ok_frame [OF gv.frame_doLobby] same [where st = LAUNCH]) simp_all
  moreover have load: "maintains replayer_ok (tick_load msgs)" for msgs
    unfolding tick_load_def
    by (intro maintains_intros ok_frame [OF gv.frame_doLoad] same [where st = PLAY]) simp_all
  moreover have "maintains replayer_ok (tick_launch sess msgs)" for msgs
    unfolding tick_launch_def
    by (intro maintains_intros ok_frame [OF gv.frame_doLaunch] load same [where st = LOAD]) simp_all
  ultimately show ?thesis
    unfolding replayer_timerEvent_def
    by (auto intro!: maintains_intros maintains_parse maintains_doPlay same [where st = LOBBY] split: ReplayState.split)
qed


lemma hostGame_view: "frame game_view (hostGame initialised attempts)"
proof -
  have "frame game_view (host_attempts as)" for as
    by (induction as rule: host_attempts.induct) (auto intro!: frame_intros simp: game_view_def Let_def)
  then show ?thesis
    unfolding hostGame_def by (auto intro!: frame_intros simp: game_view_def)
qed

lemma replayer_run_ok: "replayer_run r \<Longrightarrow> replayer_ok r"
proof (induction rule: replayer_run.induct)
  case (start initialised attempts nochat r out res)
  have "replayer_ok (setNoChat nochat Replayer_new)"
    by (simp add: replayer_ok_def setNoChat_def Replayer_new_def chat_ok_def)
  then show ?case by (rule replayer_ok_cong [OF frameD [OF hostGame_view start]])
next
  case (grow r bs)
  then show ?case by (simp add: replayer_ok_def chat_ok_def parsed_def)
next
  case (tick r env sess inboxes r' out res)
  then show ?case using maintainsD [OF maintains_tick] by blast
qed



end
