(* ===== verification/Replayer_Sync.thy ===== *)
theory Replayer_Sync
  imports Replayer_Progress
begin

text \<open>
  The lobby of the replayer: what a watcher receives, when the game is launched, and how the synchronisation of the units goes
  through its states.
\<close>

section \<open>What a watcher receives\<close>

lemma fast_loop_concat: "\<forall>s \<in> set ss. well_sized s \<Longrightarrow> fast_loop k (concat ss) = Inr ss"
proof (induction ss)
  case Nil
  show ?case by (simp add: fast_loop.simps)
next
  case (Cons s ss)
  then show ?case using fast_loop_other [of s k "concat ss"] by simp
qed



section \<open>The launch\<close>

definition ready :: "replay_env \<Rightarrow> Watcher \<Rightarrow> bool" where
  "ready env w = (wp_state w = WAIT_GO \<and> (case TPlayerInfo_parse (re_garbage env) (wp_statusPacket w) of
     None \<Rightarrow> False | Some info \<Rightarrow> isClickedIn info \<and> (\<not> isWatcher info \<or> wp_warned w = PROCEED_REGARDLESS)))"

lemma unready_result:
  "rp_bind m (\<lambda>w. rp_return (0, w)) r = (r', out, Inr (go, w')) \<Longrightarrow> go = 0"
  by (elim rp_bind_cases) (auto simp: rp_return_def)

text \<open>A watcher counts at most once, and only if it is ready; then it stays as it was.\<close>

lemma doSyncWatcher_go:
  assumes "doSyncWatcher env w r = (r', out, Inr (go, w'))"
  shows "go = 0 \<or> go = 1 \<and> w' = w \<and> ready env w"
proof (cases "wp_state w")
  case WAIT_GO
  then have "wait_go env (hostDpId r) w r = (r', out, Inr (go, w'))"
    using assms by (simp add: doSyncWatcher_def rp_get_def Let_def)
  then show ?thesis
    unfolding wait_go_def
    by (auto simp: rp_opt_def replay_defs ready_def WAIT_GO split: option.splits if_splits elim!: rp_then_cases)
qed (use assms in \<open>auto simp: doSyncWatcher_def rp_get_def rp_return_def Let_def dest!: unready_result\<close>)

lemma sync_watchers_all:
  assumes "sync_watchers env ids r = (r', out, Inr n)" and "distinct ids"
  shows "n \<le> length ids \<and>
    (\<forall>dpid. dpid \<notin> set ids \<longrightarrow> map_of (rp_dpPlayers r') dpid = map_of (rp_dpPlayers r) dpid) \<and>
    dom (map_of (rp_dpPlayers r')) = dom (map_of (rp_dpPlayers r)) \<and> (std_ok (rp_dpPlayers r) \<longrightarrow> std_ok (rp_dpPlayers r')) \<and>
    (n = length ids \<longrightarrow> (\<forall>dpid \<in> set ids. \<exists>w. map_of (rp_dpPlayers r') dpid = Some w \<and> ready env w))"
  using assms
proof (induction ids arbitrary: r out n)
  case (Cons dpid ids)
  then obtain w where w: "map_of (rp_dpPlayers r) dpid = Some w"
    by (auto simp: replay_defs rp_opt_def split: option.splits)
  with Cons.prems(1) obtain r1 out1 go w1 n1 where
    one: "doSyncWatcher env w r = (r1, out1, Inr (go, w1))" and
    rest: "\<exists>out. sync_watchers env ids (r1\<lparr>rp_dpPlayers := std_put dpid w1 (rp_dpPlayers r1)\<rparr>) = (r', out, Inr n1)" and
    sum: "n = go + n1"
    by (auto simp: replay_defs rp_opt_def elim!: rp_bind_cases rp_then_cases)
  define r2 where "r2 = r1\<lparr>rp_dpPlayers := std_put dpid w1 (rp_dpPlayers r1)\<rparr>"
  have same: "rp_dpPlayers r1 = rp_dpPlayers r" by (rule frameD [OF dv.frame_sync one])
  from rest obtain out2 where "sync_watchers env ids r2 = (r', out2, Inr n1)" unfolding r2_def by blast
  note IH = Cons.IH [OF this]
  have d: "distinct ids" "dpid \<notin> set ids" using Cons.prems(2) by auto
  have m2: "map_of (rp_dpPlayers r2) = (map_of (rp_dpPlayers r))(dpid \<mapsto> w1)" by (simp add: r2_def same)
  have n1: "n1 \<le> length ids" using IH d by blast
  have mine: "map_of (rp_dpPlayers r') dpid = Some w1" using IH d m2 by auto
  show ?case
  proof (intro conjI)
    show "n \<le> length (dpid # ids)" using doSyncWatcher_go [OF one] n1 sum by auto
    show "\<forall>k. k \<notin> set (dpid # ids) \<longrightarrow> map_of (rp_dpPlayers r') k = map_of (rp_dpPlayers r) k" using IH d m2 by auto
    have "dom (map_of (rp_dpPlayers r')) = dom (map_of (rp_dpPlayers r2))" using IH d by blast
    then show "dom (map_of (rp_dpPlayers r')) = dom (map_of (rp_dpPlayers r))" using m2 w by (simp add: insert_absorb domI)
    show "std_ok (rp_dpPlayers r) \<longrightarrow> std_ok (rp_dpPlayers r')" using IH d by (auto simp: r2_def same)
    show "n = length (dpid # ids) \<longrightarrow> (\<forall>k \<in> set (dpid # ids). \<exists>w. map_of (rp_dpPlayers r') k = Some w \<and> ready env w)"
      using doSyncWatcher_go [OF one] n1 sum mine IH d by auto
  qed
qed (auto simp: rp_return_def)

text \<open>The watchers remain an ordered map, and the announcement keeps its keys.\<close>

definition watchers_ok :: "Replayer \<Rightarrow> bool" where
  "watchers_ok r = std_ok (rp_dpPlayers r)"

definition watcher_keys :: "Replayer \<Rightarrow> u32 list" where
  "watcher_keys r = map fst (rp_dpPlayers r)"

interpretation kv: send_frame watcher_keys
  by unfold_locales (simp add: watcher_keys_def)

lemma enumerate_keys: "map fst (map (\<lambda>(i, (k, w)). (k, f i w)) (enumerate n m)) = map fst m"
  by (induction m arbitrary: n) auto

lemma frame_sendPlayerInfos_keys: "frame watcher_keys (sendPlayerInfos env)"
  unfolding sendPlayerInfos_def Let_def
  using enumerate_keys by (intro frame_intros) (simp add: watcher_keys_def give_ordinals_def del: map_map)

lemma watchers_ok_keys: "watcher_keys r' = watcher_keys r \<Longrightarrow> watchers_ok r \<Longrightarrow> watchers_ok r'"
  by (simp add: watcher_keys_def watchers_ok_def std_ok_def)

lemma maintains_lobby_messages: "maintains watchers_ok (lobby_messages env msgs)"
proof -
  have update: "watchers_ok (update_watcher dpid f r)" if "watchers_ok r" for dpid f r
    using that by (simp add: watchers_ok_def update_watcher_def split: option.splits)
  have send: "maintains watchers_ok (rp_send a b c)" for a b c
    by (rule maintains_frame [OF dv.frame_send]) (simp add: watchers_ok_def)
  have sys: "maintains watchers_ok (onLobbySystemMessage env payload)" for payload
    unfolding onLobbySystemMessage_def
    by (intro maintains_intros) (auto simp: watchers_ok_def split: dp_sysmsg.splits)
  have sub_ok: "maintains watchers_ok (lobby_subpak env a b s)" for a b s
    unfolding lobby_subpak_def
    by (auto intro!: maintains_intros send simp: update split: SubPacketCode.split) (simp add: watchers_ok_def)
  have "maintains watchers_ok (onLobbyTaMessage env a b s)" for a b s
    unfolding onLobbyTaMessage_def each_subpak_def rp_sum_def
    by (auto intro!: maintains_intros sub_ok split: sum.split)
  with sys show ?thesis
    by (induction env msgs rule: lobby_messages.induct) (auto intro!: maintains_intros)
qed

text \<open>C10. The game is launched only when everyone is ready: when \<open>doLobby\<close> says so there is a watcher, and each one has
  finished the synchronisation of its units, has sent its player's state, has clicked in, and plays along as a
  regular player or has insisted on watching.\<close>

theorem launch_needs_all_ready:
  assumes "std_ok (rp_dpPlayers r)" and "doLobby env msgs r = (r', out, Inr True)"
  shows "rp_dpPlayers r' \<noteq> [] \<and> (\<forall>(dpid, w) \<in> set (rp_dpPlayers r'). ready env w)"
proof -
  from assms(2) obtain r1 o1 o2 where
    msgs: "lobby_messages env msgs r = (r1, o1, Inr False)" and
    rest: "rp_bind (if rp_wallClockTicks r1 mod 10 = 0
        then rp_then (sendPlayerInfos env) (rp_get (\<lambda>r. sync_watchers env (map fst (rp_dpPlayers r)))) else rp_return 0)
      (\<lambda>goCount. rp_get (\<lambda>r. if rp_dpPlayers r \<noteq> [] \<and> goCount = length (rp_dpPlayers r)
          then rp_then (rp_each (\<lambda>p. rp_opt (TPlayerInfo_parse (re_garbage env) (pl_statusPacket p)) (\<lambda>info.
                   rp_send (pl_dpId p) 0 (TPlayerInfo_asSubPacket (launch_info (pl_dpId p) info)))) (rp_demoPlayers r))
                 (rp_return True)
          else rp_return False)) r1 = (r', o2, Inr True)"
    by (auto simp: doLobby_def replay_defs elim!: rp_bind_cases split: if_splits)
  have ok1: "watchers_ok r1"
    using maintainsD [OF maintains_lobby_messages msgs] assms(1) by (simp add: watchers_ok_def)
  from rest show ?thesis
  proof (cases rule: rp_bind_cases)
    case (step r3 o3 go o4)
    let ?last = "rp_each (\<lambda>p. rp_opt (TPlayerInfo_parse (re_garbage env) (pl_statusPacket p)) (\<lambda>info.
                   rp_send (pl_dpId p) 0 (TPlayerInfo_asSubPacket (launch_info (pl_dpId p) info)))) (rp_demoPlayers r3)"
    have "frame rp_dpPlayers ?last" by (intro frame_intros dv.frame_send)
    then have fin: "rp_dpPlayers r' = rp_dpPlayers r3" "rp_dpPlayers r3 \<noteq> []" "go = length (rp_dpPlayers r3)"
      using step(2) frameD by (auto simp: replay_defs split: if_splits elim!: rp_then_cases)
    have "go \<noteq> 0" using fin by simp
    with step(1) obtain r2 o5 where
      ann: "sendPlayerInfos env r1 = (r2, o5, Inr ())" and
      sync: "\<exists>o6. sync_watchers env (map fst (rp_dpPlayers r2)) r2 = (r3, o6, Inr go)"
      by (auto simp: replay_defs split: if_splits elim!: rp_then_cases)
    have ok2: "std_ok (rp_dpPlayers r2)"
      using watchers_ok_keys [OF frameD [OF frame_sendPlayerInfos_keys ann] ok1] by (simp add: watchers_ok_def)
    from sync obtain o6 where "sync_watchers env (map fst (rp_dpPlayers r2)) r2 = (r3, o6, Inr go)" by blast
    note all = sync_watchers_all [OF this std_ok_distinct [OF ok2]]
    have ok3: "std_ok (rp_dpPlayers r3)" using all ok2 by blast
    have keys: "set (map fst (rp_dpPlayers r3)) = set (map fst (rp_dpPlayers r2))"
      using all by (simp add: dom_map_of_conv_image_fst)
    then have "length (rp_dpPlayers r3) = length (rp_dpPlayers r2)"
      using distinct_card [OF std_ok_distinct [OF ok2]] distinct_card [OF std_ok_distinct [OF ok3]] by simp
    then have "\<forall>dpid \<in> set (map fst (rp_dpPlayers r3)). \<exists>w. map_of (rp_dpPlayers r3) dpid = Some w \<and> ready env w"
      using all fin(3) keys by simp
    then have "ready env w" if "(dpid, w) \<in> set (rp_dpPlayers r3)" for dpid w
      using that in_set_map_of [OF ok3, of dpid w] by force
    then show ?thesis using fin by auto
  qed simp
qed

lemma rp_send_hosting:
  "rp_hosting r \<Longrightarrow> rp_send a b bs r = (if b = 0 then r\<lparr>rp_tcpSeq := rp_tcpSeq r - 1\<rparr> else r,
     [DpSent a b True (encrypt (trivialSmartpak bs (if b = 0 then rp_tcpSeq r else 0xffffffff)))], Inr ())"
  by (simp add: rp_send_def dpSend_def replay_defs rp_then_def rp_bind_def)

lemma say_hosting: "rp_hosting r \<Longrightarrow> say a txt r = (r, [DpSent a 0 False (encrypt (trivialSmartpak (createChatSubpacket txt) 0))], Inr ())"
  by (simp add: say_def sendUdp_def dpSend_def replay_defs)

definition example_env :: replay_env where
  "example_env = \<lparr>re_fl = id, re_rand = (\<lambda>n. 0), re_garbage = 0, re_unit = (0, 0, 0, 0), re_sysmsg = (\<lambda>bs. OtherSysMsg), re_totalText = (\<lambda>p. []), re_posText = []\<rparr>"

definition example_lobby :: Replayer where
  "example_lobby = Replayer_new\<lparr>rp_hosting := True, rp_wallClockTicks := 10,
     rp_demoPlayers := [(RecordedPlayer_new \<lparr>dp_color = 0, dp_side = 0, dp_number = 1, dp_name = []\<rparr>)\<lparr>pl_statusPacket := replicate 192 0\<rparr>],
     rp_dpPlayers := [(7, (Watcher_new 7)\<lparr>wp_state := WAIT_GO, wp_statusPacket := (replicate 192 0)[156 := 0x20]\<rparr>)]\<rparr>"

theorem launch_needs_all_ready_witness:
  "\<exists>r' out. doLobby example_env [] example_lobby = (r', out, Inr True) \<and> (\<forall>(dpid, w) \<in> set (rp_dpPlayers r'). ready example_env w)"
proof -
  have "TPlayerInfo_parse 0 (replicate 192 0) \<noteq> None" by code_simp
  then obtain info0 where p0: "TPlayerInfo_parse 0 (replicate 192 0) = Some info0" by blast
  have "(case TPlayerInfo_parse 0 ((replicate 192 0)[156 := 0x20]) of None \<Rightarrow> False | Some i \<Rightarrow> isClickedIn i \<and> \<not> isWatcher i)"
    by code_simp
  then obtain info1 where p1: "TPlayerInfo_parse 0 ((replicate 192 0)[156 := 0x20]) = Some info1" "isClickedIn info1" "\<not> isWatcher info1"
    by (auto split: option.splits)
  have "\<exists>r' out. doLobby example_env [] example_lobby = (r', out, Inr True)"
    by (simp add: doLobby_def sendPlayerInfos_def send_ident3_def announced_ids_def give_ordinals_def doSyncWatcher_def wait_go_def
        replay_defs rp_then_def rp_bind_def rp_opt_def rp_send_hosting example_lobby_def example_env_def Replayer_new_def
        RecordedPlayer_new_def Watcher_new_def Let_def p0 p1 enumerate_eq_zip del: replicate.simps list_update.simps)
  then obtain r' out where "doLobby example_env [] example_lobby = (r', out, Inr True)" by blast
  then show ?thesis
    using launch_needs_all_ready [of example_lobby example_env "[]" r' out] by (simp add: example_lobby_def std_ok_def)
qed

section \<open>Sending the acknowledgements\<close>

definition units_ok :: "Replayer \<Rightarrow> bool" where
  "units_ok r = (rp_hosting r \<and> std_ok (rp_demoUnitInfo r) \<and> rp_demoUnitInfo r \<noteq> [] \<and> rp_demoUnitInfoLinear r = map fst (rp_demoUnitInfo r))"

definition unit_packets :: "replay_event list \<Rightarrow> nat" where
  "unit_packets out = length (filter (\<lambda>e. case e of DpSent a b guaranteed bs \<Rightarrow> guaranteed | _ \<Rightarrow> False) out)"

lemma send_unit_ok:
  assumes "units_ok r" and "wp_unitSyncNextUnit w < length (rp_demoUnitInfo r)" and "wp_dpid w \<noteq> 0"
  shows "\<exists>bs. send_unit host w r = (r, [DpSent host (wp_dpid w) True bs],
     Inr (w\<lparr>wp_unitSyncNextUnit := wp_unitSyncNextUnit w + 1, wp_unitSyncSendCount := wp_unitSyncSendCount w + 1\<rparr>))"
proof -
  let ?k = "wp_unitSyncNextUnit w"
  have "map_of (rp_demoUnitInfo r) (fst (rp_demoUnitInfo r ! ?k)) = Some (snd (rp_demoUnitInfo r ! ?k))"
    using assms in_set_map_of [of "rp_demoUnitInfo r" "fst (rp_demoUnitInfo r ! ?k)" "snd (rp_demoUnitInfo r ! ?k)"]
    by (simp add: units_ok_def)
  then show ?thesis
    using assms by (auto simp: send_unit_def replay_defs rp_then_def rp_bind_def rp_opt_def units_ok_def rp_send_hosting)
qed

lemma send_acks_wrap:
  assumes "units_ok r" and "wp_unitSyncNextUnit w < length (rp_demoUnitInfo r)" and "wp_dpid w \<noteq> 0"
  shows "\<exists>out w'. send_acks host n w r = (r, out, Inr w') \<and> unit_packets out = n \<and>
     wp_unitSyncNextUnit w' = (wp_unitSyncNextUnit w + n) mod length (rp_demoUnitInfo r) \<and>
     wp_unitSyncSendCount w' = wp_unitSyncSendCount w + n \<and>
     wp_state w' = (if length (rp_demoUnitInfo r) \<le> wp_unitSyncNextUnit w + n then WAIT_ACKS else wp_state w)"
  using assms(2,3)
proof (induction n arbitrary: w)
  case 0
  then show ?case by (simp add: rp_return_def unit_packets_def)
next
  case (Suc n)
  let ?N = "length (rp_demoUnitInfo r)"
  let ?w = "w\<lparr>wp_unitSyncNextUnit := wp_unitSyncNextUnit w + 1, wp_unitSyncSendCount := wp_unitSyncSendCount w + 1\<rparr>"
  from send_unit_ok [OF assms(1) Suc.prems] obtain bs where
    one: "send_unit host w r = (r, [DpSent host (wp_dpid w) True bs], Inr ?w)" by blast
  have hosting: "rp_hosting r" using assms(1) by (simp add: units_ok_def)
  show ?case
  proof (cases "wp_unitSyncNextUnit w + 1 = ?N")
    case True
    let ?v = "?w\<lparr>wp_unitSyncNextUnit := 0, wp_state := WAIT_ACKS\<rparr>"
    have "0 < ?N" using Suc.prems by linarith
    then obtain out w' where rest: "send_acks host n ?v r = (r, out, Inr w')" "unit_packets out = n"
      "wp_unitSyncNextUnit w' = n mod ?N" "wp_unitSyncSendCount w' = wp_unitSyncSendCount w + 1 + n" "wp_state w' = WAIT_ACKS"
      using Suc.IH [of ?v] Suc.prems by auto
    have "wp_unitSyncNextUnit w + Suc n = ?N + n" using True by simp
    then have "(wp_unitSyncNextUnit w + Suc n) mod ?N = n mod ?N" by (simp only: mod_add_self1)
    then have "Suc (wp_unitSyncNextUnit w + n) mod ?N = n mod ?N" by simp
    then show ?thesis
      using rest True \<open>wp_unitSyncNextUnit w + Suc n = ?N + n\<close>
      by (simp add: rp_bind_def rp_then_def rp_get_def one say_hosting hosting unit_packets_def)
  next
    case False
    then obtain out w' where "send_acks host n ?w r = (r, out, Inr w')" "unit_packets out = n"
      "wp_unitSyncNextUnit w' = (wp_unitSyncNextUnit w + 1 + n) mod ?N" "wp_unitSyncSendCount w' = wp_unitSyncSendCount w + 1 + n"
      "wp_state w' = (if ?N \<le> wp_unitSyncNextUnit w + 1 + n then WAIT_ACKS else wp_state w)"
      using Suc.IH [of ?w] Suc.prems by auto
    then show ?thesis
      using False by (simp add: rp_bind_def rp_get_def one unit_packets_def)
  qed
qed

text \<open>The acknowledgements are sent a hundred at a time, however many units there are: a visit that starts at
  unit \<open>k\<close> goes on from the last unit to the first until it has sent its hundred, so that with fewer units some are
  sent again; the count of what the watcher has to confirm grows by all of them, and the counter that measures the waiting
  starts at the index where the visit stopped instead of 0.\<close>

theorem acks_wrap_around:
  assumes "units_ok r" and "wp_unitSyncNextUnit w < length (rp_demoUnitInfo r)" and "wp_dpid w \<noteq> 0"
  shows "\<exists>out w'. send_acks host n w r = (r, out, Inr w') \<and> unit_packets out = n \<and>
     wp_unitSyncNextUnit w' = (wp_unitSyncNextUnit w + n) mod length (rp_demoUnitInfo r) \<and>
     wp_unitSyncSendCount w' = wp_unitSyncSendCount w + n \<and>
     wp_state w' = (if length (rp_demoUnitInfo r) \<le> wp_unitSyncNextUnit w + n then WAIT_ACKS else wp_state w)"
  by (rule send_acks_wrap [OF assms])

definition small_units :: Replayer where
  "small_units = Replayer_new\<lparr>rp_hosting := True, rp_demoPlayers := [RecordedPlayer_new \<lparr>dp_color = 0, dp_side = 0, dp_number = 1, dp_name = []\<rparr>],
     rp_demoUnitInfo := [(1, UnitInfo_new), (2, UnitInfo_new), (3, UnitInfo_new)], rp_demoUnitInfoLinear := [1, 2, 3]\<rparr>"

lemma small_units_ok: "units_ok small_units"
  by (simp add: units_ok_def small_units_def)

theorem acks_wrap_around_witness:
  "\<exists>out w'. send_acks 5 100 (Watcher_new 7) small_units = (small_units, out, Inr w') \<and> unit_packets out = 100 \<and> wp_unitSyncNextUnit w' = 1"
  using acks_wrap_around [OF small_units_ok, of "Watcher_new 7" 5 100] by (auto simp: small_units_def Watcher_new_def)

text \<open>C37. A second try to get the acknowledgements can read past the end of the unit table: when the replayer has waited
  long enough without all of them being confirmed, and the table has no unit at the index that the waiting counter has
  reached, it goes back to sending from that index, and the next visit reads outside the table.\<close>

theorem ack_resync_reads_outside:
  assumes "rp_hosting r" and "wp_state w = WAIT_ACKS" and "wp_unitSyncReceiveCount w \<noteq> wp_unitSyncSendCount w"
    and "30 \<le> wp_unitSyncNextUnit w" and "length (rp_demoUnitInfoLinear r) \<le> wp_unitSyncNextUnit w + 1"
  shows "\<exists>r' out w'. doSyncWatcher env w r = (r', out, Inr (0, w')) \<and> wp_state w' = SEND_ACKS \<and>
     snd (snd (doSyncWatcher env w' r')) = Inl Undefined"
proof -
  have "send_acks host (Suc n) v r = (r, [], Inl Undefined)" if "length (rp_demoUnitInfoLinear r) \<le> wp_unitSyncNextUnit v" for host n v
    using that by (simp add: send_unit_def rp_bind_def replay_defs)
  from this [where n = 99] have outside: "length (rp_demoUnitInfoLinear r) \<le> wp_unitSyncNextUnit v \<Longrightarrow>
      send_acks host UNITS_SYNC_PER_TICK v r = (r, [], Inl Undefined)" for host v
    by (simp add: UNITS_SYNC_PER_TICK_def)
  show ?thesis
    using assms
    by (simp add: doSyncWatcher_def wait_acks_def replay_defs rp_bind_def rp_then_def Let_def say_hosting outside)
qed

theorem ack_resync_reads_outside_witness:
  "\<exists>r' out w'. doSyncWatcher example_env ((Watcher_new 7)\<lparr>wp_state := WAIT_ACKS, wp_unitSyncNextUnit := 30, wp_unitSyncSendCount := 100\<rparr>) small_units =
     (r', out, Inr (0, w')) \<and> snd (snd (doSyncWatcher example_env w' r')) = Inl Undefined"
  using ack_resync_reads_outside [of small_units "(Watcher_new 7)\<lparr>wp_state := WAIT_ACKS, wp_unitSyncNextUnit := 30, wp_unitSyncSendCount := 100\<rparr>" example_env]
  by (auto simp: small_units_def Watcher_new_def)

end
