(* ===== verification/Game_Events.thy ===== *)
theory Game_Events
  imports Game_Monitor Gpgnet_Client Game_Launcher
begin

text \<open>
  What becomes of the game monitor's reports (\<open>apps/gpgnet4ta/GameEventHandlerQt.cpp\<close>, \<open>gpgnet4ta.cpp\<close>): they are turned
  into signals, of which \<open>ForwardGameEventsToGpgNet\<close> makes commands to the lobby server and \<open>HandleGameStatus\<close>
  messages to the players and to the game's IRC channel.

  A \<open>QString\<close> is its UTF-8 encoding. The IRC connection is a library's: the model keeps whether it is active, and
  what \<open>close()\<close> makes of that is a parameter. The map tool that \<open>getMapDetails\<close> runs is a parameter as well.
\<close>

section \<open>Signals\<close>

datatype game_signal =
    GameSettings bytestring u16 bytestring bytestring
  | PlayerStatus u32 bytestring byte byte bool bool bool byte byte "bytestring list"
  | ClearSlot u32 bytestring byte
  | GameStarted u32 bool
  | GameEnded "ArmyResult list"
  | Chat bytestring bool

text \<open>\<open>GameEventsSignalQt\<close>: strings are decoded, numbers cut to the widths of the signals' parameters.\<close>

definition qt_result :: "qt \<Rightarrow> ArmyResult \<Rightarrow> ArmyResult" where
  "qt_result q r = r\<lparr>res_alias := fromUtf8 q (res_alias r), res_realName := fromUtf8 q (res_realName r)\<rparr>"

fun game_signal_of :: "qt \<Rightarrow> monitor_event \<Rightarrow> game_signal" where
  "game_signal_of q (OnGameSettings mapName unitLimit hostName localName) =
     GameSettings (fromUtf8 q mapName) unitLimit (fromUtf8 q hostName) (fromUtf8 q localName)"
| "game_signal_of q (OnPlayerStatus player mutualAllies) =
     PlayerStatus (pd_dplayid player) (fromUtf8 q (pd_name player)) (word_of_int (slotNumber player))
       (word_of_int (pd_side player)) (pd_isWatcher player) (pd_isAI player) (isDead player)
       (word_of_int (armyNumber player)) (word_of_int (pd_teamNumber player))
       (map (fromUtf8 q) (sorted_list_of_set mutualAllies))"
| "game_signal_of q (OnClearSlot player) =
     ClearSlot (pd_dplayid player) (fromUtf8 q (pd_name player)) (word_of_int (slotNumber player))"
| "game_signal_of q (OnGameStarted tick teamsFrozen) = GameStarted tick teamsFrozen"
| "game_signal_of q (OnGameEnded result) = GameEnded (map (qt_result q) (results result))"
| "game_signal_of q (monitor_event.OnChat msg isLocalPlayerSource) = Chat (fromUtf8 q msg) isLocalPlayerSource"

section \<open>Commands to the lobby server\<close>

text \<open>\<open>ForwardGameEventsToGpgNet\<close>; \<open>m_isHost\<close> is not set by the constructor: its first value is an argument.\<close>

record ForwardGameEvents =
  fg_isHost :: bool

type_synonym forward_step = "ForwardGameEvents \<times> bytestring list"

definition ForwardGameEvents_new :: "bool \<Rightarrow> ForwardGameEvents" where
  "ForwardGameEvents_new unset = \<lparr>fg_isHost = unset\<rparr>"

text \<open>The last character of a text, which may take several bytes, is cut off.\<close>

definition continuation_byte :: "byte \<Rightarrow> bool" where
  "continuation_byte b = (b AND 0xc0 = 0x80)"

definition chop_char :: "bytestring \<Rightarrow> bytestring" where
  "chop_char s = rev (drop 1 (dropWhile continuation_byte (rev s)))"

definition number8 :: "qt \<Rightarrow> byte \<Rightarrow> bytestring" where
  "number8 q b = uintToString q (ucast b)"

definition makeAiName :: "qt \<Rightarrow> bytestring \<Rightarrow> byte \<Rightarrow> bytestring" where
  "makeAiName q nominalName slot =
     (if nominalName \<noteq> [] then chop_char nominalName @ number8 q slot else ascii ''AI'' @ number8 q slot)"

definition fg_onGameSettings ::
  "(bytestring \<Rightarrow> bytestring) \<Rightarrow> bytestring \<Rightarrow> bytestring \<Rightarrow> bytestring \<Rightarrow> ForwardGameEvents \<Rightarrow> forward_step" where
  "fg_onGameSettings getMapDetails mapName hostName localName f =
     (let f' = f\<lparr>fg_isHost := (hostName = localName)\<rparr>
      in (f', if fg_isHost f' then [sendGameOption (ascii ''MapDetails'') (getMapDetails mapName)] else []))"

text \<open>
  The five options of a player or an AI. The condition \<open>gpgnetId == 0\<close> compares a text with a null pointer, which
  only an empty text equals: a number's text is not empty, so that \<open>isAI\<close> decides.
\<close>

definition status_options :: "(bytestring \<Rightarrow> int \<Rightarrow> bytestring) \<Rightarrow> int \<Rightarrow> byte \<Rightarrow> byte \<Rightarrow> byte \<Rightarrow> bytestring list" where
  "status_options snd_option teamNo slot army side =
     [snd_option (ascii ''Team'') teamNo, snd_option (ascii ''StartSpot'') (uint slot), snd_option (ascii ''Color'') (uint slot),
      snd_option (ascii ''Army'') (uint army), snd_option (ascii ''Faction'') (uint side)]"

definition fg_onPlayerStatus ::
  "qt \<Rightarrow> GpgNetClient \<Rightarrow> bytestring \<Rightarrow> byte \<Rightarrow> byte \<Rightarrow> bool \<Rightarrow> bool \<Rightarrow> byte \<Rightarrow> byte \<Rightarrow> ForwardGameEvents \<Rightarrow> forward_step" where
  "fg_onPlayerStatus q c name slot side watches byAI army team f =
     (let gpgnetId = uintToString q (lookupPlayerId c name) in
      (f, if \<not> fg_isHost f then []
          else if byAI \<or> gpgnetId = [] then status_options (sendAiOption (makeAiName q name slot)) (uint team) slot army side
          else status_options (sendPlayerOption_int gpgnetId) (if watches then - 1 else uint team) slot army side))"

definition fg_onClearSlot :: "byte \<Rightarrow> ForwardGameEvents \<Rightarrow> forward_step" where
  "fg_onClearSlot slot f = (f, if fg_isHost f then [sendClearSlot (uint slot)] else [])"

definition fg_onGameStarted :: "bool \<Rightarrow> ForwardGameEvents \<Rightarrow> forward_step" where
  "fg_onGameStarted teamsFrozen f =
     (f, if fg_isHost f
         then [sendGameState (ascii ''Launching'') (if teamsFrozen then ascii ''Live'' else ascii ''Launching'')] else [])"

definition fg_onGameEnded :: "ArmyResult list \<Rightarrow> ForwardGameEvents \<Rightarrow> forward_step" where
  "fg_onGameEnded rs f =
     (f, map (\<lambda>r. sendGameResult (res_army r) (score r)) rs @ [sendGameState (ascii ''Ended'') (ascii ''Ended'')])"

fun forward_signal ::
  "qt \<Rightarrow> GpgNetClient \<Rightarrow> (bytestring \<Rightarrow> bytestring) \<Rightarrow> game_signal \<Rightarrow> ForwardGameEvents \<Rightarrow> forward_step" where
  "forward_signal q c details (GameSettings mapName unitLimit hostName localName) f =
     fg_onGameSettings details mapName hostName localName f"
| "forward_signal q c details (PlayerStatus dpid name slot side watches byAI dead army team mutual) f =
     fg_onPlayerStatus q c name slot side watches byAI army team f"
| "forward_signal q c details (ClearSlot dpid name slot) f = fg_onClearSlot slot f"
| "forward_signal q c details (GameStarted tick teamsFrozen) f = fg_onGameStarted teamsFrozen f"
| "forward_signal q c details (GameEnded rs) f = fg_onGameEnded rs f"
| "forward_signal q c details (Chat msg isLocal) f = (f, [])"

section \<open>Messages to the players\<close>

text \<open>\<open>HandleGameStatus\<close>; \<open>hs_irc\<close> is \<open>None\<close> without IRC, else whether the connection is active.\<close>

datatype status_event =
    IrcMessage bytestring bytestring
  | IrcQuit
  | IrcClose
  | EchoToGame bytestring
  | PingInterval int
  | QuitApp

record HandleGameStatus =
  hs_irc :: "bool option"
  hs_channel :: bytestring
  hs_quitRequested :: int
  hs_selectedMap :: bytestring
  hs_isGameRated :: bool
  hs_playerNames :: "bytestring list"
  hs_isAI :: "bool list"
  hs_isWatcher :: "bool list"

type_synonym status_step = "HandleGameStatus \<times> status_event list"

definition HandleGameStatus_new :: "bool option \<Rightarrow> bytestring \<Rightarrow> bool \<Rightarrow> HandleGameStatus" where
  "HandleGameStatus_new irc channel rated = \<lparr>hs_irc = irc, hs_channel = channel, hs_quitRequested = 0, hs_selectedMap = [],
     hs_isGameRated = rated, hs_playerNames = replicate 10 [], hs_isAI = replicate 10 False, hs_isWatcher = replicate 10 False\<rparr>"

definition irc_active :: "HandleGameStatus \<Rightarrow> bool" where
  "irc_active s = (hs_irc s = Some True)"

definition doSend :: "qt \<Rightarrow> bytestring \<Rightarrow> bool \<Rightarrow> bool \<Rightarrow> HandleGameStatus \<Rightarrow> status_event list" where
  "doSend q txt toIrc toGame s =
     (if irc_active s \<and> toIrc then [IrcMessage (hs_channel s) (fromUtf8 q (c_str txt))] else []) @
     (if toGame then [EchoToGame (fromUtf8 q txt)] else [])"

text \<open>\<open>quit(realName())\<close> and \<open>close()\<close> on an active connection; \<open>left\<close> tells whether it is active after that.\<close>

definition close_irc :: "bool \<Rightarrow> HandleGameStatus \<Rightarrow> status_step" where
  "close_irc left s = (if irc_active s then (s\<lparr>hs_irc := Some left\<rparr>, [IrcQuit, IrcClose]) else (s, []))"

definition getOccupancyCount :: "HandleGameStatus \<Rightarrow> int" where
  "getOccupancyCount s = foldl (\<lambda>a name. if name = [] then a else a + 1) 0 (hs_playerNames s)"

definition getAiCount :: "HandleGameStatus \<Rightarrow> int" where
  "getAiCount s = foldl (\<lambda>a byAI. if byAI then a + 1 else a) 0 (hs_isAI s)"

definition getWatcherCount :: "HandleGameStatus \<Rightarrow> int" where
  "getWatcherCount s = foldl (\<lambda>a watches. if watches then a + 1 else a) 0 (hs_isWatcher s)"

definition hs_onGameSettings :: "qt \<Rightarrow> bytestring \<Rightarrow> HandleGameStatus \<Rightarrow> status_step" where
  "hs_onGameSettings q mapName s =
     (if mapName \<noteq> hs_selectedMap s
      then (s\<lparr>hs_selectedMap := mapName\<rparr>, doSend q (ascii ''Map changed to: '' @ mapName) True False s)
      else (s, []))"

definition set_slot :: "byte \<Rightarrow> bytestring \<Rightarrow> bool \<Rightarrow> bool \<Rightarrow> HandleGameStatus \<Rightarrow> HandleGameStatus" where
  "set_slot slot name byAI watches s =
     (let n = unat slot in
      if n < length (hs_playerNames s)
      then s\<lparr>hs_playerNames := (hs_playerNames s)[n := name], hs_isAI := (hs_isAI s)[n := byAI],
             hs_isWatcher := (hs_isWatcher s)[n := watches]\<rparr>
      else s)"

definition hs_onPlayerStatus :: "bytestring \<Rightarrow> byte \<Rightarrow> bool \<Rightarrow> bool \<Rightarrow> HandleGameStatus \<Rightarrow> status_step" where
  "hs_onPlayerStatus name slot watches byAI s = (set_slot slot name byAI watches s, [])"

definition hs_onClearSlot :: "byte \<Rightarrow> HandleGameStatus \<Rightarrow> status_step" where
  "hs_onClearSlot slot s = (set_slot slot [] False False s, [])"

text \<open>The advice to the players when a game with human players alone is launched.\<close>

definition start_advice :: "int \<Rightarrow> bool \<Rightarrow> bytestring list" where
  "start_advice humanPlayerCount rated =
     (if humanPlayerCount \<ge> 3
      then (if rated then [ascii ''Game becomes rated after 1:00. Finalise teams by then'',
                           ascii ''Self-d/alt-f4 before to rescind, or ally afterwards''] else []) @
           [ascii ''/quit to disconnect so team can .take (unless UR host!)'']
      else if humanPlayerCount = 2 \<and> rated
      then [ascii ''Game becomes rated after 1:00'', ascii ''Self-d/alt-f4 before to rescind, or ally afterwards'']
      else [])"

definition hs_onGameStarted :: "qt \<Rightarrow> bool \<Rightarrow> bool \<Rightarrow> HandleGameStatus \<Rightarrow> status_step" where
  "hs_onGameStarted q left teamsFrozen s =
     (let aiCount = getAiCount s;
          humanPlayerCount = getOccupancyCount s - aiCount - getWatcherCount s;
          (s1, out) = close_irc left s
      in (s1, out @ [PingInterval (if teamsFrozen then 10000 else 3000)] @
           (if \<not> teamsFrozen \<and> aiCount = 0
            then concat (map (\<lambda>txt. doSend q txt False True s1) (start_advice humanPlayerCount (hs_isGameRated s1))) @
                 (if irc_active s1 then doSend q (ascii ''/closeirc to close your ingame/TAF chat relay'') False True s1 else [])
            else [])))"

definition outcome_text :: "int \<Rightarrow> bytestring" where
  "outcome_text n = (if n > 0 then ascii ''VICTORY'' else if n = 0 then ascii ''DRAW'' else ascii ''DEFEAT'')"

definition result_text :: "ArmyResult \<Rightarrow> bytestring" where
  "result_text r =
     (if res_realName r = [] \<or> res_realName r = res_alias r then res_alias r @ ascii '': '' @ outcome_text (score r)
      else res_alias r @ ascii '' (aka '' @ res_realName r @ ascii ''): '' @ outcome_text (score r))"

definition hs_onGameEnded :: "qt \<Rightarrow> ArmyResult list \<Rightarrow> HandleGameStatus \<Rightarrow> status_step" where
  "hs_onGameEnded q rs s =
     (s, if hs_isGameRated s
         then concat (map (\<lambda>txt. doSend q txt True True s) (ascii ''Game over man, game over!'' # map result_text rs))
         else [])"

text \<open>\<open>QString::lastIndexOf\<close>.\<close>

definition last_index_of :: "bytestring \<Rightarrow> bytestring \<Rightarrow> nat option" where
  "last_index_of p s = (case filter (\<lambda>i. starts_with p (drop i s)) (rev [0..<length s]) of [] \<Rightarrow> None | i # _ \<Rightarrow> Some i)"

definition strip_tag :: "bytestring \<Rightarrow> bytestring" where
  "strip_tag msg = (case last_index_of (ascii ''> '') msg of
     None \<Rightarrow> msg
   | Some n \<Rightarrow> if hd msg = 0x3c \<and> n + 2 < length msg then drop (n + 2) msg else msg)"

text \<open>The two assignments to \<open>m_quitRequested\<close>, one after the other.\<close>

definition next_quitRequested :: "bytestring \<Rightarrow> int \<Rightarrow> int" where
  "next_quitRequested msg n =
     (let n1 = (if msg = ascii ''/quit'' then 1 + n else 0)
      in if msg = ascii ''-harald'' then 2 + n1 else 0)"

definition hs_onChat :: "qt \<Rightarrow> bool \<Rightarrow> bytestring \<Rightarrow> bool \<Rightarrow> HandleGameStatus \<Rightarrow> status_step" where
  "hs_onChat q left msg0 isLocalPlayerSource s =
     (if \<not> isLocalPlayerSource \<or> msg0 = [] then (s, [])
      else let msg = strip_tag msg0;
               out = doSend q msg True False s;
               s1 = s\<lparr>hs_quitRequested := next_quitRequested msg (hs_quitRequested s)\<rparr> in
        if hs_quitRequested s1 = 1
        then (s1, out @ doSend q (ascii ''Type /quit again to disconnect your game'') False True s1)
        else if hs_quitRequested s1 \<ge> 2
        then (s1, out @ doSend q (ascii ''ok your game is disconnected you can alt-f4'') False True s1 @ [QuitApp])
        else if msg = ascii ''/closeirc'' \<and> irc_active s1
        then let (s2, out2) = close_irc left s1 in
             (s2, out @ out2 @ doSend q (ascii ''ok IRC relay is closed'') False True s2)
        else (s1, out))"

fun status_signal :: "qt \<Rightarrow> bool \<Rightarrow> game_signal \<Rightarrow> HandleGameStatus \<Rightarrow> status_step" where
  "status_signal q left (GameSettings mapName unitLimit hostName localName) s = hs_onGameSettings q mapName s"
| "status_signal q left (PlayerStatus dpid name slot side watches byAI dead army team mutual) s =
     hs_onPlayerStatus name slot watches byAI s"
| "status_signal q left (ClearSlot dpid name slot) s = hs_onClearSlot slot s"
| "status_signal q left (GameStarted tick teamsFrozen) s = hs_onGameStarted q left teamsFrozen s"
| "status_signal q left (GameEnded rs) s = hs_onGameEnded q rs s"
| "status_signal q left (Chat msg isLocal) s = hs_onChat q left msg isLocal s"

section \<open>Addresses on the command line\<close>

record url_parts =
  up_user :: bytestring
  up_host :: bytestring
  up_port :: u16
  up_resource :: bytestring

text \<open>\<open>user@host:port/resource\<close>; what the text does not have keeps its value.\<close>

definition SplitUserHostPortChannel :: "qt \<Rightarrow> bytestring \<Rightarrow> url_parts \<Rightarrow> url_parts" where
  "SplitUserHostPortChannel q url p =
     (let temp = split_on 0x40 url;
          (p1, url1) = (if length temp > 1 then (p\<lparr>up_user := temp ! 0\<rparr>, temp ! 1) else (p, url));
          temp = split_on 0x2f url1;
          (p2, url2) = (if length temp > 1 then (p1\<lparr>up_resource := temp ! 1\<rparr>, temp ! 0) else (p1, url1));
          temp = split_on 0x3a url2
      in if length temp > 1 then p2\<lparr>up_host := temp ! 0, up_port := word_of_int (bytesToInt q (temp ! 1))\<rparr>
         else p2\<lparr>up_host := url2\<rparr>)"

end
