(* ===== verification/Game_Reports.thy ===== *)
theory Game_Reports
  imports Game_Events Game_Run
begin

text \<open>
  What the lobby server and the players are told of a game: the game monitor of \<open>Game_Run\<close> composed with the two
  handlers of its signals.
\<close>

section \<open>The names in the reports\<close>

text \<open>No call changes the names of the host and the local player, and every report of the settings carries them.\<close>

definition has_names :: "bytestring \<Rightarrow> bytestring \<Rightarrow> GameMonitor2 \<Rightarrow> bool" where
  "has_names h l m = (m_hostPlayerName m = h \<and> m_localPlayerName m = l)"

definition settings_named :: "bytestring \<Rightarrow> bytestring \<Rightarrow> monitor_event list \<Rightarrow> bool" where
  "settings_named h l es = (\<forall>mp u h' l'. OnGameSettings mp u h' l' \<in> set es \<longrightarrow> h' = h \<and> l' = l)"

definition named :: "bytestring \<Rightarrow> bytestring \<Rightarrow> step \<Rightarrow> bool" where
  "named h l r = (case r of (m, es, x) \<Rightarrow> has_names h l m \<and> settings_named h l es)"

named_theorems named_intros

lemma has_names_update [simp]:
  "has_names h l (m_players_update f m) = has_names h l m" "has_names h l (m_gameResult_update g m) = has_names h l m"
  "has_names h l (m_hostDplayId_update k m) = has_names h l m" "has_names h l (m_localDplayId_update k m) = has_names h l m"
  "has_names h l (m_mapName_update n m) = has_names h l m" "has_names h l (m_maxUnits_update u m) = has_names h l m"
  "has_names h l (m_gameLaunched_update b m) = has_names h l m" "has_names h l (m_gameStarted_update b m) = has_names h l m"
  "has_names h l (m_frozenPlayers_update f m) = has_names h l m" "has_names h l (m_playerRealNames_update rn m) = has_names h l m"
  by (simp_all add: has_names_def)

lemma settings_named_simps [simp]:
  "settings_named h l []" "settings_named h l (es @ es') \<longleftrightarrow> settings_named h l es \<and> settings_named h l es'"
  by (auto simp: settings_named_def)

lemma named_then [named_intros]:
  assumes "named h l r" and "\<And>m. has_names h l m \<Longrightarrow> named h l (f m)"
  shows "named h l (and_then r f)"
proof -
  obtain m1 es1 x where r: "r = (m1, es1, x)" by (cases r)
  show ?thesis using assms(1) assms(2) [of m1] r by (cases x) (auto simp: named_def split: prod.splits)
qed

lemma named_simple [named_intros]:
  "has_names h l m \<Longrightarrow> named h l (ret m)" "has_names h l m \<Longrightarrow> named h l (raise e m)"
  "has_names h l m \<Longrightarrow> settings_named h l [ev] \<Longrightarrow> named h l (notify_handler ev m)"
  "has_names h l m \<Longrightarrow> settings_named h l [ev] \<Longrightarrow> named h l (call_handler ev m)"
  by (auto simp: named_def ret_def raise_def notify_handler_def call_handler_def)

lemma settings_named_single [simp]:
  "settings_named h l [OnPlayerStatus p al]" "settings_named h l [OnClearSlot p]" "settings_named h l [OnGameStarted t b]"
  "settings_named h l [OnGameEnded r]" "settings_named h l [monitor_event.OnChat c b]"
  by (auto simp: settings_named_def)

lemma named_if [named_intros]:
  "(b \<Longrightarrow> named h l r) \<Longrightarrow> (\<not> b \<Longrightarrow> named h l r') \<Longrightarrow> named h l (if b then r else r')"
  by simp

lemma named_cases [named_intros]:
  "named h l a \<Longrightarrow> (\<And>x. named h l (b x)) \<Longrightarrow> named h l (case v of None \<Rightarrow> a | Some x \<Rightarrow> b x)"
  "(\<And>x y. p = (x, y) \<Longrightarrow> named h l (c x y)) \<Longrightarrow> named h l (case p of (x, y) \<Rightarrow> c x y)"
  by (auto split: option.splits prod.splits)

lemma status_events_no_settings: "settings_named h l (fst (status_events ps m))"
  by (induction ps m rule: status_events.induct) (auto simp: settings_named_def split: option.splits prod.splits)

lemma clear_slots_no_settings: "settings_named h l (clear_slot_events m)"
  by (auto simp: settings_named_def clear_slot_events_def)

lemma named_statuses [named_intros]: "has_names h l m \<Longrightarrow> named h l (notifyPlayerStatuses m)"
  using status_events_no_settings [of h l "m_players m" m] clear_slots_no_settings [of h l m]
  by (auto simp: notifyPlayerStatuses_def named_def ret_def split: prod.splits option.splits)

lemma named_armies [named_intros]: "has_names h l m \<Longrightarrow> named h l (updatePlayerArmies m)"
  by (auto simp: updatePlayerArmies_def named_def split: prod.splits)

lemma named_if_ended [named_intros]:
  "has_names h l m \<Longrightarrow> (\<And>w m. has_names h l m \<Longrightarrow> named h l (f w m)) \<Longrightarrow> named h l (if_ended f m)"
  by (auto simp: if_ended_def intro: named_intros split: sum.splits option.splits)

lemma named_latch [named_intros]: "has_names h l m \<Longrightarrow> named h l (latchEndGameResult w m)"
  by (auto simp: latchEndGameResult_def Let_def split: prod.splits intro!: named_intros)

lemma named_remove [named_intros]: "has_names h l m \<Longrightarrow> named h l (remove_player k m)"
  unfolding remove_player_def by (intro named_intros | simp)+

lemma named_register [named_intros]: "has_names h l m \<Longrightarrow> named h l (register_player k n m)"
  unfolding register_player_def Let_def by (intro named_intros | simp)+

lemma named_alliances [named_intros]: "has_names h l m \<Longrightarrow> named h l (alliances_changed m)"
  unfolding alliances_changed_def by (intro named_intros | simp)+

lemma named_settings [named_intros]: "has_names h l m \<Longrightarrow> named h l (game_settings src mp u m)"
  unfolding game_settings_def by (intro named_intros | simp add: settings_named_def has_names_def)+

lemma named_onStatus [named_intros]: "has_names h l m \<Longrightarrow> named h l (onStatus src mp u slot side w ai ch m)"
  unfolding onStatus_def Let_def by (intro named_intros | simp)+

lemma updateAlliances_names: "updateAlliances sender chat m = (b, m') \<Longrightarrow> has_names h l m' = has_names h l m"
  by (auto simp: updateAlliances_def Let_def split: if_splits option.splits)

lemma named_onChat [named_intros]: "has_names h l m \<Longrightarrow> named h l (onChat src c m)"
  unfolding onChat_def Let_def by (intro named_intros | simp add: updateAlliances_names)+

lemma named_onAlliance [named_intros]: "has_names h l m \<Longrightarrow> named h l (onAlliance a b al m)"
  unfolding onAlliance_def Let_def by (intro named_intros | simp)+

lemma named_onTeamSelection [named_intros]: "has_names h l m \<Longrightarrow> named h l (onTeamSelection src team m)"
  unfolding onTeamSelection_def Let_def by (intro named_intros | simp)+

lemma has_names_latchTick [simp]: "has_names h l (latchEndGameTick t m) = has_names h l m"
  by (simp add: latchEndGameTick_def)

lemma named_onUnitDied [named_intros]: "has_names h l m \<Longrightarrow> named h l (onUnitDied src u m)"
  unfolding onUnitDied_def Let_def by (intro named_intros | simp)+

lemma named_onRejectOther [named_intros]: "has_names h l m \<Longrightarrow> named h l (onRejectOther a b m)"
  unfolding onRejectOther_def Let_def by (intro named_intros | simp)+

lemma named_onGameTick [named_intros]: "has_names h l m \<Longrightarrow> named h l (onGameTick src tick m)"
  unfolding onGameTick_def launch_game_def start_game_def end_game_def by (intro named_intros | simp)+

lemma named_onPlayerInfo [named_intros]: "has_names h l m \<Longrightarrow> named h l (onPlayerInfo g src s m)"
  unfolding onPlayerInfo_def by (intro named_intros | simp)+

lemma named_onSubPacket [named_intros]: "has_names h l m \<Longrightarrow> named h l (onSubPacket g src s m)"
  unfolding onSubPacket_def
  by (intro named_cases(1)) (auto intro!: named_intros split: SubPacketCode.splits)

lemma named_onTaPacket [named_intros]: "has_names h l m \<Longrightarrow> named h l (onTaPacket g src ss m)"
  by (induction ss arbitrary: m) (auto intro!: named_intros)

lemma named_call: "has_names h l m \<Longrightarrow> named h l (monitor_call g c m)"
  by (cases c) (auto intro!: named_intros simp: Game_Monitor.onDplaySuperEnumPlayerReply_def
    Game_Monitor.onDplayCreateOrForwardPlayer_def Game_Monitor.onDplayDeletePlayer_def)

lemma monitor_run_names:
  "monitor_run (watching h l a d) m es \<Longrightarrow> has_names h l m \<and> settings_named h l es"
proof (induction rule: monitor_run.induct)
  case start
  then show ?case
    by (simp add: has_names_def watching_def Game_Monitor.setLocalPlayerName_def Game_Monitor.setHostPlayerName_def GameMonitor2_new_def)
next
  case (call m es g c m' es')
  then show ?case using named_call [of h l m g c] by (simp add: named_def)
qed

section \<open>What the lobby server is told\<close>

fun forward_all ::
  "qt \<Rightarrow> GpgNetClient \<Rightarrow> (bytestring \<Rightarrow> bytestring) \<Rightarrow> monitor_event list \<Rightarrow> ForwardGameEvents \<Rightarrow> forward_step" where
  "forward_all q c details [] f = (f, [])"
| "forward_all q c details (e # es) f =
     (let (f1, out) = forward_signal q c details (game_signal_of q e) f;
          (f2, out') = forward_all q c details es f1
      in (f2, out @ out'))"

text \<open>The commands that tell of the state of the game or of a result.\<close>

definition state_report :: "bytestring \<Rightarrow> bool" where
  "state_report bs =
     (starts_with (sendCommand (ascii ''GameOption'') 2 @ sendArgument_bytes (ascii ''SubState'')) bs \<or>
      starts_with (sendCommand (ascii ''GameResult'') 2) bs)"

fun lifecycle_reports :: "bool \<Rightarrow> monitor_event \<Rightarrow> bytestring list" where
  "lifecycle_reports host (OnGameStarted t frozen) =
     (if host then [sendGameState (ascii ''Launching'') (if frozen then ascii ''Live'' else ascii ''Launching'')] else [])"
| "lifecycle_reports host (OnGameEnded r) =
     map (\<lambda>r. sendGameResult (res_army r) (score r)) (results r) @ [sendGameState (ascii ''Ended'') (ascii ''Ended'')]"
| "lifecycle_reports host _ = []"

lemma starts_with_append [simp]: "starts_with p (p @ s)"
  by (simp add: starts_with_def)

lemma report_simps [simp]:
  "state_report (sendGameState st su)" "state_report (sendGameResult army n)"
  "\<not> state_report (sendGameOption (ascii ''MapDetails'') d)" "\<not> state_report (sendClearSlot slot)"
  "\<not> state_report (sendAiOption name k v)" "\<not> state_report (sendPlayerOption_int name k v)"
  by (simp_all add: state_report_def sendGameState_def sendGameResult_def sendGameOption_def sendClearSlot_def sendAiOption_def
      sendPlayerOption_int_def sendCommand_def starts_with_def sendArgument_bytes_def ascii_def le32_def)

lemma status_options_silent:
  "(\<And>k v. \<not> state_report (snd_option k v)) \<Longrightarrow> filter state_report (status_options snd_option t s a d) = []"
  by (simp add: status_options_def)

lemma forward_one:
  assumes "settings_named h l [e]" and "forward_signal q c details (game_signal_of q e) f = (f1, out)"
  shows "filter state_report out = (if is_lifecycle e then lifecycle_reports (fg_isHost f) e else []) \<and>
    (fg_isHost f1 = fg_isHost f \<or> fg_isHost f1 = (fromUtf8 q h = fromUtf8 q l))"
  using assms
  by (cases e) (auto simp: fg_onGameSettings_def fg_onPlayerStatus_def fg_onClearSlot_def fg_onGameStarted_def
    fg_onGameEnded_def settings_named_def status_options_silent comp_def qt_result_def Let_def split: if_splits)

lemma forward_all_reports:
  assumes "settings_named h l es" and "forward_all q c details es f = (f', out)"
  shows "\<exists>hs. length hs = length (lifecycle es) \<and>
    filter state_report out = concat (map2 lifecycle_reports hs (lifecycle es)) \<and>
    (fg_isHost f = (fromUtf8 q h = fromUtf8 q l) \<longrightarrow> set hs \<subseteq> {fg_isHost f})"
  using assms
proof (induction es arbitrary: f f' out)
  case (Cons e es)
  obtain f1 o1 f2 o2 where s: "forward_signal q c details (game_signal_of q e) f = (f1, o1)"
    "forward_all q c details es f1 = (f2, o2)" "out = o1 @ o2"
    using Cons.prems(2) by (auto split: prod.splits)
  have n: "settings_named h l [e]" "settings_named h l es" using Cons.prems(1) by (auto simp: settings_named_def)
  note one = forward_one [OF n(1) s(1)]
  obtain hs where hs: "length hs = length (lifecycle es)" "filter state_report o2 = concat (map2 lifecycle_reports hs (lifecycle es))"
    "fg_isHost f1 = (fromUtf8 q h = fromUtf8 q l) \<longrightarrow> set hs \<subseteq> {fg_isHost f1}"
    using Cons.IH [OF n(2) s(2)] by blast
  show ?case
    by (rule exI [of _ "if is_lifecycle e then fg_isHost f # hs else hs"]) (use one hs s(3) in auto)
qed simp


definition plain_qt :: qt where
  "plain_qt = \<lparr>fromUtf8 = id, bytesToInt = (\<lambda>_. 0), uintToString = (\<lambda>_. [0x30])\<rparr>"


end
