(* ===== verification/Game_Status.thy ===== *)
theory Game_Status
  imports Game_Reports
begin

text \<open>
  What \<open>HandleGameStatus\<close> makes of the monitor's reports: its picture of the battle room, and its commands in the chat.
\<close>

fun status_all :: "qt \<Rightarrow> bool \<Rightarrow> game_signal list \<Rightarrow> HandleGameStatus \<Rightarrow> status_step" where
  "status_all q left [] s = (s, [])"
| "status_all q left (x # xs) s =
     (let (s1, out) = status_signal q left x s; (s2, out') = status_all q left xs s1 in (s2, out @ out'))"

lemma status_all_append:
  "status_all q left (xs @ ys) s =
     (let (s1, out) = status_all q left xs s; (s2, out') = status_all q left ys s1 in (s2, out @ out'))"
  by (induction xs arbitrary: s) (auto simp: Let_def split: prod.splits)

section \<open>Leaving the game\<close>

lemma doSend_no_quit [simp]: "QuitApp \<notin> set (doSend q txt a b s)"
  by (simp add: doSend_def)

lemma close_irc_quits [simp]:
  "hs_quitRequested (fst (close_irc left s)) = hs_quitRequested s" "QuitApp \<notin> set (snd (close_irc left s))"
  by (simp_all add: close_irc_def)

lemma set_slot_quits [simp]: "hs_quitRequested (set_slot b n a w s) = hs_quitRequested s"
  by (simp add: set_slot_def Let_def)

definition harald :: "game_signal \<Rightarrow> bool" where
  "harald x = (case x of Chat msg isLocal \<Rightarrow> isLocal \<and> msg \<noteq> [] \<and> strip_tag msg = ascii ''-harald'' | _ \<Rightarrow> False)"

lemma next_quitRequested_eq: "next_quitRequested msg n = (if msg = ascii ''-harald'' then 2 else 0)"
  by (simp add: next_quitRequested_def ascii_def)

lemma start_advice_quits [simp]: "QuitApp \<notin> set (concat (map (\<lambda>txt. doSend q txt a b s) txts))"
  by (induction txts) auto

lemma hs_onGameStarted_quit:
  "hs_onGameStarted q left frozen s = (s', out) \<Longrightarrow> hs_quitRequested s' = hs_quitRequested s \<and> QuitApp \<notin> set out"
  unfolding hs_onGameStarted_def Let_def by (auto simp: case_prod_beta simp del: set_concat)

lemma hs_onChat_quit:
  assumes "hs_onChat q left msg isLocal s = (s', out)"
  shows "hs_quitRequested s' \<in> {0, 2, hs_quitRequested s} \<and>
    (QuitApp \<in> set out \<longleftrightarrow> isLocal \<and> msg \<noteq> [] \<and> strip_tag msg = ascii ''-harald'')"
proof (cases "isLocal \<and> msg \<noteq> []")
  case True
  let ?s1 = "s\<lparr>hs_quitRequested := next_quitRequested (strip_tag msg) (hs_quitRequested s)\<rparr>"
  show ?thesis
  proof (cases "strip_tag msg = ascii ''-harald''")
    case True
    then show ?thesis using assms \<open>isLocal \<and> msg \<noteq> []\<close>
      by (simp add: hs_onChat_def Let_def next_quitRequested_eq) auto
  next
    case False
    then show ?thesis using assms \<open>isLocal \<and> msg \<noteq> []\<close>
      by (simp add: hs_onChat_def Let_def next_quitRequested_eq case_prod_beta split: if_splits) auto
  qed
qed (use assms in \<open>auto simp: hs_onChat_def\<close>)

lemma status_signal_quit:
  assumes "status_signal q left x s = (s', out)"
  shows "hs_quitRequested s' \<in> {0, 2, hs_quitRequested s} \<and> (QuitApp \<in> set out \<longleftrightarrow> harald x)"
proof (cases x)
  case (GameStarted tick frozen)
  then show ?thesis using assms hs_onGameStarted_quit [of q left frozen s s' out] by (simp add: harald_def)
next
  case (Chat msg isLocal)
  then show ?thesis using assms hs_onChat_quit [of q left msg isLocal s s' out] by (simp add: harald_def)
next
  case (GameEnded rs)
  then show ?thesis using assms
    by (auto simp: hs_onGameEnded_def harald_def simp del: set_concat list.map split: if_splits)
qed (use assms in \<open>auto simp: hs_onGameSettings_def hs_onPlayerStatus_def hs_onClearSlot_def harald_def split: if_splits\<close>)

text \<open>
  C35. The command \<open>/quit\<close> never leaves the game, however often it is typed, although the players are advised to use it:
  the count of requests, which the second assignment resets, is never 1, so that not even the request to type it again
  appears. The program ends when, and only when, the local player types \<open>-harald\<close>, at its first time.
\<close>

theorem quit_request_is_lost:
  assumes "status_all q left xs (HandleGameStatus_new irc channel rated) = (s, out)"
  shows "hs_quitRequested s \<in> {0, 2} \<and> (QuitApp \<in> set out \<longleftrightarrow> (\<exists>x \<in> set xs. harald x))"
proof -
  have "hs_quitRequested s \<in> {0, 2, hs_quitRequested s0} \<and> (QuitApp \<in> set out \<longleftrightarrow> (\<exists>x \<in> set xs. harald x))"
    if "status_all q left xs s0 = (s, out)" for s0
    using that
  proof (induction xs arbitrary: s0 out)
    case (Cons x xs)
    obtain s1 o1 o2 where s: "status_signal q left x s0 = (s1, o1)" "status_all q left xs s1 = (s, o2)" "out = o1 @ o2"
      using Cons.prems by (auto simp: Let_def split: prod.splits)
    show ?case using status_signal_quit [OF s(1)] Cons.IH [OF s(2)] s(3) by auto
  qed simp
  from this [OF assms] show ?thesis by (auto simp: HandleGameStatus_new_def)
qed

theorem quit_request_is_lost_witness:
  "QuitApp \<notin> set (snd (status_all plain_qt False (replicate 3 (Chat (ascii ''<Bob> /quit'') True)) (HandleGameStatus_new None [] True)))"
  using quit_request_is_lost [OF surjective_pairing, of plain_qt False "replicate 3 (Chat (ascii ''<Bob> /quit'') True)" None "[]" True]
  by (simp add: harald_def strip_tag_def last_index_of_def starts_with_def ascii_def)

section \<open>The battle room\<close>

definition room_ok :: "HandleGameStatus \<Rightarrow> bool" where
  "room_ok s = (length (hs_playerNames s) = 10 \<and> length (hs_isAI s) = 10 \<and> length (hs_isWatcher s) = 10)"

definition room_slot :: "HandleGameStatus \<Rightarrow> nat \<Rightarrow> bytestring \<times> bool \<times> bool" where
  "room_slot s n = (hs_playerNames s ! n, hs_isAI s ! n, hs_isWatcher s ! n)"

lemma set_slot_room:
  assumes "room_ok s"
  shows "room_ok (set_slot b name ai w s)"
    and "n < 10 \<Longrightarrow> room_slot (set_slot b name ai w s) n = (if unat b = n then (name, ai, w) else room_slot s n)"
  using assms by (auto simp: room_ok_def room_slot_def set_slot_def Let_def)

definition shown :: "qt \<Rightarrow> PlayerData \<Rightarrow> bytestring \<times> bool \<times> bool" where
  "shown q p = (fromUtf8 q (pd_name p), pd_isAI p, pd_isWatcher p)"

definition seated :: "players \<Rightarrow> nat \<Rightarrow> PlayerData set" where
  "seated ps n = {p \<in> snd ` set ps. 0 \<le> pd_side p \<and> slotNumber p = int n}"

lemma slot_byte: "- 1 \<le> k \<Longrightarrow> k < 10 \<Longrightarrow> n < 10 \<Longrightarrow> unat (word_of_int k :: byte) = n \<longleftrightarrow> k = int n"
proof -
  assume k: "- 1 \<le> k" "k < 10" and n: "n < 10"
  then consider "k = - 1" | "0 \<le> k" by linarith
  then show ?thesis
  proof cases
    case 1
    have "unat (- 1 :: byte) = 255" by code_simp
    with 1 show ?thesis using n by simp
  next
    case 2
    then have "uint (word_of_int k :: byte) = k" using k by (simp add: uint_word_of_int_eq take_bit_int_eq_self)
    then show ?thesis by (metis nat_int of_nat_unat)
  qed
qed

definition room_step :: "HandleGameStatus \<times> status_event list \<Rightarrow> (nat \<Rightarrow> bytestring \<times> bool \<times> bool) \<Rightarrow> bool" where
  "room_step r f = (room_ok (fst r) \<and> snd r = [] \<and> (\<forall>n < 10. room_slot (fst r) n = f n))"

lemma statuses_room:
  assumes "room_ok s" and "status_events ps m = (es, None)" and "\<forall>p \<in> snd ` set ps. - 1 \<le> slotNumber p \<and> slotNumber p < 10"
  shows "\<exists>f. room_step (status_all q left (map (game_signal_of q) es) s) f \<and>
    (\<forall>n < 10. if seated ps n = {} then f n = room_slot s n else f n \<in> shown q ` seated ps n)"
  using assms
proof (induction ps m arbitrary: s es rule: status_events.induct)
  case (1 m)
  then show ?case by (auto simp: room_step_def seated_def intro!: exI [of _ "room_slot s"])
next
  case (2 k p rest m)
  have seats: "seated ((k, p) # rest) n = (if 0 \<le> pd_side p \<and> slotNumber p = int n then {p} else {}) \<union> seated rest n" for n
    by (auto simp: seated_def)
  show ?case
  proof (cases "0 \<le> pd_side p")
    case False
    then have rest: "status_events rest m = (es, None)" "seated ((k, p) # rest) = seated rest"
      using "2.prems"(2) by (simp_all add: seats fun_eq_iff)
    have "\<forall>p \<in> snd ` set rest. - 1 \<le> slotNumber p \<and> slotNumber p < 10" using "2.prems"(3) by simp
    from "2.IH"(2) [OF False "2.prems"(1) rest(1) this] show ?thesis unfolding rest(2) .
  next
    case True
    then obtain names es' where es: "getMutualAllyNames k (m_players m) m = Some names" "status_events rest m = (es', None)"
      "es = OnPlayerStatus p names # es'"
      using "2.prems"(2) by (auto split: option.splits prod.splits)
    let ?s1 = "set_slot (word_of_int (slotNumber p)) (fromUtf8 q (pd_name p)) (pd_isAI p) (pd_isWatcher p) s"
    have "\<forall>p \<in> snd ` set rest. - 1 \<le> slotNumber p \<and> slotNumber p < 10" using "2.prems"(3) by simp
    from "2.IH"(1) [OF True es(1) set_slot_room(1) [OF "2.prems"(1)] es(2) this]
    obtain f where f: "room_step (status_all q left (map (game_signal_of q) es') ?s1) f"
      "\<forall>n < 10. if seated rest n = {} then f n = room_slot ?s1 n else f n \<in> shown q ` seated rest n" by blast
    have "status_all q left (map (game_signal_of q) es) s = status_all q left (map (game_signal_of q) es') ?s1"
      by (simp add: es(3) hs_onPlayerStatus_def)
    moreover have "if seated ((k, p) # rest) n = {} then f n = room_slot s n else f n \<in> shown q ` seated ((k, p) # rest) n"
      if "n < 10" for n
    proof -
      have "room_slot ?s1 n = (if slotNumber p = int n then shown q p else room_slot s n)"
        using set_slot_room(2) [OF "2.prems"(1) that] slot_byte [of "slotNumber p" n] "2.prems"(3) that by (simp add: shown_def)
      then show ?thesis using f(2) [rule_format, OF that] True by (cases "seated rest n = {}") (auto simp: seats)
    qed
    ultimately show ?thesis using f(1) by (metis (no_types, lifting))
  qed
qed

lemma clear_room:
  assumes "room_ok s" and "\<forall>n \<in> set ns. n < 10"
  shows "room_step (status_all q left (map (\<lambda>n. game_signal_of q (OnClearSlot (PlayerData_new\<lparr>slotNumber := int n, pd_dplayid := 0\<rparr>))) ns) s)
    (\<lambda>n. if n \<in> set ns then ([], False, False) else room_slot s n)"
  using assms
proof (induction ns arbitrary: s)
  case (Cons n ns)
  let ?s1 = "set_slot (word_of_int (int n)) [] False False s"
  have "room_slot ?s1 k = (if k = n then ([], False, False) else room_slot s k)" if "k < 10" for k
    using set_slot_room(2) [OF Cons.prems(1) that] slot_byte [of "int n" k] that Cons.prems(2) by simp
  then show ?case using Cons.IH [OF set_slot_room(1) [OF Cons.prems(1)]] Cons.prems(2)
    by (auto simp: hs_onClearSlot_def room_step_def)
qed (simp add: room_step_def)

lemma count_names: "foldl (\<lambda>a name. if name = [] then a else a + 1) c ns = c + int (length (filter (\<lambda>name. name \<noteq> []) ns))"
  by (induction ns arbitrary: c) auto

text \<open>
  C23. The picture of the battle room follows the monitor: after a report of all players each of the ten slots shows a player
  who sits in it in the monitor's table, with the marks for AIs and watchers, and a slot without a player is empty, whatever it
  showed before; nothing is sent on the occasion. The number of players on which the advice at the start depends is
  the number of slots in use, as long as names are not empty.
\<close>

theorem slots_mirror_battleroom:
  assumes "room_ok s" and "m_gameEventHandler m" and "\<forall>p \<in> snd ` set (m_players m). - 1 \<le> slotNumber p \<and> slotNumber p < 10"
    and "notifyPlayerStatuses m = (m', es, None)" and "status_all q left (map (game_signal_of q) es) s = (s', out)"
  shows "room_ok s' \<and> out = [] \<and>
    (\<forall>n < 10. if isSlotUsed m n then room_slot s' n \<in> shown q ` seated (m_players m) n else room_slot s' n = ([], False, False)) \<and>
    ((\<forall>p \<in> snd ` set (m_players m). fromUtf8 q (pd_name p) \<noteq> []) \<longrightarrow>
       getOccupancyCount s' = int (card {n. n < 10 \<and> isSlotUsed m n}))"
proof -
  obtain es1 where es1: "status_events (m_players m) m = (es1, None)" "es = es1 @ clear_slot_events m"
    using assms(2,4) by (auto simp: notifyPlayerStatuses_def split: prod.splits option.splits)
  obtain s1 out1 where s1: "status_all q left (map (game_signal_of q) es1) s = (s1, out1)" by (cases "status_all q left (map (game_signal_of q) es1) s")
  obtain f where f: "room_step (s1, out1) f"
    "\<forall>n < 10. if seated (m_players m) n = {} then f n = room_slot s n else f n \<in> shown q ` seated (m_players m) n"
    using statuses_room [OF assms(1) es1(1) assms(3), of q left] s1 by auto
  have used: "isSlotUsed m n \<longleftrightarrow> seated (m_players m) n \<noteq> {}" for n by (auto simp: isSlotUsed_def seated_def)
  let ?ns = "filter (\<lambda>n. \<not> isSlotUsed m n) [0..<10]"
  have "room_step (status_all q left (map (game_signal_of q) (clear_slot_events m)) s1)
      (\<lambda>n. if n \<in> set ?ns then ([], False, False) else room_slot s1 n)"
    using clear_room [of s1 ?ns q left] f(1) by (simp add: room_step_def clear_slot_events_def comp_def)
  moreover obtain out2 where "status_all q left (map (game_signal_of q) (clear_slot_events m)) s1 = (s', out2)" "out = out1 @ out2"
    using assms(5) s1 by (auto simp: es1(2) status_all_append split: prod.splits)
  ultimately have ok: "room_ok s'" "out = []" and
    slots: "\<forall>n < 10. if isSlotUsed m n then room_slot s' n \<in> shown q ` seated (m_players m) n else room_slot s' n = ([], False, False)"
    using f by (auto simp: room_step_def used)
  have "getOccupancyCount s' = int (card {n. n < 10 \<and> isSlotUsed m n})"
    if names: "\<forall>p \<in> snd ` set (m_players m). fromUtf8 q (pd_name p) \<noteq> []"
  proof -
    have "hs_playerNames s' ! n \<noteq> [] \<longleftrightarrow> isSlotUsed m n" if "n < 10" for n
      using slots [rule_format, OF that] names by (auto simp: room_slot_def shown_def seated_def split: if_splits)
    then have "{n. n < length (hs_playerNames s') \<and> hs_playerNames s' ! n \<noteq> []} = {n. n < 10 \<and> isSlotUsed m n}"
      using ok(1) by (auto simp: room_ok_def)
    then show ?thesis by (simp add: getOccupancyCount_def count_names length_filter_conv_card)
  qed
  then show ?thesis using ok slots by blast
qed

lemma room_ok_new [simp]: "room_ok (HandleGameStatus_new irc channel rated)"
  by (simp add: room_ok_def HandleGameStatus_new_def)

lemma example_notified:
  "snd (snd (notifyPlayerStatuses example_monitor)) = None" "m_gameEventHandler example_monitor"
  "\<forall>p \<in> snd ` set (m_players example_monitor). - 1 \<le> slotNumber p \<and> slotNumber p < 10 \<and> pd_name p \<noteq> []"
  by code_simp+

theorem slots_mirror_battleroom_witness:
  "getOccupancyCount (fst (status_all plain_qt False (map (game_signal_of plain_qt) (fst (snd (notifyPlayerStatuses example_monitor))))
     (HandleGameStatus_new None [] True))) = int (card {n. n < 10 \<and> isSlotUsed example_monitor n})"
  using slots_mirror_battleroom [OF room_ok_new _ _ _ surjective_pairing, of example_monitor
      "fst (notifyPlayerStatuses example_monitor)" "fst (snd (notifyPlayerStatuses example_monitor))" plain_qt False None "[]" True]
    example_notified
  by (auto simp: prod_eq_iff plain_qt_def)

end
