(* ===== verification/Ta_Lobby.thy ===== *)
theory Ta_Lobby
  imports Game_Status Game_Node
begin

text \<open>
  The lobby (\<open>apps/gpgnet4ta/TaLobby.cpp\<close>), which joins the transport node, the game node, the packet parser, the game monitor
  and the recording client, and the commands of the lobby server and the console that reach it
  (\<open>doMain\<close> of \<open>gpgnet4ta.cpp\<close>).

  The lobby's objects are the components of one record. The transport node belongs to the game node, with which it is
  made, and the packet parser to the game node as soon as there is one. Of the parser's handlers number 0 is the
  game monitor and number 1 the recording client. What Qt and the system decide is the parameter \<open>lobby_env\<close>: texts
  as addresses and numbers, the time, the sockets. A null pointer that is used is the error \<open>Undefined\<close>. The order of
  \<open>m_tafnetIdsByPlayerName\<close> is that of the bytes of the names.
\<close>

section \<open>State\<close>

record lobby_env =
  lo_qtv :: qtv
  lo_address :: "bytestring \<Rightarrow> u32"
  lo_game :: game_env
  lo_now :: i64
  lo_occupied :: "u16 list"
  lo_garbage :: byte

record TaLobby =
  ta_lobbyBindAddress :: u32
  ta_lobbyPortOverride :: u16
  ta_proactiveResend :: bool
  ta_maxPacketSize :: u32
  ta_pingInterval :: int
  ta_pingTimer :: bool
  ta_game :: "TafnetGameNode option"
  ta_packetParser :: TAPacketParser
  ta_gameMonitor :: GameMonitor2
  ta_demoClient :: "DemoClient option"
  ta_ids :: "(bytestring, u32) std_map"

datatype lobby_event =
    LobbyBound u32 u16
  | FromGame effect
  | Reported monitor_event
  | Recorded bytestring
  | PingStats "(u32 \<times> i64) list"
  | StartPositions bytestring

type_synonym lobby_result = "cpp_error + TaLobby \<times> lobby_event list"

definition TICKS_TO_GAME_START :: u32 where "TICKS_TO_GAME_START = 1800"
definition TICKS_TO_GAME_DRAW :: u32 where "TICKS_TO_GAME_DRAW = 60"

definition SplitHostAndPort :: "lobby_env \<Rightarrow> bytestring \<Rightarrow> u32 \<times> u16 \<Rightarrow> u32 \<times> u16" where
  "SplitHostAndPort env hostAndPort hp =
     (let parts = split_on 0x3a hostAndPort in
      if length parts = 1 then (lo_address env (parts ! 0), snd hp)
      else if length parts > 1
      then (lo_address env (parts ! 0), word_of_int (bytesToInt (qt_of (lo_qtv env)) (parts ! 1)))
      else hp)"

definition TaLobby_new :: "lobby_env \<Rightarrow> bytestring \<Rightarrow> bool \<Rightarrow> u32 \<Rightarrow> TaLobby" where
  "TaLobby_new env lobbyBindAddress proactiveResend maxSize =
     (let (addr, prt) = SplitHostAndPort env lobbyBindAddress (lo_address env (ascii ''127.0.0.1''), 0) in
      \<lparr>ta_lobbyBindAddress = addr, ta_lobbyPortOverride = prt, ta_proactiveResend = proactiveResend,
       ta_maxPacketSize = maxSize, ta_pingInterval = 3000, ta_pingTimer = False, ta_game = None,
       ta_packetParser = subscribe (Some 0) mkTAPacketParser,
       ta_gameMonitor = GameMonitor2_new True TICKS_TO_GAME_START TICKS_TO_GAME_DRAW, ta_demoClient = None, ta_ids = []\<rparr>)"

text \<open>The parser belongs to the game node once that exists.\<close>

definition enableForwardToDemoCompiler :: "bytestring \<Rightarrow> u16 \<Rightarrow> u32 \<Rightarrow> TaLobby \<Rightarrow> TaLobby" where
  "enableForwardToDemoCompiler hostName prt tafGameId t =
     (let t1 = t\<lparr>ta_demoClient := Some (DemoClient_new hostName prt tafGameId)\<rparr> in
      case ta_game t of
        None \<Rightarrow> t1\<lparr>ta_packetParser := subscribe (Some 1) (ta_packetParser t)\<rparr>
      | Some g \<Rightarrow> t1\<lparr>ta_game := Some (g\<lparr>m_packetParser := map_option (subscribe (Some 1)) (m_packetParser g)\<rparr>)\<rparr>)"

definition setPeerPingInterval :: "int \<Rightarrow> TaLobby \<Rightarrow> TaLobby" where
  "setPeerPingInterval milliseconds t = t\<lparr>ta_pingInterval := milliseconds\<rparr>"

definition getLocalPlayerDplayId :: "TaLobby \<Rightarrow> u32" where
  "getLocalPlayerDplayId t = m_localDplayId (ta_gameMonitor t)"

definition on_demo :: "(DemoClient \<Rightarrow> DemoClient) \<Rightarrow> TaLobby \<Rightarrow> TaLobby" where
  "on_demo f t = t\<lparr>ta_demoClient := map_option f (ta_demoClient t)\<rparr>"

definition on_monitor :: "(GameMonitor2 \<Rightarrow> GameMonitor2) \<Rightarrow> TaLobby \<Rightarrow> TaLobby" where
  "on_monitor f t = t\<lparr>ta_gameMonitor := f (ta_gameMonitor t)\<rparr>"

definition remember_id :: "bytestring \<Rightarrow> int \<Rightarrow> TaLobby \<Rightarrow> TaLobby" where
  "remember_id palias pid t = t\<lparr>ta_ids := std_put palias (word_of_int pid) (ta_ids t)\<rparr>"

section \<open>Commands of the lobby server\<close>

definition ta_onCreateLobby :: "lobby_env \<Rightarrow> int \<Rightarrow> bytestring \<Rightarrow> bytestring \<Rightarrow> int \<Rightarrow> TaLobby \<Rightarrow> lobby_result" where
  "ta_onCreateLobby env lport palias realName pid t =
     (if ta_game t \<noteq> None then Inr (t, [])
      else
        let t1 = on_demo (Demo_Client.setLocalPlayerName palias) (on_demo (Demo_Client.setHostPlayerName palias)
              (on_monitor (\<lambda>m. setPlayerRealName palias realName
                 (Game_Monitor.setLocalPlayerName palias (Game_Monitor.setHostPlayerName palias m)))
               (remember_id palias pid t)));
            node = TafnetNode_new (word_of_int pid) False (ta_proactiveResend t) (ta_maxPacketSize t);
            bindPort = (if ta_lobbyPortOverride t \<noteq> 0 then ta_lobbyPortOverride t else word_of_int lport)
        in Inr (t1\<lparr>ta_game := Some (TafnetGameNode_new node (Some (ta_packetParser t)) (lo_occupied env)), ta_pingTimer := True\<rparr>,
                [LobbyBound (ta_lobbyBindAddress t) bindPort]))"

text \<open>The transport node and the game node learn of a peer; \<open>meet\<close> is \<open>joinGame\<close> or \<open>connectToPeer\<close>.\<close>

definition meet_peer ::
  "lobby_env \<Rightarrow> (i64 \<Rightarrow> HostAndPort \<Rightarrow> u32 \<Rightarrow> TafnetNode \<Rightarrow> node_result) \<Rightarrow> bytestring \<Rightarrow> int \<Rightarrow> u16 \<Rightarrow> TafnetGameNode \<Rightarrow>
     cpp_error + TafnetGameNode \<times> lobby_event list" where
  "meet_peer env meet host pid isHostEnumPort g =
     (let (addr, prt) = SplitHostAndPort env host (lo_address env (ascii ''127.0.0.1''), 6112) in
      map_sum id (\<lambda>(n, evs). (registerRemotePlayer (lo_game env) (word_of_int pid) isHostEnumPort (g\<lparr>m_tafnetNode := n\<rparr>),
                             map (FromGame \<circ> Net) evs))
        (meet (lo_now env) (HostAndPort addr prt) (word_of_int pid) (m_tafnetNode g)))"

definition ta_onJoinGame :: "lobby_env \<Rightarrow> bytestring \<Rightarrow> bytestring \<Rightarrow> bytestring \<Rightarrow> int \<Rightarrow> TaLobby \<Rightarrow> lobby_result" where
  "ta_onJoinGame env host palias realName pid t =
     (case ta_game t of
        None \<Rightarrow> Inr (t, [])
      | Some g \<Rightarrow>
          let t1 = on_demo (Demo_Client.setHostPlayerName palias)
                (on_monitor (\<lambda>m. setPlayerRealName palias realName (Game_Monitor.setHostPlayerName palias m))
                   (remember_id palias pid t))
          in map_sum id (\<lambda>(g', out). (t1\<lparr>ta_game := Some g'\<rparr>, out)) (meet_peer env Tafnet_Node.joinGame host pid 47624 g))"

definition ta_onConnectToPeer :: "lobby_env \<Rightarrow> bytestring \<Rightarrow> bytestring \<Rightarrow> bytestring \<Rightarrow> int \<Rightarrow> TaLobby \<Rightarrow> lobby_result" where
  "ta_onConnectToPeer env host palias realName pid t =
     (case ta_game t of
        None \<Rightarrow> Inr (t, [])
      | Some g \<Rightarrow>
          let t1 = on_monitor (setPlayerRealName palias realName) (remember_id palias pid t)
          in map_sum id (\<lambda>(g', out). (t1\<lparr>ta_game := Some g'\<rparr>, out)) (meet_peer env Tafnet_Node.connectToPeer host pid 0 g))"

definition ta_onDisconnectFromPeer :: "int \<Rightarrow> TaLobby \<Rightarrow> lobby_result" where
  "ta_onDisconnectFromPeer pid t =
     (case ta_game t of
        None \<Rightarrow> Inr (t, [])
      | Some g \<Rightarrow> Inr (t\<lparr>ta_game := Some (unregisterRemotePlayer (word_of_int pid)
          (g\<lparr>m_tafnetNode := Tafnet_Node.disconnectFromPeer (word_of_int pid) (m_tafnetNode g)\<rparr>))\<rparr>, []))"

text \<open>The timer that \<open>onCreateLobby\<close> starts.\<close>

definition ta_onPingTimer :: "lobby_env \<Rightarrow> TaLobby \<Rightarrow> lobby_result" where
  "ta_onPingTimer env t =
     (case ta_game t of
        None \<Rightarrow> Inr (t, [])
      | Some g \<Rightarrow>
          let lags = getPingToPeers (lo_now env) (m_tafnetNode g);
              (n, evs) = sendPingToPeers (lo_now env) (m_tafnetNode g)
          in Inr (t\<lparr>ta_game := Some (g\<lparr>m_tafnetNode := n\<rparr>)\<rparr>,
                  map (FromGame \<circ> Net) evs @ (if lags = [] then [] else [PingStats lags])))"

section \<open>Players\<close>

definition getPlayerNameFromTafnetId :: "u32 \<Rightarrow> TaLobby \<Rightarrow> bytestring" where
  "getPlayerNameFromTafnetId tafnetId t =
     (case filter (\<lambda>(name, n). n = tafnetId) (ta_ids t) of [] \<Rightarrow> [] | (name, _) # _ \<Rightarrow> name)"

definition getDplayIdFromTafnetId :: "u32 \<Rightarrow> TaLobby \<Rightarrow> cpp_error + u32" where
  "getDplayIdFromTafnetId tafnetId t =
     (case filter (\<lambda>(name, n). n = tafnetId \<and> name \<in> getPlayerNames True False (ta_gameMonitor t)) (ta_ids t) of
        [] \<Rightarrow> Inr 0
      | (name, _) # _ \<Rightarrow> map_sum id pd_dplayid (getPlayerData_by_name name (ta_gameMonitor t)))"

text \<open>A chat message for the local player; \<open>operator[]\<close> on a name that is there adds nothing.\<close>

definition echoToGame :: "lobby_env \<Rightarrow> bool \<Rightarrow> bytestring \<Rightarrow> bytestring \<Rightarrow> TaLobby \<Rightarrow> cpp_error + lobby_event list" where
  "echoToGame env isPrivate name chat t =
     (if ends_with (ascii ''[ingame]'') name then Inr []
      else
        let tafnetId = (case map_of (ta_ids t) name of None \<Rightarrow> 0 | Some n \<Rightarrow> n);
            m = ta_gameMonitor t;
            others = filter (\<lambda>n. n \<noteq> m_localPlayerName m) (sorted_list_of_set (getPlayerNames True True m))
        in try_then (case others of [] \<Rightarrow> Inr 0 | n # _ \<Rightarrow> map_sum id pd_dplayid (getPlayerData_by_name n m)) (\<lambda>dplayId.
             case ta_game t of
               None \<Rightarrow> Inl Undefined
             | Some g \<Rightarrow> Inr (map FromGame (messageToLocalPlayer dplayId tafnetId isPrivate name chat g))))"

section \<open>Messages of the console\<close>

definition ta_onExtendedMessage :: "lobby_env \<Rightarrow> bytestring \<Rightarrow> TaLobby \<Rightarrow> lobby_result" where
  "ta_onExtendedMessage env msg t =
     (let args = split_on 0x20 msg;
          ids = map (bytesToUInt (lo_qtv env)) (split_on 0x2c (args ! 1)) in
      if starts_with (ascii ''/launch'') msg
      then if length args > 1
           then case ta_game t of
                  None \<Rightarrow> Inl Undefined
                | Some g \<Rightarrow> Inr (t\<lparr>ta_game := Some (setPlayerInviteOrder ids g)\<rparr>, [])
           else Inr (t, [])
      else if starts_with (ascii ''/startpositions'') msg
      then if length args > 1
           then case ta_game t of
                  None \<Rightarrow> Inl Undefined
                | Some g \<Rightarrow> map_sum id (\<lambda>bs. (t, [StartPositions bs]))
                    (start_positions (filter (\<lambda>n. n \<noteq> []) (map (\<lambda>i. getPlayerNameFromTafnetId i t) ids)))
           else Inr (t, [])
      else Inr (t, []))"

section \<open>What the packet parser reports\<close>

text \<open>
  A call of one of the two handlers. An exception ends the delivery of the packet; what the handlers did before it
  remains.
\<close>

definition call_monitor :: "lobby_env \<Rightarrow> handler_call \<Rightarrow> TaLobby \<Rightarrow> TaLobby \<times> lobby_event list \<times> cpp_error option" where
  "call_monitor env c t = (let (m, es, x) = monitor_call (lo_garbage env) c (ta_gameMonitor t)
                           in (t\<lparr>ta_gameMonitor := m\<rparr>, map Reported es, x))"

fun demo_call :: "lobby_env \<Rightarrow> handler_call \<Rightarrow> DemoClient \<Rightarrow> DemoClient \<times> bytestring \<times> cpp_error option" where
  "demo_call env (OnDplaySuperEnumPlayerReply dplayId name tcp udp) c =
     Demo_Client.onDplaySuperEnumPlayerReply (lo_qtv env) dplayId name c"
| "demo_call env (OnDplayCreateOrForwardPlayer cmd dplayId name tcp udp) c =
     Demo_Client.onDplayCreateOrForwardPlayer (lo_qtv env) cmd dplayId name c"
| "demo_call env (OnDplayDeletePlayer dplayId) c = (Demo_Client.onDplayDeletePlayer dplayId c, [], None)"
| "demo_call env (OnTaPacket sourceDplayId otherDplayId isLocal encrypted subpaks) c =
     (case client_onTaPacket (lo_qtv env) (lo_garbage env) sourceDplayId isLocal subpaks c of
        None \<Rightarrow> (c, [], Some Undefined) | Some (c', bs) \<Rightarrow> (c', bs, None))"

definition call_demo :: "lobby_env \<Rightarrow> handler_call \<Rightarrow> TaLobby \<Rightarrow> TaLobby \<times> lobby_event list \<times> cpp_error option" where
  "call_demo env c t = (case ta_demoClient t of
     None \<Rightarrow> (t, [], Some Undefined)
   | Some d \<Rightarrow> let (d', bs, x) = demo_call env c d
               in (t\<lparr>ta_demoClient := Some d'\<rparr>, if bs = [] then [] else [Recorded bs], x))"

fun deliver :: "lobby_env \<Rightarrow> effect list \<Rightarrow> TaLobby \<Rightarrow> TaLobby \<times> lobby_event list \<times> cpp_error option" where
  "deliver env [] t = (t, [], None)"
| "deliver env (Call h c # es) t =
     (case (if h = 0 then call_monitor env c t else call_demo env c t) of
        (t1, out, Some x) \<Rightarrow> (t1, out, Some x)
      | (t1, out, None) \<Rightarrow> let (t2, out2, x) = deliver env es t1 in (t2, out @ out2, x))"
| "deliver env (e # es) t = (let (t1, out, x) = deliver env es t in (t1, FromGame e # out, x))"

section \<open>The program's connections\<close>

text \<open>
  \<open>doMain\<close> connects the signals of the GPGnet client with the lobby and the launcher, in this order; \<open>details\<close> is
  \<open>getMapDetails\<close> and \<open>autolaunch\<close> the option of that name.
\<close>

type_synonym app_result = "cpp_error + TaLobby \<times> GameLauncher \<times> lobby_event list \<times> launcher_event list"

definition lobby_then_launcher :: "lobby_result \<Rightarrow> (GameLauncher \<Rightarrow> launcher_step) \<Rightarrow> GameLauncher \<Rightarrow> app_result" where
  "lobby_then_launcher r f g = map_sum id (\<lambda>(t, out). let (g', out') = f g in (t, g', out, out')) r"

definition also_start :: "launcher_env \<Rightarrow> bool \<Rightarrow> launcher_step \<Rightarrow> launcher_step" where
  "also_start le autolaunch r =
     (let (g, out) = r in if autolaunch then (let (g', out') = onStartApplication le g in (g', out @ out')) else (g, out))"

fun app_signal ::
  "lobby_env \<Rightarrow> launcher_env \<Rightarrow> (bytestring \<Rightarrow> bytestring) \<Rightarrow> bool \<Rightarrow> gpgnet_signal \<Rightarrow> TaLobby \<Rightarrow> GameLauncher \<Rightarrow> app_result" where
  "app_signal env le details autolaunch (createLobby proto lport palias realName pid nt) t g =
     lobby_then_launcher (ta_onCreateLobby env lport palias realName pid t) (gl_onCreateLobby palias pid) g"
| "app_signal env le details autolaunch (hostGame mapName) t g =
     lobby_then_launcher (Inr (t, [])) (\<lambda>g. also_start le autolaunch (gl_onHostGame le mapName (details mapName) g)) g"
| "app_signal env le details autolaunch (gpgnet_signal.joinGame host palias realName pid) t g =
     lobby_then_launcher (ta_onJoinGame env host palias realName pid t) (\<lambda>g. also_start le autolaunch (gl_onJoinGame le g)) g"
| "app_signal env le details autolaunch (gpgnet_signal.connectToPeer host palias realName pid) t g =
     lobby_then_launcher (ta_onConnectToPeer env host palias realName pid t) (\<lambda>g. (g, [])) g"
| "app_signal env le details autolaunch (gpgnet_signal.disconnectFromPeer pid) t g =
     lobby_then_launcher (ta_onDisconnectFromPeer pid t) (\<lambda>g. (g, [])) g"

text \<open>A line of text on the console goes to the launcher first.\<close>

definition app_console :: "lobby_env \<Rightarrow> launcher_env \<Rightarrow> bytestring \<Rightarrow> TaLobby \<Rightarrow> GameLauncher \<Rightarrow> app_result" where
  "app_console env le msg t g =
     (let (g', out') = gl_onExtendedMessage le msg g
      in map_sum id (\<lambda>(t', out). (t', g', out, out')) (ta_onExtendedMessage env msg t))"

end
