(* ===== verification/Lobby_Run.thy ===== *)
theory Lobby_Run
  imports Ta_Lobby
begin

text \<open>
  Runs of the lobby: the lobby server's commands, the console's messages, the ping timer and the calls of the packet
  parser, in any order.
\<close>

section \<open>Runs\<close>

datatype lobby_input =
    LCreate int bytestring bytestring int
  | LJoin bytestring bytestring bytestring int
  | LConnect bytestring bytestring bytestring int
  | LDisconnect int
  | LPing
  | LConsole bytestring
  | LPackets "(handler \<times> handler_call) list"

text \<open>Packets reach the parser through the game node only: without one there are no calls.\<close>

fun lobby_input_step :: "lobby_env \<Rightarrow> lobby_input \<Rightarrow> TaLobby \<Rightarrow> lobby_result" where
  "lobby_input_step env (LCreate lport palias realName pid) t = ta_onCreateLobby env lport palias realName pid t"
| "lobby_input_step env (LJoin host palias realName pid) t = ta_onJoinGame env host palias realName pid t"
| "lobby_input_step env (LConnect host palias realName pid) t = ta_onConnectToPeer env host palias realName pid t"
| "lobby_input_step env (LDisconnect pid) t = ta_onDisconnectFromPeer pid t"
| "lobby_input_step env LPing t = ta_onPingTimer env t"
| "lobby_input_step env (LConsole msg) t = ta_onExtendedMessage env msg t"
| "lobby_input_step env (LPackets calls) t =
     (if ta_game t = None then Inr (t, [])
      else case deliver env (map (\<lambda>(h, c). Call h c) calls) t of
             (t', out, Some Undefined) \<Rightarrow> Inl Undefined | (t', out, _) \<Rightarrow> Inr (t', out))"

fun names_given :: "lobby_input \<Rightarrow> bool" where
  "names_given (LCreate lport palias realName pid) = (palias \<noteq> [])"
| "names_given (LJoin host palias realName pid) = (palias \<noteq> [])"
| "names_given _ = True"

inductive lobby_run :: "TaLobby \<Rightarrow> TaLobby \<Rightarrow> bool" for t0 where
  start: "lobby_run t0 t0"
| step: "lobby_run t0 t \<Longrightarrow> names_given i \<Longrightarrow> lobby_input_step env i t = Inr (t', out) \<Longrightarrow> lobby_run t0 t'"

section \<open>What the nodes keep\<close>

lemma resendRate_peers: "resendRate_for inc dest n = (k, n') \<Longrightarrow> m_peerAddresses n' = m_peerAddresses n"
  by (auto dest: send_frame_resendRate send_frameD(4))

lemma send_fragments_peers: "send_fragments tNow dest action sz s n = (n', evs) \<Longrightarrow> m_peerAddresses n' = m_peerAddresses n"
proof (induction "length s" arbitrary: s n n' evs rule: less_induct)
  case less
  show ?case
  proof (cases "s = [] \<or> sz = 0")
    case False
    then have "length (drop sz s) < length s" by simp
    obtain n2 out where "send_fragments tNow dest action sz (drop sz s) n2 = (n', out)" "m_peerAddresses n2 = m_peerAddresses n"
      using less.prems False
      by (subst (asm) send_fragments.simps) (auto simp: Let_def split: prod.split_asm dest!: resendRate_peers)
    with less.hyps [OF \<open>length (drop sz s) < length s\<close>] show ?thesis by metis
  qed (use less.prems in \<open>simp add: send_fragments.simps\<close>)
qed

lemma forwardGameData_peers:
  "forwardGameData tNow dest action s n = Inr (n', evs) \<Longrightarrow> m_peerAddresses n' = m_peerAddresses n"
  by (auto simp: forwardGameData_def Let_def split: if_splits option.splits prod.splits
      dest!: send_fragments_peers resendRate_peers)

lemma disconnect_peers: "m_peerAddresses (Tafnet_Node.disconnectFromPeer p n) = std_erase p (m_peerAddresses n)"
  by (simp add: Tafnet_Node.disconnectFromPeer_def forget_peer_def)

abbreviation keys :: "('k \<times> 'v) list \<Rightarrow> 'k set" where
  "keys m \<equiv> fst ` set m"

lemma keys_erase [simp]: "keys (std_erase k m) = keys m - {k}"
  by (auto simp: std_erase_def)

lemma meet_peers:
  assumes "meet \<in> {Tafnet_Node.joinGame, Tafnet_Node.connectToPeer}" and "meet tNow hp p n = Inr (n', evs)"
  shows "keys (m_peerAddresses n') = insert p (keys (m_peerAddresses n))"
proof -
  have "m_peerAddresses n' = std_put p hp (m_peerAddresses n)"
    using assms by (auto simp: Tafnet_Node.joinGame_def Tafnet_Node.connectToPeer_def forget_peer_def dest!: forwardGameData_peers)
  then show ?thesis by simp
qed

lemma ping_peers: "ping_loop tNow d ps n = (n', evs, lost) \<Longrightarrow> m_peerAddresses n' = m_peerAddresses n"
proof (induction ps arbitrary: n n' evs lost)
  case (Cons a ps)
  let ?s = "rates_of n (snd a)"
  let ?r = "if timestampFirstPing ?s = 0 then ?s\<lparr>timestampFirstPing := tNow\<rparr> else ?s"
  consider evs2 lost2 where "ping_loop tNow d ps (put_rates (snd a) ?s n) = (n', evs2, lost2)"
    | evs2 lost2 where "ping_loop tNow d ps (put_rates (snd a) (?r\<lparr>timestampLastPing := tNow\<rparr>) (put_rates (snd a) ?s n)) = (n', evs2, lost2)"
    using Cons.prems by (cases a) (simp only: ping_loop.simps Let_def snd_conv split: if_split_asm prod.split_asm; auto)
  then show ?case by cases (auto dest: Cons.IH)
qed simp

lemma fold_disconnect_peers: "keys (m_peerAddresses (fold Tafnet_Node.disconnectFromPeer ps n)) \<subseteq> keys (m_peerAddresses n)"
proof (induction ps arbitrary: n)
  case (Cons p ps)
  have "keys (m_peerAddresses (Tafnet_Node.disconnectFromPeer p n)) \<subseteq> keys (m_peerAddresses n)"
    by (simp only: disconnect_peers keys_erase) blast
  with Cons.IH [of "Tafnet_Node.disconnectFromPeer p n"] show ?case by (simp only: fold_simps)
qed simp

lemma sendPing_peers:
  assumes "sendPingToPeers tNow n = (n', evs)"
  shows "keys (m_peerAddresses n') \<subseteq> keys (m_peerAddresses n)"
proof -
  obtain n1 lost d where "ping_loop tNow d (m_peerPlayerIds n) n = (n1, evs, lost)"
    and "n' = fold Tafnet_Node.disconnectFromPeer (sorted_list_of_set (set lost)) n1"
    using assms by (auto simp: sendPingToPeers_def Let_def split: prod.splits)
  then show ?thesis using fold_disconnect_peers ping_peers by metis
qed

text \<open>The invariant of a game node as the lobby keeps it.\<close>

definition peers_ok :: "TafnetGameNode \<Rightarrow> bool" where
  "peers_ok g = (keys (m_peerAddresses (m_tafnetNode g)) \<subseteq> keys (m_gameSenders g) \<and>
     keys (m_gameSenders g) = keys (m_gameReceivers g) \<and> set (m_playerInviteOrder g) \<subseteq> keys (m_gameSenders g) \<and>
     std_ok (m_gameSenders g) \<and> std_ok (m_gameReceivers g))"

lemma keys_map_of: "map_of m k = Some v \<Longrightarrow> insert k (keys m) = keys m"
  by (metis domI dom_map_of_conv_image_fst insert_absorb)

lemma register_keys:
  "keys (m_gameSenders (registerRemotePlayer e p prt g)) = insert p (keys (m_gameSenders g))"
  "keys (m_gameReceivers (registerRemotePlayer e p prt g)) = insert p (keys (m_gameReceivers g))"
  "m_tafnetNode (registerRemotePlayer e p prt g) = m_tafnetNode g"
  "m_playerInviteOrder (registerRemotePlayer e p prt g) = m_playerInviteOrder g"
  "std_ok (m_gameSenders g) \<Longrightarrow> std_ok (m_gameSenders (registerRemotePlayer e p prt g))"
  "std_ok (m_gameReceivers g) \<Longrightarrow> std_ok (m_gameReceivers (registerRemotePlayer e p prt g))"
  by (auto simp: registerRemotePlayer_def getGameSender_def getGameReceiver_def Let_def keys_map_of split: option.splits)

lemma unregister_keys:
  "keys (m_gameSenders (unregisterRemotePlayer p g)) = keys (m_gameSenders g) - {p}"
  "keys (m_gameReceivers g) = keys (m_gameSenders g) \<Longrightarrow> keys (m_gameReceivers (unregisterRemotePlayer p g)) = keys (m_gameReceivers g) - {p}"
  "m_tafnetNode (unregisterRemotePlayer p g) = m_tafnetNode g"
  "set (m_playerInviteOrder (unregisterRemotePlayer p g)) = set (m_playerInviteOrder g) - {p}"
  "std_ok (m_gameSenders g) \<Longrightarrow> std_ok (m_gameSenders (unregisterRemotePlayer p g))"
  "std_ok (m_gameReceivers g) \<Longrightarrow> std_ok (m_gameReceivers (unregisterRemotePlayer p g))"
  by (auto simp: unregisterRemotePlayer_def killGameReceiver_def killGameSender_def Let_def map_of_eq_None_iff split: option.splits)

lemma peers_ok_new: "peers_ok (TafnetGameNode_new (TafnetNode_new p b r k) ps occ)"
  by (simp add: peers_ok_def TafnetGameNode_new_def TafnetNode_new_def)

lemma peers_ok_meet:
  assumes "meet \<in> {Tafnet_Node.joinGame, Tafnet_Node.connectToPeer}" and "meet_peer env meet host pid prt g = Inr (g', out)" and "peers_ok g"
  shows "peers_ok g'"
proof -
  obtain hp n evs where n: "meet (lo_now env) hp (word_of_int pid) (m_tafnetNode g) = Inr (n, evs)"
    "g' = registerRemotePlayer (lo_game env) (word_of_int pid) prt (g\<lparr>m_tafnetNode := n\<rparr>)"
    using assms(2) by (auto simp: meet_peer_def Let_def map_sum_def split: prod.splits sum.splits)
  show ?thesis using assms(3) meet_peers [OF assms(1) n(1)]
    by (auto simp: n(2) peers_ok_def register_keys simp del: keys_erase)
qed

lemma peers_ok_disconnect:
  assumes "peers_ok g"
  shows "peers_ok (unregisterRemotePlayer p (g\<lparr>m_tafnetNode := Tafnet_Node.disconnectFromPeer p (m_tafnetNode g)\<rparr>))"
    (is "peers_ok (unregisterRemotePlayer p ?g)")
proof -
  have eq: "keys (m_peerAddresses (m_tafnetNode (unregisterRemotePlayer p ?g))) = keys (m_peerAddresses (m_tafnetNode g)) - {p}"
    "keys (m_gameSenders (unregisterRemotePlayer p ?g)) = keys (m_gameSenders g) - {p}"
    "keys (m_gameReceivers (unregisterRemotePlayer p ?g)) = keys (m_gameReceivers g) - {p}"
    "set (m_playerInviteOrder (unregisterRemotePlayer p ?g)) = set (m_playerInviteOrder g) - {p}"
    using assms unregister_keys(2) [of ?g p]
    by (simp_all add: unregister_keys(1,3,4) disconnect_peers keys_erase peers_ok_def del: image_diff_subset)
  have f: "keys (m_peerAddresses (m_tafnetNode g)) \<subseteq> keys (m_gameSenders g)" "keys (m_gameSenders g) = keys (m_gameReceivers g)"
    "set (m_playerInviteOrder g) \<subseteq> keys (m_gameSenders g)" "std_ok (m_gameSenders g)" "std_ok (m_gameReceivers g)"
    using assms unfolding peers_ok_def by - (elim conjE; assumption)+
  show ?thesis
    unfolding peers_ok_def eq
    by (intro conjI Diff_mono subset_refl unregister_keys(5,6) f(1,3) arg_cong2 [of _ _ _ _ minus] f(2) refl)
       (simp_all add: f(4,5))
qed

lemma peers_ok_fewer:
  assumes "peers_ok g" and "keys (m_peerAddresses n) \<subseteq> keys (m_peerAddresses (m_tafnetNode g))"
  shows "peers_ok (g\<lparr>m_tafnetNode := n\<rparr>)"
proof -
  have "keys (m_peerAddresses n) \<subseteq> keys (m_gameSenders g)"
    using assms unfolding peers_ok_def by (elim conjE) (rule subset_trans)
  moreover have "m_gameSenders (g\<lparr>m_tafnetNode := n\<rparr>) = m_gameSenders g" "m_gameReceivers (g\<lparr>m_tafnetNode := n\<rparr>) = m_gameReceivers g"
    "m_playerInviteOrder (g\<lparr>m_tafnetNode := n\<rparr>) = m_playerInviteOrder g" "m_tafnetNode (g\<lparr>m_tafnetNode := n\<rparr>) = n"
    by simp_all
  ultimately show ?thesis using assms(1) unfolding peers_ok_def by (metis (no_types, lifting))
qed

section \<open>The monitor and the recording client\<close>

lemma ok_names [simp]:
  "frozen_ok (m\<lparr>m_hostPlayerName := h\<rparr>) = frozen_ok m" "frozen_ok (m\<lparr>m_playerRealNames := rn\<rparr>) = frozen_ok m"
  "verdict_ok (m\<lparr>m_hostPlayerName := h\<rparr>) = verdict_ok m" "verdict_ok (m\<lparr>m_playerRealNames := rn\<rparr>) = verdict_ok m"
  by (simp_all add: frozen_ok_def verdict_ok_def verdict_def one_team_def fteam_def cong: Status.case_cong)

lemma gm_ok_renamed [simp]:
  "h \<noteq> [] \<Longrightarrow> gm_ok m \<Longrightarrow> gm_ok (Game_Monitor.setHostPlayerName h m)"
  "gm_ok (setPlayerRealName p r m) = gm_ok m"
  "m_gameEventHandler (Game_Monitor.setHostPlayerName h m) = m_gameEventHandler m"
  "m_gameEventHandler (setPlayerRealName p r m) = m_gameEventHandler m"
  by (auto simp: gm_ok_def base_ok_def Game_Monitor.setHostPlayerName_def setPlayerRealName_def)

definition demo_ok :: "DemoClient option \<Rightarrow> bool" where
  "demo_ok d = (case d of None \<Rightarrow> True | Some c \<Rightarrow> cl_hostPlayerName c \<noteq> [] \<and> cl_localPlayerName c \<noteq> [])"

definition fresh_monitor :: GameMonitor2 where
  "fresh_monitor = GameMonitor2_new True TICKS_TO_GAME_START TICKS_TO_GAME_DRAW"

definition lobby_ok :: "TaLobby \<Rightarrow> bool" where
  "lobby_ok t = (case ta_game t of
     None \<Rightarrow> ta_gameMonitor t = fresh_monitor
   | Some g \<Rightarrow> peers_ok g \<and> gm_ok (ta_gameMonitor t) \<and> m_gameEventHandler (ta_gameMonitor t) \<and> demo_ok (ta_demoClient t))"

lemma gm_ok_fresh [simp]:
  "h \<noteq> [] \<Longrightarrow> gm_ok (Game_Monitor.setLocalPlayerName h (Game_Monitor.setHostPlayerName h fresh_monitor))"
  "m_gameEventHandler (Game_Monitor.setLocalPlayerName h (Game_Monitor.setHostPlayerName h fresh_monitor))"
  by (simp_all add: fresh_monitor_def Game_Monitor.setHostPlayerName_def Game_Monitor.setLocalPlayerName_def
      GameMonitor2_new_def gm_ok_def base_ok_def players_ok_def numbered_def)

definition keeps_names :: "DemoClient \<Rightarrow> (DemoClient \<times> 'a) option \<Rightarrow> bool" where
  "keeps_names d r = (\<forall>d' y. r = Some (d', y) \<longrightarrow>
     cl_hostPlayerName d' = cl_hostPlayerName d \<and> cl_localPlayerName d' = cl_localPlayerName d)"

lemma keeps_names_intros:
  "cl_hostPlayerName d' = cl_hostPlayerName d \<and> cl_localPlayerName d' = cl_localPlayerName d \<Longrightarrow> keeps_names d (Some (d', y))"
  "(\<And>x. keeps_names d (f x)) \<Longrightarrow> keeps_names d (Option.bind m f)"
  "(b \<Longrightarrow> keeps_names d r) \<Longrightarrow> (\<not> b \<Longrightarrow> keeps_names d r') \<Longrightarrow> keeps_names d (if b then r else r')"
  by (auto simp: keeps_names_def Option.bind_eq_Some_conv)

lemma client_subpak_names: "keeps_names d (client_subpak q gb src s d)"
  unfolding client_subpak_def Let_def by (intro keeps_names_intros; simp)

lemma keeps_names_then:
  assumes "keeps_names d m" and "\<And>d1 y. keeps_names d1 (f (d1, y))"
  shows "keeps_names d (Option.bind m f)"
  unfolding keeps_names_def
proof (intro allI impI)
  fix d' z
  assume "Option.bind m f = Some (d', z)"
  then obtain d1 y where "m = Some (d1, y)" "f (d1, y) = Some (d', z)" by (cases m) auto
  then show "cl_hostPlayerName d' = cl_hostPlayerName d \<and> cl_localPlayerName d' = cl_localPlayerName d"
    using assms(1) assms(2) [of d1 y] by (metis keeps_names_def)
qed

lemma client_subpaks_names: "keeps_names d (client_subpaks q gb src ss first moves d)"
proof (induction ss arbitrary: first moves d)
  case Nil
  show ?case by (simp add: keeps_names_def)
next
  case (Cons s ss)
  show ?case
    unfolding client_subpaks.simps Let_def
    by (rule keeps_names_then [OF client_subpak_names], simp only: prod.case, rule keeps_names_intros(2), unfold case_prod_beta,
        rule keeps_names_then [OF Cons.IH], rule keeps_names_intros(1), simp)
qed

lemma demo_call_names:
  assumes "demo_call env c d = (d', bs, x)" and "cl_hostPlayerName d \<noteq> []" and "cl_localPlayerName d \<noteq> []"
  shows "cl_hostPlayerName d' \<noteq> [] \<and> cl_localPlayerName d' \<noteq> [] \<and> x \<in> {None, Some Undefined}"
proof (cases c)
  case (OnTaPacket src other isLocal enc subpaks)
  have k: "keeps_names d (client_onTaPacket (lo_qtv env) (lo_garbage env) src isLocal subpaks d)"
    unfolding client_onTaPacket_def case_prod_beta
    by (intro keeps_names_intros(3) keeps_names_then [OF client_subpaks_names]) (simp_all add: keeps_names_def)
  show ?thesis using assms k OnTaPacket
    by (cases "client_onTaPacket (lo_qtv env) (lo_garbage env) src isLocal subpaks d") (auto simp: keeps_names_def)
next
  case (OnDplayDeletePlayer k)
  then show ?thesis using assms by (auto simp: Demo_Client.onDplayDeletePlayer_def Let_def split: if_split_asm)
qed (use assms in \<open>auto simp: Demo_Client.onDplaySuperEnumPlayerReply_def Demo_Client.onDplayCreateOrForwardPlayer_def
    Let_def split: if_split_asm\<close>)

lemma call_monitor_ok:
  assumes "gm_ok (ta_gameMonitor t)" and "m_gameEventHandler (ta_gameMonitor t)" and "call_monitor env c t = (t', out, x)"
  shows "\<exists>m. t' = t\<lparr>ta_gameMonitor := m\<rparr> \<and> x \<in> {None, Some Undefined} \<and> (x = None \<longrightarrow> gm_ok m \<and> m_gameEventHandler m)"
proof -
  obtain m es where m: "monitor_call (lo_garbage env) c (ta_gameMonitor t) = (m, es, x)" "t' = t\<lparr>ta_gameMonitor := m\<rparr>"
    using assms(3) by (auto simp: call_monitor_def split: prod.splits)
  show ?thesis using monitor_call_keeps [OF assms(1), of c "lo_garbage env"] assms(2) m
    by (cases x) (auto simp: keeps_def evolves_def)
qed

lemma deliver_ok:
  assumes "lobby_ok t" and "ta_game t = Some g" and "deliver env es t = (t', out, x)"
  shows "x \<in> {None, Some Undefined} \<and> (x = None \<longrightarrow> lobby_ok t' \<and> ta_game t' = Some g)"
  using assms
proof (induction es arbitrary: t t' out x)
  case (Cons e es)
  show ?case
  proof (cases e)
    case (Call h c)
  obtain t1 o1 y where one: "(if h = 0 then call_monitor env c t else call_demo env c t) = (t1, o1, y)"
    by (cases "if h = 0 then call_monitor env c t else call_demo env c t") auto
  have ok: "peers_ok g" "gm_ok (ta_gameMonitor t)" "m_gameEventHandler (ta_gameMonitor t)" "demo_ok (ta_demoClient t)"
    using Cons.prems(1,2) by (simp_all add: lobby_ok_def)
  have t1: "y \<in> {None, Some Undefined} \<and> (y = None \<longrightarrow> lobby_ok t1 \<and> ta_game t1 = Some g)"
  proof (cases "h = 0")
    case True
    with one call_monitor_ok [OF ok(2,3), of env c t1 o1 y] show ?thesis using ok Cons.prems(2) by (auto simp: lobby_ok_def)
  next
    case False
    then have d: "call_demo env c t = (t1, o1, y)" using one by simp
    show ?thesis
    proof (cases "ta_demoClient t")
      case None
      then show ?thesis using d by (auto simp: call_demo_def)
    next
      case (Some dc)
      then obtain d' bs where c: "demo_call env c dc = (d', bs, y)" "t1 = t\<lparr>ta_demoClient := Some d'\<rparr>"
        using d by (auto simp: call_demo_def Let_def split: prod.splits)
      show ?thesis using demo_call_names [OF c(1)] ok Some Cons.prems(2) by (simp add: c(2) lobby_ok_def demo_ok_def)
    qed
  qed
  show ?thesis
  proof (cases y)
    case None
    then obtain o2 where "deliver env es t1 = (t', o2, x)"
      using Cons.prems(3) one Call by (auto simp: Let_def split: prod.splits if_splits)
    then show ?thesis using Cons.IH [of t1] None t1 by auto
  next
    case (Some z)
    then show ?thesis using Cons.prems(3) one t1 Call by auto
  qed
  next
    case (Net ev)
    then obtain o2 where "deliver env es t = (t', o2, x)" using Cons.prems(3) by (auto split: prod.split_asm)
    from Cons.IH [OF Cons.prems(1,2) this] show ?thesis .
  next
    case (Game ev)
    then obtain o2 where "deliver env es t = (t', o2, x)" using Cons.prems(3) by (auto split: prod.split_asm)
    from Cons.IH [OF Cons.prems(1,2) this] show ?thesis .
  qed
qed simp

lemma lobby_step_ok:
  assumes "lobby_ok t" and "names_given i" and "lobby_input_step env i t = Inr (t', out)"
  shows "lobby_ok t'"
proof (cases "ta_game t")
  case None
  then show ?thesis using assms
    by (cases i) (auto simp: lobby_ok_def ta_onCreateLobby_def ta_onJoinGame_def ta_onConnectToPeer_def
      ta_onDisconnectFromPeer_def ta_onPingTimer_def ta_onExtendedMessage_def Let_def peers_ok_new on_demo_def on_monitor_def
      remember_id_def demo_ok_def Demo_Client.setHostPlayerName_def Demo_Client.setLocalPlayerName_def
      split: if_split_asm option.splits)
next
  case (Some g)
  have ok: "peers_ok g" "gm_ok (ta_gameMonitor t)" "m_gameEventHandler (ta_gameMonitor t)" "demo_ok (ta_demoClient t)"
    using assms(1) Some by (simp_all add: lobby_ok_def)
  show ?thesis
  proof (cases i)
    case (LCreate a b c d)
    then show ?thesis using assms Some by (simp add: ta_onCreateLobby_def)
  next
    case (LJoin a b c d)
    then show ?thesis using assms Some ok
      by (auto simp: ta_onJoinGame_def lobby_ok_def Let_def map_sum_def on_demo_def on_monitor_def remember_id_def demo_ok_def
          Demo_Client.setHostPlayerName_def split: sum.split_asm prod.split_asm option.splits elim!: peers_ok_meet [rotated])
  next
    case (LConnect a b c d)
    then show ?thesis using assms Some ok
      by (auto simp: ta_onConnectToPeer_def lobby_ok_def Let_def map_sum_def on_monitor_def remember_id_def
          split: sum.split_asm prod.split_asm elim!: peers_ok_meet [rotated])
  next
    case (LDisconnect k)
    with peers_ok_disconnect [OF ok(1)] assms(3) Some ok show ?thesis
      by (auto simp: ta_onDisconnectFromPeer_def lobby_ok_def)
  next
    case LPing
    then obtain n evs where "sendPingToPeers (lo_now env) (m_tafnetNode g) = (n, evs)" "t' = t\<lparr>ta_game := Some (g\<lparr>m_tafnetNode := n\<rparr>)\<rparr>"
      using assms(3) Some by (auto simp: ta_onPingTimer_def Let_def split: prod.split_asm)
    with peers_ok_fewer [OF ok(1) sendPing_peers] ok show ?thesis by (simp add: lobby_ok_def)
  next
    case (LConsole msg)
    then show ?thesis using assms Some ok
      by (auto simp: ta_onExtendedMessage_def lobby_ok_def peers_ok_def setPlayerInviteOrder_def Let_def map_sum_def
          map_of_eq_None_iff split: if_split_asm sum.split_asm)
  next
    case (LPackets calls)
    obtain t1 o1 x where d: "deliver env (map (\<lambda>(h, c). Call h c) calls) t = (t1, o1, x)"
      by (cases "deliver env (map (\<lambda>(h, c). Call h c) calls) t")
    show ?thesis using deliver_ok [OF assms(1) Some d] assms(3) LPackets Some d by auto
  qed
qed

lemma lobby_run_ok: "lobby_run t0 t \<Longrightarrow> lobby_ok t0 \<Longrightarrow> lobby_ok t"
  by (induction rule: lobby_run.induct) (auto intro: lobby_step_ok)

lemma lobby_ok_new: "lobby_ok (TaLobby_new env addr r k)" "lobby_ok (enableForwardToDemoCompiler h p gid (TaLobby_new env addr r k))"
  by (simp_all add: lobby_ok_def TaLobby_new_def enableForwardToDemoCompiler_def fresh_monitor_def Let_def split: prod.splits)

section \<open>Properties\<close>


definition example_lobby_env :: lobby_env where
  "example_lobby_env = \<lparr>lo_qtv = \<lparr>qt_of = plain_qt, bytesToUInt = (\<lambda>_. 9), qset_order = id\<rparr>, lo_address = (\<lambda>_. 0x7f000001),
     lo_game = sample_env, lo_now = 0, lo_occupied = [], lo_garbage = 0\<rparr>"

definition example_inputs :: "lobby_input list" where
  "example_inputs = [LCreate 6112 [65] [] 7, LJoin (ascii ''10.0.0.1:6113'') [66] [] 9, LConsole (ascii ''/launch 9'')]"

fun lobby_steps :: "lobby_env \<Rightarrow> lobby_input list \<Rightarrow> TaLobby \<Rightarrow> cpp_error + TaLobby" where
  "lobby_steps env [] t = Inr t"
| "lobby_steps env (i # is) t = try_then (lobby_input_step env i t) (\<lambda>(t1, out). lobby_steps env is t1)"

lemma lobby_steps_run: "lobby_steps env is t = Inr t' \<Longrightarrow> \<forall>i \<in> set is. names_given i \<Longrightarrow> lobby_run t0 t \<Longrightarrow> lobby_run t0 t'"
  by (induction "is" arbitrary: t) (auto simp: try_then_def split: sum.split_asm intro: lobby_run.step)

definition example_lobby :: TaLobby where
  "example_lobby = (case lobby_steps example_lobby_env example_inputs (TaLobby_new example_lobby_env (ascii ''127.0.0.1'') True 1500) of
     Inr t \<Rightarrow> t | Inl _ \<Rightarrow> TaLobby_new example_lobby_env [] True 0)"

lemma example_lobby_steps:
  "lobby_steps example_lobby_env example_inputs (TaLobby_new example_lobby_env (ascii ''127.0.0.1'') True 1500) = Inr example_lobby"
  "map_option m_playerInviteOrder (ta_game example_lobby) = Some [9]"
proof -
  have "map_sum (\<lambda>_. ()) (\<lambda>t. map_option m_playerInviteOrder (ta_game t)) (lobby_steps example_lobby_env example_inputs
     (TaLobby_new example_lobby_env (ascii ''127.0.0.1'') True 1500)) = Inr (Some [9])"
    by code_simp
  then show "lobby_steps example_lobby_env example_inputs (TaLobby_new example_lobby_env (ascii ''127.0.0.1'') True 1500) = Inr example_lobby"
    "map_option m_playerInviteOrder (ta_game example_lobby) = Some [9]"
    by (auto simp: example_lobby_def map_sum_def split: sum.split_asm)
qed


end
