(* ===== verification/Taf_Lobby.thy ===== *)
theory Taf_Lobby
  imports Complex_Main Replay_Server
begin

text \<open>
  The replay server's link to the lobby server (\<open>apps/replayserver/TafLobbyJsonProtocol.cpp\<close>, \<open>TafLobbyClient.cpp\<close>,
  \<open>replayserver.cpp\<close>): JSON commands arrive over a TCP stream; those about games tell the replay server by how much
  viewers have to be behind.

  A \<open>QJsonObject\<close> is the list of its members in the order of the keys, a number of JSON a rational number. The text codec
  with the printer and the parser of JSON is the parameter \<open>lobby_codec\<close>: the bytes of a text, and the object a text
  stands for (the empty object where it stands for none). The decoder is taken to start afresh with each text.
\<close>

section \<open>JSON\<close>

datatype json =
    JNull
  | JBool bool
  | JNumber rat
  | JString bytestring
  | JArray "json list"
  | JObject "(bytestring \<times> json) list"

type_synonym json_object = "(bytestring \<times> json) list"

text \<open>The conversions of a \<open>QJsonValue\<close>; \<open>None\<close> is the undefined value of a member that is missing.\<close>

fun json_toString :: "json option \<Rightarrow> bytestring" where
  "json_toString (Some (JString s)) = s"
| "json_toString _ = []"

fun json_toBool :: "json option \<Rightarrow> bool" where
  "json_toBool (Some (JBool b)) = b"
| "json_toBool _ = False"

fun json_toInt :: "int \<Rightarrow> json option \<Rightarrow> int" where
  "json_toInt d (Some (JNumber r)) = (if r = of_int \<lfloor>r\<rfloor> \<and> - (2 ^ 31) \<le> \<lfloor>r\<rfloor> \<and> \<lfloor>r\<rfloor> < 2 ^ 31 then \<lfloor>r\<rfloor> else d)"
| "json_toInt d _ = d"

fun json_toArray :: "json option \<Rightarrow> json list" where
  "json_toArray (Some (JArray vs)) = vs"
| "json_toArray _ = []"

fun json_toObject :: "json option \<Rightarrow> json_object" where
  "json_toObject (Some (JObject ms)) = ms"
| "json_toObject _ = []"

definition json_value :: "json_object \<Rightarrow> string \<Rightarrow> json option" where
  "json_value ms key = map_of ms (ascii key)"

section \<open>The protocol\<close>

record lobby_codec =
  lc_print :: "json_object \<Rightarrow> bytestring"
  lc_parse :: "bytestring \<Rightarrow> json_object"

text \<open>\<open>operator<<\<close> and \<open>operator>>\<close> of a \<open>QDataStream\<close> for a byte array; \<open>None\<close> is a read past the end.\<close>

definition stream_put :: "bytestring \<Rightarrow> bytestring" where
  "stream_put bs = rev (le32 (word_of_nat (length bs))) @ bs"

definition stream_get :: "bytestring \<Rightarrow> (bytestring \<times> bytestring) option" where
  "stream_get s =
     (if length s < 4 then None
      else let n = mk32 (s ! 3) (s ! 2) (s ! 1) (s ! 0); s' = drop 4 s in
        if n = 0xffffffff then Some ([], s')
        else if length s' < unat n then None
        else Some (take (unat n) s', drop (unat n) s'))"

definition sendJson :: "lobby_codec \<Rightarrow> json_object \<Rightarrow> bytestring" where
  "sendJson k json = stream_put (stream_put (lc_print k json))"

text \<open>The transaction gives all bytes back when they do not suffice: \<open>None\<close> is \<open>DataNotReady\<close>.\<close>

definition receiveJson :: "lobby_codec \<Rightarrow> bytestring \<Rightarrow> (json_object \<times> bytestring) option" where
  "receiveJson k s =
     (case stream_get s of
        None \<Rightarrow> None
      | Some (bytes1, rest) \<Rightarrow> Some (lc_parse k (case stream_get bytes1 of None \<Rightarrow> [] | Some (bytes2, _) \<Rightarrow> bytes2), rest))"

section \<open>The client\<close>

record TafLobbyPlayerInfo =
  pi_id :: int
  pi_login :: bytestring

record TafLobbyGameInfo =
  tg_id :: int
  tg_host :: bytestring
  tg_title :: bytestring
  tg_featuredMod :: bytestring
  tg_mapName :: bytestring
  tg_mapFilePath :: bytestring
  tg_gameType :: bytestring
  tg_ratingType :: bytestring
  tg_visibility :: bytestring
  tg_passwordProtected :: bool
  tg_state :: bytestring
  tg_replayDelaySeconds :: int
  tg_numPlayers :: int
  tg_maxPlayers :: int
  tg_teams :: "(bytestring \<times> bytestring list) list"

definition TafLobbyPlayerInfo_of :: "json_object \<Rightarrow> TafLobbyPlayerInfo" where
  "TafLobbyPlayerInfo_of info =
     \<lparr>pi_id = json_toInt 0 (json_value info ''id''), pi_login = json_toString (json_value info ''login'')\<rparr>"

definition teams_of :: "json_object \<Rightarrow> (bytestring \<times> bytestring list) list" where
  "teams_of info =
     map (\<lambda>(key, members). (key, map (\<lambda>m. json_toString (Some m)) (json_toArray (Some members))))
       (json_toObject (json_value info ''teams''))"

definition TafLobbyGameInfo_of :: "json_object \<Rightarrow> TafLobbyGameInfo" where
  "TafLobbyGameInfo_of info =
     \<lparr>tg_id = json_toInt 0 (json_value info ''uid''),
      tg_host = json_toString (json_value info ''host''),
      tg_title = json_toString (json_value info ''title''),
      tg_featuredMod = json_toString (json_value info ''featured_mod''),
      tg_mapName = json_toString (json_value info ''map_name''),
      tg_mapFilePath = json_toString (json_value info ''map_file_path''),
      tg_gameType = json_toString (json_value info ''game_type''),
      tg_ratingType = json_toString (json_value info ''rating_type''),
      tg_visibility = json_toString (json_value info ''visibility''),
      tg_passwordProtected = json_toBool (json_value info ''password_protected''),
      tg_state = json_toString (json_value info ''state''),
      tg_replayDelaySeconds = json_toInt 300 (json_value info ''replay_delay_seconds''),
      tg_numPlayers = json_toInt 0 (json_value info ''num_players''),
      tg_maxPlayers = json_toInt 0 (json_value info ''max_players''),
      tg_teams = teams_of info\<rparr>"

text \<open>What the client emits, and what it writes to the socket.\<close>

datatype taf_event =
    Notice bytestring bytestring
  | Session int
  | Welcome TafLobbyPlayerInfo
  | PlayerInfoSignal TafLobbyPlayerInfo
  | GameInfoSignal TafLobbyGameInfo
  | WroteJson json_object
  | Connecting bytestring u16

record TafLobbyClient =
  tc_userAgentName :: bytestring
  tc_userAgentVersion :: bytestring
  tc_hostName :: bytestring
  tc_port :: u16

text \<open>\<open>m_port\<close> is not set by the constructor: its first value is an argument.\<close>

definition TafLobbyClient_new :: "u16 \<Rightarrow> bytestring \<Rightarrow> bytestring \<Rightarrow> TafLobbyClient" where
  "TafLobbyClient_new unset agent ver =
     \<lparr>tc_userAgentName = agent, tc_userAgentVersion = ver, tc_hostName = [], tc_port = unset\<rparr>"

definition connectToHost :: "bytestring \<Rightarrow> u16 \<Rightarrow> TafLobbyClient \<Rightarrow> TafLobbyClient" where
  "connectToHost hostName prt c = c\<lparr>tc_hostName := hostName, tc_port := prt\<rparr>"

definition taf_timerEvent :: "socket_state \<Rightarrow> TafLobbyClient \<Rightarrow> taf_event list" where
  "taf_timerEvent st c = (if st = UnconnectedState \<and> tc_hostName c \<noteq> [] \<and> tc_port c > 0 then [Connecting (tc_hostName c) (tc_port c)] else [])"

definition jstr :: "string \<Rightarrow> json" where
  "jstr s = JString (ascii s)"

text \<open>The members of an object go by the order of their keys.\<close>

definition sendAskSession :: "TafLobbyClient \<Rightarrow> taf_event" where
  "sendAskSession c = WroteJson [(ascii ''command'', jstr ''ask_session''), (ascii ''user_agent'', JString (tc_userAgentName c)),
     (ascii ''version'', JString (tc_userAgentVersion c))]"

definition taf_sendHello :: "int \<Rightarrow> bytestring \<Rightarrow> bytestring \<Rightarrow> bytestring \<Rightarrow> bytestring \<Rightarrow> taf_event" where
  "taf_sendHello sessionId uniqueId localIp login password =
     WroteJson [(ascii ''command'', jstr ''hello''), (ascii ''local_ip'', JString localIp), (ascii ''login'', JString login),
       (ascii ''password'', JString password), (ascii ''session'', JNumber (of_int sessionId)), (ascii ''unique_id'', JString uniqueId)]"

definition sendPong :: taf_event where
  "sendPong = WroteJson [(ascii ''command'', jstr ''pong'')]"

definition taf_onSocketStateChanged :: "socket_state \<Rightarrow> TafLobbyClient \<Rightarrow> taf_event list" where
  "taf_onSocketStateChanged st c = (if st = ConnectedState then [sendAskSession c] else [])"

text \<open>A command is taken apart; one without the member \<open>command\<close> makes the code use the end iterator.\<close>

definition games_in :: "json_object \<Rightarrow> TafLobbyGameInfo list" where
  "games_in cmd = (case json_value cmd ''games'' of
     None \<Rightarrow> [TafLobbyGameInfo_of cmd]
   | Some v \<Rightarrow> map (\<lambda>g. TafLobbyGameInfo_of (json_toObject (Some g))) (json_toArray (Some v)))"

definition taf_dispatch :: "json_object \<Rightarrow> cpp_error + taf_event list" where
  "taf_dispatch cmd = (case json_value cmd ''command'' of
     None \<Rightarrow> Inl Undefined
   | Some v \<Rightarrow> Inr (
       if v = jstr ''notice'' then [Notice (json_toString (json_value cmd ''style'')) (json_toString (json_value cmd ''text''))]
       else if v = jstr ''session'' then [Session (json_toInt 0 (json_value cmd ''session''))]
       else if v = jstr ''welcome'' then [Welcome (TafLobbyPlayerInfo_of (json_toObject (json_value cmd ''me'')))]
       else if v = jstr ''player_info''
       then map (\<lambda>p. PlayerInfoSignal (TafLobbyPlayerInfo_of (json_toObject (Some p)))) (json_toArray (json_value cmd ''players''))
       else if v = jstr ''social'' then []
       else if v = jstr ''game_info'' then map GameInfoSignal (games_in cmd)
       else if v = jstr ''ping'' then [sendPong]
       else []))"

lemma stream_get_shorter: "stream_get s = Some (bs, rest) \<Longrightarrow> length rest < length s"
  by (auto simp: stream_get_def Let_def split: if_splits)

lemma receiveJson_shorter: "receiveJson k s = Some (cmd, rest) \<Longrightarrow> length rest < length s"
  by (auto simp: receiveJson_def dest: stream_get_shorter split: option.splits)

text \<open>The loop over what is available at the socket; the result has the bytes left there.\<close>

function taf_onReadyRead :: "lobby_codec \<Rightarrow> bytestring \<Rightarrow> cpp_error + bytestring \<times> taf_event list" where
  "taf_onReadyRead k s =
     (if s = [] then Inr ([], [])
      else case receiveJson k s of
        None \<Rightarrow> Inr (s, [])
      | Some (cmd, rest) \<Rightarrow> try_then (taf_dispatch cmd) (\<lambda>out.
          map_sum id (\<lambda>(left, out'). (left, out @ out')) (taf_onReadyRead k rest)))"
  by pat_completeness auto
termination
  by (relation "measure (\<lambda>(k, s). length s)") (auto dest: receiveJson_shorter)

declare taf_onReadyRead.simps [simp del]

section \<open>The replay server's program\<close>

text \<open>
  The two connections of \<open>doMain\<close>: a session is answered with the account's name and the digest of its password, the
  information about a game goes to the replay server.
\<close>

record replay_account =
  ra_username :: bytestring
  ra_password :: bytestring
  ra_sha256hex :: "bytestring \<Rightarrow> bytestring"

fun on_taf_event :: "replay_account \<Rightarrow> taf_event \<Rightarrow> ReplayServer \<Rightarrow> ReplayServer \<times> taf_event list" where
  "on_taf_event a (Session sessionId) r =
     (r, [taf_sendHello sessionId (ascii ''0'') (ascii ''0.0.0.0'') (ra_username a) (ra_sha256hex a (ra_password a))])"
| "on_taf_event a (GameInfoSignal g) r = (setGameInfo (word_of_int (tg_id g)) (tg_replayDelaySeconds g) (tg_state g) r, [])"
| "on_taf_event a (WroteJson json) r = (r, [WroteJson json])"
| "on_taf_event a _ r = (r, [])"

fun on_taf_events :: "replay_account \<Rightarrow> taf_event list \<Rightarrow> ReplayServer \<Rightarrow> ReplayServer \<times> taf_event list" where
  "on_taf_events a [] r = (r, [])"
| "on_taf_events a (e # es) r =
     (let (r1, out) = on_taf_event a e r; (r2, out') = on_taf_events a es r1 in (r2, out @ out'))"

text \<open>The stream arrives in portions; what a portion leaves at the socket is in front of the next.\<close>

fun receive_portions ::
  "lobby_codec \<Rightarrow> replay_account \<Rightarrow> bytestring \<Rightarrow> bytestring list \<Rightarrow> ReplayServer \<Rightarrow>
     cpp_error + bytestring \<times> ReplayServer \<times> taf_event list" where
  "receive_portions k a left [] r = Inr (left, r, [])"
| "receive_portions k a left (p # ps) r =
     try_then (taf_onReadyRead k (left @ p)) (\<lambda>(left', es).
       let (r', out) = on_taf_events a es r
       in map_sum id (\<lambda>(left'', r'', out'). (left'', r'', out @ out')) (receive_portions k a left' ps r'))"

end
