(* ===== verification/Taf_Link.thy ===== *)
theory Taf_Link
  imports Taf_Lobby
begin

text \<open>
  The commands of the lobby server on their way through the stream to the replay server: framing, portions, and what the
  commands leave behind.
\<close>

section \<open>Framing\<close>

lemma stream_get_put [simp]:
  assumes "length bs < 2 ^ 32 - 1"
  shows "stream_get (stream_put bs @ rest) = Some (bs, rest)"
proof -
  have n: "unat (word_of_nat (length bs) :: u32) = length bs"
    using assms by (simp add: unat_of_nat take_bit_nat_eq_self)
  have "(word_of_nat (length bs) :: u32) \<noteq> 0xffffffff"
  proof
    assume "(word_of_nat (length bs) :: u32) = 0xffffffff"
    then have "length bs = unat (0xffffffff :: u32)" using n by metis
    then show False using assms by simp
  qed
  then show ?thesis by (simp add: stream_get_def stream_put_def le32_def n)
qed

lemma stream_get_append:
  assumes "stream_get s = Some (bs, rest)"
  shows "stream_get (s @ s2) = Some (bs, rest @ s2)"
proof -
  have len: "4 \<le> length s" using assms by (simp add: stream_get_def not_less split: if_split_asm)
  have word: "mk32 ((s @ s2) ! 3) ((s @ s2) ! 2) ((s @ s2) ! 1) ((s @ s2) ! 0) = mk32 (s ! 3) (s ! 2) (s ! 1) (s ! 0)"
    using len by (subst (1 2 3 4) nth_append) auto
  have frame: "stream_get t = (if n = 0xffffffff then Some ([], drop 4 t) else if length (drop 4 t) < unat n then None
      else Some (take (unat n) (drop 4 t), drop (unat n) (drop 4 t)))"
    if "4 \<le> length t" and "mk32 (t ! 3) (t ! 2) (t ! 1) (t ! 0) = n" for t n
    unfolding stream_get_def Let_def that(2) if_not_P [OF leD [OF that(1)]] by (rule refl)
  show ?thesis
    using assms len unfolding frame [OF len refl] frame [OF le_trans [OF len] word, simplified]
    by (auto split: if_split_asm)
qed

definition sendable :: "lobby_codec \<Rightarrow> json_object \<Rightarrow> bool" where
  "sendable k c = (lc_parse k (lc_print k c) = c \<and> length (lc_print k c) < 2 ^ 32 - 5)"

lemma receiveJson_send: "sendable k c \<Longrightarrow> receiveJson k (sendJson k c @ rest) = Some (c, rest)"
  using stream_get_put [of "lc_print k c" "[]"]
  by (simp add: receiveJson_def sendJson_def sendable_def stream_put_def [of "lc_print k c"])

lemma receiveJson_append: "receiveJson k s = Some (c, rest) \<Longrightarrow> receiveJson k (s @ s2) = Some (c, rest @ s2)"
  by (cases "stream_get s") (auto simp: receiveJson_def stream_get_append)

section \<open>Portions\<close>

lemma taf_onReadyRead_append:
  "taf_onReadyRead k (s @ s2) = try_then (taf_onReadyRead k s) (\<lambda>(left, es).
     map_sum id (\<lambda>(left', es'). (left', es @ es')) (taf_onReadyRead k (left @ s2)))"
proof (induction k s rule: taf_onReadyRead.induct)
  case (1 k s)
  show ?case
  proof (cases "s = []")
    case True
    then show ?thesis by (cases "taf_onReadyRead k s2") (auto simp: taf_onReadyRead.simps [of k "[]"])
  next
    case False
    show ?thesis
    proof (cases "receiveJson k s")
      case None
      then show ?thesis using False
        by (cases "taf_onReadyRead k (s @ s2)") (auto simp: taf_onReadyRead.simps [of k s])
    next
      case (Some x)
      obtain c rest where x: "x = (c, rest)" by (cases x)
      note IH = "1.IH" [OF False Some x [symmetric]]
      show ?thesis
      proof (cases "taf_dispatch c")
        case (Inl e)
        then show ?thesis using False receiveJson_append [of k s c rest s2] Some x
          by (simp add: taf_onReadyRead.simps [of k s] taf_onReadyRead.simps [of k "s @ s2"])
      next
        case (Inr es)
        then show ?thesis using False receiveJson_append [of k s c rest s2] Some x IH
          by (cases "taf_onReadyRead k rest")
             (auto simp: taf_onReadyRead.simps [of k s] taf_onReadyRead.simps [of k "s @ s2"] sum.map_comp
               case_prod_beta comp_def id_def)
      qed
    qed
  qed
qed

lemma on_taf_events_append:
  "on_taf_events a (es @ es') r =
     (let (r1, out) = on_taf_events a es r; (r2, out') = on_taf_events a es' r1 in (r2, out @ out'))"
  by (induction es arbitrary: r) (auto simp: Let_def case_prod_beta)

lemma receive_portions_all:
  "receive_portions k a left ps r =
     (if ps = [] then Inr (left, r, [])
      else map_sum id (\<lambda>(left', es). (left', on_taf_events a es r)) (taf_onReadyRead k (left @ concat ps)))"
proof (induction ps arbitrary: left r)
  case (Cons p ps)
  note app = taf_onReadyRead_append [of k "left @ p" "concat ps"]
  show ?case
  proof (cases "taf_onReadyRead k (left @ p)")
    case (Inl e)
    then show ?thesis using app by simp
  next
    case (Inr x)
    obtain left1 es where x: "x = (left1, es)" by (cases x)
    obtain r1 out where r1: "on_taf_events a es r = (r1, out)" by (cases "on_taf_events a es r")
    show ?thesis
    proof (cases "ps = []")
      case True
      then show ?thesis using Inr x r1 by simp
    next
      case False
      then show ?thesis using Inr x r1 app Cons.IH [of left1 r1]
        by (cases "taf_onReadyRead k (left1 @ concat ps)")
           (auto simp: on_taf_events_append Let_def case_prod_beta)
    qed
  qed
qed simp

section \<open>What the commands ask for\<close>

definition announced :: "json_object \<Rightarrow> TafLobbyGameInfo list" where
  "announced c = (if json_value c ''command'' = Some (jstr ''game_info'') then games_in c else [])"

definition replies :: "replay_account \<Rightarrow> json_object \<Rightarrow> taf_event list" where
  "replies a c =
     (if json_value c ''command'' = Some (jstr ''session'')
      then [taf_sendHello (json_toInt 0 (json_value c ''session'')) (ascii ''0'') (ascii ''0.0.0.0'') (ra_username a)
              (ra_sha256hex a (ra_password a))]
      else if json_value c ''command'' = Some (jstr ''ping'') then [sendPong] else [])"

definition note_game :: "TafLobbyGameInfo \<Rightarrow> ReplayServer \<Rightarrow> ReplayServer" where
  "note_game g = setGameInfo (word_of_int (tg_id g)) (tg_replayDelaySeconds g) (tg_state g)"

lemma on_taf_events_games: "on_taf_events a (map GameInfoSignal gs) r = (fold note_game gs r, [])"
  by (induction gs arbitrary: r) (simp_all add: note_game_def)

lemma on_taf_events_players: "on_taf_events a (map (\<lambda>p. PlayerInfoSignal (f p)) ps) r = (r, [])"
  by (induction ps arbitrary: r) simp_all

lemma jstr_eq_iff: "jstr s = jstr t \<longleftrightarrow> ascii s = ascii t"
  by (simp add: jstr_def)

lemma dispatch_events:
  assumes "json_value c ''command'' \<noteq> None"
  shows "\<exists>es. taf_dispatch c = Inr es \<and> on_taf_events a es r = (fold note_game (announced c) r, replies a c)"
proof -
  obtain v where v: "json_value c ''command'' = Some v" using assms by blast
  have ne: "jstr ''session'' \<noteq> jstr ''notice''" "jstr ''game_info'' \<noteq> jstr ''notice''" "jstr ''ping'' \<noteq> jstr ''notice''"
    "jstr ''game_info'' \<noteq> jstr ''session''" "jstr ''ping'' \<noteq> jstr ''session''" "jstr ''welcome'' \<noteq> jstr ''session''"
    "jstr ''player_info'' \<noteq> jstr ''session''" "jstr ''social'' \<noteq> jstr ''session''" "jstr ''ping'' \<noteq> jstr ''game_info''"
    "jstr ''game_info'' \<noteq> jstr ''welcome''" "jstr ''ping'' \<noteq> jstr ''welcome''" "jstr ''game_info'' \<noteq> jstr ''player_info''"
    "jstr ''ping'' \<noteq> jstr ''player_info''" "jstr ''game_info'' \<noteq> jstr ''social''" "jstr ''ping'' \<noteq> jstr ''social''"
    by (simp_all add: jstr_eq_iff ascii_def)
  show ?thesis
    by (auto simp: taf_dispatch_def v announced_def replies_def on_taf_events_games on_taf_events_players sendPong_def ne
        ne [symmetric])
qed

lemma commands_received:
  assumes "\<forall>c \<in> set cmds. sendable k c \<and> json_value c ''command'' \<noteq> None"
  shows "map_sum id (\<lambda>(left, es). (left, on_taf_events a es r)) (taf_onReadyRead k (concat (map (sendJson k) cmds))) =
    Inr ([], fold note_game (concat (map announced cmds)) r, concat (map (replies a) cmds))"
  using assms
proof (induction cmds arbitrary: r)
  case Nil
  show ?case by (simp add: taf_onReadyRead.simps)
next
  case (Cons c cmds)
  let ?rest = "concat (map (sendJson k) cmds)"
  have rd: "receiveJson k (sendJson k c @ ?rest) = Some (c, ?rest)" using Cons.prems by (simp add: receiveJson_send)
  have ne: "sendJson k c \<noteq> []" by (simp add: sendJson_def stream_put_def le32_def)
  obtain es where es: "taf_dispatch c = Inr es" "on_taf_events a es r = (fold note_game (announced c) r, replies a c)"
    using dispatch_events Cons.prems by (meson list.set_intros(1))
  show ?case
    using Cons.IH [of "fold note_game (announced c) r"] Cons.prems rd ne es
    by (cases "taf_onReadyRead k ?rest")
       (auto simp: taf_onReadyRead.simps [of k "sendJson k c @ ?rest"] on_taf_events_append)
qed

text \<open>The last announcement of a game decides what the replay server knows of it.\<close>

definition known :: "TafLobbyGameInfo \<Rightarrow> bool" where
  "known g = (map lower (tg_state g) \<noteq> ascii ''ended'')"

lemma last_announcement:
  "map_option rg_delaySeconds (map_of (rs_gameInfo (fold note_game gs r)) n) =
     (let mine = filter (\<lambda>g. word_of_int (tg_id g) = n) gs in
      if mine = [] then map_option rg_delaySeconds (map_of (rs_gameInfo r) n)
      else if known (last mine) then Some (tg_replayDelaySeconds (last mine)) else None)"
proof (induction gs rule: rev_induct)
  case (snoc g gs)
  then show ?case by (auto simp: note_game_def setGameInfo_def known_def Let_def)
qed simp

section \<open>Property\<close>

text \<open>
  C24. The lobby server's commands are obeyed, however the stream is cut into portions: the whole stream is consumed; every session
  number is answered with the account and every ping with a pong, in order, and nothing else is written; the replay server
  has been told of exactly the games that were announced, so that the delay of a game is that of its last announcement
  (five minutes where that carries no whole number), and a game that was announced as ended is forgotten.
\<close>

theorem lobby_commands_are_obeyed:
  assumes "\<forall>c \<in> set cmds. sendable k c \<and> json_value c ''command'' \<noteq> None"
    and "concat portions = concat (map (sendJson k) cmds)"
  shows "\<exists>r'. receive_portions k a [] portions r = Inr ([], r', concat (map (replies a) cmds)) \<and>
    (\<forall>n. map_option rg_delaySeconds (map_of (rs_gameInfo r') n) =
      (let mine = filter (\<lambda>g. word_of_int (tg_id g) = n) (concat (map announced cmds)) in
       if mine = [] then map_option rg_delaySeconds (map_of (rs_gameInfo r) n)
       else if known (last mine) then Some (tg_replayDelaySeconds (last mine)) else None))"
proof (cases "portions = []")
  case True
  then have "cmds = []" using assms(2) by (cases cmds) (auto simp: sendJson_def stream_put_def le32_def)
  then show ?thesis using True by simp
next
  case False
  then show ?thesis
    using commands_received [OF assms(1), of a r] assms(2) last_announcement
    by (intro exI [of _ "fold note_game (concat (map announced cmds)) r"] conjI allI) (simp_all add: receive_portions_all)
qed

definition sample_game :: json_object where
  "sample_game = [(ascii ''command'', jstr ''game_info''), (ascii ''replay_delay_seconds'', JNumber 120), (ascii ''state'', jstr ''live''),
     (ascii ''uid'', JNumber 7)]"

definition sample_codec :: lobby_codec where
  "sample_codec = \<lparr>lc_print = (\<lambda>c. if c = sample_game then [1] else []), lc_parse = (\<lambda>bs. if bs = [1] then sample_game else [])\<rparr>"

theorem lobby_commands_are_obeyed_witness:
  "\<exists>r'. receive_portions sample_codec \<lparr>ra_username = [], ra_password = [], ra_sha256hex = id\<rparr> []
      [take 3 (sendJson sample_codec sample_game), drop 3 (sendJson sample_codec sample_game)] (ReplayServer_new (\<lambda>_. []) 0) = Inr ([], r', []) \<and>
    map_option rg_delaySeconds (map_of (rs_gameInfo r') 7) = Some 120"
proof -
  let ?ps = "[take 3 (sendJson sample_codec sample_game), drop 3 (sendJson sample_codec sample_game)]"
  have ok: "\<forall>c \<in> set [sample_game]. sendable sample_codec c \<and> json_value c ''command'' \<noteq> None"
    by (simp add: sendable_def sample_codec_def) (simp add: sample_game_def json_value_def)
  have g: "map (\<lambda>g. (tg_id g, tg_replayDelaySeconds g, known g)) (announced sample_game) = [(7, 120, True)]" "replies a sample_game = []" for a
    by (simp_all add: announced_def replies_def sample_game_def json_value_def games_in_def TafLobbyGameInfo_of_def known_def
        jstr_def ascii_def lower_def)
  then obtain i where "announced sample_game = [i]" "tg_id i = 7" "tg_replayDelaySeconds i = 120" "known i" by auto
  then show ?thesis
    using lobby_commands_are_obeyed [OF ok, of ?ps "\<lparr>ra_username = [], ra_password = [], ra_sha256hex = id\<rparr>" "ReplayServer_new (\<lambda>_. []) 0"] g(2)
    by (auto simp: Let_def dest!: spec [of _ 7])
qed

end
