(* ===== verification/Replay_Info.thy ===== *)
theory Replay_Info
  imports Demo_Trip Launch_Server Taf_Lobby
begin

text \<open>
  What the replayer prints about a recording (\<open>DemoInfoParser\<close> and \<open>doDemoInfo\<close> of \<open>apps/replayer/replayer.cpp\<close>): the
  map, the players, the version of the game and the fingerprint of the unit data, as JSON. The verbose output is
  left out.

  Qt's conversions and the digest are the parameter \<open>info_env\<close>; \<open>ie_garbage\<close> is what memory holds behind a status message.
  The members that the constructor leaves unset start with \<open>ie_unset\<close>.
\<close>

section \<open>The parser's client\<close>

record info_env =
  ie_qt :: qt
  ie_fromLatin1 :: "bytestring \<Rightarrow> bytestring"
  ie_md5 :: "u32 list \<Rightarrow> bytestring"
  ie_garbage :: byte
  ie_unset :: byte

record DemoInfo =
  di_units :: UnitDataRepo
  di_players :: "json list"
  di_mapName :: bytestring
  di_mapHash :: u32
  di_versionMajor :: byte
  di_versionMinor :: byte

definition DemoInfo_new :: "info_env \<Rightarrow> DemoInfo" where
  "DemoInfo_new env = \<lparr>di_units = [], di_players = [], di_mapName = [], di_mapHash = 0, di_versionMajor = ie_unset env,
     di_versionMinor = ie_unset env\<rparr>"

definition player_json :: "info_env \<Rightarrow> DemoPlayer \<Rightarrow> json" where
  "player_json env p = JObject [(ascii ''name'', JString (ie_fromLatin1 env (c_str (dp_name p)))),
     (ascii ''number'', JNumber (of_int (uint (dp_number p)))), (ascii ''side'', JString (demo_getSide p))]"

definition info_status :: "info_env \<Rightarrow> PlayerStatusMessage \<Rightarrow> DemoInfo \<Rightarrow> cpp_error + DemoInfo" where
  "info_status env msg i =
     opt_undef (TPlayerInfo_parse (ie_garbage env) (statusMessage msg)) (\<lambda>playerInfo.
     opt_undef (getMapName playerInfo) (\<lambda>mapName.
       Inr (if mapName = di_mapName i
            then i\<lparr>di_mapHash := getMapHash playerInfo, di_versionMajor := versionMajor playerInfo,
                   di_versionMinor := versionMinor playerInfo\<rparr>
            else i)))"

text \<open>The size of every sub-packet is taken to be that of the first.\<close>

function info_units :: "nat \<Rightarrow> bytestring \<Rightarrow> UnitDataRepo \<Rightarrow> UnitDataRepo option" where
  "info_units subLen bs m =
     (if bs = [] \<or> subLen = 0 then Some m
      else do { s \<leftarrow> load_bytes bs 0 subLen; m' \<leftarrow> repo_add s m; info_units subLen (drop subLen bs) m' })"
  by pat_completeness auto
termination
  by (relation "measure (\<lambda>(len, bs, m). length bs)") auto

declare info_units.simps [simp del]

fun info_handle :: "info_env \<Rightarrow> demo_event \<Rightarrow> DemoInfo \<Rightarrow> cpp_error + DemoInfo" where
  "info_handle env (EvHeader header) i = Inr (i\<lparr>di_mapName := fromUtf8 (ie_qt env) (hd_mapName header)\<rparr>)"
| "info_handle env (EvPlayer player n ofTotal) i = Inr (i\<lparr>di_players := di_players i @ [player_json env player]\<rparr>)"
| "info_handle env (EvExtraSector es n ofTotal) i = Inr i"
| "info_handle env (EvStatus msg dplayid n ofTotal) i = info_status env msg i"
| "info_handle env (EvUnitData ud) i =
     opt_undef (getExpectedSubPacketSize (unitData ud)) (\<lambda>len.
     opt_undef (info_units len (unitData ud) (di_units i)) (\<lambda>m. Inr (i\<lparr>di_units := m\<rparr>)))"
| "info_handle env (EvPacket packet unpaked n) i = Inr i"

fun info_events :: "info_env \<Rightarrow> demo_event list \<Rightarrow> DemoInfo \<Rightarrow> cpp_error + DemoInfo" where
  "info_events env [] i = Inr i"
| "info_events env (e # es) i = try_then (info_handle env e i) (info_events env es)"

definition getUnitDataFingerPrint :: "info_env \<Rightarrow> DemoInfo \<Rightarrow> cpp_error + bytestring" where
  "getUnitDataFingerPrint env i = opt_undef (repo_hash (di_units i)) (\<lambda>xs. Inr (ie_md5 env xs))"

definition byte_hex :: "byte \<Rightarrow> bytestring" where
  "byte_hex b = [hex_byte (unat b div 16), hex_byte (unat b mod 16)]"

definition toJson :: "info_env \<Rightarrow> bytestring \<Rightarrow> DemoInfo \<Rightarrow> cpp_error + json_object" where
  "toJson env filePath i = try_then (getUnitDataFingerPrint env i) (\<lambda>md5.
     let h = hex_digits (unat (di_mapHash i)) in Inr
     [(ascii ''filePath'', JString filePath),
      (ascii ''mapHash'', JString (replicate (8 - length h) 0x30 @ h)),
      (ascii ''mapName'', JString (di_mapName i)),
      (ascii ''modHash'', JString (concat (map byte_hex md5))),
      (ascii ''players'', JArray (di_players i)),
      (ascii ''taVersionMajor'', JNumber (of_int (uint (di_versionMajor i)))),
      (ascii ''taVersionMinor'', JNumber (of_int (uint (di_versionMinor i))))])"

text \<open>
  \<open>doDemoInfo\<close> on an open file, without \<open>toJson\<close>: the parser reads the headers and at most so many packets. An
  exception of the parser comes after the calls it has made; those fail with undefined behaviour alone.
\<close>

definition demo_info :: "info_env \<Rightarrow> nat \<Rightarrow> bytestring \<Rightarrow> cpp_error + DemoInfo" where
  "demo_info env numPaksToRead file =
     (let (p, rest, res) = demo_parse numPaksToRead DemoParser_new file
      in try_then (info_events env (p_events (scan p)) (DemoInfo_new env)) (\<lambda>i. try_then res (\<lambda>_. Inr i)))"

definition doDemoInfo :: "info_env \<Rightarrow> bytestring \<Rightarrow> bytestring \<Rightarrow> cpp_error + json_object" where
  "doDemoInfo env filePath file = try_then (demo_info env 100 file) (toJson env (ie_fromLatin1 env filePath))"

section \<open>A limit on the packets\<close>

text \<open>Packets are all that a run with a limit misses.\<close>

fun is_packet :: "demo_event \<Rightarrow> bool" where
  "is_packet (EvPacket pk us n) = True"
| "is_packet _ = False"

lemma packet_item_events: "packet_item d p = Inr q \<Longrightarrow> \<exists>pk us n. p_events q = p_events p @ [EvPacket pk us n]"
  by (auto simp: packet_item_def handle_def Let_def try_then_def opt_undef_def split: sum.splits if_splits option.splits)

lemma packet_round:
  "read_item packet_item p s = (p1, s1, Inr u) \<Longrightarrow> \<exists>e. p_events p1 = p_events p @ [e] \<and> is_packet e"
  by (erule read_item_cases) (auto dest: packet_item_events)

lemma packet_wait: "read_item packet_item p s = (p1, s1, Inl e) \<Longrightarrow> p_events p1 = p_events p"
  by (erule read_item_cases) auto

lemma packets_only:
  "items_loop c packet_item k p s = (p', r', res) \<Longrightarrow>
     filter (Not \<circ> is_packet) (p_events p') = filter (Not \<circ> is_packet) (p_events p)"
proof (induction c packet_item k p s arbitrary: p' r' res rule: items_loop.induct)
  case (1 c k p s)
  from "1.prems" show ?case
  proof (cases rule: items_loop_cases)
    case (round p1 s1)
    with "1.hyps" [OF round(1) sym [OF round(2)] refl refl round(3)] packet_round [OF round(2)] show ?thesis by auto
  qed (auto dest: packet_wait)
qed

lemma packets_limited:
  assumes "items_loop (\<lambda>_ _. True) packet_item k p s = (pu, ru, Inl DataNotReady)"
    and "items_loop c packet_item k p s = (p', r', res)"
  shows "res = Inr () \<or> res = Inl DataNotReady"
  using assms
proof (induction c packet_item k p s rule: items_loop.induct)
  case (1 c k p s)
  from "1.prems"(2) show ?case
  proof (cases rule: items_loop_cases)
    case (round p1 s1)
    have "items_loop (\<lambda>_ _. True) packet_item (k + 1) p1 s1 = (pu, ru, Inl DataNotReady)"
      using "1.prems"(1) round(2) by (simp add: items_loop.simps [of _ _ k p s])
    with "1.hyps" [OF round(1) sym [OF round(2)] refl refl] round(3) show ?thesis by blast
  next
    case (fail e)
    then show ?thesis using "1.prems"(1) by (simp add: items_loop.simps [of _ _ k p s])
  qed simp
qed

lemma limited_scan:
  assumes "doParse 0 sc s = (q, [], Inl DataNotReady)" and "doParse n sc s = (q', rest, res)"
  shows "(res = Inr () \<or> res = Inl DataNotReady) \<and>
    filter (Not \<circ> is_packet) (p_events q') = filter (Not \<circ> is_packet) (p_events q)"
proof (cases "parse_front sc s" rule: prod_cases3)
  case (fields p1 s1 r)
  show ?thesis
  proof (cases r)
    case (Inl e)
    then show ?thesis using assms fields by (simp add: doParse_def seq_read_def)
  next
    case (Inr u)
    then have "parse_packets 0 p1 s1 = (q, [], Inl DataNotReady)" "parse_packets n p1 s1 = (q', rest, res)"
      using assms fields by (simp_all add: doParse_def seq_read_def)
    then show ?thesis
      using packets_limited packets_only unfolding parse_packets_def by (simp (no_asm_use)) metis
  qed
qed

lemma info_events_packets: "info_events env (filter (Not \<circ> is_packet) es) i = info_events env es i"
proof (induction es arbitrary: i)
  case (Cons e es)
  then show ?case by (cases e; simp add: try_then_def split: sum.split)
qed simp

end
