(* ===== verification/Info_Link.thy ===== *)
theory Info_Link
  imports Replay_Info
begin

text \<open>
  The compiler's meta data and what the replayer prints about the recording: both describe the same game.
\<close>

section \<open>Events, and what matters of them\<close>

fun core :: "demo_event \<Rightarrow> demo_event" where
  "core (EvPlayer p n ofTotal) = EvPlayer p 0 0"
| "core (EvExtraSector es n ofTotal) = EvExtraSector es 0 0"
| "core (EvStatus msg dplayid n ofTotal) = EvStatus msg 0 0 0"
| "core e = e"

lemma info_events_core: "info_events env (map core es) i = info_events env es i"
proof (induction es arbitrary: i)
  case (Cons e es)
  then show ?case by (cases e; simp add: try_then_def split: sum.split)
qed simp

lemma info_events_append:
  "info_events env (es @ es') i = try_then (info_events env es i) (info_events env es')"
  by (induction es arbitrary: i) (auto simp: try_then_def split: sum.split)

lemma info_chain: "info_events env es i = Inr j \<Longrightarrow> info_events env es' j = r \<Longrightarrow> info_events env (es @ es') i = r"
  by (simp add: info_events_append)

lemma indexed: "map (\<lambda>i. f (xs ! i)) [0..<length xs] = map f xs"
  by (rule nth_equalityI) simp_all

lemma core_events:
  "map core (filter (Not \<circ> is_packet) (demo_events df)) =
     [EvHeader (df_header df)] @ map (\<lambda>es. EvExtraSector (unmasked es) 0 0) (df_sectors df) @
     map (\<lambda>p. EvPlayer p 0 0) (df_players df) @
     map (\<lambda>(n, m). EvStatus \<lparr>st_number = n, statusMessage = m\<rparr> 0 0 0) (df_statuses df) @ [EvUnitData \<lparr>unitData = df_unitData df\<rparr>]"
proof -
  have "filter (Not \<circ> is_packet) (map f xs) = map f xs" if "\<And>x. \<not> is_packet (f x)" for f :: "nat \<Rightarrow> demo_event" and xs
    by (rule filter_True) (use that in auto)
  moreover have "filter (Not \<circ> is_packet) (map f xs) = []" if "\<And>x. is_packet (f x)" for f :: "nat \<Rightarrow> demo_event" and xs
    by (rule filter_False) (use that in auto)
  ultimately show ?thesis
    by (simp add: demo_events_def comp_def case_prod_beta del: filter_map indexed
        indexed [of "\<lambda>es. EvExtraSector (unmasked es) 0 0"] indexed [of "\<lambda>p. EvPlayer p 0 0"])
       (simp add: indexed [of "\<lambda>es. EvExtraSector (unmasked es) 0 0"] indexed [of "\<lambda>p. EvPlayer p 0 0"]
        indexed [of "\<lambda>x. EvStatus \<lparr>st_number = fst x, statusMessage = snd x\<rparr> 0 0 0"] case_prod_beta)
qed

lemma info_sectors: "info_events env (map (\<lambda>es. EvExtraSector (f es) 0 0) ss) i = Inr i"
  by (induction ss) simp_all

lemma info_players:
  "info_events env (map (\<lambda>p. EvPlayer p 0 0) ps) i = Inr (i\<lparr>di_players := di_players i @ map (player_json env) ps\<rparr>)"
  by (induction ps arbitrary: i) simp_all

section \<open>Status messages\<close>

lemma length_load_bytes: "load_bytes s i n = Some bs \<Longrightarrow> length bs = n"
  by (auto simp: load_bytes_def split: if_splits)

lemma garbage_irrelevant:
  assumes "TPlayerInfo_parse g s = Some info"
  shows "\<exists>info'. TPlayerInfo_parse g' s = Some info' \<and> getMapName info' = getMapName info \<and>
    getMapHash info' = getMapHash info \<and> versionMajor info' = versionMajor info \<and> versionMinor info' = versionMinor info"
proof (cases "length s = 192")
  case True
  then have "TPlayerInfo_parse g' s = TPlayerInfo_parse g s" by (simp add: TPlayerInfo_parse_def)
  then show ?thesis using assms by simp
next
  case False
  then obtain d where d: "load_bytes s 170 16 = Some d" "data3 info = d @ [g]"
    and other: "TPlayerInfo_parse g' s = Some (info\<lparr>data3 := d @ [g']\<rparr>)"
    using assms by (auto simp: TPlayerInfo_parse_def Option.bind_eq_Some_conv)
  then show ?thesis
    using length_load_bytes [OF d(1)] by (simp add: getMapName_def getMapHash_def nth_append)
qed

definition agrees :: "bytestring \<Rightarrow> status_info \<Rightarrow> DemoInfo \<Rightarrow> bool" where
  "agrees mapName si i = (di_mapName i = mapName \<and>
     (case si_taMapHash si of
        None \<Rightarrow> di_mapHash i = 0
      | Some h \<Rightarrow> di_mapHash i = h \<and> di_versionMajor i = si_versionMajor si \<and> di_versionMinor i = si_versionMinor si))"

lemma status_agrees:
  assumes "read_status cfg mapName msg si = Some si'" and "agrees mapName si i"
  shows "\<exists>i'. info_status env \<lparr>st_number = n, statusMessage = msg\<rparr> i = Inr i' \<and> agrees mapName si' i' \<and>
    di_units i' = di_units i \<and> di_players i' = di_players i"
proof -
  obtain info name where info: "TPlayerInfo_parse (cfg_garbage cfg) msg = Some info" "getMapName info = Some name"
    and si': "si' = (if name = mapName
           then \<lparr>si_taMapHash = Some (getMapHash info), si_versionMajor = versionMajor info,
                 si_versionMinor = versionMinor info, si_cheatsEnabled = isCheatsEnabled info,
                 si_permLosByte = getPermLosByte info\<rparr>
           else si)"
    using assms(1) by (auto simp: read_status_def Option.bind_eq_Some_conv)
  obtain info' where "TPlayerInfo_parse (ie_garbage env) msg = Some info'" "getMapName info' = Some name"
    "getMapHash info' = getMapHash info" "versionMajor info' = versionMajor info" "versionMinor info' = versionMinor info"
    using garbage_irrelevant [OF info(1), of "ie_garbage env"] info(2) by auto
  with assms(2) show ?thesis by (auto simp: info_status_def si' agrees_def)
qed

lemma statuses_agree:
  assumes "write_statuses cfg mapName us si = Inr (si', b)" and "agrees mapName si i"
  shows "\<exists>i'. info_events env (map (\<lambda>u. EvStatus \<lparr>st_number = f u, statusMessage = gp_statusMessage (uc_gamePlayerInfo u)\<rparr> 0 0 0) us) i = Inr i' \<and>
    agrees mapName si' i' \<and> di_units i' = di_units i \<and> di_players i' = di_players i"
  using assms
proof (induction us arbitrary: si i b)
  case (Cons u us)
  obtain si1 b1 b2 where si1: "read_status cfg mapName (gp_statusMessage (uc_gamePlayerInfo u)) si = Some si1"
    and rest: "write_statuses cfg mapName us si1 = Inr (si', b2)"
    using Cons.prems(1) by (auto simp: opt_undef_def try_then_def split: option.splits sum.splits)
  obtain i1 where i1: "info_status env \<lparr>st_number = f u, statusMessage = gp_statusMessage (uc_gamePlayerInfo u)\<rparr> i = Inr i1"
    "agrees mapName si1 i1" "di_units i1 = di_units i" "di_players i1 = di_players i"
    using status_agrees [OF si1 Cons.prems(2), of env "f u"] by blast
  show ?case using Cons.IH [OF rest i1(2)] i1 by auto
qed simp

section \<open>Unit data\<close>

lemma std_put_last: "\<forall>k' \<in> fst ` set m. k' < k \<Longrightarrow> std_put k v m = m @ [(k, v)]"
  by (induction k v m rule: std_put.induct) auto

lemma repo_add_last:
  assumes "entry_ok k pd" and "\<forall>k' \<in> fst ` set m. k' < k"
  shows "repo_add pd m = Some (m @ [(k, pd)])"
proof -
  obtain ud where ud: "TUnitData_parse pd = Some ud" "pktid ud = UNIT_DATA_1A" "(sub ud, unit_id ud) = k" and
    pd: "length pd = 14" and k: "fst k \<in> {2, 3, 9}"
    using assms(1) by (auto simp: entry_ok_def split: option.splits)
  have "subPacketCode (pd ! 0) = UNIT_DATA_1A" using TUnitData_parse_defined [of pd] pd ud by auto
  then have first: "pd ! 0 = 0x1a" by (auto simp: subPacketCode_def split: if_split_asm)
  have "k \<notin> fst ` set m" using assms(2) by auto
  then have "map_of m k = None" by (simp add: map_of_eq_None_iff)
  then have "repo_add_unit pd ud m = Some (m @ [(k, pd)])"
    using k ud(3) std_put_last [OF assms(2)] by (auto simp: repo_add_unit_def)
  moreover have "pd \<noteq> []" using pd by auto
  ultimately show ?thesis
    using ud(1) first pd by (simp add: repo_add_def size_1A)
qed

lemma repo_entry: "repo_ok m \<Longrightarrow> (k, pd) \<in> set m \<Longrightarrow> entry_ok k pd"
  using in_set_map_of [of m k pd] by (auto simp: repo_ok_def dest: std.all_entries_lookup)

lemma info_units_repo:
  assumes "repo_ok (m1 @ m2)"
  shows "info_units 14 (concat (map snd m2)) m1 = Some (m1 @ m2)"
  using assms
proof (induction m2 arbitrary: m1)
  case Nil
  show ?case by (simp add: info_units.simps)
next
  case (Cons e m2)
  obtain k pd where e: "e = (k, pd)" by (cases e)
  have ok: "entry_ok k pd" "\<forall>k' \<in> fst ` set m1. k' < k"
    using Cons.prems repo_entry [OF Cons.prems, of k pd] by (auto simp: repo_ok_def e std_ok_def sorted_wrt_append)
  then have len: "length pd = 14" by (simp add: entry_ok_def)
  then have "pd \<noteq> []" by auto
  moreover have "load_bytes (pd @ concat (map snd m2)) 0 14 = Some pd" using len by (simp add: load_bytes_def)
  ultimately show ?case
    using Cons.IH [of "m1 @ [e]"] Cons.prems len
    by (subst info_units.simps) (simp add: e repo_add_last [OF ok])
qed

lemma info_unitData:
  assumes "repo_ok m" and "m \<noteq> []"
  shows "getExpectedSubPacketSize (concat (map snd m)) = Some 14 \<and> info_units 14 (concat (map snd m)) [] = Some m"
proof -
  obtain k pd m' where m: "m = (k, pd) # m'" using assms(2) by (cases m) auto
  then have ok: "entry_ok k pd" using repo_entry [OF assms(1)] by simp
  then obtain ud where ud: "TUnitData_parse pd = Some ud" "pktid ud = UNIT_DATA_1A" and len: "length pd = 14"
    by (auto simp: entry_ok_def split: option.splits)
  then have "subPacketCode (pd ! 0) = UNIT_DATA_1A" using TUnitData_parse_defined [of pd] by auto
  then have "pd ! 0 = 0x1a" by (auto simp: subPacketCode_def split: if_split_asm)
  then have "concat (map snd m) \<noteq> []" "concat (map snd m) ! 0 = 0x1a" using len by (auto simp: m nth_append)
  then show ?thesis using size_1A info_units_repo [of "[]" m] assms(1) by simp
qed

section \<open>The recording and its meta data\<close>

lemma header_bytes_meta:
  assumes "header_bytes cfg d g pids = Inr (bs, meta)" and "list_all (known g) pids"
  obtains si b where "write_statuses cfg (gi_mapName (gc_header g)) (map (player_context d g) pids)
       \<lparr>si_taMapHash = None, si_versionMajor = 0, si_versionMinor = 0, si_cheatsEnabled = False, si_permLosByte = 0\<rparr> = Inr (si, b)"
    and "getUnitDataHash cfg g = Inr (meta_unitsHash meta)" and "meta_mapName meta = c_str (gi_mapName (gc_header g))"
    and "meta_taMapHash meta = si_taMapHash si" and "meta_taVersionMajor meta = si_versionMajor si"
    and "meta_taVersionMinor meta = si_versionMinor si"
    and "meta_players meta = map (\<lambda>pid. let u = player_context d g pid in
       (gp_name (uc_gamePlayerInfo u), gp_side (uc_gamePlayerInfo u), uc_gamePlayerNumber u)) pids"
proof -
  have "filter (known g) pids = pids" using assms(2) by (auto simp: filter_id_conv list_all_iff)
  then show thesis
    using assms(1) that
    by (auto simp: header_bytes_def Let_def try_then_def commit_header_def comp_def split: sum.split_asm prod.split_asm)
qed

lemma c_str_printable: "printable s \<Longrightarrow> c_str s = s"
  unfolding c_str_def by (rule takeWhile_eq_all_conv [THEN iffD2]) (auto simp: printable_def list_all_iff)

lemma limited_parse:
  assumes "demo_fits df"
  shows "\<exists>p rest b. demo_parse n DemoParser_new (file_of (demo_records df)) = (p, rest, Inr b) \<and>
    filter (Not \<circ> is_packet) (p_events (scan p)) = filter (Not \<circ> is_packet) (demo_events df)"
proof -
  obtain q where q: "doParse 0 DemoScan_new (file_of (demo_records df)) = (q, [], Inl DataNotReady)" "p_events q = demo_events df"
    using demo_file_scanned [OF assms] by blast
  obtain q' rest res where q': "doParse n DemoScan_new (file_of (demo_records df)) = (q', rest, res)" by (metis prod_cases3)
  from limited_scan [OF q(1) q'] show ?thesis
    using q' q(2) by (auto simp: demo_parse_def DemoParser_new_def Let_def)
qed


definition example_info_env :: info_env where
  "example_info_env = \<lparr>ie_qt = qt_of (cfg_qt example_cfg), ie_fromLatin1 = id, ie_md5 = cfg_md5 example_cfg, ie_garbage = 1, ie_unset = 2\<rparr>"

lemma example_units_ok: "repo_ok (gc_unitData example_game)"
proof -
  have "entry_ok (2, 7) [0x1a, 2, 0, 0, 0, 0, 7, 0, 0, 0, 0x34, 0x12, 0, 0]" by code_simp
  from repo_ok_put [OF repo_ok_Nil this] show ?thesis by (simp add: example_game_def)
qed


end
