(* ===== verification/Connections.thy ===== *)
theory Connections
  imports Ta_Lobby
begin

text \<open>
  The connections of \<open>gpgnet4ta\<close>: to the lobby server (constructor of \<open>libs/gpgnet/GpgNetClient.cpp\<close>), from the
  console (\<open>libs/taflib/ConsoleReader.cpp\<close>), and from the game (\<open>libs/tafnet/GameReceiver.cpp\<close>). A socket is a number; that
  a socket object exists while it is in a list, and is deleted later, is all the model keeps of it.
\<close>

section \<open>The lobby server\<close>

text \<open>\<open>connected\<close> is the result of \<open>waitForConnected\<close> for an address and a port.\<close>

definition GpgNetClient_connect ::
  "lobby_env \<Rightarrow> (u32 \<Rightarrow> u16 \<Rightarrow> bool) \<Rightarrow> bytestring \<Rightarrow> cpp_error + GpgNetClient \<times> u32 \<times> u16" where
  "GpgNetClient_connect env connected gpgnetHostAndPort =
     (let (host, prt) = SplitHostAndPort env gpgnetHostAndPort (lo_address env (ascii ''127.0.0.1''), 0xdead) in
      if \<not> connected host prt then Inl (RuntimeError ''unable to connect to gpgnet'')
      else Inr (GpgNetClient_new, host, prt))"

section \<open>The console\<close>

record ConsoleReader =
  cr_tcpSockets :: "nat list"
  cr_loggedAConnection :: bool

definition ConsoleReader_new :: ConsoleReader where
  "ConsoleReader_new = \<lparr>cr_tcpSockets = [], cr_loggedAConnection = False\<rparr>"

definition console_onNewConnection :: "nat \<Rightarrow> ConsoleReader \<Rightarrow> ConsoleReader" where
  "console_onNewConnection socket c = c\<lparr>cr_tcpSockets := cr_tcpSockets c @ [socket]\<rparr>"

definition console_onSocketStateChanged :: "nat \<Rightarrow> socket_state \<Rightarrow> ConsoleReader \<Rightarrow> ConsoleReader" where
  "console_onSocketStateChanged sender st c =
     (if st = UnconnectedState
      then c\<lparr>cr_loggedAConnection := True, cr_tcpSockets := remove1 sender (cr_tcpSockets c)\<rparr>
      else c)"

text \<open>The text of \<open>textReceived\<close>: a \<open>QString\<close> made of a byte array ends at the first zero.\<close>

definition console_onReadyRead :: "qt \<Rightarrow> bytestring \<Rightarrow> bytestring option" where
  "console_onReadyRead q datas = (if datas = [] then None else Some (fromUtf8 q (c_str datas)))"

text \<open>A portion of console input on its way through the program: to the launcher, then to the lobby.\<close>

definition app_console_input :: "lobby_env \<Rightarrow> launcher_env \<Rightarrow> bytestring \<Rightarrow> TaLobby \<Rightarrow> GameLauncher \<Rightarrow> app_result" where
  "app_console_input env le datas t g =
     (case console_onReadyRead (qt_of (lo_qtv env)) datas of
        None \<Rightarrow> Inr (t, g, [], [])
      | Some msg \<Rightarrow> app_console env le msg t g)"

section \<open>The game\<close>

text \<open>\<open>m_sockets\<close> of a \<open>GameReceiver\<close>; the two arguments are the pending connections of its two servers.\<close>

definition game_onNewConnection :: "nat option \<Rightarrow> nat option \<Rightarrow> nat list \<Rightarrow> nat list" where
  "game_onNewConnection tcpPending enumPending sockets =
     (case (case tcpPending of None \<Rightarrow> enumPending | Some s \<Rightarrow> Some s) of
        None \<Rightarrow> sockets
      | Some clientSocket \<Rightarrow> sockets @ [clientSocket])"

definition game_onSocketStateChanged :: "nat \<Rightarrow> socket_state \<Rightarrow> nat list \<Rightarrow> nat list" where
  "game_onSocketStateChanged sender st sockets = (if st = UnconnectedState then remove1 sender sockets else sockets)"

section \<open>What the lists hold\<close>

text \<open>
  As long as a socket is announced once and disconnects once, the lists hold exactly the sockets that are connected.
\<close>

lemma console_sockets:
  "distinct (cr_tcpSockets c) \<Longrightarrow> s \<notin> set (cr_tcpSockets c) \<Longrightarrow>
     distinct (cr_tcpSockets (console_onNewConnection s c)) \<and> set (cr_tcpSockets (console_onNewConnection s c)) = insert s (set (cr_tcpSockets c))"
  "distinct (cr_tcpSockets c) \<Longrightarrow> set (cr_tcpSockets (console_onSocketStateChanged s UnconnectedState c)) = set (cr_tcpSockets c) - {s}"
  by (simp_all add: console_onNewConnection_def console_onSocketStateChanged_def)

lemma game_sockets:
  "distinct ss \<Longrightarrow> s \<notin> set ss \<Longrightarrow> set (game_onNewConnection (Some s) e ss) = insert s (set ss)"
  "distinct ss \<Longrightarrow> set (game_onSocketStateChanged s UnconnectedState ss) = set ss - {s}"
  by (simp_all add: game_onNewConnection_def game_onSocketStateChanged_def)

end
