(* ===== verification/Spec2Isabelle.thy ===== *)
theory Spec2Isabelle
  imports Packet_Crypt Packet_Compress Packet_Records Unit_Data_Repo Crc Duplicate_Detection Tafnet_Probes Game_Node Gpgnet_Client
    Game_Run Demo_Link Replay_View Launch_Link Launcher_Run Replayer_Sync Game_Status Lobby_Run Taf_Link Info_Link Connections
begin

text \<open>
  Verification of gpgnet4ta, the launcher of the TA Forever project: it runs the game Total Annihilation under the
  direction of a GPGnet lobby server and tunnels the traffic of the players through one UDP port each; companion
  programs record games, serve the recordings to viewers while they are written, and play them back.

  The programs and how they work together (file names are below \<open>src/\<close>; every theory opens with a text that names
  the files it models, and the definitions keep the names of the functions they model, with a prefix where classes
  share a name):

  \<^bold>\<open>The network format of the game\<close>, \<open>libs/tapacket\<close> and \<open>libs/taflib\<close>. \<open>Packet_Crypt\<close>, \<open>Packet_Compress\<close>,
  \<open>Sub_Packet_Codes\<close> and \<open>Sub_Packets\<close> model \<open>TPacket\<close>: cipher, compression, the size table, splitting and the
  packing of sub-packets. \<open>Packet_Records\<close> has the decoded sub-packets, \<open>Unit_Data_Repo\<close> the repository of unit
  definitions, \<open>Dplay\<close> the DirectPlay messages around the packets (\<open>DPlayPacket\<close>), \<open>Ta_Packet_Parser\<close> the parser
  \<open>TAPacketParser\<close> that reports what it finds to a list of handlers. \<open>Crc\<close> and \<open>Duplicate_Detection\<close> are the
  CRC-32 and the recognition of repeated packets. Shown: decompression and unpacking restore what compression and
  packing were given, the optimised unpacker refines the slow one, decoding inverts encoding for each class, what
  is packed, compressed and enciphered is what the parser reports, and on which inputs a read leaves its buffer.

  \<^bold>\<open>The tunnel\<close>, \<open>libs/tafnet\<close>. \<open>Data_Buffer\<close>, \<open>Resend_Rate\<close> and \<open>Tafnet_Node\<close> model \<open>TafnetNode.cpp\<close>:
  fragmentation, sequence numbers, acknowledgement, resend and reassembly; \<open>Game_Sockets\<close> the sockets towards the
  game (\<open>GameSender\<close>, \<open>GameReceiver\<close>), \<open>Address_Translater\<close> the rewriting of addresses and \<open>Game_Node\<close> the node
  \<open>TafnetGameNode\<close> that joins them. \<open>Tafnet_Link\<close> puts two transport nodes at the ends of a network that loses,
  repeats and reorders, as a step relation: in every reachable state the messages delivered are a prefix of those
  accepted, and no fragment is forgotten too early. \<open>Tafnet_Probes\<close> has the probes for the size of packets.
  \<open>Game_Node\<close> shows that an address that leaves one node arrives as the right local socket at another, which
  datagrams travel over the reliable channel, and that players are admitted in the order of their invitations.

  \<^bold>\<open>The program gpgnet4ta\<close>, \<open>apps/gpgnet4ta\<close> and \<open>libs/gpgnet\<close>. \<open>Gpgnet_Parse\<close> and \<open>Gpgnet_Client\<close> model the
  protocol of the lobby server, from the reader of single bytes to the signals (\<open>GpgNetParse\<close>,
  \<open>GpgNetServerMessages\<close>, \<open>GpgNetSend\<close>, \<open>GpgNetClient\<close>). \<open>Game_Monitor\<close> is \<open>GameMonitor2\<close>, which infers
  players, teams, start, end and result of a game from its packets; \<open>Game_Teams\<close>, \<open>Game_Verdict\<close> and \<open>Game_Run\<close>
  are about its runs. \<open>Game_Events\<close> has the receivers of its reports (\<open>GameEventHandlerQt.cpp\<close> and the two classes
  in \<open>gpgnet4ta.cpp\<close>), with properties in \<open>Game_Reports\<close> and \<open>Game_Status\<close>: the commands sent to the lobby server
  are the course of the game, and the slots mirror the battle room. \<open>Launch_Server\<close> and \<open>Game_Launcher\<close> model
  \<open>libs/talaunch\<close> and \<open>GpgNetGameLauncher.cpp\<close>, with properties of requests and replies in \<open>Launch_Link\<close> and of
  runs in \<open>Launcher_Run\<close>. \<open>Ta_Lobby\<close> is \<open>TaLobby.cpp\<close>, which holds the nodes, the parser, the monitor and the
  recording client as its parts; \<open>Lobby_Run\<close> shows the invariant of its runs, and \<open>Connections\<close> has the connections
  to the lobby server, the console and the game.

  \<^bold>\<open>Recording\<close>, \<open>libs/tareplay\<close> and the demo files of \<open>libs/tapacket\<close>. \<open>Demo_Client\<close> watches the local game
  (\<open>TaDemoCompilerClient\<close>) and reports to \<open>Demo_Compiler\<close> (\<open>TaDemoCompiler\<close>), which merges the reports of all
  players into one file. \<open>Demo_Records\<close> and \<open>Demo_Parser\<close> model the format, its writer and its resumable parser.
  \<open>Demo_Server\<close> is about the reachable states of the compiler, \<open>Demo_Trip\<close> about reading back what was written,
  \<open>Demo_Link\<close> about the way of a packet of the local game into the recording.

  \<^bold>\<open>Serving and playing recordings\<close>. \<open>Replay_Server\<close> models \<open>TaReplayServer\<close> and \<open>TaReplayClient\<close>, with the delay
  of viewers in \<open>Replay_Delay\<close> and the agreement of the two sides in \<open>Replay_View\<close>. \<open>Taf_Lobby\<close> is the link of
  the replay server to the lobby server (\<open>apps/replayserver\<close>), with its property in \<open>Taf_Link\<close>. \<open>Replayer_State\<close>,
  \<open>Replayer_Lobby\<close> and \<open>Replayer_Play\<close> model \<open>apps/replayer/TaReplayer.cpp\<close>, a host that plays a recording to
  watchers: its state and loading, the synchronisation with each watcher, launch and playback.
  \<open>Replayer_Laws\<close> has the frame conditions, \<open>Replayer_Progress\<close> termination and invariant, \<open>Replayer_Sync\<close> the
  properties of the lobby. \<open>Replay_Info\<close> is the program's summary of a recording (\<open>replayer.cpp\<close>); \<open>Info_Link\<close>
  compares it with the meta data the compiler writes.

  Conventions. Integers keep their width as words where the code's type has one (\<open>Prelude\<close>); counters that the code
  never brings near the end of their type are naturals. A byte string is the list of its bytes, a \<open>QString\<close> its UTF-8
  encoding. \<open>std::map\<close> and \<open>QMap\<close> are association lists in the order of the keys (\<open>Std_Map\<close>). An operation takes
  the component's record to the new one and the list of what it emits or writes; exceptions and undefined behaviour
  are values of a sum type, and where an exception leaves a changed state behind the state is returned beside it.
  Pointers into buffers are positions or suffixes. Objects shared by pointer live in a store (\<open>Demo_Compiler\<close>).

  Interfaces. \<open>resumable\<close>, \<open>stable_reader\<close>, \<open>phase\<close> and \<open>two_phases\<close> (\<open>Resumable\<close>) are the contract of readers that
  can be called again when more bytes are there; \<open>Gpgnet_Parse\<close>, \<open>Demo_Records\<close> and \<open>Demo_Parser\<close> provide it.
  \<open>map_interface\<close> is the contract of the ordered maps, \<open>fragment_store\<close> that of the receiving buffer, \<open>seen_set\<close>
  that of the duplicate detection, \<open>sub_packet_codec\<close> that of a class with parser and printer. \<open>send_frame\<close>,
  \<open>message_frame\<close> and \<open>play_frame\<close> state which parts of the replayer an operation leaves alone. Every locale is
  interpreted on the model's operations. The step relations are \<open>inductive\<close>, with invariants by rule induction.

  Loops and fuel. Loops over buffers are recursive functions whose measure is what is left of the buffer. The
  two functions whose loop need not end in the code, the translation of addresses and the series of packet-size probes,
  are partial: \<open>None\<close> stands for not returning.
  The loop \<open>doPlay\<close> of the replayer takes the messages that arrive in each of its rounds as the list \<open>inboxes\<close> and
  returns \<open>None\<close> when it is too short; a list longer than twice the bytes left in the file, plus the packets that wait,
  plus one is always enough, which is proved with termination: a packet of the recording takes at least a byte.

  Parameters, which stand for what is not code of the repository: conversions of Qt between texts, numbers and
  addresses, the printer and parser of JSON, digests, DirectPlay (\<open>JDPlay\<close>), files, clocks, the success of socket
  operations and the ports the system assigns, members a constructor leaves uninitialised, and the rounding of
  \<open>double\<close>s. Where a property needs a law of a parameter, the law is a hypothesis of the theorem and its witness
  names a concrete function for it.

  Not modelled: logging, hex dumps, watchdogs and message boxes (\<open>libs/taflib\<close>), on which nothing depends; the
  wrapper of Windows' DirectPlay (\<open>libs/jdplay\<close>); the command line options of the programs and
  \<open>apps/talauncher\<close>; IRC (\<open>IrcForward\<close>), of which the model keeps whether it is active; the generator of hardware
  ids, which no program uses; the map tool behind \<open>getMapDetails\<close>, which is a parameter; test programs and recorded
  test packets; the disabled sections of the code, the output of the verbose mode, and threads: a handler of Qt's
  event loop runs to its end before the next one starts, and interleavings are sequences of whole handlers.
\<close>

end
